(* ===== verification/Prelude.thy ===== *)
theory Prelude
  imports "HOL-Library.Word"
begin

text \<open>
  Shared vocabulary of the development: machine integers of the relinker
  (\<open>std::uint8_t\<close> .. \<open>std::uint64_t\<close> as words), buffers
  (\<open>std::vector<std::uint8_t>\<close> as byte lists), C++ exceptions as values of a
  sum type, sequential composition of fallible code, checked loops over lists, and the
  little-endian view of words that \<open>std::memcpy\<close> gives on the x86-64 host.

  Conventions used by every theory: values read from a file or computed from addresses
  are words of their declared width and wrap around; sizes of and positions inside a
  container are \<open>nat\<close> (no \<open>std::vector\<close> reaches \<open>2 ^ 64\<close> bytes), and a word is
  turned into a position by \<open>unat\<close> only where the code indexes a container with it.
\<close>

unbundle bit_operations_syntax

named_theorems res_simps \<open>evaluation of sequential composition of fallible code\<close>
named_theorems layout_simps \<open>lengths and elements of buffers after reads and writes\<close>

type_synonym u8 = "8 word"
type_synonym u16 = "16 word"
type_synonym u32 = "32 word"
type_synonym u64 = "64 word"
type_synonym bytes = "u8 list"

text \<open>\<open>std::numeric_limits<std::uint64_t>::max()\<close>\<close>

abbreviation u64_max :: u64 where "u64_max \<equiv> - 1"

text \<open>\<open>std::to_string\<close> of an unsigned number.\<close>

fun to_string :: "nat \<Rightarrow> string" where
  "to_string n =
     (if n < 10 then [''0123456789'' ! n] else to_string (n div 10) @ [''0123456789'' ! (n mod 10)])"

declare to_string.simps [simp del]

subsection \<open>Exceptions as values\<close>

datatype exn =
    RelinkerException string u64
  | CodegenException string u64
  | OutOfRange string
  | InvalidArgument string
  | OverflowError string
  | RuntimeError string

type_synonym 'a res = "exn + 'a"

fun bind_res :: "'a res \<Rightarrow> ('a \<Rightarrow> 'b res) \<Rightarrow> 'b res" where
  "bind_res (Inl e) f = Inl e"
| "bind_res (Inr x) f = f x"

lemma bind_res_Inr_iff [res_simps]:
  "bind_res m f = Inr y \<longleftrightarrow> (\<exists>x. m = Inr x \<and> f x = Inr y)"
  by (cases m) auto

lemma bind_res_Inl_iff [res_simps]:
  "bind_res m f = Inl e \<longleftrightarrow> m = Inl e \<or> (\<exists>x. m = Inr x \<and> f x = Inl e)"
  by (cases m) auto

lemma bind_res_cong [fundef_cong]:
  "m = m' \<Longrightarrow> (\<And>x. m' = Inr x \<Longrightarrow> f x = f' x) \<Longrightarrow> bind_res m f = bind_res m' f'"
  by (cases m) auto

text \<open>A result is a value with a property; the form that evaluation on a concrete input produces.\<close>

fun res_holds :: "('a \<Rightarrow> bool) \<Rightarrow> 'a res \<Rightarrow> bool" where
  "res_holds P (Inl e) = False"
| "res_holds P (Inr x) = P x"

lemma res_holdsD: "res_holds P m \<Longrightarrow> \<exists>x. m = Inr x \<and> P x"
  by (cases m) auto

lemma if_Inl_eq_Inr [res_simps]: "(if c then Inl e else m) = Inr y \<longleftrightarrow> \<not> c \<and> m = Inr y"
  by simp

text \<open>A loop that maps a fallible body over a list and stops at the first exception.\<close>

fun map_res :: "('a \<Rightarrow> 'b res) \<Rightarrow> 'a list \<Rightarrow> 'b list res" where
  "map_res f [] = Inr []"
| "map_res f (x # xs) = bind_res (f x) (\<lambda>y. bind_res (map_res f xs) (\<lambda>ys. Inr (y # ys)))"

text \<open>A loop that threads an accumulator through a fallible body.\<close>

fun fold_res :: "('a \<Rightarrow> 's \<Rightarrow> 's res) \<Rightarrow> 'a list \<Rightarrow> 's \<Rightarrow> 's res" where
  "fold_res f [] s = Inr s"
| "fold_res f (x # xs) s = bind_res (f x s) (fold_res f xs)"

lemma map_res_cong [fundef_cong]:
  "xs = ys \<Longrightarrow> (\<And>x. x \<in> set ys \<Longrightarrow> f x = g x) \<Longrightarrow> map_res f xs = map_res g ys"
  by (induction xs arbitrary: ys) auto

lemma map_res_Inr_iff:
  "map_res f xs = Inr ys \<longleftrightarrow> list_all2 (\<lambda>x y. f x = Inr y) xs ys"
  by (induction xs arbitrary: ys) (auto simp: res_simps list_all2_Cons1)

lemma map_res_length: "map_res f xs = Inr ys \<Longrightarrow> length ys = length xs"
  by (auto simp: map_res_Inr_iff dest: list_all2_lengthD)

lemma map_res_nth: "map_res f xs = Inr ys \<Longrightarrow> i < length xs \<Longrightarrow> f (xs ! i) = Inr (ys ! i)"
  by (auto simp: map_res_Inr_iff dest: list_all2_nthD)

lemma fold_res_append:
  "fold_res f (xs @ ys) s = bind_res (fold_res f xs s) (fold_res f ys)"
proof (induction xs arbitrary: s)
  case Nil
  then show ?case by simp
next
  case (Cons x xs)
  then show ?case by (cases "f x s") auto
qed

lemma fold_res_filter:
  "fold_res (\<lambda>x s. if P x then f x s else Inr s) xs s = fold_res f (filter P xs) s"
proof (induction xs arbitrary: s)
  case Nil
  then show ?case by simp
next
  case (Cons x xs)
  then show ?case by (cases "P x"; cases "f x s") auto
qed

lemma fold_res_map: "fold_res f (map g xs) = fold_res (\<lambda>x. f (g x)) xs"
proof (rule ext)
  fix s
  show "fold_res f (map g xs) s = fold_res (\<lambda>x. f (g x)) xs s"
  proof (induction xs arbitrary: s)
    case Nil
    then show ?case by simp
  next
    case (Cons x xs)
    then show ?case by (cases "f (g x) s") auto
  qed
qed

lemma fold_res_invariant:
  assumes "fold_res f xs s = Inr t" and "P s"
    and "\<And>x s s'. x \<in> set xs \<Longrightarrow> P s \<Longrightarrow> f x s = Inr s' \<Longrightarrow> P s'"
  shows "P t"
  using assms
proof (induction xs arbitrary: s)
  case Nil
  then show ?case by simp
next
  case (Cons x xs)
  from Cons.prems(1) obtain u where u: "f x s = Inr u" "fold_res f xs u = Inr t"
    by (auto simp: res_simps)
  have "P u" using Cons.prems(2,3) u(1) by auto
  then show ?case using Cons.IH [OF u(2)] Cons.prems(3) by auto
qed

lemma fold_res_upt_invariant:
  assumes "fold_res f [0..<n] s = Inr t" and "P 0 s"
    and "\<And>i s s'. P i s \<Longrightarrow> f i s = Inr s' \<Longrightarrow> P (Suc i) s'"
  shows "P n t"
  using assms
proof (induction n arbitrary: t)
  case 0
  then show ?case by simp
next
  case (Suc n)
  then show ?case by (auto simp: fold_res_append res_simps)
qed

subsection \<open>Little-endian words\<close>

fun le_word :: "bytes \<Rightarrow> 'a::len word" where
  "le_word [] = 0"
| "le_word (b # bs) = ucast b OR push_bit 8 (le_word bs)"

primrec le_bytes :: "nat \<Rightarrow> 'a::len word \<Rightarrow> bytes" where
  "le_bytes 0 w = []"
| "le_bytes (Suc n) w = ucast w # le_bytes n (drop_bit 8 w)"

lemma length_le_bytes [simp]: "length (le_bytes n w) = n"
  by (induction n arbitrary: w) auto

lemma le_word_le_bytes_take: "le_word (le_bytes n w) = take_bit (8 * n) (w :: 'a::len word)"
proof (induction n arbitrary: w)
  case 0
  then show ?case by simp
next
  case (Suc n)
  have "le_word (le_bytes (Suc n) w) =
      (ucast (ucast w :: u8) :: 'a word) OR push_bit 8 (take_bit (8 * n) (drop_bit 8 w))"
    using Suc by simp
  also have "\<dots> = take_bit (8 * Suc n) w"
    by (rule bit_word_eqI)
      (auto simp: bit_simps bit_imp_le_length not_less dest: bit_imp_le_length)
  finally show ?case .
qed

lemma le_word_le_bytes:
  "LENGTH('a) \<le> 8 * n \<Longrightarrow> le_word (le_bytes n (w :: 'a::len word)) = w"
  by (simp add: le_word_le_bytes_take take_bit_word_eq_self)

subsection \<open>Overflow checks\<close>

text \<open>
  The idiom \<open>y > max - x\<close> (or \<open>y > max() - x\<close> before \<open>x + y\<close>) is exact: when it does not
  fire, the sum does not wrap.
\<close>

lemma unat_minus_one_full: "unat (- 1 :: 'a::len word) = 2 ^ LENGTH('a) - 1"
  by (simp add: unsigned_minus_1_eq_mask mask_eq_exp_minus_1)

lemma unat_minus_one_minus: "unat (- 1 - y :: 'a::len word) = 2 ^ LENGTH('a) - 1 - unat y"
  by (simp add: unat_sub unat_minus_one_full)

lemma no_wrap_iff: "x \<le> - 1 - y \<longleftrightarrow> unat x + unat y < 2 ^ LENGTH('a)" for x y :: "'a::len word"
proof -
  have "unat y < 2 ^ LENGTH('a)" by (rule unsigned_less)
  then have "unat x \<le> 2 ^ LENGTH('a) - 1 - unat y \<longleftrightarrow> unat x + unat y < 2 ^ LENGTH('a)"
    by linarith
  then show ?thesis by (simp only: word_le_nat_alt unat_minus_one_minus)
qed

lemma unat_add_no_wrap: "x \<le> - 1 - y \<Longrightarrow> unat (x + y) = unat x + unat y" for x y :: "'a::len word"
  by (simp add: no_wrap_iff unat_word_ariths)

lemma unat_sub_le: "y \<le> x \<Longrightarrow> unat (x - y) = unat x - unat y" for x y :: "'a::len word"
  by (rule unat_sub)

subsection \<open>Overwriting part of a buffer\<close>

definition blit :: "bytes \<Rightarrow> nat \<Rightarrow> bytes \<Rightarrow> bytes" where
  "blit buf off src = take off buf @ src @ drop (off + length src) buf"

definition subbytes :: "bytes \<Rightarrow> nat \<Rightarrow> nat \<Rightarrow> bytes" where
  "subbytes buf off n = take n (drop off buf)"

lemma length_blit [layout_simps]:
  "off + length src \<le> length buf \<Longrightarrow> length (blit buf off src) = length buf"
  by (simp add: blit_def)

lemma length_subbytes [layout_simps]: "off + n \<le> length buf \<Longrightarrow> length (subbytes buf off n) = n"
  by (simp add: subbytes_def)

lemma nth_blit:
  assumes "off + length src \<le> length buf" and "i < length buf"
  shows "blit buf off src ! i =
    (if off \<le> i \<and> i < off + length src then src ! (i - off) else buf ! i)"
  using assms by (auto simp: blit_def nth_append)

lemma nth_subbytes [layout_simps]: "i < n \<Longrightarrow> off + n \<le> length buf \<Longrightarrow> subbytes buf off n ! i = buf ! (off + i)"
  by (simp add: subbytes_def)

lemma subbytes_blit_same:
  "off + length src \<le> length buf \<Longrightarrow> subbytes (blit buf off src) off (length src) = src"
  by (simp add: subbytes_def blit_def)

lemma subbytes_blit_other:
  assumes "off + length src \<le> length buf" and "o2 + n \<le> length buf"
    and "o2 + n \<le> off \<or> off + length src \<le> o2"
  shows "subbytes (blit buf off src) o2 n = subbytes buf o2 n"
proof (rule nth_equalityI)
  show "length (subbytes (blit buf off src) o2 n) = length (subbytes buf o2 n)"
    using assms by (simp add: layout_simps)
next
  fix i assume "i < length (subbytes (blit buf off src) o2 n)"
  then have "i < n" using assms by (simp add: layout_simps)
  then show "subbytes (blit buf off src) o2 n ! i = subbytes buf o2 n ! i"
    using assms by (auto simp: layout_simps nth_blit)
qed

lemma subbytes_append_left: "off + n \<le> length xs \<Longrightarrow> subbytes (xs @ ys) off n = subbytes xs off n"
  by (simp add: subbytes_def)

lemma subbytes_append_right: "subbytes (xs @ ys) (length xs + k) n = subbytes ys k n"
  by (simp add: subbytes_def)


subsection \<open>Rounding to a power of two\<close>

lemma and_not_mask_unat: "unat (w AND NOT (mask n) :: 'a::len word) = unat w div 2 ^ n * 2 ^ n"
proof -
  have "w AND NOT (mask n) = push_bit n (drop_bit n w)"
    by (rule bit_word_eqI) (auto simp: bit_simps not_less dest: bit_imp_le_length)
  also have "unat \<dots> = take_bit LENGTH('a) (unat w div 2 ^ n * 2 ^ n)"
    unfolding unsigned_push_bit_eq unsigned_drop_bit_eq take_bit_nat_eq_self [OF unsigned_less]
    by (simp only: push_bit_eq_mult drop_bit_eq_div)
  also have "\<dots> = unat w div 2 ^ n * 2 ^ n"
  proof -
    have "unat w div 2 ^ n * 2 ^ n \<le> unat w" by (simp add: div_times_less_eq_dividend)
    also have "\<dots> < 2 ^ LENGTH('a)" by (rule unsigned_less)
    finally show ?thesis by (simp add: take_bit_nat_eq_self)
  qed
  finally show ?thesis .
qed

lemma mask_eq_power_minus: "(2 ^ n - 1 :: 'a::len word) = mask n"
  by (simp add: mask_eq_exp_minus_1)

text \<open>Rounding up with \<open>(w + (2^n - 1)) & ~(2^n - 1)\<close>, when the sum does not wrap.\<close>

lemma round_up_unat:
  fixes w :: "'a::len word"
  assumes "w \<le> - 1 - mask n" and "n < LENGTH('a)"
  shows "unat w \<le> unat ((w + mask n) AND NOT (mask n))"
    and "unat ((w + mask n) AND NOT (mask n)) < unat w + 2 ^ n"
    and "2 ^ n dvd unat ((w + mask n) AND NOT (mask n))"
proof -
  have "unat (mask n :: 'a word) = mask n"
    by (rule bit_eqI) (use assms(2) in \<open>auto simp: bit_unsigned_iff bit_mask_iff\<close>)
  then have m: "unat (mask n :: 'a word) = 2 ^ n - 1" by (simp only: mask_eq_exp_minus_1)
  have s: "unat (w + mask n) = unat w + (2 ^ n - 1)"
    using unat_add_no_wrap [OF assms(1)] by (simp add: m)
  let ?q = "(unat w + (2 ^ n - 1)) div 2 ^ n"
  have q: "?q * 2 ^ n \<le> unat w + (2 ^ n - 1)" by (rule div_times_less_eq_dividend)
  have "unat w + (2 ^ n - 1) < ?q * 2 ^ n + 2 ^ n"
    using dividend_less_div_times [of "2 ^ n" "unat w + (2 ^ n - 1)"] by simp
  then have l: "unat w \<le> ?q * 2 ^ n" by linarith
  have r: "unat ((w + mask n) AND NOT (mask n)) = ?q * 2 ^ n"
    by (simp only: and_not_mask_unat s)
  show "unat w \<le> unat ((w + mask n) AND NOT (mask n))" using l r by simp
  show "unat ((w + mask n) AND NOT (mask n)) < unat w + 2 ^ n"
    using q r zero_less_power [of "2 :: nat" n] by linarith
  show "2 ^ n dvd unat ((w + mask n) AND NOT (mask n))" unfolding r by simp
qed

text \<open>\<open>(a & (a - 1)) == 0\<close> recognises the powers of two.\<close>

lemma and_pred_power_of_two:
  fixes a :: "'a::len word"
  assumes "a AND (a - 1) = 0" and "a \<noteq> 0"
  obtains n where "n < LENGTH('a)" and "a = 2 ^ n"
proof -
  have p: "1 \<le> unat a" using assms(2) by (simp add: Suc_le_eq unat_gt_0)
  then obtain n where n: "2 ^ n \<le> unat a" "unat a < 2 ^ (n + 1)"
    using ex_power_ivl1 [of 2 "unat a"] by auto
  have len: "n < LENGTH('a)"
    using le_less_trans [OF n(1) unsigned_less] by (rule nat_power_less_imp_less [rotated]) simp
  have "unat a = 2 ^ n"
  proof (rule ccontr)
    assume "unat a \<noteq> 2 ^ n"
    then have g: "2 ^ n \<le> unat a - 1" using n(1) by linarith
    have "unat (a - 1) = unat a - 1" using assms(2) by (simp add: unat_minus_one)
    then have "unat (a - 1) div 2 ^ n = 1" and "unat a div 2 ^ n = 1"
      using n g by (auto simp: div_nat_eqI)
    then have "bit (unat a) n" and "bit (unat (a - 1)) n" by (simp_all add: bit_iff_odd)
    then have "bit a n" and "bit (a - 1) n" by (simp_all add: bit_unsigned_iff)
    then have "bit (a AND (a - 1)) n" by (simp add: bit_and_iff)
    then show False using assms(1) by simp
  qed
  then have "of_nat (unat a) = (of_nat (2 ^ n) :: 'a word)" by (simp only:)
  then have "a = 2 ^ n" by simp
  with len show thesis using that by blast
qed


lemma unat_power_of_two: "n < LENGTH('a) \<Longrightarrow> unat (2 ^ n :: 'a::len word) = 2 ^ n"
proof -
  assume "n < LENGTH('a)"
  then have "unat (of_nat (2 ^ n) :: 'a word) = 2 ^ n"
    unfolding unat_of_nat by simp
  then show "unat (2 ^ n :: 'a word) = 2 ^ n" by simp
qed


lemma numeral_power_4096: "(0x1000 :: nat) = 2 ^ 12"
  by simp


lemma no_wrap_swap: "x \<le> - 1 - y \<longleftrightarrow> y \<le> - 1 - x" for x y :: "'a::len word"
  by (simp only: no_wrap_iff add.commute)


lemma subbytes_sub: "k + n \<le> m \<Longrightarrow> subbytes f (off + k) n = subbytes (subbytes f off m) k n"
  by (simp add: subbytes_def take_drop add.commute)

lemma blit_join:
  "k = off + length a \<Longrightarrow> off + length a + length b \<le> length buf \<Longrightarrow>
    blit (blit buf off a) k b = blit buf off (a @ b)"
  by (simp add: blit_def) (simp add: add_ac)

lemma unat_add_of_nat:
  "unat (w :: u64) + n < 2 ^ 64 \<Longrightarrow> unat (w + of_nat n) = unat w + n"
  by (simp add: unat_word_ariths unat_of_nat)

lemma unat_ucast_up: "LENGTH('a) \<le> LENGTH('b) \<Longrightarrow> unat (ucast (w :: 'a::len word) :: 'b::len word) = unat w"
  by (simp add: unsigned_ucast_eq take_bit_nat_eq_self less_le_trans [OF unsigned_less])


lemma unat_of_nat_small: "n < 2 ^ LENGTH('a) \<Longrightarrow> unat (of_nat n :: 'a::len word) = n"
  by (simp add: unat_of_nat)


lemma len_of_numeral_64: "LENGTH(64) = 64"
  by simp

lemma sint_word_of_int_small:
  "- (2 ^ (LENGTH('a) - 1)) \<le> k \<Longrightarrow> k < 2 ^ (LENGTH('a) - 1) \<Longrightarrow> sint (word_of_int k :: 'a::len word) = k"
  by (simp add: sint_sbintrunc' signed_take_bit_int_eq_self)

lemma mask_255: "(0xff :: 'a::len word) = mask 8"
  by (simp add: mask_eq_exp_minus_1)

lemma ucast_and_255: "(ucast ((v :: 'a::len word) AND 0xff) :: u8) = ucast v"
  unfolding mask_255 by (rule bit_word_eqI) (auto simp: bit_simps dest: bit_imp_le_length)

text \<open>The bytes of a 32-bit word put together again.\<close>

lemma u32_of_bytes:
  fixes v :: u32
  shows "(ucast (ucast v :: u8) :: u32) OR push_bit 8 (ucast (ucast (drop_bit 8 v) :: u8)) OR
     push_bit 16 (ucast (ucast (drop_bit 16 v) :: u8)) OR push_bit 24 (ucast (ucast (drop_bit 24 v) :: u8)) = v"
proof (rule bit_word_eqI)
  fix n
  assume n: "n < LENGTH(32)"
  consider "n < 8" | "8 \<le> n" "n < 16" | "16 \<le> n" "n < 24" | "24 \<le> n" by linarith
  then show "bit ((ucast (ucast v :: u8) :: u32) OR push_bit 8 (ucast (ucast (drop_bit 8 v) :: u8)) OR
     push_bit 16 (ucast (ucast (drop_bit 16 v) :: u8)) OR push_bit 24 (ucast (ucast (drop_bit 24 v) :: u8))) n = bit v n"
    using n by cases (auto simp: bit_simps)
qed

end
