(* ===== verification/Byte_IO.thy ===== *)
theory Byte_IO
  imports Prelude
begin

text \<open>
  The byte access layer of the relinker (\<open>core/relinker/io\<close>): the free functions of
  \<open>BufferUtils.cpp\<close>, the classes \<open>ByteReader\<close> and \<open>ByteWriter\<close> behind the interfaces
  \<open>IByteReader\<close> and \<open>IByteWriter\<close>, and \<open>AlignUp\<close>. A \<open>std::memcpy\<close> between a buffer and
  an integer is the little-endian conversion of the x86-64 host; the range check before it
  is the code's. The locale \<open>byte_cell\<close> is the contract clients rely on for one integer
  width; it is interpreted for every width of both providers.
\<close>

subsection \<open>Reading\<close>

text \<open>The common body of the \<open>ReadU*\<close> functions: range check, then \<open>std::memcpy\<close>.\<close>

definition memcpy_read :: "string \<Rightarrow> nat \<Rightarrow> bytes \<Rightarrow> nat \<Rightarrow> 'a::len word res" where
  "memcpy_read who n buf offset =
     (if offset > length buf \<or> length buf - offset < n then Inl (OutOfRange who)
      else Inr (le_word (subbytes buf offset n)))"

definition ReadU16 :: "bytes \<Rightarrow> nat \<Rightarrow> u16 res" where
  "ReadU16 buf offset = memcpy_read ''ReadU16 out of bounds'' 2 buf offset"

definition ReadU32 :: "bytes \<Rightarrow> nat \<Rightarrow> u32 res" where
  "ReadU32 buf offset = memcpy_read ''ReadU32 out of bounds'' 4 buf offset"

definition ReadU64 :: "bytes \<Rightarrow> nat \<Rightarrow> u64 res" where
  "ReadU64 buf offset = memcpy_read ''ReadU64 out of bounds'' 8 buf offset"

definition ByteReader_ReadU16 :: "bytes \<Rightarrow> nat \<Rightarrow> u16 res" where
  "ByteReader_ReadU16 buf offset = memcpy_read ''ByteReader::ReadU16 out of bounds'' 2 buf offset"

definition ByteReader_ReadU32 :: "bytes \<Rightarrow> nat \<Rightarrow> u32 res" where
  "ByteReader_ReadU32 buf offset = memcpy_read ''ByteReader::ReadU32 out of bounds'' 4 buf offset"

definition ByteReader_ReadU64 :: "bytes \<Rightarrow> nat \<Rightarrow> u64 res" where
  "ByteReader_ReadU64 buf offset = memcpy_read ''ByteReader::ReadU64 out of bounds'' 8 buf offset"

subsection \<open>Writing\<close>

definition memcpy_write :: "string \<Rightarrow> nat \<Rightarrow> bytes \<Rightarrow> nat \<Rightarrow> 'a::len word \<Rightarrow> bytes res" where
  "memcpy_write who n buf offset v =
     (if offset > length buf \<or> length buf - offset < n then Inl (OutOfRange who)
      else Inr (blit buf offset (le_bytes n v)))"

definition WriteU8 :: "bytes \<Rightarrow> nat \<Rightarrow> u8 \<Rightarrow> bytes res" where
  "WriteU8 buf offset v =
     (if offset \<ge> length buf then Inl (OutOfRange ''WriteU8 out of bounds'')
      else Inr (buf[offset := v]))"

definition WriteU16 :: "bytes \<Rightarrow> nat \<Rightarrow> u16 \<Rightarrow> bytes res" where
  "WriteU16 buf offset v = memcpy_write ''WriteU16 out of bounds'' 2 buf offset v"

definition WriteU32 :: "bytes \<Rightarrow> nat \<Rightarrow> u32 \<Rightarrow> bytes res" where
  "WriteU32 buf offset v = memcpy_write ''WriteU32 out of bounds'' 4 buf offset v"

definition WriteU64 :: "bytes \<Rightarrow> nat \<Rightarrow> u64 \<Rightarrow> bytes res" where
  "WriteU64 buf offset v = memcpy_write ''WriteU64 out of bounds'' 8 buf offset v"

definition ByteWriter_WriteU8 :: "bytes \<Rightarrow> nat \<Rightarrow> u8 \<Rightarrow> bytes res" where
  "ByteWriter_WriteU8 buf offset v =
     (if offset \<ge> length buf then Inl (OutOfRange ''ByteWriter::WriteU8 out of bounds'')
      else Inr (buf[offset := v]))"

definition ByteWriter_WriteU16 :: "bytes \<Rightarrow> nat \<Rightarrow> u16 \<Rightarrow> bytes res" where
  "ByteWriter_WriteU16 buf offset v =
     memcpy_write ''ByteWriter::WriteU16 out of bounds'' 2 buf offset v"

definition ByteWriter_WriteU32 :: "bytes \<Rightarrow> nat \<Rightarrow> u32 \<Rightarrow> bytes res" where
  "ByteWriter_WriteU32 buf offset v =
     memcpy_write ''ByteWriter::WriteU32 out of bounds'' 4 buf offset v"

definition ByteWriter_WriteU64 :: "bytes \<Rightarrow> nat \<Rightarrow> u64 \<Rightarrow> bytes res" where
  "ByteWriter_WriteU64 buf offset v =
     memcpy_write ''ByteWriter::WriteU64 out of bounds'' 8 buf offset v"

subsection \<open>Appending and alignment\<close>

definition AppendU8 :: "bytes \<Rightarrow> u8 \<Rightarrow> bytes" where
  "AppendU8 buf v = buf @ [v]"

text \<open>\<open>resize(pos + n)\<close> followed by \<open>memcpy\<close> to \<open>pos\<close>: the new tail is overwritten whole.\<close>

definition resize_to :: "nat \<Rightarrow> bytes \<Rightarrow> bytes" where
  "resize_to n buf = take n buf @ replicate (n - length buf) 0"

definition append_memcpy :: "nat \<Rightarrow> bytes \<Rightarrow> 'a::len word \<Rightarrow> bytes" where
  "append_memcpy n buf v =
     (let pos = length buf in blit (resize_to (pos + n) buf) pos (le_bytes n v))"

definition AppendU16 :: "bytes \<Rightarrow> u16 \<Rightarrow> bytes" where
  "AppendU16 buf v = append_memcpy 2 buf v"

definition AppendU32 :: "bytes \<Rightarrow> u32 \<Rightarrow> bytes" where
  "AppendU32 buf v = append_memcpy 4 buf v"

definition AppendU64 :: "bytes \<Rightarrow> u64 \<Rightarrow> bytes" where
  "AppendU64 buf v = append_memcpy 8 buf v"

text \<open>\<open>static_cast<std::uint64_t>\<close> of a signed 64-bit value keeps its bits.\<close>

definition AppendI64 :: "bytes \<Rightarrow> u64 \<Rightarrow> bytes" where
  "AppendI64 buf v = AppendU64 buf v"

text \<open>The same operations behind the interface \<open>IByteWriter\<close>.\<close>

definition ByteWriter_AppendU8 :: "bytes \<Rightarrow> u8 \<Rightarrow> bytes" where
  "ByteWriter_AppendU8 buf v = buf @ [v]"

definition ByteWriter_AppendU16 :: "bytes \<Rightarrow> u16 \<Rightarrow> bytes" where
  "ByteWriter_AppendU16 buf v = append_memcpy 2 buf v"

definition ByteWriter_AppendU32 :: "bytes \<Rightarrow> u32 \<Rightarrow> bytes" where
  "ByteWriter_AppendU32 buf v = append_memcpy 4 buf v"

definition ByteWriter_AppendU64 :: "bytes \<Rightarrow> u64 \<Rightarrow> bytes" where
  "ByteWriter_AppendU64 buf v = append_memcpy 8 buf v"

definition ByteWriter_AppendI64 :: "bytes \<Rightarrow> u64 \<Rightarrow> bytes" where
  "ByteWriter_AppendI64 buf v = ByteWriter_AppendU64 buf v"

definition char_bytes :: "string \<Rightarrow> bytes" where
  "char_bytes s = map of_char s"

definition AppendString :: "bytes \<Rightarrow> string \<Rightarrow> bytes" where
  "AppendString buf str = buf @ char_bytes str @ [0]"

definition AlignUp :: "u64 \<Rightarrow> u64 \<Rightarrow> u64 res" where
  "AlignUp value alignment =
     (if alignment \<le> 0 then
        Inl (InvalidArgument ''AlignUp requires a nonnegative value and a positive alignment'')
      else let remainder = value mod alignment in
        if remainder = 0 then Inr value
        else let padding = alignment - remainder in
          if value > u64_max - padding then Inl (OverflowError ''Aligned value exceeds integer range'')
          else Inr (value + padding))"

definition AlignUp64 :: "u64 \<Rightarrow> u64 \<Rightarrow> u64 res" where
  "AlignUp64 value alignment = AlignUp value alignment"

definition AlignBuffer :: "bytes \<Rightarrow> u64 \<Rightarrow> bytes res" where
  "AlignBuffer buf alignment =
     bind_res (AlignUp (of_nat (length buf)) alignment) (\<lambda>n. Inr (resize_to (unat n) buf))"

subsection \<open>The contract of one integer width\<close>

locale byte_cell =
  fixes rd :: "bytes \<Rightarrow> nat \<Rightarrow> 'a::len word res"
    and wr :: "bytes \<Rightarrow> nat \<Rightarrow> 'a word \<Rightarrow> bytes res"
    and width :: nat
  assumes cell_width: "LENGTH('a) = 8 * width"
    and rd_inside: "off + width \<le> length buf \<Longrightarrow> rd buf off = Inr (le_word (subbytes buf off width))"
    and rd_outside: "length buf < off + width \<Longrightarrow> \<exists>e. rd buf off = Inl e"
    and wr_inside: "off + width \<le> length buf \<Longrightarrow> wr buf off v = Inr (blit buf off (le_bytes width v))"
    and wr_outside: "length buf < off + width \<Longrightarrow> \<exists>e. wr buf off v = Inl e"
begin

lemma wr_ok_iff: "(\<exists>buf'. wr buf off v = Inr buf') \<longleftrightarrow> off + width \<le> length buf"
  using wr_inside wr_outside by (metis Inr_Inl_False linorder_not_le)

lemma rd_ok_iff: "(\<exists>v. rd buf off = Inr v) \<longleftrightarrow> off + width \<le> length buf"
  using rd_inside rd_outside by (metis Inr_Inl_False linorder_not_le)

lemma wr_Inr: "wr buf off v = Inr buf' \<longleftrightarrow> off + width \<le> length buf \<and> buf' = blit buf off (le_bytes width v)"
  using wr_inside wr_outside by (metis Inr_Inl_False Inr_inject linorder_not_le)

lemma rd_Inr: "rd buf off = Inr v \<longleftrightarrow> off + width \<le> length buf \<and> v = le_word (subbytes buf off width)"
  using rd_inside rd_outside by (metis Inr_Inl_False Inr_inject linorder_not_le)

lemma wr_length: "wr buf off v = Inr buf' \<Longrightarrow> length buf' = length buf"
  by (auto simp: wr_Inr length_blit)

lemma rd_after_wr: "wr buf off v = Inr buf' \<Longrightarrow> rd buf' off = Inr v"
  using subbytes_blit_same [of off "le_bytes width v" buf]
  by (auto simp: wr_Inr rd_Inr length_blit le_word_le_bytes cell_width)

lemma rd_other_wr:
  assumes "wr buf off v = Inr buf'" and "o2 + width \<le> off \<or> off + width \<le> o2"
  shows "rd buf' o2 = Inr x \<longleftrightarrow> rd buf o2 = Inr x"
  using assms by (auto simp: wr_Inr rd_Inr length_blit subbytes_blit_other)

end

lemma memcpy_read_cell:
  "off + n \<le> length buf \<Longrightarrow> memcpy_read who n buf off = Inr (le_word (subbytes buf off n))"
  "length buf < off + n \<Longrightarrow> memcpy_read who n buf off = Inl (OutOfRange who)"
  by (auto simp: memcpy_read_def)

lemma memcpy_write_cell:
  "off + n \<le> length buf \<Longrightarrow> memcpy_write who n buf off v = Inr (blit buf off (le_bytes n v))"
  "length buf < off + n \<Longrightarrow> memcpy_write who n buf off v = Inl (OutOfRange who)"
  by (auto simp: memcpy_write_def)

lemmas byte_access_defs =
  ReadU16_def ReadU32_def ReadU64_def WriteU16_def WriteU32_def WriteU64_def
  ByteReader_ReadU16_def ByteReader_ReadU32_def ByteReader_ReadU64_def
  ByteWriter_WriteU16_def ByteWriter_WriteU32_def ByteWriter_WriteU64_def

subsection \<open>Both providers keep the contract\<close>

interpretation io16: byte_cell ReadU16 WriteU16 2
  by unfold_locales (simp_all add: byte_access_defs memcpy_read_cell memcpy_write_cell)

interpretation io32: byte_cell ReadU32 WriteU32 4
  by unfold_locales (simp_all add: byte_access_defs memcpy_read_cell memcpy_write_cell)

interpretation io64: byte_cell ReadU64 WriteU64 8
  by unfold_locales (simp_all add: byte_access_defs memcpy_read_cell memcpy_write_cell)

interpretation bw16: byte_cell ByteReader_ReadU16 ByteWriter_WriteU16 2
  by unfold_locales (simp_all add: byte_access_defs memcpy_read_cell memcpy_write_cell)

interpretation bw32: byte_cell ByteReader_ReadU32 ByteWriter_WriteU32 4
  by unfold_locales (simp_all add: byte_access_defs memcpy_read_cell memcpy_write_cell)

interpretation bw64: byte_cell ByteReader_ReadU64 ByteWriter_WriteU64 8
  by unfold_locales (simp_all add: byte_access_defs memcpy_read_cell memcpy_write_cell)

subsection \<open>Appending\<close>

lemma resize_to_grow: "length buf \<le> n \<Longrightarrow> resize_to n buf = buf @ replicate (n - length buf) 0"
  by (simp add: resize_to_def)

lemma length_resize_to [simp]: "length (resize_to n buf) = n"
  by (simp add: resize_to_def)

lemma append_memcpy_eq: "append_memcpy n buf v = buf @ le_bytes n v"
  by (simp add: append_memcpy_def resize_to_grow blit_def Let_def)

lemma Append_eqs [layout_simps]:
  "AppendU16 buf (a :: u16) = buf @ le_bytes 2 a"
  "AppendU32 buf (b :: u32) = buf @ le_bytes 4 b"
  "AppendU64 buf (c :: u64) = buf @ le_bytes 8 c"
  "AppendI64 buf (c :: u64) = buf @ le_bytes 8 c"
  by (simp_all add: AppendU16_def AppendU32_def AppendU64_def AppendI64_def append_memcpy_eq)

lemma ByteWriter_Append_eqs [layout_simps]:
  "ByteWriter_AppendU16 buf (a :: u16) = buf @ le_bytes 2 a"
  "ByteWriter_AppendU32 buf (b :: u32) = buf @ le_bytes 4 b"
  "ByteWriter_AppendU64 buf (c :: u64) = buf @ le_bytes 8 c"
  "ByteWriter_AppendI64 buf (c :: u64) = buf @ le_bytes 8 c"
  by (simp_all add: ByteWriter_AppendU16_def ByteWriter_AppendU32_def ByteWriter_AppendU64_def
      ByteWriter_AppendI64_def append_memcpy_eq)

lemma length_char_bytes [simp]: "length (char_bytes s) = length s"
  by (simp add: char_bytes_def)

subsection \<open>Alignment\<close>

lemma AlignUp_Inr_unat:
  assumes "AlignUp value alignment = Inr r"
  shows "0 < unat alignment"
    and "unat r = (if unat value mod unat alignment = 0 then unat value
      else unat value + (unat alignment - unat value mod unat alignment))"
proof -
  from assms show a: "0 < unat alignment"
    by (auto simp: AlignUp_def unat_gt_0 split: if_splits)
  have m: "unat (value mod alignment) = unat value mod unat alignment"
    by (rule unat_mod_distrib)
  have z: "value mod alignment = 0 \<longleftrightarrow> unat value mod unat alignment = 0"
    by (simp add: unat_eq_0 [symmetric] m)
  have "value mod alignment \<le> alignment"
    using a by (simp add: word_le_nat_alt m less_imp_le)
  then have "unat (alignment - value mod alignment) = unat alignment - unat value mod unat alignment"
    by (simp add: unat_sub_le m)
  then show "unat r = (if unat value mod unat alignment = 0 then unat value
      else unat value + (unat alignment - unat value mod unat alignment))"
    using assms z by (auto simp: AlignUp_def Let_def unat_add_no_wrap not_less split: if_splits)
qed

lemma AlignUp_Inr_bounds:
  assumes "AlignUp value alignment = Inr r"
  shows "unat alignment dvd unat r" and "unat value \<le> unat r"
    and "unat r < unat value + unat alignment"
proof -
  note r = AlignUp_Inr_unat [OF assms]
  have "unat value + (unat alignment - unat value mod unat alignment)
      = unat alignment * (unat value div unat alignment) + unat alignment"
    using r(1) mult_div_mod_eq [of "unat alignment" "unat value"]
      mod_less_divisor [of "unat alignment" "unat value"] by linarith
  then show "unat alignment dvd unat r"
    using r(2) by (auto simp: dvd_eq_mod_eq_0)
  show "unat value \<le> unat r" and "unat r < unat value + unat alignment"
    using r mod_less_divisor [OF r(1), of "unat value"] by (auto split: if_splits)
qed


subsection \<open>Tables of fixed-width records\<close>

text \<open>
  Writers of one record type (program headers, section headers) encode a record into a fixed
  number of bytes and overwrite that window. A table is written by storing consecutive records
  at a stride at least that wide.
\<close>

definition table_written ::
    "('r \<Rightarrow> bytes) \<Rightarrow> nat \<Rightarrow> bytes \<Rightarrow> nat \<Rightarrow> nat \<Rightarrow> 'r list \<Rightarrow> nat \<Rightarrow> bytes \<Rightarrow> bool" where
  "table_written enc width buf0 base stride rs k buf \<longleftrightarrow> length buf = length buf0
     \<and> (\<forall>i < k. base + i * stride + width \<le> length buf0 \<and> subbytes buf (base + i * stride) width = enc (rs ! i))
     \<and> (\<forall>j < length buf0. j < base \<or> base + k * stride \<le> j \<longrightarrow> buf ! j = buf0 ! j)"

locale record_writer =
  fixes wr :: "bytes \<Rightarrow> nat \<Rightarrow> 'r \<Rightarrow> bytes res"
    and enc :: "'r \<Rightarrow> bytes"
    and width :: nat
  assumes enc_length: "length (enc r) = width"
    and wr_iff: "wr buf off r = Inr buf' \<longleftrightarrow> off + width \<le> length buf \<and> buf' = blit buf off (enc r)"
begin

lemma wr_ok: "off + width \<le> length buf \<Longrightarrow> wr buf off r = Inr (blit buf off (enc r))"
  by (simp add: wr_iff)

lemma table_Inr:
  assumes "fold_res (\<lambda>index buf. wr buf (base + index * stride) (rs ! index)) [0..<n] buf0 = Inr buf"
    and "width \<le> stride"
  shows "table_written enc width buf0 base stride rs n buf"
proof (rule fold_res_upt_invariant [OF assms(1)])
  show "table_written enc width buf0 base stride rs 0 buf0" by (simp add: table_written_def)
next
  fix k s s'
  assume inv: "table_written enc width buf0 base stride rs k s"
    and w: "wr s (base + k * stride) (rs ! k) = Inr s'"
  from w have fit: "base + k * stride + width \<le> length s" and s': "s' = blit s (base + k * stride) (enc (rs ! k))"
    by (auto simp: wr_iff)
  have "subbytes s' (base + i * stride) width = enc (rs ! i)" if i: "i < Suc k" for i
  proof (cases "i = k")
    case True
    then show ?thesis using subbytes_blit_same [of "base + k * stride" "enc (rs ! k)" s] fit s'
      by (simp add: enc_length)
  next
    case False
    with i have "i * stride + stride \<le> k * stride"
      by (metis add.commute less_Suc_eq mult_Suc mult_le_mono1 Suc_leI)
    then have "base + i * stride + width \<le> base + k * stride" using assms(2) by linarith
    then show ?thesis using subbytes_blit_other [of "base + k * stride" "enc (rs ! k)" s "base + i * stride" width]
      fit inv False i s' by (auto simp: table_written_def enc_length)
  qed
  moreover have "s' ! j = buf0 ! j" if "j < length buf0" "j < base \<or> base + Suc k * stride \<le> j" for j
    using that nth_blit [of "base + k * stride" "enc (rs ! k)" s j] fit inv assms(2) s'
    by (auto simp: table_written_def enc_length)
  ultimately show "table_written enc width buf0 base stride rs (Suc k) s'"
    using inv fit s' by (auto simp: table_written_def length_blit less_Suc_eq enc_length)
qed

lemma table_ok:
  assumes "width \<le> stride" and "base + n * stride \<le> length buf"
  shows "\<exists>buf'. fold_res (\<lambda>index buf. wr buf (base + index * stride) (rs ! index)) [0..<n] buf = Inr buf'
    \<and> length buf' = length buf"
  using assms(2)
proof (induction n)
  case 0
  then show ?case by simp
next
  case (Suc k)
  then obtain b where b: "fold_res (\<lambda>index buf. wr buf (base + index * stride) (rs ! index)) [0..<k] buf = Inr b"
    and l: "length b = length buf" by auto
  have f: "base + k * stride + width \<le> length b" using Suc.prems l assms(1) by simp
  show ?case using f b l by (simp add: fold_res_append length_blit enc_length wr_ok)
qed

end


lemma AlignUp_ok:
  assumes "0 < unat a" and "unat v + unat a < 2 ^ 64"
  shows "\<exists>r. AlignUp v a = Inr r"
proof -
  have "unat (v mod a) \<le> unat a" using assms(1) by (simp add: unat_mod_distrib less_imp_le)
  then have "v mod a \<le> a" by (simp only: word_le_nat_alt)
  from unat_sub_le [OF this] have "unat (a - v mod a) \<le> unat a" by simp
  then have "v \<le> - 1 - (a - v mod a)" unfolding no_wrap_iff len_of_numeral_64 using assms(2) by linarith
  then have "\<not> v > u64_max - (a - v mod a)" by (simp only: not_less)
  moreover have "\<not> a \<le> 0" using assms(1) by (simp add: word_le_nat_alt)
  ultimately show ?thesis unfolding AlignUp_def Let_def by (cases "v mod a = 0") simp_all
qed

end
