(* ===== verification/Elf_Types.thy ===== *)
theory Elf_Types
  imports Byte_IO
begin

text \<open>
  The vocabulary of the ELF side of the relinker: the constants of
  \<open>elfpatcher/general/ElfConstants.hpp\<close> under their source names (offsets of fields and
  table strides are positions, hence \<open>nat\<close>; types, flags and tags have their declared
  width, signed \<open>DT_*\<close> tags as the 64-bit pattern) and the structures of
  \<open>domain/Types.hpp\<close>, with the field names prefixed by the structure.
\<close>

subsection \<open>Constants\<close>

abbreviation (input) kEhdrOsAbiOffset :: nat where "kEhdrOsAbiOffset \<equiv> 7"
abbreviation (input) kEhdrAbiVersionOffset :: nat where "kEhdrAbiVersionOffset \<equiv> 8"
abbreviation (input) kEhdrTypeOffset :: nat where "kEhdrTypeOffset \<equiv> 0x10"
abbreviation (input) kEhdrEntryOffset :: nat where "kEhdrEntryOffset \<equiv> 24"
abbreviation (input) kEhdrPhOffOffset :: nat where "kEhdrPhOffOffset \<equiv> 32"
abbreviation (input) kEhdrShOffOffset :: nat where "kEhdrShOffOffset \<equiv> 40"
abbreviation (input) kEhdrPhEntSizeOffset :: nat where "kEhdrPhEntSizeOffset \<equiv> 54"
abbreviation (input) kEhdrPhNumOffset :: nat where "kEhdrPhNumOffset \<equiv> 56"
abbreviation (input) kEhdrShEntSizeOffset :: nat where "kEhdrShEntSizeOffset \<equiv> 58"
abbreviation (input) kEhdrShNumOffset :: nat where "kEhdrShNumOffset \<equiv> 60"
abbreviation (input) kEhdrShStrNdxOffset :: nat where "kEhdrShStrNdxOffset \<equiv> 62"
abbreviation (input) kShdrNameOffset :: nat where "kShdrNameOffset \<equiv> 0"
abbreviation (input) kShdrTypeOffset :: nat where "kShdrTypeOffset \<equiv> 4"
abbreviation (input) kShdrFlagsOffset :: nat where "kShdrFlagsOffset \<equiv> 8"
abbreviation (input) kShdrAddrOffset :: nat where "kShdrAddrOffset \<equiv> 16"
abbreviation (input) kShdrFileOffsetOffset :: nat where "kShdrFileOffsetOffset \<equiv> 24"
abbreviation (input) kShdrSizeOffset :: nat where "kShdrSizeOffset \<equiv> 32"
abbreviation (input) kShdrLinkOffset :: nat where "kShdrLinkOffset \<equiv> 40"
abbreviation (input) kShdrInfoOffset :: nat where "kShdrInfoOffset \<equiv> 44"
abbreviation (input) kShdrAlignOffset :: nat where "kShdrAlignOffset \<equiv> 48"
abbreviation (input) kShdrEntSizeOffset :: nat where "kShdrEntSizeOffset \<equiv> 56"
abbreviation (input) kShdrEntrySize :: nat where "kShdrEntrySize \<equiv> 64"
abbreviation (input) kPhdrTypeOffset :: nat where "kPhdrTypeOffset \<equiv> 0"
abbreviation (input) kPhdrFlagsOffset :: nat where "kPhdrFlagsOffset \<equiv> 4"
abbreviation (input) kPhdrOffsetOffset :: nat where "kPhdrOffsetOffset \<equiv> 8"
abbreviation (input) kPhdrVaddrOffset :: nat where "kPhdrVaddrOffset \<equiv> 16"
abbreviation (input) kPhdrPaddrOffset :: nat where "kPhdrPaddrOffset \<equiv> 24"
abbreviation (input) kPhdrFileSizeOffset :: nat where "kPhdrFileSizeOffset \<equiv> 32"
abbreviation (input) kPhdrMemSizeOffset :: nat where "kPhdrMemSizeOffset \<equiv> 40"
abbreviation (input) kPhdrAlignOffset :: nat where "kPhdrAlignOffset \<equiv> 48"
abbreviation (input) kDynEntrySize :: nat where "kDynEntrySize \<equiv> 16"
abbreviation (input) kSymEntrySize :: u64 where "kSymEntrySize \<equiv> 24"
abbreviation (input) kRelaEntrySize :: u64 where "kRelaEntrySize \<equiv> 24"
abbreviation (input) kDynStrAlignment :: nat where "kDynStrAlignment \<equiv> 24"
abbreviation (input) kDynSymAlignment :: nat where "kDynSymAlignment \<equiv> 24"
abbreviation (input) kRelaAlignment :: nat where "kRelaAlignment \<equiv> 24"
abbreviation (input) kRelaPltAlignment :: nat where "kRelaPltAlignment \<equiv> 8"
abbreviation (input) kGotAlignment :: nat where "kGotAlignment \<equiv> 8"
abbreviation (input) kGotReservedSlots :: nat where "kGotReservedSlots \<equiv> 3"
abbreviation (input) kElfHeaderSize :: u64 where "kElfHeaderSize \<equiv> 64"
abbreviation (input) kDefaultLoadAlignment :: u64 where "kDefaultLoadAlignment \<equiv> 0x1000"
abbreviation (input) kPhdrHeaderAlignment :: u64 where "kPhdrHeaderAlignment \<equiv> 8"
abbreviation (input) kDynamicHeaderAlignment :: u64 where "kDynamicHeaderAlignment \<equiv> 8"
abbreviation (input) kInterpHeaderAlignment :: u64 where "kInterpHeaderAlignment \<equiv> 1"
abbreviation (input) kSyntheticProgramHeaderCount :: u16 where "kSyntheticProgramHeaderCount \<equiv> 5"
abbreviation (input) PT_NULL :: u32 where "PT_NULL \<equiv> 0"
abbreviation (input) PT_LOAD :: u32 where "PT_LOAD \<equiv> 1"
abbreviation (input) PT_DYNAMIC :: u32 where "PT_DYNAMIC \<equiv> 2"
abbreviation (input) PT_INTERP :: u32 where "PT_INTERP \<equiv> 3"
abbreviation (input) PT_NOTE :: u32 where "PT_NOTE \<equiv> 4"
abbreviation (input) PT_PHDR :: u32 where "PT_PHDR \<equiv> 6"
abbreviation (input) PT_TLS :: u32 where "PT_TLS \<equiv> 7"
abbreviation (input) PT_GNU_EH_FRAME :: u32 where "PT_GNU_EH_FRAME \<equiv> 0x6474e550"
abbreviation (input) PT_GNU_STACK :: u32 where "PT_GNU_STACK \<equiv> 0x6474e551"
abbreviation (input) PT_GNU_RELRO :: u32 where "PT_GNU_RELRO \<equiv> 0x6474e552"
abbreviation (input) PF_X :: u32 where "PF_X \<equiv> 0x1"
abbreviation (input) PF_W :: u32 where "PF_W \<equiv> 0x2"
abbreviation (input) PF_R :: u32 where "PF_R \<equiv> 0x4"
abbreviation (input) ET_EXEC :: u32 where "ET_EXEC \<equiv> 2"
abbreviation (input) ET_DYN :: u32 where "ET_DYN \<equiv> 3"
abbreviation (input) PT_SCE_DYNLIBDATA :: u32 where "PT_SCE_DYNLIBDATA \<equiv> 0x61000000"
abbreviation (input) PT_OS_PROCPARAM :: u32 where "PT_OS_PROCPARAM \<equiv> 0x61000001"
abbreviation (input) PT_OS_RELRO :: u32 where "PT_OS_RELRO \<equiv> 0x61000010"
abbreviation (input) PT_LOOS :: u32 where "PT_LOOS \<equiv> 0x61000000"
abbreviation (input) PT_HIOS :: u32 where "PT_HIOS \<equiv> 0x6fffffff"
abbreviation (input) DT_DEBUG :: u64 where "DT_DEBUG \<equiv> 21"
abbreviation (input) DT_NULL :: u64 where "DT_NULL \<equiv> 0"
abbreviation (input) DT_NEEDED :: u64 where "DT_NEEDED \<equiv> 1"
abbreviation (input) DT_PLTRELSZ :: u64 where "DT_PLTRELSZ \<equiv> 2"
abbreviation (input) DT_PLTGOT :: u64 where "DT_PLTGOT \<equiv> 3"
abbreviation (input) DT_HASH :: u64 where "DT_HASH \<equiv> 4"
abbreviation (input) DT_STRTAB :: u64 where "DT_STRTAB \<equiv> 5"
abbreviation (input) DT_SYMTAB :: u64 where "DT_SYMTAB \<equiv> 6"
abbreviation (input) DT_RELA :: u64 where "DT_RELA \<equiv> 7"
abbreviation (input) DT_RELASZ :: u64 where "DT_RELASZ \<equiv> 8"
abbreviation (input) DT_RELAENT :: u64 where "DT_RELAENT \<equiv> 9"
abbreviation (input) DT_STRSZ :: u64 where "DT_STRSZ \<equiv> 10"
abbreviation (input) DT_SYMENT :: u64 where "DT_SYMENT \<equiv> 11"
abbreviation (input) DT_REL :: u64 where "DT_REL \<equiv> 17"
abbreviation (input) DT_RELSZ :: u64 where "DT_RELSZ \<equiv> 18"
abbreviation (input) DT_RELENT :: u64 where "DT_RELENT \<equiv> 19"
abbreviation (input) DT_PLTREL :: u64 where "DT_PLTREL \<equiv> 20"
abbreviation (input) DT_JMPREL :: u64 where "DT_JMPREL \<equiv> 23"
abbreviation (input) DT_INIT :: u64 where "DT_INIT \<equiv> 12"
abbreviation (input) DT_FINI :: u64 where "DT_FINI \<equiv> 13"
abbreviation (input) DT_INIT_ARRAY :: u64 where "DT_INIT_ARRAY \<equiv> 25"
abbreviation (input) DT_FINI_ARRAY :: u64 where "DT_FINI_ARRAY \<equiv> 26"
abbreviation (input) DT_INIT_ARRAYSZ :: u64 where "DT_INIT_ARRAYSZ \<equiv> 27"
abbreviation (input) DT_FINI_ARRAYSZ :: u64 where "DT_FINI_ARRAYSZ \<equiv> 28"
abbreviation (input) DT_RUNPATH :: u64 where "DT_RUNPATH \<equiv> 29"
abbreviation (input) DT_FLAGS :: u64 where "DT_FLAGS \<equiv> 30"
abbreviation (input) DT_GNU_HASH :: u64 where "DT_GNU_HASH \<equiv> 0x6ffffef5"
abbreviation (input) DT_PREINIT_ARRAY :: u64 where "DT_PREINIT_ARRAY \<equiv> 32"
abbreviation (input) DT_PREINIT_ARRAYSZ :: u64 where "DT_PREINIT_ARRAYSZ \<equiv> 33"
abbreviation (input) DT_RELRSZ :: u64 where "DT_RELRSZ \<equiv> 35"
abbreviation (input) DT_RELR :: u64 where "DT_RELR \<equiv> 36"
abbreviation (input) DT_RELRENT :: u64 where "DT_RELRENT \<equiv> 37"
abbreviation (input) DF_BIND_NOW :: u64 where "DF_BIND_NOW \<equiv> 0x8"
abbreviation (input) DF_SYMBOLIC :: u64 where "DF_SYMBOLIC \<equiv> 0x2"
abbreviation (input) DT_OS_INIT :: u64 where "DT_OS_INIT \<equiv> 0x6000000c"
abbreviation (input) DT_OS_FINI :: u64 where "DT_OS_FINI \<equiv> 0x6000000d"
abbreviation (input) DT_OS_INIT_ARRAY :: u64 where "DT_OS_INIT_ARRAY \<equiv> 0x60000019"
abbreviation (input) DT_OS_FINI_ARRAY :: u64 where "DT_OS_FINI_ARRAY \<equiv> 0x6000001a"
abbreviation (input) DT_OS_INIT_ARRAYSZ :: u64 where "DT_OS_INIT_ARRAYSZ \<equiv> 0x6000001b"
abbreviation (input) DT_OS_FINI_ARRAYSZ :: u64 where "DT_OS_FINI_ARRAYSZ \<equiv> 0x6000001c"
abbreviation (input) DT_OS_PREINIT_ARRAY :: u64 where "DT_OS_PREINIT_ARRAY \<equiv> 0x60000020"
abbreviation (input) DT_OS_PREINIT_ARRAYSZ :: u64 where "DT_OS_PREINIT_ARRAYSZ \<equiv> 0x60000021"
abbreviation (input) DT_OS_PLTGOT :: u64 where "DT_OS_PLTGOT \<equiv> 0x61000027"
abbreviation (input) DT_OS_JMPREL :: u64 where "DT_OS_JMPREL \<equiv> 0x61000029"
abbreviation (input) DT_OS_PLTREL :: u64 where "DT_OS_PLTREL \<equiv> 0x6100002b"
abbreviation (input) DT_OS_PLTRELSZ :: u64 where "DT_OS_PLTRELSZ \<equiv> 0x6100002d"
abbreviation (input) DT_OS_RELA :: u64 where "DT_OS_RELA \<equiv> 0x6100002f"
abbreviation (input) DT_OS_RELASZ :: u64 where "DT_OS_RELASZ \<equiv> 0x61000031"
abbreviation (input) DT_OS_RELAENT :: u64 where "DT_OS_RELAENT \<equiv> 0x61000033"
abbreviation (input) DT_OS_STRTAB :: u64 where "DT_OS_STRTAB \<equiv> 0x61000035"
abbreviation (input) DT_OS_STRSZ :: u64 where "DT_OS_STRSZ \<equiv> 0x61000037"
abbreviation (input) DT_OS_SYMTAB :: u64 where "DT_OS_SYMTAB \<equiv> 0x61000039"
abbreviation (input) DT_OS_SYMENT :: u64 where "DT_OS_SYMENT \<equiv> 0x6100003b"
abbreviation (input) DT_OS_SYMTABSZ :: u64 where "DT_OS_SYMTABSZ \<equiv> 0x6100003f"
abbreviation (input) R_X86_64_NONE :: u32 where "R_X86_64_NONE \<equiv> 0"
abbreviation (input) R_X86_64_64 :: u32 where "R_X86_64_64 \<equiv> 1"
abbreviation (input) R_X86_64_PC32 :: u32 where "R_X86_64_PC32 \<equiv> 2"
abbreviation (input) R_X86_64_COPY :: u32 where "R_X86_64_COPY \<equiv> 5"
abbreviation (input) R_X86_64_GLOB_DAT :: u32 where "R_X86_64_GLOB_DAT \<equiv> 6"
abbreviation (input) R_X86_64_JUMP_SLOT :: u32 where "R_X86_64_JUMP_SLOT \<equiv> 7"
abbreviation (input) R_X86_64_RELATIVE :: u32 where "R_X86_64_RELATIVE \<equiv> 8"
abbreviation (input) R_X86_64_32 :: u32 where "R_X86_64_32 \<equiv> 10"
abbreviation (input) R_X86_64_DTPMOD64 :: u32 where "R_X86_64_DTPMOD64 \<equiv> 16"
abbreviation (input) R_X86_64_DTPOFF64 :: u32 where "R_X86_64_DTPOFF64 \<equiv> 17"
abbreviation (input) R_X86_64_TPOFF64 :: u32 where "R_X86_64_TPOFF64 \<equiv> 18"
abbreviation (input) R_X86_64_IRELATIVE :: u32 where "R_X86_64_IRELATIVE \<equiv> 37"
abbreviation (input) STB_GLOBAL :: u8 where "STB_GLOBAL \<equiv> 1"
abbreviation (input) STB_WEAK :: u8 where "STB_WEAK \<equiv> 2"
abbreviation (input) STT_NOTYPE :: u8 where "STT_NOTYPE \<equiv> 0"
abbreviation (input) STT_OBJECT :: u8 where "STT_OBJECT \<equiv> 1"
abbreviation (input) STT_FUNC :: u8 where "STT_FUNC \<equiv> 2"
abbreviation (input) STT_TLS :: u8 where "STT_TLS \<equiv> 6"
abbreviation (input) STV_DEFAULT :: u8 where "STV_DEFAULT \<equiv> 0"
abbreviation (input) SHN_UNDEF :: u16 where "SHN_UNDEF \<equiv> 0"
abbreviation (input) SHN_LORESERVE :: u16 where "SHN_LORESERVE \<equiv> 0xff00"
abbreviation (input) SHN_ABS :: u16 where "SHN_ABS \<equiv> 0xfff1"
abbreviation (input) SHT_NULL :: u32 where "SHT_NULL \<equiv> 0"
abbreviation (input) SHT_PROGBITS :: u32 where "SHT_PROGBITS \<equiv> 1"
abbreviation (input) SHT_SYMTAB :: u32 where "SHT_SYMTAB \<equiv> 2"
abbreviation (input) SHT_STRTAB :: u32 where "SHT_STRTAB \<equiv> 3"
abbreviation (input) SHT_DYNAMIC :: u32 where "SHT_DYNAMIC \<equiv> 6"
abbreviation (input) SHT_NOBITS :: u32 where "SHT_NOBITS \<equiv> 8"
abbreviation (input) SHT_DYNSYM :: u32 where "SHT_DYNSYM \<equiv> 11"
abbreviation (input) SHF_WRITE :: u32 where "SHF_WRITE \<equiv> 0x1"
abbreviation (input) SHF_ALLOC :: u32 where "SHF_ALLOC \<equiv> 0x2"
abbreviation (input) SHF_EXECINSTR :: u32 where "SHF_EXECINSTR \<equiv> 0x4"
abbreviation (input) kShStrTabNameOffset :: u32 where "kShStrTabNameOffset \<equiv> 1"
abbreviation (input) kDynStrNameOffset :: u32 where "kDynStrNameOffset \<equiv> 11"
abbreviation (input) kDynSymNameOffset :: u32 where "kDynSymNameOffset \<equiv> 19"
abbreviation (input) kDynamicNameOffset :: u32 where "kDynamicNameOffset \<equiv> 27"
abbreviation (input) kTextNameOffset :: u32 where "kTextNameOffset \<equiv> 36"
abbreviation (input) kSectionHeaderCount :: nat where "kSectionHeaderCount \<equiv> 6"
abbreviation (input) kShStrTabIndex :: u32 where "kShStrTabIndex \<equiv> 1"
abbreviation (input) kNoSpecialAlignment :: u64 where "kNoSpecialAlignment \<equiv> 1"
abbreviation (input) kDynSymLinkToStrTab :: u32 where "kDynSymLinkToStrTab \<equiv> 2"
abbreviation (input) kDynSymInfoFirstGlobal :: u32 where "kDynSymInfoFirstGlobal \<equiv> 1"
abbreviation (input) kDynSymAlign :: u64 where "kDynSymAlign \<equiv> 8"
abbreviation (input) kDynamicLinkToStrTab :: u32 where "kDynamicLinkToStrTab \<equiv> 2"
abbreviation (input) kStubOpAndRsp0xf0 :: bytes where "kStubOpAndRsp0xf0 \<equiv> [0x48, 0x83, 0xe4, 0xf0]"
abbreviation (input) kStubOpMovRdiRsp :: bytes where "kStubOpMovRdiRsp \<equiv> [0x48, 0x89, 0xe7]"
abbreviation (input) kStubOpXorRsiRsi :: bytes where "kStubOpXorRsiRsi \<equiv> [0x48, 0x31, 0xf6]"
abbreviation (input) kStubOpPushZero :: bytes where "kStubOpPushZero \<equiv> [0x6a, 0x00]"
abbreviation (input) kStubOpMovRbpRsp :: bytes where "kStubOpMovRbpRsp \<equiv> [0x48, 0x89, 0xe5]"
abbreviation (input) kStubOpCallRel32 :: u8 where "kStubOpCallRel32 \<equiv> 0xe8"
abbreviation (input) kStubOpLeaRsiRip :: bytes where "kStubOpLeaRsiRip \<equiv> [0x48, 0x8d, 0x35]"
abbreviation (input) kStubOpCallRipIndirect :: bytes where "kStubOpCallRipIndirect \<equiv> [0xff, 0x15]"
abbreviation (input) kStubOpUd2 :: bytes where "kStubOpUd2 \<equiv> [0x0f, 0x0b]"

text \<open>\<open>kShStrTabBlob\<close>: the section names and the terminator the literal ends with.\<close>

definition kShStrTabBlob :: bytes where
  "kShStrTabBlob = [0] @ char_bytes ''.shstrtab'' @ [0] @ char_bytes ''.dynstr'' @ [0]
     @ char_bytes ''.dynsym'' @ [0] @ char_bytes ''.dynamic'' @ [0] @ char_bytes ''.text'' @ [0]"

subsection \<open>Structures\<close>

record elf_header =
  eh_Machine :: u16
  eh_Type :: u16
  eh_OsAbi :: u8
  eh_AbiVersion :: u8
  eh_EntryPoint :: u64
  eh_ProgramHeaderOffset :: u64
  eh_SectionHeaderOffset :: u64
  eh_ProgramHeaderEntrySize :: u32
  eh_ProgramHeaderCount :: u16
  eh_SectionHeaderEntrySize :: u32
  eh_SectionHeaderCount :: u16
  eh_SectionHeaderStringIndex :: u16

record program_header =
  ph_Type :: u32
  ph_Flags :: u32
  ph_Offset :: u64
  ph_MappedAddress :: u64
  ph_PhysicalAddress :: u64
  ph_FileSize :: u64
  ph_MemorySize :: u64
  ph_Alignment :: u64

record section_header =
  sh_Name :: string
  sh_Type :: u32
  sh_Flags :: u64
  sh_MappedAddress :: u64
  sh_Offset :: u64
  sh_SectionSize :: u64
  sh_Link :: u32
  sh_Info :: u32
  sh_Alignment :: u64
  sh_EntrySize :: u64

record nid_reference =
  nr_Nid :: string
  nr_Library :: string
  nr_RelocationTypeValue :: u32
  nr_RelocationTableOffset :: u64
  nr_RelocationAddress :: u64
  nr_Addend :: u64
  nr_Weak :: bool
  nr_Function :: bool
  nr_SymbolType :: u8

record dynamic_tag =
  dt_Tag :: u64
  dt_Value :: u64

text \<open>
  \<open>SysVDynamicSection\<close>: the ordered containers keyed by virtual address are maps and sets;
  \<open>GuestModules\<close> and \<open>UnmatchedImportModules\<close> are filled by later passes and not kept here.
\<close>

record sysv_dynamic_section =
  sd_DynamicSegmentData :: bytes
  sd_DynSymData :: bytes
  sd_DynStrData :: bytes
  sd_RelaData :: bytes
  sd_RelaPltData :: bytes
  sd_ImportModules :: "u64 \<rightharpoonup> string"
  sd_FunctionImports :: "u64 set"
  sd_NamedImports :: "u64 set"
  sd_NeededLibraries :: "string list"

record code_range =
  cr_Begin :: u64
  cr_End :: u64

end
