(* ===== verification/Elf_Reader.thy ===== *)
theory Elf_Reader
  imports Elf_Types
begin

text \<open>
  \<open>Relinker::ElfReader\<close> (\<open>relinker/src/parsing/ElfReader.cpp\<close>). The object's only state is
  the file buffer, which every operation takes as its first argument. Each \<open>throw\<close> is a
  value \<open>Inl (RelinkerException message offset)\<close>. Offsets are 64-bit words as in the code;
  a range is checked against the buffer's size before any byte is taken.
\<close>

subsection \<open>Checked access\<close>

definition rangeFits :: "u64 \<Rightarrow> u64 \<Rightarrow> nat \<Rightarrow> bool" where
  "rangeFits offset len extent \<longleftrightarrow> unat offset \<le> extent \<and> unat len \<le> extent - unat offset"

definition hex_digit :: "u8 \<Rightarrow> char" where
  "hex_digit d = ''0123456789abcdef'' ! unat d"

definition formatMagic :: "bytes \<Rightarrow> string" where
  "formatMagic file = concat (map (\<lambda>index.
     (if index \<noteq> 0 then '' '' else '''')
     @ [hex_digit (drop_bit 4 (file ! index)), hex_digit (file ! index AND 0x0f)]) [0..<4])"

definition readU8At :: "bytes \<Rightarrow> u64 \<Rightarrow> u8 res" where
  "readU8At file offset =
     (if unat offset \<ge> length file then Inl (RelinkerException ''FileByteOffset out of bounds'' offset)
      else Inr (file ! unat offset))"

text \<open>The common body of \<open>_readU16At\<close>, \<open>_readU32At\<close> and \<open>_readU64At\<close> at \<open>n\<close> bytes.\<close>

definition readAt :: "nat \<Rightarrow> bytes \<Rightarrow> u64 \<Rightarrow> 'a::len word res" where
  "readAt n file offset =
     (if \<not> rangeFits offset (of_nat n) (length file)
      then Inl (RelinkerException ''FileByteOffset out of bounds'' offset)
      else Inr (le_word (subbytes file (unat offset) n)))"

definition readU16At :: "bytes \<Rightarrow> u64 \<Rightarrow> u16 res" where
  "readU16At file offset = readAt 2 file offset"

definition readU32At :: "bytes \<Rightarrow> u64 \<Rightarrow> u32 res" where
  "readU32At file offset = readAt 4 file offset"

definition readU64At :: "bytes \<Rightarrow> u64 \<Rightarrow> u64 res" where
  "readU64At file offset = readAt 8 file offset"

subsection \<open>The file header\<close>

definition ValidateMagic :: "bytes \<Rightarrow> unit res" where
  "ValidateMagic file =
     (if length file < 0x40 then Inl (RelinkerException ''File too small for ELF header'' 0)
      else bind_res (readU32At file 0) (\<lambda>magic.
        if magic = 0x1d3d154f \<or> magic = 0xeef51454
        then Inl (RelinkerException ''The input is a SELF container, not an ELF'' 0)
        else if file ! 0 \<noteq> 0x7f \<or> file ! 1 \<noteq> of_char (CHR ''E'')
          \<or> file ! 2 \<noteq> of_char (CHR ''L'') \<or> file ! 3 \<noteq> of_char (CHR ''F'')
        then Inl (RelinkerException (''Invalid ELF magic number: '' @ formatMagic file) 0)
        else Inr ()))"

text \<open>The identification checks of \<open>ReadHeader\<close>, before any field is stored.\<close>

definition check_identity :: "bytes \<Rightarrow> unit res" where
  "check_identity file =
     bind_res (ValidateMagic file) (\<lambda>_.
     if file ! 4 \<noteq> 2 \<or> file ! 5 \<noteq> 1 \<or> file ! 6 \<noteq> 1
     then Inl (RelinkerException ''Expected little-endian ELF64 version 1'' 0)
     else bind_res (readU16At file 0x12) (\<lambda>machine.
     if machine \<noteq> 62 then Inl (RelinkerException ''Expected an x86-64 ELF'' 0)
     else bind_res (readU32At file 0x14) (\<lambda>version.
     if version \<noteq> 1
     then Inl (RelinkerException ''Unsupported ELF object version: expected 1'' 0x14)
     else bind_res (readU16At file 0x34) (\<lambda>ehsize.
     if ehsize \<noteq> 64
     then Inl (RelinkerException ''Invalid ELF header size: expected 64 bytes'' 0x34)
     else Inr ()))))"

definition ReadHeader :: "bytes \<Rightarrow> elf_header res" where
  "ReadHeader file =
     bind_res (check_identity file) (\<lambda>_.
     bind_res (readU16At file 0x12) (\<lambda>machine.
     bind_res (readU16At file 0x10) (\<lambda>type.
     bind_res (readU8At file 0x07) (\<lambda>osAbi.
     bind_res (readU8At file 0x08) (\<lambda>abiVersion.
     bind_res (readU64At file 0x18) (\<lambda>entry.
     bind_res (readU64At file 0x20) (\<lambda>phoff.
     bind_res (readU64At file 0x28) (\<lambda>shoff.
     bind_res (readU16At file 0x36) (\<lambda>phentsize.
     bind_res (readU16At file 0x38) (\<lambda>phnum.
     bind_res (readU16At file 0x3a) (\<lambda>shentsize.
     bind_res (readU16At file 0x3c) (\<lambda>shnum.
     bind_res (readU16At file 0x3e) (\<lambda>shstrndx.
     Inr \<lparr>eh_Machine = machine, eh_Type = type, eh_OsAbi = osAbi, eh_AbiVersion = abiVersion,
          eh_EntryPoint = entry, eh_ProgramHeaderOffset = phoff, eh_SectionHeaderOffset = shoff,
          eh_ProgramHeaderEntrySize = ucast phentsize, eh_ProgramHeaderCount = phnum,
          eh_SectionHeaderEntrySize = ucast shentsize, eh_SectionHeaderCount = shnum,
          eh_SectionHeaderStringIndex = shstrndx\<rparr>)))))))))))))"

subsection \<open>Program headers\<close>

definition read_phdr_fields :: "bytes \<Rightarrow> u64 \<Rightarrow> program_header res" where
  "read_phdr_fields file offset =
     bind_res (readU32At file offset) (\<lambda>type.
     bind_res (readU32At file (offset + 0x04)) (\<lambda>flags.
     bind_res (readU64At file (offset + 0x08)) (\<lambda>off.
     bind_res (readU64At file (offset + 0x10)) (\<lambda>vaddr.
     bind_res (readU64At file (offset + 0x18)) (\<lambda>paddr.
     bind_res (readU64At file (offset + 0x20)) (\<lambda>filesz.
     bind_res (readU64At file (offset + 0x28)) (\<lambda>memsz.
     bind_res (readU64At file (offset + 0x30)) (\<lambda>align.
     Inr \<lparr>ph_Type = type, ph_Flags = flags, ph_Offset = off, ph_MappedAddress = vaddr,
          ph_PhysicalAddress = paddr, ph_FileSize = filesz, ph_MemorySize = memsz,
          ph_Alignment = align\<rparr>))))))))"

text \<open>The body of the loop over the table: read one entry, then check a \<open>PT_LOAD\<close>.\<close>

definition read_phdr :: "bytes \<Rightarrow> u64 \<Rightarrow> program_header res" where
  "read_phdr file offset =
     bind_res (read_phdr_fields file offset) (\<lambda>ph.
     if ph_Type ph = PT_LOAD \<and> ph_FileSize ph > ph_MemorySize ph
     then Inl (RelinkerException ''PT_LOAD file size exceeds memory size'' (ph_Offset ph))
     else if ph_Type ph = PT_LOAD \<and> \<not> rangeFits (ph_Offset ph) (ph_FileSize ph) (length file)
     then Inl (RelinkerException ''Segment offset out of bounds'' (ph_Offset ph))
     else Inr ph)"

fun read_phdr_table :: "bytes \<Rightarrow> u64 \<Rightarrow> u64 \<Rightarrow> nat \<Rightarrow> program_header list res" where
  "read_phdr_table file offset stride 0 = Inr []"
| "read_phdr_table file offset stride (Suc n) =
     bind_res (read_phdr file offset) (\<lambda>ph.
     bind_res (read_phdr_table file (offset + stride) stride n) (\<lambda>phs. Inr (ph # phs)))"

text \<open>The inner loop over the segments a \<open>PT_SCE_RELRO\<close> range may lie in.\<close>

definition ranges_overlap :: "program_header \<Rightarrow> program_header \<Rightarrow> bool" where
  "ranges_overlap relro load \<longleftrightarrow>
     (if ph_MappedAddress relro < ph_MappedAddress load
      then ph_MappedAddress load - ph_MappedAddress relro < ph_MemorySize relro
      else ph_MappedAddress relro - ph_MappedAddress load < ph_MemorySize load)"

definition relro_against :: "program_header \<Rightarrow> program_header \<Rightarrow> bool \<Rightarrow> bool res" where
  "relro_against relro load covered =
     (if ph_Type load \<noteq> PT_LOAD \<or> ph_MemorySize load = 0 then Inr covered
      else if \<not> ranges_overlap relro load then Inr covered
      else if ph_MappedAddress relro < ph_MappedAddress load
        \<or> ph_MemorySize relro > ph_MemorySize load - (ph_MappedAddress relro - ph_MappedAddress load)
      then Inl (RelinkerException ''PT_SCE_RELRO partially overlaps a PT_LOAD segment''
                  (ph_MappedAddress relro))
      else Inr True)"

text \<open>
  The body of the RELRO loop at index \<open>i\<close>. The code iterates by reference over the list it
  changes, so the inner loop sees the entries already rewritten.
\<close>

definition relro_step ::
    "bytes \<Rightarrow> nat \<Rightarrow> program_header list \<times> program_header list
      \<Rightarrow> (program_header list \<times> program_header list) res" where
  "relro_step file i = (\<lambda>(headers, protections).
     let relro = headers ! i in
     if ph_Type relro \<noteq> PT_OS_RELRO \<or> ph_MemorySize relro = 0 then Inr (headers, protections)
     else bind_res (fold_res (relro_against relro) headers False) (\<lambda>covered.
       if \<not> covered then
         if ph_FileSize relro > ph_MemorySize relro
         then Inl (RelinkerException ''PT_SCE_RELRO file size exceeds memory size'' (ph_Offset relro))
         else if \<not> rangeFits (ph_Offset relro) (ph_FileSize relro) (length file)
         then Inl (RelinkerException ''Segment offset out of bounds'' (ph_Offset relro))
         else Inr (headers[i := relro\<lparr>ph_Type := PT_LOAD, ph_Flags := PF_R OR PF_W\<rparr>],
                   protections @ [relro\<lparr>ph_Type := PT_GNU_RELRO, ph_Flags := PF_R\<rparr>])
       else Inr (headers[i := relro\<lparr>ph_Type := PT_GNU_RELRO, ph_Flags := PF_R\<rparr>], protections)))"

definition has_single_bit :: "u64 \<Rightarrow> bool" where
  "has_single_bit x \<longleftrightarrow> list_ex (\<lambda>n. x = push_bit n 1) [0..<64]"

definition tls_inside_load :: "program_header \<Rightarrow> program_header \<Rightarrow> bool" where
  "tls_inside_load tls load \<longleftrightarrow> ph_Type load = PT_LOAD
     \<and> ph_MappedAddress tls \<ge> ph_MappedAddress load
     \<and> ph_MappedAddress tls - ph_MappedAddress load \<le> ph_MemorySize load
     \<and> ph_FileSize tls \<le> ph_MemorySize load - (ph_MappedAddress tls - ph_MappedAddress load)"

text \<open>The body of the TLS loop; the accumulator is \<open>hasTls\<close>.\<close>

definition tls_step :: "bytes \<Rightarrow> program_header list \<Rightarrow> program_header \<Rightarrow> bool \<Rightarrow> bool res" where
  "tls_step file headers tls hasTls =
     (if ph_Type tls \<noteq> PT_TLS then Inr hasTls
      else if hasTls then Inl (RelinkerException ''Multiple ELF TLS segments'' (ph_Offset tls))
      else if ph_FileSize tls > ph_MemorySize tls
        \<or> ph_Alignment tls > 1 \<and> \<not> has_single_bit (ph_Alignment tls)
      then Inl (RelinkerException ''Invalid or unsupported ELF TLS layout'' (ph_Offset tls))
      else if ph_FileSize tls = 0 then Inr True
      else if \<not> rangeFits (ph_Offset tls) (ph_FileSize tls) (length file)
      then Inl (RelinkerException ''PT_TLS initialization image is outside the file'' (ph_Offset tls))
      else if \<not> list_ex (tls_inside_load tls) headers
      then Inl (RelinkerException ''PT_TLS initialization image is outside PT_LOAD memory'' (ph_Offset tls))
      else Inr True)"

definition phdr_table :: "bytes \<Rightarrow> program_header list res" where
  "phdr_table file =
     bind_res (ReadHeader file) (\<lambda>header.
     if eh_ProgramHeaderCount header \<noteq> 0 \<and> eh_ProgramHeaderEntrySize header \<noteq> 56
     then Inl (RelinkerException ''Invalid ELF program header entry size: expected 56 bytes'' 0x36)
     else let tableSize = ucast (eh_ProgramHeaderCount header) * ucast (eh_ProgramHeaderEntrySize header)
     in if \<not> rangeFits (eh_ProgramHeaderOffset header) tableSize (length file)
     then Inl (RelinkerException ''FileByteOffset out of bounds'' (eh_ProgramHeaderOffset header))
     else read_phdr_table file (eh_ProgramHeaderOffset header)
            (ucast (eh_ProgramHeaderEntrySize header)) (unat (eh_ProgramHeaderCount header)))"

definition ReadProgramHeaders :: "bytes \<Rightarrow> program_header list res" where
  "ReadProgramHeaders file =
     bind_res (phdr_table file) (\<lambda>headers.
     bind_res (fold_res (relro_step file) [0..<length headers] (headers, [])) (\<lambda>(hs, protections).
     let out = hs @ protections in
     bind_res (fold_res (tls_step file out) out False) (\<lambda>_. Inr out)))"

subsection \<open>Section headers\<close>

definition bytes_string :: "bytes \<Rightarrow> string" where
  "bytes_string bs = map (\<lambda>b. char_of (unat b)) bs"

definition resolveShdrName :: "bytes \<Rightarrow> u32 \<Rightarrow> elf_header \<Rightarrow> string res" where
  "resolveShdrName file nameOffset header =
     (if eh_SectionHeaderStringIndex header = 0 then Inr ''''
      else let shstrOffset = eh_SectionHeaderOffset header
                 + ucast ((ucast (eh_SectionHeaderStringIndex header) :: u32)
                          * eh_SectionHeaderEntrySize header)
      in bind_res (readU32At file (shstrOffset + of_nat kShdrTypeOffset)) (\<lambda>type.
      if type \<noteq> SHT_STRTAB
      then Inl (RelinkerException ''Section names do not reference a string table'' shstrOffset)
      else bind_res (readU64At file (shstrOffset + 0x18)) (\<lambda>strTableOffset.
      bind_res (readU64At file (shstrOffset + of_nat kShdrSizeOffset)) (\<lambda>strTableSize.
      if \<not> rangeFits strTableOffset strTableSize (length file)
      then Inl (RelinkerException ''Section name string table out of bounds'' strTableOffset)
      else if strTableSize = 0 \<and> nameOffset = 0 then Inr ''''
      else if ucast nameOffset \<ge> strTableSize
      then Inl (RelinkerException ''Section name offset out of bounds'' (ucast nameOffset))
      else let window = subbytes file (unat strTableOffset + unat nameOffset)
                          (unat strTableSize - unat nameOffset)
      in if 0 \<notin> set window
      then Inl (RelinkerException ''Unterminated section name'' (strTableOffset + ucast nameOffset))
      else Inr (bytes_string (takeWhile (\<lambda>b. b \<noteq> 0) window))))))"

definition read_shdr :: "bytes \<Rightarrow> elf_header \<Rightarrow> u64 \<Rightarrow> section_header res" where
  "read_shdr file header offset =
     bind_res (readU32At file offset) (\<lambda>nameOffset.
     bind_res (readU32At file (offset + 0x04)) (\<lambda>type.
     bind_res (readU64At file (offset + 0x08)) (\<lambda>flags.
     bind_res (readU64At file (offset + 0x10)) (\<lambda>addr.
     bind_res (readU64At file (offset + 0x18)) (\<lambda>off.
     bind_res (readU64At file (offset + 0x20)) (\<lambda>size.
     bind_res (readU32At file (offset + 0x28)) (\<lambda>link.
     bind_res (readU32At file (offset + 0x2c)) (\<lambda>info.
     bind_res (readU64At file (offset + of_nat kShdrAlignOffset)) (\<lambda>align.
     bind_res (readU64At file (offset + of_nat kShdrEntSizeOffset)) (\<lambda>entsize.
     if type \<noteq> SHT_NULL \<and> align > 1 \<and> \<not> has_single_bit align
     then Inl (RelinkerException ''Section header alignment is not a power of two''
                 (offset + of_nat kShdrAlignOffset))
     else if type = SHT_SYMTAB \<and> entsize \<noteq> kSymEntrySize
     then Inl (RelinkerException ''Invalid symbol table entry size'' (offset + of_nat kShdrEntSizeOffset))
     else if type \<noteq> SHT_NULL \<and> type \<noteq> SHT_NOBITS \<and> size \<noteq> 0 \<and> \<not> rangeFits off size (length file)
     then Inl (RelinkerException ''Section offset out of bounds'' off)
     else bind_res (resolveShdrName file nameOffset header) (\<lambda>name.
     Inr \<lparr>sh_Name = name, sh_Type = type, sh_Flags = flags, sh_MappedAddress = addr,
          sh_Offset = off, sh_SectionSize = size, sh_Link = link, sh_Info = info,
          sh_Alignment = align, sh_EntrySize = entsize\<rparr>)))))))))))"

fun read_shdr_table :: "bytes \<Rightarrow> elf_header \<Rightarrow> u64 \<Rightarrow> nat \<Rightarrow> section_header list res" where
  "read_shdr_table file header offset 0 = Inr []"
| "read_shdr_table file header offset (Suc n) =
     bind_res (read_shdr file header offset) (\<lambda>sh.
     bind_res (read_shdr_table file header (offset + ucast (eh_SectionHeaderEntrySize header)) n)
       (\<lambda>shs. Inr (sh # shs)))"

definition ReadSectionHeaders :: "bytes \<Rightarrow> section_header list res" where
  "ReadSectionHeaders file =
     bind_res (ReadHeader file) (\<lambda>header.
     if eh_SectionHeaderCount header \<noteq> 0 \<and> eh_SectionHeaderEntrySize header \<noteq> of_nat kShdrEntrySize
     then Inl (RelinkerException ''Invalid ELF section header entry size: expected 64 bytes'' 0x3a)
     else let tableSize = ucast (eh_SectionHeaderCount header) * ucast (eh_SectionHeaderEntrySize header)
     in if \<not> rangeFits (eh_SectionHeaderOffset header) tableSize (length file)
     then Inl (RelinkerException ''Section header table out of bounds'' (eh_SectionHeaderOffset header))
     else if eh_SectionHeaderStringIndex header \<noteq> 0
       \<and> eh_SectionHeaderStringIndex header \<ge> eh_SectionHeaderCount header
     then Inl (RelinkerException ''Section header string table index out of bounds'' 0x3e)
     else read_shdr_table file header (eh_SectionHeaderOffset header)
            (unat (eh_SectionHeaderCount header)))"

subsection \<open>Dynamic tags, addresses and segments\<close>

text \<open>\<open>while (end - offset >= 16)\<close>: the distance to the end shrinks by 16 in every round.\<close>

function read_dynamic_tags :: "bytes \<Rightarrow> u64 \<Rightarrow> u64 \<Rightarrow> u64 \<Rightarrow> dynamic_tag list res" where
  "read_dynamic_tags file start offset stop =
     (if stop - offset \<ge> 16 then
        bind_res (readU64At file offset) (\<lambda>tag.
        bind_res (readU64At file (offset + 0x08)) (\<lambda>val.
        if tag = 0 then Inr []
        else bind_res (read_dynamic_tags file start (offset + 16) stop)
               (\<lambda>tags. Inr (\<lparr>dt_Tag = tag, dt_Value = val\<rparr> # tags))))
      else Inl (RelinkerException ''Unterminated dynamic segment'' start))"
  by pat_completeness auto
termination
proof (relation "measure (\<lambda>(file, start, offset, stop). unat (stop - offset))", goal_cases)
  case 1
  show ?case by simp
next
  case (2 f start offset stop x xa)
  have "unat (stop - (offset + 16)) = unat ((stop - offset) - 16)"
    by (simp add: algebra_simps)
  also have "\<dots> = unat (stop - offset) - 16"
    using 2(1) by (simp only: unat_sub_le) simp
  finally show ?case
    using 2(1) by (simp add: word_le_nat_alt)
qed

declare read_dynamic_tags.simps [simp del]

definition ReadDynamicTags :: "bytes \<Rightarrow> program_header \<Rightarrow> dynamic_tag list res" where
  "ReadDynamicTags file dynamicHeader =
     (if \<not> rangeFits (ph_Offset dynamicHeader) (ph_FileSize dynamicHeader) (length file)
      then Inl (RelinkerException ''Dynamic segment out of bounds'' (ph_Offset dynamicHeader))
      else read_dynamic_tags file (ph_Offset dynamicHeader) (ph_Offset dynamicHeader)
             (ph_Offset dynamicHeader + ph_FileSize dynamicHeader))"

fun translate_in :: "u64 \<Rightarrow> program_header list \<Rightarrow> u64 res" where
  "translate_in address [] =
     Inl (RelinkerException ''Virtual address not mapped by any PT_LOAD segment'' address)"
| "translate_in address (segment # rest) =
     (if ph_Type segment = PT_LOAD \<and> address \<ge> ph_MappedAddress segment
        \<and> address - ph_MappedAddress segment < ph_FileSize segment
      then Inr (ph_Offset segment + (address - ph_MappedAddress segment))
      else translate_in address rest)"

definition TranslateVirtualAddress :: "bytes \<Rightarrow> u64 \<Rightarrow> u64 res" where
  "TranslateVirtualAddress file address =
     bind_res (ReadProgramHeaders file) (translate_in address)"

definition ReadSegment :: "bytes \<Rightarrow> program_header \<Rightarrow> bytes res" where
  "ReadSegment file header =
     (if \<not> rangeFits (ph_Offset header) (ph_FileSize header) (length file)
      then Inl (RelinkerException ''Segment offset out of bounds'' (ph_Offset header))
      else Inr (subbytes file (unat (ph_Offset header)) (unat (ph_FileSize header))))"

definition GetFileSize :: "bytes \<Rightarrow> u64" where
  "GetFileSize file = of_nat (length file)"

subsection \<open>What a successful read guarantees\<close>

lemma rangeFits_iff: "rangeFits offset len extent \<longleftrightarrow> unat offset + unat len \<le> extent"
  by (auto simp: rangeFits_def)

lemma readAt_Inr:
  assumes "n < 2 ^ 64"
  shows "readAt n file off = Inr v \<longleftrightarrow>
    unat off + n \<le> length file \<and> v = le_word (subbytes file (unat off) n)"
  using assms by (auto simp: readAt_def rangeFits_iff unat_of_nat)

lemma read_word_Inr:
  "readU16At file off = Inr a \<longleftrightarrow> unat off + 2 \<le> length file \<and> a = le_word (subbytes file (unat off) 2)"
  "readU32At file off = Inr b \<longleftrightarrow> unat off + 4 \<le> length file \<and> b = le_word (subbytes file (unat off) 4)"
  "readU64At file off = Inr c \<longleftrightarrow> unat off + 8 \<le> length file \<and> c = le_word (subbytes file (unat off) 8)"
  by (simp_all add: readU16At_def readU32At_def readU64At_def readAt_Inr)

definition load_in_file :: "bytes \<Rightarrow> program_header \<Rightarrow> bool" where
  "load_in_file file ph \<longleftrightarrow> (ph_Type ph = PT_LOAD \<longrightarrow> ph_FileSize ph \<le> ph_MemorySize ph
     \<and> unat (ph_Offset ph) + unat (ph_FileSize ph) \<le> length file)"

lemma read_phdr_load_in_file: "read_phdr file off = Inr ph \<Longrightarrow> load_in_file file ph"
  by (auto simp: read_phdr_def load_in_file_def rangeFits_iff res_simps split: if_splits)

lemma read_phdr_table_load_in_file:
  "read_phdr_table file off stride n = Inr phs \<Longrightarrow> ph \<in> set phs \<Longrightarrow> load_in_file file ph"
  by (induction n arbitrary: off phs) (auto simp: res_simps dest: read_phdr_load_in_file)

lemma read_phdr_table_length: "read_phdr_table file off stride n = Inr phs \<Longrightarrow> length phs = n"
  by (induction n arbitrary: off phs) (auto simp: res_simps)

lemma phdr_table_load_in_file:
  "phdr_table file = Inr phs \<Longrightarrow> ph \<in> set phs \<Longrightarrow> load_in_file file ph"
  by (auto simp: phdr_table_def res_simps Let_def split: if_splits dest: read_phdr_table_load_in_file)

text \<open>The RELRO loop, step by step.\<close>

lemma relro_step_cases:
  assumes "relro_step file i (hs, ps) = Inr (hs', ps')"
  obtains (same) "hs' = hs" "ps' = ps" "ph_Type (hs ! i) \<noteq> PT_OS_RELRO \<or> ph_MemorySize (hs ! i) = 0"
  | (uncovered) "hs' = hs[i := (hs ! i)\<lparr>ph_Type := PT_LOAD, ph_Flags := PF_R OR PF_W\<rparr>]"
      "ps' = ps @ [(hs ! i)\<lparr>ph_Type := PT_GNU_RELRO, ph_Flags := PF_R\<rparr>]"
      "load_in_file file ((hs ! i)\<lparr>ph_Type := PT_LOAD, ph_Flags := PF_R OR PF_W\<rparr>)"
  | (covered) "hs' = hs[i := (hs ! i)\<lparr>ph_Type := PT_GNU_RELRO, ph_Flags := PF_R\<rparr>]" "ps' = ps"
  using assms
  by (auto simp: relro_step_def Let_def res_simps load_in_file_def rangeFits_iff not_less split: if_splits)

definition relro_done :: "bytes \<Rightarrow> nat \<Rightarrow> program_header list \<times> program_header list \<Rightarrow> bool" where
  "relro_done file i = (\<lambda>(hs, ps).
     (\<forall>ph \<in> set hs. load_in_file file ph) \<and> (\<forall>ph \<in> set ps. ph_Type ph = PT_GNU_RELRO)
     \<and> (\<forall>j < i. j < length hs \<longrightarrow> ph_Type (hs ! j) = PT_OS_RELRO \<longrightarrow> ph_MemorySize (hs ! j) = 0))"

lemma relro_step_done:
  assumes "relro_done file i s" and "relro_step file i s = Inr s'"
  shows "relro_done file (Suc i) s'"
proof -
  obtain hs ps where s: "s = (hs, ps)" by (cases s)
  obtain hs' ps' where s': "s' = (hs', ps')" by (cases s')
  from assms(2) have "relro_step file i (hs, ps) = Inr (hs', ps')" by (simp add: s s')
  then show ?thesis
  proof (cases rule: relro_step_cases)
    case same
    then show ?thesis using assms(1) by (auto simp: s s' relro_done_def less_Suc_eq)
  next
    case uncovered
    then show ?thesis using assms(1)
      by (auto simp: s s' relro_done_def less_Suc_eq nth_list_update
          dest!: subsetD [OF set_update_subset_insert])
  next
    case covered
    then show ?thesis using assms(1)
      by (auto simp: s s' relro_done_def less_Suc_eq nth_list_update load_in_file_def
          dest!: subsetD [OF set_update_subset_insert])
  qed
qed

lemma ReadProgramHeaders_Inr:
  assumes "ReadProgramHeaders file = Inr hs"
  obtains ps qs r where "hs = ps @ qs" and "relro_done file (length ps) (ps, qs)"
    and "fold_res (tls_step file hs) hs False = Inr r"
proof -
  from assms obtain phs ps qs r where
      t: "phdr_table file = Inr phs"
    and f: "fold_res (relro_step file) [0..<length phs] (phs, []) = Inr (ps, qs)"
    and h: "hs = ps @ qs" and r: "fold_res (tls_step file hs) hs False = Inr r"
    by (auto simp: ReadProgramHeaders_def res_simps Let_def)
  have len: "length ps = length phs"
    using fold_res_invariant [OF f, of "\<lambda>s. length (fst s) = length phs"]
    by (force elim: relro_step_cases)
  have "relro_done file 0 (phs, [])"
    using phdr_table_load_in_file [OF t] by (auto simp: relro_done_def)
  then have "relro_done file (length ps) (ps, qs)"
    unfolding len by (rule fold_res_upt_invariant [OF f]) (rule relro_step_done)
  then show thesis using that h r by blast
qed

text \<open>The TLS loop: the accumulator says whether a TLS segment was seen.\<close>

definition tls_image_ok :: "bytes \<Rightarrow> program_header list \<Rightarrow> program_header \<Rightarrow> bool" where
  "tls_image_ok file headers tls \<longleftrightarrow> ph_FileSize tls \<le> ph_MemorySize tls
     \<and> (ph_Alignment tls > 1 \<longrightarrow> has_single_bit (ph_Alignment tls))
     \<and> (ph_FileSize tls \<noteq> 0 \<longrightarrow>
          unat (ph_Offset tls) + unat (ph_FileSize tls) \<le> length file
          \<and> (\<exists>load \<in> set headers. tls_inside_load tls load))"

lemma tls_step_Inr:
  "tls_step file headers ph seen = Inr seen' \<Longrightarrow>
     (if ph_Type ph = PT_TLS then \<not> seen \<and> seen' \<and> tls_image_ok file headers ph else seen' = seen)"
  by (auto simp: tls_step_def tls_image_ok_def rangeFits_iff list_ex_iff split: if_splits)

lemma tls_loop_Inr:
  assumes "fold_res (tls_step file headers) phs seen = Inr seen'"
  shows "length (filter (\<lambda>ph. ph_Type ph = PT_TLS) phs) \<le> (if seen then 0 else 1)
    \<and> (\<forall>ph \<in> set phs. ph_Type ph = PT_TLS \<longrightarrow> tls_image_ok file headers ph)"
  using assms
proof (induction phs arbitrary: seen)
  case Nil
  then show ?case by simp
next
  case (Cons ph phs)
  from Cons.prems obtain mid where
      "tls_step file headers ph seen = Inr mid" and "fold_res (tls_step file headers) phs mid = Inr seen'"
    by (auto simp: res_simps)
  with tls_step_Inr Cons.IH show ?case by (fastforce split: if_splits)
qed

lemma translate_in_Inr:
  "translate_in a phs = Inr off \<Longrightarrow> \<exists>ph \<in> set phs. ph_Type ph = PT_LOAD
     \<and> ph_MappedAddress ph \<le> a \<and> a - ph_MappedAddress ph < ph_FileSize ph
     \<and> off = ph_Offset ph + (a - ph_MappedAddress ph)"
  by (induction phs) (auto split: if_splits)

lemma unat_add_le: "unat (a + b :: 'a::len word) \<le> unat a + unat b"
  by (simp add: unat_word_ariths)

lemma relro_done_elem:
  assumes "relro_done file (length ps) (ps, qs)" and "ph \<in> set (ps @ qs)"
  shows "load_in_file file ph \<and> (ph_Type ph = PT_OS_RELRO \<longrightarrow> ph_MemorySize ph = 0)"
proof (cases "ph \<in> set qs")
  case True
  with assms(1) have "ph_Type ph = PT_GNU_RELRO" unfolding relro_done_def by blast
  then show ?thesis by (simp add: load_in_file_def)
next
  case False
  with assms(2) obtain j where "j < length ps" and "ph = ps ! j" by (auto simp: in_set_conv_nth)
  with assms(1) show ?thesis unfolding relro_done_def by (auto intro: nth_mem)
qed

lemma loads_in_file:
  assumes "ReadProgramHeaders file = Inr hs" and "ph \<in> set hs"
  shows "load_in_file file ph \<and> (ph_Type ph = PT_OS_RELRO \<longrightarrow> ph_MemorySize ph = 0)"
  using assms(1) by (rule ReadProgramHeaders_Inr) (use assms(2) relro_done_elem in blast)

text \<open>The dynamic table: where each tag comes from.\<close>

definition tag_at :: "bytes \<Rightarrow> nat \<Rightarrow> dynamic_tag" where
  "tag_at file pos = \<lparr>dt_Tag = le_word (subbytes file pos 8), dt_Value = le_word (subbytes file (pos + 8) 8)\<rparr>"

lemma read_dynamic_tags_Inr:
  assumes "read_dynamic_tags buf start off stop = Inr tags" and "off \<le> stop"
  shows "unat off + 16 * (length tags + 1) \<le> unat stop
    \<and> tags = map (\<lambda>i. tag_at buf (unat off + 16 * i)) [0..<length tags]
    \<and> (\<forall>t \<in> set tags. dt_Tag t \<noteq> 0) \<and> dt_Tag (tag_at buf (unat off + 16 * length tags)) = 0"
  using assms
proof (induction buf start off stop arbitrary: tags rule: read_dynamic_tags.induct)
  case (1 buf start off stop)
  have ge: "stop - off \<ge> 16"
    using "1.prems"(1) by (subst (asm) read_dynamic_tags.simps) (auto split: if_splits)
  have room: "unat off + 16 \<le> unat stop"
    using ge "1.prems"(2) by (simp add: word_le_nat_alt unat_sub_le)
  have next16: "unat (off + 16) = unat off + 16" and next8: "unat (off + 8) = unat off + 8"
    using room unsigned_less [of stop, where ?'a = nat] by (simp_all add: unat_word_ariths)
  show ?case
  proof (cases tags)
    case Nil
    then have "readU64At buf off = Inr 0"
      using "1.prems"(1) ge by (subst (asm) read_dynamic_tags.simps) (auto simp: res_simps split: if_splits)
    then show ?thesis using room Nil by (auto simp: read_word_Inr tag_at_def)
  next
    case (Cons t ts)
    then have a: "readU64At buf off = Inr (dt_Tag t)" "dt_Tag t \<noteq> 0" "readU64At buf (off + 8) = Inr (dt_Value t)"
      and b: "read_dynamic_tags buf start (off + 16) stop = Inr ts"
      using "1.prems"(1) ge by (subst (asm) read_dynamic_tags.simps, auto simp: res_simps split: if_splits)+
    have t: "t = tag_at buf (unat off)"
      using a next8 by (cases t) (auto simp: read_word_Inr tag_at_def)
    have "off + 16 \<le> stop" using room next16 by (simp add: word_le_nat_alt)
    with "1.IH" [OF ge a(1) a(3) a(2) b] have IH: "unat (off + 16) + 16 * (length ts + 1) \<le> unat stop"
        "ts = map (\<lambda>i. tag_at buf (unat (off + 16) + 16 * i)) [0..<length ts]"
        "\<forall>t \<in> set ts. dt_Tag t \<noteq> 0" "dt_Tag (tag_at buf (unat (off + 16) + 16 * length ts)) = 0"
      by blast+
    have "map (\<lambda>i. tag_at buf (unat off + 16 * i)) [0..<Suc (length ts)] = t # ts"
      unfolding upt_conv_Cons [OF zero_less_Suc] map_Suc_upt [symmetric] map_map
      using IH(2) t next16 by (simp add: comp_def add_ac)
    then show ?thesis using IH a(2) next16 Cons by (auto simp: add_ac)
  qed
qed

text \<open>
  The section table: the entries are those of the file, names are the strings of the section name table up
  to their first zero byte, contents lie in the file.
\<close>

definition shdr_at :: "bytes \<Rightarrow> nat \<Rightarrow> section_header \<Rightarrow> bool" where
  "shdr_at file pos sh \<longleftrightarrow> pos + 64 \<le> length file
     \<and> sh_Type sh = le_word (subbytes file (pos + 4) 4) \<and> sh_Flags sh = le_word (subbytes file (pos + 8) 8)
     \<and> sh_MappedAddress sh = le_word (subbytes file (pos + 16) 8) \<and> sh_Offset sh = le_word (subbytes file (pos + 24) 8)
     \<and> sh_SectionSize sh = le_word (subbytes file (pos + 32) 8) \<and> sh_Link sh = le_word (subbytes file (pos + 40) 4)
     \<and> sh_Info sh = le_word (subbytes file (pos + 44) 4) \<and> sh_Alignment sh = le_word (subbytes file (pos + 48) 8)
     \<and> sh_EntrySize sh = le_word (subbytes file (pos + 56) 8)"

text \<open>The string with its zero byte at an offset of a string table in the file.\<close>

definition string_at :: "bytes \<Rightarrow> nat \<Rightarrow> nat \<Rightarrow> nat \<Rightarrow> string \<Rightarrow> bool" where
  "string_at file table extent offset name \<longleftrightarrow> offset + length name < extent \<and> table + extent \<le> length file
     \<and> name = bytes_string (subbytes file (table + offset) (length name))
     \<and> 0 \<notin> set (subbytes file (table + offset) (length name)) \<and> file ! (table + offset + length name) = 0"

text \<open>
  The name at an offset of the section name table, whose entry the file header gives: without a table every name is empty,
  and an empty table has the empty name at offset 0.
\<close>

definition named_at :: "bytes \<Rightarrow> elf_header \<Rightarrow> u32 \<Rightarrow> string \<Rightarrow> bool" where
  "named_at file h offset name \<longleftrightarrow>
     (if eh_SectionHeaderStringIndex h = 0 then name = ''''
      else let entry = unat (eh_SectionHeaderOffset h) + 64 * unat (eh_SectionHeaderStringIndex h);
             table = unat (le_word (subbytes file (entry + 24) 8) :: u64);
             extent = unat (le_word (subbytes file (entry + 32) 8) :: u64)
           in (le_word (subbytes file (entry + 4) 4) :: u32) = SHT_STRTAB
             \<and> (extent = 0 \<and> offset = 0 \<and> name = '''' \<or> string_at file table extent (unat offset) name))"

definition section_ok :: "bytes \<Rightarrow> section_header \<Rightarrow> bool" where
  "section_ok file sh \<longleftrightarrow>
     (sh_Type sh \<noteq> SHT_NULL \<longrightarrow> sh_Alignment sh > 1 \<longrightarrow> has_single_bit (sh_Alignment sh))
     \<and> (sh_Type sh = SHT_SYMTAB \<longrightarrow> sh_EntrySize sh = kSymEntrySize)
     \<and> (sh_Type sh \<noteq> SHT_NULL \<longrightarrow> sh_Type sh \<noteq> SHT_NOBITS \<longrightarrow> sh_SectionSize sh \<noteq> 0 \<longrightarrow>
          unat (sh_Offset sh) + unat (sh_SectionSize sh) \<le> length file)"

lemma string_in_window:
  assumes "0 \<in> set (subbytes file start n)" "start + n \<le> length file" "start = table + offset" "offset + n = extent"
  shows "string_at file table extent offset (bytes_string (takeWhile (\<lambda>b. b \<noteq> 0) (subbytes file start n)))"
proof -
  let ?w = "subbytes file start n"
  let ?k = "length (takeWhile (\<lambda>b. b \<noteq> 0) ?w)"
  have "takeWhile (\<lambda>b. b \<noteq> 0) ?w \<noteq> ?w" using assms(1) by (auto simp: takeWhile_eq_all_conv)
  then have k: "?k < length ?w"
    by (metis length_takeWhile_le nat_less_le takeWhile_eq_take take_all_iff)
  have len: "length ?w = n" using assms(2) by (simp add: layout_simps)
  have "takeWhile (\<lambda>b. b \<noteq> 0) ?w = take ?k ?w" by (rule takeWhile_eq_take)
  also have "\<dots> = subbytes file start ?k" using k len by (simp add: subbytes_def min_def)
  finally have same: "subbytes file start ?k = takeWhile (\<lambda>b. b \<noteq> 0) ?w" by simp
  have "?w ! ?k = 0" using nth_length_takeWhile [OF k] by simp
  then have zero: "file ! (start + ?k) = 0" using k len assms(2) by (simp add: layout_simps)
  have "0 \<notin> set (takeWhile (\<lambda>b. b \<noteq> 0) ?w)" by (auto dest: set_takeWhileD)
  then show ?thesis
    using same zero k len assms(2,4) by (simp add: string_at_def assms(3) bytes_string_def)
qed

lemma resolveShdrName_named:
  assumes run: "resolveShdrName file offset h = Inr name"
    and size: "eh_SectionHeaderEntrySize h = 64"
    and table: "unat (eh_SectionHeaderOffset h) + 64 * unat (eh_SectionHeaderStringIndex h) + 64 < 2 ^ 64"
  shows "named_at file h offset name"
proof (cases "eh_SectionHeaderStringIndex h = 0")
  case True
  then show ?thesis using run by (simp add: resolveShdrName_def named_at_def)
next
  case False
  let ?i = "eh_SectionHeaderStringIndex h" and ?e = "unat (eh_SectionHeaderOffset h) + 64 * unat (eh_SectionHeaderStringIndex h)"
  let ?entry = "eh_SectionHeaderOffset h + ucast ((ucast ?i :: u32) * eh_SectionHeaderEntrySize h)"
  have "unat ?i < 65536" using unsigned_less [of ?i, where ?'a = nat] by simp
  then have "unat ((ucast ?i :: u32) * eh_SectionHeaderEntrySize h) = unat ?i * 64"
    by (simp add: size unat_word_ariths unat_ucast_up)
  then have entry: "unat ?entry = ?e" using table by (simp add: unat_word_ariths unat_ucast_up)
  have reads: "unat (?entry + of_nat k) = ?e + k" if "k \<le> 64" for k
    using that table entry by (simp add: unat_add_of_nat)
  let ?table = "le_word (subbytes file (?e + 24) 8) :: u64" and ?size = "le_word (subbytes file (?e + 32) 8) :: u64"
  let ?window = "subbytes file (unat ?table + unat offset) (unat ?size - unat offset)"
  have type: "(le_word (subbytes file (?e + 4) 4) :: u32) = SHT_STRTAB"
    and fits: "unat ?table + unat ?size \<le> length file"
    and name: "?size = 0 \<and> offset = 0 \<and> name = '''' \<or>
      \<not> ucast offset \<ge> ?size \<and> 0 \<in> set ?window \<and> name = bytes_string (takeWhile (\<lambda>b. b \<noteq> 0) ?window)"
    using run False reads [of 4] reads [of 24] reads [of 32]
    by (auto simp: resolveShdrName_def Let_def bind_res_Inr_iff read_word_Inr rangeFits_iff split: if_splits)
  have "string_at file (unat ?table) (unat ?size) (unat offset) (bytes_string (takeWhile (\<lambda>b. b \<noteq> 0) ?window))"
    if r: "\<not> (ucast offset :: u64) \<ge> ?size" "0 \<in> set ?window"
  proof -
    have "unat offset < unat ?size" using r(1) by (simp add: word_le_nat_alt unat_ucast_up not_le)
    then show ?thesis by (intro string_in_window r(2)) (use fits in simp_all)
  qed
  then show ?thesis using name type False by (auto simp: named_at_def Let_def)
qed

lemma read_shdr_fields:
  "read_shdr file h off = Inr sh \<Longrightarrow> \<exists>offset. readU32At file off = Inr offset \<and> readU32At file (off + 4) = Inr (sh_Type sh) \<and>
     readU64At file (off + 8) = Inr (sh_Flags sh) \<and> readU64At file (off + 16) = Inr (sh_MappedAddress sh) \<and>
     readU64At file (off + 24) = Inr (sh_Offset sh) \<and> readU64At file (off + 32) = Inr (sh_SectionSize sh) \<and>
     readU32At file (off + 40) = Inr (sh_Link sh) \<and> readU32At file (off + 44) = Inr (sh_Info sh) \<and>
     readU64At file (off + 48) = Inr (sh_Alignment sh) \<and> readU64At file (off + 56) = Inr (sh_EntrySize sh) \<and>
     section_ok file sh \<and> resolveShdrName file offset h = Inr (sh_Name sh)"
  by (auto simp: read_shdr_def section_ok_def rangeFits_iff bind_res_Inr_iff split: if_splits)

lemma read_shdr_entry:
  assumes "read_shdr file h off = Inr sh" "unat off + 64 < 2 ^ 64"
  shows "shdr_at file (unat off) sh \<and> section_ok file sh \<and> resolveShdrName file (le_word (subbytes file (unat off) 4)) h = Inr (sh_Name sh)"
proof -
  have reads: "unat (off + of_nat k) = unat off + k" if "k \<le> 64" for k using that assms(2) by (simp add: unat_add_of_nat)
  have "unat (off + 4) = unat off + 4" "unat (off + 8) = unat off + 8" "unat (off + 16) = unat off + 16"
    "unat (off + 24) = unat off + 24" "unat (off + 32) = unat off + 32" "unat (off + 40) = unat off + 40"
    "unat (off + 44) = unat off + 44" "unat (off + 48) = unat off + 48" "unat (off + 56) = unat off + 56"
    using reads [of 4] reads [of 8] reads [of 16] reads [of 24] reads [of 32] reads [of 40] reads [of 44] reads [of 48] reads [of 56]
    by simp_all
  then show ?thesis
    using read_shdr_fields [OF assms(1)] unfolding read_word_Inr shdr_at_def by (elim exE conjE) simp
qed

lemma read_shdr_table_entries:
  assumes "read_shdr_table file h off n = Inr shs" "eh_SectionHeaderEntrySize h = 64" "unat off + 64 * n < 2 ^ 64"
  shows "length shs = n \<and> (\<forall>i < n. shdr_at file (unat off + 64 * i) (shs ! i) \<and> section_ok file (shs ! i) \<and>
    resolveShdrName file (le_word (subbytes file (unat off + 64 * i) 4)) h = Inr (sh_Name (shs ! i)))"
  using assms
proof (induction n arbitrary: off shs)
  case (Suc n)
  obtain sh rest where s: "read_shdr file h off = Inr sh" "shs = sh # rest"
      "read_shdr_table file h (off + 64) n = Inr rest"
    using Suc.prems(1,2) by (auto simp: bind_res_Inr_iff)
  have "unat (off + 64) = unat off + 64" using Suc.prems(3) unat_add_of_nat [of off 64] by simp
  then show ?case
    using Suc.IH [OF s(3) Suc.prems(2)] read_shdr_entry [OF s(1)] Suc.prems(3)
    by (auto simp: s(2) less_Suc_eq_0_disj add.assoc)
qed simp

lemma ReadSectionHeaders_entries:
  assumes run: "ReadSectionHeaders file = Inr shs" and small: "length file < 2 ^ 64"
  obtains h where "ReadHeader file = Inr h" "length shs = unat (eh_SectionHeaderCount h)"
    "\<And>i. i < length shs \<Longrightarrow> let pos = unat (eh_SectionHeaderOffset h) + 64 * i in
       shdr_at file pos (shs ! i) \<and> named_at file h (le_word (subbytes file pos 4)) (sh_Name (shs ! i)) \<and> section_ok file (shs ! i)"
proof -
  obtain h where h: "ReadHeader file = Inr h"
      "eh_SectionHeaderCount h = 0 \<or> eh_SectionHeaderEntrySize h = 64"
      "rangeFits (eh_SectionHeaderOffset h) (ucast (eh_SectionHeaderCount h) * ucast (eh_SectionHeaderEntrySize h)) (length file)"
      "eh_SectionHeaderStringIndex h = 0 \<or> eh_SectionHeaderStringIndex h < eh_SectionHeaderCount h"
      "read_shdr_table file h (eh_SectionHeaderOffset h) (unat (eh_SectionHeaderCount h)) = Inr shs"
    using run by (auto simp: ReadSectionHeaders_def Let_def bind_res_Inr_iff not_le split: if_splits)
  show thesis
  proof (cases "eh_SectionHeaderCount h = 0")
    case True
    then show thesis using that [OF h(1)] h(5) by simp
  next
    case False
    let ?off = "eh_SectionHeaderOffset h" and ?n = "unat (eh_SectionHeaderCount h)"
    have size: "eh_SectionHeaderEntrySize h = 64" using h(2) False by simp
    have "?n < 65536" using unsigned_less [of "eh_SectionHeaderCount h", where ?'a = nat] by simp
    then have "unat (ucast (eh_SectionHeaderCount h) * ucast (eh_SectionHeaderEntrySize h) :: u64) = 64 * ?n"
      by (simp add: size unat_word_ariths unat_ucast_up)
    then have fits: "unat ?off + 64 * ?n < 2 ^ 64" using h(3) small by (simp add: rangeFits_iff)
    have index: "unat (eh_SectionHeaderStringIndex h) + 1 \<le> ?n"
      using h(4) False by (auto simp: word_less_nat_alt unat_eq_0 Suc_le_eq unat_gt_0)
    note entries = read_shdr_table_entries [OF h(5) size fits]
    show thesis
    proof (rule that [OF h(1)])
      show "length shs = ?n" using entries by simp
      fix i assume "i < length shs"
      then have i: "i < ?n" using entries by simp
      have "named_at file h (le_word (subbytes file (unat ?off + 64 * i) 4)) (sh_Name (shs ! i))"
        by (rule resolveShdrName_named [OF _ size]) (use entries i fits index in auto)
      then show "let pos = unat ?off + 64 * i in
          shdr_at file pos (shs ! i) \<and> named_at file h (le_word (subbytes file pos 4)) (sh_Name (shs ! i)) \<and> section_ok file (shs ! i)"
        using entries i by (simp add: Let_def)
    qed
  qed
qed

subsection \<open>A concrete image\<close>

text \<open>
  A file with a header and three program headers: a \<open>PT_LOAD\<close>, a \<open>PT_SCE_RELRO\<close> outside it and
  a \<open>PT_TLS\<close> inside it. The properties' witnesses apply them to it.
\<close>

definition sample_elf :: bytes where
  "sample_elf =
    [127, 69, 76, 70, 2, 1, 1, 0, 0, 0, 0, 0, 0, 0, 0, 0, 3, 0, 62, 0, 1, 0, 0, 0, 0, 0,
     0, 0, 0, 0, 0, 0, 64, 0, 0, 0, 0, 0, 0, 0, 0, 0, 0, 0, 0, 0, 0, 0, 0, 0, 0, 0, 64,
     0, 56, 0, 3, 0, 64, 0, 0, 0, 0, 0, 1, 0, 0, 0, 4, 0, 0, 0, 0, 0, 0, 0, 0, 0, 0, 0,
     0, 16, 0, 0, 0, 0, 0, 0, 0, 16, 0, 0, 0, 0, 0, 0, 64, 0, 0, 0, 0, 0, 0, 0, 0, 1, 0,
     0, 0, 0, 0, 0, 16, 0, 0, 0, 0, 0, 0, 0, 16, 0, 0, 97, 4, 0, 0, 0, 64, 0, 0, 0, 0,
     0, 0, 0, 0, 32, 0, 0, 0, 0, 0, 0, 0, 32, 0, 0, 0, 0, 0, 0, 32, 0, 0, 0, 0, 0, 0, 0,
     32, 0, 0, 0, 0, 0, 0, 0, 16, 0, 0, 0, 0, 0, 0, 0, 7, 0, 0, 0, 4, 0, 0, 0, 0, 0, 0,
     0, 0, 0, 0, 0, 0, 16, 0, 0, 0, 0, 0, 0, 0, 16, 0, 0, 0, 0, 0, 0, 16, 0, 0, 0, 0, 0,
     0, 0, 24, 0, 0, 0, 0, 0, 0, 0, 16, 0, 0, 0, 0, 0, 0, 0]"

definition sample_load :: program_header where
  "sample_load = \<lparr>ph_Type = PT_LOAD, ph_Flags = 4, ph_Offset = 0, ph_MappedAddress = 0x1000,
     ph_PhysicalAddress = 0x1000, ph_FileSize = 0x40, ph_MemorySize = 0x100, ph_Alignment = 16\<rparr>"

definition sample_headers :: "program_header list" where
  "sample_headers = [sample_load,
     \<lparr>ph_Type = PT_LOAD, ph_Flags = PF_R OR PF_W, ph_Offset = 0x40, ph_MappedAddress = 0x2000,
      ph_PhysicalAddress = 0x2000, ph_FileSize = 0x20, ph_MemorySize = 0x20, ph_Alignment = 16\<rparr>,
     \<lparr>ph_Type = PT_TLS, ph_Flags = 4, ph_Offset = 0, ph_MappedAddress = 0x1000,
      ph_PhysicalAddress = 0x1000, ph_FileSize = 0x10, ph_MemorySize = 0x18, ph_Alignment = 16\<rparr>,
     \<lparr>ph_Type = PT_GNU_RELRO, ph_Flags = PF_R, ph_Offset = 0x40, ph_MappedAddress = 0x2000,
      ph_PhysicalAddress = 0x2000, ph_FileSize = 0x20, ph_MemorySize = 0x20, ph_Alignment = 16\<rparr>]"

lemma ReadProgramHeaders_sample: "ReadProgramHeaders sample_elf = Inr sample_headers"
  by code_simp
text \<open>
  A file with two section headers, the null section and a \<open>.ab\<close> string table that holds the
  names.
\<close>

definition sample_sections :: bytes where
  "sample_sections =
    [127, 69, 76, 70, 2, 1, 1, 0, 0, 0, 0, 0, 0, 0, 0, 0, 3, 0, 62, 0, 1, 0, 0, 0, 0, 0,
     0, 0, 0, 0, 0, 0, 0, 0, 0, 0, 0, 0, 0, 0, 64, 0, 0, 0, 0, 0, 0, 0, 0, 0, 0, 0, 64,
     0, 56, 0, 0, 0, 64, 0, 2, 0, 1, 0]
     @ replicate 64 0
     @ [1, 0, 0, 0, 3, 0, 0, 0, 0, 0, 0, 0, 0, 0, 0, 0, 0, 0, 0, 0, 0, 0, 0, 0,
        192, 0, 0, 0, 0, 0, 0, 0, 5, 0, 0, 0, 0, 0, 0, 0, 0, 0, 0, 0, 0, 0, 0, 0,
        8, 0, 0, 0, 0, 0, 0, 0, 0, 0, 0, 0, 0, 0, 0, 0]
     @ [0, 46, 97, 98, 0]"

lemma ReadSectionHeaders_sample:
  "map_sum id (map sh_Name) (ReadSectionHeaders sample_sections) = Inr [[], ''.ab'']"
  by code_simp

text \<open>A dynamic segment of two tags and its terminator.\<close>

definition sample_dynamic :: bytes where
  "sample_dynamic = le_bytes 8 (1 :: u64) @ le_bytes 8 (0x10 :: u64) @ le_bytes 8 (5 :: u64)
     @ le_bytes 8 (0x400 :: u64) @ replicate 24 0"

definition sample_dynamic_header :: program_header where
  "sample_dynamic_header = \<lparr>ph_Type = 2, ph_Flags = 4, ph_Offset = 0, ph_MappedAddress = 0x1000,
     ph_PhysicalAddress = 0x1000, ph_FileSize = 56, ph_MemorySize = 56, ph_Alignment = 8\<rparr>"

lemma ReadDynamicTags_sample:
  "ReadDynamicTags sample_dynamic sample_dynamic_header =
     Inr [\<lparr>dt_Tag = 1, dt_Value = 0x10\<rparr>, \<lparr>dt_Tag = 5, dt_Value = 0x400\<rparr>]"
  by code_simp


subsection \<open>Properties\<close>

text \<open>
  C38: every \<open>PT_LOAD\<close> segment \<open>ReadProgramHeaders\<close> returns, the ones it makes out of
  \<open>PT_SCE_RELRO\<close> segments included, has a file image that lies inside the file and is no
  larger than its memory image, and no \<open>PT_SCE_RELRO\<close> segment that occupies memory is left.
\<close>

theorem program_headers_sound:
  assumes "ReadProgramHeaders file = Inr hs" and "ph \<in> set hs"
  shows "(ph_Type ph = PT_LOAD \<longrightarrow> ph_FileSize ph \<le> ph_MemorySize ph
      \<and> unat (ph_Offset ph) + unat (ph_FileSize ph) \<le> length file)
    \<and> (ph_Type ph = PT_OS_RELRO \<longrightarrow> ph_MemorySize ph = 0)"
  using loads_in_file [OF assms] unfolding load_in_file_def by blast

text \<open>
  At most one TLS segment is returned, and its initialization image lies inside the file
  and inside the memory of one of the returned \<open>PT_LOAD\<close> segments.
\<close>

theorem program_headers_single_tls:
  assumes "ReadProgramHeaders file = Inr hs"
  shows "length (filter (\<lambda>ph. ph_Type ph = PT_TLS) hs) \<le> 1
    \<and> (\<forall>tls \<in> set hs. ph_Type tls = PT_TLS \<longrightarrow> tls_image_ok file hs tls)"
  using assms
proof (rule ReadProgramHeaders_Inr)
  fix ps qs r
  assume "fold_res (tls_step file hs) hs False = Inr r"
  then show ?thesis by (auto dest: tls_loop_Inr)
qed

text \<open>
  a translated virtual address is a position inside the file, and it is the position its
  \<open>PT_LOAD\<close> segment maps there.
\<close>

theorem translated_address_in_file:
  assumes "TranslateVirtualAddress file address = Inr off"
  shows "unat off < length file
    \<and> (\<exists>hs seg. ReadProgramHeaders file = Inr hs \<and> seg \<in> set hs \<and> ph_Type seg = PT_LOAD
        \<and> ph_MappedAddress seg \<le> address \<and> off = ph_Offset seg + (address - ph_MappedAddress seg))"
proof -
  from assms obtain hs where h: "ReadProgramHeaders file = Inr hs"
      and t: "translate_in address hs = Inr off"
    by (auto simp: TranslateVirtualAddress_def bind_res_Inr_iff)
  from translate_in_Inr [OF t] obtain seg where s: "seg \<in> set hs" "ph_Type seg = PT_LOAD"
      and m: "ph_MappedAddress seg \<le> address"
      and d: "address - ph_MappedAddress seg < ph_FileSize seg"
      and off: "off = ph_Offset seg + (address - ph_MappedAddress seg)"
    by blast
  have "unat (ph_Offset seg) + unat (ph_FileSize seg) \<le> length file"
    using loads_in_file [OF h s(1)] s(2) unfolding load_in_file_def by blast
  moreover have "unat off \<le> unat (ph_Offset seg) + unat (address - ph_MappedAddress seg)"
    unfolding off by (rule unat_add_le)
  moreover have "unat (address - ph_MappedAddress seg) < unat (ph_FileSize seg)"
    using d by (simp add: word_less_nat_alt)
  ultimately have "unat off < length file" by linarith
  with h s m off show ?thesis by blast
qed

text \<open>
  C39: an accepted section header table is read exactly: it has the number of entries the file header states, entry
  \<open>i\<close> has the fields at its 64 bytes in the table, and its name is the string at its name offset
  in the section name table, from there up to the first zero byte, which lies inside that table (empty if the file
  has no such table). For the entries that are not \<open>SHT_NULL\<close>, an alignment above 1 is a power of two, and the contents
  lie inside the file unless they are empty or \<open>SHT_NOBITS\<close>; a symbol table has 24-byte entries.
\<close>

theorem section_headers_sound:
  assumes "ReadSectionHeaders file = Inr shs" and "length file < 2 ^ 64"
  shows "\<exists>h. ReadHeader file = Inr h \<and> length shs = unat (eh_SectionHeaderCount h)
    \<and> (\<forall>i < length shs. let pos = unat (eh_SectionHeaderOffset h) + 64 * i in
         shdr_at file pos (shs ! i) \<and> named_at file h (le_word (subbytes file pos 4)) (sh_Name (shs ! i))
         \<and> section_ok file (shs ! i))"
  using ReadSectionHeaders_entries [OF assms] by metis

text \<open>
  C40: the tags read from a dynamic segment are its 16-byte entries in order, up to and without
  the first \<open>DT_NULL\<close> entry, which lies inside the segment too: reading stops before the
  segment's end or the segment is rejected.
\<close>

theorem dynamic_tags_exact:
  assumes "ReadDynamicTags file ph = Inr tags" and "length file < 2 ^ 64"
  shows "16 * (length tags + 1) \<le> unat (ph_FileSize ph)
    \<and> tags = map (\<lambda>i. tag_at file (unat (ph_Offset ph) + 16 * i)) [0..<length tags]
    \<and> (\<forall>t \<in> set tags. dt_Tag t \<noteq> 0)
    \<and> dt_Tag (tag_at file (unat (ph_Offset ph) + 16 * length tags)) = 0"
proof -
  let ?off = "ph_Offset ph" and ?stop = "ph_Offset ph + ph_FileSize ph"
  from assms have fit: "unat ?off + unat (ph_FileSize ph) \<le> length file"
    and r: "read_dynamic_tags file ?off ?off ?stop = Inr tags"
    by (auto simp: ReadDynamicTags_def rangeFits_iff split: if_splits)
  have stop: "unat ?stop = unat ?off + unat (ph_FileSize ph)"
    using fit assms(2) by (simp add: unat_word_ariths)
  then have "?off \<le> ?stop" by (simp add: word_le_nat_alt)
  from read_dynamic_tags_Inr [OF r this] stop show ?thesis by simp
qed

subsection \<open>Witnesses\<close>

lemma program_headers_sound_witness:
  "unat (ph_Offset sample_load) + unat (ph_FileSize sample_load) \<le> length sample_elf"
  using program_headers_sound [OF ReadProgramHeaders_sample, of sample_load]
  by (simp add: sample_headers_def) (simp add: sample_load_def)

lemma program_headers_single_tls_witness:
  "length (filter (\<lambda>ph. ph_Type ph = PT_TLS) sample_headers) \<le> 1
    \<and> tls_image_ok sample_elf sample_headers (sample_headers ! 2)"
  using program_headers_single_tls [OF ReadProgramHeaders_sample]
  by (simp add: sample_headers_def)

lemma TranslateVirtualAddress_sample: "TranslateVirtualAddress sample_elf 0x1010 = Inr 0x10"
  unfolding TranslateVirtualAddress_def ReadProgramHeaders_sample by code_simp

lemma translated_address_in_file_witness: "unat (0x10 :: u64) < length sample_elf"
  using translated_address_in_file [OF TranslateVirtualAddress_sample] by blast

lemma section_headers_sound_witness:
  "\<exists>shs h. ReadSectionHeaders sample_sections = Inr shs \<and> map sh_Name shs = [[], ''.ab'']
     \<and> ReadHeader sample_sections = Inr h \<and> named_at sample_sections h 1 ''.ab''"
proof -
  obtain shs where r: "ReadSectionHeaders sample_sections = Inr shs" and names: "map sh_Name shs = [[], ''.ab'']"
    using ReadSectionHeaders_sample by (cases "ReadSectionHeaders sample_sections") auto
  have shoff: "res_holds (\<lambda>h. eh_SectionHeaderOffset h = 64) (ReadHeader sample_sections)"
    and offset: "(le_word (subbytes sample_sections 128 4) :: u32) = 1"
    by code_simp+
  have len: "length shs = 2" using arg_cong [OF names, of length] by simp
  have "sh_Name (shs ! 1) = map sh_Name shs ! 1" using len by simp
  then have name: "sh_Name (shs ! 1) = ''.ab''" by (simp add: names)
  have "length sample_sections < 2 ^ 64" by (simp add: sample_sections_def)
  from section_headers_sound [OF r this] obtain h where h: "ReadHeader sample_sections = Inr h"
    and "\<forall>i < length shs. let pos = unat (eh_SectionHeaderOffset h) + 64 * i in
         shdr_at sample_sections pos (shs ! i) \<and> named_at sample_sections h (le_word (subbytes sample_sections pos 4)) (sh_Name (shs ! i))
         \<and> section_ok sample_sections (shs ! i)"
    by blast
  then have "let pos = unat (eh_SectionHeaderOffset h) + 64 * 1 in named_at sample_sections h (le_word (subbytes sample_sections pos 4)) (sh_Name (shs ! 1))"
    using len by (metis one_less_numeral_iff semiring_norm(76))
  moreover have "eh_SectionHeaderOffset h = 64" using shoff h by (auto dest: res_holdsD)
  ultimately have "named_at sample_sections h 1 ''.ab''" using name by (simp add: offset)
  then show ?thesis using r names h by (intro exI [of _ shs] exI [of _ h] conjI)
qed

lemma sample_dynamic_length: "length sample_dynamic = 56"
  by (simp add: sample_dynamic_def)

lemma dynamic_tags_exact_witness:
  "dt_Tag (tag_at sample_dynamic 32) = 0
    \<and> [\<lparr>dt_Tag = 1, dt_Value = 0x10\<rparr>, \<lparr>dt_Tag = 5, dt_Value = 0x400\<rparr>]
      = map (\<lambda>i. tag_at sample_dynamic (16 * i)) [0..<2]"
  using dynamic_tags_exact [OF ReadDynamicTags_sample]
  by (simp add: sample_dynamic_length sample_dynamic_header_def upt_rec)

end
