(* ===== verification/Relr.thy ===== *)
theory Relr
  imports Elf_Types
begin

text \<open>
  \<open>ReadRelrRelocations\<close> (\<open>relinker/src/parsing/RelrRelocations.cpp\<close>): decoding of the compact
  \<open>DT_RELR\<close> table. The ordered map of targets to addends is the list of its entries in key
  order, which \<open>lower_bound\<close> splits at a key. The lemmas relate the table to the reference
  decoder \<open>relr_targets\<close> and show that no two targets overlap.
\<close>

subsection \<open>The code\<close>

text \<open>The \<open>value\<close> lambda: the value of a tag that may occur more than once.\<close>

definition tag_step :: "u64 \<Rightarrow> string \<Rightarrow> dynamic_tag \<Rightarrow> u64 option \<Rightarrow> u64 option res" where
  "tag_step kind name tag result =
     (if dt_Tag tag \<noteq> kind then Inr result
      else if result \<noteq> None \<and> result \<noteq> Some (dt_Value tag)
      then Inl (RelinkerException (''Conflicting duplicate '' @ name @ '' tags'') 0)
      else Inr (Some (dt_Value tag)))"

definition tag_value :: "u64 \<Rightarrow> string \<Rightarrow> dynamic_tag list \<Rightarrow> u64 option res" where
  "tag_value kind name tags = fold_res (tag_step kind name) tags None"

definition valid_load :: "bytes \<Rightarrow> program_header \<Rightarrow> bool" where
  "valid_load buf header \<longleftrightarrow>
     \<not> (ph_FileSize header > ph_MemorySize header
        \<or> unat (ph_Offset header) > length buf
        \<or> unat (ph_FileSize header) > length buf - unat (ph_Offset header)
        \<or> ph_MemorySize header > u64_max - ph_MappedAddress header)"

fun check_loads :: "bytes \<Rightarrow> program_header list \<Rightarrow> unit res" where
  "check_loads buf [] = Inr ()"
| "check_loads buf (header # headers) =
     (if ph_Type header = PT_LOAD \<and> \<not> valid_load buf header
      then Inl (RelinkerException ''Invalid RELR load segment'' (ph_Offset header))
      else check_loads buf headers)"

definition load_covers :: "u64 \<Rightarrow> u64 \<Rightarrow> bool \<Rightarrow> program_header \<Rightarrow> bool" where
  "load_covers target extent file_backed header \<longleftrightarrow>
     (let limit = (if file_backed then ph_FileSize header else ph_MemorySize header) in
      \<not> (ph_Type header \<noteq> PT_LOAD \<or> target < ph_MappedAddress header
         \<or> target - ph_MappedAddress header > limit
         \<or> extent > limit - (target - ph_MappedAddress header)))"

definition loadAt :: "program_header list \<Rightarrow> u64 \<Rightarrow> u64 \<Rightarrow> bool \<Rightarrow> program_header res" where
  "loadAt headers target extent file_backed =
     bind_res (fold_res (\<lambda>header found.
         if \<not> load_covers target extent file_backed header then Inr found
         else if found \<noteq> None then Inl (RelinkerException ''Ambiguous RELR load mapping'' target)
         else Inr (Some header)) headers None) (\<lambda>found.
     case found of
       None \<Rightarrow> Inl (RelinkerException
         (if file_backed then ''RELR table exceeds file-backed load segment''
          else ''RELR target exceeds load segment'') target)
     | Some header \<Rightarrow> Inr header)"

definition or_bytes :: "bytes \<Rightarrow> u64 \<Rightarrow> nat list \<Rightarrow> u64" where
  "or_bytes buf offset indices =
     fold (\<lambda>index w. w OR push_bit (index * 8) (ucast (buf ! unat (offset + of_nat index)))) indices 0"

definition readWord :: "bytes \<Rightarrow> u64 \<Rightarrow> u64" where
  "readWord buf offset = or_bytes buf offset [0..<8]"

type_synonym reloc_map = "(u64 \<times> u64) list"

text \<open>The \<open>append\<close> lambda.\<close>

definition relr_append ::
    "bytes \<Rightarrow> program_header list \<Rightarrow> u64 \<Rightarrow> reloc_map \<Rightarrow> reloc_map res" where
  "relr_append buf headers target m =
     bind_res (loadAt headers target 8 False) (\<lambda>load.
     let before = takeWhile (\<lambda>e. fst e < target) m;
         next = dropWhile (\<lambda>e. fst e < target) m
     in if next \<noteq> [] \<and> fst (hd next) - target < 8
          \<or> before \<noteq> [] \<and> target - fst (last before) < 8
        then Inl (RelinkerException ''Overlapping RELR targets'' target)
        else let relative = target - ph_MappedAddress load;
                 addend = or_bytes buf (ph_Offset load + relative)
                   (takeWhile (\<lambda>index. relative + of_nat index < ph_FileSize load) [0..<8])
             in Inr (before @ [(target, addend)] @ next))"

text \<open>One word of the table; the cursor is the address the next bitmap describes.\<close>

definition relr_entry ::
    "bytes \<Rightarrow> program_header list \<Rightarrow> u64 \<Rightarrow> u64 \<Rightarrow> u64 option \<times> reloc_map
      \<Rightarrow> (u64 option \<times> reloc_map) res" where
  "relr_entry buf headers position entry = (\<lambda>(cursor, m).
     if entry AND 1 = 0 then
       bind_res (relr_append buf headers entry m) (\<lambda>m. Inr (Some (entry + 8), m))
     else case cursor of
       None \<Rightarrow> Inl (RelinkerException ''RELR bitmap precedes address entry'' position)
     | Some c \<Rightarrow>
         if c > u64_max - 63 * 8
         then Inl (RelinkerException ''RELR bitmap address overflow'' c)
         else bind_res (fold_res (\<lambda>n m.
                if drop_bit n entry AND 1 \<noteq> 0
                then relr_append buf headers (c + of_nat ((n - 1) * 8)) m else Inr m) [1..<64] m)
              (\<lambda>m. Inr (Some (c + 63 * 8), m)))"

definition relr_loop ::
    "bytes \<Rightarrow> program_header list \<Rightarrow> u64 \<Rightarrow> u64 \<Rightarrow> u64 \<Rightarrow> (u64 option \<times> reloc_map) res" where
  "relr_loop buf headers address tableOffset len =
     fold_res (\<lambda>k. let offset = of_nat (8 * k) in
         relr_entry buf headers (address + offset) (readWord buf (tableOffset + offset)))
       [0..<unat len div 8] (None, [])"

definition relr_table ::
    "bytes \<Rightarrow> program_header list \<Rightarrow> u64 \<Rightarrow> u64 \<Rightarrow> reloc_map res" where
  "relr_table buf headers address len =
     bind_res (check_loads buf headers) (\<lambda>_.
     bind_res (loadAt headers address len True) (\<lambda>table.
     bind_res (relr_loop buf headers address
        (ph_Offset table + (address - ph_MappedAddress table)) len) (\<lambda>(cursor, m). Inr m)))"

definition ReadRelrRelocations ::
    "bytes \<Rightarrow> program_header list \<Rightarrow> dynamic_tag list \<Rightarrow> reloc_map res" where
  "ReadRelrRelocations buf headers tags =
     bind_res (tag_value DT_RELR ''DT_RELR'' tags) (\<lambda>address.
     bind_res (tag_value DT_RELRSZ ''DT_RELRSZ'' tags) (\<lambda>size.
     bind_res (tag_value DT_RELRENT ''DT_RELRENT'' tags) (\<lambda>stride.
     case (address, size, stride) of
       (None, None, None) \<Rightarrow> Inr []
     | (Some a, Some s, Some t) \<Rightarrow>
         if t \<noteq> 8 then Inl (RelinkerException ''Invalid DT_RELRENT: expected 8 bytes'' 0)
         else if s mod 8 \<noteq> 0
         then Inl (RelinkerException ''Invalid DT_RELRSZ: expected a multiple of 8 bytes'' 0)
         else if s = 0 then Inr []
         else relr_table buf headers a s
     | _ \<Rightarrow> Inl (RelinkerException ''Incomplete DT_RELR metadata'' 0))))"

subsection \<open>The reference decoder\<close>

text \<open>
  The generic ABI's reading of a table: an even word is an address and moves the base past it;
  an odd word is a bitmap of the 63 words from the base on and moves the base past them.
\<close>

definition bitmap_targets :: "u64 \<Rightarrow> u64 \<Rightarrow> u64 list" where
  "bitmap_targets base w = map (\<lambda>n. base + of_nat ((n - 1) * 8)) (filter (bit w) [1..<64])"

fun relr_targets :: "u64 option \<Rightarrow> u64 list \<Rightarrow> u64 list" where
  "relr_targets base [] = []"
| "relr_targets base (w # ws) =
     (if \<not> bit w 0 then w # relr_targets (Some (w + 8)) ws
      else case base of
        None \<Rightarrow> relr_targets None ws
      | Some b \<Rightarrow> bitmap_targets b w @ relr_targets (Some (b + 63 * 8)) ws)"

text \<open>Eight bytes of memory at a target, zero beyond the part that is in the file.\<close>

definition memory_word :: "bytes \<Rightarrow> program_header \<Rightarrow> u64 \<Rightarrow> u64" where
  "memory_word buf load target =
     (let rel = unat (target - ph_MappedAddress load) in
      le_word (map (\<lambda>i. if rel + i < unat (ph_FileSize load)
                        then buf ! (unat (ph_Offset load) + rel + i) else 0) [0..<8]))"

definition spaced :: "u64 list \<Rightarrow> bool" where
  "spaced ts \<longleftrightarrow> sorted_wrt (\<lambda>a b. unat a + 8 \<le> unat b) ts"

subsection \<open>Words assembled byte by byte\<close>

lemma le_word_append: "le_word (xs @ ys) = le_word xs OR push_bit (8 * length xs) (le_word ys :: 'a::len word)"
proof (induction xs)
  case Nil
  then show ?case by simp
next
  case (Cons x xs)
  then show ?case by (simp add: push_bit_or or.assoc add.commute)
qed

lemma le_word_zeros: "le_word (replicate n 0) = 0"
  by (induction n) simp_all

lemma fold_or_bytes:
  "fold (\<lambda>i w. w OR push_bit (i * 8) (ucast (f i :: u8))) [0..<n] 0 = (le_word (map f [0..<n]) :: 'a::len word)"
  by (induction n) (simp_all add: le_word_append mult.commute)

lemma le_word_map_upt_cut:
  assumes "k \<le> n" and "\<And>i. k \<le> i \<Longrightarrow> i < n \<Longrightarrow> f i = 0"
  shows "le_word (map f [0..<n]) = (le_word (map f [0..<k]) :: 'a::len word)"
proof -
  have "[0..<n] = [0..<k] @ [k..<n]"
    using assms(1) upt_add_eq_append [of 0 k "n - k"] by simp
  moreover have "map f [k..<n] = replicate (n - k) 0"
    using assms(2) by (simp add: list_eq_iff_nth_eq)
  ultimately show ?thesis by (simp add: le_word_append le_word_zeros)
qed

lemma or_bytes_upt:
  "or_bytes buf off [0..<n] = le_word (map (\<lambda>i. buf ! unat (off + of_nat i)) [0..<n])"
  unfolding or_bytes_def by (rule fold_or_bytes)

lemma readWord_eq:
  assumes "unat off + 8 \<le> length buf" and "length buf < 2 ^ 64"
  shows "readWord buf off = le_word (subbytes buf (unat off) 8)"
proof -
  have "map (\<lambda>i. buf ! unat (off + of_nat i)) [0..<8] = subbytes buf (unat off) 8"
    using assms by (intro nth_equalityI) (simp_all add: layout_simps unat_add_of_nat)
  then show ?thesis by (simp add: readWord_def or_bytes_upt)
qed

lemma takeWhile_less_upt: "takeWhile (\<lambda>i. i < k) [0..<n] = [0..<min k n]"
proof (induction n)
  case (Suc n)
  then show ?case by (cases "n < k") (auto simp: takeWhile_append min_def le_Suc_eq)
qed simp

subsection \<open>One target\<close>

lemma loadAt_Inr:
  assumes "loadAt headers t n file_backed = Inr load"
  shows "load \<in> set headers \<and> load_covers t n file_backed load"
proof -
  let ?f = "\<lambda>header found. if \<not> load_covers t n file_backed header then Inr found
         else if found \<noteq> None then Inl (RelinkerException ''Ambiguous RELR load mapping'' t)
         else Inr (Some header)"
  from assms have "fold_res ?f headers None = Inr (Some load)"
    unfolding loadAt_def by (auto simp: bind_res_Inr_iff split: option.splits)
  then have "case Some load of None \<Rightarrow> True | Some h \<Rightarrow> h \<in> set headers \<and> load_covers t n file_backed h"
    by (rule fold_res_invariant) (auto split: if_splits option.splits)
  then show ?thesis by simp
qed

lemma check_loads_Inr:
  "check_loads buf headers = Inr () \<Longrightarrow> h \<in> set headers \<Longrightarrow> ph_Type h = PT_LOAD \<Longrightarrow> valid_load buf h"
  by (induction headers) (auto split: if_splits)

lemma spaced_insert:
  assumes "spaced (xs @ ys)" and "xs \<noteq> [] \<Longrightarrow> unat (last xs) + 8 \<le> unat t"
    and "ys \<noteq> [] \<Longrightarrow> unat t + 8 \<le> unat (hd ys)"
  shows "spaced (xs @ t # ys)"
proof -
  have xs: "unat x + 8 \<le> unat t" if "x \<in> set xs" for x
  proof -
    have ne: "xs \<noteq> []" using that by auto
    then have "spaced (butlast xs @ [last xs])" using assms(1) by (simp add: spaced_def sorted_wrt_append)
    moreover have "x \<in> set (butlast xs) \<or> x = last xs"
      using that ne by (metis UnE append_butlast_last_id empty_iff empty_set set_ConsD set_append)
    ultimately show ?thesis using assms(2) [OF ne] by (auto simp: spaced_def sorted_wrt_append)
  qed
  have ys: "unat t + 8 \<le> unat y" if "y \<in> set ys" for y
    using that assms(1,3) by (cases ys) (auto simp: spaced_def sorted_wrt_append)
  show ?thesis using assms(1) xs ys by (auto simp: spaced_def sorted_wrt_append)
qed

text \<open>The memory a covered target occupies does not wrap around the address space.\<close>

lemma load_covers_memory:
  assumes "load_covers t 8 False load" and "valid_load buf load"
  shows "unat (ph_MappedAddress load) \<le> unat t
    \<and> unat t + 8 \<le> unat (ph_MappedAddress load) + unat (ph_MemorySize load)
    \<and> unat (ph_MappedAddress load) + unat (ph_MemorySize load) < 2 ^ 64"
proof -
  let ?v = "ph_MappedAddress load" and ?m = "ph_MemorySize load"
  from assms(1) have a: "?v \<le> t" "t - ?v \<le> ?m" "8 \<le> ?m - (t - ?v)"
    by (auto simp: load_covers_def Let_def not_less)
  from assms(2) have "?m \<le> - 1 - ?v" by (auto simp: valid_load_def not_less)
  then have "unat ?m + unat ?v < 2 ^ 64" by (simp add: no_wrap_iff)
  then show ?thesis using a by (simp add: word_le_nat_alt unat_sub_le)
qed


lemma valid_load_file:
  "valid_load buf load \<Longrightarrow> unat (ph_Offset load) + unat (ph_FileSize load) \<le> length buf"
  by (auto simp: valid_load_def not_less)

lemma memory_word_eq:
  assumes c: "load_covers t 8 False load" and v: "valid_load buf load" and len: "length buf < 2 ^ 64"
  shows "or_bytes buf (ph_Offset load + (t - ph_MappedAddress load))
      (takeWhile (\<lambda>i. (t - ph_MappedAddress load) + of_nat i < ph_FileSize load) [0..<8])
    = memory_word buf load t"
proof -
  let ?r = "t - ph_MappedAddress load" and ?o = "ph_Offset load" and ?k = "unat (ph_FileSize load)"
  note m = load_covers_memory [OF c v]
  have "unat ?r = unat t - unat (ph_MappedAddress load)" using m by (simp add: unat_sub_le word_le_nat_alt)
  with m have r: "unat ?r + 8 < 2 ^ 64" by linarith
  let ?n = "min (?k - unat ?r) 8"
  have "takeWhile (\<lambda>i. ?r + of_nat i < ph_FileSize load) [0..<8] = takeWhile (\<lambda>i. i < ?k - unat ?r) [0..<8]"
    using r by (intro takeWhile_cong refl) (auto simp: word_less_nat_alt unat_add_of_nat)
  also have "\<dots> = [0..<?n]" by (rule takeWhile_less_upt)
  finally have t: "takeWhile (\<lambda>i. ?r + of_nat i < ph_FileSize load) [0..<8] = [0..<?n]" .
  have a: "unat (?o + ?r + of_nat i) = unat ?o + unat ?r + i" if "i < ?n" for i
  proof -
    have "unat ?o + unat ?r + i < length buf" using that valid_load_file [OF v] by linarith
    then show ?thesis using len by (simp add: unat_add_of_nat unat_word_ariths unat_of_nat)
  qed
  have "memory_word buf load t
      = le_word (map (\<lambda>i. if unat ?r + i < ?k then buf ! (unat ?o + unat ?r + i) else 0) [0..<?n])"
    unfolding memory_word_def Let_def by (rule le_word_map_upt_cut) auto
  also have "\<dots> = or_bytes buf (?o + ?r) [0..<?n]"
    unfolding or_bytes_upt by (rule arg_cong [of _ _ le_word]) (auto simp: a)
  finally show ?thesis by (simp add: t)
qed

lemma word_gap: "t \<le> y \<Longrightarrow> \<not> y - t < 8 \<Longrightarrow> unat t + 8 \<le> unat y" for t y :: u64
  by (simp add: word_less_nat_alt unat_sub_le word_le_nat_alt not_less)

definition reloc_ok :: "bytes \<Rightarrow> program_header list \<Rightarrow> reloc_map \<Rightarrow> bool" where
  "reloc_ok buf headers m \<longleftrightarrow> spaced (map fst m)
     \<and> (\<forall>(t, a) \<in> set m. \<exists>load \<in> set headers. ph_Type load = PT_LOAD
          \<and> unat (ph_MappedAddress load) \<le> unat t
          \<and> unat t + 8 \<le> unat (ph_MappedAddress load) + unat (ph_MemorySize load)
          \<and> a = memory_word buf load t)"

lemma relr_append_Inr:
  assumes r: "relr_append buf headers t m = Inr m'" and ok: "reloc_ok buf headers m"
    and v: "\<And>h. h \<in> set headers \<Longrightarrow> ph_Type h = PT_LOAD \<Longrightarrow> valid_load buf h"
    and len: "length buf < 2 ^ 64"
  shows "reloc_ok buf headers m' \<and> set (map fst m') = insert t (set (map fst m))"
proof -
  let ?P = "\<lambda>e. fst e < t" and ?Q = "\<lambda>x. x < t"
  from r obtain load where l: "loadAt headers t 8 False = Inr load"
      and gap: "\<not> (dropWhile ?P m \<noteq> [] \<and> fst (hd (dropWhile ?P m)) - t < 8)"
        "\<not> (takeWhile ?P m \<noteq> [] \<and> t - fst (last (takeWhile ?P m)) < 8)"
      and m': "m' = takeWhile ?P m @ (t, or_bytes buf (ph_Offset load + (t - ph_MappedAddress load))
        (takeWhile (\<lambda>i. (t - ph_MappedAddress load) + of_nat i < ph_FileSize load) [0..<8])) # dropWhile ?P m"
    unfolding relr_append_def Let_def bind_res_Inr_iff if_Inl_eq_Inr sum.inject de_Morgan_disj
      append_Cons append_Nil by metis
  from loadAt_Inr [OF l] have lh: "load \<in> set headers" and c: "load_covers t 8 False load" by auto
  then have pt: "ph_Type load = PT_LOAD" by (auto simp: load_covers_def Let_def)
  note vl = v [OF lh pt]
  note m'' = m' [unfolded memory_word_eq [OF c vl len]]
  have below: "unat (last (map fst (takeWhile ?P m))) + 8 \<le> unat t" if "takeWhile ?P m \<noteq> []"
  proof -
    have "fst (last (takeWhile ?P m)) < t"
      using set_takeWhileD [OF last_in_set [OF that]] by (rule conjunct2)
    then show ?thesis using gap(2) that word_gap [of _ t] by (simp add: last_map less_imp_le)
  qed
  have above: "unat t + 8 \<le> unat (fst (hd (dropWhile ?P m)))" if "dropWhile ?P m \<noteq> []"
  proof -
    have "t \<le> fst (hd (dropWhile ?P m))"
      using hd_dropWhile [OF that] by (simp add: not_less)
    then show ?thesis using gap(1) that word_gap by blast
  qed
  have "spaced (map fst (takeWhile ?P m) @ map fst (dropWhile ?P m))"
    using ok unfolding reloc_ok_def map_append [symmetric] takeWhile_dropWhile_id by blast
  then have "spaced (map fst m')" unfolding m'' list.map map_append fst_conv
    by (rule spaced_insert) (use below above in \<open>auto simp: hd_map\<close>)
  moreover have sub: "set m' = insert (t, memory_word buf load t) (set m)"
    unfolding m'' set_append list.set Un_insert_right
    unfolding set_append [symmetric] takeWhile_dropWhile_id ..
  ultimately have "reloc_ok buf headers m'"
    using ok lh pt load_covers_memory [OF c vl] unfolding reloc_ok_def sub by blast
  then show ?thesis using sub by simp
qed

subsection \<open>The table\<close>

lemma and_1_bit:
  "w AND 1 = 0 \<longleftrightarrow> \<not> bit w 0" "drop_bit n w AND 1 \<noteq> 0 \<longleftrightarrow> bit w n" for w :: u64
  by (simp_all add: and_one_eq bit_iff_odd_drop_bit odd_iff_mod_2_eq_one bit_0 even_iff_mod_2_eq_zero)

lemma bitmap_loop_eq:
  "fold_res (\<lambda>n m. if drop_bit n w AND 1 \<noteq> 0
      then relr_append buf headers (c + of_nat ((n - 1) * 8)) m else Inr m) [1..<64]
    = fold_res (relr_append buf headers) (bitmap_targets c w)"
  unfolding and_1_bit(2) bitmap_targets_def fold_res_map by (rule ext) (rule fold_res_filter)

lemma relr_appends_Inr:
  assumes "fold_res (relr_append buf headers) ts m = Inr m'" and "reloc_ok buf headers m"
    and "\<And>h. h \<in> set headers \<Longrightarrow> ph_Type h = PT_LOAD \<Longrightarrow> valid_load buf h"
    and "length buf < 2 ^ 64"
  shows "reloc_ok buf headers m' \<and> set (map fst m') = set (map fst m) \<union> set ts"
  using assms(1,2)
proof (induction ts arbitrary: m)
  case Nil
  then show ?case by simp
next
  case (Cons t ts)
  then obtain u where u: "relr_append buf headers t m = Inr u"
    and r: "fold_res (relr_append buf headers) ts u = Inr m'"
    by (auto simp: bind_res_Inr_iff)
  from relr_append_Inr [OF u Cons.prems(2) assms(3,4)] Cons.IH [OF r] show ?case by auto
qed

lemma relr_entries_Inr:
  assumes "fold_res (\<lambda>k. relr_entry buf headers (pos k) (word k)) ks (c, m) = Inr (c', m')"
    and "reloc_ok buf headers m"
    and "\<And>h. h \<in> set headers \<Longrightarrow> ph_Type h = PT_LOAD \<Longrightarrow> valid_load buf h"
    and "length buf < 2 ^ 64"
  shows "reloc_ok buf headers m' \<and> set (map fst m') = set (map fst m) \<union> set (relr_targets c (map word ks))"
  using assms(1,2)
proof (induction ks arbitrary: c m)
  case Nil
  then show ?case by simp
next
  case (Cons k ks)
  from Cons.prems(1) obtain d u where e: "relr_entry buf headers (pos k) (word k) (c, m) = Inr (d, u)"
    and r: "fold_res (\<lambda>k. relr_entry buf headers (pos k) (word k)) ks (d, u) = Inr (c', m')"
    by (auto simp: bind_res_Inr_iff)
  show ?case
  proof (cases "bit (word k) 0")
    case False
    with e have "relr_append buf headers (word k) m = Inr u" and d: "d = Some (word k + 8)"
      by (auto simp: relr_entry_def bind_res_Inr_iff and_1_bit)
    from relr_append_Inr [OF this(1) Cons.prems(2) assms(3,4)] Cons.IH [OF r] d False
    show ?thesis by auto
  next
    case True
    with e obtain b where b: "c = Some b" and d: "d = Some (b + 63 * 8)"
      and l: "fold_res (relr_append buf headers) (bitmap_targets b (word k)) m = Inr u"
      unfolding relr_entry_def bitmap_loop_eq
      by (auto simp: bind_res_Inr_iff and_1_bit split: option.splits if_splits)
    from relr_appends_Inr [OF l Cons.prems(2) assms(3,4)] Cons.IH [OF r] b d True
    show ?thesis by auto
  qed
qed

lemma relr_table_Inr:
  assumes r: "relr_table buf headers a s = Inr m" and len: "length buf < 2 ^ 64"
  obtains table off where "table \<in> set headers" and "load_covers a s True table"
    and "off = unat (ph_Offset table) + unat (a - ph_MappedAddress table)"
    and "off + unat s \<le> length buf" and "reloc_ok buf headers m"
    and "set (map fst m) = set (relr_targets None
           (map (\<lambda>k. le_word (subbytes buf (off + 8 * k) 8)) [0..<unat s div 8]))"
proof -
  from r obtain table c where ch: "check_loads buf headers = Inr ()"
      and l: "loadAt headers a s True = Inr table"
      and loop: "relr_loop buf headers a (ph_Offset table + (a - ph_MappedAddress table)) s = Inr (c, m)"
    by (auto simp: relr_table_def bind_res_Inr_iff)
  note v = check_loads_Inr [OF ch]
  from loadAt_Inr [OF l] have t: "table \<in> set headers" and cov: "load_covers a s True table" by auto
  then have pt: "ph_Type table = PT_LOAD" by (auto simp: load_covers_def Let_def)
  note fits = valid_load_file [OF v [OF t pt]]
  let ?d = "a - ph_MappedAddress table"
  let ?off = "unat (ph_Offset table) + unat ?d"
  have d: "unat ?d + unat s \<le> unat (ph_FileSize table)"
    using cov by (auto simp: load_covers_def Let_def not_less word_le_nat_alt unat_sub_le)
  then have lim: "?off + unat s \<le> length buf" using fits by linarith
  have o: "unat (ph_Offset table + ?d) = ?off"
    using lim len by (simp add: unat_word_ariths)
  have w: "readWord buf (ph_Offset table + ?d + of_nat (8 * k)) = le_word (subbytes buf (?off + 8 * k) 8)"
    if "k < unat s div 8" for k
  proof -
    have k: "8 * k + 8 \<le> unat s" using that by linarith
    then have "unat (ph_Offset table + ?d + of_nat (8 * k)) = ?off + 8 * k"
      using lim len o unat_add_of_nat [of "ph_Offset table + ?d" "8 * k"] by linarith
    then show ?thesis using k lim len by (simp add: readWord_eq)
  qed
  have "reloc_ok buf headers []" by (simp add: reloc_ok_def spaced_def)
  from relr_entries_Inr [OF loop [unfolded relr_loop_def Let_def] this v len]
  have "reloc_ok buf headers m" and keys: "set (map fst m) = set (relr_targets None
      (map (\<lambda>k. readWord buf (ph_Offset table + ?d + of_nat (8 * k))) [0..<unat s div 8]))"
    by simp_all
  moreover have "map (\<lambda>k. readWord buf (ph_Offset table + ?d + of_nat (8 * k))) [0..<unat s div 8]
      = map (\<lambda>k. le_word (subbytes buf (?off + 8 * k) 8)) [0..<unat s div 8]"
    by (intro map_cong refl w) simp
  ultimately show thesis using that [OF t cov refl lim] by metis
qed

lemma ReadRelrRelocations_Inr:
  assumes "ReadRelrRelocations buf headers tags = Inr m"
  shows "m = [] \<or> (\<exists>a s. tag_value DT_RELR ''DT_RELR'' tags = Inr (Some a)
    \<and> tag_value DT_RELRSZ ''DT_RELRSZ'' tags = Inr (Some s) \<and> relr_table buf headers a s = Inr m)"
  using assms by (auto simp: ReadRelrRelocations_def bind_res_Inr_iff split: option.splits if_splits)

subsection \<open>A concrete table\<close>

text \<open>
  Thirty-two bytes mapped at \<open>0x1000\<close>, the first sixteen of which are the table: the address
  \<open>0x1010\<close> and a bitmap with its first bit set, the word after it.
\<close>

definition relr_sample :: bytes where
  "relr_sample = [0x10, 0x10, 0, 0, 0, 0, 0, 0, 3, 0, 0, 0, 0, 0, 0, 0,
     0x34, 0x12, 0, 0, 0, 0, 0, 0, 0x78, 0x56, 0, 0, 0, 0, 0, 0]"

definition relr_sample_load :: program_header where
  "relr_sample_load = \<lparr>ph_Type = PT_LOAD, ph_Flags = 6, ph_Offset = 0, ph_MappedAddress = 0x1000,
     ph_PhysicalAddress = 0x1000, ph_FileSize = 32, ph_MemorySize = 64, ph_Alignment = 16\<rparr>"

definition relr_sample_tags :: "dynamic_tag list" where
  "relr_sample_tags = [\<lparr>dt_Tag = DT_RELR, dt_Value = 0x1000\<rparr>, \<lparr>dt_Tag = DT_RELRSZ, dt_Value = 16\<rparr>,
     \<lparr>dt_Tag = DT_RELRENT, dt_Value = 8\<rparr>]"

lemma relr_sample_Inr:
  "ReadRelrRelocations relr_sample [relr_sample_load] relr_sample_tags
    = Inr [(0x1010, 0x1234), (0x1018, 0x5678)]"
  by code_simp

lemma relr_sample_tag_values:
  "tag_value DT_RELR ''DT_RELR'' relr_sample_tags = Inr (Some 0x1000)"
  "tag_value DT_RELRSZ ''DT_RELRSZ'' relr_sample_tags = Inr (Some 16)"
  by code_simp+

subsection \<open>Properties\<close>

text \<open>
  C29: the relocations read from a \<open>DT_RELR\<close> table are, in increasing order and without
  repetition, exactly the addresses the reference decoder gives for the words of the table,
  which lies inside the file-backed part of one loaded segment.
\<close>

theorem relr_targets_exact:
  assumes "ReadRelrRelocations buf headers tags = Inr m"
    and "tag_value DT_RELR ''DT_RELR'' tags = Inr (Some a)"
    and "tag_value DT_RELRSZ ''DT_RELRSZ'' tags = Inr (Some s)"
    and "m \<noteq> []" and "length buf < 2 ^ 64"
  shows "sorted_wrt (<) (map fst m) \<and>
    (\<exists>table \<in> set headers. load_covers a s True table \<and>
      (let off = unat (ph_Offset table) + unat (a - ph_MappedAddress table) in
        off + unat s \<le> length buf \<and>
        set (map fst m) = set (relr_targets None
          (map (\<lambda>k. le_word (subbytes buf (off + 8 * k) 8)) [0..<unat s div 8]))))"
proof -
  from ReadRelrRelocations_Inr [OF assms(1)] assms(2-4) have t: "relr_table buf headers a s = Inr m" by auto
  then show ?thesis
  proof (rule relr_table_Inr [OF _ assms(5)])
    fix table off
    assume a: "table \<in> set headers" "load_covers a s True table"
      "off = unat (ph_Offset table) + unat (a - ph_MappedAddress table)" "off + unat s \<le> length buf"
      and ok: "reloc_ok buf headers m"
      and k: "set (map fst m) = set (relr_targets None
        (map (\<lambda>k. le_word (subbytes buf (off + 8 * k) 8)) [0..<unat s div 8]))"
    from ok have "sorted_wrt (\<lambda>a b. unat a + 8 \<le> unat b) (map fst m)" by (simp add: reloc_ok_def spaced_def)
    then have "sorted_wrt (<) (map fst m)"
      by (rule sorted_wrt_mono_rel [rotated]) (simp add: word_less_nat_alt)
    then show ?thesis using a k unfolding Let_def by blast
  qed
qed

text \<open>
  C30: the eight-byte words that \<open>DT_RELR\<close> relocates do not overlap, each lies in the memory of
  a loaded segment, and its addend is the word the segment has there, read as zero where the
  segment's memory is beyond its file image.
\<close>

theorem relr_addends_sound:
  assumes "ReadRelrRelocations buf headers tags = Inr m" and "length buf < 2 ^ 64"
  shows "sorted_wrt (\<lambda>a b. unat a + 8 \<le> unat b) (map fst m) \<and>
    (\<forall>(t, a) \<in> set m. \<exists>load \<in> set headers. ph_Type load = PT_LOAD
       \<and> unat (ph_MappedAddress load) \<le> unat t
       \<and> unat t + 8 \<le> unat (ph_MappedAddress load) + unat (ph_MemorySize load)
       \<and> a = memory_word buf load t)"
proof (cases "m = []")
  case False
  then obtain a s where "relr_table buf headers a s = Inr m"
    using ReadRelrRelocations_Inr [OF assms(1)] by auto
  then have "reloc_ok buf headers m" by (rule relr_table_Inr [OF _ assms(2)])
  then show ?thesis unfolding reloc_ok_def spaced_def .
qed simp

lemma relr_targets_exact_witness:
  "sorted_wrt (<) [0x1010 :: u64, 0x1018] \<and> load_covers 0x1000 16 True relr_sample_load"
  using relr_targets_exact [OF relr_sample_Inr relr_sample_tag_values]
  by (simp add: relr_sample_def)

lemma relr_addends_sound_witness:
  "0x5678 = memory_word relr_sample relr_sample_load 0x1018"
  using relr_addends_sound [OF relr_sample_Inr] by (simp add: relr_sample_def)

end
