(* ===== verification/Segment_Layout.thy ===== *)
theory Segment_Layout
  imports Elf_Reader "HOL-Library.Product_Lexorder" "HOL-Library.Multiset"
begin

text \<open>
  The program headers of the output: \<open>SegmentFilter\<close> and \<open>ProgramHeaderLayoutBuilder\<close>
  (\<open>elfpatcher/src/general\<close>). The builder calls the filter through the interface
  \<open>ISegmentFilter\<close>, so its operations take the predicate \<open>ShouldSkip\<close> as their first argument
  \<open>skip\<close>; what they rely on is the locale \<open>segment_filter\<close>, interpreted on the code's filter.
\<close>

subsection \<open>SegmentFilter\<close>

definition isSceSpecificSegment :: "u32 \<Rightarrow> bool" where
  "isSceSpecificSegment type \<longleftrightarrow> type = PT_SCE_DYNLIBDATA \<or> type = PT_OS_PROCPARAM
     \<or> type = PT_OS_RELRO \<or> type \<ge> PT_LOOS \<and> type \<le> PT_HIOS"

definition ShouldSkip :: "bool \<Rightarrow> program_header \<Rightarrow> bool" where
  "ShouldSkip lazyBinding ph \<longleftrightarrow>
     (if ph_Type ph = PT_OS_PROCPARAM then False
      else if ph_Type ph = PT_GNU_EH_FRAME then False
      else if ph_Type ph = PT_GNU_RELRO \<and> lazyBinding then True
      else if ph_Type ph = PT_GNU_STACK \<or> ph_Type ph = PT_GNU_RELRO then False
      else if isSceSpecificSegment (ph_Type ph) then True
      else if ph_Type ph = PT_DYNAMIC \<or> ph_Type ph = PT_PHDR \<or> ph_Type ph = PT_INTERP then True
      else if ph_Type ph = PT_NOTE \<and> ph_MappedAddress ph = 0 \<and> ph_FileSize ph > 0 then True
      else False)"

subsection \<open>RELRO coverage\<close>

text \<open>\<open>address & ~pageMask\<close> and \<open>(address + pageMask) & ~pageMask\<close>.\<close>

abbreviation (input) pageMask :: u64 where "pageMask \<equiv> kDefaultLoadAlignment - 1"

definition page_floor :: "u64 \<Rightarrow> u64" where
  "page_floor a = a AND NOT pageMask"

definition page_ceil :: "u64 \<Rightarrow> u64" where
  "page_ceil a = (a + pageMask) AND NOT pageMask"

text \<open>The body of the loop that collects the page ranges of the writable loads.\<close>

definition writable_range :: "program_header \<Rightarrow> (u64 \<times> u64) list" where
  "writable_range header =
     (if ph_Type header \<noteq> PT_LOAD \<or> ph_Flags header AND PF_W = 0 then []
      else let len = max (ph_FileSize header) (ph_MemorySize header) in
        if len > u64_max - ph_MappedAddress header then []
        else let start = page_floor (ph_MappedAddress header);
                 endBytes = ph_MappedAddress header + len in
          if endBytes > u64_max - pageMask then []
          else if start < page_ceil endBytes then [(start, page_ceil endBytes)] else [])"

fun covered_scan :: "(u64 \<times> u64) list \<Rightarrow> u64 \<Rightarrow> u64 \<Rightarrow> bool" where
  "covered_scan [] coveredUntil relroEnd = False"
| "covered_scan ((start, stop) # ranges) coveredUntil relroEnd =
     (if start > coveredUntil then False
      else let c = (if stop > coveredUntil then stop else coveredUntil) in
        if c \<ge> relroEnd then True else covered_scan ranges c relroEnd)"

definition hasWritableLoadCoverage :: "program_header list \<Rightarrow> program_header \<Rightarrow> bool" where
  "hasWritableLoadCoverage headers relro \<longleftrightarrow>
     (if ph_MemorySize relro = 0 then True
      else if ph_MemorySize relro > u64_max - ph_MappedAddress relro then False
      else let relroStart = page_floor (ph_MappedAddress relro);
               relroEndBytes = ph_MappedAddress relro + ph_MemorySize relro in
        if relroEndBytes > u64_max - pageMask then False
        else let relroEnd = page_ceil relroEndBytes in
          if relroStart = relroEnd then True
          else covered_scan (sort (concat (map writable_range headers))) relroStart relroEnd)"

subsection \<open>Header constructors\<close>

definition writeProgramHeader :: "bytes \<Rightarrow> nat \<Rightarrow> program_header \<Rightarrow> bytes res" where
  "writeProgramHeader buf offset ph =
     bind_res (ByteWriter_WriteU32 buf (offset + kPhdrTypeOffset) (ph_Type ph)) (\<lambda>buf.
     bind_res (ByteWriter_WriteU32 buf (offset + kPhdrFlagsOffset) (ph_Flags ph)) (\<lambda>buf.
     bind_res (ByteWriter_WriteU64 buf (offset + kPhdrOffsetOffset) (ph_Offset ph)) (\<lambda>buf.
     bind_res (ByteWriter_WriteU64 buf (offset + kPhdrVaddrOffset) (ph_MappedAddress ph)) (\<lambda>buf.
     bind_res (ByteWriter_WriteU64 buf (offset + kPhdrPaddrOffset) (ph_PhysicalAddress ph)) (\<lambda>buf.
     bind_res (ByteWriter_WriteU64 buf (offset + kPhdrFileSizeOffset) (ph_FileSize ph)) (\<lambda>buf.
     bind_res (ByteWriter_WriteU64 buf (offset + kPhdrMemSizeOffset) (ph_MemorySize ph)) (\<lambda>buf.
     ByteWriter_WriteU64 buf (offset + kPhdrAlignOffset) (ph_Alignment ph))))))))"

definition makeLoadHeader :: "u64 \<Rightarrow> u64 \<Rightarrow> u64 \<Rightarrow> u64 \<Rightarrow> u64 \<Rightarrow> u32 \<Rightarrow> program_header" where
  "makeLoadHeader offset vaddr len align memorySize flags =
     \<lparr>ph_Type = PT_LOAD, ph_Flags = flags, ph_Offset = offset, ph_MappedAddress = vaddr,
      ph_PhysicalAddress = vaddr, ph_FileSize = len,
      ph_MemorySize = (if memorySize < len then len else memorySize), ph_Alignment = align\<rparr>"

definition makePhdrHeader :: "u64 \<Rightarrow> u64 \<Rightarrow> u64 \<Rightarrow> program_header" where
  "makePhdrHeader offset vaddr len =
     \<lparr>ph_Type = PT_PHDR, ph_Flags = PF_R, ph_Offset = offset, ph_MappedAddress = vaddr,
      ph_PhysicalAddress = vaddr, ph_FileSize = len, ph_MemorySize = len,
      ph_Alignment = kPhdrHeaderAlignment\<rparr>"

definition makeDynamicHeader :: "u64 \<Rightarrow> u64 \<Rightarrow> u64 \<Rightarrow> program_header" where
  "makeDynamicHeader offset vaddr len =
     \<lparr>ph_Type = PT_DYNAMIC, ph_Flags = PF_R OR PF_W, ph_Offset = offset, ph_MappedAddress = vaddr,
      ph_PhysicalAddress = vaddr, ph_FileSize = len, ph_MemorySize = len,
      ph_Alignment = kDynamicHeaderAlignment\<rparr>"

definition makeInterpHeader :: "u64 \<Rightarrow> u64 \<Rightarrow> u64 \<Rightarrow> program_header" where
  "makeInterpHeader offset vaddr len =
     \<lparr>ph_Type = PT_INTERP, ph_Flags = PF_R, ph_Offset = offset, ph_MappedAddress = vaddr,
      ph_PhysicalAddress = vaddr, ph_FileSize = len, ph_MemorySize = len,
      ph_Alignment = kInterpHeaderAlignment\<rparr>"

definition fixLoadFlags :: "u32 \<Rightarrow> u32" where
  "fixLoadFlags originalFlags =
     (if originalFlags = 0 then PF_R OR PF_W OR PF_X else originalFlags OR PF_R)"

subsection \<open>Which headers are kept\<close>

definition last_stack :: "program_header list \<Rightarrow> nat option" where
  "last_stack headers =
     find (\<lambda>i. ph_Type (headers ! i) = PT_GNU_STACK) (rev [0..<length headers])"

definition keptHeaders :: "(program_header \<Rightarrow> bool) \<Rightarrow> program_header list \<Rightarrow> program_header list" where
  "keptHeaders skip headers =
     map ((!) headers) (filter (\<lambda>i. let ph = headers ! i in
         \<not> skip ph
         \<and> \<not> (ph_Type ph = PT_GNU_RELRO \<and> \<not> hasWritableLoadCoverage headers ph)
         \<and> \<not> (ph_Type ph = PT_GNU_STACK \<and> last_stack headers \<noteq> Some i)) [0..<length headers])"

definition defaultStackHeader :: program_header where
  "defaultStackHeader = \<lparr>ph_Type = PT_GNU_STACK, ph_Flags = PF_R OR PF_W, ph_Offset = 0,
     ph_MappedAddress = 0, ph_PhysicalAddress = 0, ph_FileSize = 0, ph_MemorySize = 0,
     ph_Alignment = 16\<rparr>"

abbreviation (input) kExtendedProgramHeaderCount :: nat where "kExtendedProgramHeaderCount \<equiv> 0xffff"

definition outputHeaders ::
    "(program_header \<Rightarrow> bool) \<Rightarrow> program_header list \<Rightarrow> program_header list res" where
  "outputHeaders skip headers =
     (let kept = keptHeaders skip headers in
      if length (filter (\<lambda>ph. ph_Type ph = PT_GNU_RELRO) kept) > 1
      then Inl (RelinkerException ''Multiple RELRO ranges are not supported on Linux output: the loader only protects one PT_GNU_RELRO segment'' 0)
      else let kept = (if \<not> list_ex (\<lambda>ph. ph_Type ph = PT_GNU_STACK) kept
                       then kept @ [defaultStackHeader] else kept) in
        if length kept \<ge> kExtendedProgramHeaderCount - unat kSyntheticProgramHeaderCount
        then Inl (RelinkerException ''Extended program header counts are not supported'' 0)
        else Inr kept)"

definition RequiredProgramHeaderCount ::
    "(program_header \<Rightarrow> bool) \<Rightarrow> program_header list \<Rightarrow> nat res" where
  "RequiredProgramHeaderCount skip headers =
     bind_res (outputHeaders skip headers) (\<lambda>kept.
     Inr (length kept + unat kSyntheticProgramHeaderCount))"

subsection \<open>The address of the extra block\<close>

text \<open>The body of the loop over the headers; the state is \<open>(foundLoad, highestVaddrEnd)\<close>.\<close>

definition page_end_step ::
    "(program_header \<Rightarrow> bool) \<Rightarrow> program_header \<Rightarrow> bool \<times> u64 \<Rightarrow> (bool \<times> u64) res" where
  "page_end_step skip ph = (\<lambda>(foundLoad, highest).
     if skip ph then Inr (foundLoad, highest)
     else if ph_Type ph \<noteq> PT_LOAD then Inr (foundLoad, highest)
     else if ph_FileSize ph > ph_MemorySize ph
     then Inl (RelinkerException ''PT_LOAD file size exceeds memory size'' (ph_Offset ph))
     else if ph_MemorySize ph > u64_max - ph_MappedAddress ph
     then Inl (RelinkerException ''Load segment virtual range overflowed'' 0)
     else let vaddrEnd = ph_MappedAddress ph + ph_MemorySize ph in
       Inr (True, if vaddrEnd > highest then vaddrEnd else highest))"

definition GuestLoadPageEnd :: "(program_header \<Rightarrow> bool) \<Rightarrow> program_header list \<Rightarrow> u64 res" where
  "GuestLoadPageEnd skip headers =
     bind_res (fold_res (page_end_step skip) headers (False, 0)) (\<lambda>(foundLoad, highest).
     if \<not> foundLoad
     then Inl (RelinkerException ''No kept PT_LOAD segment to anchor the extra block against'' 0)
     else if highest > u64_max - (kDefaultLoadAlignment - 1)
     then Inl (RelinkerException ''Extra block vaddr computation overflowed'' 0)
     else Inr ((highest + kDefaultLoadAlignment - 1) AND NOT (kDefaultLoadAlignment - 1)))"

definition ComputeExtraBlockVaddr ::
    "(program_header \<Rightarrow> bool) \<Rightarrow> program_header list \<Rightarrow> u64 \<Rightarrow> u64 res" where
  "ComputeExtraBlockVaddr skip headers extraBlockOffset =
     bind_res (GuestLoadPageEnd skip headers) (\<lambda>pageFloor.
     let offsetRemainder = extraBlockOffset AND (kDefaultLoadAlignment - 1) in
     if pageFloor > u64_max - offsetRemainder
     then Inl (RelinkerException ''Extra block vaddr computation overflowed'' 0)
     else Inr (pageFloor + offsetRemainder))"

subsection \<open>Sorting the loads\<close>

fun put_loads :: "program_header list \<Rightarrow> program_header list \<Rightarrow> program_header list" where
  "put_loads [] loads = []"
| "put_loads (ph # phs) loads =
     (if ph_Type ph = PT_LOAD then hd loads # put_loads phs (tl loads) else ph # put_loads phs loads)"

text \<open>\<open>std::stable_sort\<close> by address is \<open>sort_key\<close>; the second loop puts the loads back.\<close>

definition sortLoadHeaders :: "program_header list \<Rightarrow> program_header list" where
  "sortLoadHeaders headers =
     put_loads headers (sort_key ph_MappedAddress (filter (\<lambda>ph. ph_Type ph = PT_LOAD) headers))"

subsection \<open>Writing the layout\<close>

record layout_request =
  lr_PhOff :: u64
  lr_PhEntSize :: u16
  lr_PhNum :: u16
  lr_OriginalHeaders :: "program_header list"
  lr_ExtraBlockOffset :: u64
  lr_ExtraBlockVaddr :: u64
  lr_ExtraBlockSize :: u64
  lr_DynamicSegmentOffset :: u64
  lr_DynamicSegmentSize :: u64
  lr_InterpOffset :: u64
  lr_InterpSize :: u64
  lr_MovedLoadAlignment :: u64

definition checkedEnd :: "u64 \<Rightarrow> u64 \<Rightarrow> u64 res" where
  "checkedEnd start len =
     (if len > u64_max - start
      then Inl (RelinkerException ''Program header layout range overflowed'' 0)
      else Inr (start + len))"

text \<open>The slot checks at the head of \<open>WriteLayout\<close>; the result is the sorted list to write.\<close>

definition layout_kept :: "(program_header \<Rightarrow> bool) \<Rightarrow> layout_request \<Rightarrow> program_header list res" where
  "layout_kept skip request =
     bind_res (outputHeaders skip (lr_OriginalHeaders request)) (\<lambda>kept.
     let frameCount = length (filter (\<lambda>ph. ph_Type ph = PT_GNU_EH_FRAME) kept);
         keepFrames = (length kept + unat kSyntheticProgramHeaderCount \<le> unat (lr_PhNum request))
     in if \<not> keepFrames \<and> frameCount > 0
        then Inl (RelinkerException ''No free program header slot for PT_GNU_EH_FRAME'' 0)
        else let kept = sortLoadHeaders kept;
                 neededPh = length kept + unat kSyntheticProgramHeaderCount
             in if neededPh > unat (lr_PhNum request)
                then Inl (RelinkerException (''Not enough program header slots: need ''
                       @ to_string neededPh @ '', available '' @ to_string (unat (lr_PhNum request))) 0)
                else Inr kept)"

definition power_of_two_or_zero :: "u64 \<Rightarrow> bool" where
  "power_of_two_or_zero a \<longleftrightarrow> a AND (a - 1) = 0"

definition header_block_align :: "(program_header \<Rightarrow> bool) \<Rightarrow> layout_request \<Rightarrow> u64" where
  "header_block_align skip request =
     fold (\<lambda>ph align. if ph_Type ph = PT_LOAD \<and> \<not> skip ph \<and> ph_Alignment ph > align
                        \<and> power_of_two_or_zero (ph_Alignment ph)
                      then ph_Alignment ph else align)
       (lr_OriginalHeaders request)
       (if lr_MovedLoadAlignment request > kDefaultLoadAlignment
          \<and> power_of_two_or_zero (lr_MovedLoadAlignment request)
        then lr_MovedLoadAlignment request else kDefaultLoadAlignment)"

text \<open>The checks of the table's place; the result is \<open>(tableInExtraBlock, headerBlockSize)\<close>.\<close>

definition check_table :: "bytes \<Rightarrow> layout_request \<Rightarrow> nat \<Rightarrow> (bool \<times> u64) res" where
  "check_table buf request neededPh =
     (if lr_PhEntSize request < 56
      then Inl (RelinkerException ''Program header entry is too small'' 0)
      else bind_res (checkedEnd (lr_PhOff request) (of_nat neededPh * ucast (lr_PhEntSize request))) (\<lambda>tableEnd.
        if unat tableEnd > length buf
        then Inl (RelinkerException ''Program header table exceeds the output file'' 0)
        else let tableInExtraBlock = (lr_PhOff request \<ge> lr_ExtraBlockOffset request) in
          if tableInExtraBlock \<and> tableEnd - lr_ExtraBlockOffset request > lr_ExtraBlockSize request
          then Inl (RelinkerException ''Program header table does not fit within the extra block'' 0)
          else if \<not> tableInExtraBlock \<and> tableEnd > lr_ExtraBlockOffset request
          then Inl (RelinkerException ''Program header table overlaps the extra block'' 0)
          else if unat (lr_ExtraBlockOffset request) > length buf
            \<or> unat (lr_ExtraBlockSize request) > length buf - unat (lr_ExtraBlockOffset request)
          then Inl (RelinkerException ''Extra block exceeds the output file'' 0)
          else Inr (tableInExtraBlock, if tableInExtraBlock then kElfHeaderSize else tableEnd)))"

definition check_in_extra_block :: "string \<Rightarrow> layout_request \<Rightarrow> u64 \<Rightarrow> u64 \<Rightarrow> unit res" where
  "check_in_extra_block what request offset len =
     (if offset < lr_ExtraBlockOffset request
      then Inl (RelinkerException (what @ '' offset lies before the extra block'') 0)
      else if offset - lr_ExtraBlockOffset request > lr_ExtraBlockSize request
        \<or> len > lr_ExtraBlockSize request - (offset - lr_ExtraBlockOffset request)
      then Inl (RelinkerException
        ((if what = ''Interp'' then ''Interp data'' else what)
          @ '' does not fit within the extra block'') 0)
      else Inr ())"


text \<open>
  The headers in the order they are written: the program header table and the interpreter, the
  kept headers, the extra block, the block that maps the file header, and the dynamic segment.
\<close>

definition keptLayoutHeader :: "program_header \<Rightarrow> program_header" where
  "keptLayoutHeader ph =
     (let ph = (if ph_Type ph = PT_LOAD then ph\<lparr>ph_Flags := fixLoadFlags (ph_Flags ph)\<rparr> else ph)
      in if ph_Type ph = PT_TLS then ph\<lparr>ph_Alignment := max (ph_Alignment ph) 1\<rparr> else ph)"

record layout_plan =
  lp_Kept :: "program_header list"
  lp_TableInExtraBlock :: bool
  lp_HeaderBlockSize :: u64
  lp_HeaderBlockAlign :: u64
  lp_ExtraBlockVaddr :: u64
  lp_HeaderBlockVaddr :: u64
  lp_ExtraBlockPageEnd :: u64

definition layout_headers :: "layout_request \<Rightarrow> layout_plan \<Rightarrow> program_header list" where
  "layout_headers request plan =
     (let extraVaddr = lp_ExtraBlockVaddr plan;
          neededPh = length (lp_Kept plan) + unat kSyntheticProgramHeaderCount;
          phdrVaddr = (if lp_TableInExtraBlock plan
            then extraVaddr + (lr_PhOff request - lr_ExtraBlockOffset request)
            else lp_HeaderBlockVaddr plan + lr_PhOff request);
          dynamicVaddr = extraVaddr + (lr_DynamicSegmentOffset request - lr_ExtraBlockOffset request);
          interpVaddr = extraVaddr + (lr_InterpOffset request - lr_ExtraBlockOffset request)
      in [makePhdrHeader (lr_PhOff request) phdrVaddr (of_nat neededPh * ucast (lr_PhEntSize request)),
          makeInterpHeader (lr_InterpOffset request) interpVaddr (lr_InterpSize request)]
         @ map keptLayoutHeader (lp_Kept plan)
         @ [makeLoadHeader (lr_ExtraBlockOffset request) extraVaddr (lr_ExtraBlockSize request)
              kDefaultLoadAlignment (lp_ExtraBlockPageEnd plan - extraVaddr) (PF_R OR PF_W OR PF_X),
            makeLoadHeader 0 (lp_HeaderBlockVaddr plan) (lp_HeaderBlockSize plan)
              (lp_HeaderBlockAlign plan) (lp_HeaderBlockSize plan) PF_R,
            makeDynamicHeader (lr_DynamicSegmentOffset request) dynamicVaddr
              (lr_DynamicSegmentSize request)])"

text \<open>Everything \<open>WriteLayout\<close> computes and checks before it writes.\<close>

definition plan_layout ::
    "(program_header \<Rightarrow> bool) \<Rightarrow> bytes \<Rightarrow> layout_request \<Rightarrow> layout_plan res" where
  "plan_layout skip buf request =
     bind_res (layout_kept skip request) (\<lambda>kept.
     bind_res (check_table buf request (length kept + unat kSyntheticProgramHeaderCount))
       (\<lambda>(tableInExtraBlock, headerBlockSize).
     let align = header_block_align skip request;
         extraOffset = lr_ExtraBlockOffset request; extraSize = lr_ExtraBlockSize request in
     bind_res (ComputeExtraBlockVaddr skip (lr_OriginalHeaders request) extraOffset) (\<lambda>extraVaddr.
     if lr_ExtraBlockVaddr request \<noteq> extraVaddr
     then Inl (RelinkerException ''Extra block vaddr does not match its file offset'' 0)
     else bind_res (checkedEnd extraVaddr extraSize) (\<lambda>extraEnd.
     bind_res (checkedEnd extraEnd (align - 1)) (\<lambda>alignedEnd.
     let headerBlockVaddr = alignedEnd AND NOT (align - 1) in
     bind_res (checkedEnd headerBlockVaddr headerBlockSize) (\<lambda>_.
     bind_res (check_in_extra_block ''Dynamic segment'' request
       (lr_DynamicSegmentOffset request) (lr_DynamicSegmentSize request)) (\<lambda>_.
     bind_res (check_in_extra_block ''Interp'' request
       (lr_InterpOffset request) (lr_InterpSize request)) (\<lambda>_.
     bind_res (checkedEnd extraEnd (kDefaultLoadAlignment - 1)) (\<lambda>pageEnd.
     Inr \<lparr>lp_Kept = kept, lp_TableInExtraBlock = tableInExtraBlock,
          lp_HeaderBlockSize = headerBlockSize, lp_HeaderBlockAlign = align,
          lp_ExtraBlockVaddr = extraVaddr, lp_HeaderBlockVaddr = headerBlockVaddr,
          lp_ExtraBlockPageEnd = pageEnd AND NOT (kDefaultLoadAlignment - 1)\<rparr>)))))))))"

definition write_headers :: "bytes \<Rightarrow> nat \<Rightarrow> nat \<Rightarrow> program_header list \<Rightarrow> bytes res" where
  "write_headers buf phOff stride headers =
     fold_res (\<lambda>index buf. writeProgramHeader buf (phOff + index * stride) (headers ! index))
       [0..<length headers] buf"

definition WriteLayout ::
    "(program_header \<Rightarrow> bool) \<Rightarrow> bytes \<Rightarrow> layout_request \<Rightarrow> (u16 \<times> bytes) res" where
  "WriteLayout skip buf request =
     bind_res (plan_layout skip buf request) (\<lambda>plan.
     let headers = layout_headers request plan in
     bind_res (write_headers buf (unat (lr_PhOff request)) (unat (lr_PhEntSize request)) headers)
       (\<lambda>buf. Inr (of_nat (length headers), buf)))"

subsection \<open>Coverage is what it says\<close>

lemma all_from_later:
  fixes d :: "'a::linorder"
  assumes "\<And>x. c \<le> x \<Longrightarrow> L x \<longleftrightarrow> x < d \<or> R x" and "c \<le> d"
  shows "(\<forall>x. c \<le> x \<and> x < l \<longrightarrow> L x) \<longleftrightarrow> (\<forall>x. d \<le> x \<and> x < l \<longrightarrow> R x)"
proof (intro iffI allI impI)
  fix x assume "\<forall>x. c \<le> x \<and> x < l \<longrightarrow> L x" and "d \<le> x \<and> x < l"
  then show "R x" using assms by (meson leD order_trans)
next
  fix x assume "\<forall>x. d \<le> x \<and> x < l \<longrightarrow> R x" and "c \<le> x \<and> x < l"
  then show "L x" using assms(1) [of x] not_less [of x d] by blast
qed

lemma covered_scan_iff:
  assumes "sorted_wrt (\<lambda>a b. fst a \<le> fst b) ranges" and "c < limit"
  shows "covered_scan ranges c limit \<longleftrightarrow>
    (\<forall>x. c \<le> x \<and> x < limit \<longrightarrow> (\<exists>(s, e) \<in> set ranges. s \<le> x \<and> x < e))"
  using assms
proof (induction ranges arbitrary: c)
  case Nil
  then show ?case by auto
next
  case (Cons r ranges)
  obtain s e where r: "r = (s, e)" by (cases r)
  let ?c = "if e > c then e else c"
  show ?case
  proof (cases "s > c")
    case True
    then have "\<not> (\<exists>(s', e') \<in> set (r # ranges). s' \<le> c \<and> c < e')"
      using Cons.prems(1) r by fastforce
    then show ?thesis using True r Cons.prems(2) by (simp only: covered_scan.simps if_True) blast
  next
    case False
    show ?thesis
    proof (cases "?c \<ge> limit")
      case True
      then have "covered_scan (r # ranges) c limit" and e: "limit \<le> e"
        using False r Cons.prems(2) by (auto simp: Let_def split: if_splits)
      moreover have "\<exists>(s, e) \<in> set (r # ranges). s \<le> x \<and> x < e" if "c \<le> x" "x < limit" for x
        using that e False r by (auto simp: not_less intro: order_trans less_le_trans)
      ultimately show ?thesis by blast
    next
      case c: False
      have IH: "covered_scan ranges ?c limit \<longleftrightarrow>
          (\<forall>x. ?c \<le> x \<and> x < limit \<longrightarrow> (\<exists>(s, e) \<in> set ranges. s \<le> x \<and> x < e))"
        using c Cons.prems(1) by (intro Cons.IH) auto
      have scan: "covered_scan (r # ranges) c limit \<longleftrightarrow> covered_scan ranges ?c limit"
        using False c r by (simp add: Let_def)
      have "(\<exists>(s, e) \<in> set (r # ranges). s \<le> x \<and> x < e)
          \<longleftrightarrow> x < ?c \<or> (\<exists>(s, e) \<in> set ranges. s \<le> x \<and> x < e)" if "c \<le> x" for x
        using that False r by (auto simp: not_less split: if_splits intro: order_trans)
      moreover have "c \<le> ?c" by (simp add: less_imp_le)
      ultimately show ?thesis unfolding scan IH by (rule all_from_later [symmetric])
    qed
  qed
qed


text \<open>The 4 KiB page rounding of addresses.\<close>

lemma pageMask_mask: "(kDefaultLoadAlignment - 1 :: u64) = mask 12" "(0xFFF :: u64) = mask 12"
  by (simp_all add: mask_eq_exp_minus_1)

lemma page_floor_le: "page_floor a \<le> a"
  unfolding page_floor_def pageMask_mask
  by (simp add: word_le_nat_alt and_not_mask_unat div_times_less_eq_dividend)

lemma page_ceil_bounds:
  assumes "a \<le> u64_max - pageMask"
  shows "a \<le> page_ceil a" and "unat (page_ceil a) < unat a + 0x1000" and "0x1000 dvd unat (page_ceil a)"
  using round_up_unat [of a 12] assms
  unfolding page_ceil_def pageMask_mask word_le_nat_alt by simp_all

text \<open>\<open>x\<close> is on a page of a writable \<open>PT_LOAD\<close> whose rounded range is representable.\<close>

definition on_writable_page :: "program_header \<Rightarrow> u64 \<Rightarrow> bool" where
  "on_writable_page h x \<longleftrightarrow> ph_Type h = PT_LOAD \<and> ph_Flags h AND PF_W \<noteq> 0
     \<and> (let len = max (ph_FileSize h) (ph_MemorySize h) in
        len \<le> u64_max - ph_MappedAddress h \<and> ph_MappedAddress h + len \<le> u64_max - pageMask
        \<and> page_floor (ph_MappedAddress h) \<le> x \<and> x < page_ceil (ph_MappedAddress h + len))"

lemma writable_range_iff:
  "(\<exists>(s, e) \<in> set (writable_range h). s \<le> x \<and> x < e) \<longleftrightarrow> on_writable_page h x"
  unfolding writable_range_def on_writable_page_def Let_def
  by (auto simp: not_less not_le less_max_iff_disj)

lemma sorted_pairs_fst: "sorted ps \<Longrightarrow> sorted_wrt (\<lambda>a b. fst a \<le> fst b) (ps :: ('a::linorder \<times> 'b::linorder) list)"
  by (rule sorted_wrt_mono_rel) (auto simp: less_eq_prod_def)

lemma page_range_nonempty:
  assumes "len \<noteq> 0" and "len \<le> u64_max - a" and "a + len \<le> u64_max - pageMask"
  shows "page_floor a < page_ceil (a + len)"
proof -
  have "unat (len + a) = unat len + unat a" using assms(2) by (rule unat_add_no_wrap)
  moreover have "0 < unat len" using assms(1) unat_gt_0 by blast
  ultimately have "a < len + a" unfolding word_less_nat_alt by linarith
  then have "a < a + len" by (simp only: add.commute)
  with page_floor_le have "page_floor a < a + len" by (rule le_less_trans)
  then show ?thesis using page_ceil_bounds(1) [OF assms(3)] by (rule less_le_trans)
qed

lemma hasWritableLoadCoverage_iff:
  "hasWritableLoadCoverage headers relro \<longleftrightarrow> ph_MemorySize relro = 0 \<or>
     (let v = ph_MappedAddress relro; m = ph_MemorySize relro in
      m \<le> u64_max - v \<and> v + m \<le> u64_max - pageMask \<and>
      (\<forall>x. page_floor v \<le> x \<and> x < page_ceil (v + m) \<longrightarrow> (\<exists>h \<in> set headers. on_writable_page h x)))"
proof -
  let ?v = "ph_MappedAddress relro" and ?m = "ph_MemorySize relro"
  let ?rs = "sort (concat (map writable_range headers))"
  have s: "sorted_wrt (\<lambda>a b. fst a \<le> fst b) ?rs" by (rule sorted_pairs_fst) simp
  have e: "(\<exists>(s, e) \<in> set ?rs. s \<le> x \<and> x < e) \<longleftrightarrow> (\<exists>h \<in> set headers. on_writable_page h x)" for x
    unfolding writable_range_iff [symmetric] by auto
  show ?thesis
  proof (cases "?m \<noteq> 0 \<and> ?m \<le> u64_max - ?v \<and> ?v + ?m \<le> u64_max - pageMask")
    case True
    then have ne: "page_floor ?v < page_ceil (?v + ?m)" using page_range_nonempty by blast
    have "hasWritableLoadCoverage headers relro \<longleftrightarrow> covered_scan ?rs (page_floor ?v) (page_ceil (?v + ?m))"
      using True ne unfolding hasWritableLoadCoverage_def Let_def
      by (simp only: not_less [symmetric] if_False less_irrefl) (metis less_irrefl)
    then show ?thesis using True unfolding covered_scan_iff [OF s ne] e Let_def by blast
  next
    case False
    then show ?thesis unfolding hasWritableLoadCoverage_def Let_def not_less [symmetric]
      by (metis (no_types, lifting))
  qed
qed


subsection \<open>What the builder relies on in the filter\<close>

abbreviation loads :: "program_header list \<Rightarrow> program_header list" where
  "loads \<equiv> filter (\<lambda>ph. ph_Type ph = PT_LOAD)"

lemma length_filter_le_1:
  assumes "distinct xs" and "\<And>x. x \<in> set xs \<Longrightarrow> P x \<Longrightarrow> x = a"
  shows "length (filter P xs) \<le> 1"
proof -
  have "set (filter P xs) \<subseteq> {a}" using assms(2) by auto
  then have "card (set (filter P xs)) \<le> card {a}" by (rule card_mono [rotated]) simp
  then show ?thesis using assms(1) distinct_card [of "filter P xs"] by simp
qed

lemma last_stack_Some: "last_stack headers = Some i \<Longrightarrow> i < length headers \<and> ph_Type (headers ! i) = PT_GNU_STACK"
  by (auto simp: last_stack_def find_Some_iff rev_nth)

lemma last_stack_None: "last_stack headers = None \<longleftrightarrow> (\<forall>ph \<in> set headers. ph_Type ph \<noteq> PT_GNU_STACK)"
  by (simp add: last_stack_def find_None_iff all_set_conv_all_nth)

lemma length_one: "length xs \<le> 1 \<Longrightarrow> x \<in> set xs \<Longrightarrow> length xs = 1"
  by (cases xs) auto

locale segment_filter =
  fixes skip :: "program_header \<Rightarrow> bool"
  assumes keeps_load: "ph_Type ph = PT_LOAD \<Longrightarrow> \<not> skip ph"
    and keeps_stack: "ph_Type ph = PT_GNU_STACK \<Longrightarrow> \<not> skip ph"
    and drops_rebuilt: "ph_Type ph = PT_PHDR \<or> ph_Type ph = PT_INTERP \<or> ph_Type ph = PT_DYNAMIC \<Longrightarrow> skip ph"
begin

lemma kept_subset: "ph \<in> set (keptHeaders skip hs) \<Longrightarrow> ph \<in> set hs \<and> \<not> skip ph"
  by (auto simp: keptHeaders_def Let_def)

lemma kept_loads: "loads (keptHeaders skip hs) = loads hs"
proof -
  have "loads (keptHeaders skip hs) = map ((!) hs) (filter (\<lambda>i. ph_Type (hs ! i) = PT_LOAD) [0..<length hs])"
    unfolding keptHeaders_def filter_map filter_filter comp_def
    by (rule arg_cong [where f = "map ((!) hs)"], rule filter_cong) (auto simp: Let_def keeps_load)
  also have "\<dots> = loads (map ((!) hs) [0..<length hs])" by (simp add: filter_map comp_def)
  finally show ?thesis by (simp add: map_nth)
qed

lemma kept_stack:
  "length (filter (\<lambda>ph. ph_Type ph = PT_GNU_STACK) (keptHeaders skip hs))
    = (if \<exists>ph \<in> set hs. ph_Type ph = PT_GNU_STACK then 1 else 0)"
proof (cases "last_stack hs")
  case None
  then show ?thesis using last_stack_None kept_subset by (auto simp: filter_empty_conv)
next
  case (Some j)
  then have j: "j < length hs" "ph_Type (hs ! j) = PT_GNU_STACK" using last_stack_Some by auto
  let ?is = "filter (\<lambda>i. ph_Type (hs ! i) = PT_GNU_STACK) (filter (\<lambda>i. let ph = hs ! i in \<not> skip ph
         \<and> \<not> (ph_Type ph = PT_GNU_RELRO \<and> \<not> hasWritableLoadCoverage hs ph)
         \<and> \<not> (ph_Type ph = PT_GNU_STACK \<and> last_stack hs \<noteq> Some i)) [0..<length hs])"
  have "length ?is \<le> 1"
    by (rule length_filter_le_1 [where a = j]) (auto simp: Let_def Some)
  moreover have "j \<in> set ?is" using j by (simp add: Let_def Some keeps_stack)
  ultimately have "length ?is = 1" by (rule length_one)
  then show ?thesis using j by (auto simp: keptHeaders_def filter_map comp_def)
qed

lemma output_loads: "outputHeaders skip hs = Inr kept \<Longrightarrow> loads kept = loads hs"
  using kept_loads [of hs] by (auto simp: outputHeaders_def Let_def defaultStackHeader_def split: if_splits)

lemma output_stack:
  assumes "outputHeaders skip hs = Inr kept"
  shows "length (filter (\<lambda>ph. ph_Type ph = PT_GNU_STACK) kept) = 1"
proof (cases "\<exists>ph \<in> set hs. ph_Type ph = PT_GNU_STACK")
  case True
  with kept_stack [of hs] have n: "length (filter (\<lambda>ph. ph_Type ph = PT_GNU_STACK) (keptHeaders skip hs)) = 1"
    by simp
  then have "list_ex (\<lambda>ph. ph_Type ph = PT_GNU_STACK) (keptHeaders skip hs)"
    by (metis (mono_tags, lifting) filter_False list.size(3) list_ex_iff zero_neq_one)
  with assms n show ?thesis by (simp add: outputHeaders_def Let_def split: if_splits)
next
  case False
  with kept_stack [of hs] have n: "filter (\<lambda>ph. ph_Type ph = PT_GNU_STACK) (keptHeaders skip hs) = []"
    by simp
  then have "\<not> list_ex (\<lambda>ph. ph_Type ph = PT_GNU_STACK) (keptHeaders skip hs)"
    by (simp add: filter_empty_conv list_ex_iff)
  with assms n show ?thesis
    by (auto simp: outputHeaders_def Let_def defaultStackHeader_def split: if_splits)
qed

lemma output_subset:
  "outputHeaders skip hs = Inr kept \<Longrightarrow> ph \<in> set kept \<Longrightarrow> ph = defaultStackHeader \<or> ph \<in> set hs \<and> \<not> skip ph"
  using kept_subset by (auto simp: outputHeaders_def Let_def split: if_splits)

end

interpretation elf_filter: segment_filter "ShouldSkip lazy" for lazy
  by unfold_locales (auto simp: ShouldSkip_def isSceSpecificSegment_def word_le_nat_alt)


subsection \<open>The page above every load\<close>

definition load_end :: "program_header \<Rightarrow> nat" where
  "load_end ph = unat (ph_MappedAddress ph) + unat (ph_MemorySize ph)"

lemma page_end_step_Inr:
  assumes "page_end_step skip ph (found, h) = Inr (found', h')"
  shows "unat h \<le> unat h'
    \<and> (\<not> skip ph \<longrightarrow> ph_Type ph = PT_LOAD \<longrightarrow> load_end ph \<le> unat h' \<and> ph_FileSize ph \<le> ph_MemorySize ph)"
proof (cases "skip ph \<or> ph_Type ph \<noteq> PT_LOAD")
  case True
  then show ?thesis using assms by (auto simp: page_end_step_def split: if_splits)
next
  case False
  with assms have f: "\<not> ph_FileSize ph > ph_MemorySize ph"
    and m: "ph_MemorySize ph \<le> u64_max - ph_MappedAddress ph"
    and h: "h' = (if ph_MappedAddress ph + ph_MemorySize ph > h then ph_MappedAddress ph + ph_MemorySize ph else h)"
    by (auto simp: page_end_step_def Let_def not_less split: if_splits)
  have "unat (ph_MappedAddress ph + ph_MemorySize ph) = load_end ph"
    using unat_add_no_wrap [OF m] by (simp add: load_end_def add.commute)
  then show ?thesis using f h by (auto simp: word_le_nat_alt word_less_nat_alt not_less split: if_splits)
qed

lemma page_end_loop_Inr:
  assumes "fold_res (page_end_step skip) hs s = Inr s'"
  shows "unat (snd s) \<le> unat (snd s') \<and> (\<forall>ph \<in> set hs. \<not> skip ph \<longrightarrow> ph_Type ph = PT_LOAD \<longrightarrow>
    load_end ph \<le> unat (snd s') \<and> ph_FileSize ph \<le> ph_MemorySize ph)"
  using assms
proof (induction hs arbitrary: s)
  case Nil
  then show ?case by simp
next
  case (Cons ph hs)
  then obtain t where t: "page_end_step skip ph s = Inr t" and r: "fold_res (page_end_step skip) hs t = Inr s'"
    by (auto simp: bind_res_Inr_iff)
  have "page_end_step skip ph (fst s, snd s) = Inr (fst t, snd t)" using t by simp
  from page_end_step_Inr [OF this] Cons.IH [OF r] show ?case by fastforce
qed

lemma GuestLoadPageEnd_Inr:
  assumes "GuestLoadPageEnd skip hs = Inr e"
  shows "0x1000 dvd unat e" and "\<forall>ph \<in> set hs. \<not> skip ph \<longrightarrow> ph_Type ph = PT_LOAD \<longrightarrow>
    load_end ph \<le> unat e \<and> ph_FileSize ph \<le> ph_MemorySize ph"
proof -
  from assms obtain h where f: "fold_res (page_end_step skip) hs (False, 0) = Inr (True, h)"
    and h: "h \<le> u64_max - pageMask" and e: "e = page_ceil h"
    by (auto simp: GuestLoadPageEnd_def bind_res_Inr_iff page_ceil_def not_less add.commute split: if_splits)
  note b = page_ceil_bounds [OF h, folded e, unfolded word_le_nat_alt]
  show "0x1000 dvd unat e" by (rule b(3))
  show "\<forall>ph \<in> set hs. \<not> skip ph \<longrightarrow> ph_Type ph = PT_LOAD \<longrightarrow>
    load_end ph \<le> unat e \<and> ph_FileSize ph \<le> ph_MemorySize ph"
    using page_end_loop_Inr [OF f] b(1) by (auto intro: order_trans)
qed

lemma ComputeExtraBlockVaddr_Inr:
  assumes "ComputeExtraBlockVaddr skip hs off = Inr v"
  shows "unat v mod 0x1000 = unat off mod 0x1000"
    and "\<forall>ph \<in> set hs. \<not> skip ph \<longrightarrow> ph_Type ph = PT_LOAD \<longrightarrow> load_end ph \<le> unat v"
proof -
  let ?r = "off AND (kDefaultLoadAlignment - 1)"
  from assms obtain e where e: "GuestLoadPageEnd skip hs = Inr e"
    and r: "e \<le> u64_max - ?r" and v: "v = e + ?r"
    by (auto simp: ComputeExtraBlockVaddr_def Let_def bind_res_Inr_iff not_less split: if_splits)
  have "unat ?r = unat off mod 2 ^ 12"
    unfolding pageMask_mask take_bit_eq_mask [symmetric] unsigned_take_bit_eq by (rule take_bit_eq_mod)
  then have u: "unat v = unat e + unat off mod 0x1000" using unat_add_no_wrap [OF r] v by simp
  show "unat v mod 0x1000 = unat off mod 0x1000"
    using GuestLoadPageEnd_Inr(1) [OF e] u by (simp add: mod_add_left_eq [symmetric])
  show "\<forall>ph \<in> set hs. \<not> skip ph \<longrightarrow> ph_Type ph = PT_LOAD \<longrightarrow> load_end ph \<le> unat v"
    using GuestLoadPageEnd_Inr(2) [OF e] u by auto
qed

subsection \<open>Sorting only moves loads\<close>

lemma put_loads_props:
  assumes "length ls = length (loads hs)" and "\<forall>l \<in> set ls. ph_Type l = PT_LOAD"
  shows "loads (put_loads hs ls) = ls
    \<and> filter (\<lambda>ph. ph_Type ph \<noteq> PT_LOAD) (put_loads hs ls) = filter (\<lambda>ph. ph_Type ph \<noteq> PT_LOAD) hs
    \<and> map ph_Type (put_loads hs ls) = map ph_Type hs"
  using assms
proof (induction hs arbitrary: ls)
  case Nil
  then show ?case by simp
next
  case (Cons h hs)
  show ?case
  proof (cases "ph_Type h = PT_LOAD")
    case True
    with Cons.prems obtain l ls' where ls: "ls = l # ls'" by (cases ls) auto
    with Cons.prems True have "length ls' = length (loads hs)" "\<forall>l \<in> set ls'. ph_Type l = PT_LOAD"
      and l: "ph_Type l = PT_LOAD" by auto
    from Cons.IH [OF this(1,2)] l True ls show ?thesis by simp
  next
    case False
    with Cons.prems have "length ls = length (loads hs)" by simp
    from Cons.IH [OF this Cons.prems(2)] False show ?thesis by simp
  qed
qed

lemma sortLoadHeaders_props:
  shows "loads (sortLoadHeaders hs) = sort_key ph_MappedAddress (loads hs)"
    and "filter (\<lambda>ph. ph_Type ph \<noteq> PT_LOAD) (sortLoadHeaders hs) = filter (\<lambda>ph. ph_Type ph \<noteq> PT_LOAD) hs"
    and "map ph_Type (sortLoadHeaders hs) = map ph_Type hs"
  unfolding sortLoadHeaders_def
  by (rule put_loads_props [THEN conjunct1] put_loads_props [THEN conjunct2, THEN conjunct1]
      put_loads_props [THEN conjunct2, THEN conjunct2]; simp only: length_sort set_sort set_filter mem_Collect_eq; blast)+

lemma mset_filter_split:
  "filter P xs = filter P ys \<or> mset (filter P xs) = mset (filter P ys) \<Longrightarrow>
   mset (filter (\<lambda>x. \<not> P x) xs) = mset (filter (\<lambda>x. \<not> P x) ys) \<Longrightarrow> mset xs = mset ys"
  using multiset_partition [of "mset xs" P] multiset_partition [of "mset ys" P] by (auto simp flip: mset_filter)

lemma mset_sortLoadHeaders: "mset (sortLoadHeaders hs) = mset hs"
  by (rule mset_filter_split [where P = "\<lambda>ph. ph_Type ph = PT_LOAD"]) (simp_all add: sortLoadHeaders_props)

lemma length_sortLoadHeaders: "length (sortLoadHeaders hs) = length hs"
  using mset_sortLoadHeaders mset_eq_length by blast

lemma set_sortLoadHeaders: "set (sortLoadHeaders hs) = set hs"
  using mset_sortLoadHeaders mset_eq_setD by blast


subsection \<open>The plan\<close>

lemma checkedEnd_Inr: "checkedEnd a n = Inr e \<longleftrightarrow> n \<le> u64_max - a \<and> e = a + n"
  by (auto simp: checkedEnd_def not_less)

lemma checkedEnd_unat: "checkedEnd a n = Inr e \<Longrightarrow> unat e = unat a + unat n"
  using unat_add_no_wrap [of n a] by (auto simp: checkedEnd_Inr add.commute)

definition page_power :: "u64 \<Rightarrow> bool" where
  "page_power a \<longleftrightarrow> (\<exists>n. 12 \<le> n \<and> n < 64 \<and> a = 2 ^ n)"

lemma page_power_default: "page_power kDefaultLoadAlignment"
  unfolding page_power_def by (rule exI [of _ 12]) simp

lemma page_power_larger:
  assumes "power_of_two_or_zero a" and "b < a" and "page_power b"
  shows "page_power a"
proof -
  have "a \<noteq> 0" using assms(2) by auto
  with assms(1) obtain n where n: "n < LENGTH(64)" "a = 2 ^ n"
    unfolding power_of_two_or_zero_def by (rule and_pred_power_of_two)
  obtain k where k: "12 \<le> k" "k < 64" "b = 2 ^ k" using assms(3) by (auto simp: page_power_def)
  have "unat b < unat a" using assms(2) by (simp only: word_less_nat_alt)
  then have "(2 :: nat) ^ k < 2 ^ n"
    using unat_power_of_two [of n, where ?'a = 64] unat_power_of_two [of k, where ?'a = 64] n k by simp
  then have "k < n" by (rule nat_power_less_imp_less [rotated]) simp
  then show ?thesis using n k unfolding page_power_def by (intro exI [of _ n]) auto
qed

lemma header_block_align_power: "page_power (header_block_align skip request)"
proof -
  let ?f = "\<lambda>ph align. if ph_Type ph = PT_LOAD \<and> \<not> skip ph \<and> ph_Alignment ph > align
                        \<and> power_of_two_or_zero (ph_Alignment ph)
                      then ph_Alignment ph else align"
  have "page_power (fold ?f hs a)" if "page_power a" for hs a
    using that by (induction hs arbitrary: a) (auto intro: page_power_larger)
  moreover have "page_power (if lr_MovedLoadAlignment request > kDefaultLoadAlignment
      \<and> power_of_two_or_zero (lr_MovedLoadAlignment request)
      then lr_MovedLoadAlignment request else kDefaultLoadAlignment)"
    using page_power_default page_power_larger [of "lr_MovedLoadAlignment request" kDefaultLoadAlignment] by auto
  ultimately show ?thesis unfolding header_block_align_def .
qed


text \<open>Rounding up to a power of two that a page divides stays above the end of the last page.\<close>

lemma align_above_page_end:
  assumes "page_power a" and "checkedEnd e (a - 1) = Inr t" and "checkedEnd e (kDefaultLoadAlignment - 1) = Inr p"
  shows "unat e \<le> unat (p AND NOT (kDefaultLoadAlignment - 1))"
    and "unat (p AND NOT (kDefaultLoadAlignment - 1)) \<le> unat (t AND NOT (a - 1))"
proof -
  from assms(1) obtain n where n: "12 \<le> n" "n < 64" "a = 2 ^ n" by (auto simp: page_power_def)
  have am: "a - 1 = mask n" unfolding n(3) by (rule mask_eq_power_minus)
  from assms(2) have t: "t = e + mask n" and tn: "e \<le> - 1 - mask n"
    unfolding am checkedEnd_Inr using no_wrap_swap by auto
  from assms(3) have p: "p AND NOT (kDefaultLoadAlignment - 1) = page_ceil e" and pn: "e \<le> u64_max - pageMask"
    unfolding checkedEnd_Inr page_ceil_def using no_wrap_swap [of e pageMask] by auto
  note pc = page_ceil_bounds [OF pn, unfolded word_le_nat_alt]
  show "unat e \<le> unat (p AND NOT (kDefaultLoadAlignment - 1))" using pc(1) by (simp only: p)
  let ?r = "unat ((e + mask n) AND NOT (mask n))"
  have r: "unat e \<le> ?r" "2 ^ n dvd ?r" using round_up_unat [OF tn] n by simp_all
  have "(2 :: nat) ^ 12 dvd 2 ^ n" using n(1) by (rule le_imp_power_dvd)
  then have d: "0x1000 dvd ?r" using r(2) by (metis dvd_trans numeral_power_4096)
  have "unat (page_ceil e) \<le> ?r"
  proof (rule ccontr)
    assume "\<not> unat (page_ceil e) \<le> ?r"
    moreover obtain i j where "?r = 0x1000 * i" and "unat (page_ceil e) = 0x1000 * j"
      using d pc(3) by (auto elim!: dvdE)
    ultimately show False using r(1) pc(2) by simp
  qed
  then show "unat (p AND NOT (kDefaultLoadAlignment - 1)) \<le> unat (t AND NOT (a - 1))"
    unfolding p am t .
qed

lemma plan_layout_Inr:
  assumes "plan_layout skip buf req = Inr plan"
  obtains extraEnd alignedEnd pageEnd headerEnd where
      "layout_kept skip req = Inr (lp_Kept plan)"
    and "check_table buf req (length (lp_Kept plan) + 5) = Inr (lp_TableInExtraBlock plan, lp_HeaderBlockSize plan)"
    and "ComputeExtraBlockVaddr skip (lr_OriginalHeaders req) (lr_ExtraBlockOffset req) = Inr (lp_ExtraBlockVaddr plan)"
    and "lp_HeaderBlockAlign plan = header_block_align skip req"
    and "checkedEnd (lp_ExtraBlockVaddr plan) (lr_ExtraBlockSize req) = Inr extraEnd"
    and "checkedEnd extraEnd (lp_HeaderBlockAlign plan - 1) = Inr alignedEnd"
    and "lp_HeaderBlockVaddr plan = alignedEnd AND NOT (lp_HeaderBlockAlign plan - 1)"
    and "checkedEnd (lp_HeaderBlockVaddr plan) (lp_HeaderBlockSize plan) = Inr headerEnd"
    and "checkedEnd extraEnd (kDefaultLoadAlignment - 1) = Inr pageEnd"
    and "lp_ExtraBlockPageEnd plan = pageEnd AND NOT (kDefaultLoadAlignment - 1)"
    and "check_in_extra_block ''Dynamic segment'' req (lr_DynamicSegmentOffset req) (lr_DynamicSegmentSize req) = Inr ()"
    and "check_in_extra_block ''Interp'' req (lr_InterpOffset req) (lr_InterpSize req) = Inr ()"
proof -
  from assms obtain kept t hs v x y z w where
      k: "layout_kept skip req = Inr kept"
    and c: "check_table buf req (length kept + 5) = Inr (t, hs)"
    and v: "ComputeExtraBlockVaddr skip (lr_OriginalHeaders req) (lr_ExtraBlockOffset req) = Inr v"
    and x: "checkedEnd v (lr_ExtraBlockSize req) = Inr x"
    and y: "checkedEnd x (header_block_align skip req - 1) = Inr y"
    and w: "checkedEnd (y AND NOT (header_block_align skip req - 1)) hs = Inr w"
    and d: "check_in_extra_block ''Dynamic segment'' req (lr_DynamicSegmentOffset req) (lr_DynamicSegmentSize req) = Inr ()"
    and i: "check_in_extra_block ''Interp'' req (lr_InterpOffset req) (lr_InterpSize req) = Inr ()"
    and z: "checkedEnd x (kDefaultLoadAlignment - 1) = Inr z"
    and plan: "plan = \<lparr>lp_Kept = kept, lp_TableInExtraBlock = t, lp_HeaderBlockSize = hs,
        lp_HeaderBlockAlign = header_block_align skip req, lp_ExtraBlockVaddr = v,
        lp_HeaderBlockVaddr = y AND NOT (header_block_align skip req - 1),
        lp_ExtraBlockPageEnd = z AND NOT (kDefaultLoadAlignment - 1)\<rparr>"
    unfolding plan_layout_def Let_def
    by (auto simp: bind_res_Inr_iff if_Inl_eq_Inr)
  show thesis
    by (rule that) (use k c v x y z w d i plan in simp_all)
qed


lemma keptLayoutHeader_simps [simp]:
  "ph_Type (keptLayoutHeader ph) = ph_Type ph"
  "ph_MappedAddress (keptLayoutHeader ph) = ph_MappedAddress ph"
  "ph_MemorySize (keptLayoutHeader ph) = ph_MemorySize ph"
  "ph_Offset (keptLayoutHeader ph) = ph_Offset ph"
  "ph_FileSize (keptLayoutHeader ph) = ph_FileSize ph"
  by (simp_all add: keptLayoutHeader_def Let_def)

definition extra_load :: "layout_request \<Rightarrow> layout_plan \<Rightarrow> program_header" where
  "extra_load req plan = makeLoadHeader (lr_ExtraBlockOffset req) (lp_ExtraBlockVaddr plan)
     (lr_ExtraBlockSize req) kDefaultLoadAlignment
     (lp_ExtraBlockPageEnd plan - lp_ExtraBlockVaddr plan) (PF_R OR PF_W OR PF_X)"

definition header_load :: "layout_plan \<Rightarrow> program_header" where
  "header_load plan = makeLoadHeader 0 (lp_HeaderBlockVaddr plan) (lp_HeaderBlockSize plan)
     (lp_HeaderBlockAlign plan) (lp_HeaderBlockSize plan) PF_R"

lemma layout_headers_loads:
  "loads (layout_headers req plan) = map keptLayoutHeader (loads (lp_Kept plan)) @ [extra_load req plan, header_load plan]"
  by (simp add: layout_headers_def Let_def makePhdrHeader_def makeInterpHeader_def makeDynamicHeader_def
      extra_load_def header_load_def makeLoadHeader_def filter_map comp_def)

lemma length_layout_headers: "length (layout_headers req plan) = length (lp_Kept plan) + 5"
  by (simp add: layout_headers_def Let_def)

text \<open>Where the two new loads end.\<close>

lemma new_loads_placed:
  assumes "plan_layout skip buf req = Inr plan"
  shows "load_end (extra_load req plan) \<le> unat (ph_MappedAddress (header_load plan))"
    and "load_end (header_load plan) < 2 ^ 64"
    and "unat (lp_ExtraBlockVaddr plan) + unat (lr_ExtraBlockSize req) \<le> load_end (extra_load req plan)"
  using assms
proof (atomize (full), elim plan_layout_Inr)
  fix x y z w
  assume x: "checkedEnd (lp_ExtraBlockVaddr plan) (lr_ExtraBlockSize req) = Inr x"
    and al: "lp_HeaderBlockAlign plan = header_block_align skip req"
    and y: "checkedEnd x (lp_HeaderBlockAlign plan - 1) = Inr y"
    and hv: "lp_HeaderBlockVaddr plan = y AND NOT (lp_HeaderBlockAlign plan - 1)"
    and w: "checkedEnd (lp_HeaderBlockVaddr plan) (lp_HeaderBlockSize plan) = Inr w"
    and z: "checkedEnd x (kDefaultLoadAlignment - 1) = Inr z"
    and pe: "lp_ExtraBlockPageEnd plan = z AND NOT (kDefaultLoadAlignment - 1)"
  let ?v = "lp_ExtraBlockVaddr plan" and ?s = "lr_ExtraBlockSize req" and ?p = "lp_ExtraBlockPageEnd plan"
  have "page_power (lp_HeaderBlockAlign plan)" unfolding al by (rule header_block_align_power)
  note a = align_above_page_end [OF this y z, folded pe hv]
  have xe: "unat x = unat ?v + unat ?s" using x by (rule checkedEnd_unat)
  then have "?v \<le> ?p" using a(1) by (simp add: word_le_nat_alt)
  then have d: "unat (?p - ?v) = unat ?p - unat ?v" by (rule unat_sub_le)
  have "load_end (extra_load req plan) = unat ?p"
    using d xe a(1) by (auto simp: load_end_def extra_load_def makeLoadHeader_def word_less_nat_alt)
  moreover have "load_end (header_load plan) = unat w"
    using checkedEnd_unat [OF w] by (simp add: load_end_def header_load_def makeLoadHeader_def)
  ultimately show "load_end (extra_load req plan) \<le> unat (ph_MappedAddress (header_load plan)) \<and>
    load_end (header_load plan) < 2 ^ 64 \<and> unat ?v + unat ?s \<le> load_end (extra_load req plan)"
    using a xe unsigned_less [of w, where ?'a = nat] by (simp add: header_load_def makeLoadHeader_def)
qed

context segment_filter
begin

lemma plan_kept:
  assumes "plan_layout skip buf req = Inr plan"
  shows "loads (lp_Kept plan) = sort_key ph_MappedAddress (loads (lr_OriginalHeaders req))"
    and "length (filter (\<lambda>ph. ph_Type ph = PT_GNU_STACK) (lp_Kept plan)) = 1"
    and "ph \<in> set (lp_Kept plan) \<Longrightarrow> ph = defaultStackHeader \<or> ph \<in> set (lr_OriginalHeaders req) \<and> \<not> skip ph"
    and "length (lp_Kept plan) + 5 \<le> unat (lr_PhNum req)"
proof -
  from assms obtain kept where k: "outputHeaders skip (lr_OriginalHeaders req) = Inr kept"
    and s: "lp_Kept plan = sortLoadHeaders kept"
    and n: "length (lp_Kept plan) + 5 \<le> unat (lr_PhNum req)"
    by (auto elim!: plan_layout_Inr simp: layout_kept_def Let_def bind_res_Inr_iff split: if_splits)
  show "loads (lp_Kept plan) = sort_key ph_MappedAddress (loads (lr_OriginalHeaders req))"
    unfolding s sortLoadHeaders_props output_loads [OF k] ..
  have "mset (filter (\<lambda>ph. ph_Type ph = PT_GNU_STACK) (lp_Kept plan)) = mset (filter (\<lambda>ph. ph_Type ph = PT_GNU_STACK) kept)"
    unfolding s mset_filter mset_sortLoadHeaders ..
  then show "length (filter (\<lambda>ph. ph_Type ph = PT_GNU_STACK) (lp_Kept plan)) = 1"
    using output_stack [OF k] mset_eq_length by metis
  show "ph \<in> set (lp_Kept plan) \<Longrightarrow> ph = defaultStackHeader \<or> ph \<in> set (lr_OriginalHeaders req) \<and> \<not> skip ph"
    unfolding s set_sortLoadHeaders by (rule output_subset [OF k])
  show "length (lp_Kept plan) + 5 \<le> unat (lr_PhNum req)" by (rule n)
qed

lemma guest_loads_below:
  assumes "plan_layout skip buf req = Inr plan" and "ph \<in> set (lr_OriginalHeaders req)" and "ph_Type ph = PT_LOAD"
  shows "load_end ph \<le> unat (lp_ExtraBlockVaddr plan)"
  using assms(1)
proof (rule plan_layout_Inr)
  assume "ComputeExtraBlockVaddr skip (lr_OriginalHeaders req) (lr_ExtraBlockOffset req) = Inr (lp_ExtraBlockVaddr plan)"
  from ComputeExtraBlockVaddr_Inr(2) [OF this] show ?thesis using assms(2,3) keeps_load by blast
qed

lemma layout_loads_ascending:
  assumes "plan_layout skip buf req = Inr plan"
  shows "sorted (map ph_MappedAddress (loads (layout_headers req plan)))"
proof -
  let ?v = "lp_ExtraBlockVaddr plan" and ?h = "lp_HeaderBlockVaddr plan"
  have b: "ph_MappedAddress ph \<le> ?v" if "ph \<in> set (loads (lr_OriginalHeaders req))" for ph
    using guest_loads_below [OF assms, of ph] that by (auto simp: load_end_def word_le_nat_alt)
  have vh: "?v \<le> ?h"
    using new_loads_placed [OF assms] by (simp add: word_le_nat_alt header_load_def makeLoadHeader_def)
  have e: "map ph_MappedAddress (loads (layout_headers req plan))
      = map ph_MappedAddress (sort_key ph_MappedAddress (loads (lr_OriginalHeaders req))) @ [?v, ?h]"
    unfolding layout_headers_loads plan_kept(1) [OF assms]
    by (simp add: extra_load_def header_load_def makeLoadHeader_def comp_def)
  show ?thesis unfolding e sorted_append
    using b vh by (auto simp del: filter_sort intro: order_trans)
qed

end


subsection \<open>Writing and reading back\<close>

definition phdr_bytes :: "program_header \<Rightarrow> bytes" where
  "phdr_bytes ph = le_bytes 4 (ph_Type ph) @ le_bytes 4 (ph_Flags ph) @ le_bytes 8 (ph_Offset ph)
     @ le_bytes 8 (ph_MappedAddress ph) @ le_bytes 8 (ph_PhysicalAddress ph) @ le_bytes 8 (ph_FileSize ph)
     @ le_bytes 8 (ph_MemorySize ph) @ le_bytes 8 (ph_Alignment ph)"

lemma length_phdr_bytes [simp]: "length (phdr_bytes ph) = 56"
  by (simp add: phdr_bytes_def)

lemma writeProgramHeader_Inr:
  "writeProgramHeader buf off ph = Inr buf' \<longleftrightarrow> off + 56 \<le> length buf \<and> buf' = blit buf off (phdr_bytes ph)"
proof -
  have "writeProgramHeader buf off ph = Inr buf' \<longleftrightarrow> off + 56 \<le> length buf
      \<and> writeProgramHeader buf off ph = Inr buf'"
    by (auto simp: writeProgramHeader_def bind_res_Inr_iff bw32.wr_Inr bw64.wr_Inr length_blit)
  also have "\<dots> \<longleftrightarrow> off + 56 \<le> length buf \<and> buf' = blit buf off (phdr_bytes ph)"
    by (rule conj_cong [OF refl])
      (auto simp: writeProgramHeader_def bind_res_Inr_iff bw32.wr_Inr bw64.wr_Inr length_blit
        blit_join phdr_bytes_def)
  finally show ?thesis .
qed

lemma read_phdr_fields_bytes:
  assumes "unat off + 56 \<le> length f" and "length f < 2 ^ 64" and "subbytes f (unat off) 56 = phdr_bytes ph"
  shows "read_phdr_fields f off = Inr ph"
proof -
  have u: "unat (off + of_nat k) = unat off + k" if "k < 56" for k
    using that assms(1,2) by (simp add: unat_add_of_nat)
  have s: "subbytes f (unat off + k) n = subbytes (phdr_bytes ph) k n" if "k + n \<le> 56" for k n
    using subbytes_sub [OF that, of f "unat off"] assms(3) by simp
  show ?thesis
    using u [of 4] u [of 8] u [of 16] u [of 24] u [of 32] u [of 40] u [of 48] assms(1) s [of 0 4]
    by (simp add: read_phdr_fields_def readU32At_def readU64At_def readAt_def rangeFits_iff s)
      (simp add: phdr_bytes_def subbytes_def le_word_le_bytes)
qed

interpretation phdrs: record_writer writeProgramHeader phdr_bytes 56
  by unfold_locales (simp_all add: writeProgramHeader_Inr)

lemma write_headers_Inr:
  assumes "write_headers buf0 phOff stride hs = Inr buf" and "56 \<le> stride"
  shows "table_written phdr_bytes 56 buf0 phOff stride hs (length hs) buf"
  by (rule phdrs.table_Inr [OF assms(1) [unfolded write_headers_def] assms(2)])

lemma check_table_Inr:
  assumes "check_table buf req n = Inr (t, hs)" and "n < 65536"
  shows "56 \<le> unat (lr_PhEntSize req)"
    and "unat (lr_PhOff req) + n * unat (lr_PhEntSize req) \<le> length buf"
proof -
  from assms(1) obtain e where s: "\<not> lr_PhEntSize req < 56"
    and e: "checkedEnd (lr_PhOff req) (of_nat n * ucast (lr_PhEntSize req)) = Inr e" "unat e \<le> length buf"
    by (auto simp: check_table_def Let_def bind_res_Inr_iff not_less split: if_splits)
  show "56 \<le> unat (lr_PhEntSize req)" using s by (simp add: word_less_nat_alt)
  have u: "unat (lr_PhEntSize req) < 65536" using unsigned_less [of "lr_PhEntSize req", where ?'a = nat] by simp
  have "n * unat (lr_PhEntSize req) \<le> 65536 * 65536" using assms(2) u by (intro mult_le_mono) auto
  then have "unat (of_nat n * ucast (lr_PhEntSize req) :: u64) = n * unat (lr_PhEntSize req)"
    using assms(2) u by (simp add: unat_word_ariths unat_of_nat unat_ucast_up)
  then show "unat (lr_PhOff req) + n * unat (lr_PhEntSize req) \<le> length buf"
    using checkedEnd_unat [OF e(1)] e(2) by simp
qed


text \<open>Once the plan is accepted, every header of it can be written.\<close>

lemma plan_table:
  assumes "segment_filter skip" and "plan_layout skip buf req = Inr plan"
  shows "56 \<le> unat (lr_PhEntSize req)"
    and "unat (lr_PhOff req) + length (layout_headers req plan) * unat (lr_PhEntSize req) \<le> length buf"
    and "length (layout_headers req plan) < 65536"
proof -
  have n: "length (lp_Kept plan) + 5 \<le> unat (lr_PhNum req)" by (rule segment_filter.plan_kept(4) [OF assms])
  also have "\<dots> < 65536" using unsigned_less [of "lr_PhNum req", where ?'a = nat] by simp
  finally have k: "length (lp_Kept plan) + 5 < 65536" .
  then show "length (layout_headers req plan) < 65536" by (simp add: length_layout_headers)
  from assms(2) have "check_table buf req (length (lp_Kept plan) + 5) = Inr (lp_TableInExtraBlock plan, lp_HeaderBlockSize plan)"
    by (rule plan_layout_Inr)
  from check_table_Inr [OF this k] show "56 \<le> unat (lr_PhEntSize req)"
    and "unat (lr_PhOff req) + length (layout_headers req plan) * unat (lr_PhEntSize req) \<le> length buf"
    unfolding length_layout_headers by blast+
qed

lemma WriteLayout_plan:
  assumes "segment_filter skip" and "plan_layout skip buf req = Inr plan"
  shows "\<exists>n buf'. WriteLayout skip buf req = Inr (n, buf')"
proof -
  obtain b where "write_headers buf (unat (lr_PhOff req)) (unat (lr_PhEntSize req)) (layout_headers req plan) = Inr b"
    unfolding write_headers_def using phdrs.table_ok [OF plan_table(1,2) [OF assms]] by blast
  then show ?thesis using assms(2) by (simp add: WriteLayout_def Let_def)
qed

lemma WriteLayout_Inr:
  assumes "segment_filter skip" and "WriteLayout skip buf req = Inr (n, buf')" and "length buf < 2 ^ 64"
  obtains plan where "plan_layout skip buf req = Inr plan"
    and "unat n = length (layout_headers req plan)" and "length buf' = length buf"
    and "\<And>i. i < unat n \<Longrightarrow>
      read_phdr_fields buf' (lr_PhOff req + of_nat (i * unat (lr_PhEntSize req))) = Inr (layout_headers req plan ! i)"
    and "\<And>j. j < length buf \<Longrightarrow>
      j < unat (lr_PhOff req) \<or> unat (lr_PhOff req) + unat n * unat (lr_PhEntSize req) \<le> j \<Longrightarrow> buf' ! j = buf ! j"
proof -
  from assms(2) obtain plan where p: "plan_layout skip buf req = Inr plan"
    and w: "write_headers buf (unat (lr_PhOff req)) (unat (lr_PhEntSize req)) (layout_headers req plan) = Inr buf'"
    and n: "n = of_nat (length (layout_headers req plan))"
    by (auto simp: WriteLayout_def Let_def bind_res_Inr_iff)
  note t = plan_table [OF assms(1) p]
  have un: "unat n = length (layout_headers req plan)" using t(3) n by (simp add: unat_of_nat)
  note hw = write_headers_Inr [OF w t(1)]
  show thesis
  proof (rule that [OF p un])
    show "length buf' = length buf" using hw by (simp add: table_written_def)
  next
    fix i assume "i < unat n"
    then have fit: "unat (lr_PhOff req) + i * unat (lr_PhEntSize req) + 56 \<le> length buf'"
      and b: "subbytes buf' (unat (lr_PhOff req) + i * unat (lr_PhEntSize req)) 56 = phdr_bytes (layout_headers req plan ! i)"
      and l: "length buf' = length buf"
      using hw un by (auto simp: table_written_def)
    have "unat (lr_PhOff req + of_nat (i * unat (lr_PhEntSize req))) = unat (lr_PhOff req) + i * unat (lr_PhEntSize req)"
      using fit l assms(3) by (intro unat_add_of_nat) simp
    then show "read_phdr_fields buf' (lr_PhOff req + of_nat (i * unat (lr_PhEntSize req))) = Inr (layout_headers req plan ! i)"
      using fit b l assms(3) by (intro read_phdr_fields_bytes) simp_all
  next
    fix j assume "j < length buf" "j < unat (lr_PhOff req) \<or> unat (lr_PhOff req) + unat n * unat (lr_PhEntSize req) \<le> j"
    then show "buf' ! j = buf ! j" using hw un by (auto simp: table_written_def)
  qed
qed

subsection \<open>A concrete output\<close>

definition layout_sample_load :: program_header where
  "layout_sample_load = \<lparr>ph_Type = PT_LOAD, ph_Flags = 6, ph_Offset = 0, ph_MappedAddress = 0x1000,
     ph_PhysicalAddress = 0x1000, ph_FileSize = 0x40, ph_MemorySize = 0x1800, ph_Alignment = 0x4000\<rparr>"

definition layout_sample_relro :: program_header where
  "layout_sample_relro = \<lparr>ph_Type = PT_GNU_RELRO, ph_Flags = 4, ph_Offset = 0, ph_MappedAddress = 0x1800,
     ph_PhysicalAddress = 0x1800, ph_FileSize = 0x40, ph_MemorySize = 0x200, ph_Alignment = 8\<rparr>"

definition layout_sample_request :: layout_request where
  "layout_sample_request = \<lparr>lr_PhOff = 64, lr_PhEntSize = 56, lr_PhNum = 9,
     lr_OriginalHeaders = [layout_sample_relro, layout_sample_load], lr_ExtraBlockOffset = 512,
     lr_ExtraBlockVaddr = 0x3200, lr_ExtraBlockSize = 64, lr_DynamicSegmentOffset = 528,
     lr_DynamicSegmentSize = 16, lr_InterpOffset = 544, lr_InterpSize = 8, lr_MovedLoadAlignment = 0\<rparr>"

definition layout_sample_plan :: layout_plan where
  "layout_sample_plan = \<lparr>lp_Kept = [layout_sample_relro, layout_sample_load, defaultStackHeader],
     lp_TableInExtraBlock = False, lp_HeaderBlockSize = 512, lp_HeaderBlockAlign = 0x4000,
     lp_ExtraBlockVaddr = 0x3200, lp_HeaderBlockVaddr = 0x4000, lp_ExtraBlockPageEnd = 0x4000\<rparr>"

lemma kept_sample:
  "keptHeaders (ShouldSkip False) [layout_sample_relro, layout_sample_load] = [layout_sample_relro, layout_sample_load]"
  by code_simp

lemma output_sample:
  "outputHeaders (ShouldSkip False) [layout_sample_relro, layout_sample_load]
    = Inr [layout_sample_relro, layout_sample_load, defaultStackHeader]"
  unfolding outputHeaders_def kept_sample Let_def
  by (simp add: layout_sample_relro_def layout_sample_load_def)

lemma sort_sample:
  "sortLoadHeaders [layout_sample_relro, layout_sample_load, defaultStackHeader]
    = [layout_sample_relro, layout_sample_load, defaultStackHeader]"
  by code_simp

lemma layout_kept_sample:
  "layout_kept (ShouldSkip False) layout_sample_request
    = Inr [layout_sample_relro, layout_sample_load, defaultStackHeader]"
  by (simp add: layout_kept_def layout_sample_request_def output_sample sort_sample Let_def)

lemma extra_vaddr_sample:
  "ComputeExtraBlockVaddr (ShouldSkip False) [layout_sample_relro, layout_sample_load] 512 = Inr 0x3200"
  by code_simp

lemma header_align_sample: "header_block_align (ShouldSkip False) layout_sample_request = 0x4000"
  by code_simp

lemma check_table_sample: "check_table (replicate 600 0) layout_sample_request 8 = Inr (False, 512)"
  by (simp add: check_table_def layout_sample_request_def checkedEnd_def Let_def)

lemma check_in_extra_sample:
  "check_in_extra_block ''Dynamic segment'' layout_sample_request 528 16 = Inr ()"
  "check_in_extra_block ''Interp'' layout_sample_request 544 8 = Inr ()"
  by (simp_all add: check_in_extra_block_def layout_sample_request_def)

lemma plan_layout_sample:
  "plan_layout (ShouldSkip False) (replicate 600 0) layout_sample_request = Inr layout_sample_plan"
  unfolding plan_layout_def layout_kept_sample header_align_sample
  by (simp add: check_table_sample Let_def)
    (simp add: layout_sample_request_def extra_vaddr_sample checkedEnd_def Let_def
      check_in_extra_sample [unfolded layout_sample_request_def] layout_sample_plan_def)


subsection \<open>Properties\<close>

text \<open>
  C34: a RELRO range is kept exactly when its pages are representable and every address of them
  lies on a page of some writable loaded segment: the scan over the sorted ranges misses no
  gap and reports none that is not there.
\<close>

theorem relro_coverage_exact:
  "hasWritableLoadCoverage headers relro \<longleftrightarrow> ph_MemorySize relro = 0 \<or>
     (let v = ph_MappedAddress relro; m = ph_MemorySize relro in
      m \<le> u64_max - v \<and> v + m \<le> u64_max - (kDefaultLoadAlignment - 1) \<and>
      (\<forall>x. page_floor v \<le> x \<and> x < page_ceil (v + m) \<longrightarrow> (\<exists>h \<in> set headers. on_writable_page h x)))"
  by (rule hasWritableLoadCoverage_iff)

text \<open>
  sorting the loads permutes the headers, orders the \<open>PT_LOAD\<close> entries by address and keeps
  every other entry, and the type found at each index, in place.
\<close>

theorem sort_loads_permutes:
  "mset (sortLoadHeaders hs) = mset hs
    \<and> sorted (map ph_MappedAddress (filter (\<lambda>ph. ph_Type ph = PT_LOAD) (sortLoadHeaders hs)))
    \<and> filter (\<lambda>ph. ph_Type ph \<noteq> PT_LOAD) (sortLoadHeaders hs) = filter (\<lambda>ph. ph_Type ph \<noteq> PT_LOAD) hs
    \<and> map ph_Type (sortLoadHeaders hs) = map ph_Type hs"
  using sortLoadHeaders_props mset_sortLoadHeaders by (simp del: filter_sort)

text \<open>
  C33: the address chosen for the extra block is congruent to its file offset modulo the page
  size, as a loadable segment needs, and lies at or above the end of every loaded segment of the
  guest.
\<close>

theorem extra_block_vaddr_placed:
  assumes "ComputeExtraBlockVaddr (ShouldSkip lazy) hs off = Inr v"
  shows "unat v mod 0x1000 = unat off mod 0x1000
    \<and> (\<forall>ph \<in> set hs. ph_Type ph = PT_LOAD \<longrightarrow> unat (ph_MappedAddress ph) + unat (ph_MemorySize ph) \<le> unat v)"
  using ComputeExtraBlockVaddr_Inr [OF assms] elf_filter.keeps_load by (auto simp: load_end_def)

text \<open>
  C31: in the layout that is written, loadable segments are in ascending address order (which the
  ELF loader requires), the guest's segments end before the extra block, the extra block ends
  before the block that maps the file header, that block does not wrap, and there is exactly one
  stack header and one header each for the table, the interpreter and the dynamic segment.
\<close>

theorem layout_well_formed:
  assumes "plan_layout (ShouldSkip lazy) buf req = Inr plan"
  shows "sorted (map ph_MappedAddress (filter (\<lambda>ph. ph_Type ph = PT_LOAD) (layout_headers req plan)))
    \<and> (\<forall>ph \<in> set (lr_OriginalHeaders req). ph_Type ph = PT_LOAD \<longrightarrow> load_end ph \<le> unat (ph_MappedAddress (extra_load req plan)))
    \<and> load_end (extra_load req plan) \<le> unat (ph_MappedAddress (header_load plan))
    \<and> load_end (header_load plan) < 2 ^ 64
    \<and> (\<forall>t \<in> {PT_GNU_STACK, PT_PHDR, PT_INTERP, PT_DYNAMIC}.
        length (filter (\<lambda>ph. ph_Type ph = t) (layout_headers req plan)) = 1)"
proof -
  have none: "filter (\<lambda>ph. ph_Type ph = t) (lp_Kept plan) = []" if "t = PT_PHDR \<or> t = PT_INTERP \<or> t = PT_DYNAMIC" for t
  proof (rule filter_False, rule ballI, rule notI)
    fix ph assume "ph \<in> set (lp_Kept plan)" and t: "ph_Type ph = t"
    from elf_filter.plan_kept(3) [OF assms this(1)] show False
    proof
      assume "ph = defaultStackHeader"
      then show False using t that by (auto simp: defaultStackHeader_def)
    next
      assume "ph \<in> set (lr_OriginalHeaders req) \<and> \<not> ShouldSkip lazy ph"
      then show False using t that elf_filter.drops_rebuilt [of ph lazy] by auto
    qed
  qed
  have "length (filter (\<lambda>ph. ph_Type ph = t) (layout_headers req plan)) = 1"
    if "t \<in> {PT_GNU_STACK, PT_PHDR, PT_INTERP, PT_DYNAMIC}" for t
    using that elf_filter.plan_kept(2) [OF assms] none [of t]
    by (auto simp: layout_headers_def Let_def makePhdrHeader_def makeInterpHeader_def
        makeDynamicHeader_def makeLoadHeader_def filter_map comp_def)
  then show ?thesis
    using elf_filter.layout_loads_ascending [OF assms] elf_filter.guest_loads_below [OF assms]
      new_loads_placed(1,2) [OF assms]
    by (auto simp: extra_load_def makeLoadHeader_def)
qed

text \<open>
  C32: when \<open>WriteLayout\<close> returns a count, the reader's entry decoder finds exactly the planned
  headers at the positions of the table, and nothing before or after the table has changed.
\<close>

theorem write_layout_roundtrip:
  assumes "WriteLayout (ShouldSkip lazy) buf req = Inr (n, buf')" and "length buf < 2 ^ 64"
  shows "\<exists>plan. plan_layout (ShouldSkip lazy) buf req = Inr plan
    \<and> unat n = length (layout_headers req plan) \<and> length buf' = length buf
    \<and> (\<forall>i < unat n. read_phdr_fields buf' (lr_PhOff req + of_nat (i * unat (lr_PhEntSize req)))
         = Inr (layout_headers req plan ! i))
    \<and> (\<forall>j < length buf. j < unat (lr_PhOff req) \<or> unat (lr_PhOff req) + unat n * unat (lr_PhEntSize req) \<le> j
         \<longrightarrow> buf' ! j = buf ! j)"
  by (rule WriteLayout_Inr [OF elf_filter.segment_filter_axioms assms]) blast

subsection \<open>Witnesses\<close>

lemma relro_coverage_exact_witness:
  "\<exists>h \<in> {layout_sample_load}. on_writable_page h 0x1FFF"
proof -
  have c: "hasWritableLoadCoverage [layout_sample_load] layout_sample_relro" by code_simp
  have "page_floor 0x1800 = 0x1000" "page_ceil 0x1A00 = 0x2000" by code_simp+
  then show ?thesis using relro_coverage_exact [of "[layout_sample_load]" layout_sample_relro] c
    by (simp add: layout_sample_relro_def Let_def)
qed

lemma extra_block_vaddr_placed_witness:
  "unat (0x3200 :: u64) mod 0x1000 = 0x200
    \<and> unat (ph_MappedAddress layout_sample_load) + unat (ph_MemorySize layout_sample_load) \<le> 0x3200"
  using extra_block_vaddr_placed [OF extra_vaddr_sample] by (simp add: layout_sample_load_def)

lemma layout_well_formed_witness:
  "load_end (extra_load layout_sample_request layout_sample_plan) \<le> 0x4000"
  using layout_well_formed [OF plan_layout_sample]
  by (simp add: header_load_def makeLoadHeader_def layout_sample_plan_def)

lemma write_layout_roundtrip_witness:
  "\<exists>n buf'. WriteLayout (ShouldSkip False) (replicate 600 0) layout_sample_request = Inr (n, buf')
    \<and> unat n = 8"
proof -
  obtain n buf' where w: "WriteLayout (ShouldSkip False) (replicate 600 0) layout_sample_request = Inr (n, buf')"
    using WriteLayout_plan [OF elf_filter.segment_filter_axioms plan_layout_sample] by blast
  from write_layout_roundtrip [OF this] plan_layout_sample have "unat n = 8"
    by (auto simp: length_layout_headers layout_sample_plan_def)
  with w show ?thesis by blast
qed

end
