(* ===== verification/Section_Table.thy ===== *)
theory Section_Table
  imports Elf_Reader
begin

text \<open>
  \<open>SectionHeaderTableBuilder\<close> (\<open>elfpatcher/src/general\<close>): it checks the allocated sections
  against the file, each other and the program headers, appends the section name table and six
  section headers to the output and records them in the file header. \<open>std::runtime_error\<close> is
  \<open>RuntimeError\<close>. The lemmas read the result back with the reader of \<open>Elf_Reader\<close>.
\<close>

subsection \<open>The code\<close>

record section_request =
  sr_DynStrOffset :: u64
  sr_DynStrSize :: u64
  sr_DynSymOffset :: u64
  sr_DynSymSize :: u64
  sr_DynamicSegmentOffset :: u64
  sr_DynamicSegmentSize :: u64
  sr_StubOffset :: u64
  sr_StubSize :: u64

text \<open>The parameters of \<open>_writeSectionHeader\<close> after the buffer and the offset.\<close>

record shdr_args =
  sa_NameOff :: u32
  sa_Type :: u32
  sa_Flags :: u64
  sa_Addr :: u64
  sa_FileOffset :: u64
  sa_Size :: u64
  sa_Link :: u32
  sa_Info :: u32
  sa_Align :: u64
  sa_EntSize :: u64

definition writeSectionHeader :: "bytes \<Rightarrow> nat \<Rightarrow> shdr_args \<Rightarrow> bytes res" where
  "writeSectionHeader buf offset a =
     bind_res (ByteWriter_WriteU32 buf (offset + kShdrNameOffset) (sa_NameOff a)) (\<lambda>buf.
     bind_res (ByteWriter_WriteU32 buf (offset + kShdrTypeOffset) (sa_Type a)) (\<lambda>buf.
     bind_res (ByteWriter_WriteU64 buf (offset + kShdrFlagsOffset) (sa_Flags a)) (\<lambda>buf.
     bind_res (ByteWriter_WriteU64 buf (offset + kShdrAddrOffset) (sa_Addr a)) (\<lambda>buf.
     bind_res (ByteWriter_WriteU64 buf (offset + kShdrFileOffsetOffset) (sa_FileOffset a)) (\<lambda>buf.
     bind_res (ByteWriter_WriteU64 buf (offset + kShdrSizeOffset) (sa_Size a)) (\<lambda>buf.
     bind_res (ByteWriter_WriteU32 buf (offset + kShdrLinkOffset) (sa_Link a)) (\<lambda>buf.
     bind_res (ByteWriter_WriteU32 buf (offset + kShdrInfoOffset) (sa_Info a)) (\<lambda>buf.
     bind_res (ByteWriter_WriteU64 buf (offset + kShdrAlignOffset) (sa_Align a)) (\<lambda>buf.
     ByteWriter_WriteU64 buf (offset + kShdrEntSizeOffset) (sa_EntSize a))))))))))"

definition allocated_sections :: "section_request \<Rightarrow> (u64 \<times> u64) list" where
  "allocated_sections req =
     [(sr_DynStrOffset req, sr_DynStrSize req), (sr_DynSymOffset req, sr_DynSymSize req),
      (sr_DynamicSegmentOffset req, sr_DynamicSegmentSize req), (sr_StubOffset req, sr_StubSize req)]"

text \<open>The body of the pairwise check; a pair is an offset and a size.\<close>

definition sections_clash :: "u64 \<times> u64 \<Rightarrow> u64 \<times> u64 \<Rightarrow> bool" where
  "sections_clash a b \<longleftrightarrow> snd a \<noteq> 0 \<and> snd b \<noteq> 0
     \<and> fst a < fst b + snd b \<and> fst b < fst a + snd a"

fun check_overlaps :: "(u64 \<times> u64) list \<Rightarrow> unit res" where
  "check_overlaps [] = Inr ()"
| "check_overlaps (a # rest) =
     (if list_ex (sections_clash a) rest then Inl (RuntimeError ''Allocated output sections overlap'')
      else check_overlaps rest)"

record phdr_table_info =
  pt_Offset :: u64
  pt_Count :: u16
  pt_Stride :: u16
  pt_End :: u64

definition output_phdr_table :: "bytes \<Rightarrow> phdr_table_info res" where
  "output_phdr_table buf =
     (if length buf < unat kElfHeaderSize
      then Inl (RuntimeError ''Output program header table is out of bounds'')
      else bind_res (ReadU64 buf kEhdrPhOffOffset) (\<lambda>phOffset.
        bind_res (ReadU16 buf kEhdrPhNumOffset) (\<lambda>phCount.
        bind_res (ReadU16 buf kEhdrPhEntSizeOffset) (\<lambda>phStride.
        if phStride < 56 \<or> phCount > 0 \<and> phOffset < kElfHeaderSize
          \<or> unat phOffset > length buf
          \<or> unat phCount > (length buf - unat phOffset) div unat phStride
        then Inl (RuntimeError ''Output program header table is out of bounds'')
        else Inr \<lparr>pt_Offset = phOffset, pt_Count = phCount, pt_Stride = phStride,
                  pt_End = phOffset + ucast phCount * ucast phStride\<rparr>))))"

text \<open>
  The loop of the \<open>mappedAddress\<close> lambda over the program headers; the body returns an address
  or goes on with the next header.
\<close>

definition segment_address :: "bytes \<Rightarrow> phdr_table_info \<Rightarrow> u64 \<Rightarrow> u64 \<Rightarrow> nat \<Rightarrow> u64 option res" where
  "segment_address buf t offset len index =
     (let header = unat (pt_Offset t + of_nat (index * unat (pt_Stride t))) in
      bind_res (ReadU32 buf header) (\<lambda>type.
      if type \<noteq> PT_LOAD then Inr None
      else bind_res (ReadU64 buf (header + 8)) (\<lambda>start.
        bind_res (ReadU64 buf (header + 32)) (\<lambda>extent.
        if offset \<ge> start \<and> offset - start \<le> extent \<and> len \<le> extent - (offset - start)
        then let relative = offset - start in
          bind_res (ReadU64 buf (header + 16)) (\<lambda>address.
          if relative > u64_max - address \<or> len > u64_max - (address + relative)
          then Inl (RuntimeError ''Allocated output section address overflowed'')
          else Inr (Some (address + relative)))
        else Inr None))))"

fun mapped_by :: "bytes \<Rightarrow> phdr_table_info \<Rightarrow> u64 \<Rightarrow> u64 \<Rightarrow> nat list \<Rightarrow> u64 res" where
  "mapped_by buf t offset len [] =
     Inl (RuntimeError ''Allocated output section is outside load segments'')"
| "mapped_by buf t offset len (index # rest) =
     bind_res (segment_address buf t offset len index) (\<lambda>found.
     case found of Some address \<Rightarrow> Inr address | None \<Rightarrow> mapped_by buf t offset len rest)"

definition mappedAddress :: "bytes \<Rightarrow> phdr_table_info \<Rightarrow> u64 \<times> u64 \<Rightarrow> u64 res" where
  "mappedAddress buf t = (\<lambda>(offset, len).
     if unat offset > length buf \<or> unat len > length buf - unat offset
     then Inl (RuntimeError ''Allocated output section exceeds file'')
     else if offset < kElfHeaderSize \<and> len > 0
     then Inl (RuntimeError ''Allocated output section overlaps the ELF header'')
     else if len > 0 \<and> pt_Count t > 0 \<and> offset < pt_End t \<and> pt_Offset t < offset + len
     then Inl (RuntimeError ''Allocated output section overlaps the program header table'')
     else mapped_by buf t offset len [0..<unat (pt_Count t)])"

text \<open>The arguments of the six calls of \<open>_writeSectionHeader\<close>.\<close>

definition section_headers_of :: "section_request \<Rightarrow> u64 list \<Rightarrow> u64 \<Rightarrow> shdr_args list" where
  "section_headers_of req addresses shStrTabOff =
     [\<lparr>sa_NameOff = 0, sa_Type = SHT_NULL, sa_Flags = 0, sa_Addr = 0, sa_FileOffset = 0, sa_Size = 0,
       sa_Link = 0, sa_Info = 0, sa_Align = 0, sa_EntSize = 0\<rparr>,
      \<lparr>sa_NameOff = kShStrTabNameOffset, sa_Type = SHT_STRTAB, sa_Flags = 0, sa_Addr = 0,
       sa_FileOffset = shStrTabOff, sa_Size = of_nat (length kShStrTabBlob),
       sa_Link = 0, sa_Info = 0, sa_Align = kNoSpecialAlignment, sa_EntSize = 0\<rparr>,
      \<lparr>sa_NameOff = kDynStrNameOffset, sa_Type = SHT_STRTAB, sa_Flags = ucast SHF_ALLOC,
       sa_Addr = addresses ! 0, sa_FileOffset = sr_DynStrOffset req, sa_Size = sr_DynStrSize req,
       sa_Link = 0, sa_Info = 0, sa_Align = kNoSpecialAlignment, sa_EntSize = 0\<rparr>,
      \<lparr>sa_NameOff = kDynSymNameOffset, sa_Type = SHT_DYNSYM, sa_Flags = ucast SHF_ALLOC,
       sa_Addr = addresses ! 1, sa_FileOffset = sr_DynSymOffset req, sa_Size = sr_DynSymSize req,
       sa_Link = kDynSymLinkToStrTab, sa_Info = kDynSymInfoFirstGlobal, sa_Align = kDynSymAlign,
       sa_EntSize = kSymEntrySize\<rparr>,
      \<lparr>sa_NameOff = kDynamicNameOffset, sa_Type = SHT_DYNAMIC, sa_Flags = ucast (SHF_ALLOC OR SHF_WRITE),
       sa_Addr = addresses ! 2, sa_FileOffset = sr_DynamicSegmentOffset req,
       sa_Size = sr_DynamicSegmentSize req, sa_Link = kDynamicLinkToStrTab, sa_Info = 0,
       sa_Align = kDynSymAlign, sa_EntSize = of_nat kDynEntrySize\<rparr>,
      \<lparr>sa_NameOff = kTextNameOffset, sa_Type = SHT_PROGBITS, sa_Flags = ucast (SHF_ALLOC OR SHF_EXECINSTR),
       sa_Addr = addresses ! 3, sa_FileOffset = sr_StubOffset req, sa_Size = sr_StubSize req,
       sa_Link = 0, sa_Info = 0, sa_Align = kNoSpecialAlignment, sa_EntSize = 0\<rparr>]"

definition write_shdr_fields :: "bytes \<Rightarrow> u64 \<Rightarrow> bytes res" where
  "write_shdr_fields buf shOff =
     bind_res (ByteWriter_WriteU64 buf kEhdrShOffOffset shOff) (\<lambda>buf.
     bind_res (ByteWriter_WriteU16 buf kEhdrShEntSizeOffset (of_nat kShdrEntrySize)) (\<lambda>buf.
     bind_res (ByteWriter_WriteU16 buf kEhdrShNumOffset (of_nat kSectionHeaderCount)) (\<lambda>buf.
     ByteWriter_WriteU16 buf kEhdrShStrNdxOffset (ucast kShStrTabIndex))))"

definition WriteTable :: "bytes \<Rightarrow> section_request \<Rightarrow> bytes res" where
  "WriteTable buf req =
     bind_res (output_phdr_table buf) (\<lambda>t.
     bind_res (check_overlaps (allocated_sections req)) (\<lambda>_.
     bind_res (map_res (mappedAddress buf t) (allocated_sections req)) (\<lambda>addresses.
     let shStrTabOff = length buf in
     bind_res (AlignBuffer (buf @ kShStrTabBlob) 8) (\<lambda>buf.
     let shOff = length buf in
     bind_res (fold_res (\<lambda>index buf. writeSectionHeader buf (shOff + index * kShdrEntrySize)
                  (section_headers_of req addresses (of_nat shStrTabOff) ! index))
                [0..<kSectionHeaderCount]
                (resize_to (length buf + kShdrEntrySize * kSectionHeaderCount) buf)) (\<lambda>buf.
     write_shdr_fields buf (of_nat shOff))))))"

subsection \<open>Writing a header and reading it back\<close>

definition shdr_bytes :: "shdr_args \<Rightarrow> bytes" where
  "shdr_bytes a = le_bytes 4 (sa_NameOff a) @ le_bytes 4 (sa_Type a) @ le_bytes 8 (sa_Flags a)
     @ le_bytes 8 (sa_Addr a) @ le_bytes 8 (sa_FileOffset a) @ le_bytes 8 (sa_Size a)
     @ le_bytes 4 (sa_Link a) @ le_bytes 4 (sa_Info a) @ le_bytes 8 (sa_Align a) @ le_bytes 8 (sa_EntSize a)"

lemma length_shdr_bytes [simp]: "length (shdr_bytes a) = 64"
  by (simp add: shdr_bytes_def)

lemma writeSectionHeader_Inr:
  "writeSectionHeader buf off a = Inr buf' \<longleftrightarrow> off + 64 \<le> length buf \<and> buf' = blit buf off (shdr_bytes a)"
proof -
  have "writeSectionHeader buf off a = Inr buf' \<longleftrightarrow> off + 64 \<le> length buf \<and> writeSectionHeader buf off a = Inr buf'"
    by (auto simp: writeSectionHeader_def bind_res_Inr_iff bw32.wr_Inr bw64.wr_Inr length_blit)
  also have "\<dots> \<longleftrightarrow> off + 64 \<le> length buf \<and> buf' = blit buf off (shdr_bytes a)"
    by (rule conj_cong [OF refl])
      (auto simp: writeSectionHeader_def bind_res_Inr_iff bw32.wr_Inr bw64.wr_Inr length_blit
        blit_join shdr_bytes_def)
  finally show ?thesis .
qed

interpretation shdrs: record_writer writeSectionHeader shdr_bytes 64
  by unfold_locales (simp_all add: writeSectionHeader_Inr)

text \<open>What the reader makes of a written header whose name resolves.\<close>

definition shdr_of_args :: "shdr_args \<Rightarrow> string \<Rightarrow> section_header" where
  "shdr_of_args a name = \<lparr>sh_Name = name, sh_Type = sa_Type a, sh_Flags = sa_Flags a,
     sh_MappedAddress = sa_Addr a, sh_Offset = sa_FileOffset a, sh_SectionSize = sa_Size a,
     sh_Link = sa_Link a, sh_Info = sa_Info a, sh_Alignment = sa_Align a, sh_EntrySize = sa_EntSize a\<rparr>"

text \<open>The conditions under which the reader accepts it.\<close>

definition shdr_readable :: "bytes \<Rightarrow> shdr_args \<Rightarrow> bool" where
  "shdr_readable f a \<longleftrightarrow> \<not> (sa_Type a \<noteq> SHT_NULL \<and> sa_Align a > 1 \<and> \<not> has_single_bit (sa_Align a))
     \<and> \<not> (sa_Type a = SHT_SYMTAB \<and> sa_EntSize a \<noteq> kSymEntrySize)
     \<and> \<not> (sa_Type a \<noteq> SHT_NULL \<and> sa_Type a \<noteq> SHT_NOBITS \<and> sa_Size a \<noteq> 0
        \<and> \<not> rangeFits (sa_FileOffset a) (sa_Size a) (length f))"

lemma read_field:
  assumes "unat off + w \<le> length f" and "length f < 2 ^ 64" and "subbytes f (unat off) w = r"
    and "k + n \<le> w" and "n < 2 ^ 64"
  shows "readAt n f (off + of_nat k) = Inr (le_word (subbytes r k n))"
proof -
  have "unat off + k < 2 ^ 64" using assms(1,2,4) by linarith
  then have "unat (off + of_nat k) = unat off + k" by (rule unat_add_of_nat)
  moreover have "subbytes f (unat off + k) n = subbytes r k n"
    using subbytes_sub [OF assms(4), of f "unat off"] assms(3) by simp
  ultimately show ?thesis using assms by (auto simp: readAt_Inr)
qed

lemma read_shdr_written:
  assumes f: "unat off + 64 \<le> length f" "length f < 2 ^ 64" "subbytes f (unat off) 64 = shdr_bytes a"
    and "shdr_readable f a" and "resolveShdrName f (sa_NameOff a) h = Inr name"
  shows "read_shdr f h off = Inr (shdr_of_args a name)"
proof -
  have r32: "k + 4 \<le> 64 \<Longrightarrow> readU32At f (off + of_nat k) = Inr (le_word (subbytes (shdr_bytes a) k 4))" for k
    unfolding readU32At_def by (rule read_field [OF f]) auto
  have r64: "k + 8 \<le> 64 \<Longrightarrow> readU64At f (off + of_nat k) = Inr (le_word (subbytes (shdr_bytes a) k 8))" for k
    unfolding readU64At_def by (rule read_field [OF f]) auto
  have flds: "readU32At f off = Inr (sa_NameOff a)" "readU32At f (off + 0x04) = Inr (sa_Type a)"
    "readU64At f (off + 0x08) = Inr (sa_Flags a)" "readU64At f (off + 0x10) = Inr (sa_Addr a)"
    "readU64At f (off + 0x18) = Inr (sa_FileOffset a)" "readU64At f (off + 0x20) = Inr (sa_Size a)"
    "readU32At f (off + 0x28) = Inr (sa_Link a)" "readU32At f (off + 0x2c) = Inr (sa_Info a)"
    "readU64At f (off + of_nat kShdrAlignOffset) = Inr (sa_Align a)"
    "readU64At f (off + of_nat kShdrEntSizeOffset) = Inr (sa_EntSize a)"
    using r32 [of 0] r32 [of 4] r64 [of 8] r64 [of 16] r64 [of 24] r64 [of 32] r32 [of 40] r32 [of 44]
      r64 [of 48] r64 [of 56]
    by (simp_all add: shdr_bytes_def subbytes_def le_word_le_bytes)
  show ?thesis using assms(4,5)
    unfolding read_shdr_def flds bind_res.simps shdr_readable_def
    by (simp add: shdr_of_args_def)
qed

subsection \<open>Section names\<close>

lemma length_kShStrTabBlob: "length kShStrTabBlob = 42"
  by (simp add: kShStrTabBlob_def)

definition blob_name :: "nat \<Rightarrow> string" where
  "blob_name n = bytes_string (takeWhile (\<lambda>b. b \<noteq> 0) (drop n kShStrTabBlob))"

lemma blob_names:
  "blob_name 0 = []" "blob_name 1 = ''.shstrtab''" "blob_name 11 = ''.dynstr''" "blob_name 19 = ''.dynsym''"
  "blob_name 27 = ''.dynamic''" "blob_name 36 = ''.text''"
  by code_simp+

lemma resolve_blob_name:
  assumes h: "eh_SectionHeaderStringIndex h = 1" "eh_SectionHeaderEntrySize h = 64" "eh_SectionHeaderOffset h = shOff"
    and f: "unat shOff + 128 \<le> length f" "length f < 2 ^ 64" "subbytes f (unat shOff + 64) 64 = shdr_bytes a"
    and a: "sa_Type a = SHT_STRTAB" "sa_FileOffset a = strOff" "sa_Size a = 42"
    and b: "unat strOff + 42 \<le> length f" "subbytes f (unat strOff) 42 = kShStrTabBlob"
    and n: "unat n < 42"
  shows "resolveShdrName f n h = Inr (blob_name (unat n))"
proof -
  let ?s = "shOff + 64"
  have us: "unat ?s = unat shOff + 64" using f unat_add_of_nat [of shOff 64] by simp
  have r32: "k + 4 \<le> 64 \<Longrightarrow> readU32At f (?s + of_nat k) = Inr (le_word (subbytes (shdr_bytes a) k 4))" for k
    unfolding readU32At_def by (rule read_field [where w = 64]) (use f us in auto)
  have r64: "k + 8 \<le> 64 \<Longrightarrow> readU64At f (?s + of_nat k) = Inr (le_word (subbytes (shdr_bytes a) k 8))" for k
    unfolding readU64At_def by (rule read_field [where w = 64]) (use f us in auto)
  have flds: "readU32At f (?s + of_nat kShdrTypeOffset) = Inr SHT_STRTAB"
      "readU64At f (?s + 0x18) = Inr strOff" "readU64At f (?s + of_nat kShdrSizeOffset) = Inr 42"
    using r32 [of 4] r64 [of 24] r64 [of 32] a
    by (simp_all add: shdr_bytes_def subbytes_def le_word_le_bytes)
  have w: "subbytes f (unat strOff + unat n) (42 - unat n) = drop (unat n) kShStrTabBlob"
    using subbytes_sub [of "unat n" "42 - unat n" 42 f "unat strOff"] b n length_kShStrTabBlob
    by (simp add: subbytes_def)
  have "last (drop (unat n) kShStrTabBlob) = 0"
    using n by (simp add: last_drop length_kShStrTabBlob) (simp add: kShStrTabBlob_def)
  moreover have "drop (unat n) kShStrTabBlob \<noteq> []" using n by (simp add: length_kShStrTabBlob)
  ultimately have z: "0 \<in> set (drop (unat n) kShStrTabBlob)" by (metis last_in_set)
  have un: "unat (ucast n :: u64) = unat n" by (rule unat_ucast_up) simp
  have nl: "\<not> (ucast n :: u64) \<ge> 42" using n un by (simp add: word_le_nat_alt)
  have fit: "rangeFits strOff 42 (length f)" using b by (simp add: rangeFits_iff)
  have idx: "ucast ((ucast (1 :: u16) :: u32) * 64) = (64 :: u64)" by simp
  show ?thesis
    unfolding resolveShdrName_def h Let_def idx flds bind_res.simps blob_name_def
    using nl fit w z by simp
qed


subsection \<open>The file header fields\<close>

lemma write_shdr_fields_Inr:
  "write_shdr_fields b s = Inr f \<longleftrightarrow> 64 \<le> length b
    \<and> f = blit (blit b 40 (le_bytes 8 s)) 58 (le_bytes 2 (64 :: u16) @ le_bytes 2 (6 :: u16) @ le_bytes 2 (1 :: u16))"
proof -
  have "write_shdr_fields b s = Inr f \<longleftrightarrow> 64 \<le> length b \<and> write_shdr_fields b s = Inr f"
    by (auto simp: write_shdr_fields_def bind_res_Inr_iff bw16.wr_Inr bw64.wr_Inr length_blit)
  also have "\<dots> \<longleftrightarrow> 64 \<le> length b
    \<and> f = blit (blit b 40 (le_bytes 8 s)) 58 (le_bytes 2 (64 :: u16) @ le_bytes 2 (6 :: u16) @ le_bytes 2 (1 :: u16))"
    by (rule conj_cong [OF refl])
      (auto simp: write_shdr_fields_def bind_res_Inr_iff bw16.wr_Inr bw64.wr_Inr length_blit blit_join)
  finally show ?thesis .
qed

text \<open>\<open>f\<close> has the file header of \<open>buf\<close> except for the section table fields.\<close>

definition same_header :: "bytes \<Rightarrow> bytes \<Rightarrow> bool" where
  "same_header buf f \<longleftrightarrow> 64 \<le> length buf \<and> length buf \<le> length f
     \<and> (\<forall>i < 64. i < 40 \<or> 48 \<le> i \<and> i < 58 \<longrightarrow> f ! i = buf ! i)"

lemma same_header_readAt:
  assumes "same_header buf f" and "unat off + n \<le> 40 \<or> 48 \<le> unat off \<and> unat off + n \<le> 58"
  shows "readAt n f off = (readAt n buf off :: 'a::len word res)"
proof -
  have l: "64 \<le> length buf" "length buf \<le> length f"
    and e: "\<And>i. i < 64 \<Longrightarrow> i < 40 \<or> 48 \<le> i \<and> i < 58 \<Longrightarrow> f ! i = buf ! i"
    using assms(1) by (auto simp: same_header_def)
  have "subbytes f (unat off) n = subbytes buf (unat off) n"
  proof (rule nth_equalityI)
    show "length (subbytes f (unat off) n) = length (subbytes buf (unat off) n)"
      using assms(2) l by (auto simp: layout_simps)
  next
    fix i assume "i < length (subbytes f (unat off) n)"
    then have "i < n" using assms(2) l by (auto simp: layout_simps)
    then show "subbytes f (unat off) n ! i = subbytes buf (unat off) n ! i"
      using assms(2) l e [of "unat off + i"] by (auto simp: layout_simps)
  qed
  moreover have "n < 2 ^ 64" using assms(2) by auto
  then have "readAt n b off = Inr (le_word (subbytes b (unat off) n) :: 'a word)" if "64 \<le> length b" for b
    using that assms(2) by (auto simp: readAt_Inr)
  ultimately show ?thesis using l by simp
qed

lemma same_header_identity:
  assumes "same_header buf f"
  shows "check_identity f = check_identity buf"
proof -
  have e: "i < 40 \<Longrightarrow> f ! i = buf ! i" for i using assms by (auto simp: same_header_def)
  have l: "\<not> length f < 0x40" "\<not> length buf < 0x40" using assms by (auto simp: same_header_def)
  have m: "formatMagic f = formatMagic buf"
    unfolding formatMagic_def by (rule arg_cong [where f = concat], rule map_cong) (auto simp: e)
  have e': "f ! 0 = buf ! 0" "f ! 1 = buf ! 1" "f ! 2 = buf ! 2" "f ! 3 = buf ! 3" "f ! 4 = buf ! 4"
    "f ! 5 = buf ! 5" "f ! 6 = buf ! 6"
    by (simp_all add: e)
  have r: "readU32At f 0 = readU32At buf 0" "readU16At f 0x12 = readU16At buf 0x12"
    "readU32At f 0x14 = readU32At buf 0x14" "readU16At f 0x34 = readU16At buf 0x34"
    unfolding readU32At_def readU16At_def by (rule same_header_readAt [OF assms]; simp)+
  show ?thesis
    unfolding check_identity_def ValidateMagic_def r m e' using l by (simp only: if_False)
qed

lemma same_header_ReadHeader:
  assumes s: "same_header buf f" and h: "ReadHeader buf = Inr h"
    and f: "readU64At f 0x28 = Inr shOff" "readU16At f 0x3a = Inr 64" "readU16At f 0x3c = Inr 6" "readU16At f 0x3e = Inr 1"
  shows "ReadHeader f = Inr (h\<lparr>eh_SectionHeaderOffset := shOff, eh_SectionHeaderEntrySize := 64,
    eh_SectionHeaderCount := 6, eh_SectionHeaderStringIndex := 1\<rparr>)"
proof -
  have r: "readU16At f 0x12 = readU16At buf 0x12" "readU16At f 0x10 = readU16At buf 0x10"
    "readU64At f 0x18 = readU64At buf 0x18" "readU64At f 0x20 = readU64At buf 0x20"
    "readU16At f 0x36 = readU16At buf 0x36" "readU16At f 0x38 = readU16At buf 0x38"
    unfolding readU64At_def readU16At_def by (rule same_header_readAt [OF s]; simp)+
  have b: "readU8At f 0x07 = readU8At buf 0x07" "readU8At f 0x08 = readU8At buf 0x08"
    using s by (auto simp: readU8At_def same_header_def)
  from h show ?thesis
    unfolding ReadHeader_def same_header_identity [OF s] r b f
    by (auto simp: bind_res_Inr_iff)
qed

lemma read_shdr_table_eq:
  assumes "\<And>i. i < n \<Longrightarrow> read_shdr f h (off + of_nat i * ucast (eh_SectionHeaderEntrySize h)) = Inr (shs ! i)"
    and "length shs = n"
  shows "read_shdr_table f h off n = Inr shs"
  using assms
proof (induction n arbitrary: off shs)
  case 0
  then show ?case by simp
next
  case (Suc n)
  then obtain sh ss where s: "shs = sh # ss" by (cases shs) auto
  have "read_shdr_table f h (off + ucast (eh_SectionHeaderEntrySize h)) n = Inr ss"
  proof (rule Suc.IH)
    fix i assume "i < n"
    then show "read_shdr f h (off + ucast (eh_SectionHeaderEntrySize h) + of_nat i * ucast (eh_SectionHeaderEntrySize h)) = Inr (ss ! i)"
      using Suc.prems(1) [of "Suc i"] s by (simp add: algebra_simps)
  qed (use Suc.prems(2) s in simp)
  moreover have "read_shdr f h off = Inr sh" using Suc.prems(1) [of 0] s by simp
  ultimately show ?case using s by simp
qed


subsection \<open>The whole table\<close>

text \<open>\<open>a\<close> is where the load segment of the table at \<open>index\<close> maps the section.\<close>

definition section_at :: "bytes \<Rightarrow> phdr_table_info \<Rightarrow> u64 \<Rightarrow> u64 \<Rightarrow> u64 \<Rightarrow> nat \<Rightarrow> bool" where
  "section_at buf t off len a index \<longleftrightarrow>
     (\<exists>start extent address. let header = unat (pt_Offset t + of_nat (index * unat (pt_Stride t))) in
        ReadU32 buf header = Inr PT_LOAD \<and> ReadU64 buf (header + 8) = Inr start
        \<and> ReadU64 buf (header + 32) = Inr extent \<and> ReadU64 buf (header + 16) = Inr address
        \<and> start \<le> off \<and> unat off + unat len \<le> unat start + unat extent
        \<and> unat a = unat address + (unat off - unat start) \<and> unat a + unat len < 2 ^ 64)"

lemma segment_address_Some:
  assumes "segment_address buf t off len index = Inr (Some a)"
  shows "section_at buf t off len a index"
proof -
  let ?h = "unat (pt_Offset t + of_nat (index * unat (pt_Stride t)))"
  from assms obtain start extent address where
      r: "ReadU32 buf ?h = Inr PT_LOAD" "ReadU64 buf (?h + 8) = Inr start"
        "ReadU64 buf (?h + 32) = Inr extent" "ReadU64 buf (?h + 16) = Inr address"
    and o: "start \<le> off" "off - start \<le> extent" "len \<le> extent - (off - start)"
    and n: "off - start \<le> u64_max - address" "len \<le> u64_max - (address + (off - start))"
    and a: "a = address + (off - start)"
    unfolding segment_address_def Let_def
    by (auto simp: bind_res_Inr_iff not_less split: if_split_asm)
  have p: "unat off + unat len \<le> unat start + unat extent"
    using o by (simp add: word_le_nat_alt unat_sub_le)
  have q: "unat a = unat address + (unat off - unat start)"
    using unat_add_no_wrap [OF n(1)] o(1) by (simp add: a unat_sub_le add.commute)
  have s: "unat a + unat len < 2 ^ 64"
    using n(2) unfolding a [symmetric] no_wrap_iff len_of_numeral_64 by linarith
  show ?thesis unfolding section_at_def Let_def
    by (intro exI [of _ start] exI [of _ extent] exI [of _ address] conjI r o(1) p q s)
qed

lemma mapped_by_Inr:
  "mapped_by buf t off len is = Inr a \<Longrightarrow> \<exists>index \<in> set is. section_at buf t off len a index"
  by (induction "is") (auto simp: bind_res_Inr_iff dest: segment_address_Some split: option.splits)

lemma mappedAddress_Inr:
  assumes "mappedAddress buf t (off, len) = Inr a"
  shows "unat off + unat len \<le> length buf \<and> (len > 0 \<longrightarrow> kElfHeaderSize \<le> off)
    \<and> mapped_by buf t off len [0..<unat (pt_Count t)] = Inr a"
  using assms by (auto simp: mappedAddress_def not_less split: if_splits)

lemma WriteTable_Inr:
  assumes "WriteTable buf req = Inr f" and len: "length buf < 2 ^ 63"
  obtains t addresses shOff where "output_phdr_table buf = Inr t"
    and "check_overlaps (allocated_sections req) = Inr ()"
    and "map_res (mappedAddress buf t) (allocated_sections req) = Inr addresses"
    and "same_header buf f" and "shOff + 384 = length f" and "length buf + 42 \<le> shOff" and "length f < 2 ^ 64"
    and "readU64At f 0x28 = Inr (of_nat shOff)" and "readU16At f 0x3a = Inr 64"
    and "readU16At f 0x3c = Inr 6" and "readU16At f 0x3e = Inr 1"
    and "subbytes f (length buf) 42 = kShStrTabBlob"
    and "\<And>i. i < 6 \<Longrightarrow> subbytes f (shOff + i * 64) 64
      = shdr_bytes (section_headers_of req addresses (of_nat (length buf)) ! i)"
proof -
  from assms(1) obtain t addresses b1 b3 where t: "output_phdr_table buf = Inr t"
    and c': "\<exists>u. check_overlaps (allocated_sections req) = Inr u"
    and m: "map_res (mappedAddress buf t) (allocated_sections req) = Inr addresses"
    and al: "AlignBuffer (buf @ kShStrTabBlob) 8 = Inr b1"
    and fo: "fold_res (\<lambda>index b. writeSectionHeader b (length b1 + index * 64)
        (section_headers_of req addresses (of_nat (length buf)) ! index)) [0..<6]
        (resize_to (length b1 + 64 * 6) b1) = Inr b3"
    and w: "write_shdr_fields b3 (of_nat (length b1)) = Inr f"
    unfolding WriteTable_def Let_def bind_res_Inr_iff
    by blast
  have c: "check_overlaps (allocated_sections req) = Inr ()" using c' by simp
  have l64: "64 \<le> length buf"
    using t by (auto simp: output_phdr_table_def not_less split: if_splits)
  let ?b2 = "resize_to (length b1 + 384) b1"
  note tw = shdrs.table_Inr [OF fo, simplified]
  have l3: "length b3 = length b1 + 384" using tw by (simp add: table_written_def)
  note ff = w [unfolded write_shdr_fields_Inr, THEN conjunct2]
  have lf: "length f = length b1 + 384" unfolding ff using l3 l64 w
    by (simp add: length_blit write_shdr_fields_Inr)
  obtain n where n: "AlignUp (of_nat (length buf + 42)) 8 = Inr n" and b1: "b1 = resize_to (unat n) (buf @ kShStrTabBlob)"
    using al by (auto simp: AlignBuffer_def bind_res_Inr_iff length_kShStrTabBlob)
  have u: "unat (of_nat (length buf + 42) :: u64) = length buf + 42"
    using len by (intro unat_of_nat_small) simp
  have nb: "length buf + 42 \<le> unat n" "unat n < length buf + 50"
    using AlignUp_Inr_bounds(2,3) [OF n] u by simp_all
  define pad where "pad = replicate (unat n - (length buf + 42)) (0 :: u8)"
  have b1': "b1 = buf @ kShStrTabBlob @ pad"
    using b1 nb by (simp add: resize_to_grow length_kShStrTabBlob pad_def)
  have lb1: "length b1 = unat n" using b1 by simp
  have b2: "?b2 = b1 @ replicate 384 0" by (simp add: resize_to_grow)
  have b3: "b3 ! j = b1 ! j" if "j < length b1" for j
    using tw that by (simp add: table_written_def b2 nth_append)
  have fb: "f ! j = b3 ! j" if "j < 40 \<or> 48 \<le> j \<and> j < 58 \<or> 64 \<le> j" "j < length b3" for j
    unfolding ff using that l3 lb1 nb l64 by (auto simp: nth_blit length_blit)
  have sub: "subbytes f p n = subbytes b3 p n" if "64 \<le> p" "p + n \<le> length b3" for p n
    by (rule nth_equalityI) (use that lf l3 fb in \<open>auto simp: layout_simps\<close>)
  have hd: "f ! i = buf ! i" if "i < 64" "i < 40 \<or> 48 \<le> i \<and> i < 58" for i
    using fb [of i] b3 [of i] that l3 lb1 nb l64 by (auto simp: b1' nth_append)
  show thesis
  proof (rule that [OF t c m, of "length b1"])
    show "same_header buf f"
      unfolding same_header_def using l64 lf lb1 nb hd by simp
    show "length b1 + 384 = length f" "length buf + 42 \<le> length b1" "length f < 2 ^ 64"
      using lf lb1 nb len by simp_all
    have r: "unat (of_nat k :: u64) = k" if "k < 64" for k using that by (intro unat_of_nat_small) simp
    have s40: "subbytes f 40 8 = le_bytes 8 (of_nat (length b1) :: u64)"
      unfolding ff using l3 subbytes_blit_same [of 40 "le_bytes 8 (of_nat (length b1) :: u64)" b3]
      by (subst subbytes_blit_other) (simp_all add: length_blit)
    have s58: "subbytes f 58 6 = le_bytes 2 (64 :: u16) @ le_bytes 2 (6 :: u16) @ le_bytes 2 (1 :: u16)"
      unfolding ff using l3 subbytes_blit_same [of 58 "le_bytes 2 (64 :: u16) @ le_bytes 2 (6 :: u16) @ le_bytes 2 (1 :: u16)"
        "blit b3 40 (le_bytes 8 (of_nat (length b1) :: u64))"] by (simp add: length_blit)
    have s: "subbytes f 58 2 = le_bytes 2 (64 :: u16)" "subbytes f 60 2 = le_bytes 2 (6 :: u16)"
      "subbytes f 62 2 = le_bytes 2 (1 :: u16)"
      using subbytes_sub [of 0 2 6 f 58] subbytes_sub [of 2 2 6 f 58] subbytes_sub [of 4 2 6 f 58]
      unfolding s58 by (simp_all add: subbytes_def)
    show "readU64At f 0x28 = Inr (of_nat (length b1))" "readU16At f 0x3a = Inr 64"
      "readU16At f 0x3c = Inr 6" "readU16At f 0x3e = Inr 1"
      unfolding read_word_Inr using s40 s lf l3 by (simp_all add: le_word_le_bytes)
    have "subbytes f (length buf) 42 = subbytes b3 (length buf) 42"
      using l64 l3 lb1 nb by (intro sub) simp_all
    also have "\<dots> = kShStrTabBlob"
      by (rule nth_equalityI)
        (use l3 lb1 nb b3 b1' in \<open>auto simp: layout_simps length_kShStrTabBlob nth_append\<close>)
    finally show "subbytes f (length buf) 42 = kShStrTabBlob" .
    fix i :: nat assume i: "i < 6"
    have "subbytes f (length b1 + i * 64) 64 = subbytes b3 (length b1 + i * 64) 64"
      using i l64 l3 lb1 nb by (intro sub) simp_all
    then show "subbytes f (length b1 + i * 64) 64
        = shdr_bytes (section_headers_of req addresses (of_nat (length buf)) ! i)"
      using tw i by (simp add: table_written_def)
  qed
qed


lemma ReadSectionHeaders_written:
  assumes h: "ReadHeader f = Inr h" and "eh_SectionHeaderEntrySize h = 64" and "eh_SectionHeaderCount h = 6"
    and "eh_SectionHeaderStringIndex h = 1" and "eh_SectionHeaderOffset h = of_nat shOff"
    and fit: "shOff + 384 = length f" "length f < 2 ^ 64"
    and hs: "length hs = 6" "\<And>i. i < 6 \<Longrightarrow> subbytes f (shOff + i * 64) 64 = shdr_bytes (hs ! i)"
    and ok: "\<And>i. i < 6 \<Longrightarrow> shdr_readable f (hs ! i)" and nm: "\<And>i. i < 6 \<Longrightarrow> unat (sa_NameOff (hs ! i)) < 42"
    and str: "sa_Type (hs ! 1) = SHT_STRTAB" "sa_FileOffset (hs ! 1) = strOff" "sa_Size (hs ! 1) = 42"
    and blob: "unat strOff + 42 \<le> length f" "subbytes f (unat strOff) 42 = kShStrTabBlob"
  shows "ReadSectionHeaders f = Inr (map (\<lambda>a. shdr_of_args a (blob_name (unat (sa_NameOff a)))) hs)"
proof -
  have us: "unat (of_nat shOff :: u64) = shOff" using fit by (intro unat_of_nat_small) simp
  have ui: "unat (of_nat shOff + of_nat i * 64 :: u64) = shOff + i * 64" if "i < 6" for i
  proof -
    have "unat (of_nat (shOff + i * 64) :: u64) = shOff + i * 64"
      using fit that by (intro unat_of_nat_small) simp
    then show ?thesis by simp
  qed
  have rd: "read_shdr f h (of_nat shOff + of_nat i * 64)
      = Inr (shdr_of_args (hs ! i) (blob_name (unat (sa_NameOff (hs ! i)))))" if i: "i < 6" for i
  proof (rule read_shdr_written)
    show "unat (of_nat shOff + of_nat i * 64 :: u64) + 64 \<le> length f" unfolding ui [OF i] using i fit by simp
    show "length f < 2 ^ 64" by (rule fit)
    show "subbytes f (unat (of_nat shOff + of_nat i * 64 :: u64)) 64 = shdr_bytes (hs ! i)"
      unfolding ui [OF i] by (rule hs(2) [OF i])
    show "shdr_readable f (hs ! i)" by (rule ok [OF i])
    show "resolveShdrName f (sa_NameOff (hs ! i)) h = Inr (blob_name (unat (sa_NameOff (hs ! i))))"
    proof (rule resolve_blob_name [where shOff = "of_nat shOff" and a = "hs ! 1" and strOff = strOff])
      show "unat (of_nat shOff :: u64) + 128 \<le> length f" unfolding us using fit by simp
      show "subbytes f (unat (of_nat shOff :: u64) + 64) 64 = shdr_bytes (hs ! 1)"
        unfolding us using hs(2) [of 1] by simp
    qed (use assms nm [OF i] in simp_all)
  qed
  have tab: "read_shdr_table f h (of_nat shOff) 6
      = Inr (map (\<lambda>a. shdr_of_args a (blob_name (unat (sa_NameOff a)))) hs)"
    by (rule read_shdr_table_eq) (use rd hs(1) assms(2) in simp_all)
  have fits: "rangeFits (of_nat shOff) 384 (length f)" unfolding rangeFits_iff us using fit by simp
  show ?thesis unfolding ReadSectionHeaders_def h
    using assms(2-5) tab fits by (simp add: Let_def word_le_nat_alt)
qed

lemma section_headers_readable:
  assumes "map_res (mappedAddress buf t) (allocated_sections req) = Inr addresses"
    and "length buf + 42 \<le> length f" and "length buf < 2 ^ 63" and "i < 6"
  shows "shdr_readable f (section_headers_of req addresses (of_nat (length buf)) ! i)"
proof -
  have fit: "unat off + unat len \<le> length buf" if "(off, len) \<in> set (allocated_sections req)" for off len
  proof -
    from that obtain k where "k < length (allocated_sections req)" "allocated_sections req ! k = (off, len)"
      by (auto simp: in_set_conv_nth)
    from map_res_nth [OF assms(1) this(1)] this(2) show ?thesis using mappedAddress_Inr by metis
  qed
  have r: "rangeFits off len (length f)" if "(off, len) \<in> set (allocated_sections req)" for off len
    using fit [OF that] assms(2) by (simp add: rangeFits_iff)
  have l: "unat (of_nat (length buf) :: u64) = length buf"
    using assms(3) by (intro unat_of_nat_small) simp
  have s: "rangeFits (of_nat (length buf)) (of_nat (length kShStrTabBlob)) (length f)"
    unfolding rangeFits_iff l length_kShStrTabBlob using assms(2) by simp
  have b: "has_single_bit 8" by code_simp
  have "i = 0 \<or> i = 1 \<or> i = 2 \<or> i = 3 \<or> i = 4 \<or> i = 5" using assms(4) by linarith
  then show ?thesis
    by (elim disjE) (simp_all add: section_headers_of_def shdr_readable_def s b r allocated_sections_def)
qed

definition section_names :: "string list" where
  "section_names = [[], ''.shstrtab'', ''.dynstr'', ''.dynsym'', ''.dynamic'', ''.text'']"

lemma WriteTable_read_back:
  assumes w: "WriteTable buf req = Inr f" and h: "ReadHeader buf = Inr h" and len: "length buf < 2 ^ 63"
  shows "\<exists>t addresses. output_phdr_table buf = Inr t
    \<and> map_res (mappedAddress buf t) (allocated_sections req) = Inr addresses
    \<and> ReadSectionHeaders f = Inr (map2 shdr_of_args (section_headers_of req addresses (of_nat (length buf))) section_names)"
  using w len
proof (rule WriteTable_Inr)
  fix t addresses shOff
  let ?hs = "section_headers_of req addresses (of_nat (length buf))"
  assume t: "output_phdr_table buf = Inr t"
    and m: "map_res (mappedAddress buf t) (allocated_sections req) = Inr addresses"
    and sh: "same_header buf f" and fit: "shOff + 384 = length f" "length buf + 42 \<le> shOff" "length f < 2 ^ 64"
    and flds: "readU64At f 0x28 = Inr (of_nat shOff)" "readU16At f 0x3a = Inr 64" "readU16At f 0x3c = Inr 6" "readU16At f 0x3e = Inr 1"
    and blob: "subbytes f (length buf) 42 = kShStrTabBlob"
    and tab: "\<And>i. i < 6 \<Longrightarrow> subbytes f (shOff + i * 64) 64 = shdr_bytes (?hs ! i)"
  have l: "unat (of_nat (length buf) :: u64) = length buf" using len by (intro unat_of_nat_small) simp
  have n: "unat (sa_NameOff (?hs ! i)) < 42" if "i < 6" for i
  proof -
    have "i = 0 \<or> i = 1 \<or> i = 2 \<or> i = 3 \<or> i = 4 \<or> i = 5" using that by linarith
    then show ?thesis by (elim disjE) (simp_all add: section_headers_of_def)
  qed
  have "ReadSectionHeaders f = Inr (map (\<lambda>a. shdr_of_args a (blob_name (unat (sa_NameOff a)))) ?hs)"
  proof (rule ReadSectionHeaders_written [OF same_header_ReadHeader [OF sh h flds] _ _ _ _ fit(1,3) _ tab _ n,
        where strOff = "of_nat (length buf)"])
    show "\<And>i. i < 6 \<Longrightarrow> shdr_readable f (?hs ! i)"
      by (rule section_headers_readable [OF m _ len]) (use fit in simp_all)
  qed (use fit blob l in \<open>simp_all add: section_headers_of_def length_kShStrTabBlob\<close>)
  also have "map (\<lambda>a. shdr_of_args a (blob_name (unat (sa_NameOff a)))) ?hs = map2 shdr_of_args ?hs section_names"
    by (simp add: section_headers_of_def section_names_def blob_names blob_names(2) [unfolded One_nat_def])
  finally show ?thesis using t m by blast
qed


text \<open>Once the checks pass, the table can always be written.\<close>

lemma WriteTable_ok:
  assumes "output_phdr_table buf = Inr t" and "check_overlaps (allocated_sections req) = Inr ()"
    and "map_res (mappedAddress buf t) (allocated_sections req) = Inr addresses"
    and "64 \<le> length buf" and "length buf < 2 ^ 63"
  shows "\<exists>f. WriteTable buf req = Inr f"
proof -
  have u: "unat (of_nat (length buf + 42) :: u64) = length buf + 42"
    using assms(5) by (intro unat_of_nat_small) simp
  obtain n where n: "AlignUp (of_nat (length buf + 42)) 8 = Inr n"
    using AlignUp_ok [of 8 "of_nat (length buf + 42)"] u assms(5) by auto
  define b1 where "b1 = resize_to (unat n) (buf @ kShStrTabBlob)"
  have al: "AlignBuffer (buf @ kShStrTabBlob) 8 = Inr b1"
    using n by (simp add: AlignBuffer_def length_kShStrTabBlob b1_def)
  obtain b3 where fo: "fold_res (\<lambda>index b. writeSectionHeader b (length b1 + index * 64)
      (section_headers_of req addresses (of_nat (length buf)) ! index)) [0..<6] (resize_to (length b1 + 64 * 6) b1) = Inr b3"
    and l3: "length b3 = length b1 + 64 * 6"
    using shdrs.table_ok [of 64 "length b1" 6 "resize_to (length b1 + 64 * 6) b1"
        "section_headers_of req addresses (of_nat (length buf))"] by auto
  have "write_shdr_fields b3 (of_nat (length b1))
      = Inr (blit (blit b3 40 (le_bytes 8 (of_nat (length b1) :: u64))) 58 (le_bytes 2 (64 :: u16) @ le_bytes 2 (6 :: u16) @ le_bytes 2 (1 :: u16)))"
    using l3 by (simp add: write_shdr_fields_Inr)
  then show ?thesis
    unfolding WriteTable_def assms(1-3) Let_def bind_res.simps al fo by blast
qed

subsection \<open>A concrete output\<close>

text \<open>A file header, one \<open>PT_LOAD\<close> that maps the whole file at \<open>0x1000\<close>, and 40 bytes of contents.\<close>

definition table_sample :: bytes where
  "table_sample =
    [127, 69, 76, 70, 2, 1, 1, 0, 0, 0, 0, 0, 0, 0, 0, 0, 3, 0, 62, 0, 1, 0, 0, 0, 0, 0,
     0, 0, 0, 0, 0, 0, 64, 0, 0, 0, 0, 0, 0, 0, 0, 0, 0, 0, 0, 0, 0, 0, 0, 0, 0, 0, 64,
     0, 56, 0, 1, 0, 64, 0, 0, 0, 0, 0, 1, 0, 0, 0, 5, 0, 0, 0, 0, 0, 0, 0, 0, 0, 0, 0,
     0, 16, 0, 0, 0, 0, 0, 0, 0, 16, 0, 0, 0, 0, 0, 0, 160, 0, 0, 0, 0, 0, 0, 0, 160, 0, 0,
     0, 0, 0, 0, 0, 0, 16, 0, 0, 0, 0, 0, 0] @ replicate 40 0"

definition table_sample_request :: section_request where
  "table_sample_request = \<lparr>sr_DynStrOffset = 120, sr_DynStrSize = 8, sr_DynSymOffset = 128,
     sr_DynSymSize = 8, sr_DynamicSegmentOffset = 136, sr_DynamicSegmentSize = 16,
     sr_StubOffset = 152, sr_StubSize = 8\<rparr>"

definition table_sample_info :: phdr_table_info where
  "table_sample_info = \<lparr>pt_Offset = 64, pt_Count = 1, pt_Stride = 56, pt_End = 120\<rparr>"

lemma table_sample_checks:
  "output_phdr_table table_sample = Inr table_sample_info"
  "check_overlaps (allocated_sections table_sample_request) = Inr ()"
  "map_res (mappedAddress table_sample table_sample_info) (allocated_sections table_sample_request)
    = Inr [0x1078, 0x1080, 0x1088, 0x1098]"
  by code_simp+

lemma table_sample_header: "\<exists>h. ReadHeader table_sample = Inr h"
proof -
  have "map_sum id eh_ProgramHeaderOffset (ReadHeader table_sample) = Inr 64" by code_simp
  then show ?thesis by (cases "ReadHeader table_sample") auto
qed

lemma table_sample_written: "\<exists>f. WriteTable table_sample table_sample_request = Inr f"
  by (rule WriteTable_ok [OF table_sample_checks]) (simp_all add: table_sample_def)

subsection \<open>Properties\<close>

text \<open>
  C35: the section header table is readable: after \<open>WriteTable\<close>, \<open>ElfReader::ReadSectionHeaders\<close>
  returns exactly the six sections with the names \<open>.shstrtab\<close>, \<open>.dynstr\<close>, \<open>.dynsym\<close>,
  \<open>.dynamic\<close> and \<open>.text\<close> after the null section, whatever valid ELF file it was added to.
\<close>

theorem section_table_roundtrip:
  assumes "WriteTable buf req = Inr f" and "ReadHeader buf = Inr h" and "length buf < 2 ^ 63"
  shows "\<exists>t addresses. output_phdr_table buf = Inr t
    \<and> map_res (mappedAddress buf t) (allocated_sections req) = Inr addresses
    \<and> ReadSectionHeaders f = Inr (map2 shdr_of_args (section_headers_of req addresses (of_nat (length buf)))
        [[], ''.shstrtab'', ''.dynstr'', ''.dynsym'', ''.dynamic'', ''.text''])"
  using WriteTable_read_back [OF assms] unfolding section_names_def .

text \<open>
  C36: an accepted output section lies inside the file and behind the file header, its address is
  the one its load segment gives its offset, and its memory does not wrap.
\<close>

theorem section_addresses_sound:
  assumes "mappedAddress buf t (off, len) = Inr a"
  shows "unat off + unat len \<le> length buf \<and> (len > 0 \<longrightarrow> 64 \<le> off)
    \<and> (\<exists>index < unat (pt_Count t). section_at buf t off len a index)"
  using mappedAddress_Inr [OF assms] mapped_by_Inr by fastforce

text \<open>
  non-empty output sections that pass the overlap check have disjoint byte ranges in the
  file.
\<close>

theorem output_sections_disjoint:
  assumes "check_overlaps ss = Inr ()" and "i < j" and "j < length ss"
    and "\<forall>(off, len) \<in> set ss. unat off + unat len < 2 ^ 64"
    and "snd (ss ! i) \<noteq> 0" and "snd (ss ! j) \<noteq> 0"
  shows "unat (fst (ss ! i)) + unat (snd (ss ! i)) \<le> unat (fst (ss ! j))
    \<or> unat (fst (ss ! j)) + unat (snd (ss ! j)) \<le> unat (fst (ss ! i))"
proof -
  have nc: "\<not> sections_clash (ss ! i) (ss ! j)"
    using assms(1-3)
  proof (induction ss arbitrary: i j)
    case Nil
    then show ?case by simp
  next
    case (Cons a ss)
    then show ?case by (cases i) (auto simp: list_ex_iff nth_Cons' split: if_splits)
  qed
  have s: "unat (fst (ss ! k) + snd (ss ! k)) = unat (fst (ss ! k)) + unat (snd (ss ! k))" if "k < length ss" for k
    using assms(4) nth_mem [OF that] by (cases "ss ! k") (auto simp: unat_word_ariths)
  show ?thesis using nc assms(2,3,5,6) s [of i] s [of j]
    by (auto simp: sections_clash_def word_less_nat_alt not_less)
qed

lemma section_table_roundtrip_witness:
  "\<exists>f. WriteTable table_sample table_sample_request = Inr f
    \<and> map_sum id (map sh_Name) (ReadSectionHeaders f)
      = Inr [[], ''.shstrtab'', ''.dynstr'', ''.dynsym'', ''.dynamic'', ''.text'']"
proof -
  obtain f h where f: "WriteTable table_sample table_sample_request = Inr f"
    and h: "ReadHeader table_sample = Inr h"
    using table_sample_written table_sample_header by blast
  have "length table_sample < 2 ^ 63" by (simp add: table_sample_def)
  from section_table_roundtrip [OF f h this] f show ?thesis
    by (auto simp: section_headers_of_def shdr_of_args_def)
qed

lemma section_addresses_sound_witness:
  "section_at table_sample table_sample_info 120 8 0x1078 0"
proof -
  have "mappedAddress table_sample table_sample_info (120, 8) = Inr 0x1078" by code_simp
  from section_addresses_sound [OF this] show ?thesis by (auto simp: table_sample_info_def)
qed

lemma output_sections_disjoint_witness: "unat (120 :: u64) + 8 \<le> unat (152 :: u64)"
  using output_sections_disjoint [OF table_sample_checks(2), of 0 3]
  by (simp add: allocated_sections_def table_sample_request_def)

end
