(* ===== verification/Entry_Stub.thy ===== *)
theory Entry_Stub
  imports Elf_Types Byte_IO
begin

text \<open>
  \<open>SignedDistance\<close> (\<open>AddressDistance.hpp\<close>) and \<open>EntryStubBuilder\<close>
  (\<open>elfpatcher/src/general/EntryStubBuilder.cpp\<close>): the code the output's entry point runs
  before the guest's. A signed 64-bit value is the word with its bits, read by \<open>sint\<close>.
\<close>

subsection \<open>Distances between addresses\<close>

abbreviation (input) kSignBoundary :: u64 where "kSignBoundary \<equiv> 0x8000000000000000"

definition SignedDistance :: "u64 \<Rightarrow> u64 \<Rightarrow> u64 option" where
  "SignedDistance target base =
     (if (target < kSignBoundary) = (base < kSignBoundary) then Some (target - base)
      else let high = (if target < kSignBoundary then base else target);
               low = (if target < kSignBoundary then target else base);
               magnitude = high - low
        in if magnitude \<ge> kSignBoundary then None
           else Some (if high = target then magnitude else - magnitude))"

subsection \<open>The stub\<close>

text \<open>The \<open>appendRel32\<close> lambda.\<close>

definition appendRel32 :: "u64 \<Rightarrow> u64 \<Rightarrow> bytes \<Rightarrow> bytes res" where
  "appendRel32 stubVaddr target s =
     (let nextVaddr = stubVaddr + of_nat (length s) + 4
      in case SignedDistance target nextVaddr of
           None \<Rightarrow> Inl (RelinkerException ''Entry stub call exceeds rel32 range'' 0)
         | Some displacement \<Rightarrow>
             if sint displacement < - (2 ^ 31) \<or> sint displacement > 2 ^ 31 - 1
             then Inl (RelinkerException ''Entry stub call exceeds rel32 range'' 0)
             else let rel32 = (ucast displacement :: u32)
               in Inr (s @ map (\<lambda>shift. ucast (drop_bit shift rel32 AND 0xff)) [0, 8, 16, 24]))"

definition BuildEntryStub :: "u64 \<Rightarrow> u64 \<Rightarrow> u64 option \<Rightarrow> bytes res" where
  "BuildEntryStub stubVaddr realEntryVaddr mainStackEntrySlotVaddr =
     (let s = kStubOpMovRdiRsp @ kStubOpAndRsp0xf0 @ kStubOpPushZero @ kStubOpPushZero @ kStubOpMovRbpRsp
      in bind_res
          (case mainStackEntrySlotVaddr of
             Some slot \<Rightarrow>
               bind_res (appendRel32 stubVaddr realEntryVaddr (s @ kStubOpLeaRsiRip)) (\<lambda>s.
               appendRel32 stubVaddr slot (s @ kStubOpCallRipIndirect))
           | None \<Rightarrow>
               appendRel32 stubVaddr realEntryVaddr ((s @ kStubOpXorRsiRsi) @ [kStubOpCallRel32]))
          (\<lambda>s. Inr (s @ kStubOpUd2)))"

subsection \<open>Distances are exact\<close>

lemma sint_word_of_int_range:
  assumes "- (2 ^ 63) \<le> k" and "k < 2 ^ 63"
  shows "sint (word_of_int k :: u64) = k"
  using assms by (simp add: sint_sbintrunc' signed_take_bit_int_eq_self)

lemma word_minus_of_int: "x - y = (word_of_int (int (unat x) - int (unat y)) :: 'a::len word)"
  by (simp add: of_int_diff)

lemma below_sign: "w < kSignBoundary \<longleftrightarrow> unat w < 2 ^ 63"
  by (simp add: word_less_nat_alt)

lemma same_half:
  "m < 2 ^ 63 \<and> n < 2 ^ 63 \<or> 2 ^ 63 \<le> m \<and> 2 ^ 63 \<le> n \<Longrightarrow> m < 2 ^ 64 \<Longrightarrow> n < 2 ^ 64 \<Longrightarrow>
    \<bar>int m - int n\<bar> < 2 ^ 63"
  by auto

lemma nat_gap:
  "m \<le> n \<Longrightarrow> \<bar>int m - int n\<bar> < 2 ^ 63 \<longleftrightarrow> n - m < 2 ^ 63"
  "n \<le> m \<Longrightarrow> \<bar>int m - int n\<bar> < 2 ^ 63 \<longleftrightarrow> m - n < 2 ^ 63"
  by auto

lemma SignedDistance_eq:
  "SignedDistance target base =
    (if \<bar>int (unat target) - int (unat base)\<bar> < 2 ^ 63 then Some (target - base) else None)"
proof (cases "(target < kSignBoundary) = (base < kSignBoundary)")
  case True
  then have "unat target < 2 ^ 63 \<and> unat base < 2 ^ 63 \<or> 2 ^ 63 \<le> unat target \<and> 2 ^ 63 \<le> unat base"
    unfolding below_sign by linarith
  moreover have "unat target < 2 ^ 64" "unat base < 2 ^ 64"
    using unsigned_less [of target, where ?'a = nat] unsigned_less [of base, where ?'a = nat] by simp_all
  ultimately have "\<bar>int (unat target) - int (unat base)\<bar> < 2 ^ 63" by (rule same_half)
  then show ?thesis unfolding SignedDistance_def if_P [OF True] by (simp only: if_True)
next
  case False
  show ?thesis
  proof (cases "target < kSignBoundary")
    case True
    then have f: "\<not> base < kSignBoundary" using False by simp
    then have ne: "base \<noteq> target" and le: "target \<le> base" using True by auto
    have "\<bar>int (unat target) - int (unat base)\<bar> < 2 ^ 63 \<longleftrightarrow> base - target < kSignBoundary"
      using le unfolding below_sign unat_sub_le [OF le] word_le_nat_alt by (rule nat_gap(1))
    then show ?thesis using True f ne unfolding SignedDistance_def not_less [symmetric] by (simp add: Let_def)
  next
    case hi: False
    then have f: "base < kSignBoundary" using False by simp
    then have le: "base \<le> target" using hi by auto
    have "\<bar>int (unat target) - int (unat base)\<bar> < 2 ^ 63 \<longleftrightarrow> target - base < kSignBoundary"
      using le unfolding below_sign unat_sub_le [OF le] word_le_nat_alt by (rule nat_gap(2))
    then show ?thesis using hi f unfolding SignedDistance_def not_less [symmetric] by (simp add: Let_def)
  qed
qed

lemma SignedDistance_Some:
  assumes "SignedDistance target base = Some d"
  shows "d = target - base" and "sint d = int (unat target) - int (unat base)"
proof -
  from assms have r: "\<bar>int (unat target) - int (unat base)\<bar> < 2 ^ 63" and d: "d = target - base"
    by (auto simp: SignedDistance_eq split: if_splits)
  show "d = target - base" by (rule d)
  show "sint d = int (unat target) - int (unat base)"
    unfolding d word_minus_of_int [of target base] by (rule sint_word_of_int_range) (use r in linarith)+
qed

subsection \<open>The displacement is the target's\<close>

lemma sign_extend_32:
  assumes "- (2 ^ 31) \<le> sint d" and "sint d \<le> 2 ^ 31 - 1"
  shows "scast (ucast d :: u32) = (d :: u64)"
proof -
  have "sint (ucast d :: u32) = signed_take_bit 31 (sint d)"
    by (simp add: sint_uint unsigned_ucast_eq signed_take_bit_take_bit min_def)
  also have "\<dots> = sint d" using assms by (intro signed_take_bit_int_eq_self) auto
  finally show ?thesis by (simp add: scast_eq)
qed

text \<open>The target a 32-bit displacement at position \<open>pos\<close> of code at \<open>base\<close> refers to.\<close>

definition rel32_target :: "u64 \<Rightarrow> bytes \<Rightarrow> nat \<Rightarrow> u64" where
  "rel32_target base s pos = base + of_nat (pos + 4) + scast (le_word (subbytes s pos 4) :: u32)"

lemma rel32_bytes:
  "map (\<lambda>shift. ucast (drop_bit shift w AND 0xff)) [0, 8, 16, 24] = (le_bytes 4 (w :: u32) :: bytes)"
  unfolding ucast_and_255 by (simp add: numeral_eq_Suc drop_bit_drop_bit)

lemma appendRel32_Inr:
  assumes "appendRel32 base target s = Inr t"
  shows "\<exists>w :: u32. t = s @ le_bytes 4 w \<and> base + of_nat (length s + 4) + scast w = target"
proof -
  from assms obtain d where d: "SignedDistance target (base + of_nat (length s) + 4) = Some d"
    and r: "- (2 ^ 31) \<le> sint d" "sint d \<le> 2 ^ 31 - 1" and t: "t = s @ le_bytes 4 (ucast d :: u32)"
    unfolding appendRel32_def rel32_bytes Let_def
    by (auto simp: not_less split: option.splits if_splits)
  have e: "scast (ucast d :: u32) = d" by (rule sign_extend_32 [OF r])
  have "base + of_nat (length s + 4) + scast (ucast d :: u32) = target"
    unfolding e unfolding SignedDistance_Some(1) [OF d] by simp
  then show ?thesis using t by blast
qed

lemma appendRel32_Inl:
  "(\<exists>e. appendRel32 base target s = Inl e) \<longleftrightarrow>
    \<not> (- (2 ^ 31) \<le> int (unat target) - int (unat (base + of_nat (length s) + 4))
       \<and> int (unat target) - int (unat (base + of_nat (length s) + 4)) < 2 ^ 31)"
proof (cases "SignedDistance target (base + of_nat (length s) + 4)")
  case None
  then have "\<not> \<bar>int (unat target) - int (unat (base + of_nat (length s) + 4))\<bar> < 2 ^ 63"
    by (metis SignedDistance_eq option.distinct(1))
  then show ?thesis using None unfolding appendRel32_def Let_def None option.case by auto
next
  case (Some d)
  then show ?thesis using SignedDistance_Some(2) [OF Some]
    unfolding appendRel32_def Let_def Some option.case by auto
qed

lemma rel32_target_append:
  "base + of_nat (length s + 4) + scast (w :: u32) = target \<Longrightarrow>
    rel32_target base (s @ le_bytes 4 w @ rest) (length s) = target"
  by (simp add: rel32_target_def subbytes_def le_word_le_bytes)

subsection \<open>Properties\<close>

text \<open>
  the signed distance of two 64-bit addresses is the mathematical one whenever its absolute
  value is below \<open>2 ^ 63\<close>, and the computation is refused otherwise.
\<close>

theorem signed_distance_exact:
  "case SignedDistance target base of
     Some d \<Rightarrow> sint d = int (unat target) - int (unat base)
   | None \<Rightarrow> 2 ^ 63 \<le> \<bar>int (unat target) - int (unat base)\<bar>"
proof (cases "SignedDistance target base")
  case None
  then have "\<not> \<bar>int (unat target) - int (unat base)\<bar> < 2 ^ 63"
    by (metis SignedDistance_eq option.distinct(1))
  then show ?thesis unfolding None option.case by linarith
next
  case (Some d)
  show ?thesis unfolding Some option.case by (rule SignedDistance_Some(2) [OF Some])
qed

text \<open>
  C37: the entry stub's branch operands lead where they should: with a main-stack slot the
  \<open>lea\<close> loads the guest's entry point and the indirect call reads the slot, without one the
  direct call goes to the guest's entry point; in both cases the operands lie at the code's
  fixed positions and the stub ends in \<open>ud2\<close>.
\<close>

theorem entry_stub_targets:
  assumes "BuildEntryStub base entry slot = Inr s"
  shows "case slot of
     None \<Rightarrow> length s = 24 \<and> s ! 17 = 0xe8 \<and> rel32_target base s 18 = entry \<and> drop 22 s = [0x0f, 0x0b]
   | Some v \<Rightarrow> length s = 29 \<and> subbytes s 14 3 = [0x48, 0x8d, 0x35] \<and> rel32_target base s 17 = entry
       \<and> subbytes s 21 2 = [0xff, 0x15] \<and> rel32_target base s 23 = v \<and> drop 27 s = [0x0f, 0x0b]"
proof -
  let ?p = "kStubOpMovRdiRsp @ kStubOpAndRsp0xf0 @ kStubOpPushZero @ kStubOpPushZero @ kStubOpMovRbpRsp"
  show ?thesis
  proof (cases slot)
    case None
    let ?q = "(?p @ kStubOpXorRsiRsi) @ [kStubOpCallRel32]"
    from assms None obtain t where t: "appendRel32 base entry ?q = Inr t" and s: "s = t @ kStubOpUd2"
      unfolding BuildEntryStub_def Let_def None option.case bind_res_Inr_iff sum.inject by blast
    from appendRel32_Inr [OF t] obtain w :: u32 where w: "t = ?q @ le_bytes 4 w"
      and e: "base + of_nat (length ?q + 4) + scast w = entry" by blast
    have "length ?q = 18" by simp
    from rel32_target_append [OF e, of kStubOpUd2, unfolded this] have "rel32_target base s 18 = entry"
      unfolding s w append_assoc .
    then show ?thesis by (simp add: None s w)
  next
    case (Some v)
    let ?q = "?p @ kStubOpLeaRsiRip"
    from assms Some obtain t u where t: "appendRel32 base entry ?q = Inr t"
      and u: "appendRel32 base v (t @ kStubOpCallRipIndirect) = Inr u" and s: "s = u @ kStubOpUd2"
      unfolding BuildEntryStub_def Let_def Some option.case bind_res_Inr_iff sum.inject by blast
    from appendRel32_Inr [OF t] obtain w :: u32 where w: "t = ?q @ le_bytes 4 w"
      and e: "base + of_nat (length ?q + 4) + scast w = entry" by blast
    from appendRel32_Inr [OF u] obtain x :: u32 where x: "u = (t @ kStubOpCallRipIndirect) @ le_bytes 4 x"
      and f: "base + of_nat (length (t @ kStubOpCallRipIndirect) + 4) + scast x = v" by blast
    have "length ?q = 17" by simp
    from rel32_target_append [OF e, of "kStubOpCallRipIndirect @ le_bytes 4 x @ kStubOpUd2", unfolded this]
    have "rel32_target base s 17 = entry" unfolding s w x append_assoc .
    moreover have "length (t @ kStubOpCallRipIndirect) = 23" by (simp add: w)
    from rel32_target_append [OF f, of kStubOpUd2, unfolded this]
    have "rel32_target base s 23 = v" unfolding s x append_assoc .
    ultimately show ?thesis by (simp add: Some s w x subbytes_def)
  qed
qed

lemma entry_stub_targets_witness:
  "\<exists>s. BuildEntryStub 0x5000 0x1000 (Some 0x6000) = Inr s \<and> rel32_target 0x5000 s 17 = 0x1000
    \<and> rel32_target 0x5000 s 23 = 0x6000"
proof -
  have "BuildEntryStub 0x5000 0x1000 (Some 0x6000) = Inr
      [0x48, 0x89, 0xe7, 0x48, 0x83, 0xe4, 0xf0, 0x6a, 0, 0x6a, 0, 0x48, 0x89, 0xe5,
       0x48, 0x8d, 0x35, 0xeb, 0xbf, 0xff, 0xff, 0xff, 0x15, 0xe5, 0x0f, 0, 0, 0x0f, 0x0b]"
    by code_simp
  from entry_stub_targets [OF this] this show ?thesis by simp
qed

end
