(* ===== verification/X64_Constants.thy ===== *)
theory X64_Constants
  imports Prelude
begin

text \<open>
  \<open>codegen/x86/X64OpcodeConstants.hpp\<close>: the opcode bytes, opcode ranges, field masks and sizes
  that the decoder and the recognisers compare with. The constants of type
  \<open>std::size_t\<close> and the shift amounts are \<open>nat\<close>, the others are bytes.
\<close>

abbreviation (input) PrefixLock :: u8 where "PrefixLock \<equiv> 0xF0"
abbreviation (input) PrefixRepne :: u8 where "PrefixRepne \<equiv> 0xF2"
abbreviation (input) PrefixRep :: u8 where "PrefixRep \<equiv> 0xF3"
abbreviation (input) PrefixSegCs :: u8 where "PrefixSegCs \<equiv> 0x2E"
abbreviation (input) PrefixSegSs :: u8 where "PrefixSegSs \<equiv> 0x36"
abbreviation (input) PrefixSegDs :: u8 where "PrefixSegDs \<equiv> 0x3E"
abbreviation (input) PrefixSegEs :: u8 where "PrefixSegEs \<equiv> 0x26"
abbreviation (input) PrefixSegFs :: u8 where "PrefixSegFs \<equiv> 0x64"
abbreviation (input) PrefixSegGs :: u8 where "PrefixSegGs \<equiv> 0x65"
abbreviation (input) PrefixOperandSize :: u8 where "PrefixOperandSize \<equiv> 0x66"
abbreviation (input) PrefixAddressSize :: u8 where "PrefixAddressSize \<equiv> 0x67"
abbreviation (input) RexMin :: u8 where "RexMin \<equiv> 0x40"
abbreviation (input) RexMax :: u8 where "RexMax \<equiv> 0x4F"
abbreviation (input) RexWBit :: u8 where "RexWBit \<equiv> 0x08"
abbreviation (input) RexBBit :: u8 where "RexBBit \<equiv> 0x01"
abbreviation (input) TwoByteOpcodeEscape :: u8 where "TwoByteOpcodeEscape \<equiv> 0x0F"
abbreviation (input) OneByteModRmRangeAMin :: u8 where "OneByteModRmRangeAMin \<equiv> 0x00"
abbreviation (input) OneByteModRmRangeAMax :: u8 where "OneByteModRmRangeAMax \<equiv> 0x03"
abbreviation (input) OneByteModRmRangeBMin :: u8 where "OneByteModRmRangeBMin \<equiv> 0x08"
abbreviation (input) OneByteModRmRangeBMax :: u8 where "OneByteModRmRangeBMax \<equiv> 0x0B"
abbreviation (input) OneByteModRmRangeCMin :: u8 where "OneByteModRmRangeCMin \<equiv> 0x10"
abbreviation (input) OneByteModRmRangeCMax :: u8 where "OneByteModRmRangeCMax \<equiv> 0x13"
abbreviation (input) OneByteModRmRangeDMin :: u8 where "OneByteModRmRangeDMin \<equiv> 0x18"
abbreviation (input) OneByteModRmRangeDMax :: u8 where "OneByteModRmRangeDMax \<equiv> 0x1B"
abbreviation (input) OneByteModRmRangeEMin :: u8 where "OneByteModRmRangeEMin \<equiv> 0x20"
abbreviation (input) OneByteModRmRangeEMax :: u8 where "OneByteModRmRangeEMax \<equiv> 0x23"
abbreviation (input) OneByteModRmRangeFMin :: u8 where "OneByteModRmRangeFMin \<equiv> 0x28"
abbreviation (input) OneByteModRmRangeFMax :: u8 where "OneByteModRmRangeFMax \<equiv> 0x2B"
abbreviation (input) OneByteModRmRangeGMin :: u8 where "OneByteModRmRangeGMin \<equiv> 0x30"
abbreviation (input) OneByteModRmRangeGMax :: u8 where "OneByteModRmRangeGMax \<equiv> 0x33"
abbreviation (input) OneByteModRmRangeHMin :: u8 where "OneByteModRmRangeHMin \<equiv> 0x38"
abbreviation (input) OneByteModRmRangeHMax :: u8 where "OneByteModRmRangeHMax \<equiv> 0x3B"
abbreviation (input) OneByteArpl :: u8 where "OneByteArpl \<equiv> 0x62"
abbreviation (input) OneByteMovsxd :: u8 where "OneByteMovsxd \<equiv> 0x63"
abbreviation (input) OneByteModRmRangeIMin :: u8 where "OneByteModRmRangeIMin \<equiv> 0x84"
abbreviation (input) OneByteModRmRangeIMax :: u8 where "OneByteModRmRangeIMax \<equiv> 0x8F"
abbreviation (input) OneByteLea :: u8 where "OneByteLea \<equiv> 0x8D"
abbreviation (input) OneByteGrp2Rm8Imm8 :: u8 where "OneByteGrp2Rm8Imm8 \<equiv> 0xC0"
abbreviation (input) OneByteGrp2RmImm8 :: u8 where "OneByteGrp2RmImm8 \<equiv> 0xC1"
abbreviation (input) OneByteVex3 :: u8 where "OneByteVex3 \<equiv> 0xC4"
abbreviation (input) OneByteVex2 :: u8 where "OneByteVex2 \<equiv> 0xC5"
abbreviation (input) OneByteMovImm8 :: u8 where "OneByteMovImm8 \<equiv> 0xC6"
abbreviation (input) OneByteMovImm32 :: u8 where "OneByteMovImm32 \<equiv> 0xC7"
abbreviation (input) OneByteShiftRm8By1 :: u8 where "OneByteShiftRm8By1 \<equiv> 0xD0"
abbreviation (input) OneByteShiftRmBy1 :: u8 where "OneByteShiftRmBy1 \<equiv> 0xD1"
abbreviation (input) OneByteShiftRm8ByCl :: u8 where "OneByteShiftRm8ByCl \<equiv> 0xD2"
abbreviation (input) OneByteShiftRmByCl :: u8 where "OneByteShiftRmByCl \<equiv> 0xD3"
abbreviation (input) OneByteTestGrp3Rm8 :: u8 where "OneByteTestGrp3Rm8 \<equiv> 0xF6"
abbreviation (input) OneByteTestGrp3Rm :: u8 where "OneByteTestGrp3Rm \<equiv> 0xF7"
abbreviation (input) OneByteIncDecRm8 :: u8 where "OneByteIncDecRm8 \<equiv> 0xFE"
abbreviation (input) OneByteGrp5Rm :: u8 where "OneByteGrp5Rm \<equiv> 0xFF"
abbreviation (input) OneByteModRmRangeJMin :: u8 where "OneByteModRmRangeJMin \<equiv> 0x88"
abbreviation (input) OneByteModRmRangeJMax :: u8 where "OneByteModRmRangeJMax \<equiv> 0x8B"
abbreviation (input) OneByteImulRm32Imm32 :: u8 where "OneByteImulRm32Imm32 \<equiv> 0x69"
abbreviation (input) OneByteImulRm32Imm8 :: u8 where "OneByteImulRm32Imm8 \<equiv> 0x6B"
abbreviation (input) OneByteX87Min :: u8 where "OneByteX87Min \<equiv> 0xD8"
abbreviation (input) OneByteX87Max :: u8 where "OneByteX87Max \<equiv> 0xDF"
abbreviation (input) OneByteImm8AluOrGrp3 :: u8 where "OneByteImm8AluOrGrp3 \<equiv> 0xC6"
abbreviation (input) OneByteImm8AluCmp :: u8 where "OneByteImm8AluCmp \<equiv> 0x80"
abbreviation (input) OneByteImm8AddAl :: u8 where "OneByteImm8AddAl \<equiv> 0x04"
abbreviation (input) OneByteImm8OrAl :: u8 where "OneByteImm8OrAl \<equiv> 0x0C"
abbreviation (input) OneByteImm8AdcAl :: u8 where "OneByteImm8AdcAl \<equiv> 0x14"
abbreviation (input) OneByteImm8SbbAl :: u8 where "OneByteImm8SbbAl \<equiv> 0x1C"
abbreviation (input) OneByteImm8AndAl :: u8 where "OneByteImm8AndAl \<equiv> 0x24"
abbreviation (input) OneByteImm8SubAl :: u8 where "OneByteImm8SubAl \<equiv> 0x2C"
abbreviation (input) OneByteImm8XorAl :: u8 where "OneByteImm8XorAl \<equiv> 0x34"
abbreviation (input) OneByteImm8CmpAl :: u8 where "OneByteImm8CmpAl \<equiv> 0x3C"
abbreviation (input) OneByteMovImm8RegMin :: u8 where "OneByteMovImm8RegMin \<equiv> 0xB0"
abbreviation (input) OneByteMovImm8RegMax :: u8 where "OneByteMovImm8RegMax \<equiv> 0xB7"
abbreviation (input) OneBytePushImm8 :: u8 where "OneBytePushImm8 \<equiv> 0x6A"
abbreviation (input) OneByteTestAlImm8 :: u8 where "OneByteTestAlImm8 \<equiv> 0xA8"
abbreviation (input) OneByteImm32AluCmp :: u8 where "OneByteImm32AluCmp \<equiv> 0x81"
abbreviation (input) OneByteImm32AddEax :: u8 where "OneByteImm32AddEax \<equiv> 0x05"
abbreviation (input) OneByteImm32OrEax :: u8 where "OneByteImm32OrEax \<equiv> 0x0D"
abbreviation (input) OneByteImm32AdcEax :: u8 where "OneByteImm32AdcEax \<equiv> 0x15"
abbreviation (input) OneByteImm32SbbEax :: u8 where "OneByteImm32SbbEax \<equiv> 0x1D"
abbreviation (input) OneByteImm32AndEax :: u8 where "OneByteImm32AndEax \<equiv> 0x25"
abbreviation (input) OneByteImm32SubEax :: u8 where "OneByteImm32SubEax \<equiv> 0x2D"
abbreviation (input) OneByteImm32XorEax :: u8 where "OneByteImm32XorEax \<equiv> 0x35"
abbreviation (input) OneByteImm32CmpEax :: u8 where "OneByteImm32CmpEax \<equiv> 0x3D"
abbreviation (input) OneBytePushImm32 :: u8 where "OneBytePushImm32 \<equiv> 0x68"
abbreviation (input) OneByteTestEaxImm32 :: u8 where "OneByteTestEaxImm32 \<equiv> 0xA9"
abbreviation (input) OneByteMovImm32RegMin :: u8 where "OneByteMovImm32RegMin \<equiv> 0xB8"
abbreviation (input) OneByteMovImm32RegMax :: u8 where "OneByteMovImm32RegMax \<equiv> 0xBF"
abbreviation (input) OneByteImm8Grp1 :: u8 where "OneByteImm8Grp1 \<equiv> 0x83"
abbreviation (input) OneByteJccRel8Min :: u8 where "OneByteJccRel8Min \<equiv> 0x70"
abbreviation (input) OneByteJccRel8Max :: u8 where "OneByteJccRel8Max \<equiv> 0x7F"
abbreviation (input) OneByteCallRel32 :: u8 where "OneByteCallRel32 \<equiv> 0xE8"
abbreviation (input) OneByteJmpRel32 :: u8 where "OneByteJmpRel32 \<equiv> 0xE9"
abbreviation (input) OneByteJmpRel8 :: u8 where "OneByteJmpRel8 \<equiv> 0xEB"
abbreviation (input) OneByteJrcxz :: u8 where "OneByteJrcxz \<equiv> 0xE3"
abbreviation (input) OneByteLoop :: u8 where "OneByteLoop \<equiv> 0xE0"
abbreviation (input) OneByteLoopMax :: u8 where "OneByteLoopMax \<equiv> 0xE2"
abbreviation (input) OneByteInOutImm8Min :: u8 where "OneByteInOutImm8Min \<equiv> 0xE4"
abbreviation (input) OneByteInOutImm8Max :: u8 where "OneByteInOutImm8Max \<equiv> 0xE7"
abbreviation (input) OneByteInt :: u8 where "OneByteInt \<equiv> 0xCD"
abbreviation (input) OneByteInt3 :: u8 where "OneByteInt3 \<equiv> 0xCC"
abbreviation (input) OneByteNop :: u8 where "OneByteNop \<equiv> 0x90"
abbreviation (input) OneByteRetImm16 :: u8 where "OneByteRetImm16 \<equiv> 0xC2"
abbreviation (input) OneByteRetFarImm16 :: u8 where "OneByteRetFarImm16 \<equiv> 0xCA"
abbreviation (input) OneByteEnter :: u8 where "OneByteEnter \<equiv> 0xC8"
abbreviation (input) OneByteMovMoffsMin :: u8 where "OneByteMovMoffsMin \<equiv> 0xA0"
abbreviation (input) OneByteMovMoffsMax :: u8 where "OneByteMovMoffsMax \<equiv> 0xA3"
abbreviation (input) TwoByteJccRel32Min :: u8 where "TwoByteJccRel32Min \<equiv> 0x80"
abbreviation (input) TwoByteJccRel32Max :: u8 where "TwoByteJccRel32Max \<equiv> 0x8F"
abbreviation (input) TwoByteMovImm8ModRm :: u8 where "TwoByteMovImm8ModRm \<equiv> 0xBA"
abbreviation (input) TwoByteCmovRangeMin :: u8 where "TwoByteCmovRangeMin \<equiv> 0x40"
abbreviation (input) TwoByteCmovRangeMax :: u8 where "TwoByteCmovRangeMax \<equiv> 0x4F"
abbreviation (input) TwoByteModRmRangeAMin :: u8 where "TwoByteModRmRangeAMin \<equiv> 0xA3"
abbreviation (input) TwoByteModRmRangeAMax :: u8 where "TwoByteModRmRangeAMax \<equiv> 0xA7"
abbreviation (input) TwoByteModRmRangeBMin :: u8 where "TwoByteModRmRangeBMin \<equiv> 0xB0"
abbreviation (input) TwoByteModRmRangeBMax :: u8 where "TwoByteModRmRangeBMax \<equiv> 0xB7"
abbreviation (input) TwoByteModRmRangeCMin :: u8 where "TwoByteModRmRangeCMin \<equiv> 0xBC"
abbreviation (input) TwoByteModRmRangeCMax :: u8 where "TwoByteModRmRangeCMax \<equiv> 0xBF"
abbreviation (input) TwoByteModRmRangeDMin :: u8 where "TwoByteModRmRangeDMin \<equiv> 0x10"
abbreviation (input) TwoByteModRmRangeDMax :: u8 where "TwoByteModRmRangeDMax \<equiv> 0x17"
abbreviation (input) TwoByteModRmRangeEMin :: u8 where "TwoByteModRmRangeEMin \<equiv> 0x28"
abbreviation (input) TwoByteModRmRangeEMax :: u8 where "TwoByteModRmRangeEMax \<equiv> 0x2F"
abbreviation (input) TwoByteModRmRangeFMin :: u8 where "TwoByteModRmRangeFMin \<equiv> 0x38"
abbreviation (input) TwoByteModRmRangeFMax :: u8 where "TwoByteModRmRangeFMax \<equiv> 0x3A"
abbreviation (input) TwoByteModRmRangeGMin :: u8 where "TwoByteModRmRangeGMin \<equiv> 0x54"
abbreviation (input) TwoByteModRmRangeGMax :: u8 where "TwoByteModRmRangeGMax \<equiv> 0x7F"
abbreviation (input) TwoByteEmms :: u8 where "TwoByteEmms \<equiv> 0x77"
abbreviation (input) TwoByteModRmRangeHMin :: u8 where "TwoByteModRmRangeHMin \<equiv> 0xD0"
abbreviation (input) TwoByteModRmRangeHMax :: u8 where "TwoByteModRmRangeHMax \<equiv> 0xFE"
abbreviation (input) TwoByteNopModRm :: u8 where "TwoByteNopModRm \<equiv> 0x1F"
abbreviation (input) TwoByteEndbr :: u8 where "TwoByteEndbr \<equiv> 0x1E"
abbreviation (input) TwoBytePrefetchGrpMin :: u8 where "TwoBytePrefetchGrpMin \<equiv> 0x18"
abbreviation (input) TwoBytePrefetchGrpMax :: u8 where "TwoBytePrefetchGrpMax \<equiv> 0x1D"
abbreviation (input) TwoByteSetccMin :: u8 where "TwoByteSetccMin \<equiv> 0x90"
abbreviation (input) TwoByteSetccMax :: u8 where "TwoByteSetccMax \<equiv> 0x9F"
abbreviation (input) TwoByteImulRmModRm :: u8 where "TwoByteImulRmModRm \<equiv> 0xAF"
abbreviation (input) TwoByteMovdMovq :: u8 where "TwoByteMovdMovq \<equiv> 0x7E"
abbreviation (input) TwoByteMovqMmxXmm :: u8 where "TwoByteMovqMmxXmm \<equiv> 0x6F"
abbreviation (input) TwoByteMovdqu :: u8 where "TwoByteMovdqu \<equiv> 0x7F"
abbreviation (input) TwoByteGrp7 :: u8 where "TwoByteGrp7 \<equiv> 0x01"
abbreviation (input) TwoByteMaskmov :: u8 where "TwoByteMaskmov \<equiv> 0xF7"
abbreviation (input) TwoByteShiftImm8Min :: u8 where "TwoByteShiftImm8Min \<equiv> 0x70"
abbreviation (input) TwoByteShiftImm8Max :: u8 where "TwoByteShiftImm8Max \<equiv> 0x73"
abbreviation (input) ThreeByteEscape38 :: u8 where "ThreeByteEscape38 \<equiv> 0x38"
abbreviation (input) ThreeByteEscape3A :: u8 where "ThreeByteEscape3A \<equiv> 0x3A"
abbreviation (input) TwoByteModRmRangeIMin :: u8 where "TwoByteModRmRangeIMin \<equiv> 0x50"
abbreviation (input) TwoByteModRmRangeIMax :: u8 where "TwoByteModRmRangeIMax \<equiv> 0x53"
abbreviation (input) TwoByteShldImm8 :: u8 where "TwoByteShldImm8 \<equiv> 0xA4"
abbreviation (input) TwoByteShldCl :: u8 where "TwoByteShldCl \<equiv> 0xA5"
abbreviation (input) TwoByteShrdImm8 :: u8 where "TwoByteShrdImm8 \<equiv> 0xAC"
abbreviation (input) TwoByteShrdCl :: u8 where "TwoByteShrdCl \<equiv> 0xAD"
abbreviation (input) TwoByteGrp15 :: u8 where "TwoByteGrp15 \<equiv> 0xAE"
abbreviation (input) TwoByteXadd :: u8 where "TwoByteXadd \<equiv> 0xC1"
abbreviation (input) TwoBytePextrw :: u8 where "TwoBytePextrw \<equiv> 0xC5"
abbreviation (input) TwoByteShufpsImm8 :: u8 where "TwoByteShufpsImm8 \<equiv> 0xC2"
abbreviation (input) TwoByteShufpdImm8 :: u8 where "TwoByteShufpdImm8 \<equiv> 0xC6"
abbreviation (input) TwoByteGrp9 :: u8 where "TwoByteGrp9 \<equiv> 0xC7"
abbreviation (input) TwoByteExtrqInsertqImm8Imm8 :: u8 where "TwoByteExtrqInsertqImm8Imm8 \<equiv> 0x78"
abbreviation (input) TwoByteExtrqInsertqModRm :: u8 where "TwoByteExtrqInsertqModRm \<equiv> 0x79"
abbreviation (input) TwoByteMovnts :: u8 where "TwoByteMovnts \<equiv> 0x2B"
abbreviation (input) TwoByteGrp6 :: u8 where "TwoByteGrp6 \<equiv> 0x00"
abbreviation (input) TwoByteLar :: u8 where "TwoByteLar \<equiv> 0x02"
abbreviation (input) TwoByteLsl :: u8 where "TwoByteLsl \<equiv> 0x03"
abbreviation (input) TwoBytePrefetchw :: u8 where "TwoBytePrefetchw \<equiv> 0x0D"
abbreviation (input) TwoByte3DNow :: u8 where "TwoByte3DNow \<equiv> 0x0F"
abbreviation (input) TwoByteMovCrDrMin :: u8 where "TwoByteMovCrDrMin \<equiv> 0x20"
abbreviation (input) TwoByteMovCrDrMax :: u8 where "TwoByteMovCrDrMax \<equiv> 0x23"
abbreviation (input) TwoBytePopcnt :: u8 where "TwoBytePopcnt \<equiv> 0xB8"
abbreviation (input) TwoByteUd0 :: u8 where "TwoByteUd0 \<equiv> 0xFF"
abbreviation (input) TwoByteUd1 :: u8 where "TwoByteUd1 \<equiv> 0xB9"
abbreviation (input) TwoByteBts :: u8 where "TwoByteBts \<equiv> 0xAB"
abbreviation (input) TwoByteBtc :: u8 where "TwoByteBtc \<equiv> 0xBB"
abbreviation (input) TwoByteXaddRm8 :: u8 where "TwoByteXaddRm8 \<equiv> 0xC0"
abbreviation (input) TwoByteMovnti :: u8 where "TwoByteMovnti \<equiv> 0xC3"
abbreviation (input) TwoBytePinsrw :: u8 where "TwoBytePinsrw \<equiv> 0xC4"
abbreviation (input) VexNoModRmMin :: u8 where "VexNoModRmMin \<equiv> 0x77"
abbreviation (input) VexNoModRmMax :: u8 where "VexNoModRmMax \<equiv> 0x77"
abbreviation (input) EvexPrefix :: u8 where "EvexPrefix \<equiv> 0x62"
abbreviation (input) EvexPrefixLength :: nat where "EvexPrefixLength \<equiv> 4"
abbreviation (input) EvexMapMask :: u8 where "EvexMapMask \<equiv> 0x03"
abbreviation (input) EvexMap0F3A :: u8 where "EvexMap0F3A \<equiv> 0x03"
abbreviation (input) EvexMap0F38 :: u8 where "EvexMap0F38 \<equiv> 0x02"
abbreviation (input) ImmSizeNone :: nat where "ImmSizeNone \<equiv> 0"
abbreviation (input) ImmSize8 :: nat where "ImmSize8 \<equiv> 1"
abbreviation (input) ImmSize16 :: nat where "ImmSize16 \<equiv> 2"
abbreviation (input) ImmSizeEnter :: nat where "ImmSizeEnter \<equiv> 3"
abbreviation (input) ImmSize32 :: nat where "ImmSize32 \<equiv> 4"
abbreviation (input) ImmSize64 :: nat where "ImmSize64 \<equiv> 8"
abbreviation (input) ModRmModShift :: nat where "ModRmModShift \<equiv> 6"
abbreviation (input) ModRmModMask :: u8 where "ModRmModMask \<equiv> 0x03"
abbreviation (input) ModRmRegShift :: nat where "ModRmRegShift \<equiv> 3"
abbreviation (input) ModRmRegMask :: u8 where "ModRmRegMask \<equiv> 0x07"
abbreviation (input) ModRmRmMask :: u8 where "ModRmRmMask \<equiv> 0x07"
abbreviation (input) ModRmModIndirect :: u8 where "ModRmModIndirect \<equiv> 0x00"
abbreviation (input) ModRmModDisp8 :: u8 where "ModRmModDisp8 \<equiv> 0x01"
abbreviation (input) ModRmModDisp32 :: u8 where "ModRmModDisp32 \<equiv> 0x02"
abbreviation (input) ModRmModRegister :: u8 where "ModRmModRegister \<equiv> 0x03"
abbreviation (input) ModRmRmSibPresent :: u8 where "ModRmRmSibPresent \<equiv> 0x04"
abbreviation (input) ModRmRmRipRelative :: u8 where "ModRmRmRipRelative \<equiv> 0x05"
abbreviation (input) Grp3RegTestMax :: u8 where "Grp3RegTestMax \<equiv> 0x01"
abbreviation (input) SibBaseMask :: u8 where "SibBaseMask \<equiv> 0x07"
abbreviation (input) SibBaseDisp32 :: u8 where "SibBaseDisp32 \<equiv> 0x05"
abbreviation (input) SibIndexMask :: u8 where "SibIndexMask \<equiv> 0x38"
abbreviation (input) SibIndexNone :: u8 where "SibIndexNone \<equiv> 0x20"
abbreviation (input) Disp8Size :: nat where "Disp8Size \<equiv> 1"
abbreviation (input) Disp32Size :: nat where "Disp32Size \<equiv> 4"
abbreviation (input) Vex2PrefixLength :: nat where "Vex2PrefixLength \<equiv> 2"
abbreviation (input) Vex3PrefixLength :: nat where "Vex3PrefixLength \<equiv> 3"
abbreviation (input) Vex3MapMask :: u8 where "Vex3MapMask \<equiv> 0x1F"
abbreviation (input) Vex3Map0F3A :: u8 where "Vex3Map0F3A \<equiv> 0x03"
abbreviation (input) XopPrefix :: u8 where "XopPrefix \<equiv> 0x8F"
abbreviation (input) XopMapMin :: u8 where "XopMapMin \<equiv> 0x08"
abbreviation (input) XopMap8 :: u8 where "XopMap8 \<equiv> 0x08"
abbreviation (input) XopMapA :: u8 where "XopMapA \<equiv> 0x0A"

end
