(* ===== verification/X64_Decoder.thy ===== *)
theory X64_Decoder
  imports X64_Constants
begin

text \<open>
  \<open>X64InstructionDecoder::Decode\<close> (\<open>codegen/src/x86/X64InstructionDecoder.cpp\<close>): the length of
  the x86-64 instruction at the start of a buffer. The buffer is the \<open>available\<close> bytes at
  \<open>data\<close>, so \<open>available\<close> is its length. The function is split where the code has its stages:
  the prefix loop, the opcode with its VEX, XOP, EVEX and escape forms, the operand tables, and
  the ModRM, SIB, displacement and immediate tail. The lemmas bound the length and show that it
  depends on the bytes of the instruction only.
\<close>

subsection \<open>Prefixes\<close>

abbreviation max_instruction_length :: nat where "max_instruction_length \<equiv> 15"

text \<open>The constructor of \<open>CodegenException\<close> gives the failure offset the default zero.\<close>

abbreviation CodegenError :: "string \<Rightarrow> exn" where "CodegenError message \<equiv> CodegenException message 0"

record prefixes =
  rexPresent :: bool
  rex :: u8
  operandSizeOverride :: bool
  addressSizeOverride :: bool
  repnePrefix :: bool

definition no_prefixes :: prefixes where
  "no_prefixes = \<lparr>rexPresent = False, rex = 0, operandSizeOverride = False,
     addressSizeOverride = False, repnePrefix = False\<rparr>"

definition is_rex :: "u8 \<Rightarrow> bool" where
  "is_rex b \<longleftrightarrow> RexMin \<le> b \<and> b \<le> RexMax"

text \<open>The prefixes without a flag of their own in the loop.\<close>

definition is_plain_prefix :: "u8 \<Rightarrow> bool" where
  "is_plain_prefix b \<longleftrightarrow>
     \<not> (b \<noteq> PrefixLock \<and> b \<noteq> PrefixRep \<and>
        b \<noteq> PrefixSegCs \<and> b \<noteq> PrefixSegSs \<and> b \<noteq> PrefixSegDs \<and>
        b \<noteq> PrefixSegEs \<and> b \<noteq> PrefixSegFs \<and> b \<noteq> PrefixSegGs)"

fun decode_prefixes :: "bytes \<Rightarrow> nat \<Rightarrow> prefixes \<Rightarrow> (nat \<times> prefixes) res" where
  "decode_prefixes [] pos p = Inr (pos, p)"
| "decode_prefixes (b # bs) pos p =
     (if pos = max_instruction_length then Inl (CodegenError ''Instruction exceeds 15 bytes'')
      else if is_rex b then decode_prefixes bs (pos + 1) (p\<lparr>rexPresent := True, rex := b\<rparr>)
      else if b = PrefixRepne
      then decode_prefixes bs (pos + 1) (p\<lparr>repnePrefix := True, rexPresent := False, rex := 0\<rparr>)
      else if b = PrefixOperandSize
      then decode_prefixes bs (pos + 1) (p\<lparr>operandSizeOverride := True, rexPresent := False, rex := 0\<rparr>)
      else if b = PrefixAddressSize
      then decode_prefixes bs (pos + 1) (p\<lparr>addressSizeOverride := True, rexPresent := False, rex := 0\<rparr>)
      else if \<not> is_plain_prefix b then Inr (pos, p)
      else decode_prefixes bs (pos + 1) (p\<lparr>rexPresent := False, rex := 0\<rparr>))"

definition rexW :: "prefixes \<Rightarrow> bool" where
  "rexW p \<longleftrightarrow> rexPresent p \<and> rex p AND RexWBit \<noteq> 0"

definition operandImmediateSize :: "prefixes \<Rightarrow> nat" where
  "operandImmediateSize p = (if operandSizeOverride p \<and> \<not> rexW p then ImmSize16 else ImmSize32)"

subsection \<open>The opcode\<close>

record opcode_state =
  opcode :: u8
  twoByteOpcode :: bool
  vexPresent :: bool
  evexPresent :: bool
  vexMap :: u8
  xopMap :: u8
  threeByteMap :: u8
  threeByteEscape :: bool

definition first_opcode :: "u8 \<Rightarrow> opcode_state" where
  "first_opcode b = \<lparr>opcode = b, twoByteOpcode = False, vexPresent = False, evexPresent = False,
     vexMap = 0, xopMap = 0, threeByteMap = 0, threeByteEscape = False\<rparr>"

text \<open>The escape that follows the first opcode byte; \<open>pos\<close> is the position after that byte.\<close>

definition decode_escape :: "bytes \<Rightarrow> nat \<Rightarrow> opcode_state \<Rightarrow> (nat \<times> opcode_state) res" where
  "decode_escape data pos s =
     (let available = length data in
      if opcode s = OneByteVex2
      then if pos \<ge> available then Inl (CodegenError ''Instruction truncated after VEX2 prefix'')
           else Inr (pos + 1, s\<lparr>vexPresent := True, vexMap := 1\<rparr>)
      else if opcode s = OneByteVex3
      then if pos \<ge> available then Inl (CodegenError ''Instruction truncated after VEX3 prefix'')
           else if pos + 1 \<ge> available
           then Inl (CodegenError ''Instruction truncated after VEX3 prefix'')
           else Inr (pos + 2, s\<lparr>vexPresent := True, vexMap := data ! pos AND Vex3MapMask\<rparr>)
      else if opcode s = XopPrefix \<and> pos < available \<and> data ! pos AND Vex3MapMask \<ge> XopMapMin
      then if pos + 1 \<ge> available then Inl (CodegenError ''Instruction truncated after XOP prefix'')
           else Inr (pos + 2, s\<lparr>xopMap := data ! pos AND Vex3MapMask\<rparr>)
      else if opcode s = EvexPrefix
      then if pos + 2 \<ge> available then Inl (CodegenError ''Instruction truncated after EVEX prefix'')
           else Inr (pos + 3, s\<lparr>evexPresent := True, vexMap := data ! pos AND EvexMapMask\<rparr>)
      else if opcode s = TwoByteOpcodeEscape
      then if pos \<ge> available
           then Inl (CodegenError ''Instruction truncated after two-byte opcode escape'')
           else if data ! pos = ThreeByteEscape38 \<or> data ! pos = ThreeByteEscape3A
           then if pos + 1 \<ge> available
                then Inl (CodegenError ''Instruction truncated after three-byte opcode escape'')
                else Inr (pos + 2, s\<lparr>twoByteOpcode := True, threeByteEscape := True,
                       threeByteMap := data ! pos, opcode := data ! (pos + 1)\<rparr>)
           else Inr (pos + 1, s\<lparr>twoByteOpcode := True, opcode := data ! pos\<rparr>)
      else Inr (pos, s))"

text \<open>A VEX, EVEX or XOP prefix is followed by the opcode proper.\<close>

definition decode_vector_opcode :: "bytes \<Rightarrow> nat \<Rightarrow> opcode_state \<Rightarrow> (nat \<times> opcode_state) res" where
  "decode_vector_opcode data pos s =
     (if vexPresent s \<or> evexPresent s \<or> xopMap s \<noteq> 0
      then if pos \<ge> length data then Inl (CodegenError ''Instruction truncated after VEX prefix'')
           else Inr (pos + 1, s\<lparr>opcode := data ! pos\<rparr>)
      else Inr (pos, s))"

definition decode_opcode :: "bytes \<Rightarrow> nat \<Rightarrow> (nat \<times> opcode_state) res" where
  "decode_opcode data pos =
     (if pos \<ge> length data then Inl (CodegenError ''Instruction truncated after prefixes'')
      else bind_res (decode_escape data (pos + 1) (first_opcode (data ! pos)))
             (\<lambda>(pos, s). decode_vector_opcode data pos s))"


subsection \<open>Operand tables\<close>

definition vectorImmediate :: "opcode_state \<Rightarrow> bool" where
  "vectorImmediate s \<longleftrightarrow>
     vexMap s = 1 \<and> ((opcode s \<ge> 0x70 \<and> opcode s \<le> 0x73) \<or> opcode s = 0xC2 \<or> opcode s = 0xC4 \<or>
                     opcode s = 0xC5 \<or> opcode s = 0xC6)"

definition one_byte_has_modrm :: "u8 \<Rightarrow> bool" where
  "one_byte_has_modrm opc \<longleftrightarrow>
     (opc \<ge> OneByteModRmRangeAMin \<and> opc \<le> OneByteModRmRangeAMax) \<or>
     (opc \<ge> OneByteModRmRangeBMin \<and> opc \<le> OneByteModRmRangeBMax) \<or>
     (opc \<ge> OneByteModRmRangeCMin \<and> opc \<le> OneByteModRmRangeCMax) \<or>
     (opc \<ge> OneByteModRmRangeDMin \<and> opc \<le> OneByteModRmRangeDMax) \<or>
     (opc \<ge> OneByteModRmRangeEMin \<and> opc \<le> OneByteModRmRangeEMax) \<or>
     (opc \<ge> OneByteModRmRangeFMin \<and> opc \<le> OneByteModRmRangeFMax) \<or>
     (opc \<ge> OneByteModRmRangeGMin \<and> opc \<le> OneByteModRmRangeGMax) \<or>
     (opc \<ge> OneByteModRmRangeHMin \<and> opc \<le> OneByteModRmRangeHMax) \<or>
     opc = OneByteArpl \<or> opc = OneByteMovsxd \<or>
     (opc \<ge> OneByteModRmRangeIMin \<and> opc \<le> OneByteModRmRangeIMax) \<or>
     opc = OneByteGrp2Rm8Imm8 \<or> opc = OneByteGrp2RmImm8 \<or>
     opc = OneByteMovImm8 \<or> opc = OneByteMovImm32 \<or>
     opc = OneByteImm32AluCmp \<or> opc = OneByteImm8Grp1 \<or>
     opc = OneByteImm8AluCmp \<or>
     opc = OneByteImulRm32Imm32 \<or> opc = OneByteImulRm32Imm8 \<or>
     opc = OneByteShiftRm8By1 \<or> opc = OneByteShiftRmBy1 \<or>
     opc = OneByteShiftRm8ByCl \<or> opc = OneByteShiftRmByCl \<or>
     opc = OneByteTestGrp3Rm8 \<or> opc = OneByteTestGrp3Rm \<or>
     opc = OneByteIncDecRm8 \<or> opc = OneByteGrp5Rm \<or>
     (opc \<ge> OneByteModRmRangeJMin \<and> opc \<le> OneByteModRmRangeJMax) \<or>
     (opc \<ge> OneByteX87Min \<and> opc \<le> OneByteX87Max)"

text \<open>The chain of conditions that picks the immediate of most one-byte opcodes.\<close>

definition one_byte_alu_immediate :: "u8 \<Rightarrow> prefixes \<Rightarrow> nat" where
  "one_byte_alu_immediate opc p =
     (if opc = OneByteImm8AluOrGrp3 \<or> opc = OneByteImm8AluCmp \<or>
         opc = OneByteImm8AddAl \<or> opc = OneByteImm8OrAl \<or>
         opc = OneByteImm8AdcAl \<or> opc = OneByteImm8SbbAl \<or>
         opc = OneByteImm8AndAl \<or> opc = OneByteImm8SubAl \<or>
         opc = OneByteImm8XorAl \<or> opc = OneByteImm8CmpAl \<or>
         opc = OneByteGrp2Rm8Imm8 \<or> opc = OneByteGrp2RmImm8 \<or>
         (opc \<ge> OneByteMovImm8RegMin \<and> opc \<le> OneByteMovImm8RegMax) \<or>
         opc = OneBytePushImm8 \<or> opc = OneByteTestAlImm8
      then ImmSize8
      else if opc = OneByteImm32AluCmp \<or> opc = OneByteMovImm32 \<or>
              opc = OneByteImulRm32Imm32 \<or>
              opc = OneByteImm32AddEax \<or> opc = OneByteImm32OrEax \<or>
              opc = OneByteImm32AdcEax \<or> opc = OneByteImm32SbbEax \<or>
              opc = OneByteImm32AndEax \<or> opc = OneByteImm32SubEax \<or>
              opc = OneByteImm32XorEax \<or> opc = OneByteImm32CmpEax \<or>
              opc = OneBytePushImm32 \<or> opc = OneByteTestEaxImm32 \<or>
              (opc \<ge> OneByteMovImm32RegMin \<and> opc \<le> OneByteMovImm32RegMax)
      then if opc \<ge> OneByteMovImm32RegMin \<and> opc \<le> OneByteMovImm32RegMax
           then if rexW p then ImmSize64 else operandImmediateSize p
           else operandImmediateSize p
      else if opc = OneByteImm8Grp1 \<or> opc = OneByteImulRm32Imm8 then ImmSize8
      else ImmSizeNone)"

text \<open>The assignments that follow the chain, each overriding the size when its opcodes match.\<close>

definition one_byte_immediate :: "u8 \<Rightarrow> prefixes \<Rightarrow> nat" where
  "one_byte_immediate opc p =
     (let size0 = one_byte_alu_immediate opc p;
          size1 = if opc \<ge> OneByteJccRel8Min \<and> opc \<le> OneByteJccRel8Max then ImmSize8 else size0;
          size2 = if opc = OneByteCallRel32 \<or> opc = OneByteJmpRel32 then operandImmediateSize p else size1;
          size3 = if opc = OneByteJmpRel8 \<or> opc = OneByteJrcxz \<or>
                     (opc \<ge> OneByteLoop \<and> opc \<le> OneByteLoopMax) \<or>
                     (opc \<ge> OneByteInOutImm8Min \<and> opc \<le> OneByteInOutImm8Max) \<or>
                     opc = OneByteInt
                  then ImmSize8 else size2;
          size4 = if opc = OneByteRetImm16 \<or> opc = OneByteRetFarImm16 then ImmSize16 else size3;
          size5 = if opc = OneByteEnter then ImmSizeEnter else size4
      in if opc \<ge> OneByteMovMoffsMin \<and> opc \<le> OneByteMovMoffsMax
         then if addressSizeOverride p then ImmSize32 else ImmSize64
         else size5)"

text \<open>The opcodes of the last branch of the two-byte table, which have a ModRM byte and no immediate.\<close>

definition two_byte_modrm_only :: "u8 \<Rightarrow> bool" where
  "two_byte_modrm_only opc \<longleftrightarrow>
     (opc \<ge> TwoByteCmovRangeMin \<and> opc \<le> TwoByteCmovRangeMax) \<or>
     (opc \<ge> TwoByteModRmRangeAMin \<and> opc \<le> TwoByteModRmRangeAMax) \<or>
     opc = TwoByteBts \<or>
     (opc \<ge> TwoByteModRmRangeBMin \<and> opc \<le> TwoByteModRmRangeBMax) \<or>
     (opc \<ge> TwoByteModRmRangeCMin \<and> opc \<le> TwoByteModRmRangeCMax) \<or>
     (opc \<ge> TwoByteModRmRangeDMin \<and> opc \<le> TwoByteModRmRangeDMax) \<or>
     (opc \<ge> TwoByteModRmRangeEMin \<and> opc \<le> TwoByteModRmRangeEMax) \<or>
     (opc \<ge> TwoByteModRmRangeGMin \<and> opc \<le> TwoByteModRmRangeGMax \<and> opc \<noteq> TwoByteEmms) \<or>
     (opc \<ge> TwoByteModRmRangeHMin \<and> opc \<le> TwoByteModRmRangeHMax) \<or>
     (opc \<ge> TwoByteModRmRangeIMin \<and> opc \<le> TwoByteModRmRangeIMax) \<or>
     (opc \<ge> TwoBytePrefetchGrpMin \<and> opc \<le> TwoBytePrefetchGrpMax) \<or>
     (opc \<ge> TwoByteSetccMin \<and> opc \<le> TwoByteSetccMax) \<or>
     opc = TwoByteImulRmModRm \<or>
     opc = TwoByteGrp7 \<or>
     opc = TwoByteGrp15 \<or>
     opc = TwoByteXadd \<or>
     opc = TwoByteGrp9 \<or>
     opc = TwoByteNopModRm \<or> opc = TwoByteEndbr"

definition two_byte_operands :: "u8 \<Rightarrow> prefixes \<Rightarrow> (bool \<times> nat) res" where
  "two_byte_operands opc p =
     (if opc = TwoByteExtrqInsertqImm8Imm8
      then if \<not> operandSizeOverride p \<and> \<not> repnePrefix p
           then Inl (CodegenError ''Unsupported 0F 78 opcode without SSE4A prefix'')
           else Inr (True, ImmSize16)
      else if opc = TwoByteExtrqInsertqModRm
      then if \<not> operandSizeOverride p \<and> \<not> repnePrefix p
           then Inl (CodegenError ''Unsupported 0F 79 opcode without SSE4A prefix'')
           else Inr (True, ImmSizeNone)
      else if opc \<ge> TwoByteJccRel32Min \<and> opc \<le> TwoByteJccRel32Max
      then Inr (False, operandImmediateSize p)
      else if opc = TwoByteMovImm8ModRm \<or> opc = TwoByte3DNow then Inr (True, ImmSize8)
      else if opc \<ge> TwoByteShiftImm8Min \<and> opc \<le> TwoByteShiftImm8Max then Inr (True, ImmSize8)
      else if opc = TwoByteShldImm8 \<or> opc = TwoByteShrdImm8 \<or>
              opc = TwoByteShufpsImm8 \<or> opc = TwoByteShufpdImm8 \<or>
              opc = TwoBytePextrw \<or> opc = TwoBytePinsrw
      then Inr (True, ImmSize8)
      else if opc = TwoByteShldCl \<or> opc = TwoByteShrdCl \<or>
              opc = TwoBytePopcnt \<or> opc = TwoByteUd1 \<or> opc = TwoByteUd0 \<or> opc = TwoByteBtc \<or>
              opc = TwoBytePrefetchw \<or> opc = TwoByteXaddRm8 \<or>
              opc = TwoByteMovnti \<or> opc = TwoByteGrp6 \<or>
              opc = TwoByteLar \<or> opc = TwoByteLsl \<or>
              (opc \<ge> TwoByteMovCrDrMin \<and> opc \<le> TwoByteMovCrDrMax)
      then Inr (True, ImmSizeNone)
      else Inr (two_byte_modrm_only opc, ImmSizeNone))"

text \<open>\<open>hasModRm\<close> and \<open>immediateSize\<close>.\<close>

definition decode_operands :: "prefixes \<Rightarrow> opcode_state \<Rightarrow> (bool \<times> nat) res" where
  "decode_operands p s =
     (if xopMap s \<noteq> 0
      then Inr (True, if xopMap s = XopMap8 then ImmSize8
                      else if xopMap s = XopMapA then ImmSize32 else ImmSizeNone)
      else if vexPresent s
      then if vexMap s = 1 \<and> opcode s \<ge> VexNoModRmMin \<and> opcode s \<le> VexNoModRmMax
           then Inr (False, ImmSizeNone)
           else Inr (True, if vexMap s = Vex3Map0F3A \<or> vectorImmediate s then ImmSize8 else ImmSizeNone)
      else if evexPresent s
      then Inr (True, if vexMap s = EvexMap0F3A \<or> vectorImmediate s then ImmSize8 else ImmSizeNone)
      else if threeByteEscape s
      then Inr (True, if threeByteMap s = ThreeByteEscape3A then ImmSize8 else ImmSizeNone)
      else if \<not> twoByteOpcode s
      then Inr (one_byte_has_modrm (opcode s), one_byte_immediate (opcode s) p)
      else two_byte_operands (opcode s) p)"

subsection \<open>ModRM, SIB, displacement and immediate\<close>

definition modrm_mod :: "u8 \<Rightarrow> u8" where
  "modrm_mod modrm = drop_bit ModRmModShift modrm AND ModRmModMask"

definition modrm_reg :: "u8 \<Rightarrow> u8" where
  "modrm_reg modrm = drop_bit ModRmRegShift modrm AND ModRmRegMask"

definition modrm_rm :: "u8 \<Rightarrow> u8" where
  "modrm_rm modrm = modrm AND ModRmRmMask"

definition is_mov_cr_dr :: "u8 \<Rightarrow> bool" where
  "is_mov_cr_dr opc \<longleftrightarrow> opc \<ge> TwoByteMovCrDrMin \<and> opc \<le> TwoByteMovCrDrMax"

definition effective_mod :: "opcode_state \<Rightarrow> u8 \<Rightarrow> u8" where
  "effective_mod s modrm =
     (if twoByteOpcode s \<and> \<not> threeByteEscape s \<and> is_mov_cr_dr (opcode s) then ModRmModRegister
      else modrm_mod modrm)"

text \<open>\<open>TEST\<close> is the only operation of its opcode group with an immediate.\<close>

definition grp3_immediate :: "prefixes \<Rightarrow> opcode_state \<Rightarrow> u8 \<Rightarrow> nat \<Rightarrow> nat" where
  "grp3_immediate p s modrm immediateSize =
     (if \<not> vexPresent s \<and> \<not> evexPresent s \<and> \<not> twoByteOpcode s \<and>
         (opcode s = OneByteTestGrp3Rm8 \<or> opcode s = OneByteTestGrp3Rm) \<and>
         modrm_reg modrm \<le> Grp3RegTestMax
      then if opcode s = OneByteTestGrp3Rm8 then ImmSize8 else operandImmediateSize p
      else immediateSize)"

text \<open>The SIB byte and the displacement that only its base announces; \<open>pos\<close> is after the ModRM byte.\<close>

definition decode_sib :: "bytes \<Rightarrow> nat \<Rightarrow> u8 \<Rightarrow> u8 \<Rightarrow> nat res" where
  "decode_sib data pos md rm =
     (if md \<noteq> ModRmModRegister \<and> rm = ModRmRmSibPresent
      then if pos \<ge> length data then Inl (CodegenError ''Instruction truncated before SIB byte'')
           else if md = ModRmModIndirect \<and> data ! pos AND SibBaseMask = SibBaseDisp32
           then Inr (pos + 1 + Disp32Size)
           else Inr (pos + 1)
      else Inr pos)"

definition displacement_size :: "u8 \<Rightarrow> u8 \<Rightarrow> nat" where
  "displacement_size md rm =
     (if md = ModRmModDisp8 then Disp8Size
      else if md = ModRmModDisp32 then Disp32Size
      else if md = ModRmModIndirect \<and> rm = ModRmRmRipRelative then Disp32Size
      else 0)"

definition decode_modrm_tail :: "bytes \<Rightarrow> nat \<Rightarrow> prefixes \<Rightarrow> opcode_state \<Rightarrow> nat \<Rightarrow> nat res" where
  "decode_modrm_tail data pos p s immediateSize =
     (if pos \<ge> length data then Inl (CodegenError ''Instruction truncated before ModRM byte'')
      else let modrm = data ! pos; md = effective_mod s modrm; rm = modrm_rm modrm
           in bind_res (decode_sib data (pos + 1) md rm) (\<lambda>pos.
              let pos = pos + displacement_size md rm + grp3_immediate p s modrm immediateSize
              in if pos > max_instruction_length then Inl (CodegenError ''Instruction exceeds 15 bytes'')
                 else if pos > length data
                 then Inl (CodegenError ''Instruction truncated in displacement or immediate operand'')
                 else Inr pos))"

definition decode_tail :: "bytes \<Rightarrow> nat \<Rightarrow> prefixes \<Rightarrow> opcode_state \<Rightarrow> bool \<Rightarrow> nat \<Rightarrow> nat res" where
  "decode_tail data pos p s hasModRm immediateSize =
     (if \<not> hasModRm
      then if pos + immediateSize > max_instruction_length
           then Inl (CodegenError ''Instruction exceeds 15 bytes'')
           else if pos + immediateSize > length data
           then Inl (CodegenError ''Instruction truncated in immediate operand'')
           else Inr (pos + immediateSize)
      else decode_modrm_tail data pos p s immediateSize)"

definition Decode :: "bytes \<Rightarrow> nat res" where
  "Decode data =
     bind_res (decode_prefixes data 0 no_prefixes) (\<lambda>(pos, p).
     bind_res (decode_opcode data pos) (\<lambda>(pos, s).
     bind_res (decode_operands p s) (\<lambda>(hasModRm, immediateSize).
     decode_tail data pos p s hasModRm immediateSize)))"

subsection \<open>Buffers with a common beginning\<close>

definition agree :: "nat \<Rightarrow> bytes \<Rightarrow> bytes \<Rightarrow> bool" where
  "agree n d e \<longleftrightarrow> n \<le> length d \<and> n \<le> length e \<and> take n d = take n e"

lemma agree_nth: "agree n d e \<Longrightarrow> i < n \<Longrightarrow> e ! i = d ! i"
  unfolding agree_def by (metis nth_take)

lemma agree_Cons: "agree (Suc n) (b # bs) e \<Longrightarrow> \<exists>es. e = b # es \<and> agree n bs es"
  by (cases e) (auto simp: agree_def)

subsection \<open>The prefix loop in one equation\<close>

text \<open>
  \<open>prefix_byte\<close> and \<open>note_prefix\<close> describe one iteration of the loop: the bytes it consumes and
  what it remembers of them; a REX prefix counts only when nothing but the opcode follows it.
\<close>

definition prefix_byte :: "u8 \<Rightarrow> bool" where
  "prefix_byte b \<longleftrightarrow> is_rex b \<or> b = PrefixRepne \<or> b = PrefixOperandSize \<or> b = PrefixAddressSize
     \<or> is_plain_prefix b"

definition note_prefix :: "u8 \<Rightarrow> prefixes \<Rightarrow> prefixes" where
  "note_prefix b p =
     (if is_rex b then p\<lparr>rexPresent := True, rex := b\<rparr>
      else p\<lparr>repnePrefix := repnePrefix p \<or> b = PrefixRepne,
             operandSizeOverride := operandSizeOverride p \<or> b = PrefixOperandSize,
             addressSizeOverride := addressSizeOverride p \<or> b = PrefixAddressSize,
             rexPresent := False, rex := 0\<rparr>)"

lemma decode_prefixes_Cons:
  "decode_prefixes (b # bs) pos p =
     (if pos = max_instruction_length then Inl (CodegenError ''Instruction exceeds 15 bytes'')
      else if prefix_byte b then decode_prefixes bs (pos + 1) (note_prefix b p)
      else Inr (pos, p))"
proof -
  consider "is_rex b" | "\<not> is_rex b" "b = PrefixRepne" | "\<not> is_rex b" "b = PrefixOperandSize"
    | "\<not> is_rex b" "b = PrefixAddressSize"
    | "\<not> is_rex b" "b \<noteq> PrefixRepne" "b \<noteq> PrefixOperandSize" "b \<noteq> PrefixAddressSize"
    by blast
  then show ?thesis
    by cases (simp_all add: prefix_byte_def note_prefix_def)
qed

declare decode_prefixes.simps(2) [simp del]

lemma decode_prefixes_bounds:
  "decode_prefixes bs pos p = Inr (q, p') \<Longrightarrow> pos \<le> q \<and> q \<le> pos + length bs"
proof (induction bs arbitrary: pos p)
  case Nil
  then show ?case by simp
next
  case (Cons b bs)
  then show ?case by (fastforce simp: decode_prefixes_Cons split: if_splits)
qed

lemma decode_prefixes_agree:
  "decode_prefixes bs pos p = Inr (q, p') \<Longrightarrow> agree (Suc k) bs es \<Longrightarrow> q - pos \<le> k \<Longrightarrow>
   decode_prefixes es pos p = Inr (q, p')"
proof (induction bs arbitrary: k es pos p)
  case Nil
  then show ?case by (auto simp: agree_def)
next
  case (Cons b bs)
  obtain fs where e: "es = b # fs" and a: "agree k bs fs"
    using agree_Cons [OF Cons.prems(2)] by blast
  show ?case
  proof (cases "prefix_byte b")
    case False
    then show ?thesis using Cons.prems(1) by (auto simp: e decode_prefixes_Cons split: if_splits)
  next
    case True
    then have pos: "pos \<noteq> max_instruction_length"
      and d: "decode_prefixes bs (pos + 1) (note_prefix b p) = Inr (q, p')"
      using Cons.prems(1) by (auto simp: decode_prefixes_Cons split: if_splits)
    have "agree (Suc (k - 1)) bs fs" "q - (pos + 1) \<le> k - 1"
      using a Cons.prems(3) decode_prefixes_bounds [OF d] by auto
    from Cons.IH [OF d this] show ?thesis using True pos by (simp add: e decode_prefixes_Cons)
  qed
qed

subsection \<open>Bounds and locality of the stages\<close>

lemma decode_escape_bounds:
  "decode_escape data pos s = Inr (q, t) \<Longrightarrow> pos \<le> length data \<Longrightarrow> pos \<le> q \<and> q \<le> length data"
  by (auto simp: decode_escape_def Let_def split: if_splits)

lemma decode_escape_agree:
  assumes "decode_escape data pos s = Inr (q, t)" and "agree k data e" and "q \<le> k"
    and "opcode s = XopPrefix \<longrightarrow> pos < k"
  shows "decode_escape e pos s = Inr (q, t)"
proof -
  note [simp] = agree_nth [OF assms(2)] 
  have "k \<le> length data" "k \<le> length e" using assms(2) by (auto simp: agree_def)
  then show ?thesis using assms(1,3,4)
    by (auto simp: decode_escape_def Let_def split: if_splits)
qed

lemma decode_vector_opcode_bounds:
  "decode_vector_opcode data pos s = Inr (q, t) \<Longrightarrow> pos \<le> length data \<Longrightarrow> pos \<le> q \<and> q \<le> length data"
  by (auto simp: decode_vector_opcode_def split: if_splits)

lemma decode_vector_opcode_agree:
  assumes "decode_vector_opcode data pos s = Inr (q, t)" and "agree k data e" and "q \<le> k"
  shows "decode_vector_opcode e pos s = Inr (q, t)"
  using assms agree_nth [OF assms(2)]
  by (auto simp: decode_vector_opcode_def agree_def split: if_splits)

lemma decode_opcode_bounds:
  "decode_opcode data pos = Inr (q, s) \<Longrightarrow> pos < q \<and> q \<le> length data"
  by (auto simp: decode_opcode_def res_simps split: if_splits
      dest!: decode_escape_bounds decode_vector_opcode_bounds)

text \<open>An opcode that no escape consumed is the byte at the opcode position.\<close>

lemma decode_escape_opcode:
  "decode_escape data pos s = Inr (q, t) \<Longrightarrow> q = pos \<Longrightarrow> t = s"
  by (auto simp: decode_escape_def Let_def split: if_splits)

lemma decode_vector_opcode_pos:
  "decode_vector_opcode data pos s = Inr (q, t) \<Longrightarrow> q = pos \<Longrightarrow> t = s"
  by (auto simp: decode_vector_opcode_def split: if_splits)

lemma decode_opcode_agree:
  assumes d: "decode_opcode data pos = Inr (q, s)" and a: "agree k data e" and k: "q \<le> k"
    and x: "opcode s = XopPrefix \<Longrightarrow> q < k"
  shows "decode_opcode e pos = Inr (q, s)"
proof -
  have pos: "pos < length data"
    using d by (auto simp: decode_opcode_def split: if_splits)
  then obtain r t where e: "decode_escape data (pos + 1) (first_opcode (data ! pos)) = Inr (r, t)"
    and v: "decode_vector_opcode data r t = Inr (q, s)"
    using d by (auto simp: decode_opcode_def res_simps split: if_splits)
  have "pos + 1 \<le> r" "r \<le> q"
    using decode_escape_bounds [OF e] decode_vector_opcode_bounds [OF v] pos by auto
  moreover have "opcode (first_opcode (data ! pos)) = XopPrefix \<longrightarrow> pos + 1 < k"
  proof (cases "q = pos + 1")
    case True
    then have "t = first_opcode (data ! pos)" "s = t"
      using decode_escape_opcode [OF e] decode_vector_opcode_pos [OF v] calculation by auto
    then show ?thesis using x True by (auto simp: first_opcode_def)
  next
    case False
    then show ?thesis using calculation k by auto
  qed
  ultimately have "decode_escape e (pos + 1) (first_opcode (data ! pos)) = Inr (r, t)"
    and "decode_vector_opcode e r t = Inr (q, s)" and "e ! pos = data ! pos" and "pos < length e"
    using decode_escape_agree [OF e a] decode_vector_opcode_agree [OF v a k] k agree_nth [OF a, of pos] a
    by (auto simp: agree_def)
  then show ?thesis by (simp add: decode_opcode_def)
qed

lemma decode_sib_bounds: "decode_sib data pos md rm = Inr q \<Longrightarrow> pos \<le> q"
  by (auto simp: decode_sib_def split: if_splits)

lemma decode_tail_modrm:
  assumes "decode_tail data pos p s True im = Inr n"
  obtains q where "pos < length data"
    and "decode_sib data (pos + 1) (effective_mod s (data ! pos)) (modrm_rm (data ! pos)) = Inr q"
    and "n = q + displacement_size (effective_mod s (data ! pos)) (modrm_rm (data ! pos))
         + grp3_immediate p s (data ! pos) im"
    and "n \<le> max_instruction_length" and "n \<le> length data"
proof -
  let ?sib = "decode_sib data (pos + 1) (effective_mod s (data ! pos)) (modrm_rm (data ! pos))"
  have pos: "pos < length data"
    using assms by (simp add: decode_tail_def decode_modrm_tail_def split: if_splits)
  have "\<exists>q. ?sib = Inr q"
    using assms pos by (cases ?sib) (simp_all add: decode_tail_def decode_modrm_tail_def Let_def)
  then obtain q where q: "?sib = Inr q" ..
  then show thesis
    using assms pos by (intro that [OF pos q])
      (simp_all add: decode_tail_def decode_modrm_tail_def Let_def split: if_splits)
qed

lemma decode_tail_no_modrm:
  assumes "decode_tail data pos p s False im = Inr n"
  shows "n = pos + im" and "n \<le> max_instruction_length" and "n \<le> length data"
  using assms by (auto simp: decode_tail_def split: if_splits)

lemma decode_tail_bounds:
  assumes "decode_tail data pos p s m im = Inr n"
  shows "pos + (if m then 1 else im) \<le> n" and "n \<le> max_instruction_length" and "n \<le> length data"
proof -
  have "pos + (if m then 1 else im) \<le> n \<and> n \<le> max_instruction_length \<and> n \<le> length data"
  proof (cases m)
    case True
    with assms obtain q where "decode_sib data (pos + 1) (effective_mod s (data ! pos)) (modrm_rm (data ! pos)) = Inr q"
      "q \<le> n" "n \<le> max_instruction_length" "n \<le> length data"
      by simp (erule decode_tail_modrm, simp)
    then show ?thesis using True by (auto dest!: decode_sib_bounds)
  next
    case False
    then show ?thesis using assms decode_tail_no_modrm [of data pos p s im n] by simp
  qed
  then show "pos + (if m then 1 else im) \<le> n" and "n \<le> max_instruction_length" and "n \<le> length data"
    by auto
qed

lemma decode_sib_agree:
  assumes "decode_sib data pos md rm = Inr q" and a: "agree k data e" and "q \<le> k"
  shows "decode_sib e pos md rm = Inr q"
proof (cases "md \<noteq> ModRmModRegister \<and> rm = ModRmRmSibPresent")
  case True
  then have "pos < k" using assms by (auto simp: decode_sib_def split: if_splits)
  then have "pos < length e" "e ! pos = data ! pos" using a agree_nth [OF a] by (auto simp: agree_def)
  then show ?thesis using assms(1) True by (simp add: decode_sib_def split: if_splits)
next
  case False
  then show ?thesis using assms(1) unfolding decode_sib_def by (simp only: if_False)
qed

lemma decode_tail_agree:
  assumes d: "decode_tail data pos p s m im = Inr n" and a: "agree n data e"
  shows "decode_tail e pos p s m im = Inr n"
proof (cases m)
  case False
  then show ?thesis using d a by (auto simp: decode_tail_def agree_def split: if_splits)
next
  case True
  have le: "pos < n" "n \<le> length data" "n \<le> length e"
    using decode_tail_bounds [OF d] a True by (auto simp: agree_def)
  then have eq: "e ! pos = data ! pos" using agree_nth [OF a] by blast
  obtain q where q: "decode_sib data (pos + 1) (effective_mod s (data ! pos)) (modrm_rm (data ! pos)) = Inr q"
    and n: "n = q + displacement_size (effective_mod s (data ! pos)) (modrm_rm (data ! pos))
         + grp3_immediate p s (data ! pos) im" and "n \<le> max_instruction_length"
    using d True by (auto elim: decode_tail_modrm)
  then show ?thesis
    using True le decode_sib_agree [OF q a]
    by (auto simp: decode_tail_def decode_modrm_tail_def Let_def eq)
qed

lemma decode_operands_xop:
  "decode_operands p s = Inr (False, im) \<Longrightarrow> opcode s = XopPrefix \<Longrightarrow> 0 < im"
  by (auto simp: decode_operands_def two_byte_operands_def one_byte_has_modrm_def
      operandImmediateSize_def word_le_nat_alt split: if_splits)

lemma Decode_stages:
  assumes "Decode data = Inr n"
  obtains pos p q s m im where "decode_prefixes data 0 no_prefixes = Inr (pos, p)"
    and "decode_opcode data pos = Inr (q, s)" and "decode_operands p s = Inr (m, im)"
    and "decode_tail data q p s m im = Inr n"
  using assms by (auto simp: Decode_def res_simps)

lemma Decode_bounds:
  assumes "Decode data = Inr n"
  shows "0 < n" and "n \<le> max_instruction_length" and "n \<le> length data"
proof -
  obtain pos p q s m im where "decode_opcode data pos = Inr (q, s)"
    and t: "decode_tail data q p s m im = Inr n"
    by (rule Decode_stages [OF assms])
  then show "0 < n" and "n \<le> max_instruction_length" and "n \<le> length data"
    using decode_opcode_bounds [of data pos q s] decode_tail_bounds [OF t] by auto
qed

lemma Decode_agree:
  assumes "Decode data = Inr n" and a: "agree n data e"
  shows "Decode e = Inr n"
proof -
  obtain pos p q s m im where d: "decode_prefixes data 0 no_prefixes = Inr (pos, p)"
    and o': "decode_opcode data pos = Inr (q, s)" and r: "decode_operands p s = Inr (m, im)"
    and t: "decode_tail data q p s m im = Inr n"
    by (rule Decode_stages [OF assms(1)])
  have q: "pos < q" "q \<le> n" using decode_opcode_bounds [OF o'] decode_tail_bounds(1) [OF t] by auto
  have "agree (Suc (n - 1)) data e" "pos - 0 \<le> n - 1" using a q by auto
  note p = decode_prefixes_agree [OF d this]
  have "q < n" if "opcode s = XopPrefix"
    using decode_tail_bounds(1) [OF t] decode_operands_xop [of p s im] r that by (cases m) auto
  note o2 = decode_opcode_agree [OF o' a q(2) this]
  show ?thesis by (simp add: Decode_def p o2 r decode_tail_agree [OF t a])
qed

subsection \<open>The contract of an instruction decoder\<close>

text \<open>
  What the scanner and the rewriter rely on: an instruction is not empty, lies in the buffer, has
  at most 15 bytes, and is recognised from its own bytes alone.
\<close>

locale instruction_decoder =
  fixes decode :: "bytes \<Rightarrow> nat res"
  assumes decode_pos: "decode data = Inr n \<Longrightarrow> 0 < n"
    and decode_le: "decode data = Inr n \<Longrightarrow> n \<le> length data"
    and decode_max: "decode data = Inr n \<Longrightarrow> n \<le> max_instruction_length"
    and decode_agree: "decode data = Inr n \<Longrightarrow> agree n data e \<Longrightarrow> decode e = Inr n"
begin

lemma decode_take: "decode data = Inr n \<Longrightarrow> decode (take n data) = Inr n"
  by (rule decode_agree) (auto simp: agree_def dest: decode_le)

lemma decode_append: "decode data = Inr n \<Longrightarrow> decode (data @ rest) = Inr n"
  by (rule decode_agree) (auto simp: agree_def dest: decode_le)

lemma decode_replace_rest: "decode data = Inr n \<Longrightarrow> decode (take n data @ rest) = Inr n"
  by (rule decode_append) (rule decode_take)

text \<open>No instruction is a proper prefix of another one.\<close>

lemma decode_prefix_free:
  "decode data = Inr n \<Longrightarrow> decode (take k data) = Inr m \<Longrightarrow> m = n"
  using decode_append [of "take k data" m "drop k data"] by simp

lemma decode_truncated:
  assumes "decode data = Inr n" and "k < n"
  shows "\<exists>e. decode (take k data) = Inl e"
proof (cases "decode (take k data)")
  case (Inr m)
  then show ?thesis using decode_prefix_free [OF assms(1) Inr] decode_le [OF Inr] assms(2) by simp
qed simp

end

interpretation x64: instruction_decoder Decode
  by unfold_locales (fact Decode_bounds Decode_agree)+



subsection \<open>A concrete instruction and the properties\<close>

text \<open>
  C27: bounds of the length. A decoded instruction has at least one byte, at most 15 bytes, and
  ends inside the buffer.\<close>

theorem decode_length_bounds:
  assumes "Decode data = Inr n"
  shows "0 < n \<and> n \<le> 15 \<and> n \<le> length data"
  using x64.decode_pos [OF assms] x64.decode_max [OF assms] x64.decode_le [OF assms] by blast

lemma decode_length_bounds_witness:
  "Decode [0xC7, 0x84, 0x65, 0x11, 0x22, 0x33, 0x44, 0x55, 0x66, 0x77, 0x08, 0x90] = Inr 11 \<and>
   (11 :: nat) \<le> 15"
proof -
  have "Decode [0xC7, 0x84, 0x65, 0x11, 0x22, 0x33, 0x44, 0x55, 0x66, 0x77, 0x08, 0x90] = Inr 11"
    by code_simp
  with decode_length_bounds [OF this] show ?thesis by blast
qed

text \<open>
  C26: instructions are self-delimiting. The length of an instruction depends on the bytes of the
  instruction alone: whatever follows it, the same length is decoded, and when its last bytes are cut
  off decoding fails instead of returning a shorter instruction.\<close>

theorem decode_self_delimiting:
  assumes "Decode data = Inr n"
  shows "Decode (take n data @ rest) = Inr n \<and> (\<forall>k < n. \<exists>e. Decode (take k data) = Inl e)"
  using x64.decode_replace_rest [OF assms] x64.decode_truncated [OF assms] by blast

lemma decode_self_delimiting_witness:
  "Decode ([0xE8, 0x01, 0x02, 0x03, 0x04] @ [0xFF]) = Inr 5 \<and> (\<exists>e. Decode (take 4 [0xE8, 0x01, 0x02, 0x03, 0x04]) = Inl e)"
proof -
  have d: "Decode [0xE8, 0x01, 0x02, 0x03, 0x04] = Inr 5" by code_simp
  have f: "4 < (5 :: nat)" by simp
  show ?thesis
    using conjunct1 [OF decode_self_delimiting [OF d, of "[0xFF]"]]
      mp [OF spec [OF conjunct2 [OF decode_self_delimiting [OF d, of "[0xFF]"]]] f]
    by simp
qed

end
