(* ===== verification/X64_Instruction_Info.thy ===== *)
theory X64_Instruction_Info
  imports X64_Decoder
begin

text \<open>
  \<open>X64InstructionDecoder::DecodeInstruction\<close> (\<open>codegen/src/x86/X64InstructionDecoder.cpp\<close>) and its
  result \<open>DecodedInstructionInfo\<close> (\<open>codegen/CodegenTypes.hpp\<close>): where the opcode, the ModRM byte
  and a RIP-relative displacement of an instruction are, and how it changes the control flow. It
  decodes a second time, after \<open>Decode\<close> has fixed the length. An early return of the code is
  \<open>Some\<close> of the finished record. The lemmas show that the two passes agree, so that every
  offset the record reports lies in the instruction.
\<close>

subsection \<open>The record\<close>

datatype control_flow_kind =
    Sequential | ConditionalBranch | UnconditionalJump | Call | Return | IndirectJump | IndirectCall | Trap

record instruction_info =
  di_Length :: nat
  di_OpcodeOffset :: nat
  di_SegmentPrefix :: u8
  di_RexPrefix :: u8
  di_FlowKind :: control_flow_kind
  di_HasRipRelativeDisp :: bool
  di_AddressSize32 :: bool
  di_RipRelativeDispOffset :: nat
  di_HasModRm :: bool
  di_HasMemoryOperand :: bool
  di_ModRmByte :: u8
  di_HasBranchTarget :: bool
  di_BranchDisp :: int
  di_TruncatesBranchTarget :: bool
  di_IsTwoByteOpcode :: bool
  di_Opcode :: u8
  di_ModRmRegField :: u8
  di_ModRmOffset :: nat

text \<open>\<open>DecodedInstructionInfo info{}\<close> with the length.\<close>

definition empty_info :: "nat \<Rightarrow> instruction_info" where
  "empty_info n = \<lparr>di_Length = n, di_OpcodeOffset = 0, di_SegmentPrefix = 0, di_RexPrefix = 0,
     di_FlowKind = Sequential, di_HasRipRelativeDisp = False, di_AddressSize32 = False,
     di_RipRelativeDispOffset = 0, di_HasModRm = False, di_HasMemoryOperand = False,
     di_ModRmByte = 0, di_HasBranchTarget = False, di_BranchDisp = 0,
     di_TruncatesBranchTarget = False, di_IsTwoByteOpcode = False, di_Opcode = 0,
     di_ModRmRegField = 0, di_ModRmOffset = 0\<rparr>"

subsection \<open>Prefixes\<close>

text \<open>The state of the loop: the record and the locals \<open>operandSizeOverride\<close> and \<open>repPrefix\<close>.\<close>

record info_prefixes =
  ip_info :: instruction_info
  ip_operandSizeOverride :: bool
  ip_repPrefix :: bool

definition is_legacy_prefix :: "u8 \<Rightarrow> bool" where
  "is_legacy_prefix b \<longleftrightarrow>
     b = PrefixLock \<or> b = PrefixRepne \<or> b = PrefixRep \<or>
     b = PrefixSegCs \<or> b = PrefixSegSs \<or> b = PrefixSegDs \<or>
     b = PrefixSegEs \<or> b = PrefixSegFs \<or> b = PrefixSegGs \<or>
     b = PrefixOperandSize \<or> b = PrefixAddressSize"

definition info_legacy_prefix :: "u8 \<Rightarrow> info_prefixes \<Rightarrow> info_prefixes" where
  "info_legacy_prefix b s =
     \<lparr>ip_info = (ip_info s)
        \<lparr>di_SegmentPrefix := if b \<ge> PrefixSegFs \<and> b \<le> PrefixSegGs then b else di_SegmentPrefix (ip_info s),
         di_AddressSize32 := if b = PrefixAddressSize then True else di_AddressSize32 (ip_info s),
         di_RexPrefix := 0\<rparr>,
      ip_operandSizeOverride = (if b = PrefixOperandSize then True else ip_operandSizeOverride s),
      ip_repPrefix = (if b = PrefixRep then True else ip_repPrefix s)\<rparr>"

fun info_prefix_loop :: "bytes \<Rightarrow> nat \<Rightarrow> info_prefixes \<Rightarrow> nat \<times> info_prefixes" where
  "info_prefix_loop [] pos s = (pos, s)"
| "info_prefix_loop (b # bs) pos s =
     (if is_rex b
      then info_prefix_loop bs (pos + 1) (s\<lparr>ip_info := (ip_info s)\<lparr>di_RexPrefix := b\<rparr>\<rparr>)
      else if is_legacy_prefix b then info_prefix_loop bs (pos + 1) (info_legacy_prefix b s)
      else (pos, s))"

subsection \<open>ModRM\<close>

definition readModRm :: "bytes \<Rightarrow> nat \<Rightarrow> bool \<Rightarrow> instruction_info \<Rightarrow> instruction_info" where
  "readModRm data modrmPos registerOnly info =
     (let modrm = data ! modrmPos;
          md = if registerOnly then ModRmModRegister else modrm_mod modrm;
          rm = modrm_rm modrm;
          info = info\<lparr>di_HasModRm := True, di_ModRmByte := modrm, di_ModRmOffset := modrmPos,
                      di_ModRmRegField := modrm_reg modrm\<rparr>;
          info = if md \<noteq> ModRmModRegister then info\<lparr>di_HasMemoryOperand := True\<rparr> else info
      in if md = ModRmModIndirect \<and> rm = ModRmRmRipRelative
         then info\<lparr>di_HasRipRelativeDisp := True, di_RipRelativeDispOffset := modrmPos + 1\<rparr>
         else info)"

text \<open>Instructions with a VEX, EVEX or XOP prefix; \<open>pos\<close> is the position after the prefix byte.\<close>

definition is_xop :: "bytes \<Rightarrow> nat \<Rightarrow> u8 \<Rightarrow> instruction_info \<Rightarrow> bool" where
  "is_xop data pos op info \<longleftrightarrow>
     op = XopPrefix \<and> pos < di_Length info \<and> data ! pos AND Vex3MapMask \<ge> XopMapMin"

definition is_vector_prefix :: "bytes \<Rightarrow> nat \<Rightarrow> u8 \<Rightarrow> instruction_info \<Rightarrow> bool" where
  "is_vector_prefix data pos op info \<longleftrightarrow>
     op = OneByteVex2 \<or> op = OneByteVex3 \<or> op = EvexPrefix \<or> is_xop data pos op info"

definition vectorOpcodeOffset :: "bytes \<Rightarrow> nat \<Rightarrow> u8 \<Rightarrow> instruction_info \<Rightarrow> nat" where
  "vectorOpcodeOffset data pos op info =
     pos + (if op = OneByteVex2 then 1
            else if op = OneByteVex3 \<or> is_xop data pos op info then 2
            else EvexPrefixLength - 1)"

definition vector_info :: "bytes \<Rightarrow> nat \<Rightarrow> u8 \<Rightarrow> instruction_info \<Rightarrow> instruction_info" where
  "vector_info data pos op info =
     (let vex = (op = OneByteVex2 \<or> op = OneByteVex3);
          offset = vectorOpcodeOffset data pos op info;
          map = if op = OneByteVex2 then 1
                else data ! pos AND (if op = EvexPrefix then EvexMapMask else Vex3MapMask);
          vectorOpcode = if offset < di_Length info then data ! offset else 0;
          pos = offset + 1;
          info = if pos < di_Length info
                 then let info = readModRm data pos False info
                      in if vex \<and> map = 1 \<and> vectorOpcode = TwoByteMaskmov \<and>
                            modrm_mod (di_ModRmByte info) = ModRmModRegister
                         then info\<lparr>di_HasMemoryOperand := True\<rparr> else info
                 else info
      in info\<lparr>di_FlowKind := Sequential\<rparr>)"

subsection \<open>Control flow\<close>

definition is_jcc_rel8 :: "u8 \<Rightarrow> bool" where
  "is_jcc_rel8 op \<longleftrightarrow> op \<ge> OneByteJccRel8Min \<and> op \<le> OneByteJccRel8Max"

definition is_loop :: "u8 \<Rightarrow> bool" where
  "is_loop op \<longleftrightarrow> op = OneByteJrcxz \<or> (op \<ge> OneByteLoop \<and> op \<le> OneByteLoopMax)"

definition is_jcc_rel32 :: "u8 \<Rightarrow> bool" where
  "is_jcc_rel32 op \<longleftrightarrow> op \<ge> TwoByteJccRel32Min \<and> op \<le> TwoByteJccRel32Max"

definition relativeNearBranch :: "bool \<Rightarrow> u8 \<Rightarrow> bool" where
  "relativeNearBranch two op \<longleftrightarrow>
     (if two then is_jcc_rel32 op
      else op = OneByteCallRel32 \<or> op = OneByteJmpRel32 \<or> op = OneByteJmpRel8 \<or>
           is_jcc_rel8 op \<or> is_loop op)"

text \<open>An operand-size prefix truncates the branch target to 16 bits.\<close>

definition truncated_branch :: "bool \<Rightarrow> u8 \<Rightarrow> info_prefixes \<Rightarrow> instruction_info \<Rightarrow> instruction_info option" where
  "truncated_branch two op s info =
     (if relativeNearBranch two op \<and> ip_operandSizeOverride s \<and> di_RexPrefix info AND RexWBit = 0
      then Some (info\<lparr>di_TruncatesBranchTarget := True,
             di_FlowKind := if two \<or> (op \<noteq> OneByteCallRel32 \<and> op \<noteq> OneByteJmpRel32 \<and> op \<noteq> OneByteJmpRel8)
                            then ConditionalBranch
                            else if op = OneByteCallRel32 then Call else UnconditionalJump\<rparr>)
      else None)"

text \<open>\<open>std::memcpy(&disp, data + pos, 4)\<close> into a \<open>std::int32_t\<close>, and a cast to \<open>std::int8_t\<close>.\<close>

definition disp32 :: "bytes \<Rightarrow> nat \<Rightarrow> int" where
  "disp32 data pos = sint (le_word (subbytes data pos 4) :: u32)"

definition disp8 :: "bytes \<Rightarrow> nat \<Rightarrow> int" where
  "disp8 data pos = sint (data ! pos)"

definition branch_to :: "control_flow_kind \<Rightarrow> int \<Rightarrow> instruction_info \<Rightarrow> instruction_info" where
  "branch_to kind disp info = info\<lparr>di_FlowKind := kind, di_HasBranchTarget := True, di_BranchDisp := disp\<rparr>"

text \<open>Opcode \<open>FF\<close>: calls and jumps through a register or memory.\<close>

definition grp5_modrm :: "bytes \<Rightarrow> nat \<Rightarrow> instruction_info \<Rightarrow> instruction_info" where
  "grp5_modrm data pos info =
     (let modrm = data ! pos;
          info = info\<lparr>di_HasModRm := True, di_ModRmByte := modrm, di_ModRmOffset := pos,
                      di_ModRmRegField := modrm_reg modrm\<rparr>
      in if modrm_mod modrm \<noteq> ModRmModRegister then info\<lparr>di_HasMemoryOperand := True\<rparr> else info)"

definition grp5_info :: "bytes \<Rightarrow> nat \<Rightarrow> instruction_info \<Rightarrow> instruction_info option" where
  "grp5_info data pos info =
     (let modrm = data ! pos; reg = modrm_reg modrm;
          ripRelative = (modrm_mod modrm = ModRmModIndirect \<and> modrm_rm modrm = ModRmRmRipRelative)
      in if reg = 2
         then Some (if ripRelative
                    then info\<lparr>di_FlowKind := Call, di_HasRipRelativeDisp := True,
                              di_RipRelativeDispOffset := pos + 1\<rparr>
                    else info\<lparr>di_FlowKind := IndirectCall\<rparr>)
         else if reg = 4
         then Some (if ripRelative
                    then branch_to UnconditionalJump (disp32 data (pos + 1))
                           (info\<lparr>di_HasRipRelativeDisp := True, di_RipRelativeDispOffset := pos + 1\<rparr>)
                    else info\<lparr>di_FlowKind := IndirectJump\<rparr>)
         else if reg = 3 \<or> reg = 5
         then Some ((if ripRelative
                     then info\<lparr>di_HasRipRelativeDisp := True, di_RipRelativeDispOffset := pos + 1\<rparr>
                     else info)\<lparr>di_FlowKind := if reg = 3 then IndirectCall else IndirectJump\<rparr>)
         else None)"

text \<open>
  The branches of one-byte opcodes. Opcode \<open>FF\<close> with another operation than a call or a jump
  falls through with the ModRM fields already set, hence the second record.
\<close>

definition one_byte_flow ::
    "bytes \<Rightarrow> nat \<Rightarrow> u8 \<Rightarrow> instruction_info \<Rightarrow> instruction_info option \<times> instruction_info" where
  "one_byte_flow data pos op info =
     (if op = OneByteCallRel32 then (Some (branch_to Call (disp32 data pos) info), info)
      else if op = OneByteJmpRel32 then (Some (branch_to UnconditionalJump (disp32 data pos) info), info)
      else if op = OneByteJmpRel8 then (Some (branch_to UnconditionalJump (disp8 data pos) info), info)
      else if is_jcc_rel8 op then (Some (branch_to ConditionalBranch (disp8 data pos) info), info)
      else if is_loop op then (Some (branch_to ConditionalBranch (disp8 data pos) info), info)
      else if op = 0xC3 \<or> op = 0xCB \<or> op = 0xC2 \<or> op = 0xCA
      then (Some (info\<lparr>di_FlowKind := Return\<rparr>), info)
      else if op = OneByteGrp5Rm \<and> pos < di_Length info
      then (grp5_info data pos (grp5_modrm data pos info), grp5_modrm data pos info)
      else (None, info))"

definition two_byte_flow :: "bytes \<Rightarrow> nat \<Rightarrow> u8 \<Rightarrow> instruction_info \<Rightarrow> instruction_info option" where
  "two_byte_flow data pos op info =
     (if op = 0x0B then Some (info\<lparr>di_FlowKind := Trap\<rparr>)
      else if op = TwoByteUd1 \<or> op = TwoByteUd0
      then Some ((if pos < di_Length info then readModRm data pos False info else info)
                   \<lparr>di_FlowKind := Trap\<rparr>)
      else if is_jcc_rel32 op then Some (branch_to ConditionalBranch (disp32 data pos) info)
      else None)"

subsection \<open>Operands\<close>

definition info_one_byte_has_modrm :: "u8 \<Rightarrow> bool" where
  "info_one_byte_has_modrm op \<longleftrightarrow>
     (op \<ge> OneByteModRmRangeAMin \<and> op \<le> OneByteModRmRangeAMax) \<or>
     (op \<ge> OneByteModRmRangeBMin \<and> op \<le> OneByteModRmRangeBMax) \<or>
     (op \<ge> OneByteModRmRangeCMin \<and> op \<le> OneByteModRmRangeCMax) \<or>
     (op \<ge> OneByteModRmRangeDMin \<and> op \<le> OneByteModRmRangeDMax) \<or>
     (op \<ge> OneByteModRmRangeEMin \<and> op \<le> OneByteModRmRangeEMax) \<or>
     (op \<ge> OneByteModRmRangeFMin \<and> op \<le> OneByteModRmRangeFMax) \<or>
     (op \<ge> OneByteModRmRangeGMin \<and> op \<le> OneByteModRmRangeGMax) \<or>
     (op \<ge> OneByteModRmRangeHMin \<and> op \<le> OneByteModRmRangeHMax) \<or>
     (op \<ge> OneByteModRmRangeIMin \<and> op \<le> OneByteModRmRangeIMax) \<or>
     (op \<ge> OneByteModRmRangeJMin \<and> op \<le> OneByteModRmRangeJMax) \<or>
     op = OneByteArpl \<or> op = OneByteMovsxd \<or>
     op = OneByteGrp2Rm8Imm8 \<or> op = OneByteGrp2RmImm8 \<or>
     op = OneByteMovImm8 \<or> op = OneByteMovImm32 \<or>
     op = OneByteImm32AluCmp \<or> op = OneByteImm8Grp1 \<or>
     op = OneByteImm8AluCmp \<or>
     op = OneByteImulRm32Imm32 \<or> op = OneByteImulRm32Imm8 \<or>
     op = OneByteShiftRm8By1 \<or> op = OneByteShiftRmBy1 \<or>
     op = OneByteShiftRm8ByCl \<or> op = OneByteShiftRmByCl \<or>
     op = OneByteTestGrp3Rm8 \<or> op = OneByteTestGrp3Rm \<or>
     op = OneByteIncDecRm8 \<or> op = OneByteGrp5Rm \<or>
     (op \<ge> OneByteX87Min \<and> op \<le> OneByteX87Max)"

definition info_two_byte_has_modrm :: "u8 \<Rightarrow> bool" where
  "info_two_byte_has_modrm op \<longleftrightarrow>
     (op \<ge> TwoByteCmovRangeMin \<and> op \<le> TwoByteCmovRangeMax) \<or>
     (op \<ge> TwoByteModRmRangeAMin \<and> op \<le> TwoByteModRmRangeAMax) \<or>
     op = TwoByteBts \<or>
     (op \<ge> TwoByteModRmRangeBMin \<and> op \<le> TwoByteModRmRangeBMax) \<or>
     (op \<ge> TwoByteModRmRangeCMin \<and> op \<le> TwoByteModRmRangeCMax) \<or>
     (op \<ge> TwoByteModRmRangeDMin \<and> op \<le> TwoByteModRmRangeDMax) \<or>
     (op \<ge> TwoByteModRmRangeEMin \<and> op \<le> TwoByteModRmRangeEMax) \<or>
     (op \<ge> TwoByteModRmRangeGMin \<and> op \<le> TwoByteModRmRangeGMax) \<or>
     (op \<ge> TwoByteModRmRangeHMin \<and> op \<le> TwoByteModRmRangeHMax) \<or>
     (op \<ge> TwoByteModRmRangeIMin \<and> op \<le> TwoByteModRmRangeIMax) \<or>
     (op \<ge> TwoBytePrefetchGrpMin \<and> op \<le> TwoBytePrefetchGrpMax) \<or>
     (op \<ge> TwoByteSetccMin \<and> op \<le> TwoByteSetccMax) \<or>
     op = TwoByteImulRmModRm \<or> op = TwoByteGrp7 \<or>
     op = TwoByteGrp15 \<or> op = TwoByteXadd \<or>
     op = TwoByteGrp9 \<or> op = TwoByteNopModRm \<or>
     op = TwoByteEndbr \<or> op = TwoByteMovImm8ModRm \<or> op = TwoByte3DNow \<or>
     op = ThreeByteEscape38 \<or> op = ThreeByteEscape3A \<or>
     (op \<ge> TwoByteShiftImm8Min \<and> op \<le> TwoByteShiftImm8Max) \<or>
     op = TwoByteShldImm8 \<or> op = TwoByteShrdImm8 \<or>
     op = TwoByteShufpsImm8 \<or> op = TwoByteShufpdImm8 \<or>
     op = TwoBytePextrw \<or> op = TwoBytePinsrw \<or>
     op = TwoByteShldCl \<or> op = TwoByteShrdCl \<or>
     op = TwoBytePopcnt \<or> op = TwoByteUd1 \<or> op = TwoByteBtc \<or>
     op = TwoBytePrefetchw \<or> op = TwoByteXaddRm8 \<or>
     op = TwoByteMovnti \<or> op = TwoByteGrp6 \<or>
     op = TwoByteLar \<or> op = TwoByteLsl \<or>
     (op \<ge> TwoByteMovCrDrMin \<and> op \<le> TwoByteMovCrDrMax)"

text \<open>Memory operands that the ModRM byte does not show.\<close>

definition two_byte_memory_operand :: "u8 \<Rightarrow> bool \<Rightarrow> instruction_info \<Rightarrow> instruction_info" where
  "two_byte_memory_operand op repPrefix info =
     (let md = modrm_mod (di_ModRmByte info); reg = modrm_reg (di_ModRmByte info)
      in if op = TwoByteMaskmov \<and> md = ModRmModRegister then info\<lparr>di_HasMemoryOperand := True\<rparr>
         else if op = TwoByteGrp7 \<and>
                 (di_ModRmByte info = 0xC8 \<or> di_ModRmByte info = 0xFA \<or> di_ModRmByte info = 0xFC)
         then info\<lparr>di_HasMemoryOperand := True\<rparr>
         else if op = TwoByteGrp15 \<and> repPrefix \<and> reg = 6 \<and> md = ModRmModRegister
         then info\<lparr>di_HasMemoryOperand := True\<rparr>
         else info)"

definition one_byte_memory_operand :: "u8 \<Rightarrow> instruction_info \<Rightarrow> instruction_info" where
  "one_byte_memory_operand op info =
     (if (op \<ge> 0x6c \<and> op \<le> 0x6f) \<or> (op \<ge> 0xa0 \<and> op \<le> 0xa7) \<or>
         (op \<ge> 0xaa \<and> op \<le> 0xaf) \<or> op = 0xd7
      then info\<lparr>di_HasMemoryOperand := True\<rparr> else info)"

text \<open>String instructions whose destination segment is always ES.\<close>

definition string_segment :: "u8 \<Rightarrow> instruction_info \<Rightarrow> instruction_info" where
  "string_segment op info =
     (if op = 0x6c \<or> op = 0x6d \<or> op = 0xaa \<or> op = 0xab \<or> op = 0xae \<or> op = 0xaf
      then info\<lparr>di_SegmentPrefix := 0\<rparr> else info)"

definition operand_info :: "bytes \<Rightarrow> nat \<Rightarrow> bool \<Rightarrow> u8 \<Rightarrow> bool \<Rightarrow> instruction_info \<Rightarrow> instruction_info" where
  "operand_info data pos two op repPrefix info =
     (let hasModRm = (if two then info_two_byte_has_modrm op else info_one_byte_has_modrm op);
          info = if hasModRm \<and> pos < di_Length info
                 then readModRm data pos (two \<and> is_mov_cr_dr op) info else info;
          info = if di_HasModRm info \<and> two then two_byte_memory_operand op repPrefix info else info;
          info = if \<not> two then one_byte_memory_operand op info else info;
          info = if (\<not> two \<and> op = OneByteLea) \<or> (two \<and> op = TwoByteNopModRm)
                 then info\<lparr>di_HasMemoryOperand := False\<rparr> else info;
          info = if \<not> two then string_segment op info else info
      in info\<lparr>di_FlowKind := Sequential\<rparr>)"

text \<open>What follows the first opcode byte; \<open>pos\<close> is after the opcode with its escape bytes.\<close>

definition opcode_info ::
    "bytes \<Rightarrow> nat \<Rightarrow> bool \<Rightarrow> u8 \<Rightarrow> info_prefixes \<Rightarrow> instruction_info \<Rightarrow> instruction_info" where
  "opcode_info data pos two op s info =
     (let info = info\<lparr>di_Opcode := op, di_IsTwoByteOpcode := two\<rparr>
      in case truncated_branch two op s info of
           Some result \<Rightarrow> result
         | None \<Rightarrow>
             (case (if two then (two_byte_flow data pos op info, info) else one_byte_flow data pos op info) of
                (Some result, _) \<Rightarrow> result
              | (None, info) \<Rightarrow> operand_info data pos two op (ip_repPrefix s) info))"

text \<open>The escapes; a three-byte escape keeps its escape byte as the opcode of the record.\<close>

definition escape_info :: "bytes \<Rightarrow> nat \<Rightarrow> info_prefixes \<Rightarrow> instruction_info \<Rightarrow> instruction_info" where
  "escape_info data pos s info =
     (let op = data ! pos; pos = pos + 1
      in if is_vector_prefix data pos op info then vector_info data pos op info
         else if op = TwoByteOpcodeEscape \<and> pos < di_Length info
         then let op = data ! pos; pos = pos + 1
              in opcode_info data
                   (if op = ThreeByteEscape38 \<or> op = ThreeByteEscape3A then pos + 1 else pos) True op s info
         else opcode_info data pos False op s info)"

definition DecodeInstruction :: "bytes \<Rightarrow> instruction_info res" where
  "DecodeInstruction data =
     bind_res (Decode data) (\<lambda>n.
       let (pos, s) = info_prefix_loop (take n data) 0
                        \<lparr>ip_info = empty_info n, ip_operandSizeOverride = False, ip_repPrefix = False\<rparr>;
           info = (ip_info s)\<lparr>di_OpcodeOffset := pos\<rparr>
       in Inr (if pos \<ge> n then info else escape_info data pos s info))"

subsection \<open>Both passes skip the same prefixes\<close>

lemma prefix_byte_cases: "prefix_byte b \<longleftrightarrow> is_rex b \<or> is_legacy_prefix b"
  unfolding prefix_byte_def is_legacy_prefix_def is_plain_prefix_def by blast

text \<open>The fields that the prefixes of an instruction set.\<close>

definition prefixes_match :: "nat \<Rightarrow> prefixes \<Rightarrow> info_prefixes \<Rightarrow> bool" where
  "prefixes_match n p s \<longleftrightarrow>
     (rexPresent p \<or> rex p = 0) \<and> ip_operandSizeOverride s = operandSizeOverride p \<and>
     di_RexPrefix (ip_info s) = rex p \<and> di_Length (ip_info s) = n \<and>
     \<not> di_HasModRm (ip_info s) \<and> \<not> di_HasRipRelativeDisp (ip_info s) \<and>
     \<not> di_HasBranchTarget (ip_info s) \<and> \<not> di_TruncatesBranchTarget (ip_info s)"

lemma rex_not_legacy: "is_legacy_prefix b \<Longrightarrow> \<not> is_rex b"
  unfolding is_legacy_prefix_def is_rex_def by (elim disjE) simp_all

lemma prefixes_match_rex:
  "prefixes_match n p s \<Longrightarrow> is_rex b \<Longrightarrow>
   prefixes_match n (note_prefix b p) (s\<lparr>ip_info := (ip_info s)\<lparr>di_RexPrefix := b\<rparr>\<rparr>)"
  by (simp add: prefixes_match_def note_prefix_def)

lemma prefixes_match_legacy:
  assumes "prefixes_match n p s" and "is_legacy_prefix b"
  shows "prefixes_match n (note_prefix b p) (info_legacy_prefix b s)"
proof -
  have "\<not> is_rex b" using assms(2) rex_not_legacy by blast
  then show ?thesis using assms(1) by (simp add: prefixes_match_def note_prefix_def info_legacy_prefix_def)
qed

lemma info_prefix_loop_agrees:
  "decode_prefixes bs pos p = Inr (q, p') \<Longrightarrow> q - pos < k \<Longrightarrow> prefixes_match n p s \<Longrightarrow>
   \<exists>s'. info_prefix_loop (take k bs) pos s = (q, s') \<and> prefixes_match n p' s'"
proof (induction bs arbitrary: k pos p s)
  case Nil
  then show ?case by simp
next
  case (Cons b bs)
  obtain j where k: "k = Suc j" using Cons.prems(2) by (cases k) auto
  show ?case
  proof (cases "prefix_byte b")
    case False
    then have "q = pos" "p' = p"
      using Cons.prems(1) by (auto simp: decode_prefixes_Cons split: if_splits)
    then show ?thesis using False Cons.prems(3) by (simp add: k prefix_byte_cases)
  next
    case True
    then have d: "decode_prefixes bs (pos + 1) (note_prefix b p) = Inr (q, p')"
      using Cons.prems(1) by (auto simp: decode_prefixes_Cons split: if_splits)
    have j: "q - (pos + 1) < j" using Cons.prems(2) decode_prefixes_bounds [OF d] unfolding k by linarith
    show ?thesis
    proof (cases "is_rex b")
      case r: True
      from Cons.IH [OF d j prefixes_match_rex [OF Cons.prems(3) r]] show ?thesis by (simp add: k r)
    next
      case False
      with True have l: "is_legacy_prefix b" by (simp add: prefix_byte_cases)
      from Cons.IH [OF d j prefixes_match_legacy [OF Cons.prems(3) l]] show ?thesis
        by (simp add: k False l)
    qed
  qed
qed

subsection \<open>Both passes find the opcode at the same place\<close>

text \<open>What \<open>Decode\<close> found, seen from the first opcode byte at \<open>pos\<close>; \<open>q\<close> is after the opcode.\<close>

definition vector_opcode :: "bytes \<Rightarrow> nat \<Rightarrow> nat \<Rightarrow> opcode_state \<Rightarrow> bool" where
  "vector_opcode data pos q s \<longleftrightarrow>
     \<not> twoByteOpcode s \<and> (xopMap s \<noteq> 0 \<or> vexPresent s \<or> evexPresent s) \<and>
     (data ! pos = OneByteVex2 \<and> q = pos + 3
      \<or> data ! pos = OneByteVex3 \<and> q = pos + 4
      \<or> data ! pos = XopPrefix \<and> data ! (pos + 1) AND Vex3MapMask \<ge> XopMapMin \<and> q = pos + 4
      \<or> data ! pos = EvexPrefix \<and> q = pos + 5)"

definition legacy_opcode :: "bytes \<Rightarrow> nat \<Rightarrow> nat \<Rightarrow> opcode_state \<Rightarrow> bool" where
  "legacy_opcode data pos q s \<longleftrightarrow>
     xopMap s = 0 \<and> \<not> vexPresent s \<and> \<not> evexPresent s \<and>
     data ! pos \<notin> {OneByteVex2, OneByteVex3, EvexPrefix} \<and>
     (if data ! pos = TwoByteOpcodeEscape
      then twoByteOpcode s \<and>
           (if data ! (pos + 1) \<in> {ThreeByteEscape38, ThreeByteEscape3A}
            then q = pos + 3 \<and> threeByteEscape s
            else q = pos + 2 \<and> \<not> threeByteEscape s \<and> opcode s = data ! (pos + 1))
      else q = pos + 1 \<and> \<not> twoByteOpcode s \<and> \<not> threeByteEscape s \<and> opcode s = data ! pos \<and>
           (data ! pos = XopPrefix \<longrightarrow> pos + 1 < length data \<longrightarrow> data ! (pos + 1) AND Vex3MapMask < XopMapMin))"

lemma xop_map_nonzero: "XopMapMin \<le> (m::u8) \<Longrightarrow> m \<noteq> 0"
  by (auto simp: word_le_nat_alt)

lemma decode_opcode_shape:
  assumes "decode_opcode data pos = Inr (q, s)"
  shows "vector_opcode data pos q s \<or> legacy_opcode data pos q s"
proof -
  have pos: "pos < length data" using assms by (simp add: decode_opcode_def split: if_splits)
  with assms have d: "bind_res (decode_escape data (pos + 1) (first_opcode (data ! pos)))
      (\<lambda>(pos, s). decode_vector_opcode data pos s) = Inr (q, s)"
    by (simp add: decode_opcode_def)
  note unfolded = d [unfolded decode_escape_def first_opcode_def Let_def]
  consider "data ! pos = OneByteVex2" | "data ! pos = OneByteVex3" | "data ! pos = XopPrefix"
    | "data ! pos = EvexPrefix" | "data ! pos = TwoByteOpcodeEscape"
    | "data ! pos \<notin> {OneByteVex2, OneByteVex3, XopPrefix, EvexPrefix, TwoByteOpcodeEscape}" by blast
  then show ?thesis
  proof cases
    case 1
    then show ?thesis using unfolded
      by (auto simp: decode_vector_opcode_def vector_opcode_def xop_map_nonzero split: if_splits)
  next
    case 2
    then show ?thesis using unfolded
      by (auto simp: decode_vector_opcode_def vector_opcode_def xop_map_nonzero split: if_splits)
  next
    case 3
    then show ?thesis using unfolded
      by (auto simp: decode_vector_opcode_def vector_opcode_def legacy_opcode_def xop_map_nonzero
          split: if_splits)
  next
    case 4
    then show ?thesis using unfolded
      by (auto simp: decode_vector_opcode_def vector_opcode_def xop_map_nonzero split: if_splits)
  next
    case 5
    then show ?thesis using unfolded
      by (auto simp: decode_vector_opcode_def legacy_opcode_def split: if_splits)
  next
    case 6
    then show ?thesis using unfolded
      by (auto simp: decode_vector_opcode_def legacy_opcode_def split: if_splits)
  qed
qed


subsection \<open>Both passes agree on the ModRM byte\<close>

lemma one_byte_modrm_agrees: "info_one_byte_has_modrm op = one_byte_has_modrm op"
  unfolding info_one_byte_has_modrm_def one_byte_has_modrm_def by argo

lemma two_byte_modrm_agrees:
  assumes "info_two_byte_has_modrm op" and "op \<notin> {ThreeByteEscape38, ThreeByteEscape3A}"
    and "two_byte_operands op p = Inr (False, im)"
  shows "is_jcc_rel32 op \<or> im = 0"
  using assms unfolding two_byte_operands_def is_jcc_rel32_def by (simp split: if_splits)

lemma tail_rip_relative:
  assumes "decode_tail data q p s True im = Inr n" and "effective_mod s (data ! q) = ModRmModIndirect"
    and "modrm_rm (data ! q) = ModRmRmRipRelative"
  shows "q + 5 \<le> n"
  using assms(1)
proof (rule decode_tail_modrm)
  fix r
  assume "decode_sib data (q + 1) (effective_mod s (data ! q)) (modrm_rm (data ! q)) = Inr r"
    and "n = r + displacement_size (effective_mod s (data ! q)) (modrm_rm (data ! q))
         + grp3_immediate p s (data ! q) im"
  moreover have "displacement_size (effective_mod s (data ! q)) (modrm_rm (data ! q)) = 4"
    using assms(2,3) by (simp add: displacement_size_def)
  ultimately show ?thesis by (auto dest!: decode_sib_bounds)
qed

text \<open>The record reports only positions inside the instruction.\<close>

definition info_ok :: "bytes \<Rightarrow> instruction_info \<Rightarrow> bool" where
  "info_ok data i \<longleftrightarrow>
     (di_HasModRm i \<longrightarrow>
        di_OpcodeOffset i < di_ModRmOffset i \<and> di_ModRmOffset i < di_Length i \<and>
        di_ModRmByte i = data ! di_ModRmOffset i \<and> di_ModRmRegField i = modrm_reg (di_ModRmByte i)) \<and>
     (di_HasRipRelativeDisp i \<longrightarrow>
        di_HasModRm i \<and> di_RipRelativeDispOffset i = di_ModRmOffset i + 1 \<and>
        di_RipRelativeDispOffset i + 4 \<le> di_Length i)"

text \<open>A ModRM byte at \<open>q\<close> that \<open>Decode\<close> took into account.\<close>

definition modrm_fits :: "bytes \<Rightarrow> nat \<Rightarrow> bool \<Rightarrow> nat \<Rightarrow> bool" where
  "modrm_fits data q registerOnly n \<longleftrightarrow>
     q < n \<and>
     (\<not> registerOnly \<and> modrm_mod (data ! q) = ModRmModIndirect \<and> modrm_rm (data ! q) = ModRmRmRipRelative
       \<longrightarrow> q + 5 \<le> n)"

lemma readModRm_ok:
  "info_ok data i \<Longrightarrow> modrm_fits data q registerOnly (di_Length i) \<Longrightarrow> di_OpcodeOffset i < q \<Longrightarrow>
   \<not> di_HasRipRelativeDisp i \<Longrightarrow>
   info_ok data (readModRm data q registerOnly i)"
  by (auto simp: info_ok_def readModRm_def modrm_fits_def Let_def)

lemma readModRm_fields [simp]:
  "di_Length (readModRm data q r i) = di_Length i"
  "di_OpcodeOffset (readModRm data q r i) = di_OpcodeOffset i"
  "di_HasBranchTarget (readModRm data q r i) = di_HasBranchTarget i"
  "di_TruncatesBranchTarget (readModRm data q r i) = di_TruncatesBranchTarget i"
  by (simp_all add: readModRm_def Let_def)

lemma info_ok_irrelevant [simp]:
  "info_ok data (i\<lparr>di_FlowKind := k\<rparr>) = info_ok data i"
  "info_ok data (i\<lparr>di_HasMemoryOperand := b\<rparr>) = info_ok data i"
  "info_ok data (i\<lparr>di_SegmentPrefix := x\<rparr>) = info_ok data i"
  "info_ok data (i\<lparr>di_Opcode := x\<rparr>) = info_ok data i"
  "info_ok data (i\<lparr>di_IsTwoByteOpcode := b\<rparr>) = info_ok data i"
  "info_ok data (i\<lparr>di_TruncatesBranchTarget := b\<rparr>) = info_ok data i"
  "info_ok data (branch_to k d i) = info_ok data i"
  by (simp_all add: info_ok_def branch_to_def)

lemma memory_operand_ok [simp]:
  "info_ok data (two_byte_memory_operand op r i) = info_ok data i"
  "info_ok data (one_byte_memory_operand op i) = info_ok data i"
  "info_ok data (string_segment op i) = info_ok data i"
  by (simp_all add: two_byte_memory_operand_def one_byte_memory_operand_def string_segment_def Let_def)

lemma vector_info_ok:
  assumes "info_ok data i" and "\<not> di_HasRipRelativeDisp i"
    and "di_OpcodeOffset i < pos"
    and "vectorOpcodeOffset data pos op i + 1 < di_Length i \<Longrightarrow>
         modrm_fits data (vectorOpcodeOffset data pos op i + 1) False (di_Length i)"
  shows "info_ok data (vector_info data pos op i)"
  using assms readModRm_ok [OF assms(1) assms(4) _ assms(2)]
  by (auto simp: vector_info_def Let_def vectorOpcodeOffset_def)

lemma grp5_modrm_ok:
  "info_ok data i \<Longrightarrow> pos < di_Length i \<Longrightarrow> di_OpcodeOffset i < pos \<Longrightarrow> \<not> di_HasRipRelativeDisp i \<Longrightarrow>
   info_ok data (grp5_modrm data pos i)"
  by (simp add: info_ok_def grp5_modrm_def Let_def)

lemma grp5_info_ok:
  assumes "grp5_info data pos (grp5_modrm data pos i) = Some r"
    and "info_ok data i" and "modrm_fits data pos False (di_Length i)"
    and "di_OpcodeOffset i < pos" and "\<not> di_HasRipRelativeDisp i"
  shows "info_ok data r"
  using assms
  by (auto simp: info_ok_def grp5_info_def grp5_modrm_def modrm_fits_def branch_to_def Let_def split: if_splits)

lemma operand_info_ok:
  assumes "info_ok data i" and "\<not> di_HasRipRelativeDisp i" and "di_OpcodeOffset i < pos"
    and "(if two then info_two_byte_has_modrm op else info_one_byte_has_modrm op) \<Longrightarrow> pos < di_Length i \<Longrightarrow>
         modrm_fits data pos (two \<and> is_mov_cr_dr op) (di_Length i)"
  shows "info_ok data (operand_info data pos two op r i)"
  using assms readModRm_ok [OF assms(1) assms(4) assms(3) assms(2)]
  by (auto simp: operand_info_def Let_def)


subsection \<open>Immediates of the branches\<close>

lemma branch_immediates:
  "one_byte_immediate OneByteCallRel32 p = operandImmediateSize p"
  "one_byte_immediate OneByteJmpRel32 p = operandImmediateSize p"
  "one_byte_immediate OneByteJmpRel8 p = ImmSize8"
  "\<not> one_byte_has_modrm OneByteCallRel32" "\<not> one_byte_has_modrm OneByteJmpRel32"
  "\<not> one_byte_has_modrm OneByteJmpRel8" "one_byte_has_modrm OneByteGrp5Rm"
  by (simp_all add: one_byte_immediate_def one_byte_alu_immediate_def one_byte_has_modrm_def)

lemma jcc_rel8_immediate: "is_jcc_rel8 op \<Longrightarrow> \<not> one_byte_has_modrm op \<and> one_byte_immediate op p = ImmSize8"
  unfolding is_jcc_rel8_def one_byte_has_modrm_def one_byte_immediate_def word_le_nat_alt
    word_unat_eq_iff Let_def by simp

lemma short_branch_opcode:
  "is_jcc_rel8 op \<or> is_loop op \<Longrightarrow> op \<noteq> OneByteCallRel32 \<and> op \<noteq> OneByteJmpRel32"
  by (auto simp: is_jcc_rel8_def is_loop_def)

lemma loop_immediate: "is_loop op \<Longrightarrow> \<not> one_byte_has_modrm op \<and> one_byte_immediate op p = ImmSize8"
  unfolding is_loop_def one_byte_has_modrm_def one_byte_immediate_def word_le_nat_alt
    word_unat_eq_iff Let_def by (elim disjE) simp_all

lemma jcc_rel32_operands: "is_jcc_rel32 op \<Longrightarrow> two_byte_operands op p = Inr (False, operandImmediateSize p)"
  unfolding is_jcc_rel32_def two_byte_operands_def by (auto simp: word_le_nat_alt)


subsection \<open>The two passes together\<close>

text \<open>The stages of \<open>Decode\<close> on the buffer of an instruction of length \<open>n\<close>.\<close>

definition decoded :: "bytes \<Rightarrow> nat \<Rightarrow> prefixes \<Rightarrow> nat \<Rightarrow> opcode_state \<Rightarrow> bool \<Rightarrow> nat \<Rightarrow> nat \<Rightarrow> bool" where
  "decoded data pos p q s m im n \<longleftrightarrow>
     decode_opcode data pos = Inr (q, s) \<and> decode_operands p s = Inr (m, im) \<and>
     decode_tail data q p s m im = Inr n"

lemma decoded_bounds:
  assumes "decoded data pos p q s m im n"
  shows "pos < q" and "q \<le> n" and "n \<le> length data" and "m \<Longrightarrow> q < n" and "\<not> m \<Longrightarrow> n = q + im"
  using assms decode_opcode_bounds [of data pos q s] decode_tail_bounds [of data q p s m im n]
    decode_tail_no_modrm [of data q p s im n]
  by (auto simp: decoded_def)

lemma vector_modrm_fits:
  assumes d: "decoded data pos p q s m im n" and v: "vector_opcode data pos q s" and "q < n"
  shows "modrm_fits data q False n"
proof -
  have m: "m"
  proof (rule ccontr)
    assume "\<not> m"
    then have "im = 0" using d v by (auto simp: decoded_def vector_opcode_def decode_operands_def split: if_splits)
    then show False using decoded_bounds(5) [OF d \<open>\<not> m\<close>] \<open>q < n\<close> by simp
  qed
  have "effective_mod s (data ! q) = modrm_mod (data ! q)"
    using v by (simp add: effective_mod_def vector_opcode_def)
  then show ?thesis
    using tail_rip_relative [of data q p s im n] d m \<open>q < n\<close> by (auto simp: modrm_fits_def decoded_def)
qed

lemma legacy_modrm_fits:
  assumes d: "decoded data pos p q s True im n" and v: "legacy_opcode data pos q s"
  shows "modrm_fits data q (data ! pos = TwoByteOpcodeEscape \<and> is_mov_cr_dr (data ! (pos + 1))) n"
proof -
  have "effective_mod s (data ! q) =
      (if data ! pos = TwoByteOpcodeEscape \<and> is_mov_cr_dr (data ! (pos + 1)) then ModRmModRegister
       else modrm_mod (data ! q))"
    using v by (auto simp: effective_mod_def legacy_opcode_def is_mov_cr_dr_def word_le_nat_alt split: if_splits)
  then show ?thesis
    using tail_rip_relative [of data q p s im n] decoded_bounds(4) [OF d] d
    by (auto simp: modrm_fits_def decoded_def split: if_splits)
qed

text \<open>What the operand tables say of an opcode without vector prefix and three-byte escape.\<close>

lemma legacy_operands_one_byte:
  assumes "decoded data pos p q s m im n" and "legacy_opcode data pos q s"
    and "data ! pos \<noteq> TwoByteOpcodeEscape"
  shows "m = one_byte_has_modrm (data ! pos)" and "im = one_byte_immediate (data ! pos) p" and "q = pos + 1"
  using assms by (auto simp: decoded_def decode_operands_def legacy_opcode_def)

lemma legacy_operands_two_byte:
  assumes "decoded data pos p q s m im n" and "legacy_opcode data pos q s"
    and "data ! pos = TwoByteOpcodeEscape"
  shows "if data ! (pos + 1) \<in> {ThreeByteEscape38, ThreeByteEscape3A} then m \<and> q = pos + 3
         else two_byte_operands (data ! (pos + 1)) p = Inr (m, im) \<and> q = pos + 2"
  using assms by (auto simp: decoded_def decode_operands_def legacy_opcode_def split: if_splits)

text \<open>The branch displacement, when the record has one, is the last field of the instruction.\<close>

definition wide_branch :: "instruction_info \<Rightarrow> bool" where
  "wide_branch i \<longleftrightarrow>
     di_IsTwoByteOpcode i \<or> di_Opcode i = OneByteCallRel32 \<or> di_Opcode i = OneByteJmpRel32"

definition branch_ok :: "bytes \<Rightarrow> instruction_info \<Rightarrow> bool" where
  "branch_ok data i \<longleftrightarrow>
     (di_HasBranchTarget i \<longrightarrow>
        \<not> di_TruncatesBranchTarget i \<and>
        di_FlowKind i \<in> {Call, UnconditionalJump, ConditionalBranch} \<and>
        (if wide_branch i \<or> di_HasRipRelativeDisp i
         then di_OpcodeOffset i + 1 \<le> di_Length i - 4 \<and> di_BranchDisp i = disp32 data (di_Length i - 4)
         else di_OpcodeOffset i + 1 \<le> di_Length i - 1 \<and> di_BranchDisp i = disp8 data (di_Length i - 1)))"

text \<open>A record to which only the prefixes and the offset of the opcode have been added.\<close>

definition fresh_info :: "nat \<Rightarrow> nat \<Rightarrow> instruction_info \<Rightarrow> bool" where
  "fresh_info n pos i \<longleftrightarrow>
     di_Length i = n \<and> di_OpcodeOffset i = pos \<and> \<not> di_HasModRm i \<and> \<not> di_HasRipRelativeDisp i \<and>
     \<not> di_HasBranchTarget i \<and> \<not> di_TruncatesBranchTarget i"

lemma fresh_ok: "fresh_info n pos i \<Longrightarrow> info_ok data i"
  by (simp add: fresh_info_def info_ok_def)

lemma no_branch_ok: "\<not> di_HasBranchTarget i \<Longrightarrow> branch_ok data i"
  by (simp add: branch_ok_def)

lemma no_branch_fields [simp]:
  "di_HasBranchTarget (two_byte_memory_operand op r i) = di_HasBranchTarget i"
  "di_HasBranchTarget (one_byte_memory_operand op i) = di_HasBranchTarget i"
  "di_HasBranchTarget (string_segment op i) = di_HasBranchTarget i"
  "di_HasBranchTarget (grp5_modrm data pos i) = di_HasBranchTarget i"
  "di_HasRipRelativeDisp (grp5_modrm data pos i) = di_HasRipRelativeDisp i"
  "di_OpcodeOffset (grp5_modrm data pos i) = di_OpcodeOffset i"
  "di_Length (grp5_modrm data pos i) = di_Length i"
  by (simp_all add: two_byte_memory_operand_def one_byte_memory_operand_def string_segment_def
      grp5_modrm_def Let_def)

lemma no_branch_operand_info [simp]:
  "di_HasBranchTarget (operand_info data pos two op r i) = di_HasBranchTarget i"
  "di_HasBranchTarget (vector_info data pos op i) = di_HasBranchTarget i"
  by (simp_all add: operand_info_def vector_info_def Let_def)


text \<open>The rest of the state that the prefixes leave for the opcode.\<close>

definition prefixes_kept :: "prefixes \<Rightarrow> info_prefixes \<Rightarrow> instruction_info \<Rightarrow> bool" where
  "prefixes_kept p s i \<longleftrightarrow>
     (rexPresent p \<or> rex p = 0) \<and> ip_operandSizeOverride s = operandSizeOverride p \<and> di_RexPrefix i = rex p"

lemma not_truncated_size:
  assumes "truncated_branch two op s i = None" and "relativeNearBranch two op" and "prefixes_kept p s i"
  shows "operandImmediateSize p = 4"
  using assms by (auto simp: truncated_branch_def prefixes_kept_def operandImmediateSize_def rexW_def split: if_splits)

lemma truncated_branch_ok:
  assumes "truncated_branch two op s i = Some r" and "fresh_info n pos i"
  shows "info_ok data r" and "branch_ok data r"
  using assms fresh_ok [OF assms(2), of data]
  by (auto simp: truncated_branch_def branch_ok_def fresh_info_def split: if_splits)

lemma branch_to_ok:
  assumes f: "fresh_info n pos i" and "kind \<in> {Call, UnconditionalJump, ConditionalBranch}"
    and "if wide_branch i then n = q + 4 \<and> d = disp32 data q else n = q + 1 \<and> d = disp8 data q"
    and "pos < q"
  shows "info_ok data (branch_to kind d i)" and "branch_ok data (branch_to kind d i)"
proof -
  show "info_ok data (branch_to kind d i)" using fresh_ok [OF f] by simp
  show "branch_ok data (branch_to kind d i)"
    using assms(2-) f by (auto simp: branch_ok_def branch_to_def fresh_info_def wide_branch_def split: if_splits)
qed

lemma one_byte_flow_branches:
  "one_byte_flow data q OneByteCallRel32 i = (Some (branch_to Call (disp32 data q) i), i)"
  "one_byte_flow data q OneByteJmpRel32 i = (Some (branch_to UnconditionalJump (disp32 data q) i), i)"
  "one_byte_flow data q OneByteJmpRel8 i = (Some (branch_to UnconditionalJump (disp8 data q) i), i)"
  "is_jcc_rel8 op \<Longrightarrow> one_byte_flow data q op i = (Some (branch_to ConditionalBranch (disp8 data q) i), i)"
  "is_loop op \<Longrightarrow> one_byte_flow data q op i = (Some (branch_to ConditionalBranch (disp8 data q) i), i)"
  "q < di_Length i \<Longrightarrow> one_byte_flow data q OneByteGrp5Rm i =
     (grp5_info data q (grp5_modrm data q i), grp5_modrm data q i)"
  by (auto simp: one_byte_flow_def is_jcc_rel8_def is_loop_def)

lemma opcode_info_one_byte:
  assumes "truncated_branch False op t (i\<lparr>di_Opcode := op, di_IsTwoByteOpcode := False\<rparr>) = None"
  shows "opcode_info data q False op t i =
     (case one_byte_flow data q op (i\<lparr>di_Opcode := op, di_IsTwoByteOpcode := False\<rparr>) of
        (Some result, _) \<Rightarrow> result
      | (None, info) \<Rightarrow> operand_info data q False op (ip_repPrefix t) info)"
  using assms by (simp add: opcode_info_def Let_def)

lemma opcode_info_two_byte:
  assumes "truncated_branch True op t (i\<lparr>di_Opcode := op, di_IsTwoByteOpcode := True\<rparr>) = None"
  shows "opcode_info data q True op t i =
     (case two_byte_flow data q op (i\<lparr>di_Opcode := op, di_IsTwoByteOpcode := True\<rparr>) of
        Some result \<Rightarrow> result
      | None \<Rightarrow> operand_info data q True op (ip_repPrefix t) (i\<lparr>di_Opcode := op, di_IsTwoByteOpcode := True\<rparr>))"
  using assms by (simp add: opcode_info_def Let_def split: option.splits)

lemma grp5_branch_ok:
  assumes "grp5_info data pos (grp5_modrm data pos i) = Some r" and "\<not> di_HasBranchTarget i"
    and "di_OpcodeOffset i < pos" and "modrm_fits data pos False (di_Length i)"
    and "\<not> di_TruncatesBranchTarget i"
    and "modrm_mod (data ! pos) = ModRmModIndirect \<and> modrm_rm (data ! pos) = ModRmRmRipRelative \<Longrightarrow>
         di_Length i = pos + 5"
  shows "branch_ok data r"
  using assms
  by (auto simp: grp5_info_def grp5_modrm_def branch_ok_def branch_to_def modrm_fits_def Let_def split: if_splits)

lemma grp5_length:
  assumes d: "decoded data pos p q s True im n" and v: "legacy_opcode data pos q s"
    and op: "data ! pos = OneByteGrp5Rm"
    and rip: "modrm_mod (data ! q) = ModRmModIndirect" "modrm_rm (data ! q) = ModRmRmRipRelative"
  shows "n = q + 5"
proof -
  have opc: "opcode s = OneByteGrp5Rm" "\<not> twoByteOpcode s" "\<not> threeByteEscape s"
    using v op by (auto simp: legacy_opcode_def)
  then have "effective_mod s (data ! q) = ModRmModIndirect"
    using rip by (simp add: effective_mod_def)
  moreover have "im = 0"
    using legacy_operands_one_byte(2) [OF d v] op
    by (simp add: one_byte_immediate_def one_byte_alu_immediate_def)
  then have "grp3_immediate p s (data ! q) im = 0"
    using opc by (simp add: grp3_immediate_def)
  ultimately show ?thesis
    using d rip unfolding decoded_def
    by (auto elim!: decode_tail_modrm simp: decode_sib_def displacement_size_def)
qed

lemma one_byte_info_ok:
  assumes d: "decoded data pos p q s m im n" and v: "legacy_opcode data pos q s"
    and op: "data ! pos \<noteq> TwoByteOpcodeEscape" and f: "fresh_info n pos i" and k: "prefixes_kept p t i"
  shows "info_ok data (opcode_info data q False (data ! pos) t i) \<and>
         branch_ok data (opcode_info data q False (data ! pos) t i)"
proof -
  let ?op = "data ! pos"
  let ?i = "i\<lparr>di_Opcode := ?op, di_IsTwoByteOpcode := False\<rparr>"
  have q: "q = pos + 1" and m: "m = one_byte_has_modrm ?op" and im: "im = one_byte_immediate ?op p"
    using legacy_operands_one_byte [OF d v op] by auto
  have f': "fresh_info n pos ?i" and k': "prefixes_kept p t ?i"
    using f k by (simp_all add: fresh_info_def prefixes_kept_def)
  note ok = fresh_ok [OF f', of data]
  have fits: "modrm_fits data q False n" if "one_byte_has_modrm ?op"
    using legacy_modrm_fits [OF _ v, of p im n] d that m op by simp
  show ?thesis
  proof (cases "truncated_branch False ?op t ?i")
    case (Some r)
    then show ?thesis using truncated_branch_ok [OF Some f'] by (simp add: opcode_info_def)
  next
    case None
    note info = opcode_info_one_byte [OF None, of data q]
    note size = not_truncated_size [OF None _ k']
    have n: "n = q + im" if "\<not> one_byte_has_modrm ?op" using decoded_bounds(5) [OF d] that m by simp
    have operand: "info_ok data (operand_info data q False ?op r j) \<and> branch_ok data (operand_info data q False ?op r j)"
      if "info_ok data j" "\<not> di_HasRipRelativeDisp j" "di_OpcodeOffset j < q" "di_Length j = n"
        "\<not> di_HasBranchTarget j" for r j
      using operand_info_ok [OF that(1-3), of False ?op r] fits that one_byte_modrm_agrees
      by (simp add: no_branch_ok)
    consider "?op = OneByteCallRel32" | "?op = OneByteJmpRel32" | "?op = OneByteJmpRel8"
      | "is_jcc_rel8 ?op" | "is_loop ?op" | "?op = OneByteGrp5Rm" "q < n"
      | "?op \<noteq> OneByteCallRel32" "?op \<noteq> OneByteJmpRel32" "?op \<noteq> OneByteJmpRel8" "\<not> is_jcc_rel8 ?op"
        "\<not> is_loop ?op" "\<not> (?op = OneByteGrp5Rm \<and> q < n)" by blast
    then show ?thesis
    proof cases
      case 1
      then show ?thesis using n im size branch_to_ok [OF f', of Call q "disp32 data q" data] q unfolding info
        by (simp add: one_byte_flow_branches wide_branch_def branch_immediates relativeNearBranch_def)
    next
      case 2
      then show ?thesis using n im size branch_to_ok [OF f', of UnconditionalJump q "disp32 data q" data] q unfolding info
        by (simp add: one_byte_flow_branches wide_branch_def branch_immediates relativeNearBranch_def)
    next
      case 3
      then show ?thesis using n im branch_to_ok [OF f', of UnconditionalJump q "disp8 data q" data] q unfolding info
        by (simp add: one_byte_flow_branches wide_branch_def branch_immediates)
    next
      case 4
      then show ?thesis
        using n im branch_to_ok [OF f', of ConditionalBranch q "disp8 data q" data] q
          jcc_rel8_immediate [of ?op p] short_branch_opcode [of ?op] unfolding info
        by (simp add: one_byte_flow_branches wide_branch_def)
    next
      case 5
      then show ?thesis
        using n im branch_to_ok [OF f', of ConditionalBranch q "disp8 data q" data] q
          loop_immediate [of ?op p] short_branch_opcode [of ?op] unfolding info
        by (simp add: one_byte_flow_branches wide_branch_def)
    next
      case 6
      then have mt: "m" "q < di_Length ?i" "di_OpcodeOffset ?i < q"
        using m f q by (simp_all add: branch_immediates fresh_info_def)
      note g = grp5_modrm_ok [OF ok mt(2,3)]
      show ?thesis
      proof (cases "grp5_info data q (grp5_modrm data q ?i)")
        case n': None
        then show ?thesis
          using 6(1) operand [of "grp5_modrm data q ?i"] g f' mt unfolding info
          by (simp add: one_byte_flow_branches fresh_info_def)
      next
        case (Some r)
        have "info_ok data r" "branch_ok data r"
          using grp5_info_ok [OF Some ok] grp5_branch_ok [OF Some] fits f' mt m grp5_length [of data pos p q s im n]
            d v 6(1) by (auto simp: fresh_info_def)
        then show ?thesis
          using 6(1) Some mt unfolding info by (simp add: one_byte_flow_branches)
      qed
    next
      case 7
      then show ?thesis
        using operand [of ?i] ok f' q unfolding info one_byte_flow_def fresh_info_def
        by (auto simp: no_branch_ok)
    qed
  qed
qed

lemma two_byte_info_ok:
  assumes d: "decoded data pos p q s m im n" and v: "legacy_opcode data pos q s"
    and esc: "data ! pos = TwoByteOpcodeEscape" and f: "fresh_info n pos i" and k: "prefixes_kept p t i"
  shows "info_ok data (opcode_info data q True (data ! (pos + 1)) t i) \<and>
         branch_ok data (opcode_info data q True (data ! (pos + 1)) t i)"
proof -
  let ?op = "data ! (pos + 1)"
  let ?i = "i\<lparr>di_Opcode := ?op, di_IsTwoByteOpcode := True\<rparr>"
  let ?esc = "?op \<in> {ThreeByteEscape38, ThreeByteEscape3A}"
  have q: "pos + 1 < q" and operands: "if ?esc then m else two_byte_operands ?op p = Inr (m, im)"
    using legacy_operands_two_byte [OF d v esc] by (auto split: if_splits)
  have f': "fresh_info n pos ?i" and k': "prefixes_kept p t ?i"
    using f k by (simp_all add: fresh_info_def prefixes_kept_def)
  note ok = fresh_ok [OF f', of data]
  have fits: "modrm_fits data q (is_mov_cr_dr ?op) n" if m
    using legacy_modrm_fits [OF _ v, of p im n] d that esc by simp
  have n: "n = q + im" if "\<not> m" using decoded_bounds(5) [OF d that] .
  show ?thesis
  proof (cases "truncated_branch True ?op t ?i")
    case (Some r)
    then show ?thesis using truncated_branch_ok [OF Some f'] by (simp add: opcode_info_def)
  next
    case None
    show ?thesis
    proof (cases "is_jcc_rel32 ?op")
      case True
      then have "\<not> ?esc" by (auto simp: is_jcc_rel32_def)
      then have "\<not> m" "im = operandImmediateSize p" using operands jcc_rel32_operands [OF True, of p] by auto
      moreover have "operandImmediateSize p = 4"
        using not_truncated_size [OF None _ k'] True by (simp add: relativeNearBranch_def)
      moreover have "?op \<noteq> 0x0B" "?op \<noteq> TwoByteUd1" "?op \<noteq> TwoByteUd0"
        using True by (auto simp: is_jcc_rel32_def word_le_nat_alt)
      ultimately show ?thesis
        using n branch_to_ok [OF f', of ConditionalBranch q "disp32 data q" data] q True
        unfolding opcode_info_two_byte [OF None] two_byte_flow_def by (simp add: wide_branch_def)
    next
      case jcc: False
      have ud: "m \<and> \<not> is_mov_cr_dr ?op" if "?op = TwoByteUd1 \<or> ?op = TwoByteUd0"
        using operands that by (auto simp: two_byte_operands_def is_mov_cr_dr_def)
      have table: "modrm_fits data q (is_mov_cr_dr ?op) n" if "info_two_byte_has_modrm ?op" "q < n"
      proof (cases m)
        case False
        then show ?thesis using two_byte_modrm_agrees [OF that(1), of p im] operands jcc n that(2)
          by (auto split: if_splits)
      qed (rule fits)
      have "info_ok data (operand_info data q True ?op (ip_repPrefix t) ?i)"
        using operand_info_ok [OF ok, of q True ?op "ip_repPrefix t"] table f' q
        by (simp add: fresh_info_def)
      moreover have "info_ok data (readModRm data q False ?i)" if "?op = TwoByteUd1 \<or> ?op = TwoByteUd0"
        using readModRm_ok [OF ok, of q False] ud [OF that] fits f' q by (simp add: fresh_info_def)
      ultimately show ?thesis
        using jcc ok f' unfolding opcode_info_two_byte [OF None] two_byte_flow_def fresh_info_def
        by (auto simp: no_branch_ok)
    qed
  qed
qed


lemma vector_prefix_iff:
  assumes d: "decoded data pos p q s m im n" and "di_Length i = n"
  shows "is_vector_prefix data (pos + 1) (data ! pos) i \<longleftrightarrow> vector_opcode data pos q s"
    and "vector_opcode data pos q s \<Longrightarrow> vectorOpcodeOffset data (pos + 1) (data ! pos) i + 1 = q"
proof -
  note b = decoded_bounds(1-3) [OF d]
  have shape: "vector_opcode data pos q s \<or> legacy_opcode data pos q s"
    using decode_opcode_shape d by (simp add: decoded_def)
  show "is_vector_prefix data (pos + 1) (data ! pos) i \<longleftrightarrow> vector_opcode data pos q s"
  proof
    assume "vector_opcode data pos q s"
    then show "is_vector_prefix data (pos + 1) (data ! pos) i"
      using b assms(2) by (auto simp: vector_opcode_def is_vector_prefix_def is_xop_def)
  next
    assume v: "is_vector_prefix data (pos + 1) (data ! pos) i"
    have "\<not> legacy_opcode data pos q s"
      using v b assms(2) by (auto simp: legacy_opcode_def is_vector_prefix_def is_xop_def not_less)
    with shape show "vector_opcode data pos q s" by blast
  qed
  show "vectorOpcodeOffset data (pos + 1) (data ! pos) i + 1 = q" if "vector_opcode data pos q s"
    using that b assms(2) by (auto simp: vector_opcode_def vectorOpcodeOffset_def is_xop_def)
qed

lemma escape_info_ok:
  assumes d: "decoded data pos p q s m im n" and f: "fresh_info n pos i" and k: "prefixes_kept p t i"
  shows "info_ok data (escape_info data pos t i) \<and> branch_ok data (escape_info data pos t i)"
proof -
  note b = decoded_bounds [OF d]
  have n: "di_Length i = n" using f by (simp add: fresh_info_def)
  show ?thesis
  proof (cases "vector_opcode data pos q s")
    case True
    note v = vector_prefix_iff [OF d n]
    have offset: "vectorOpcodeOffset data (pos + 1) (data ! pos) i + 1 = q" by (rule v(2) [OF True])
    have "info_ok data (vector_info data (pos + 1) (data ! pos) i)"
      using vector_info_ok [OF fresh_ok [OF f, of data], where pos = "pos + 1" and op = "data ! pos"] vector_modrm_fits [OF d True] f n
      unfolding offset by (simp add: fresh_info_def)
    then show ?thesis
      using v(1) True f by (simp add: escape_info_def Let_def fresh_info_def no_branch_ok)
  next
    case False
    then have l: "legacy_opcode data pos q s" and not_vector: "\<not> is_vector_prefix data (pos + 1) (data ! pos) i"
      using decode_opcode_shape d vector_prefix_iff(1) [OF d n] by (auto simp: decoded_def)
    show ?thesis
    proof (cases "data ! pos = TwoByteOpcodeEscape")
      case True
      have "pos + 1 < n" using l True b(2) by (auto simp: legacy_opcode_def split: if_splits)
      moreover have "(if data ! (pos + 1) = ThreeByteEscape38 \<or> data ! (pos + 1) = ThreeByteEscape3A
          then pos + 1 + 1 + 1 else pos + 1 + 1) = q"
        using legacy_operands_two_byte [OF d l True] by (auto split: if_splits)
      ultimately show ?thesis
        using not_vector n True two_byte_info_ok [OF d l True f k]
        unfolding escape_info_def Let_def by simp
    next
      case False
      then show ?thesis
        using not_vector one_byte_info_ok [OF d l False f k] legacy_operands_one_byte(3) [OF d l False]
        unfolding escape_info_def Let_def by simp
    qed
  qed
qed

lemma info_fields [simp]:
  "di_Length (two_byte_memory_operand op r i) = di_Length i"
  "di_Length (one_byte_memory_operand op i) = di_Length i"
  "di_Length (string_segment op i) = di_Length i"
  "di_OpcodeOffset (two_byte_memory_operand op r i) = di_OpcodeOffset i"
  "di_OpcodeOffset (one_byte_memory_operand op i) = di_OpcodeOffset i"
  "di_OpcodeOffset (string_segment op i) = di_OpcodeOffset i"
  "di_Length (branch_to k d i) = di_Length i"
  "di_OpcodeOffset (branch_to k d i) = di_OpcodeOffset i"
  by (simp_all add: two_byte_memory_operand_def one_byte_memory_operand_def string_segment_def
      branch_to_def Let_def)

lemma operand_info_fields [simp]:
  "di_Length (operand_info data pos two op r i) = di_Length i"
  "di_OpcodeOffset (operand_info data pos two op r i) = di_OpcodeOffset i"
  "di_Length (vector_info data pos op i) = di_Length i"
  "di_OpcodeOffset (vector_info data pos op i) = di_OpcodeOffset i"
  by (simp_all add: operand_info_def vector_info_def Let_def)

lemma flow_fields:
  "one_byte_flow data pos op i = (r, j) \<Longrightarrow>
     di_Length j = di_Length i \<and> di_OpcodeOffset j = di_OpcodeOffset i \<and>
     (\<forall>k. r = Some k \<longrightarrow> di_Length k = di_Length i \<and> di_OpcodeOffset k = di_OpcodeOffset i)"
  "two_byte_flow data pos op i = Some k \<Longrightarrow>
     di_Length k = di_Length i \<and> di_OpcodeOffset k = di_OpcodeOffset i"
  "truncated_branch two op t i = Some k \<Longrightarrow>
     di_Length k = di_Length i \<and> di_OpcodeOffset k = di_OpcodeOffset i"
  by (auto simp: one_byte_flow_def grp5_info_def two_byte_flow_def truncated_branch_def Let_def split: if_splits)

lemma opcode_info_fields [simp]:
  "di_Length (opcode_info data pos two op t i) = di_Length i"
  "di_OpcodeOffset (opcode_info data pos two op t i) = di_OpcodeOffset i"
proof -
  define k where "k = i\<lparr>di_Opcode := op, di_IsTwoByteOpcode := two\<rparr>"
  have k: "di_Length k = di_Length i" "di_OpcodeOffset k = di_OpcodeOffset i"
    by (simp_all add: k_def)
  obtain r j where flow: "(if two then (two_byte_flow data pos op k, k) else one_byte_flow data pos op k) = (r, j)"
    by (rule prod.exhaust)
  have j: "di_Length j = di_Length k \<and> di_OpcodeOffset j = di_OpcodeOffset k \<and>
      (\<forall>l. r = Some l \<longrightarrow> di_Length l = di_Length k \<and> di_OpcodeOffset l = di_OpcodeOffset k)"
  proof (cases two)
    case True
    then show ?thesis using flow flow_fields(2) [of data pos op k] by (metis prod.inject)
  next
    case False
    then have "one_byte_flow data pos op k = (r, j)" using flow by simp
    then show ?thesis by (rule flow_fields(1))
  qed
  have o: "opcode_info data pos two op t i =
      (case truncated_branch two op t k of Some result \<Rightarrow> result
       | None \<Rightarrow> (case r of Some result \<Rightarrow> result | None \<Rightarrow> operand_info data pos two op (ip_repPrefix t) j))"
    unfolding opcode_info_def Let_def k_def [symmetric] flow by (simp split: option.splits)
  have "di_Length (opcode_info data pos two op t i) = di_Length k \<and>
      di_OpcodeOffset (opcode_info data pos two op t i) = di_OpcodeOffset k"
  proof (cases "truncated_branch two op t k")
    case (Some l)
    then show ?thesis using flow_fields(3) [OF Some] by (simp only: o option.case)
  next
    case None
    then show ?thesis using j by (cases r) (simp_all only: o option.case operand_info_fields simp_thms)
  qed
  then show "di_Length (opcode_info data pos two op t i) = di_Length i"
    and "di_OpcodeOffset (opcode_info data pos two op t i) = di_OpcodeOffset i"
    using k by simp_all
qed

lemma escape_info_fields:
  "di_Length (escape_info data pos t i) = di_Length i \<and>
   di_OpcodeOffset (escape_info data pos t i) = di_OpcodeOffset i"
proof -
  define op where "op = data ! pos"
  show ?thesis
    by (simp only: escape_info_def Let_def op_def [symmetric] opcode_info_fields operand_info_fields simp_thms split: if_split)
qed

lemma DecodeInstruction_ok:
  assumes "DecodeInstruction data = Inr i"
  obtains n pos p where "Decode data = Inr n" and "decode_prefixes data 0 no_prefixes = Inr (pos, p)"
    and "di_Length i = n" and "di_OpcodeOffset i = pos" and "pos < n"
    and "info_ok data i" and "branch_ok data i"
proof -
  obtain n where n: "Decode data = Inr n"
    using assms by (auto simp: DecodeInstruction_def res_simps)
  obtain pos p q s m im where pre: "decode_prefixes data 0 no_prefixes = Inr (pos, p)"
    and d: "decoded data pos p q s m im n"
    using Decode_stages [OF n] unfolding decoded_def by metis
  have pos: "pos < n" using decoded_bounds [OF d] by linarith
  let ?s = "\<lparr>ip_info = empty_info n, ip_operandSizeOverride = False, ip_repPrefix = False\<rparr>"
  have "prefixes_match n no_prefixes ?s"
    by (simp add: prefixes_match_def no_prefixes_def empty_info_def)
  from info_prefix_loop_agrees [OF pre _ this, of n] pos
  obtain t where t: "info_prefix_loop (take n data) 0 ?s = (pos, t)" and match: "prefixes_match n p t"
    by auto
  let ?i = "(ip_info t)\<lparr>di_OpcodeOffset := pos\<rparr>"
  have i: "i = escape_info data pos t ?i"
    using assms n t pos by (simp add: DecodeInstruction_def Let_def)
  have "fresh_info n pos ?i" "prefixes_kept p t ?i"
    using match by (simp_all add: fresh_info_def prefixes_kept_def prefixes_match_def)
  from escape_info_ok [OF d this] escape_info_fields [of data pos t ?i] show thesis
    using that [OF n pre _ _ pos] match by (simp add: i prefixes_match_def)
qed

subsection \<open>A concrete instruction and the properties\<close>

text \<open>
  C28: offsets of the decoded record. When \<open>DecodeInstruction\<close> returns a record, its length is the
  one \<open>Decode\<close> computes, the opcode offset is the number of prefix bytes and lies in the
  instruction, a reported ModRM byte lies between the opcode and the end and has the reported value,
  and a reported RIP-relative displacement directly follows that byte with all its four bytes inside
  the instruction, so that the rewriter may patch it in place.\<close>

theorem instruction_info_in_bounds:
  assumes "DecodeInstruction data = Inr i"
  shows "Decode data = Inr (di_Length i) \<and>
     (\<exists>p. decode_prefixes data 0 no_prefixes = Inr (di_OpcodeOffset i, p)) \<and>
     di_OpcodeOffset i < di_Length i \<and>
     (di_HasModRm i \<longrightarrow>
        di_OpcodeOffset i < di_ModRmOffset i \<and> di_ModRmOffset i < di_Length i \<and>
        di_ModRmByte i = data ! di_ModRmOffset i \<and> di_ModRmRegField i = modrm_reg (di_ModRmByte i)) \<and>
     (di_HasRipRelativeDisp i \<longrightarrow>
        di_HasModRm i \<and> di_RipRelativeDispOffset i = di_ModRmOffset i + 1 \<and>
        di_RipRelativeDispOffset i + 4 \<le> di_Length i)"
  by (rule DecodeInstruction_ok [OF assms]) (auto simp: info_ok_def)

lemma instruction_info_in_bounds_witness:
  "\<exists>i. DecodeInstruction [0x48, 0x8B, 0x05, 0x10, 0x20, 0x30, 0x40, 0x90] = Inr i \<and>
       di_HasRipRelativeDisp i \<and> di_RipRelativeDispOffset i + 4 \<le> di_Length i"
proof -
  let ?d = "[0x48, 0x8B, 0x05, 0x10, 0x20, 0x30, 0x40, 0x90] :: bytes"
  have "res_holds di_HasRipRelativeDisp (DecodeInstruction ?d)" by code_simp
  from res_holdsD [OF this] obtain i where i: "DecodeInstruction ?d = Inr i" "di_HasRipRelativeDisp i"
    by blast
  show ?thesis using i instruction_info_in_bounds [OF i(1)] by blast
qed

text \<open>
  Branch displacements. A record with a branch target is a call or a conditional or unconditional
  jump that no operand-size prefix truncates, and its displacement is the sign-extended last field of
  the instruction: four bytes for a two-byte opcode, a near call or jump and a jump through memory,
  one byte otherwise. The target computed as the end of the
  instruction plus the displacement is therefore the one the processor jumps to.\<close>

theorem branch_displacement_last_field:
  assumes "DecodeInstruction data = Inr i" and "di_HasBranchTarget i"
  shows "\<not> di_TruncatesBranchTarget i \<and>
     di_FlowKind i \<in> {Call, UnconditionalJump, ConditionalBranch} \<and>
     (if wide_branch i \<or> di_HasRipRelativeDisp i
      then di_OpcodeOffset i + 1 \<le> di_Length i - 4 \<and> di_BranchDisp i = disp32 data (di_Length i - 4)
      else di_OpcodeOffset i + 1 \<le> di_Length i - 1 \<and> di_BranchDisp i = disp8 data (di_Length i - 1))"
  using DecodeInstruction_ok [OF assms(1)] assms(2) unfolding branch_ok_def by metis

lemma branch_displacement_last_field_witness:
  "\<exists>i. DecodeInstruction [0x0F, 0x84, 0xFC, 0xFF, 0xFF, 0xFF] = Inr i \<and> di_HasBranchTarget i \<and>
       di_FlowKind i \<in> {Call, UnconditionalJump, ConditionalBranch}"
proof -
  let ?d = "[0x0F, 0x84, 0xFC, 0xFF, 0xFF, 0xFF] :: bytes"
  have "res_holds di_HasBranchTarget (DecodeInstruction ?d)" by code_simp
  from res_holdsD [OF this] obtain i where i: "DecodeInstruction ?d = Inr i" "di_HasBranchTarget i"
    by blast
  show ?thesis using i branch_displacement_last_field [OF i] by blast
qed

end
