(* ===== verification/X64_Recognisers.thy ===== *)
theory X64_Recognisers
  imports X64_Instruction_Info
begin

text \<open>
  \<open>DecodedInstruction\<close> (\<open>codegen/src/x86/DecodedInstruction.cpp\<close>): the recognisers of the
  instructions that only AMD processors have, by prefix, opcode and ModRM byte. The instruction is
  the list of its bytes (\<open>Data\<close> and \<open>Length\<close>). The lemmas reduce each recogniser to a signature of
  the bytes after the prefixes and show that no two recognisers accept the same instruction.
\<close>

subsection \<open>Prefixes\<close>

record prefix_flags =
  hasOperandSizePrefix :: bool
  hasRepnePrefix :: bool
  hasRepPrefix :: bool

definition no_flags :: prefix_flags where
  "no_flags = \<lparr>hasOperandSizePrefix = False, hasRepnePrefix = False, hasRepPrefix = False\<rparr>"

fun skip_prefixes :: "bytes \<Rightarrow> nat \<Rightarrow> prefix_flags \<Rightarrow> nat \<times> prefix_flags" where
  "skip_prefixes [] pos f = (pos, f)"
| "skip_prefixes (b # bs) pos f =
     (if is_rex b then skip_prefixes bs (pos + 1) f
      else if b = PrefixRepne then skip_prefixes bs (pos + 1) (f\<lparr>hasRepnePrefix := True\<rparr>)
      else if b = PrefixRep then skip_prefixes bs (pos + 1) (f\<lparr>hasRepPrefix := True\<rparr>)
      else if b = PrefixLock \<or> b = PrefixSegCs \<or> b = PrefixSegSs \<or> b = PrefixSegDs \<or>
              b = PrefixSegEs \<or> b = PrefixSegFs \<or> b = PrefixSegGs
      then skip_prefixes bs (pos + 1) f
      else if b = PrefixOperandSize then skip_prefixes bs (pos + 1) (f\<lparr>hasOperandSizePrefix := True\<rparr>)
      else if b = PrefixAddressSize then skip_prefixes bs (pos + 1) f
      else (pos, f))"

definition skipPrefixesAndRex :: "bytes \<Rightarrow> nat \<times> prefix_flags" where
  "skipPrefixesAndRex data = skip_prefixes data 0 no_flags"

definition OpcodeOffset :: "bytes \<Rightarrow> nat" where
  "OpcodeOffset data = fst (skipPrefixesAndRex data)"

subsection \<open>The recognisers\<close>

definition IsShaNi :: "bytes \<Rightarrow> bool" where
  "IsShaNi data =
     (let (pos, f) = skipPrefixesAndRex data in
      if hasOperandSizePrefix f \<or> hasRepnePrefix f \<or> hasRepPrefix f then False
      else if pos + 2 \<ge> length data then False
      else if data ! pos \<noteq> TwoByteOpcodeEscape then False
      else if data ! (pos + 1) = ThreeByteEscape38
      then (let opc = data ! (pos + 2) in
            opc = 0xC8 \<or> opc = 0xC9 \<or> opc = 0xCA \<or> opc = 0xCB \<or> opc = 0xCC \<or> opc = 0xCD)
      else if data ! (pos + 1) = ThreeByteEscape3A then data ! (pos + 2) = 0xCC
      else False)"

definition IsSha256 :: "bytes \<Rightarrow> bool" where
  "IsSha256 data =
     (let (pos, f) = skipPrefixesAndRex data in
      if hasOperandSizePrefix f \<or> hasRepnePrefix f \<or> hasRepPrefix f then False
      else if pos + 2 \<ge> length data then False
      else if data ! pos \<noteq> TwoByteOpcodeEscape \<or> data ! (pos + 1) \<noteq> ThreeByteEscape38 then False
      else (let opc = data ! (pos + 2) in opc = 0xCB \<or> opc = 0xCC \<or> opc = 0xCD))"

definition IsSha1 :: "bytes \<Rightarrow> bool" where
  "IsSha1 data =
     (let (pos, f) = skipPrefixesAndRex data in
      if hasOperandSizePrefix f \<or> hasRepnePrefix f \<or> hasRepPrefix f then False
      else if pos + 2 \<ge> length data \<or> data ! pos \<noteq> TwoByteOpcodeEscape then False
      else (let opc = data ! (pos + 2) in
            if data ! (pos + 1) = ThreeByteEscape38 then opc = 0xC8 \<or> opc = 0xC9 \<or> opc = 0xCA
            else data ! (pos + 1) = ThreeByteEscape3A \<and> opc = 0xCC))"

definition IsExtrq :: "bytes \<Rightarrow> bool" where
  "IsExtrq data =
     (let (pos, f) = skipPrefixesAndRex data in
      if \<not> hasOperandSizePrefix f \<or> hasRepnePrefix f \<or> hasRepPrefix f then False
      else if pos + 1 \<ge> length data then False
      else data ! pos = TwoByteOpcodeEscape \<and>
           (data ! (pos + 1) = TwoByteExtrqInsertqImm8Imm8 \<or> data ! (pos + 1) = TwoByteExtrqInsertqModRm))"

definition IsInsertq :: "bytes \<Rightarrow> bool" where
  "IsInsertq data =
     (let (pos, f) = skipPrefixesAndRex data in
      if hasOperandSizePrefix f \<or> \<not> hasRepnePrefix f \<or> hasRepPrefix f then False
      else if pos + 1 \<ge> length data then False
      else data ! pos = TwoByteOpcodeEscape \<and>
           (data ! (pos + 1) = TwoByteExtrqInsertqImm8Imm8 \<or> data ! (pos + 1) = TwoByteExtrqInsertqModRm))"

definition IsMonitorx :: "bytes \<Rightarrow> bool" where
  "IsMonitorx data =
     (let (pos, f) = skipPrefixesAndRex data in
      if hasOperandSizePrefix f \<or> hasRepnePrefix f \<or> hasRepPrefix f then False
      else if pos + 2 \<ge> length data then False
      else data ! pos = TwoByteOpcodeEscape \<and> data ! (pos + 1) = TwoByteGrp7 \<and> data ! (pos + 2) = 0xFA)"

definition IsMwaitx :: "bytes \<Rightarrow> bool" where
  "IsMwaitx data =
     (let (pos, f) = skipPrefixesAndRex data in
      if hasOperandSizePrefix f \<or> hasRepnePrefix f \<or> hasRepPrefix f then False
      else if pos + 2 \<ge> length data then False
      else data ! pos = TwoByteOpcodeEscape \<and> data ! (pos + 1) = TwoByteGrp7 \<and> data ! (pos + 2) = 0xFB)"

definition IsClzero :: "bytes \<Rightarrow> bool" where
  "IsClzero data =
     (let (pos, f) = skipPrefixesAndRex data in
      if hasOperandSizePrefix f \<or> hasRepnePrefix f \<or> hasRepPrefix f then False
      else if pos + 2 \<ge> length data then False
      else data ! pos = TwoByteOpcodeEscape \<and> data ! (pos + 1) = TwoByteGrp7 \<and> data ! (pos + 2) = 0xFC)"

definition IsRdpru :: "bytes \<Rightarrow> bool" where
  "IsRdpru data =
     (let (pos, f) = skipPrefixesAndRex data in
      if hasOperandSizePrefix f \<or> hasRepnePrefix f \<or> hasRepPrefix f then False
      else if pos + 2 \<ge> length data then False
      else data ! pos = TwoByteOpcodeEscape \<and> data ! (pos + 1) = TwoByteGrp7 \<and> data ! (pos + 2) = 0xFD)"

definition IsMcommit :: "bytes \<Rightarrow> bool" where
  "IsMcommit data =
     (let (pos, f) = skipPrefixesAndRex data in
      if hasOperandSizePrefix f \<or> hasRepnePrefix f \<or> \<not> hasRepPrefix f then False
      else if pos + 2 \<ge> length data then False
      else data ! pos = TwoByteOpcodeEscape \<and> data ! (pos + 1) = TwoByteGrp7 \<and> data ! (pos + 2) = 0xFA)"

definition IsRdseed :: "bytes \<Rightarrow> bool" where
  "IsRdseed data =
     (let (pos, f) = skipPrefixesAndRex data in
      if hasRepnePrefix f \<or> hasRepPrefix f \<or> pos + 2 \<ge> length data then False
      else (let modrm = data ! (pos + 2) in
            data ! pos = TwoByteOpcodeEscape \<and> data ! (pos + 1) = TwoByteGrp9 \<and>
            modrm_mod modrm = ModRmModRegister \<and> modrm_reg modrm = 7))"

definition IsRdpid :: "bytes \<Rightarrow> bool" where
  "IsRdpid data =
     (let (pos, f) = skipPrefixesAndRex data in
      if hasOperandSizePrefix f \<or> hasRepnePrefix f \<or> \<not> hasRepPrefix f \<or> pos + 2 \<ge> length data then False
      else (let modrm = data ! (pos + 2) in
            data ! pos = TwoByteOpcodeEscape \<and> data ! (pos + 1) = TwoByteGrp9 \<and>
            modrm_mod modrm = ModRmModRegister \<and> modrm_reg modrm = 7))"

definition IsRdtscp :: "bytes \<Rightarrow> bool" where
  "IsRdtscp data =
     (let (pos, f) = skipPrefixesAndRex data in
      if hasOperandSizePrefix f \<or> hasRepnePrefix f \<or> hasRepPrefix f then False
      else if pos + 2 \<ge> length data then False
      else data ! pos = TwoByteOpcodeEscape \<and> data ! (pos + 1) = TwoByteGrp7 \<and> data ! (pos + 2) = 0xF9)"

definition IsClwb :: "bytes \<Rightarrow> bool" where
  "IsClwb data =
     (let (pos, f) = skipPrefixesAndRex data in
      if \<not> hasOperandSizePrefix f \<or> hasRepnePrefix f \<or> hasRepPrefix f \<or> pos + 2 \<ge> length data then False
      else (let modrm = data ! (pos + 2) in
            data ! pos = TwoByteOpcodeEscape \<and> data ! (pos + 1) = TwoByteGrp15 \<and>
            modrm_mod modrm \<noteq> ModRmModRegister \<and> modrm_reg modrm = 6))"

definition IsXsaveopt :: "bytes \<Rightarrow> bool" where
  "IsXsaveopt data =
     (let (pos, f) = skipPrefixesAndRex data in
      if hasOperandSizePrefix f \<or> hasRepnePrefix f \<or> hasRepPrefix f \<or> pos + 2 \<ge> length data then False
      else (let modrm = data ! (pos + 2) in
            data ! pos = TwoByteOpcodeEscape \<and> data ! (pos + 1) = TwoByteGrp15 \<and>
            modrm_mod modrm \<noteq> ModRmModRegister \<and> modrm_reg modrm = 6))"

definition IsMovntss :: "bytes \<Rightarrow> bool" where
  "IsMovntss data =
     (let (pos, f) = skipPrefixesAndRex data in
      if hasOperandSizePrefix f \<or> hasRepnePrefix f \<or> \<not> hasRepPrefix f then False
      else if pos + 1 \<ge> length data then False
      else data ! pos = TwoByteOpcodeEscape \<and> data ! (pos + 1) = 0x2B)"

definition IsMovntsd :: "bytes \<Rightarrow> bool" where
  "IsMovntsd data =
     (let (pos, f) = skipPrefixesAndRex data in
      if hasOperandSizePrefix f \<or> \<not> hasRepnePrefix f \<or> hasRepPrefix f then False
      else if pos + 1 \<ge> length data then False
      else data ! pos = TwoByteOpcodeEscape \<and> data ! (pos + 1) = 0x2B)"

subsection \<open>The recognisers are exclusive\<close>

datatype amd_instruction =
    Sha256 | Sha1 | Extrq | Insertq | Monitorx | Mwaitx | Clzero | Rdpru | Mcommit | Rdseed | Rdpid | Rdtscp
  | Clwb | Xsaveopt | Movntss | Movntsd

fun recognise :: "amd_instruction \<Rightarrow> bytes \<Rightarrow> bool" where
  "recognise Sha256 = IsSha256"
| "recognise Sha1 = IsSha1"
| "recognise Extrq = IsExtrq"
| "recognise Insertq = IsInsertq"
| "recognise Monitorx = IsMonitorx"
| "recognise Mwaitx = IsMwaitx"
| "recognise Clzero = IsClzero"
| "recognise Rdpru = IsRdpru"
| "recognise Mcommit = IsMcommit"
| "recognise Rdseed = IsRdseed"
| "recognise Rdpid = IsRdpid"
| "recognise Rdtscp = IsRdtscp"
| "recognise Clwb = IsClwb"
| "recognise Xsaveopt = IsXsaveopt"
| "recognise Movntss = IsMovntss"
| "recognise Movntsd = IsMovntsd"

text \<open>
  The reference classification: a decision on the second opcode byte, then on the mandatory prefix,
  then on the ModRM byte. Every recogniser implies its branch.
\<close>

definition classify :: "prefix_flags \<Rightarrow> u8 \<Rightarrow> u8 \<Rightarrow> amd_instruction" where
  "classify f b1 b2 =
     (if b1 = TwoByteMovnts then if hasRepPrefix f then Movntss else Movntsd
      else if b1 \<in> {TwoByteExtrqInsertqImm8Imm8, TwoByteExtrqInsertqModRm}
      then if hasRepnePrefix f then Insertq else Extrq
      else if b1 \<in> {ThreeByteEscape38, ThreeByteEscape3A}
      then if b1 = ThreeByteEscape38 \<and> b2 \<in> {0xCB, 0xCC, 0xCD} then Sha256 else Sha1
      else if b1 = TwoByteGrp9 then if hasRepPrefix f then Rdpid else Rdseed
      else if b1 = TwoByteGrp15 then if hasOperandSizePrefix f then Clwb else Xsaveopt
      else if hasRepPrefix f then Mcommit
      else if b2 = 0xF9 then Rdtscp
      else if b2 = 0xFA then Monitorx
      else if b2 = 0xFB then Mwaitx
      else if b2 = 0xFC then Clzero
      else Rdpru)"

lemmas recogniser_defs =
  IsSha256_def IsSha1_def IsExtrq_def IsInsertq_def IsMonitorx_def IsMwaitx_def IsClzero_def IsRdpru_def
  IsMcommit_def IsRdseed_def IsRdpid_def IsRdtscp_def IsClwb_def IsXsaveopt_def IsMovntss_def IsMovntsd_def

lemma recognise_classify:
  assumes "recognise k data" and "skipPrefixesAndRex data = (pos, f)"
  shows "classify f (data ! (pos + 1)) (data ! (pos + 2)) = k"
  using assms
  by (cases k) (auto simp: recogniser_defs classify_def Let_def split: if_splits)

text \<open>The prefixes skipped here are those of the decoder.\<close>

lemma skip_prefixes_Cons:
  "skip_prefixes (b # bs) pos f =
     (if prefix_byte b
      then skip_prefixes bs (pos + 1)
             (if is_rex b then f
              else f\<lparr>hasOperandSizePrefix := hasOperandSizePrefix f \<or> b = PrefixOperandSize,
                     hasRepnePrefix := hasRepnePrefix f \<or> b = PrefixRepne,
                     hasRepPrefix := hasRepPrefix f \<or> b = PrefixRep\<rparr>)
      else (pos, f))"
proof -
  consider "is_rex b" | "\<not> is_rex b" "b = PrefixRepne" | "\<not> is_rex b" "b = PrefixRep"
    | "\<not> is_rex b" "b = PrefixOperandSize" | "\<not> is_rex b" "b = PrefixAddressSize"
    | "\<not> is_rex b" "b \<noteq> PrefixRepne" "b \<noteq> PrefixRep" "b \<noteq> PrefixOperandSize" "b \<noteq> PrefixAddressSize"
    by blast
  then show ?thesis
    by cases (simp_all add: prefix_byte_def is_plain_prefix_def)
qed

declare skip_prefixes.simps(2) [simp del]

lemma skip_prefixes_decode:
  "decode_prefixes bs pos p = Inr (q, p') \<Longrightarrow> q - pos < k \<Longrightarrow> fst (skip_prefixes (take k bs) pos f) = q"
proof (induction bs arbitrary: k pos p f)
  case Nil
  then show ?case by simp
next
  case (Cons b bs)
  obtain j where k: "k = Suc j" using Cons.prems(2) by (cases k) auto
  show ?case
  proof (cases "prefix_byte b")
    case False
    then show ?thesis
      using Cons.prems(1) by (auto simp: k decode_prefixes_Cons skip_prefixes_Cons split: if_splits)
  next
    case True
    then have d: "decode_prefixes bs (pos + 1) (note_prefix b p) = Inr (q, p')"
      using Cons.prems(1) by (auto simp: decode_prefixes_Cons split: if_splits)
    have "q - (pos + 1) < j" using Cons.prems(2) decode_prefixes_bounds [OF d] unfolding k by linarith
    from Cons.IH [OF d this] show ?thesis using True by (simp add: k skip_prefixes_Cons)
  qed
qed

lemma OpcodeOffset_agrees:
  assumes "DecodeInstruction data = Inr i"
  shows "OpcodeOffset (take (di_Length i) data) = di_OpcodeOffset i"
proof (rule DecodeInstruction_ok [OF assms])
  fix n pos p
  assume "decode_prefixes data 0 no_prefixes = Inr (pos, p)" "di_Length i = n" "di_OpcodeOffset i = pos" "pos < n"
  then show ?thesis
    using skip_prefixes_decode [of data 0 no_prefixes pos p n no_flags]
    by (simp add: OpcodeOffset_def skipPrefixesAndRex_def)
qed

subsection \<open>A concrete instruction and the properties\<close>

text \<open>
  the recognisers are exclusive. No instruction is accepted by two of the recognisers, so the
  order in which the matcher asks them does not matter; and the recogniser of the SHA extensions
  accepts exactly the SHA-1 and the SHA-256 instructions.\<close>

theorem recognisers_exclusive:
  "(recognise k data \<and> recognise l data \<longrightarrow> k = l) \<and> (IsShaNi data \<longleftrightarrow> IsSha1 data \<or> IsSha256 data)"
proof -
  obtain pos f where s: "skipPrefixesAndRex data = (pos, f)" by (cases "skipPrefixesAndRex data")
  have "k = l" if "recognise k data" "recognise l data"
    using recognise_classify [OF that(1) s] recognise_classify [OF that(2) s] by simp
  moreover have "IsShaNi data \<longleftrightarrow> IsSha1 data \<or> IsSha256 data"
    by (auto simp: IsShaNi_def IsSha1_def IsSha256_def s Let_def)
  ultimately show ?thesis by blast
qed

lemma recognisers_exclusive_witness:
  "recognise Rdseed [0x66, 0x0F, 0xC7, 0xF8] \<and> \<not> recognise Clwb [0x66, 0x0F, 0xC7, 0xF8]"
proof -
  have r: "recognise Rdseed [0x66, 0x0F, 0xC7, 0xF8]" by code_simp
  have "Rdseed \<noteq> Clwb" by simp
  with r recognisers_exclusive [of Rdseed "[0x66, 0x0F, 0xC7, 0xF8]" Clwb] show ?thesis by blast
qed

end
