(* ===== verification/Code_Scanner.thy ===== *)
theory Code_Scanner
  imports X64_Instruction_Info Elf_Types
begin

text \<open>
  The linear sweep over a code section (\<open>codegen/src/InstructionScanner.cpp\<close>) and the merging of
  code ranges it needs. The scanner calls a visitor for every instruction and a progress callback
  now and then; both are recorded, in the order of the calls, as a list of events, and a run ends
  with an exception or without. The index into the unwind ranges is represented by the ranges from
  that index on. The lemmas show where the visited instructions lie, that they tile what has to be
  decoded, and when the scanner gives up.
\<close>

subsection \<open>Merging code ranges\<close>

fun merge_loop :: "code_range list \<Rightarrow> code_range list \<Rightarrow> code_range list" where
  "merge_loop merged [] = merged"
| "merge_loop merged (r # ranges) =
     (if merged \<noteq> [] \<and> cr_Begin r \<le> cr_End (last merged)
      then merge_loop (butlast merged @ [(last merged)\<lparr>cr_End := max (cr_End (last merged)) (cr_End r)\<rparr>]) ranges
      else merge_loop (merged @ [r]) ranges)"

text \<open>
  \<open>std::sort\<close> leaves the order of ranges with equal begins open; the lemmas on \<open>merge_loop\<close> hold
  for every sorted list, so they do not depend on the choice made here.
\<close>

definition MergeCodeRanges :: "code_range list \<Rightarrow> code_range list" where
  "MergeCodeRanges ranges =
     merge_loop [] (sort_key cr_Begin (filter (\<lambda>r. \<not> cr_End r \<le> cr_Begin r) ranges))"

subsection \<open>The sweep\<close>

record instruction_match =
  im_Offset :: u64
  im_Length :: nat

datatype scan_event =
    Visit instruction_match
  | Progress nat nat

text \<open>\<open>std::exception::what\<close>\<close>

fun exn_what :: "exn \<Rightarrow> string" where
  "exn_what (RelinkerException s _) = s"
| "exn_what (CodegenException s _) = s"
| "exn_what (OutOfRange s) = s"
| "exn_what (InvalidArgument s) = s"
| "exn_what (OverflowError s) = s"
| "exn_what (RuntimeError s) = s"

definition skip_ranges :: "code_range list \<Rightarrow> nat \<Rightarrow> code_range list" where
  "skip_ranges rest i = dropWhile (\<lambda>r. unat (cr_End r) \<le> i) rest"

definition outsideUnwindRanges :: "code_range list \<Rightarrow> code_range list \<Rightarrow> nat \<Rightarrow> bool" where
  "outsideUnwindRanges ranges rest i \<longleftrightarrow> ranges \<noteq> [] \<and> (rest = [] \<or> i < unat (cr_Begin (hd rest)))"

definition nextUnwindRange :: "code_range list \<Rightarrow> code_range list \<Rightarrow> nat \<Rightarrow> nat \<Rightarrow> nat" where
  "nextUnwindRange ranges rest i limit =
     (if outsideUnwindRanges ranges rest i \<and> rest \<noteq> [] then unat (cr_Begin (hd rest)) else limit)"

definition emit :: "scan_event list \<Rightarrow> scan_event list \<times> exn option \<Rightarrow> scan_event list \<times> exn option" where
  "emit events r = (events @ fst r, snd r)"

lemma nextUnwindRange_gt: "i < limit \<Longrightarrow> i < nextUnwindRange ranges rest i limit"
  by (auto simp: nextUnwindRange_def outsideUnwindRanges_def)

function scan_loop ::
    "bytes \<Rightarrow> u64 \<Rightarrow> code_range list \<Rightarrow> bool \<Rightarrow> nat \<Rightarrow> nat \<Rightarrow> code_range list \<Rightarrow> nat
     \<Rightarrow> scan_event list \<times> exn option" where
  "scan_loop code offset ranges progress limit i rest lastReport =
     (if \<not> i < limit then ([], None)
      else
        let rest = skip_ranges rest i;
            outside = outsideUnwindRanges ranges rest i;
            nextRange = nextUnwindRange ranges rest i limit;
            cursor = take (limit - i) (drop i code)
        in case Decode cursor of
             Inl e \<Rightarrow>
               if \<forall>b \<in> set cursor. b = 0 then ([], None)
               else if \<not> outside
               then ([], Some (CodegenException (''Cannot decode instruction: '' @ exn_what e) (offset + of_nat i)))
               else scan_loop code offset ranges progress limit (i + 1) rest lastReport
           | Inr n \<Rightarrow>
               if n > nextRange - i
               then scan_loop code offset ranges progress limit nextRange rest lastReport
               else let i' = i + n;
                        report = (progress \<and> i' - lastReport \<ge> 65536)
                    in emit (Visit \<lparr>im_Offset = offset + of_nat i, im_Length = n\<rparr>
                             # (if report then [Progress i' limit] else []))
                         (scan_loop code offset ranges progress limit i' rest
                            (if report then i' else lastReport)))"
  by pat_completeness auto

termination
  by (relation "measure (\<lambda>(code, offset, ranges, progress, limit, i, rest, lastReport). limit - i)")
    (auto dest: x64.decode_pos nextUnwindRange_gt intro!: diff_less_mono2)

declare scan_loop.simps [simp del]

text \<open>
  The free function template: the checks, the two progress calls around the loop, and the loop.
  \<open>std::numeric_limits<FileByteOffset>::max() - codeSectionOffset\<close> is computed on words.
\<close>

definition scan_section ::
    "bytes \<Rightarrow> u64 \<Rightarrow> u64 \<Rightarrow> bool \<Rightarrow> code_range list \<Rightarrow> scan_event list \<times> exn option" where
  "scan_section code offset sectionSize progress ranges =
     (if unat sectionSize > length code
      then ([], Some (CodegenException ''Code section exceeds the input buffer'' offset))
      else if sectionSize > u64_max - offset
      then ([], Some (CodegenException ''Code section offset overflow'' offset))
      else let limit = unat sectionSize;
               (events, outcome) = scan_loop code offset ranges progress limit 0 ranges 0
           in emit (if progress then [Progress 0 limit] else [])
                (events @ (if progress \<and> outcome = None then [Progress limit limit] else []), outcome))"

text \<open>\<open>InstructionScanner\<close>: the progress callback, absent or present, and the merged ranges.\<close>

record instruction_scanner =
  is_progress :: bool
  is_unwindRanges :: "code_range list"

definition MakeInstructionScanner :: "bool \<Rightarrow> code_range list \<Rightarrow> instruction_scanner" where
  "MakeInstructionScanner progress unwindRanges =
     \<lparr>is_progress = progress, is_unwindRanges = MergeCodeRanges unwindRanges\<rparr>"

definition VisitCodeSection ::
    "instruction_scanner \<Rightarrow> bytes \<Rightarrow> u64 \<Rightarrow> u64 \<Rightarrow> scan_event list \<times> exn option" where
  "VisitCodeSection scanner code offset sectionSize =
     scan_section code offset sectionSize (is_progress scanner) (is_unwindRanges scanner)"

fun visited :: "scan_event list \<Rightarrow> instruction_match list" where
  "visited [] = []"
| "visited (Visit m # events) = m # visited events"
| "visited (Progress _ _ # events) = visited events"

definition ScanCodeSection ::
    "instruction_scanner \<Rightarrow> bytes \<Rightarrow> u64 \<Rightarrow> u64 \<Rightarrow> instruction_match list res" where
  "ScanCodeSection scanner code offset sectionSize =
     (case scan_section code offset sectionSize (is_progress scanner) (is_unwindRanges scanner) of
        (events, None) \<Rightarrow> Inr (visited events)
      | (_, Some e) \<Rightarrow> Inl e)"

subsection \<open>Events\<close>

lemma visited_append [simp]: "visited (a @ b) = visited a @ visited b"
  by (induction a rule: visited.induct) auto

lemma emit_simps [simp]: "fst (emit ev r) = ev @ fst r" "snd (emit ev r) = snd r"
  by (simp_all add: emit_def)

lemma visited_report [simp]: "visited (Visit m # (if c then [Progress a b] else [])) = [m]"
  by simp

subsection \<open>One step of the sweep\<close>

definition window :: "bytes \<Rightarrow> nat \<Rightarrow> nat \<Rightarrow> bytes" where
  "window code i limit = take (limit - i) (drop i code)"

text \<open>The matches a run visits and its outcome, without the progress calls.\<close>

definition sweep :: "bytes \<Rightarrow> u64 \<Rightarrow> code_range list \<Rightarrow> nat \<Rightarrow> nat \<Rightarrow> code_range list
    \<Rightarrow> instruction_match list \<times> exn option" where
  "sweep code offset ranges limit i rest =
     (let r = scan_loop code offset ranges False limit i rest 0 in (visited (fst r), snd r))"

lemma scan_loop_sweep:
  "visited (fst (scan_loop code offset ranges progress limit i rest lst)) = fst (sweep code offset ranges limit i rest)
   \<and> snd (scan_loop code offset ranges progress limit i rest lst) = snd (sweep code offset ranges limit i rest)"
proof (induction code offset ranges progress limit i rest lst rule: scan_loop.induct)
  case (1 code offset ranges progress limit i rest lst)
  show ?case
  proof (cases "i < limit")
    case False
    then show ?thesis by (simp add: sweep_def scan_loop.simps)
  next
    case True
    note IH = 1 [OF not_not [THEN iffD2, OF True] refl refl refl refl]
    show ?thesis
    proof (cases "Decode (take (limit - i) (drop i code))")
      case (Inl e)
      then show ?thesis using IH(1) [OF Inl] True
        by (auto simp: sweep_def Let_def scan_loop.simps [of code offset ranges _ limit i])
    next
      case (Inr n)
      show ?thesis
      proof (cases "n > nextUnwindRange ranges (skip_ranges rest i) i limit - i")
        case big: True
        then show ?thesis using IH(2) [OF Inr] True Inr
          by (simp add: sweep_def Let_def scan_loop.simps [of code offset ranges _ limit i])
      next
        case False
        then show ?thesis using IH(3) [OF Inr False refl refl] True Inr
          by (simp add: sweep_def Let_def scan_loop.simps [of code offset ranges _ limit i])
      qed
    qed
  qed
qed

lemma sweep_step:
  "sweep code offset ranges limit i rest =
     (if \<not> i < limit then ([], None)
      else case Decode (window code i limit) of
             Inl e \<Rightarrow>
               if \<forall>b \<in> set (window code i limit). b = 0 then ([], None)
               else if \<not> outsideUnwindRanges ranges (skip_ranges rest i) i
               then ([], Some (CodegenException (''Cannot decode instruction: '' @ exn_what e) (offset + of_nat i)))
               else sweep code offset ranges limit (i + 1) (skip_ranges rest i)
           | Inr n \<Rightarrow>
               if n > nextUnwindRange ranges (skip_ranges rest i) i limit - i
               then sweep code offset ranges limit (nextUnwindRange ranges (skip_ranges rest i) i limit) (skip_ranges rest i)
               else (\<lparr>im_Offset = offset + of_nat i, im_Length = n\<rparr> # fst (sweep code offset ranges limit (i + n) (skip_ranges rest i)),
                     snd (sweep code offset ranges limit (i + n) (skip_ranges rest i))))"
  by (auto simp: sweep_def Let_def scan_loop.simps [of code offset ranges False limit i] window_def split: sum.split)


lemma forward_induct [case_names step]:
  assumes "\<And>i rest. (\<And>j r. i < limit \<Longrightarrow> i < j \<Longrightarrow> P j r) \<Longrightarrow> P i rest"
  shows "P (i :: nat) rest"
proof (induction "limit - i" arbitrary: i rest rule: less_induct)
  case less
  show ?case
  proof (rule assms)
    fix j r
    assume "i < limit" "i < j"
    then have "limit - j < limit - i" by (rule diff_less_mono2 [rotated])
    then show "P j r" by (rule less)
  qed
qed

text \<open>The cases of one step, with what the step adds to the visited matches.\<close>

lemma sweep_cases [case_names stop fail skip jump visit]:
  assumes "\<not> i < limit \<or> (\<exists>e. Decode (window code i limit) = Inl e) \<and> (\<forall>b \<in> set (window code i limit). b = 0) \<Longrightarrow>
      sweep code offset ranges limit i rest = ([], None) \<Longrightarrow> thesis"
    and "\<And>e. i < limit \<Longrightarrow> Decode (window code i limit) = Inl e \<Longrightarrow>
      \<not> (\<forall>b \<in> set (window code i limit). b = 0) \<Longrightarrow>
      \<not> outsideUnwindRanges ranges (skip_ranges rest i) i \<Longrightarrow>
      sweep code offset ranges limit i rest =
        ([], Some (CodegenException (''Cannot decode instruction: '' @ exn_what e) (offset + of_nat i))) \<Longrightarrow> thesis"
    and "i < limit \<Longrightarrow> outsideUnwindRanges ranges (skip_ranges rest i) i \<Longrightarrow>
      sweep code offset ranges limit i rest = sweep code offset ranges limit (i + 1) (skip_ranges rest i) \<Longrightarrow> thesis"
    and "i < limit \<Longrightarrow> nextUnwindRange ranges (skip_ranges rest i) i limit \<le> limit \<Longrightarrow>
      outsideUnwindRanges ranges (skip_ranges rest i) i \<Longrightarrow> skip_ranges rest i \<noteq> [] \<Longrightarrow>
      sweep code offset ranges limit i rest =
        sweep code offset ranges limit (nextUnwindRange ranges (skip_ranges rest i) i limit) (skip_ranges rest i) \<Longrightarrow> thesis"
    and "\<And>n vs o'. i < limit \<Longrightarrow> Decode (window code i limit) = Inr n \<Longrightarrow> 0 < n \<Longrightarrow> i + n \<le> limit \<Longrightarrow>
      i + n \<le> nextUnwindRange ranges (skip_ranges rest i) i limit \<Longrightarrow>
      sweep code offset ranges limit (i + n) (skip_ranges rest i) = (vs, o') \<Longrightarrow>
      sweep code offset ranges limit i rest = (\<lparr>im_Offset = offset + of_nat i, im_Length = n\<rparr> # vs, o') \<Longrightarrow> thesis"
  shows thesis
proof (cases "i < limit")
  case i: True
  show thesis
  proof (cases "Decode (window code i limit)")
    case (Inl e)
    consider "\<forall>b \<in> set (window code i limit). b = 0"
      | "\<not> (\<forall>b \<in> set (window code i limit). b = 0)" "\<not> outsideUnwindRanges ranges (skip_ranges rest i) i"
      | "\<not> (\<forall>b \<in> set (window code i limit). b = 0)" "outsideUnwindRanges ranges (skip_ranges rest i) i"
      by blast
    then show thesis
    proof cases
      case 1
      then show thesis using assms(1) i Inl by (simp add: sweep_step [of code offset ranges limit i])
    next
      case 2
      show thesis by (rule assms(2) [OF i Inl 2]) (use i Inl 2 in \<open>simp only: sweep_step [of code offset ranges limit i] sum.case if_False if_True not_True_eq_False not_False_eq_True not_not\<close>)
    next
      case 3
      show thesis by (rule assms(3) [OF i 3(2)]) (use i Inl 3 in \<open>simp only: sweep_step [of code offset ranges limit i] sum.case if_False if_True not_True_eq_False not_False_eq_True not_not\<close>)
    qed
  next
    case (Inr n)
    let ?next = "nextUnwindRange ranges (skip_ranges rest i) i limit"
    have "n \<le> length (window code i limit)" "0 < n" by (fact x64.decode_le [OF Inr] x64.decode_pos [OF Inr])+
    then have n: "i + n \<le> limit" "0 < n" using i by (auto simp: window_def)
    show thesis
    proof (cases "n > ?next - i")
      case True
      then have "outsideUnwindRanges ranges (skip_ranges rest i) i \<and> skip_ranges rest i \<noteq> []" "?next \<le> limit"
        using n by (auto simp: nextUnwindRange_def split: if_splits)
      then show thesis using assms(4) [OF i] True i Inr
        by (simp add: sweep_step [of code offset ranges limit i])
    next
      case False
      then show thesis
        using assms(5) [OF i Inr n(2,1), of "fst (sweep code offset ranges limit (i + n) (skip_ranges rest i))"
            "snd (sweep code offset ranges limit (i + n) (skip_ranges rest i))"]
          nextUnwindRange_gt [OF i, of ranges "skip_ranges rest i"] i Inr
        by (simp add: sweep_step [of code offset ranges limit i])
    qed
  qed
next
  case False
  then show thesis using assms(1) by (simp add: sweep_step [of code offset ranges limit i])
qed

subsection \<open>Where the matches lie\<close>

definition match_pos :: "u64 \<Rightarrow> instruction_match \<Rightarrow> nat" where
  "match_pos offset m = unat (im_Offset m - offset)"

definition match_end :: "u64 \<Rightarrow> instruction_match \<Rightarrow> nat" where
  "match_end offset m = match_pos offset m + im_Length m"

lemma match_pos_of_nat:
  "i < 2 ^ 64 \<Longrightarrow> match_pos offset \<lparr>im_Offset = offset + of_nat i, im_Length = n\<rparr> = i"
  by (simp add: match_pos_def unat_of_nat_small)

definition match_ok :: "bytes \<Rightarrow> u64 \<Rightarrow> nat \<Rightarrow> instruction_match \<Rightarrow> bool" where
  "match_ok code offset limit m \<longleftrightarrow>
     im_Offset m = offset + of_nat (match_pos offset m) \<and> match_end offset m \<le> limit \<and>
     Decode (window code (match_pos offset m) limit) = Inr (im_Length m)"

lemma sweep_matches:
  assumes "limit < 2 ^ 64"
  shows "(\<forall>m \<in> set (fst (sweep code offset ranges limit i rest)). i \<le> match_pos offset m \<and> match_ok code offset limit m) \<and>
    sorted_wrt (\<lambda>a b. match_end offset a \<le> match_pos offset b) (fst (sweep code offset ranges limit i rest))"
proof (induction i rest rule: forward_induct [where limit = limit])
  case (step i rest)
  show ?case
  proof (cases rule: sweep_cases [of i limit code offset ranges rest])
    case (skip)
    then show ?thesis using step [of "i + 1" "skip_ranges rest i"] by fastforce
  next
    case (jump)
    then show ?thesis
      using step [of "nextUnwindRange ranges (skip_ranges rest i) i limit" "skip_ranges rest i"]
        nextUnwindRange_gt [OF jump(1), of ranges "skip_ranges rest i"] by fastforce
  next
    case (visit n vs o')
    let ?m = "\<lparr>im_Offset = offset + of_nat i, im_Length = n\<rparr>"
    have p: "match_pos offset ?m = i" using visit(1) assms by (intro match_pos_of_nat) simp
    have "match_ok code offset limit ?m" using visit p by (simp add: match_ok_def match_end_def)
    moreover have "(\<forall>m \<in> set vs. i + n \<le> match_pos offset m \<and> match_ok code offset limit m) \<and>
        sorted_wrt (\<lambda>a b. match_end offset a \<le> match_pos offset b) vs"
      using step [of "i + n" "skip_ranges rest i"] visit by simp
    ultimately show ?thesis using visit(7) p by (auto simp: match_end_def)
  qed simp_all
qed


subsection \<open>What the sweep has to decode\<close>

text \<open>Ranges as \<open>MergeCodeRanges\<close> leaves them: not empty, in order and apart.\<close>

definition apart :: "code_range list \<Rightarrow> bool" where
  "apart rs \<longleftrightarrow> sorted_wrt (\<lambda>a b. cr_End a < cr_Begin b) rs \<and> (\<forall>r \<in> set rs. cr_Begin r < cr_End r)"

definition in_range :: "nat \<Rightarrow> code_range \<Rightarrow> bool" where
  "in_range x r \<longleftrightarrow> unat (cr_Begin r) \<le> x \<and> x < unat (cr_End r)"

lemma apart_skip: "apart rest \<Longrightarrow> apart (skip_ranges rest i)"
  unfolding apart_def skip_ranges_def
  by (metis set_dropWhileD sorted_wrt_append takeWhile_dropWhile_id)

lemma skip_ranges_in_range:
  "r \<in> set rest \<Longrightarrow> in_range x r \<Longrightarrow> i \<le> x \<Longrightarrow> r \<in> set (skip_ranges rest i)"
  unfolding skip_ranges_def by (induction rest) (auto simp: in_range_def)

lemma skip_ranges_hd:
  "skip_ranges rest i \<noteq> [] \<Longrightarrow> i < unat (cr_End (hd (skip_ranges rest i)))"
  unfolding skip_ranges_def using hd_dropWhile [of "\<lambda>r. unat (cr_End r) \<le> i" rest] by auto

lemma apart_hd:
  "apart rs \<Longrightarrow> r \<in> set rs \<Longrightarrow> cr_Begin (hd rs) \<le> cr_Begin r"
  by (cases rs) (auto simp: apart_def intro: order.strict_implies_order order.strict_trans)

text \<open>Outside the ranges no position before the next range lies in one.\<close>

lemma outside_not_in_range:
  assumes "outsideUnwindRanges ranges rest i" and "apart rest" and "rest \<noteq> [] \<Longrightarrow> x < unat (cr_Begin (hd rest))"
  shows "\<not> (\<exists>r \<in> set rest. in_range x r)"
  using assms apart_hd [of rest] unfolding in_range_def word_le_nat_alt
  by (metis empty_iff leD le_trans list.set(1))

definition required :: "code_range list \<Rightarrow> code_range list \<Rightarrow> nat \<Rightarrow> bool" where
  "required ranges rest x \<longleftrightarrow> ranges = [] \<or> (\<exists>r \<in> set rest. in_range x r)"

lemma required_skip:
  "required ranges rest x \<Longrightarrow> i \<le> x \<Longrightarrow> required ranges (skip_ranges rest i) x"
  by (auto simp: required_def intro: skip_ranges_in_range)

lemma not_required_outside:
  assumes "outsideUnwindRanges ranges (skip_ranges rest i) i" and "apart rest" and "i \<le> x"
    and "skip_ranges rest i \<noteq> [] \<Longrightarrow> x < unat (cr_Begin (hd (skip_ranges rest i)))"
  shows "\<not> required ranges rest x"
proof
  assume "required ranges rest x"
  then have "required ranges (skip_ranges rest i) x" by (rule required_skip) fact
  moreover have "ranges \<noteq> []" using assms(1) by (simp add: outsideUnwindRanges_def)
  ultimately show False
    using outside_not_in_range [OF assms(1) apart_skip [OF assms(2)] assms(4)] by (simp add: required_def)
qed

definition zero_from :: "bytes \<Rightarrow> nat \<Rightarrow> nat \<Rightarrow> bool" where
  "zero_from code k limit \<longleftrightarrow> (\<forall>y. k \<le> y \<and> y < limit \<longrightarrow> code ! y = 0)"

lemma window_zero:
  assumes "\<forall>b \<in> set (window code i limit). b = 0" and "limit \<le> length code"
  shows "zero_from code i limit"
  unfolding zero_from_def
proof (intro allI impI)
  fix y
  assume y: "i \<le> y \<and> y < limit"
  then have "window code i limit ! (y - i) = code ! y" "y - i < length (window code i limit)"
    using assms(2) by (auto simp: window_def)
  then show "code ! y = 0" using assms(1) nth_mem by metis
qed

definition covered :: "u64 \<Rightarrow> instruction_match list \<Rightarrow> nat \<Rightarrow> bool" where
  "covered offset ms x \<longleftrightarrow> (\<exists>m \<in> set ms. match_pos offset m \<le> x \<and> x < match_end offset m)"

lemma sweep_covers:
  assumes "limit < 2 ^ 64" and "limit \<le> length code"
  shows "apart rest \<Longrightarrow> snd (sweep code offset ranges limit i rest) = None \<Longrightarrow>
    i \<le> x \<Longrightarrow> x < limit \<Longrightarrow> required ranges rest x \<Longrightarrow>
    covered offset (fst (sweep code offset ranges limit i rest)) x \<or> (\<exists>k \<le> x. zero_from code k limit)"
proof (induction i rest rule: forward_induct [where limit = limit])
  case (step i rest)
  note apart = apart_skip [OF step.prems(1), of i]
  show ?case
  proof (cases rule: sweep_cases [of i limit code offset ranges rest])
    case stop
    then have "zero_from code i limit" using window_zero assms(2) step.prems(3,4) by fastforce
    then show ?thesis using step.prems(3) by blast
  next
    case (fail e)
    then show ?thesis using step.prems(2) by simp
  next
    case skip
    have "x \<noteq> i"
    proof
      assume "x = i"
      then have "\<not> required ranges rest x"
        using skip(2) by (intro not_required_outside [OF skip(2) step.prems(1)])
          (auto simp: outsideUnwindRanges_def)
      then show False using step.prems(5) by simp
    qed
    then show ?thesis
      using step.IH [of "i + 1" "skip_ranges rest i"] skip apart step.prems required_skip by simp
  next
    case jump
    let ?next = "nextUnwindRange ranges (skip_ranges rest i) i limit"
    have "\<not> x < ?next"
    proof
      assume "x < ?next"
      then have "\<not> required ranges rest x"
        using jump by (intro not_required_outside [OF jump(3) step.prems(1) step.prems(3)])
          (auto simp: nextUnwindRange_def)
      then show False using step.prems(5) by simp
    qed
    then show ?thesis
      using step.IH [of ?next "skip_ranges rest i"] jump nextUnwindRange_gt [OF jump(1)] apart step.prems
        required_skip by simp
  next
    case (visit n vs o')
    let ?m = "\<lparr>im_Offset = offset + of_nat i, im_Length = n\<rparr>"
    have p: "match_pos offset ?m = i" using visit(1) assms by (intro match_pos_of_nat) simp
    show ?thesis
    proof (cases "x < i + n")
      case True
      then show ?thesis using visit(7) p step.prems(3) by (simp add: covered_def match_end_def)
    next
      case False
      then show ?thesis
        using step.IH [of "i + n" "skip_ranges rest i"] visit apart step.prems required_skip
        by (auto simp: covered_def)
    qed
  qed
qed

text \<open>The scanner gives up at bytes of a range that do not decode and are not padding.\<close>

definition gives_up :: "bytes \<Rightarrow> u64 \<Rightarrow> nat \<Rightarrow> code_range list \<Rightarrow> code_range list \<Rightarrow> nat \<Rightarrow> exn \<Rightarrow> bool" where
  "gives_up code offset limit ranges rest i e \<longleftrightarrow>
     (\<exists>p e'. i \<le> p \<and> p < limit \<and> Decode (window code p limit) = Inl e' \<and>
        \<not> (\<forall>b \<in> set (window code p limit). b = 0) \<and> required ranges rest p \<and>
        e = CodegenException (''Cannot decode instruction: '' @ exn_what e') (offset + of_nat p))"

lemma gives_up_skip:
  assumes "gives_up code offset limit ranges (skip_ranges rest i) j e" and "i \<le> j"
  shows "gives_up code offset limit ranges rest i e"
proof -
  have sub: "required ranges rest p" if "required ranges (skip_ranges rest i) p" for p
    using that set_dropWhileD unfolding required_def skip_ranges_def by metis
  from assms(1) obtain p e' where "j \<le> p" "p < limit" "Decode (window code p limit) = Inl e'"
    "\<not> (\<forall>b \<in> set (window code p limit). b = 0)" "required ranges (skip_ranges rest i) p"
    "e = CodegenException (''Cannot decode instruction: '' @ exn_what e') (offset + of_nat p)"
    unfolding gives_up_def by blast
  with assms(2) sub show ?thesis unfolding gives_up_def
    by (intro exI [of _ p] exI [of _ e'] conjI) auto
qed

lemma sweep_fails:
  "snd (sweep code offset ranges limit i rest) = Some e \<Longrightarrow> gives_up code offset limit ranges rest i e"
proof (induction i rest rule: forward_induct [where limit = limit])
  case (step i rest)
  show ?case
  proof (cases rule: sweep_cases [of i limit code offset ranges rest])
    case stop
    then show ?thesis using step.prems by simp
  next
    case (fail e')
    have "required ranges (skip_ranges rest i) i"
      using fail(4) skip_ranges_hd [of rest i]
      by (auto simp: outsideUnwindRanges_def required_def in_range_def intro!: bexI [of _ "hd (skip_ranges rest i)"])
    then have "gives_up code offset limit ranges (skip_ranges rest i) i e"
      using fail step.prems unfolding gives_up_def by (intro exI [of _ i] exI [of _ e']) simp
    then show ?thesis by (rule gives_up_skip) simp
  next
    case skip
    then show ?thesis using gives_up_skip step.IH [of "i + 1" "skip_ranges rest i"] step.prems by simp
  next
    case jump
    show ?thesis
      using gives_up_skip [OF step.IH] jump step.prems nextUnwindRange_gt [OF jump(1), of ranges "skip_ranges rest i"]
      by (metis less_imp_le)
  next
    case (visit n vs o')
    then show ?thesis using gives_up_skip step.IH [of "i + n" "skip_ranges rest i"] step.prems by simp
  qed
qed


subsection \<open>Merged ranges\<close>

lemma merge_loop_invariant:
  assumes "apart merged" and "sorted (map cr_Begin rs)" and "\<forall>r \<in> set rs. cr_Begin r < cr_End r"
    and "merged \<noteq> [] \<Longrightarrow> \<forall>r \<in> set rs. cr_Begin (last merged) \<le> cr_Begin r"
  shows "apart (merge_loop merged rs) \<and>
    ((\<exists>r \<in> set (merge_loop merged rs). in_range x r) \<longleftrightarrow> (\<exists>r \<in> set merged \<union> set rs. in_range x r))"
  using assms
proof (induction merged rs rule: merge_loop.induct)
  case (1 merged)
  then show ?case by simp
next
  case (2 merged r rs)
  show ?case
  proof (cases "merged \<noteq> [] \<and> cr_Begin r \<le> cr_End (last merged)")
    case True
    then obtain ms l where m: "merged = ms @ [l]" by (metis rev_exhaust)
    let ?l = "l\<lparr>cr_End := max (cr_End l) (cr_End r)\<rparr>"
    have "cr_Begin l \<le> cr_Begin r" using 2(6) m by simp
    moreover have "apart (ms @ [?l])"
      using 2(3) by (auto simp: m apart_def sorted_wrt_append less_max_iff_disj)
    moreover have "in_range x ?l \<longleftrightarrow> in_range x l \<or> in_range x r"
      using True calculation(1) 2(3,5) by (auto simp: m in_range_def apart_def max_def word_le_nat_alt word_less_nat_alt)
    ultimately show ?thesis
      using 2(1) [OF True] 2(3-6) True by (auto simp: m)
  next
    case False
    have "apart (merged @ [r])"
    proof (cases "merged = []")
      case True
      then show ?thesis using 2(5) by (simp add: apart_def)
    next
      case ne: False
      then obtain ms l where m: "merged = ms @ [l]" by (metis rev_exhaust)
      have "cr_End l < cr_Begin r" using False m by auto
      moreover have "cr_End a < cr_End l" if "a \<in> set ms" for a
        using 2(3) that by (auto simp: m apart_def sorted_wrt_append intro: order.strict_trans)
      ultimately show ?thesis
        using 2(3,5) by (auto simp: m apart_def sorted_wrt_append intro: order.strict_trans)
    qed
    then show ?thesis using 2(2) [OF False] 2(4,5) False by auto
  qed
qed

lemma MergeCodeRanges_apart: "apart (MergeCodeRanges ranges)"
  unfolding MergeCodeRanges_def
  by (rule conjunct1 [OF merge_loop_invariant]) (auto simp: apart_def)

lemma MergeCodeRanges_covers:
  "(\<exists>r \<in> set (MergeCodeRanges ranges). in_range x r) \<longleftrightarrow> (\<exists>r \<in> set ranges. in_range x r)"
proof -
  let ?rs = "sort_key cr_Begin (filter (\<lambda>r. \<not> cr_End r \<le> cr_Begin r) ranges)"
  have "(\<exists>r \<in> set (merge_loop [] ?rs). in_range x r) \<longleftrightarrow> (\<exists>r \<in> set [] \<union> set ?rs. in_range x r)"
    by (rule conjunct2 [OF merge_loop_invariant]) (auto simp: apart_def)
  then show ?thesis by (auto simp: MergeCodeRanges_def in_range_def word_le_nat_alt)
qed

lemma merge_loop_Nil: "merge_loop ms rs = [] \<longleftrightarrow> ms = [] \<and> rs = []"
  by (induction ms rs rule: merge_loop.induct) auto

lemma MergeCodeRanges_Nil: "MergeCodeRanges ranges = [] \<longleftrightarrow> (\<forall>r \<in> set ranges. cr_End r \<le> cr_Begin r)"
proof -
  have "MergeCodeRanges ranges = [] \<longleftrightarrow> sort_key cr_Begin (filter (\<lambda>r. \<not> cr_End r \<le> cr_Begin r) ranges) = []"
    by (simp add: MergeCodeRanges_def merge_loop_Nil)
  also have "\<dots> \<longleftrightarrow> set (sort_key cr_Begin (filter (\<lambda>r. \<not> cr_End r \<le> cr_Begin r) ranges)) = {}"
    by (simp only: set_empty)
  finally show ?thesis by auto
qed


subsection \<open>The interface\<close>

lemma ScanCodeSection_sweep:
  "ScanCodeSection scanner code offset sectionSize =
     (if unat sectionSize > length code
      then Inl (CodegenException ''Code section exceeds the input buffer'' offset)
      else if sectionSize > u64_max - offset
      then Inl (CodegenException ''Code section offset overflow'' offset)
      else case sweep code offset (is_unwindRanges scanner) (unat sectionSize) 0 (is_unwindRanges scanner) of
             (ms, None) \<Rightarrow> Inr ms
           | (_, Some e) \<Rightarrow> Inl e)"
proof -
  let ?ranges = "is_unwindRanges scanner" and ?limit = "unat sectionSize"
  obtain events outcome
    where l: "scan_loop code offset ?ranges (is_progress scanner) ?limit 0 ?ranges 0 = (events, outcome)"
    by (rule prod.exhaust)
  have "sweep code offset ?ranges ?limit 0 ?ranges = (visited events, outcome)"
    using scan_loop_sweep [of code offset ?ranges "is_progress scanner" ?limit 0 ?ranges 0]
    by (simp add: l prod_eq_iff)
  then show ?thesis
    by (cases outcome) (auto simp: ScanCodeSection_def scan_section_def emit_def Let_def l)
qed

lemma ScanCodeSection_Inr:
  assumes "ScanCodeSection scanner code offset sectionSize = Inr ms"
  shows "unat sectionSize \<le> length code \<and>
    sweep code offset (is_unwindRanges scanner) (unat sectionSize) 0 (is_unwindRanges scanner) = (ms, None)"
  using assms by (auto simp: ScanCodeSection_sweep split: if_splits prod.splits option.splits)

text \<open>The progress callback does not influence the instructions found.\<close>

lemma ScanCodeSection_progress:
  "ScanCodeSection (scanner\<lparr>is_progress := b\<rparr>) = ScanCodeSection scanner"
  by (intro ext) (simp add: ScanCodeSection_sweep)

subsection \<open>A concrete section and the properties\<close>

text \<open>
  Merging code ranges. The merged ranges are not empty, in increasing order and apart from
  each other by at least one byte, and they cover exactly the addresses that the given ranges cover.\<close>

theorem merge_code_ranges_exact:
  "apart (MergeCodeRanges ranges) \<and>
   ((\<exists>r \<in> set (MergeCodeRanges ranges). in_range x r) \<longleftrightarrow> (\<exists>r \<in> set ranges. in_range x r))"
  using MergeCodeRanges_apart MergeCodeRanges_covers by blast

text \<open>
  C24: the matches are instructions of the section. Every match lies in the section, has the file
  offset of its position and the length that decoding there gives, and the matches come in increasing
  order without overlap.\<close>

theorem scan_matches_sound:
  assumes "ScanCodeSection scanner code offset sectionSize = Inr ms"
  shows "(\<forall>m \<in> set ms. match_ok code offset (unat sectionSize) m) \<and>
    sorted_wrt (\<lambda>a b. match_end offset a \<le> match_pos offset b) ms"
  using ScanCodeSection_Inr [OF assms]
    sweep_matches [of "unat sectionSize" code offset "is_unwindRanges scanner" 0 "is_unwindRanges scanner"]
    unsigned_less [of sectionSize]
  by simp

definition sample_code :: bytes where
  "sample_code = [0x55, 0x48, 0x89, 0xE5, 0x0F, 0x78, 0xC3, 0x00]"

definition sample_scanner :: instruction_scanner where
  "sample_scanner = MakeInstructionScanner False [\<lparr>cr_Begin = 6, cr_End = 7\<rparr>, \<lparr>cr_Begin = 0, cr_End = 4\<rparr>]"

lemma sample_scan:
  "ScanCodeSection sample_scanner sample_code 0x100 8 =
     Inr [\<lparr>im_Offset = 0x100, im_Length = 1\<rparr>, \<lparr>im_Offset = 0x101, im_Length = 3\<rparr>,
          \<lparr>im_Offset = 0x106, im_Length = 1\<rparr>]"
  by code_simp

lemma scan_matches_sound_witness:
  "\<exists>ms. ScanCodeSection sample_scanner sample_code 0x100 8 = Inr ms \<and> length ms = 3 \<and>
     (\<forall>m \<in> set ms. match_ok sample_code 0x100 8 m)"
  using scan_matches_sound [OF sample_scan] sample_scan by simp

text \<open>
  C23: the scan is complete. A successful scan leaves no byte of the section undecoded that it has
  to decode: every position of an unwind range, or every position at all when no range was given,
  belongs to a match, unless the section holds nothing but zero bytes from some position before it.
  The ranges are those passed to the constructor, before merging.\<close>

theorem scan_complete:
  assumes "ScanCodeSection (MakeInstructionScanner progress ranges) code offset sectionSize = Inr ms"
    and "x < unat sectionSize"
    and "(\<forall>r \<in> set ranges. cr_End r \<le> cr_Begin r) \<or> (\<exists>r \<in> set ranges. in_range x r)"
  shows "covered offset ms x \<or> (\<exists>k \<le> x. zero_from code k (unat sectionSize))"
proof -
  let ?ranges = "MergeCodeRanges ranges"
  have s: "unat sectionSize \<le> length code" "sweep code offset ?ranges (unat sectionSize) 0 ?ranges = (ms, None)"
    using ScanCodeSection_Inr [OF assms(1)] by (simp_all add: MakeInstructionScanner_def)
  have "required ?ranges ?ranges x"
    using assms(3) by (simp add: required_def MergeCodeRanges_Nil MergeCodeRanges_covers)
  moreover have "snd (sweep code offset ?ranges (unat sectionSize) 0 ?ranges) = None" using s(2) by simp
  moreover have "unat sectionSize < 2 ^ 64" using unsigned_less [of sectionSize] by simp
  ultimately show ?thesis
    using sweep_covers [OF _ s(1) MergeCodeRanges_apart] assms(2) unfolding s(2) fst_conv
    by (metis fst_conv le0 s(2))
qed

lemma scan_complete_witness:
  "\<exists>ms. ScanCodeSection sample_scanner sample_code 0x100 8 = Inr ms \<and>
     (covered 0x100 ms 6 \<or> (\<exists>k \<le> 6. zero_from sample_code k 8))"
  using scan_complete [OF sample_scan [unfolded sample_scanner_def], of 6] sample_scan
  by (simp add: in_range_def)

text \<open>
  C25: when the scan fails. The scanner throws only for a section that does not fit the buffer, for
  one whose end overflows, or at a position that has to be decoded, does not decode, and is not
  followed by zero bytes only; the exception then carries the file offset of that position. It throws
  in no other case, and bytes between the ranges never make it throw.\<close>

theorem scan_failure_exact:
  assumes "ScanCodeSection (MakeInstructionScanner progress ranges) code offset sectionSize = Inl e"
  shows "unat sectionSize > length code \<and> e = CodegenException ''Code section exceeds the input buffer'' offset
    \<or> sectionSize > u64_max - offset \<and> e = CodegenException ''Code section offset overflow'' offset
    \<or> gives_up code offset (unat sectionSize) (MergeCodeRanges ranges) (MergeCodeRanges ranges) 0 e"
  using assms sweep_fails [of code offset "MergeCodeRanges ranges" "unat sectionSize" 0 "MergeCodeRanges ranges"]
  by (auto simp: ScanCodeSection_sweep MakeInstructionScanner_def split: if_splits prod.splits option.splits)

lemma scan_failure_exact_witness:
  "\<exists>e. ScanCodeSection (MakeInstructionScanner False [\<lparr>cr_Begin = 4, cr_End = 7\<rparr>]) sample_code 0x100 8 = Inl e \<and>
     gives_up sample_code 0x100 8 [\<lparr>cr_Begin = 4, cr_End = 7\<rparr>] [\<lparr>cr_Begin = 4, cr_End = 7\<rparr>] 0 e"
proof -
  have m: "MergeCodeRanges [\<lparr>cr_Begin = 4, cr_End = 7\<rparr>] = [\<lparr>cr_Begin = 4, cr_End = 7\<rparr>]" by code_simp
  have s: "ScanCodeSection (MakeInstructionScanner False [\<lparr>cr_Begin = 4, cr_End = 7\<rparr>]) sample_code 0x100 8 =
      Inl (CodegenException ''Cannot decode instruction: Unsupported 0F 78 opcode without SSE4A prefix'' 0x104)"
    by code_simp
  from scan_failure_exact [OF s] s show ?thesis by (simp add: m sample_code_def)
qed

end
