(* ===== verification/X64_Rewriter.thy ===== *)
theory X64_Rewriter
  imports Code_Scanner
begin

text \<open>
  \<open>X64InstructionRewriter\<close> (\<open>codegen/src/x86/X64InstructionRewriter.cpp\<close>): one instruction of a
  code section is replaced by bytes of another length, and every relative reference of the other
  instructions is adjusted. Positions and displacements are \<open>std::int64_t\<close> in the code and
  integers here (a section is smaller than \<open>2 ^ 63\<close> bytes). The lemmas show that each remaining
  instruction keeps its bytes outside the displacement and refers to the moved place of its target.
\<close>

subsection \<open>Fields\<close>

record rewrite_request =
  rr_Offset :: u64
  rr_NewBytes :: bytes

record address_adjustment =
  aa_OriginalOffset :: u64
  aa_AdjustedOffset :: u64
  aa_Delta :: int

datatype reference_kind = NoReference | Rel8Branch | Rel32Branch | RipRelativeDisp32

definition ClassifyInstruction :: "bytes \<Rightarrow> (reference_kind \<times> nat) res" where
  "ClassifyInstruction data =
     bind_res (DecodeInstruction data) (\<lambda>info. Inr
       (if di_HasRipRelativeDisp info then (RipRelativeDisp32, di_RipRelativeDispOffset info)
        else if \<not> di_HasBranchTarget info then (NoReference, 0)
        else if di_IsTwoByteOpcode info \<or> di_Opcode info = OneByteCallRel32 \<or> di_Opcode info = OneByteJmpRel32
        then (Rel32Branch, di_Length info - Disp32Size)
        else (Rel8Branch, di_Length info - Disp8Size)))"

definition ReadInt32 :: "bytes \<Rightarrow> nat \<Rightarrow> int" where
  "ReadInt32 data pos =
     sint ((ucast (data ! pos) :: u32) OR push_bit 8 (ucast (data ! (pos + 1))) OR
           push_bit 16 (ucast (data ! (pos + 2))) OR push_bit 24 (ucast (data ! (pos + 3))))"

definition WriteInt32 :: "bytes \<Rightarrow> nat \<Rightarrow> int \<Rightarrow> bytes" where
  "WriteInt32 data pos value =
     (let v = word_of_int value :: u32
      in data[pos := ucast (v AND 0xFF), pos + 1 := ucast (drop_bit 8 v AND 0xFF),
              pos + 2 := ucast (drop_bit 16 v AND 0xFF), pos + 3 := ucast (drop_bit 24 v AND 0xFF)])"

definition AdjustedDelta :: "int \<Rightarrow> int \<Rightarrow> int \<Rightarrow> int \<Rightarrow> int \<Rightarrow> int \<Rightarrow> int res" where
  "AdjustedDelta instrPosition targetPosition cutStart cutEnd sliceSize delta =
     (if targetPosition > cutStart \<and> targetPosition < cutEnd
      then Inl (CodegenException ''Branch target inside rewritten instruction'' (word_of_int instrPosition))
      else let instrShifts = (instrPosition \<ge> cutEnd \<and> instrPosition < sliceSize);
               targetShifts = (targetPosition \<ge> cutEnd \<and> targetPosition < sliceSize)
           in Inr (if instrShifts = targetShifts then 0 else if instrShifts then - delta else delta))"

subsection \<open>The cut\<close>

text \<open>The locals of \<open>Rewrite\<close> that both loops use.\<close>

record rewrite_cut =
  cutStart :: int
  cutEnd :: int
  sectionSize :: int
  delta :: int

definition make_cut :: "bytes \<Rightarrow> rewrite_request \<Rightarrow> nat \<Rightarrow> rewrite_cut" where
  "make_cut code request decodedLength =
     \<lparr>cutStart = int (unat (rr_Offset request)),
      cutEnd = int (unat (rr_Offset request)) + int decodedLength,
      sectionSize = int (length code),
      delta = int (length (rr_NewBytes request)) - int decodedLength\<rparr>"

definition match_offset :: "instruction_match \<Rightarrow> int" where
  "match_offset m = int (unat (im_Offset m))"

definition match_bytes :: "bytes \<Rightarrow> instruction_match \<Rightarrow> bytes" where
  "match_bytes code m = subbytes code (unat (im_Offset m)) (im_Length m)"

definition in_cut :: "rewrite_cut \<Rightarrow> instruction_match \<Rightarrow> bool" where
  "in_cut c m \<longleftrightarrow> match_offset m \<ge> cutStart c \<and> match_offset m < cutEnd c"

subsection \<open>Branches with a truncated target\<close>

definition truncated_displacement :: "bytes \<Rightarrow> instruction_match \<Rightarrow> instruction_info \<Rightarrow> int res" where
  "truncated_displacement code m info =
     (let opcodeLength = if di_IsTwoByteOpcode info then 2 else 1;
          displacementSize = di_Length info - di_OpcodeOffset info - opcodeLength;
          displacementOffset = unat (im_Offset m) + di_Length info - displacementSize
      in if displacementSize = 1 then Inr (sint (code ! displacementOffset))
         else if displacementSize = 2
         then Inr (sint ((ucast (code ! displacementOffset) :: u16) OR
                         push_bit 8 (ucast (code ! (displacementOffset + 1)))))
         else Inl (CodegenException ''Unexpected displacement size for truncated relative branch'' (im_Offset m)))"

definition check_truncated :: "bytes \<Rightarrow> rewrite_cut \<Rightarrow> instruction_match \<Rightarrow> unit \<Rightarrow> unit res" where
  "check_truncated code c m u =
     (if in_cut c m then Inr ()
      else bind_res (DecodeInstruction (match_bytes code m)) (\<lambda>info.
        if \<not> di_TruncatesBranchTarget info then Inr ()
        else bind_res (truncated_displacement code m info) (\<lambda>branchDisplacement.
          let target = match_offset m + int (di_Length info) + branchDisplacement
          in if target > cutStart c \<and> target < cutEnd c
             then Inl (CodegenException ''Branch target inside rewritten instruction'' (im_Offset m))
             else if delta c = 0 then Inr ()
             else if target < 0 \<or> target > 0xFFFF
             then Inl (CodegenException
               ''Cannot change code length while a truncated relative branch target wraps at 16 bits'' (im_Offset m))
             else if (match_offset m \<ge> cutEnd c \<and> match_offset m < sectionSize c) \<noteq>
                     (target \<ge> cutEnd c \<and> target < sectionSize c)
             then Inl (CodegenException
               ''Cannot change code length while a truncated relative branch moves'' (im_Offset m))
             else Inr ())))"

subsection \<open>Adjusting the references\<close>

text \<open>The size of the field and its signed range, for the two widths of a reference.\<close>

definition field_value :: "bytes \<Rightarrow> nat \<Rightarrow> reference_kind \<Rightarrow> int" where
  "field_value code pos kind = (if kind = Rel8Branch then sint (code ! pos) else ReadInt32 code pos)"

definition write_field :: "bytes \<Rightarrow> nat \<Rightarrow> reference_kind \<Rightarrow> int \<Rightarrow> bytes" where
  "write_field code pos kind value =
     (if kind = Rel8Branch then code[pos := word_of_int value] else WriteInt32 code pos value)"

definition field_overflow :: "reference_kind \<Rightarrow> int \<Rightarrow> instruction_match \<Rightarrow> exn option" where
  "field_overflow kind newDisp m =
     (if kind = Rel8Branch
      then if newDisp < - 128 \<or> newDisp > 127
           then Some (CodegenException ''Rel8 branch displacement overflow after rewrite'' (im_Offset m))
           else None
      else if newDisp < - 2147483648 \<or> newDisp > 2147483647
      then Some (CodegenException ''Rel32/disp32 displacement overflow after rewrite'' (im_Offset m))
      else None)"

definition adjust_reference ::
    "bytes \<Rightarrow> rewrite_cut \<Rightarrow> instruction_match \<Rightarrow> reference_kind \<times> nat \<Rightarrow> bytes \<Rightarrow> bytes res" where
  "adjust_reference code c m site rewritten =
     (let (kind, field) = site in
      if kind = NoReference then Inr rewritten
      else let instrEnd = match_offset m + int (im_Length m);
               fieldPosition = unat (im_Offset m) + field;
               disp = field_value code fieldPosition kind;
               target = instrEnd + disp
           in bind_res (AdjustedDelta (match_offset m) target (cutStart c) (cutEnd c) (sectionSize c) (delta c))
                (\<lambda>adjust.
                  if adjust = 0 then Inr rewritten
                  else case field_overflow kind (disp + adjust) m of
                         Some e \<Rightarrow> Inl e
                       | None \<Rightarrow>
                           let newMatchOffset = if match_offset m < cutStart c then match_offset m
                                                else match_offset m + delta c
                           in Inr (write_field rewritten (nat (newMatchOffset + int field)) kind (disp + adjust))))"

definition rewrite_step ::
    "bytes \<Rightarrow> rewrite_cut \<Rightarrow> instruction_match \<Rightarrow> bytes \<times> address_adjustment list
     \<Rightarrow> (bytes \<times> address_adjustment list) res" where
  "rewrite_step code c m s =
     (if in_cut c m then Inr s
      else bind_res (ClassifyInstruction (match_bytes code m)) (\<lambda>site.
        bind_res (adjust_reference code c m site (fst s)) (\<lambda>rewritten.
          Inr (rewritten,
               if match_offset m \<ge> cutEnd c \<and> delta c \<noteq> 0
               then snd s @ [\<lparr>aa_OriginalOffset = im_Offset m,
                              aa_AdjustedOffset = word_of_int (match_offset m + delta c),
                              aa_Delta = delta c\<rparr>]
               else snd s))))"

definition spliced :: "bytes \<Rightarrow> rewrite_request \<Rightarrow> nat \<Rightarrow> bytes" where
  "spliced code request decodedLength =
     take (unat (rr_Offset request)) code @ rr_NewBytes request @
     drop (unat (rr_Offset request) + decodedLength) code"

definition Rewrite :: "bytes \<Rightarrow> rewrite_request \<Rightarrow> (bytes \<times> address_adjustment list) res" where
  "Rewrite code request =
     (if unat (rr_Offset request) > length code
      then Inl (CodegenException ''Rewrite offset is out of bounds'' (rr_Offset request))
      else bind_res (ScanCodeSection (MakeInstructionScanner False []) code 0 (of_nat (length code))) (\<lambda>matches.
        if \<not> (\<exists>m \<in> set matches. im_Offset m = rr_Offset request)
        then Inl (CodegenException ''Rewrite offset is not an instruction boundary'' (rr_Offset request))
        else bind_res (Decode (drop (unat (rr_Offset request)) code)) (\<lambda>decodedLength.
          let c = make_cut code request decodedLength
          in bind_res (fold_res (check_truncated code c) matches ()) (\<lambda>_.
             fold_res (rewrite_step code c) matches (spliced code request decodedLength, [])))))"

subsection \<open>Reading back a field\<close>

lemma length_WriteInt32 [simp]: "length (WriteInt32 d pos v) = length d"
  by (simp add: WriteInt32_def Let_def)

lemma ReadInt32_WriteInt32:
  assumes "pos + 4 \<le> length d" and "- 2147483648 \<le> v" and "v \<le> 2147483647"
  shows "ReadInt32 (WriteInt32 d pos v) pos = v"
proof -
  have "ReadInt32 (WriteInt32 d pos v) pos = sint (word_of_int v :: u32)"
    using assms(1) by (simp add: ReadInt32_def WriteInt32_def Let_def nth_list_update ucast_and_255 u32_of_bytes)
  also have "\<dots> = v" using assms(2,3) by (intro sint_word_of_int_small) simp_all
  finally show ?thesis .
qed

lemma WriteInt32_other: "i < pos \<or> pos + 4 \<le> i \<Longrightarrow> WriteInt32 d pos v ! i = d ! i"
  by (auto simp: WriteInt32_def Let_def nth_list_update)

definition field_width :: "reference_kind \<Rightarrow> nat" where
  "field_width kind = (if kind = NoReference then 0 else if kind = Rel8Branch then 1 else 4)"

lemma field_cong:
  "(\<And>i. i < field_width kind \<Longrightarrow> a ! (p + i) = b ! (q + i)) \<Longrightarrow> kind \<noteq> NoReference \<Longrightarrow>
   field_value a p kind = field_value b q kind"
proof (cases "kind = Rel8Branch")
  case True
  assume "\<And>i. i < field_width kind \<Longrightarrow> a ! (p + i) = b ! (q + i)"
  from this [of 0] show ?thesis using True by (simp add: field_value_def field_width_def)
next
  case False
  assume *: "\<And>i. i < field_width kind \<Longrightarrow> a ! (p + i) = b ! (q + i)" and "kind \<noteq> NoReference"
  with False have "a ! (p + i) = b ! (q + i)" if "i < 4" for i using that by (simp add: field_width_def)
  from this [of 0] this [of 1] this [of 2] this [of 3] show ?thesis
    using False by (simp add: field_value_def ReadInt32_def)
qed

lemma write_field_read:
  assumes "field_overflow kind v m = None" and "pos + field_width kind \<le> length d" and "kind \<noteq> NoReference"
  shows "field_value (write_field d pos kind v) pos kind = v"
proof (cases "kind = Rel8Branch")
  case True
  have "sint (word_of_int v :: u8) = v"
    using assms(1) True by (intro sint_word_of_int_small) (auto simp: field_overflow_def split: if_splits)
  then show ?thesis using True assms(2) by (simp add: field_value_def write_field_def field_width_def)
next
  case False
  then show ?thesis
    using assms ReadInt32_WriteInt32 [of pos d v]
    by (auto simp: field_value_def write_field_def field_width_def field_overflow_def split: if_splits)
qed

lemma write_field_other:
  "i < pos \<or> pos + field_width kind \<le> i \<Longrightarrow> kind \<noteq> NoReference \<Longrightarrow> write_field d pos kind v ! i = d ! i"
  by (auto simp: write_field_def field_width_def WriteInt32_other)

lemma length_write_field [simp]: "length (write_field d pos kind v) = length d"
  by (simp add: write_field_def)

subsection \<open>The site of a reference\<close>

lemma ClassifyInstruction_field:
  assumes "ClassifyInstruction data = Inr (kind, field)"
  shows "field + field_width kind \<le> length data"
proof -
  from assms obtain i where i: "DecodeInstruction data = Inr i"
    and site': "(kind, field) = (if di_HasRipRelativeDisp i then (RipRelativeDisp32, di_RipRelativeDispOffset i)
        else if \<not> di_HasBranchTarget i then (NoReference, 0)
        else if di_IsTwoByteOpcode i \<or> di_Opcode i = OneByteCallRel32 \<or> di_Opcode i = OneByteJmpRel32
        then (Rel32Branch, di_Length i - Disp32Size)
        else (Rel8Branch, di_Length i - Disp8Size))"
    unfolding ClassifyInstruction_def bind_res_Inr_iff by auto
  have site: "(kind, field) = (if di_HasRipRelativeDisp i then (RipRelativeDisp32, di_RipRelativeDispOffset i)
        else if \<not> di_HasBranchTarget i then (NoReference, 0)
        else if wide_branch i then (Rel32Branch, di_Length i - Disp32Size)
        else (Rel8Branch, di_Length i - Disp8Size))"
    using site' by (simp only: wide_branch_def)
  show ?thesis
  proof (rule DecodeInstruction_ok [OF i])
    fix n pos p
    assume "Decode data = Inr n" "di_Length i = n" "info_ok data i" "branch_ok data i"
    then show ?thesis
      using site x64.decode_le [of data n] by (auto simp: info_ok_def branch_ok_def field_width_def split: if_splits)
  qed
qed


subsection \<open>The matches around the cut\<close>

definition tiling :: "bytes \<Rightarrow> instruction_match list \<Rightarrow> bool" where
  "tiling code ms \<longleftrightarrow>
     (\<forall>m \<in> set ms. 0 < im_Length m \<and> unat (im_Offset m) + im_Length m \<le> length code \<and>
        Decode (drop (unat (im_Offset m)) code) = Inr (im_Length m)) \<and>
     sorted_wrt (\<lambda>a b. unat (im_Offset a) + im_Length a \<le> unat (im_Offset b)) ms"

lemma scan_tiling:
  assumes "ScanCodeSection scanner code 0 (of_nat (length code)) = Inr ms" and "length code < 2 ^ 64"
  shows "tiling code ms"
proof -
  have len: "unat (of_nat (length code) :: u64) = length code"
    using assms(2) by (simp add: unat_of_nat_small)
  have pos: "match_pos 0 m = unat (im_Offset m)" for m by (simp add: match_pos_def)
  have "\<forall>m \<in> set ms. match_ok code 0 (length code) m"
    and "sorted_wrt (\<lambda>a b. match_end 0 a \<le> match_pos 0 b) ms"
    using ScanCodeSection_Inr [OF assms(1)]
      sweep_matches [of "length code" code 0 "is_unwindRanges scanner" 0 "is_unwindRanges scanner"] assms(2)
    by (simp_all add: len)
  then show ?thesis
    unfolding tiling_def match_ok_def match_end_def pos window_def using x64.decode_pos by fastforce
qed

lemma tiling_disjoint:
  "sorted_wrt (\<lambda>a b. unat (im_Offset a) + im_Length a \<le> unat (im_Offset b)) ms \<Longrightarrow> a \<in> set ms \<Longrightarrow> b \<in> set ms \<Longrightarrow>
   a = b \<or> unat (im_Offset a) + im_Length a \<le> unat (im_Offset b) \<or> unat (im_Offset b) + im_Length b \<le> unat (im_Offset a)"
  by (induction ms) auto

text \<open>The cut of a match and the new place of the other matches.\<close>

definition new_pos :: "rewrite_cut \<Rightarrow> instruction_match \<Rightarrow> nat" where
  "new_pos c m = nat (if match_offset m < cutStart c then match_offset m else match_offset m + delta c)"

text \<open>Where a position of the section is after the rewriting; positions outside the section stay.\<close>

definition moved :: "rewrite_cut \<Rightarrow> int \<Rightarrow> int" where
  "moved c t = (if cutEnd c \<le> t \<and> t < sectionSize c then t + delta c else t)"

text \<open>A match outside the cut, with the bounds that follow from the tiling.\<close>

definition beside :: "bytes \<Rightarrow> rewrite_cut \<Rightarrow> instruction_match \<Rightarrow> bool" where
  "beside code c m \<longleftrightarrow>
     0 < im_Length m \<and> unat (im_Offset m) + im_Length m \<le> length code \<and>
     (match_offset m + int (im_Length m) \<le> cutStart c \<or> cutEnd c \<le> match_offset m)"

definition cut_ok :: "bytes \<Rightarrow> rewrite_request \<Rightarrow> nat \<Rightarrow> bool" where
  "cut_ok code request n \<longleftrightarrow> 0 < n \<and> unat (rr_Offset request) + n \<le> length code"

lemma beside_outside:
  "beside code (make_cut code request n) m \<Longrightarrow> cut_ok code request n \<Longrightarrow> \<not> in_cut (make_cut code request n) m"
  by (auto simp: beside_def cut_ok_def in_cut_def make_cut_def match_offset_def)

lemma tiling_beside:
  assumes "tiling code ms" and "m0 \<in> set ms" and "im_Offset m0 = rr_Offset request"
    and "m \<in> set ms" and "\<not> in_cut (make_cut code request (im_Length m0)) m"
  shows "beside code (make_cut code request (im_Length m0)) m"
proof -
  have "m \<noteq> m0" using assms(1-3,5) by (auto simp: in_cut_def make_cut_def match_offset_def tiling_def simp del: of_nat_unat)
  then show ?thesis
    using tiling_disjoint [of ms m m0] assms
    by (auto simp: beside_def tiling_def make_cut_def match_offset_def simp del: of_nat_unat)
qed

lemma spliced_beside:
  assumes c: "cut_ok code request n" and m: "beside code (make_cut code request n) m"
  shows "new_pos (make_cut code request n) m + im_Length m \<le> length (spliced code request n)"
    and "k < im_Length m \<Longrightarrow>
      spliced code request n ! (new_pos (make_cut code request n) m + k) = code ! (unat (im_Offset m) + k)"
proof -
  let ?o = "unat (im_Offset m)" and ?s = "unat (rr_Offset request)" and ?l = "length (rr_NewBytes request)"
  have len: "length (spliced code request n) = length code - n + ?l"
    using c by (simp add: spliced_def cut_ok_def)
  consider (before) "?o + im_Length m \<le> ?s" | (after) "?s + n \<le> ?o"
    using m by (auto simp: beside_def make_cut_def match_offset_def simp del: of_nat_unat)
  then have "new_pos (make_cut code request n) m + im_Length m \<le> length (spliced code request n) \<and>
    (\<forall>k < im_Length m. spliced code request n ! (new_pos (make_cut code request n) m + k) = code ! (?o + k))"
  proof cases
    case before
    then have "new_pos (make_cut code request n) m = ?o"
      using m by (auto simp: new_pos_def make_cut_def match_offset_def beside_def simp del: of_nat_unat)
    then show ?thesis using before c by (auto simp: len cut_ok_def spliced_def nth_append)
  next
    case after
    then have p: "new_pos (make_cut code request n) m = ?o - n + ?l"
      using c by (auto simp: new_pos_def make_cut_def match_offset_def cut_ok_def simp del: of_nat_unat)
    have "spliced code request n ! (?o - n + ?l + k) = code ! (?o + k)" if "k < im_Length m" for k
    proof -
      define j where "j = ?o + k - (?s + n)"
      have e1: "length (take ?s code) = ?s" and e2: "?o - n + ?l + k = ?s + (?l + j)" and e3: "?s + n + j = ?o + k"
        using after c unfolding cut_ok_def j_def by simp_all
      have "(take ?s code @ rr_NewBytes request @ drop (?s + n) code) ! (length (take ?s code) + (?l + j)) = code ! (?s + n + j)"
        using c unfolding nth_append_length_plus by (simp add: cut_ok_def)
      then show ?thesis unfolding spliced_def e1 e2 e3 .
    qed
    moreover have "?o - n + ?l + im_Length m \<le> length code - n + ?l"
      using m after unfolding beside_def by linarith
    ultimately show ?thesis by (simp only: p len) blast
  qed
  then show "new_pos (make_cut code request n) m + im_Length m \<le> length (spliced code request n)"
    and "k < im_Length m \<Longrightarrow>
      spliced code request n ! (new_pos (make_cut code request n) m + k) = code ! (?o + k)" by auto
qed


subsection \<open>One step of the loop\<close>

definition reference_kept :: "bytes \<Rightarrow> rewrite_cut \<Rightarrow> instruction_match \<Rightarrow> bytes \<Rightarrow> bool" where
  "reference_kept code c m r \<longleftrightarrow>
     (\<exists>kind field. ClassifyInstruction (match_bytes code m) = Inr (kind, field) \<and>
        field + field_width kind \<le> im_Length m \<and>
        (\<forall>k < im_Length m. k < field \<or> field + field_width kind \<le> k \<longrightarrow>
           r ! (new_pos c m + k) = code ! (unat (im_Offset m) + k)) \<and>
        (kind \<noteq> NoReference \<longrightarrow>
           int (new_pos c m) + int (im_Length m) + field_value r (new_pos c m + field) kind
           = moved c (match_offset m + int (im_Length m) + field_value code (unat (im_Offset m) + field) kind)))"

lemma AdjustedDelta_moved:
  assumes "AdjustedDelta p t (cutStart c) (cutEnd c) (sectionSize c) (delta c) = Inr a"
  shows "a = (moved c t - t) - (if cutEnd c \<le> p \<and> p < sectionSize c then delta c else 0)"
  using assms by (auto simp: AdjustedDelta_def moved_def Let_def split: if_splits)

lemma adjust_reference_kept:
  assumes a: "adjust_reference code c m (kind, field) r = Inr r'"
    and site: "ClassifyInstruction (match_bytes code m) = Inr (kind, field)"
    and m: "beside code c m" and size: "sectionSize c = int (length code)" and le: "cutStart c \<le> cutEnd c"
    and p: "int (new_pos c m) = (if match_offset m < cutStart c then match_offset m else match_offset m + delta c)"
    and bound: "new_pos c m + im_Length m \<le> length r"
    and same: "\<And>k. k < im_Length m \<Longrightarrow> r ! (new_pos c m + k) = code ! (unat (im_Offset m) + k)"
  shows "reference_kept code c m r'" and "length r' = length r"
    and "i < new_pos c m \<or> new_pos c m + im_Length m \<le> i \<Longrightarrow> r' ! i = r ! i"
proof -
  let ?p = "new_pos c m" and ?o = "unat (im_Offset m)"
  have len: "length (match_bytes code m) = im_Length m"
    using m by (simp add: match_bytes_def beside_def length_subbytes)
  have w: "field + field_width kind \<le> im_Length m"
    using ClassifyInstruction_field [OF site] by (simp add: len)
  have "reference_kept code c m r' \<and> length r' = length r \<and>
      (\<forall>i. i < ?p \<or> ?p + im_Length m \<le> i \<longrightarrow> r' ! i = r ! i)"
  proof (cases "kind = NoReference")
    case True
    then have "r' = r" using a by (simp add: adjust_reference_def)
    then show ?thesis
      unfolding reference_kept_def using site w same True by blast
  next
    case False
    let ?d = "field_value code (?o + field) kind"
    let ?t = "match_offset m + int (im_Length m) + ?d"
    obtain adj where adj: "AdjustedDelta (match_offset m) ?t (cutStart c) (cutEnd c) (sectionSize c) (delta c) = Inr adj"
      and r': "if adj = 0 then r' = r
        else field_overflow kind (?d + adj) m = None \<and>
             r' = write_field r (nat (int ?p + int field)) kind (?d + adj)"
      using a False unfolding adjust_reference_def Let_def p
      by (auto simp: res_simps split: if_splits option.splits)
    have val: "field_value r (?p + field) kind = ?d"
      using False w same [of "field + k" for k]
      by (intro field_cong) (simp_all add: add.assoc)
    have shift: "int ?p = match_offset m + (if cutEnd c \<le> match_offset m \<and> match_offset m < sectionSize c then delta c else 0)"
      using p m le size by (auto simp: beside_def match_offset_def simp del: of_nat_unat)
    have target: "int ?p + int (im_Length m) + (?d + adj) = moved c ?t"
      using AdjustedDelta_moved [OF adj] shift by simp
    show ?thesis
    proof (cases "adj = 0")
      case True
      then have "r' = r" using r' by simp
      then show ?thesis
        unfolding reference_kept_def using site w same target val True by auto
    next
      case ne: False
      have pos: "nat (int ?p + int field) = ?p + field" by simp
      have r2: "r' = write_field r (?p + field) kind (?d + adj)" and ov: "field_overflow kind (?d + adj) m = None"
        using r' ne by (simp_all only: if_False pos)
      have new: "field_value r' (?p + field) kind = ?d + adj"
        unfolding r2 by (rule write_field_read [OF ov]) (use w bound False in auto)
      have other: "r' ! i = r ! i" if "i < ?p + field \<or> ?p + field + field_width kind \<le> i" for i
        unfolding r2 by (rule write_field_other [OF that False])
      have "reference_kept code c m r'"
        unfolding reference_kept_def
        using site w same other new target by (intro exI [of _ kind] exI [of _ field]) auto
      moreover have "r' ! i = r ! i" if "i < ?p \<or> ?p + im_Length m \<le> i" for i
        using that w by (intro other) auto
      ultimately show ?thesis by (simp add: r2)
    qed
  qed
  then show "reference_kept code c m r'" and "length r' = length r"
    and "i < ?p \<or> ?p + im_Length m \<le> i \<Longrightarrow> r' ! i = r ! i" by auto
qed


lemma reference_kept_cong:
  assumes "reference_kept code c m r"
    and same: "\<And>k. k < im_Length m \<Longrightarrow> r' ! (new_pos c m + k) = r ! (new_pos c m + k)"
  shows "reference_kept code c m r'"
proof -
  from assms(1) obtain kind field where site: "ClassifyInstruction (match_bytes code m) = Inr (kind, field)"
    and w: "field + field_width kind \<le> im_Length m"
    and bytes: "\<And>k. k < im_Length m \<Longrightarrow> k < field \<or> field + field_width kind \<le> k \<Longrightarrow>
           r ! (new_pos c m + k) = code ! (unat (im_Offset m) + k)"
    and target: "kind \<noteq> NoReference \<Longrightarrow>
           int (new_pos c m) + int (im_Length m) + field_value r (new_pos c m + field) kind
           = moved c (match_offset m + int (im_Length m) + field_value code (unat (im_Offset m) + field) kind)"
    unfolding reference_kept_def by blast
  have "field_value r' (new_pos c m + field) kind = field_value r (new_pos c m + field) kind"
    if "kind \<noteq> NoReference"
    using that w same [of "field + k" for k] by (intro field_cong) (simp_all add: add.assoc)
  then show ?thesis
    unfolding reference_kept_def using site w bytes same target by (intro exI [of _ kind] exI [of _ field]) auto
qed

text \<open>A match whose bytes are still those of the input, at its new place.\<close>

definition placed :: "bytes \<Rightarrow> rewrite_cut \<Rightarrow> instruction_match \<Rightarrow> bytes \<Rightarrow> bool" where
  "placed code c m r \<longleftrightarrow>
     beside code c m \<and>
     int (new_pos c m) = (if match_offset m < cutStart c then match_offset m else match_offset m + delta c) \<and>
     new_pos c m + im_Length m \<le> length r \<and>
     (\<forall>k < im_Length m. r ! (new_pos c m + k) = code ! (unat (im_Offset m) + k))"

lemma rewrite_step_kept:
  assumes "rewrite_step code c m s = Inr s'" and "placed code c m (fst s)" and "\<not> in_cut c m"
    and "sectionSize c = int (length code)" and "cutStart c \<le> cutEnd c"
  shows "reference_kept code c m (fst s')" and "length (fst s') = length (fst s)"
    and "i < new_pos c m \<or> new_pos c m + im_Length m \<le> i \<Longrightarrow> fst s' ! i = fst s ! i"
proof -
  obtain kind field where site: "ClassifyInstruction (match_bytes code m) = Inr (kind, field)"
    and a: "adjust_reference code c m (kind, field) (fst s) = Inr (fst s')"
    using assms(1,3) by (auto simp: rewrite_step_def res_simps split: if_splits)
  note kept = adjust_reference_kept [OF a site _ assms(4,5)]
  show "reference_kept code c m (fst s')" and "length (fst s') = length (fst s)"
    and "i < new_pos c m \<or> new_pos c m + im_Length m \<le> i \<Longrightarrow> fst s' ! i = fst s ! i"
    using kept assms(2) unfolding placed_def by blast+
qed

lemma rewrite_step_in_cut: "in_cut c m \<Longrightarrow> rewrite_step code c m s = Inr s"
  by (simp add: rewrite_step_def)

lemma rewrite_loop:
  assumes "fold_res (rewrite_step code c) ms s = Inr t"
    and "sectionSize c = int (length code)" and "cutStart c \<le> cutEnd c"
    and "\<forall>m \<in> set ms. \<not> in_cut c m \<longrightarrow> placed code c m (fst s)"
    and "sorted_wrt (\<lambda>a b. \<not> in_cut c a \<longrightarrow> \<not> in_cut c b \<longrightarrow> new_pos c a + im_Length a \<le> new_pos c b) ms"
  shows "(\<forall>m \<in> set ms. \<not> in_cut c m \<longrightarrow> reference_kept code c m (fst t)) \<and> length (fst t) = length (fst s) \<and>
    (\<forall>i. (\<forall>m \<in> set ms. \<not> in_cut c m \<longrightarrow> i < new_pos c m \<or> new_pos c m + im_Length m \<le> i) \<longrightarrow> fst t ! i = fst s ! i)"
  using assms(1,4,5)
proof (induction ms arbitrary: s)
  case Nil
  then show ?case by simp
next
  case (Cons m ms)
  from Cons.prems(1) obtain s' where s': "rewrite_step code c m s = Inr s'"
    and rest: "fold_res (rewrite_step code c) ms s' = Inr t"
    by (auto simp: res_simps)
  have sorted: "sorted_wrt (\<lambda>a b. \<not> in_cut c a \<longrightarrow> \<not> in_cut c b \<longrightarrow> new_pos c a + im_Length a \<le> new_pos c b) ms"
    using Cons.prems(3) by simp
  show ?case
  proof (cases "in_cut c m")
    case True
    then have "s' = s" using s' by (simp add: rewrite_step_in_cut)
    then show ?thesis using Cons.IH [OF rest _ sorted] Cons.prems(2) True by simp
  next
    case False
    have pl: "placed code c m (fst s)" using Cons.prems(2) False by simp
    note step = rewrite_step_kept [OF s' pl False assms(2,3)]
    have apart: "new_pos c m + im_Length m \<le> new_pos c b" if "b \<in> set ms" "\<not> in_cut c b" for b
      using Cons.prems(3) that False by simp
    have "placed code c b (fst s')" if "b \<in> set ms" "\<not> in_cut c b" for b
      using Cons.prems(2) that step(2,3) apart [OF that] by (auto simp: placed_def)
    then have ih: "(\<forall>m \<in> set ms. \<not> in_cut c m \<longrightarrow> reference_kept code c m (fst t)) \<and> length (fst t) = length (fst s') \<and>
        (\<forall>i. (\<forall>m \<in> set ms. \<not> in_cut c m \<longrightarrow> i < new_pos c m \<or> new_pos c m + im_Length m \<le> i) \<longrightarrow> fst t ! i = fst s' ! i)"
      using Cons.IH [OF rest _ sorted] by blast
    moreover have "fst t ! (new_pos c m + k) = fst s' ! (new_pos c m + k)" if "k < im_Length m" for k
    proof -
      have "new_pos c m + k < new_pos c b" if "b \<in> set ms" "\<not> in_cut c b" for b
        using apart [OF that] \<open>k < im_Length m\<close> by linarith
      then show ?thesis using ih by blast
    qed
    then have "reference_kept code c m (fst t)" by (rule reference_kept_cong [OF step(1)])
    ultimately show ?thesis using step(2,3) False by auto
  qed
qed

lemma rewrite_adjustments:
  "fold_res (rewrite_step code c) ms s = Inr t \<Longrightarrow>
   snd t = snd s @ map (\<lambda>m. \<lparr>aa_OriginalOffset = im_Offset m, aa_AdjustedOffset = word_of_int (match_offset m + delta c),
       aa_Delta = delta c\<rparr>) (filter (\<lambda>m. \<not> in_cut c m \<and> cutEnd c \<le> match_offset m \<and> delta c \<noteq> 0) ms)"
proof (induction ms arbitrary: s)
  case (Cons m ms)
  from Cons.prems obtain s' where s': "rewrite_step code c m s = Inr s'"
    and rest: "fold_res (rewrite_step code c) ms s' = Inr t" by (auto simp: res_simps)
  show ?case using Cons.IH [OF rest] s'
    by (auto simp: rewrite_step_def res_simps split: if_splits)
qed simp

lemma new_pos_sorted:
  assumes "cut_ok code request n" and "c = make_cut code request n"
    and "beside code c a" and "beside code c b" and "unat (im_Offset a) + im_Length a \<le> unat (im_Offset b)"
  shows "new_pos c a + im_Length a \<le> new_pos c b"
  using assms unfolding new_pos_def beside_def make_cut_def match_offset_def cut_ok_def
  by (auto simp del: of_nat_unat)

lemma new_pos_int:
  assumes "cut_ok code request n" and "c = make_cut code request n" and "beside code c m"
  shows "int (new_pos c m) = (if match_offset m < cutStart c then match_offset m else match_offset m + delta c)"
  using assms unfolding new_pos_def beside_def make_cut_def match_offset_def cut_ok_def
  by (auto simp del: of_nat_unat)


subsection \<open>The rewriting\<close>

lemma Rewrite_Inr:
  assumes "Rewrite code request = Inr (r, adjustments)" and "length code < 2 ^ 63"
  obtains ms m0 where "ScanCodeSection (MakeInstructionScanner False []) code 0 (of_nat (length code)) = Inr ms"
    and "tiling code ms" and "m0 \<in> set ms" and "im_Offset m0 = rr_Offset request"
    and "fold_res (rewrite_step code (make_cut code request (im_Length m0))) ms (spliced code request (im_Length m0), [])
         = Inr (r, adjustments)"
proof -
  from assms(1) obtain ms n where scan: "ScanCodeSection (MakeInstructionScanner False []) code 0 (of_nat (length code)) = Inr ms"
    and "\<exists>m \<in> set ms. im_Offset m = rr_Offset request" and n: "Decode (drop (unat (rr_Offset request)) code) = Inr n"
    and f: "fold_res (rewrite_step code (make_cut code request n)) ms (spliced code request n, []) = Inr (r, adjustments)"
    unfolding Rewrite_def Let_def by (auto simp: res_simps)
  then obtain m0 where m0: "m0 \<in> set ms" "im_Offset m0 = rr_Offset request" by blast
  have t: "tiling code ms" using scan_tiling [OF scan] assms(2) by simp
  then have "im_Length m0 = n" using m0 n by (auto simp: tiling_def)
  then show thesis using that [OF scan t m0] f by simp
qed

lemma Rewrite_kept:
  assumes scan: "tiling code ms" and m0: "m0 \<in> set ms" "im_Offset m0 = rr_Offset request"
    and f: "fold_res (rewrite_step code c) ms (spliced code request (im_Length m0), []) = Inr (r, adjustments)"
    and c: "c = make_cut code request (im_Length m0)"
  shows "length r = length code - im_Length m0 + length (rr_NewBytes request)"
    and "subbytes r (unat (rr_Offset request)) (length (rr_NewBytes request)) = rr_NewBytes request"
    and "m \<in> set ms \<Longrightarrow> m \<noteq> m0 \<Longrightarrow> new_pos c m + im_Length m \<le> length r \<and> reference_kept code c m r"
proof -
  let ?s = "spliced code request (im_Length m0)" and ?o = "unat (rr_Offset request)"
  have ok: "cut_ok code request (im_Length m0)"
    using scan m0 by (auto simp: tiling_def cut_ok_def)
  have beside: "beside code c m" if "m \<in> set ms" "\<not> in_cut c m" for m
    using tiling_beside [OF scan m0] that c by simp
  have p: "placed code c m ?s" if "m \<in> set ms" "\<not> in_cut c m" for m
    unfolding placed_def using beside [OF that] new_pos_int [OF ok c beside [OF that]]
      spliced_beside [OF ok beside [OF that, unfolded c]] c by blast
  have sorted: "sorted_wrt (\<lambda>a b. \<not> in_cut c a \<longrightarrow> \<not> in_cut c b \<longrightarrow> new_pos c a + im_Length a \<le> new_pos c b) ms"
  proof (rule sorted_wrt_mono_rel)
    show "sorted_wrt (\<lambda>a b. unat (im_Offset a) + im_Length a \<le> unat (im_Offset b)) ms"
      using scan by (simp add: tiling_def)
  qed (use beside new_pos_sorted [OF ok c] in blast)
  have size: "sectionSize c = int (length code)" and le: "cutStart c \<le> cutEnd c" by (simp_all add: c make_cut_def)
  have loop: "(\<forall>m \<in> set ms. \<not> in_cut c m \<longrightarrow> reference_kept code c m r) \<and> length r = length ?s \<and>
    (\<forall>i. (\<forall>m \<in> set ms. \<not> in_cut c m \<longrightarrow> i < new_pos c m \<or> new_pos c m + im_Length m \<le> i) \<longrightarrow> r ! i = ?s ! i)"
    using rewrite_loop [OF f size le _ sorted] p by simp
  show "length r = length code - im_Length m0 + length (rr_NewBytes request)"
    using loop ok by (simp add: spliced_def cut_ok_def)
  have out: "\<not> in_cut c m" if "m \<in> set ms" "m \<noteq> m0" for m
    using tiling_disjoint [of ms m m0] scan that m0 c
    by (auto simp: tiling_def in_cut_def make_cut_def match_offset_def simp del: of_nat_unat)
  show "m \<in> set ms \<Longrightarrow> m \<noteq> m0 \<Longrightarrow> new_pos c m + im_Length m \<le> length r \<and> reference_kept code c m r"
    using loop out p by (simp add: placed_def)
  have new: "r ! (?o + k) = rr_NewBytes request ! k" if k: "k < length (rr_NewBytes request)" for k
  proof -
    have "?o + k < new_pos c m \<or> new_pos c m + im_Length m \<le> ?o + k" if "m \<in> set ms" "\<not> in_cut c m" for m
      using beside [OF that] new_pos_int [OF ok c beside [OF that]] k ok
      unfolding beside_def c make_cut_def match_offset_def cut_ok_def
      by (auto simp del: of_nat_unat split: if_splits)
    then have "r ! (?o + k) = ?s ! (?o + k)" using loop by blast
    also have "\<dots> = rr_NewBytes request ! k" using k ok by (simp add: spliced_def nth_append cut_ok_def)
    finally show ?thesis .
  qed
  have fits: "?o + length (rr_NewBytes request) \<le> length r"
    using \<open>length r = _\<close> ok unfolding cut_ok_def by linarith
  show "subbytes r ?o (length (rr_NewBytes request)) = rr_NewBytes request"
  proof (rule nth_equalityI)
    show "length (subbytes r ?o (length (rr_NewBytes request))) = length (rr_NewBytes request)"
      using fits by (rule length_subbytes)
  next
    fix k
    assume "k < length (subbytes r ?o (length (rr_NewBytes request)))"
    then have "k < length (rr_NewBytes request)" by (simp add: subbytes_def)
    then show "subbytes r ?o (length (rr_NewBytes request)) ! k = rr_NewBytes request ! k"
      using new fits by (subst nth_subbytes) simp_all
  qed
qed

subsection \<open>A concrete section and the property\<close>

text \<open>
  C5: rewriting keeps every reference. When \<open>Rewrite\<close> succeeds, the instruction at the requested
  offset has been replaced by the new bytes, and every other instruction of the section lies whole at
  its new place, has the bytes it had outside its displacement field, and its branch or RIP-relative
  displacement leads from its new place to the place to which its old target has moved; the
  adjustments list exactly the instructions that moved.
\<close>

theorem rewrite_keeps_references:
  assumes "Rewrite code request = Inr (r, adjustments)" and "length code < 2 ^ 63"
  shows "\<exists>ms m0 c. ScanCodeSection (MakeInstructionScanner False []) code 0 (of_nat (length code)) = Inr ms \<and>
    m0 \<in> set ms \<and> im_Offset m0 = rr_Offset request \<and> c = make_cut code request (im_Length m0) \<and>
    length r = length code - im_Length m0 + length (rr_NewBytes request) \<and>
    subbytes r (unat (rr_Offset request)) (length (rr_NewBytes request)) = rr_NewBytes request \<and>
    (\<forall>m \<in> set ms. m \<noteq> m0 \<longrightarrow> new_pos c m + im_Length m \<le> length r \<and> reference_kept code c m r) \<and>
    adjustments = map (\<lambda>m. \<lparr>aa_OriginalOffset = im_Offset m, aa_AdjustedOffset = word_of_int (match_offset m + delta c),
        aa_Delta = delta c\<rparr>) (filter (\<lambda>m. \<not> in_cut c m \<and> cutEnd c \<le> match_offset m \<and> delta c \<noteq> 0) ms)"
proof -
  obtain ms m0 where s: "ScanCodeSection (MakeInstructionScanner False []) code 0 (of_nat (length code)) = Inr ms"
      "tiling code ms" "m0 \<in> set ms" "im_Offset m0 = rr_Offset request"
    and f: "fold_res (rewrite_step code (make_cut code request (im_Length m0))) ms (spliced code request (im_Length m0), [])
         = Inr (r, adjustments)"
    by (rule Rewrite_Inr [OF assms])
  note k = Rewrite_kept [OF s(2-4) f refl]
  show ?thesis
    using s k rewrite_adjustments [OF f] by (intro exI [of _ ms] exI [of _ m0] exI conjI refl) auto
qed

definition rewrite_sample :: bytes where
  "rewrite_sample = [0xEB, 0x03, 0x0F, 0x01, 0xFC, 0x74, 0xF9, 0xC3]"

lemma rewrite_sample_result:
  "Rewrite rewrite_sample \<lparr>rr_Offset = 2, rr_NewBytes = [0x90, 0x90, 0x90, 0x90, 0x90]\<rparr> =
     Inr ([0xEB, 0x05, 0x90, 0x90, 0x90, 0x90, 0x90, 0x74, 0xF7, 0xC3],
          [\<lparr>aa_OriginalOffset = 5, aa_AdjustedOffset = 7, aa_Delta = 2\<rparr>,
           \<lparr>aa_OriginalOffset = 7, aa_AdjustedOffset = 9, aa_Delta = 2\<rparr>])"
  by code_simp

lemma rewrite_keeps_references_witness:
  "\<exists>r adjustments ms m0 c. Rewrite rewrite_sample \<lparr>rr_Offset = 2, rr_NewBytes = [0x90, 0x90, 0x90, 0x90, 0x90]\<rparr> = Inr (r, adjustments) \<and>
    (\<forall>m \<in> set ms. m \<noteq> m0 \<longrightarrow> reference_kept rewrite_sample c m r)"
proof -
  have "length rewrite_sample < 2 ^ 63" by (simp add: rewrite_sample_def)
  from rewrite_keeps_references [OF rewrite_sample_result this] rewrite_sample_result show ?thesis by blast
qed

end
