(* ===== verification/X64_Stub.thy ===== *)
theory X64_Stub
  imports X64_Recognisers
begin

text \<open>
  \<open>StubBodyBuilder\<close> (\<open>codegen/src/x86/StubBodyBuilder.cpp\<close>): the code that replaces an instruction is
  assembled byte by byte into a stub outside the code section. The builder keeps the bytes, the
  references to constants that \<open>Finish\<close> places behind the code, the relocations against the site of
  the replaced instruction, how far the emitted code has moved the stack pointer, and how far the
  emitted code has advanced in the site. \<open>std::int64_t\<close> offsets and \<open>std::int32_t\<close> displacements
  are integers; the value of every cast to a narrower type is taken from the word. The lemmas show
  that the builder only appends, that its references stay inside the stub, and what \<open>Finish\<close> and
  \<open>ApplyStubRelocations\<close> write.
\<close>

subsection \<open>Constants\<close>

text \<open>\<open>Amd64OnlySubstitutionTable\<close>: the byte strings of the stubs and the names in the reports.\<close>

abbreviation (input) kJmpRel32 :: bytes where "kJmpRel32 \<equiv> [0xE9, 0x00, 0x00, 0x00, 0x00]"
abbreviation (input) kLeaRspBelowRedZone :: bytes where
  "kLeaRspBelowRedZone \<equiv> [0x48, 0x8D, 0xA4, 0x24, 0x70, 0xFF, 0xFF, 0xFF]"
abbreviation (input) kLeaRspRestore :: bytes where
  "kLeaRspRestore \<equiv> [0x48, 0x8D, 0xA4, 0x24, 0x90, 0x00, 0x00, 0x00]"
abbreviation (input) kPshufbZero :: u8 where "kPshufbZero \<equiv> 0x80"
abbreviation (input) kTrapFill :: u8 where "kTrapFill \<equiv> 0xCC"
abbreviation (input) kStubAlignment :: nat where "kStubAlignment \<equiv> 16"
abbreviation (input) kRedZoneSpillFrame :: nat where "kRedZoneSpillFrame \<equiv> 0x90"

abbreviation (input) kPrefixPacked :: u8 where "kPrefixPacked \<equiv> 0x66"
abbreviation (input) kPrefixScalar :: u8 where "kPrefixScalar \<equiv> 0xF3"
abbreviation (input) kRexBase :: u8 where "kRexBase \<equiv> 0x40"
abbreviation (input) kRexR :: u8 where "kRexR \<equiv> 0x04"
abbreviation (input) kRexX :: u8 where "kRexX \<equiv> 0x02"
abbreviation (input) kRexB :: u8 where "kRexB \<equiv> 0x01"
abbreviation (input) kModRmRegister :: u8 where "kModRmRegister \<equiv> 0xC0"
abbreviation (input) kModRmRip :: u8 where "kModRmRip \<equiv> 0x05"
abbreviation (input) kModRmRspBase :: u8 where "kModRmRspBase \<equiv> 0x04"
abbreviation (input) kSibRsp :: u8 where "kSibRsp \<equiv> 0x24"
abbreviation (input) kShiftDwords :: u8 where "kShiftDwords \<equiv> 0x72"
abbreviation (input) kShiftQwords :: u8 where "kShiftQwords \<equiv> 0x73"
abbreviation (input) kMovdqu :: u8 where "kMovdqu \<equiv> 0x6F"

subsection \<open>Data\<close>

record stub_relocation =
  sr_DisplacementOffset :: nat
  sr_InstructionEnd :: nat
  sr_SiteTarget :: int
  sr_AddressSize32 :: bool

record lowered_body =
  lb_Bytes :: bytes
  lb_ReturnBranchOffset :: nat
  lb_Relocations :: "stub_relocation list"

record memory_operand =
  mo_Prefixes :: bytes
  mo_RexIndexBase :: u8
  mo_Mod :: u8
  mo_Rm :: u8
  mo_Sib :: u8
  mo_Displacement :: int
  mo_StackBase :: bool
  mo_EncodedSize :: nat
  mo_RipRelative :: bool
  mo_InstructionLength :: nat

record fixup =
  fx_DisplacementOffset :: nat
  fx_InstructionEnd :: nat
  fx_ConstantIndex :: nat

record stub_builder =
  sb_bytes :: bytes
  sb_fixups :: "fixup list"
  sb_constants :: "bytes list"
  sb_relocations :: "stub_relocation list"
  sb_stackDepth :: nat
  sb_siteOffset :: int

definition empty_builder :: stub_builder where
  "empty_builder = \<lparr>sb_bytes = [], sb_fixups = [], sb_constants = [], sb_relocations = [],
     sb_stackDepth = 0, sb_siteOffset = 0\<rparr>"

subsection \<open>Helpers\<close>

definition addressSize32 :: "bytes \<Rightarrow> bool" where
  "addressSize32 instruction \<longleftrightarrow> PrefixAddressSize \<in> set (take (OpcodeOffset instruction) instruction)"

definition rex_byte :: "u8 \<Rightarrow> u8 \<Rightarrow> u8" where
  "rex_byte reg rm = kRexBase OR (if reg AND 8 \<noteq> 0 then kRexR else 0) OR (if rm AND 8 \<noteq> 0 then kRexB else 0)"

definition emit_bytes :: "bytes \<Rightarrow> u8 \<Rightarrow> u8 \<Rightarrow> u8 \<Rightarrow> bytes \<Rightarrow> u8 \<Rightarrow> bytes" where
  "emit_bytes out prefix reg rm opc modrm =
     out @ [prefix] @ (if rex_byte reg rm \<noteq> kRexBase then [rex_byte reg rm] else []) @ opc @ [modrm]"

definition displacementSize :: "u8 \<Rightarrow> u8 \<Rightarrow> u8 \<Rightarrow> nat" where
  "displacementSize md rm sib =
     (if md = ModRmModDisp8 then Disp8Size
      else if md = ModRmModDisp32 \<or> (md = ModRmModIndirect \<and> rm = ModRmRmRipRelative) \<or>
              (md = ModRmModIndirect \<and> rm = ModRmRmSibPresent \<and> sib AND SibBaseMask = SibBaseDisp32)
      then Disp32Size
      else 0)"

definition modrm_byte :: "u8 \<Rightarrow> u8 \<Rightarrow> u8" where
  "modrm_byte reg rm = kModRmRegister OR push_bit 3 (reg AND 7) OR (rm AND 7)"

definition shiftImm :: "bytes \<Rightarrow> u8 \<Rightarrow> u8 \<Rightarrow> u8 \<Rightarrow> u8 \<Rightarrow> bytes" where
  "shiftImm out opc extension reg imm =
     emit_bytes out kPrefixPacked 0 reg [0x0F, opc]
       (kModRmRegister OR push_bit 3 extension OR (reg AND 7)) @ [imm]"

text \<open>The little-endian bytes of a value, as the loops that shift it by \<open>index * 8\<close> append them.\<close>

definition value_bytes :: "nat \<Rightarrow> u32 \<Rightarrow> bytes" where
  "value_bytes n v = map (\<lambda>index. ucast (drop_bit (index * 8) v)) [0..<n]"

text \<open>The value of the little-endian bytes at a position, as the loops that shift the bytes in compute it.\<close>

definition bytes_value :: "bytes \<Rightarrow> nat \<Rightarrow> nat \<Rightarrow> u32" where
  "bytes_value data pos n = foldl (\<lambda>v index. v OR push_bit (index * 8) (ucast (data ! (pos + index)))) 0 [0..<n]"

definition signed32 :: "u32 \<Rightarrow> int" where
  "signed32 v = sint v"

subsection \<open>Memory operands\<close>

definition DecodeMemoryOperand :: "bytes \<Rightarrow> nat \<Rightarrow> u8 \<Rightarrow> bytes \<Rightarrow> memory_operand res" where
  "DecodeMemoryOperand data modRmOffset rexByte prefixes =
     (if modRmOffset \<ge> length data
      then Inl (CodegenError ''Memory operand truncated before its ModRM byte'')
      else
        let modrm = data ! modRmOffset; md = modrm_mod modrm; rm = modrm_rm modrm
        in if md = ModRmModRegister
           then Inl (CodegenError ''Register operand where a memory operand was expected'')
           else
             let ripRelative = (md = ModRmModIndirect \<and> rm = ModRmRmRipRelative);
                 pos = modRmOffset + 1
             in if rm = ModRmRmSibPresent \<and> pos \<ge> length data
                then Inl (CodegenError ''Memory operand truncated before its SIB byte'')
                else
                  let sib = if rm = ModRmRmSibPresent then data ! pos else 0;
                      stackBase = (rm = ModRmRmSibPresent \<and> sib AND SibBaseMask = ModRmRmSibPresent \<and>
                                   rexByte AND kRexB = 0);
                      pos = if rm = ModRmRmSibPresent then pos + 1 else pos;
                      size = displacementSize md rm sib
                  in if pos + size > length data
                     then Inl (CodegenError ''Memory operand truncated in its displacement'')
                     else Inr \<lparr>mo_Prefixes = prefixes, mo_RexIndexBase = rexByte AND (kRexX OR kRexB), mo_Mod = md,
                            mo_Rm = rm, mo_Sib = sib,
                            mo_Displacement = (if size = Disp8Size then sint (data ! pos)
                                               else if size = Disp32Size then signed32 (bytes_value data pos size)
                                               else 0),
                            mo_StackBase = stackBase, mo_EncodedSize = pos + size - modRmOffset,
                            mo_RipRelative = ripRelative, mo_InstructionLength = length data\<rparr>)"

subsection \<open>Relocations\<close>

definition write_value :: "bytes \<Rightarrow> nat \<Rightarrow> u32 \<Rightarrow> bytes" where
  "write_value body pos v = foldl (\<lambda>b index. b[pos + index := ucast (drop_bit (index * 8) v)]) body [0..<4]"

definition apply_relocation :: "u64 \<Rightarrow> u64 \<Rightarrow> u64 \<Rightarrow> stub_relocation \<Rightarrow> bytes \<Rightarrow> bytes res" where
  "apply_relocation siteAddress stubAddress failureOffset r body =
     (if sr_InstructionEnd r > length body \<or> sr_DisplacementOffset r > sr_InstructionEnd r \<or>
         sr_InstructionEnd r - sr_DisplacementOffset r < Disp32Size
      then Inl (CodegenException ''Stub relocation lies outside the stub body'' failureOffset)
      else
        let target = siteAddress + word_of_int (sr_SiteTarget r);
            displacement = target - (stubAddress + of_nat (sr_InstructionEnd r))
        in if \<not> sr_AddressSize32 r \<and> (sint displacement < - 2147483648 \<or> sint displacement > 2147483647)
           then Inl (CodegenException ''RIP-relative operand is out of rel32 range from its stub'' failureOffset)
           else Inr (write_value body (sr_DisplacementOffset r) (ucast displacement)))"

definition ApplyStubRelocations :: "bytes \<Rightarrow> stub_relocation list \<Rightarrow> u64 \<Rightarrow> u64 \<Rightarrow> u64 \<Rightarrow> bytes res" where
  "ApplyStubRelocations body relocations siteAddress stubAddress failureOffset =
     fold_res (apply_relocation siteAddress stubAddress failureOffset) relocations body"

subsection \<open>The builder\<close>

definition EmitSse :: "bytes \<Rightarrow> u8 \<Rightarrow> bytes \<Rightarrow> u8 \<Rightarrow> u8 \<Rightarrow> bytes" where
  "EmitSse out prefix opc dst src = emit_bytes out prefix dst src opc (modrm_byte dst src)"

definition Sse :: "u8 \<Rightarrow> bytes \<Rightarrow> u8 \<Rightarrow> u8 \<Rightarrow> stub_builder \<Rightarrow> stub_builder" where
  "Sse prefix opc dst src b = b\<lparr>sb_bytes := EmitSse (sb_bytes b) prefix opc dst src\<rparr>"

definition SsePlain :: "bytes \<Rightarrow> u8 \<Rightarrow> u8 \<Rightarrow> stub_builder \<Rightarrow> stub_builder" where
  "SsePlain opc dst src b =
     b\<lparr>sb_bytes := sb_bytes b @ (if rex_byte dst src \<noteq> kRexBase then [rex_byte dst src] else []) @
                   opc @ [modrm_byte dst src]\<rparr>"

definition SseImm :: "u8 \<Rightarrow> bytes \<Rightarrow> u8 \<Rightarrow> u8 \<Rightarrow> u8 \<Rightarrow> stub_builder \<Rightarrow> stub_builder" where
  "SseImm prefix opc dst src imm b = b\<lparr>sb_bytes := EmitSse (sb_bytes b) prefix opc dst src @ [imm]\<rparr>"

definition ShiftImm :: "u8 \<Rightarrow> u8 \<Rightarrow> u8 \<Rightarrow> stub_builder \<Rightarrow> stub_builder" where
  "ShiftImm extension reg imm b = b\<lparr>sb_bytes := shiftImm (sb_bytes b) kShiftQwords extension reg imm\<rparr>"

definition ShiftDwordImm :: "u8 \<Rightarrow> u8 \<Rightarrow> u8 \<Rightarrow> stub_builder \<Rightarrow> stub_builder" where
  "ShiftDwordImm extension reg imm b = b\<lparr>sb_bytes := shiftImm (sb_bytes b) kShiftDwords extension reg imm\<rparr>"

definition RipOperand :: "bytes \<Rightarrow> u8 \<Rightarrow> bytes \<Rightarrow> stub_builder \<Rightarrow> stub_builder" where
  "RipOperand opc reg constant b =
     (let out = emit_bytes (sb_bytes b) kPrefixPacked reg 0 opc (push_bit 3 (reg AND 7) OR kModRmRip)
      in b\<lparr>sb_fixups := sb_fixups b @ [\<lparr>fx_DisplacementOffset = length out, fx_InstructionEnd = length out + 4,
                                       fx_ConstantIndex = length (sb_constants b)\<rparr>],
           sb_bytes := out @ replicate 4 0,
           sb_constants := sb_constants b @ [constant]\<rparr>)"

definition load_rex :: "u8 \<Rightarrow> memory_operand \<Rightarrow> u8" where
  "load_rex reg operand = kRexBase OR (if reg AND 8 \<noteq> 0 then kRexR else 0) OR mo_RexIndexBase operand"

definition load_code :: "u8 \<Rightarrow> u8 \<Rightarrow> memory_operand \<Rightarrow> bytes" where
  "load_code reg md operand =
     mo_Prefixes operand @ [kPrefixScalar] @
     (if load_rex reg operand \<noteq> kRexBase then [load_rex reg operand] else []) @
     [TwoByteOpcodeEscape, kMovdqu,
      push_bit ModRmModShift md OR push_bit ModRmRegShift (reg AND 7) OR mo_Rm operand] @
     (if mo_Rm operand = ModRmRmSibPresent then [mo_Sib operand] else [])"

definition Load :: "u8 \<Rightarrow> memory_operand \<Rightarrow> stub_builder \<Rightarrow> stub_builder res" where
  "Load reg operand b =
     (let displacement = mo_Displacement operand + (if mo_StackBase operand then int (sb_stackDepth b) else 0)
      in if displacement > 2147483647
         then Inl (CodegenError ''Stack displacement does not fit after spilling'')
         else
           let md = if mo_StackBase operand \<and> sb_stackDepth b \<noteq> 0 then ModRmModDisp32 else mo_Mod operand;
               out = sb_bytes b @ load_code reg md operand
           in if mo_RipRelative operand
              then Inr (b\<lparr>sb_relocations := sb_relocations b @
                            [\<lparr>sr_DisplacementOffset = length out, sr_InstructionEnd = length out + Disp32Size,
                              sr_SiteTarget = sb_siteOffset b + int (mo_InstructionLength operand) + mo_Displacement operand,
                              sr_AddressSize32 = (PrefixAddressSize \<in> set (mo_Prefixes operand))\<rparr>],
                          sb_bytes := out @ replicate Disp32Size 0\<rparr>)
              else Inr (b\<lparr>sb_bytes := out @
                            value_bytes (displacementSize md (mo_Rm operand) (mo_Sib operand)) (word_of_int displacement)\<rparr>))"

definition Spill :: "u8 \<Rightarrow> stub_builder \<Rightarrow> stub_builder" where
  "Spill reg b =
     b\<lparr>sb_stackDepth := sb_stackDepth b + kRedZoneSpillFrame,
       sb_bytes := emit_bytes (sb_bytes b @ kLeaRspBelowRedZone) kPrefixScalar reg 0 [0x0F, 0x7F]
                     (push_bit 3 (reg AND 7) OR kModRmRspBase) @ [kSibRsp]\<rparr>"

definition Restore :: "u8 \<Rightarrow> stub_builder \<Rightarrow> stub_builder" where
  "Restore reg b =
     b\<lparr>sb_bytes := emit_bytes (sb_bytes b) kPrefixScalar reg 0 [0x0F, 0x6F]
                     (push_bit 3 (reg AND 7) OR kModRmRspBase) @ [kSibRsp] @ kLeaRspRestore,
       sb_stackDepth := sb_stackDepth b - kRedZoneSpillFrame\<rparr>"

definition Raw :: "bytes \<Rightarrow> stub_builder \<Rightarrow> stub_builder" where
  "Raw code b = b\<lparr>sb_bytes := sb_bytes b @ code\<rparr>"

definition Advance :: "nat \<Rightarrow> stub_builder \<Rightarrow> stub_builder" where
  "Advance n b = b\<lparr>sb_siteOffset := sb_siteOffset b + int n\<rparr>"

definition Seek :: "int \<Rightarrow> stub_builder \<Rightarrow> stub_builder" where
  "Seek siteOffset b = b\<lparr>sb_siteOffset := siteOffset\<rparr>"

definition Move :: "bytes \<Rightarrow> nat option \<Rightarrow> stub_builder \<Rightarrow> stub_builder res" where
  "Move instruction ripDisplacementOffset b =
     (let start = length (sb_bytes b); b = Raw instruction b
      in case ripDisplacementOffset of
           None \<Rightarrow> Inr (Advance (length instruction) b)
         | Some offset \<Rightarrow>
             if offset > length instruction \<or> length instruction - offset < Disp32Size
             then Inl (CodegenError ''RIP-relative displacement lies outside its instruction'')
             else Inr (Advance (length instruction)
               (b\<lparr>sb_bytes := foldl (\<lambda>out index. out[start + offset + index := 0]) (sb_bytes b) [0..<Disp32Size],
                  sb_relocations := sb_relocations b @
                    [\<lparr>sr_DisplacementOffset = start + offset, sr_InstructionEnd = start + length instruction,
                      sr_SiteTarget = sb_siteOffset b + int (length instruction) +
                                      signed32 (bytes_value instruction offset Disp32Size),
                      sr_AddressSize32 = addressSize32 instruction\<rparr>]\<rparr>)))"

definition RipRelative :: "bytes \<Rightarrow> nat \<Rightarrow> int \<Rightarrow> stub_builder \<Rightarrow> stub_builder res" where
  "RipRelative instruction displacementOffset target b =
     (if displacementOffset > length instruction \<or> length instruction - displacementOffset < Disp32Size
      then Inl (CodegenError ''RIP-relative displacement lies outside its instruction'')
      else
        let start = length (sb_bytes b); b = Raw instruction b
        in Inr (b\<lparr>sb_bytes := foldl (\<lambda>out index. out[start + displacementOffset + index := 0]) (sb_bytes b) [0..<Disp32Size],
                  sb_relocations := sb_relocations b @
                    [\<lparr>sr_DisplacementOffset = start + displacementOffset, sr_InstructionEnd = start + length instruction,
                      sr_SiteTarget = sb_siteOffset b + target,
                      sr_AddressSize32 = addressSize32 instruction\<rparr>]\<rparr>))"

definition rel32 :: "bytes \<Rightarrow> int \<Rightarrow> stub_builder \<Rightarrow> stub_builder" where
  "rel32 opc siteTarget b =
     (let out = sb_bytes b @ opc
      in b\<lparr>sb_bytes := out @ replicate Disp32Size 0,
           sb_relocations := sb_relocations b @
             [\<lparr>sr_DisplacementOffset = length out, sr_InstructionEnd = length out + Disp32Size,
               sr_SiteTarget = siteTarget, sr_AddressSize32 = False\<rparr>]\<rparr>)"

definition JumpTo :: "int \<Rightarrow> stub_builder \<Rightarrow> stub_builder" where
  "JumpTo siteTarget = rel32 [OneByteJmpRel32] siteTarget"

definition pushReturnAddress :: "int \<Rightarrow> stub_builder \<Rightarrow> stub_builder" where
  "pushReturnAddress siteTarget b =
     Raw [0x48, 0x89, 0x44, 0x24, 0x08, 0x58]
       (rel32 [0x48, 0x8D, 0x05] siteTarget (Raw [0x48, 0x8D, 0x64, 0x24, 0xF8, 0x50] b))"

definition movable_prefix :: "u8 \<Rightarrow> bool" where
  "movable_prefix prefix \<longleftrightarrow>
     \<not> (prefix \<noteq> PrefixSegCs \<and> prefix \<noteq> PrefixSegDs \<and> prefix \<noteq> PrefixRepne \<and> prefix \<noteq> PrefixAddressSize \<and>
        prefix AND 0xF0 \<noteq> kRexBase)"

definition MoveControlFlow :: "bytes \<Rightarrow> instruction_info \<Rightarrow> stub_builder \<Rightarrow> stub_builder res" where
  "MoveControlFlow instruction info b =
     (let siteEnd = sb_siteOffset b + int (length instruction)
      in if di_FlowKind info = IndirectCall
         then Inl (CodegenError ''A register or memory call cannot move into a stub'')
         else if di_TruncatesBranchTarget info
         then Inl (CodegenError ''A relative branch with this prefix cannot move into a stub'')
         else if di_FlowKind info = Call \<and> di_HasRipRelativeDisp info
         then let pos = di_RipRelativeDispOffset info - 1;
                  jump = instruction[pos := (instruction ! pos AND NOT (push_bit ModRmRegShift ModRmRegMask))
                                            OR push_bit ModRmRegShift 4]
              in Move jump (Some (di_RipRelativeDispOffset info)) (pushReturnAddress siteEnd b)
         else if \<not> di_HasBranchTarget info \<or> di_HasRipRelativeDisp info
         then Move instruction
                (if di_HasRipRelativeDisp info then Some (di_RipRelativeDispOffset info) else None) b
         else if \<not> (\<forall>prefix \<in> set (take (di_OpcodeOffset info) instruction). movable_prefix prefix)
         then Inl (CodegenError ''A relative branch with this prefix cannot move into a stub'')
         else
           let target = siteEnd + di_BranchDisp info
           in if di_IsTwoByteOpcode info
              then Inr (Advance (length instruction) (rel32 [TwoByteOpcodeEscape, di_Opcode info] target b))
              else if di_Opcode info = OneByteCallRel32
              then Inr (Advance (length instruction) (rel32 [OneByteJmpRel32] target (pushReturnAddress siteEnd b)))
              else if di_Opcode info = OneByteJmpRel32 \<or> di_Opcode info = OneByteJmpRel8
              then Inr (Advance (length instruction) (rel32 [OneByteJmpRel32] target b))
              else if di_Opcode info \<ge> OneByteJccRel8Min \<and> di_Opcode info \<le> OneByteJccRel8Max
              then Inr (Advance (length instruction)
                     (rel32 [TwoByteOpcodeEscape, TwoByteJccRel32Min OR (di_Opcode info AND 0x0F)] target b))
              else Inl (CodegenError ''A LOOP or JRCXZ branch cannot move into a stub''))"

subsection \<open>Finishing\<close>

lemma trap_fill_measure:
  "n mod 16 \<noteq> 0 \<Longrightarrow> (16 - Suc n mod 16) mod 16 < (16 - n mod 16) mod (16 :: nat)"
proof -
  assume n: "n mod 16 \<noteq> 0"
  have less: "n mod 16 < 16"
    by simp
  show ?thesis
  proof (cases "Suc (n mod 16) = 16")
    case True
    then have "Suc n mod 16 = 0" and "n mod 16 = 15"
      by (simp_all add: mod_Suc)
    then show ?thesis
      by simp
  next
    case False
    then have "Suc n mod 16 = Suc (n mod 16)"
      by (simp add: mod_Suc)
    then show ?thesis
      using n less False by simp
  qed
qed

function trap_fill :: "bytes \<Rightarrow> bytes" where
  "trap_fill out = (if length out mod kStubAlignment \<noteq> 0 then trap_fill (out @ [kTrapFill]) else out)"
  by pat_completeness auto

termination
  by (relation "measure (\<lambda>out. (16 - length out mod 16) mod 16)") (use trap_fill_measure in auto)

declare trap_fill.simps [simp del]

text \<open>The constants behind the code, and where each of them starts.\<close>

fun place_constants :: "bytes list \<Rightarrow> bytes \<Rightarrow> bytes \<times> nat list" where
  "place_constants [] out = (out, [])"
| "place_constants (constant # constants) out =
     (let out = trap_fill out; (final, offsets) = place_constants constants (out @ constant)
      in (final, length out # offsets))"

definition apply_fixup :: "nat list \<Rightarrow> bytes \<Rightarrow> fixup \<Rightarrow> bytes" where
  "apply_fixup offsets out f =
     write_value out (fx_DisplacementOffset f)
       (word_of_int (int (offsets ! fx_ConstantIndex f) - int (fx_InstructionEnd f)))"

definition Finish :: "stub_builder \<Rightarrow> lowered_body" where
  "Finish b =
     (let (out, offsets) = place_constants (sb_constants b) (sb_bytes b @ kJmpRel32)
      in \<lparr>lb_Bytes = foldl (apply_fixup offsets) out (sb_fixups b),
          lb_ReturnBranchOffset = length (sb_bytes b),
          lb_Relocations = sb_relocations b\<rparr>)"

subsection \<open>The builder only grows\<close>

definition in_code :: "nat \<Rightarrow> nat \<Rightarrow> stub_relocation \<Rightarrow> bool" where
  "in_code lo hi r \<longleftrightarrow>
     lo \<le> sr_DisplacementOffset r \<and> sr_DisplacementOffset r + 4 \<le> sr_InstructionEnd r \<and> sr_InstructionEnd r \<le> hi"

definition fixup_in_code :: "nat \<Rightarrow> nat \<Rightarrow> nat \<Rightarrow> nat \<Rightarrow> fixup \<Rightarrow> bool" where
  "fixup_in_code lo hi clo chi f \<longleftrightarrow>
     lo \<le> fx_DisplacementOffset f \<and> fx_InstructionEnd f = fx_DisplacementOffset f + 4 \<and> fx_InstructionEnd f \<le> hi \<and>
     clo \<le> fx_ConstantIndex f \<and> fx_ConstantIndex f < chi"

text \<open>
  \<open>grows b b'\<close>: \<open>b'\<close> arises from \<open>b\<close> by appending code, constants and references, and every new
  reference is a four-byte field inside the new code that no other new reference overlaps.
\<close>

definition grows :: "stub_builder \<Rightarrow> stub_builder \<Rightarrow> bool" where
  "grows b b' \<longleftrightarrow> (\<exists>code rels fs cs.
     sb_bytes b' = sb_bytes b @ code \<and> sb_relocations b' = sb_relocations b @ rels \<and>
     sb_fixups b' = sb_fixups b @ fs \<and> sb_constants b' = sb_constants b @ cs \<and>
     (\<forall>r \<in> set rels. in_code (length (sb_bytes b)) (length (sb_bytes b')) r) \<and>
     (\<forall>f \<in> set fs. fixup_in_code (length (sb_bytes b)) (length (sb_bytes b'))
        (length (sb_constants b)) (length (sb_constants b')) f) \<and>
     sorted_wrt (\<lambda>r s. sr_InstructionEnd r \<le> sr_DisplacementOffset s) rels \<and>
     sorted_wrt (\<lambda>f g. fx_InstructionEnd f \<le> fx_DisplacementOffset g) fs \<and>
     (\<forall>r \<in> set rels. \<forall>f \<in> set fs. sr_InstructionEnd r \<le> fx_DisplacementOffset f \<or>
        fx_InstructionEnd f \<le> sr_DisplacementOffset r))"

lemma growsI:
  assumes "sb_bytes b' = sb_bytes b @ code" and "sb_relocations b' = sb_relocations b @ rels"
    and "sb_fixups b' = sb_fixups b @ fs" and "sb_constants b' = sb_constants b @ cs"
    and "\<And>r. r \<in> set rels \<Longrightarrow> in_code (length (sb_bytes b)) (length (sb_bytes b')) r"
    and "\<And>f. f \<in> set fs \<Longrightarrow> fixup_in_code (length (sb_bytes b)) (length (sb_bytes b'))
        (length (sb_constants b)) (length (sb_constants b')) f"
    and "sorted_wrt (\<lambda>r s. sr_InstructionEnd r \<le> sr_DisplacementOffset s) rels"
    and "sorted_wrt (\<lambda>f g. fx_InstructionEnd f \<le> fx_DisplacementOffset g) fs"
    and "\<And>r f. r \<in> set rels \<Longrightarrow> f \<in> set fs \<Longrightarrow> sr_InstructionEnd r \<le> fx_DisplacementOffset f \<or>
        fx_InstructionEnd f \<le> sr_DisplacementOffset r"
  shows "grows b b'"
  unfolding grows_def using assms by (intro exI [of _ code] exI [of _ rels] exI [of _ fs] exI [of _ cs]) blast

lemma grows_code:
  "sb_bytes b' = sb_bytes b @ code \<Longrightarrow> sb_relocations b' = sb_relocations b \<Longrightarrow> sb_fixups b' = sb_fixups b \<Longrightarrow>
   sb_constants b' = sb_constants b \<Longrightarrow> grows b b'"
  by (rule growsI [of _ _ code "[]" "[]" "[]"]) simp_all

lemma grows_relocation:
  "sb_bytes b' = sb_bytes b @ code \<Longrightarrow> sb_relocations b' = sb_relocations b @ [r] \<Longrightarrow> sb_fixups b' = sb_fixups b \<Longrightarrow>
   sb_constants b' = sb_constants b \<Longrightarrow> in_code (length (sb_bytes b)) (length (sb_bytes b')) r \<Longrightarrow> grows b b'"
  by (rule growsI [of _ _ code "[r]" "[]" "[]"]) simp_all

lemma grows_refl [simp]: "grows b b"
  by (rule grows_code [of _ _ "[]"]) simp_all

lemma grows_trans:
  assumes "grows a b" and "grows b c"
  shows "grows a c"
proof -
  from assms(1) obtain code rels fs cs where 1: "sb_bytes b = sb_bytes a @ code"
      "sb_relocations b = sb_relocations a @ rels" "sb_fixups b = sb_fixups a @ fs"
      "sb_constants b = sb_constants a @ cs"
      "\<forall>r \<in> set rels. in_code (length (sb_bytes a)) (length (sb_bytes b)) r"
      "\<forall>f \<in> set fs. fixup_in_code (length (sb_bytes a)) (length (sb_bytes b))
        (length (sb_constants a)) (length (sb_constants b)) f"
      "sorted_wrt (\<lambda>r s. sr_InstructionEnd r \<le> sr_DisplacementOffset s) rels"
      "sorted_wrt (\<lambda>f g. fx_InstructionEnd f \<le> fx_DisplacementOffset g) fs"
      "\<forall>r \<in> set rels. \<forall>f \<in> set fs. sr_InstructionEnd r \<le> fx_DisplacementOffset f \<or>
        fx_InstructionEnd f \<le> sr_DisplacementOffset r"
    unfolding grows_def by blast
  from assms(2) obtain code' rels' fs' cs' where 2: "sb_bytes c = sb_bytes b @ code'"
      "sb_relocations c = sb_relocations b @ rels'" "sb_fixups c = sb_fixups b @ fs'"
      "sb_constants c = sb_constants b @ cs'"
      "\<forall>r \<in> set rels'. in_code (length (sb_bytes b)) (length (sb_bytes c)) r"
      "\<forall>f \<in> set fs'. fixup_in_code (length (sb_bytes b)) (length (sb_bytes c))
        (length (sb_constants b)) (length (sb_constants c)) f"
      "sorted_wrt (\<lambda>r s. sr_InstructionEnd r \<le> sr_DisplacementOffset s) rels'"
      "sorted_wrt (\<lambda>f g. fx_InstructionEnd f \<le> fx_DisplacementOffset g) fs'"
      "\<forall>r \<in> set rels'. \<forall>f \<in> set fs'. sr_InstructionEnd r \<le> fx_DisplacementOffset f \<or>
        fx_InstructionEnd f \<le> sr_DisplacementOffset r"
    unfolding grows_def by blast
  show ?thesis
  proof (rule growsI [of _ _ "code @ code'" "rels @ rels'" "fs @ fs'" "cs @ cs'"])
    show "in_code (length (sb_bytes a)) (length (sb_bytes c)) r" if "r \<in> set (rels @ rels')" for r
      using that 1(1,5) 2(1,5) by (auto simp: in_code_def)
    show "fixup_in_code (length (sb_bytes a)) (length (sb_bytes c)) (length (sb_constants a)) (length (sb_constants c)) f"
      if "f \<in> set (fs @ fs')" for f
      using that 1(1,4,6) 2(1,4,6) by (auto simp: fixup_in_code_def)
    show "sorted_wrt (\<lambda>r s. sr_InstructionEnd r \<le> sr_DisplacementOffset s) (rels @ rels')"
      using 1(5,7) 2(5,7) by (fastforce simp: sorted_wrt_append in_code_def)
    show "sorted_wrt (\<lambda>f g. fx_InstructionEnd f \<le> fx_DisplacementOffset g) (fs @ fs')"
      using 1(6,8) 2(6,8) by (fastforce simp: sorted_wrt_append fixup_in_code_def)
    show "sr_InstructionEnd r \<le> fx_DisplacementOffset f \<or> fx_InstructionEnd f \<le> sr_DisplacementOffset r"
      if "r \<in> set (rels @ rels')" "f \<in> set (fs @ fs')" for r f
      using that 1(5,6,9) 2(5,6,9) unfolding in_code_def fixup_in_code_def set_append
      by (elim UnE; metis order.trans)
  qed (use 1 2 in simp_all)
qed

subsection \<open>Operations of the builder\<close>

text \<open>
  One call of the interface. A stub constant is a \<open>std::array\<close> of sixteen bytes.
\<close>

inductive builder_step :: "stub_builder \<Rightarrow> stub_builder \<Rightarrow> bool" where
  step_Sse: "builder_step b (Sse prefix opc dst src b)"
| step_SsePlain: "builder_step b (SsePlain opc dst src b)"
| step_SseImm: "builder_step b (SseImm prefix opc dst src imm b)"
| step_ShiftImm: "builder_step b (ShiftImm extension reg imm b)"
| step_ShiftDwordImm: "builder_step b (ShiftDwordImm extension reg imm b)"
| step_RipOperand: "length constant = 16 \<Longrightarrow> builder_step b (RipOperand opc reg constant b)"
| step_Load: "Load reg operand b = Inr b' \<Longrightarrow> builder_step b b'"
| step_Spill: "builder_step b (Spill reg b)"
| step_Restore: "builder_step b (Restore reg b)"
| step_Raw: "builder_step b (Raw code b)"
| step_Move: "Move instruction offset b = Inr b' \<Longrightarrow> builder_step b b'"
| step_RipRelative: "RipRelative instruction offset target b = Inr b' \<Longrightarrow> builder_step b b'"
| step_MoveControlFlow: "DecodeInstruction instruction = Inr info \<Longrightarrow> di_Length info = length instruction \<Longrightarrow>
    MoveControlFlow instruction info b = Inr b' \<Longrightarrow> builder_step b b'"
| step_JumpTo: "builder_step b (JumpTo target b)"
| step_Seek: "builder_step b (Seek offset b)"
| step_Advance: "builder_step b (Advance n b)"

definition builds :: "stub_builder \<Rightarrow> stub_builder \<Rightarrow> bool" where
  "builds = builder_step\<^sup>*\<^sup>*"

lemma builds_refl [simp]: "builds b b"
  by (simp add: builds_def)

lemma builds_step: "builds a b \<Longrightarrow> builder_step b c \<Longrightarrow> builds a c"
  unfolding builds_def by (rule rtranclp.rtrancl_into_rtrancl)

lemma builds_trans: "builds a b \<Longrightarrow> builds b c \<Longrightarrow> builds a c"
  unfolding builds_def by (rule rtranclp_trans)

lemma builds_calls:
  "builds a b \<Longrightarrow> builds a (Sse prefix opc dst src b)"
  "builds a b \<Longrightarrow> builds a (SsePlain opc dst src b)"
  "builds a b \<Longrightarrow> builds a (SseImm prefix opc dst src imm b)"
  "builds a b \<Longrightarrow> builds a (ShiftImm extension reg imm b)"
  "builds a b \<Longrightarrow> builds a (ShiftDwordImm extension reg imm b)"
  "builds a b \<Longrightarrow> length constant = 16 \<Longrightarrow> builds a (RipOperand opc reg constant b)"
  "builds a b \<Longrightarrow> builds a (Spill reg b)"
  "builds a b \<Longrightarrow> builds a (Restore reg b)"
  "builds a b \<Longrightarrow> builds a (Raw code b)"
  "builds a b \<Longrightarrow> builds a (JumpTo target b)"
  "builds a b \<Longrightarrow> builds a (Seek offset b)"
  "builds a b \<Longrightarrow> builds a (Advance n b)"
  by (rule builds_step, assumption, rule builder_step.intros, assumption?)+

lemma builds_partial:
  "builds a b \<Longrightarrow> Load reg operand b = Inr b' \<Longrightarrow> builds a b'"
  "builds a b \<Longrightarrow> Move instruction off b = Inr b' \<Longrightarrow> builds a b'"
  "builds a b \<Longrightarrow> RipRelative instruction n target b = Inr b' \<Longrightarrow> builds a b'"
  by (rule builds_step, assumption, erule builder_step.intros)+

subsection \<open>Every call only appends\<close>

lemmas builder_defs = Sse_def SsePlain_def SseImm_def ShiftImm_def ShiftDwordImm_def RipOperand_def Spill_def Restore_def
  Raw_def Seek_def Advance_def JumpTo_def rel32_def pushReturnAddress_def EmitSse_def shiftImm_def emit_bytes_def

lemma grows_Raw: "grows b (Raw code b)"
  by (rule grows_code [of _ _ code]) (simp_all add: Raw_def)

lemma grows_Advance: "grows b (Advance n b)" and grows_Seek: "grows b (Seek off b)"
  by (rule grows_code [of _ _ "[]"]; simp add: Advance_def Seek_def)+

lemma grows_rel32: "grows b (rel32 opc target b)"
  by (rule grows_relocation) (auto simp: rel32_def Let_def in_code_def)

lemma grows_pushReturnAddress: "grows b (pushReturnAddress target b)"
  unfolding pushReturnAddress_def by (intro grows_trans [OF grows_trans [OF grows_Raw grows_rel32] grows_Raw])

lemma grows_RipOperand: "grows b (RipOperand opc reg constant b)"
  by (rule growsI [where rels = "[]" and cs = "[constant]"])
    (auto simp: RipOperand_def Let_def emit_bytes_def fixup_in_code_def)

lemma grows_plain:
  "grows b (Sse prefix opc dst src b)" "grows b (SsePlain opc dst src b)" "grows b (SseImm prefix opc dst src imm b)"
  "grows b (ShiftImm extension reg imm b)" "grows b (ShiftDwordImm extension reg imm b)"
  "grows b (Spill reg b)" "grows b (Restore reg b)"
  by (rule grows_code; simp add: builder_defs; fail)+

lemma grows_Load:
  assumes "Load reg operand b = Inr b'"
  shows "grows b b'"
proof (cases "mo_RipRelative operand")
  case True
  then show ?thesis using assms unfolding Load_def Let_def if_Inl_eq_Inr
    by (intro grows_relocation) (auto simp del: if_split simp: in_code_def)
next
  case False
  then show ?thesis using assms unfolding Load_def Let_def if_Inl_eq_Inr
    by (intro grows_code) (auto simp del: if_split)
qed

text \<open>Clearing a field of the instruction that was just appended.\<close>

lemma clear_field:
  "offset + n \<le> length instruction \<Longrightarrow>
   foldl (\<lambda>out index. out[length bs + offset + index := 0]) (bs @ instruction) [0..<n] =
   bs @ foldl (\<lambda>out index. out[offset + index := 0]) instruction [0..<n]"
  by (induction n) (auto simp: list_update_append)

lemma length_clear_field [simp]:
  "length (foldl (\<lambda>out index. out[offset + index := 0]) instruction [0..<n]) = length instruction"
  by (induction n) auto

lemma grows_Move:
  assumes "Move instruction off b = Inr b'"
  shows "grows b b'"
proof (cases off)
  case None
  with assms have "b' = Advance (length instruction) (Raw instruction b)" by (simp add: Move_def Let_def)
  then show ?thesis using grows_trans [OF grows_Raw grows_Advance] by blast
next
  case (Some k)
  with assms show ?thesis
    by (intro grows_relocation) (auto simp: Move_def Let_def Raw_def Advance_def clear_field in_code_def split: if_splits)
qed

lemma grows_RipRelative:
  "RipRelative instruction n target b = Inr b' \<Longrightarrow> grows b b'"
  by (rule grows_relocation) (auto simp: RipRelative_def Let_def Raw_def Advance_def clear_field in_code_def split: if_splits)

lemma grows_MoveControlFlow:
  assumes "MoveControlFlow instruction info b = Inr b'"
  shows "grows b b'"
  using assms unfolding MoveControlFlow_def Let_def
  by (auto split: if_splits intro: grows_Move grows_trans [OF grows_pushReturnAddress grows_Move]
      grows_trans [OF grows_rel32 grows_Advance] grows_trans [OF grows_trans [OF grows_pushReturnAddress grows_rel32] grows_Advance])

lemma builder_step_grows: "builder_step b b' \<Longrightarrow> grows b b'"
  by (induction rule: builder_step.induct)
    (simp_all add: grows_plain grows_RipOperand grows_Raw grows_Advance grows_Seek JumpTo_def grows_rel32 grows_Load
      grows_Move grows_RipRelative grows_MoveControlFlow)

lemma builds_grows: "builds b b' \<Longrightarrow> grows b b'"
  unfolding builds_def by (induction rule: rtranclp_induct) (auto intro: grows_trans builder_step_grows)

definition constants_ok :: "stub_builder \<Rightarrow> bool" where
  "constants_ok b \<longleftrightarrow> (\<forall>c \<in> set (sb_constants b). length c = 16)"

lemma Move_keeps: "Move instruction off b = Inr b' \<Longrightarrow> sb_constants b' = sb_constants b \<and> sb_stackDepth b' = sb_stackDepth b"
  by (auto simp: Move_def Let_def Raw_def Advance_def split: option.splits if_splits)

lemma constants_ok_step: "builder_step b b' \<Longrightarrow> constants_ok b \<Longrightarrow> constants_ok b'"
proof (induction rule: builder_step.induct)
  case (step_MoveControlFlow instruction info b b')
  then show ?case
    unfolding MoveControlFlow_def Let_def
    by (auto simp: constants_ok_def Advance_def rel32_def pushReturnAddress_def Raw_def Let_def split: if_splits
        dest!: Move_keeps)
next
  case (step_Move instruction off b b')
  then show ?case by (simp add: constants_ok_def Move_keeps)
qed (auto simp: constants_ok_def builder_defs Let_def Load_def RipRelative_def split: if_splits)

lemma constants_ok_builds: "builds b b' \<Longrightarrow> constants_ok b \<Longrightarrow> constants_ok b'"
  unfolding builds_def by (induction rule: rtranclp_induct) (auto intro: constants_ok_step)

end
