(* ===== verification/X64_Stub_Layout.thy ===== *)
theory X64_Stub_Layout
  imports X64_Stub
begin

text \<open>
  What \<open>StubBodyBuilder::Finish\<close> and \<open>ApplyStubRelocations\<close> lay out: the constants behind the code, the
  fields that refer to them, and the fields that refer back to the site of the replaced instruction.
  The builder is any sequence of calls of the interface (\<open>builds empty_builder b\<close>).
\<close>

subsection \<open>Fields of four bytes\<close>

definition field32 :: "bytes \<Rightarrow> nat \<Rightarrow> u32" where
  "field32 data pos = le_word (subbytes data pos 4)"

lemma upt_4: "[0..<4] = [0, 1, 2, 3 :: nat]"
  by (simp add: upt_rec)

lemma write_value_blit: "pos + 4 \<le> length body \<Longrightarrow> write_value body pos v = blit body pos (le_bytes 4 v)"
proof (rule nth_equalityI)
  assume pos: "pos + 4 \<le> length body"
  then show "length (write_value body pos v) = length (blit body pos (le_bytes 4 v))"
    by (simp add: write_value_def upt_4 length_blit)
  fix i
  assume "i < length (write_value body pos v)"
  then have i: "i < length body" by (simp add: write_value_def upt_4)
  have bytes: "le_bytes 4 v = [ucast v, ucast (drop_bit 8 v), ucast (drop_bit 16 v), ucast (drop_bit 24 v)]"
    by (simp add: eval_nat_numeral)
  consider "i < pos" | "i = pos" | "i = pos + 1" | "i = pos + 2" | "i = pos + 3" | "pos + 4 \<le> i" by linarith
  then show "write_value body pos v ! i = blit body pos (le_bytes 4 v) ! i"
    using pos i by cases (simp_all add: nth_blit bytes write_value_def upt_4)
qed

lemma field32_write: "pos + 4 \<le> length body \<Longrightarrow> field32 (write_value body pos v) pos = v"
  using subbytes_blit_same [of pos "le_bytes 4 v" body] by (simp add: write_value_blit field32_def le_word_le_bytes)

lemma length_write_value [simp]: "length (write_value body pos v) = length body"
  by (simp add: write_value_def upt_4)

lemma write_value_other: "i < pos \<or> pos + 4 \<le> i \<Longrightarrow> write_value body pos v ! i = body ! i"
  by (auto simp: write_value_def upt_4)

lemma subbytes_cong:
  "(\<And>i. k \<le> i \<Longrightarrow> i < k + n \<Longrightarrow> a ! i = b ! i) \<Longrightarrow> length a = length b \<Longrightarrow> k + n \<le> length a \<Longrightarrow>
   subbytes a k n = subbytes b k n"
  by (auto intro!: nth_equalityI simp: layout_simps)

lemma field32_cong: "(\<And>i. pos \<le> i \<Longrightarrow> i < pos + 4 \<Longrightarrow> a ! i = b ! i) \<Longrightarrow> length a = length b \<Longrightarrow> pos + 4 \<le> length a \<Longrightarrow>
   field32 a pos = field32 b pos"
  unfolding field32_def by (rule arg_cong [of _ _ le_word]) (rule subbytes_cong)

text \<open>Writing fields that do not overlap.\<close>

definition write_fields :: "('x \<Rightarrow> nat) \<Rightarrow> ('x \<Rightarrow> u32) \<Rightarrow> 'x list \<Rightarrow> bytes \<Rightarrow> bytes" where
  "write_fields p v xs body = foldl (\<lambda>b x. write_value b (p x) (v x)) body xs"

lemma write_fields_simps [simp]:
  "write_fields p v [] body = body"
  "write_fields p v (x # xs) body = write_fields p v xs (write_value body (p x) (v x))"
  by (simp_all add: write_fields_def)

lemma length_write_fields [simp]: "length (write_fields p v xs body) = length body"
  by (induction xs arbitrary: body) simp_all

lemma write_fields_other:
  "(\<And>x. x \<in> set xs \<Longrightarrow> i < p x \<or> p x + 4 \<le> i) \<Longrightarrow> write_fields p v xs body ! i = body ! i"
  by (induction xs arbitrary: body) (simp_all add: write_value_other)

lemma write_fields_read:
  assumes "sorted_wrt (\<lambda>x y. p x + 4 \<le> p y) xs" and "\<And>x. x \<in> set xs \<Longrightarrow> p x + 4 \<le> length body" and "x \<in> set xs"
  shows "field32 (write_fields p v xs body) (p x) = v x"
  using assms
proof (induction xs arbitrary: body)
  case Nil
  then show ?case by simp
next
  case (Cons y ys)
  show ?case
  proof (cases "x \<in> set ys")
    case True
    then show ?thesis using Cons by simp
  next
    case False
    then have x: "x = y" using Cons.prems(3) by simp
    have "field32 (write_fields p v ys (write_value body (p y) (v y))) (p y) = field32 (write_value body (p y) (v y)) (p y)"
      by (rule field32_cong) (use Cons.prems in \<open>auto intro!: write_fields_other\<close>)
    then show ?thesis using Cons.prems(2) by (simp add: x field32_write)
  qed
qed

subsection \<open>Applying the relocations\<close>

definition reloc_displacement :: "u64 \<Rightarrow> u64 \<Rightarrow> stub_relocation \<Rightarrow> u64" where
  "reloc_displacement siteAddress stubAddress r =
     siteAddress + word_of_int (sr_SiteTarget r) - (stubAddress + of_nat (sr_InstructionEnd r))"

definition reloc_inside :: "bytes \<Rightarrow> stub_relocation \<Rightarrow> bool" where
  "reloc_inside body r \<longleftrightarrow> sr_DisplacementOffset r + 4 \<le> sr_InstructionEnd r \<and> sr_InstructionEnd r \<le> length body"

definition reloc_reachable :: "u64 \<Rightarrow> u64 \<Rightarrow> stub_relocation \<Rightarrow> bool" where
  "reloc_reachable siteAddress stubAddress r \<longleftrightarrow> sr_AddressSize32 r \<or>
     (- 2147483648 \<le> sint (reloc_displacement siteAddress stubAddress r) \<and>
      sint (reloc_displacement siteAddress stubAddress r) \<le> 2147483647)"

lemma apply_relocation_cases:
  "apply_relocation siteAddress stubAddress fo r body =
     (if \<not> reloc_inside body r then Inl (CodegenException ''Stub relocation lies outside the stub body'' fo)
      else if \<not> reloc_reachable siteAddress stubAddress r
      then Inl (CodegenException ''RIP-relative operand is out of rel32 range from its stub'' fo)
      else Inr (write_value body (sr_DisplacementOffset r) (ucast (reloc_displacement siteAddress stubAddress r))))"
  unfolding apply_relocation_def reloc_inside_def reloc_reachable_def reloc_displacement_def Let_def
  by (rule if_cong; (rule if_cong)?) auto

lemma ApplyStubRelocations_result:
  "ApplyStubRelocations body rs siteAddress stubAddress fo =
     (if \<forall>r \<in> set rs. reloc_inside body r \<and> reloc_reachable siteAddress stubAddress r
      then Inr (write_fields sr_DisplacementOffset (\<lambda>r. ucast (reloc_displacement siteAddress stubAddress r)) rs body)
      else Inl (CodegenException
        (if reloc_inside body (hd (dropWhile (\<lambda>r. reloc_inside body r \<and> reloc_reachable siteAddress stubAddress r) rs))
         then ''RIP-relative operand is out of rel32 range from its stub''
         else ''Stub relocation lies outside the stub body'') fo))"
  unfolding ApplyStubRelocations_def
proof (induction rs arbitrary: body)
  case Nil
  then show ?case by simp
next
  case (Cons r rs)
  have inside: "reloc_inside (write_value body pos v) = reloc_inside body" for pos v
    by (auto simp: reloc_inside_def)
  show ?case using Cons by (auto simp: apply_relocation_cases inside simp del: if_split split: if_split)
qed

lemma ucast_add_down: "ucast (a + b :: u64) = (ucast a + ucast b :: u32)"
proof -
  have "unat (ucast (a + b) :: u32) = unat (ucast a + ucast b :: u32)"
    by (simp add: unat_word_ariths unsigned_ucast_eq take_bit_eq_mod mod_mod_cancel mod_add_eq)
  then show ?thesis by (simp only: word_unat_eq_iff)
qed

lemma scast_ucast_small: "- 2147483648 \<le> sint (d :: u64) \<Longrightarrow> sint d \<le> 2147483647 \<Longrightarrow> (scast (ucast d :: u32) :: u64) = d"
proof -
  assume "- 2147483648 \<le> sint d" and "sint d \<le> 2147483647"
  then have "sint (word_of_int (sint d) :: u32) = sint d" by (intro sint_word_of_int_small) simp_all
  moreover have "(word_of_int (sint d) :: u32) = ucast d"
    by (rule bit_word_eqI) (simp add: bit_simps)
  ultimately have "sint (ucast d :: u32) = sint d" by simp
  then show ?thesis by (simp add: scast_eq)
qed

text \<open>A relocated instruction addresses its target: with an address-size prefix only the low 32 bits count.\<close>

definition reloc_addresses :: "u64 \<Rightarrow> u64 \<Rightarrow> bytes \<Rightarrow> stub_relocation \<Rightarrow> bool" where
  "reloc_addresses siteAddress stubAddress body r \<longleftrightarrow>
     (let next = stubAddress + of_nat (sr_InstructionEnd r); field = field32 body (sr_DisplacementOffset r);
          target = siteAddress + word_of_int (sr_SiteTarget r)
      in if sr_AddressSize32 r then ucast next + field = (ucast target :: u32)
         else next + scast field = target)"

lemma reloc_addresses_write:
  assumes "field32 body (sr_DisplacementOffset r) = ucast (reloc_displacement siteAddress stubAddress r)"
    and "reloc_reachable siteAddress stubAddress r"
  shows "reloc_addresses siteAddress stubAddress body r"
proof (cases "sr_AddressSize32 r")
  case True
  have "ucast (a :: u64) + ucast (b - a) = (ucast b :: u32)" for a b
  proof -
    have "ucast (a + (b - a)) = (ucast a + ucast (b - a) :: u32)"
      by (rule ucast_add_down)
    then show ?thesis by simp
  qed
  then show ?thesis using True assms(1) by (simp add: reloc_addresses_def Let_def reloc_displacement_def)
next
  case False
  then have "(scast (ucast (reloc_displacement siteAddress stubAddress r) :: u32) :: u64) = reloc_displacement siteAddress stubAddress r"
    using assms(2) by (intro scast_ucast_small) (simp_all add: reloc_reachable_def)
  then show ?thesis using False assms(1) by (simp add: reloc_addresses_def Let_def) (simp add: reloc_displacement_def)
qed

subsection \<open>What Finish lays out\<close>

lemma trap_fill_aligned: "\<exists>pad. trap_fill out = out @ pad \<and> length pad < 16 \<and> length (trap_fill out) mod 16 = 0"
proof -
  have "\<exists>pad. trap_fill out = out @ pad \<and> length pad = (16 - length out mod 16) mod 16 \<and> length (trap_fill out) mod 16 = 0"
  proof (induction out rule: trap_fill.induct)
    case (1 out)
    show ?case
    proof (cases "length out mod 16 = 0")
      case True
      then show ?thesis by (simp add: trap_fill.simps [of out])
    next
      case False
      with 1 obtain pad where pad: "trap_fill (out @ [kTrapFill]) = (out @ [kTrapFill]) @ pad"
        "length pad = (16 - Suc (length out) mod 16) mod 16" "length (trap_fill (out @ [kTrapFill])) mod 16 = 0"
        by auto
      have "Suc (length pad) = (16 - length out mod 16) mod 16"
        using False pad(2) mod_less_divisor [of 16 "length out"] by (cases "length out mod 16 = 15") (auto simp: mod_Suc)
      then have "length (kTrapFill # pad) = (16 - length out mod 16) mod 16" by simp
      moreover have "trap_fill out = trap_fill (out @ [kTrapFill])" using False trap_fill.simps [of out] by simp
      ultimately show ?thesis using pad(1,3) by (intro exI [of _ "kTrapFill # pad"]) simp
    qed
  qed
  then show ?thesis by fastforce
qed

definition constant_at :: "bytes list \<Rightarrow> nat list \<Rightarrow> bytes \<Rightarrow> nat \<Rightarrow> nat \<Rightarrow> bool" where
  "constant_at cs offsets body lo i \<longleftrightarrow>
     lo \<le> offsets ! i \<and> offsets ! i + length (cs ! i) \<le> length body \<and> offsets ! i mod 16 = 0 \<and>
     subbytes body (offsets ! i) (length (cs ! i)) = cs ! i"

lemma place_constants_layout:
  assumes "place_constants cs out = (body, offsets)"
  shows "length offsets = length cs \<and> (\<exists>rest. body = out @ rest) \<and>
    (\<forall>i < length cs. constant_at cs offsets body (length out) i)"
  using assms
proof (induction cs arbitrary: out body offsets)
  case Nil
  then show ?case by auto
next
  case (Cons c cs)
  obtain pad where pad: "trap_fill out = out @ pad" "length (trap_fill out) mod 16 = 0"
    using trap_fill_aligned [of out] by (elim exE conjE) (rule that)
  obtain offs where rest: "place_constants cs (trap_fill out @ c) = (body, offs)" and offsets: "offsets = length (trap_fill out) # offs"
    using Cons.prems by (cases "place_constants cs (trap_fill out @ c)") (simp add: Let_def)
  from Cons.IH [OF rest] obtain tail where IH: "length offs = length cs" "body = (trap_fill out @ c) @ tail"
      "\<forall>i < length cs. constant_at cs offs body (length (trap_fill out @ c)) i"
    by blast
  have placed: "constant_at (c # cs) offsets body (length out) i" if "i < length (c # cs)" for i
  proof (cases i)
    case 0
    have "body = out @ pad @ c @ tail" using IH(2) pad(1) by simp
    then show ?thesis using pad 0 by (simp add: constant_at_def offsets subbytes_def)
  next
    case (Suc j)
    then have "constant_at cs offs body (length (trap_fill out @ c)) j" using IH(3) that by simp
    then show ?thesis unfolding constant_at_def offsets Suc pad(1) nth_Cons_Suc length_append by linarith
  qed
  have "body = out @ (pad @ c @ tail)" using IH(2) pad(1) by simp
  then show ?case using IH(1) offsets placed by (intro conjI exI allI impI) simp_all
qed

lemma Finish_fields:
  "Finish b = (let (out, offsets) = place_constants (sb_constants b) (sb_bytes b @ kJmpRel32)
     in \<lparr>lb_Bytes = write_fields fx_DisplacementOffset
           (\<lambda>f. word_of_int (int (offsets ! fx_ConstantIndex f) - int (fx_InstructionEnd f))) (sb_fixups b) out,
         lb_ReturnBranchOffset = length (sb_bytes b), lb_Relocations = sb_relocations b\<rparr>)"
  unfolding Finish_def write_fields_def apply_fixup_def by simp

subsection \<open>Resolved stubs\<close>

lemma grows_empty:
  assumes "grows empty_builder b"
  shows "\<forall>r \<in> set (sb_relocations b). in_code 0 (length (sb_bytes b)) r"
    and "\<forall>f \<in> set (sb_fixups b). fixup_in_code 0 (length (sb_bytes b)) 0 (length (sb_constants b)) f"
    and "sorted_wrt (\<lambda>r s. sr_DisplacementOffset r + 4 \<le> sr_DisplacementOffset s) (sb_relocations b)"
    and "sorted_wrt (\<lambda>f g. fx_DisplacementOffset f + 4 \<le> fx_DisplacementOffset g) (sb_fixups b)"
    and "\<forall>r \<in> set (sb_relocations b). \<forall>f \<in> set (sb_fixups b).
      sr_InstructionEnd r \<le> fx_DisplacementOffset f \<or> fx_InstructionEnd f \<le> sr_DisplacementOffset r"
proof -
  from assms obtain code rels fs cs where g: "sb_relocations b = rels" "sb_fixups b = fs"
      "\<forall>r \<in> set rels. in_code 0 (length (sb_bytes b)) r"
      "\<forall>f \<in> set fs. fixup_in_code 0 (length (sb_bytes b)) 0 (length (sb_constants b)) f"
      "sorted_wrt (\<lambda>r s. sr_InstructionEnd r \<le> sr_DisplacementOffset s) rels"
      "sorted_wrt (\<lambda>f g. fx_InstructionEnd f \<le> fx_DisplacementOffset g) fs"
      "\<forall>r \<in> set rels. \<forall>f \<in> set fs. sr_InstructionEnd r \<le> fx_DisplacementOffset f \<or>
        fx_InstructionEnd f \<le> sr_DisplacementOffset r"
    unfolding grows_def empty_builder_def by auto
  show "\<forall>r \<in> set (sb_relocations b). in_code 0 (length (sb_bytes b)) r"
    "\<forall>f \<in> set (sb_fixups b). fixup_in_code 0 (length (sb_bytes b)) 0 (length (sb_constants b)) f"
    "\<forall>r \<in> set (sb_relocations b). \<forall>f \<in> set (sb_fixups b).
      sr_InstructionEnd r \<le> fx_DisplacementOffset f \<or> fx_InstructionEnd f \<le> sr_DisplacementOffset r"
    using g by simp_all
  show "sorted_wrt (\<lambda>r s. sr_DisplacementOffset r + 4 \<le> sr_DisplacementOffset s) (sb_relocations b)"
    unfolding g(1) by (rule sorted_wrt_mono_rel [OF _ g(5)]) (use g(3) in \<open>auto simp: in_code_def\<close>)
  show "sorted_wrt (\<lambda>f g. fx_DisplacementOffset f + 4 \<le> fx_DisplacementOffset g) (sb_fixups b)"
    unfolding g(2) by (rule sorted_wrt_mono_rel [OF _ g(6)]) (use g(4) in \<open>auto simp: fixup_in_code_def\<close>)
qed

text \<open>
  The finished body: the code with the fields filled in, the return branch, and the constants, each at
  a multiple of sixteen that its fields lead to.
\<close>

definition fixup_reaches :: "bytes list \<Rightarrow> bytes \<Rightarrow> fixup \<Rightarrow> bool" where
  "fixup_reaches cs body f \<longleftrightarrow>
     (let target = int (fx_InstructionEnd f) + sint (field32 body (fx_DisplacementOffset f))
      in 0 \<le> target \<and> nat target mod 16 = 0 \<and> subbytes body (nat target) 16 = cs ! fx_ConstantIndex f)"

definition constants_from :: "bytes list \<Rightarrow> nat list \<Rightarrow> bytes \<Rightarrow> nat \<Rightarrow> bool" where
  "constants_from cs offsets body lo \<longleftrightarrow> (\<forall>i < length cs. constant_at cs offsets body lo i)"

lemma Finish_layout:
  assumes "builds empty_builder b"
  shows "\<exists>offsets. length (lb_Bytes (Finish b)) \<ge> length (sb_bytes b) + 5 \<and>
    constants_from (sb_constants b) offsets (lb_Bytes (Finish b)) (length (sb_bytes b) + 5) \<and>
    (\<forall>f \<in> set (sb_fixups b). field32 (lb_Bytes (Finish b)) (fx_DisplacementOffset f) =
       word_of_int (int (offsets ! fx_ConstantIndex f) - int (fx_InstructionEnd f))) \<and>
    (\<forall>i < length (sb_bytes b) + 5. (\<forall>f \<in> set (sb_fixups b). i < fx_DisplacementOffset f \<or> fx_DisplacementOffset f + 4 \<le> i) \<longrightarrow>
       lb_Bytes (Finish b) ! i = (sb_bytes b @ kJmpRel32) ! i)"
proof -
  note g = grows_empty [OF builds_grows [OF assms]]
  obtain out offsets where p: "place_constants (sb_constants b) (sb_bytes b @ kJmpRel32) = (out, offsets)"
    by (cases "place_constants (sb_constants b) (sb_bytes b @ kJmpRel32)")
  let ?v = "\<lambda>f. word_of_int (int (offsets ! fx_ConstantIndex f) - int (fx_InstructionEnd f)) :: u32"
  have body: "lb_Bytes (Finish b) = write_fields fx_DisplacementOffset ?v (sb_fixups b) out"
    by (simp add: Finish_fields p)
  from place_constants_layout [OF p] obtain rest where out: "out = (sb_bytes b @ kJmpRel32) @ rest"
    and at: "\<forall>i < length (sb_constants b). constant_at (sb_constants b) offsets out (length (sb_bytes b @ kJmpRel32)) i"
    by blast
  have len: "length (sb_bytes b) + 5 \<le> length out" unfolding out by simp
  have inside: "fx_DisplacementOffset f + 4 \<le> length (sb_bytes b)" if "f \<in> set (sb_fixups b)" for f
    using g(2) that by (auto simp: fixup_in_code_def)
  have fields: "field32 (write_fields fx_DisplacementOffset ?v (sb_fixups b) out) (fx_DisplacementOffset f) = ?v f"
    if "f \<in> set (sb_fixups b)" for f
    by (rule write_fields_read [OF g(4) _ that]) (use inside len in fastforce)
  have other: "write_fields fx_DisplacementOffset ?v (sb_fixups b) out ! i = out ! i"
    if "\<forall>f \<in> set (sb_fixups b). i < fx_DisplacementOffset f \<or> fx_DisplacementOffset f + 4 \<le> i" for i
    by (rule write_fields_other) (use that in blast)
  have keep: "subbytes (write_fields fx_DisplacementOffset ?v (sb_fixups b) out) k n = subbytes out k n"
    if "length (sb_bytes b) \<le> k" "k + n \<le> length out" for k n
    by (rule subbytes_cong, rule other) (use inside that in fastforce)+
  have consts_ok: "constants_from (sb_constants b) offsets (write_fields fx_DisplacementOffset ?v (sb_fixups b) out) (length (sb_bytes b) + 5)"
    unfolding constants_from_def
  proof (intro allI impI)
    fix i
    assume "i < length (sb_constants b)"
    with at have "constant_at (sb_constants b) offsets out (length (sb_bytes b @ kJmpRel32)) i" by blast
    then show "constant_at (sb_constants b) offsets (write_fields fx_DisplacementOffset ?v (sb_fixups b) out) (length (sb_bytes b) + 5) i"
      using keep [of "offsets ! i" "length (sb_constants b ! i)"] by (simp add: constant_at_def)
  qed
  have code: "out ! i = (sb_bytes b @ kJmpRel32) ! i" if "i < length (sb_bytes b) + 5" for i
    unfolding out using that by (subst nth_append) simp
  show ?thesis
    unfolding body
    by (rule exI [of _ offsets]) (use len consts_ok fields other code in simp)
qed

text \<open>A body after its relocations: what the builder promised of every reference.\<close>

definition outside_fields :: "stub_builder \<Rightarrow> nat \<Rightarrow> bool" where
  "outside_fields b i \<longleftrightarrow>
     (\<forall>f \<in> set (sb_fixups b). i < fx_DisplacementOffset f \<or> fx_DisplacementOffset f + 4 \<le> i) \<and>
     (\<forall>r \<in> set (sb_relocations b). i < sr_DisplacementOffset r \<or> sr_DisplacementOffset r + 4 \<le> i)"

definition stub_resolved :: "stub_builder \<Rightarrow> u64 \<Rightarrow> u64 \<Rightarrow> bytes \<Rightarrow> bool" where
  "stub_resolved b siteAddress stubAddress body \<longleftrightarrow>
     (\<forall>r \<in> set (sb_relocations b). reloc_addresses siteAddress stubAddress body r) \<and>
     (\<forall>f \<in> set (sb_fixups b). fixup_reaches (sb_constants b) body f) \<and>
     (\<forall>i < length (sb_bytes b) + 5. outside_fields b i \<longrightarrow> body ! i = (sb_bytes b @ kJmpRel32) ! i)"

lemma relocations_inside:
  assumes "builds empty_builder b" and "r \<in> set (sb_relocations b)"
  shows "reloc_inside (lb_Bytes (Finish b)) r" and "sr_DisplacementOffset r + 4 \<le> length (sb_bytes b)"
proof -
  have "in_code 0 (length (sb_bytes b)) r" using grows_empty(1) [OF builds_grows [OF assms(1)]] assms(2) by blast
  moreover have "length (sb_bytes b) + 5 \<le> length (lb_Bytes (Finish b))" using Finish_layout [OF assms(1)] by blast
  ultimately show "reloc_inside (lb_Bytes (Finish b)) r" and "sr_DisplacementOffset r + 4 \<le> length (sb_bytes b)"
    by (simp_all add: in_code_def reloc_inside_def)
qed

lemma Finish_relocations [simp]: "lb_Relocations (Finish b) = sb_relocations b"
  by (simp add: Finish_fields split: prod.split)

lemma Finish_ReturnBranchOffset [simp]: "lb_ReturnBranchOffset (Finish b) = length (sb_bytes b)"
  by (simp add: Finish_fields split: prod.split)

lemma ApplyStubRelocations_Finish:
  assumes "builds empty_builder b"
  shows "ApplyStubRelocations (lb_Bytes (Finish b)) (lb_Relocations (Finish b)) siteAddress stubAddress fo =
    (if \<forall>r \<in> set (sb_relocations b). reloc_reachable siteAddress stubAddress r
     then Inr (write_fields sr_DisplacementOffset (\<lambda>r. ucast (reloc_displacement siteAddress stubAddress r))
       (sb_relocations b) (lb_Bytes (Finish b)))
     else Inl (CodegenException ''RIP-relative operand is out of rel32 range from its stub'' fo))"
proof -
  let ?ok = "\<lambda>r. reloc_inside (lb_Bytes (Finish b)) r \<and> reloc_reachable siteAddress stubAddress r"
  have "reloc_inside (lb_Bytes (Finish b)) (hd (dropWhile ?ok (sb_relocations b)))"
    if "\<not> (\<forall>r \<in> set (sb_relocations b). ?ok r)"
  proof -
    have "dropWhile ?ok (sb_relocations b) \<noteq> []" using that by (simp add: dropWhile_eq_Nil_conv)
    then have "hd (dropWhile ?ok (sb_relocations b)) \<in> set (sb_relocations b)"
      using hd_in_set set_dropWhileD by metis
    then show ?thesis by (rule relocations_inside [OF assms])
  qed
  then show ?thesis
    unfolding ApplyStubRelocations_result Finish_relocations
    using relocations_inside(1) [OF assms] by (auto simp del: if_split split: if_split)
qed

lemma fixup_value:
  assumes "p < 2 ^ 31" and "e \<le> p"
  shows "int e + sint (word_of_int (int p - int e) :: u32) = int p"
proof -
  have "sint (word_of_int (int p - int e) :: u32) = int p - int e"
    by (rule sint_word_of_int_small) (use assms in auto)
  then show ?thesis by simp
qed

lemma stub_resolvedI:
  assumes b: "builds empty_builder b"
    and body: "ApplyStubRelocations (lb_Bytes (Finish b)) (lb_Relocations (Finish b)) siteAddress stubAddress fo = Inr body"
    and size: "length body < 2 ^ 31"
  shows "stub_resolved b siteAddress stubAddress body" and "length body = length (lb_Bytes (Finish b))"
proof -
  note g = grows_empty [OF builds_grows [OF b]]
  let ?w = "write_fields sr_DisplacementOffset (\<lambda>r. ucast (reloc_displacement siteAddress stubAddress r))
       (sb_relocations b) (lb_Bytes (Finish b))"
  have reach: "\<forall>r \<in> set (sb_relocations b). reloc_reachable siteAddress stubAddress r" and eq: "body = ?w"
    using body unfolding ApplyStubRelocations_Finish [OF b] by (auto split: if_splits)
  from Finish_layout [OF b] obtain offsets where len: "length (sb_bytes b) + 5 \<le> length (lb_Bytes (Finish b))"
    and cs: "constants_from (sb_constants b) offsets (lb_Bytes (Finish b)) (length (sb_bytes b) + 5)"
    and fields: "\<And>f. f \<in> set (sb_fixups b) \<Longrightarrow> field32 (lb_Bytes (Finish b)) (fx_DisplacementOffset f) =
       word_of_int (int (offsets ! fx_ConstantIndex f) - int (fx_InstructionEnd f))"
    and code: "\<And>i. i < length (sb_bytes b) + 5 \<Longrightarrow>
       \<forall>f \<in> set (sb_fixups b). i < fx_DisplacementOffset f \<or> fx_DisplacementOffset f + 4 \<le> i \<Longrightarrow>
       lb_Bytes (Finish b) ! i = (sb_bytes b @ kJmpRel32) ! i"
    by (elim exE conjE) blast
  show size_eq: "length body = length (lb_Bytes (Finish b))" by (simp add: eq)
  have other: "body ! i = lb_Bytes (Finish b) ! i"
    if "\<forall>r \<in> set (sb_relocations b). i < sr_DisplacementOffset r \<or> sr_DisplacementOffset r + 4 \<le> i" for i
    unfolding eq by (rule write_fields_other) (use that in blast)
  have relocs: "reloc_addresses siteAddress stubAddress body r" if "r \<in> set (sb_relocations b)" for r
  proof (rule reloc_addresses_write)
    show "field32 body (sr_DisplacementOffset r) = ucast (reloc_displacement siteAddress stubAddress r)"
      unfolding eq by (rule write_fields_read [OF g(3) _ that]) (use relocations_inside(2) [OF b] len in fastforce)
  qed (use reach that in blast)
  have fixups: "fixup_reaches (sb_constants b) body f" if f: "f \<in> set (sb_fixups b)" for f
  proof -
    have fc: "fixup_in_code 0 (length (sb_bytes b)) 0 (length (sb_constants b)) f" using g(2) f by blast
    have at: "constant_at (sb_constants b) offsets (lb_Bytes (Finish b)) (length (sb_bytes b) + 5) (fx_ConstantIndex f)"
      using cs fc by (simp add: constants_from_def fixup_in_code_def)
    have c16: "length (sb_constants b ! fx_ConstantIndex f) = 16"
      using constants_ok_builds [OF b] fc by (simp add: constants_ok_def empty_builder_def fixup_in_code_def)
    have same: "field32 body (fx_DisplacementOffset f) = field32 (lb_Bytes (Finish b)) (fx_DisplacementOffset f)"
    proof (rule field32_cong)
      fix i
      assume i: "fx_DisplacementOffset f \<le> i" "i < fx_DisplacementOffset f + 4"
      show "body ! i = lb_Bytes (Finish b) ! i"
      proof (rule other, rule ballI)
        fix r
        assume r: "r \<in> set (sb_relocations b)"
        with g(5) f have "sr_InstructionEnd r \<le> fx_DisplacementOffset f \<or> fx_InstructionEnd f \<le> sr_DisplacementOffset r"
          by blast
        moreover have "in_code 0 (length (sb_bytes b)) r" using g(1) r by blast
        ultimately show "i < sr_DisplacementOffset r \<or> sr_DisplacementOffset r + 4 \<le> i"
          using i fc unfolding in_code_def fixup_in_code_def by linarith
      qed
    qed (use fc len size_eq in \<open>simp_all add: fixup_in_code_def\<close>)
    have sub: "subbytes body (offsets ! fx_ConstantIndex f) 16 = subbytes (lb_Bytes (Finish b)) (offsets ! fx_ConstantIndex f) 16"
    proof (rule subbytes_cong)
      show "body ! i = lb_Bytes (Finish b) ! i"
        if "offsets ! fx_ConstantIndex f \<le> i" "i < offsets ! fx_ConstantIndex f + 16" for i
        by (rule other) (use relocations_inside(2) [OF b] at that in \<open>fastforce simp: constant_at_def\<close>)
    qed (use at c16 size_eq in \<open>simp_all add: constant_at_def\<close>)
    have "int (fx_InstructionEnd f) + sint (field32 body (fx_DisplacementOffset f)) = int (offsets ! fx_ConstantIndex f)"
      unfolding same fields [OF f] by (rule fixup_value) (use at fc size size_eq c16 in \<open>simp_all add: constant_at_def fixup_in_code_def\<close>)
    then show ?thesis
      unfolding fixup_reaches_def Let_def using at c16 sub by (simp add: constant_at_def)
  qed
  have "body ! i = (sb_bytes b @ kJmpRel32) ! i" if "i < length (sb_bytes b) + 5" "outside_fields b i" for i
    using other [of i] code [of i] that by (simp add: outside_fields_def)
  then show "stub_resolved b siteAddress stubAddress body"
    using relocs fixups by (simp add: stub_resolved_def)
qed


subsection \<open>Moved instructions\<close>

lemma subbytes_4: "pos + 4 \<le> length data \<Longrightarrow>
   subbytes data pos 4 = [data ! pos, data ! (pos + 1), data ! (pos + 2), data ! (pos + 3)]"
proof (rule nth_equalityI)
  assume pos: "pos + 4 \<le> length data"
  then show "length (subbytes data pos 4) = length [data ! pos, data ! (pos + 1), data ! (pos + 2), data ! (pos + 3)]"
    by (simp add: layout_simps)
  fix i
  assume "i < length (subbytes data pos 4)"
  then have i: "i < 4" using pos by (simp add: layout_simps)
  then consider "i = 0" | "i = 1" | "i = 2" | "i = 3" by linarith
  then show "subbytes data pos 4 ! i = [data ! pos, data ! (pos + 1), data ! (pos + 2), data ! (pos + 3)] ! i"
    using pos by cases (simp_all add: nth_subbytes)
qed

lemma bytes_value_field32: "pos + 4 \<le> length data \<Longrightarrow> bytes_value data pos 4 = field32 data pos"
  by (simp add: subbytes_4 field32_def bytes_value_def upt_4 push_bit_or ac_simps)

text \<open>Later references of the builder lie behind the code that is already there.\<close>

lemma grows_outside:
  assumes "grows b b'" and "i < length (sb_bytes b)"
  shows "outside_fields b' i \<longleftrightarrow> outside_fields b i"
proof -
  from assms(1) obtain rels fs where "sb_relocations b' = sb_relocations b @ rels" "sb_fixups b' = sb_fixups b @ fs"
      "\<forall>r \<in> set rels. in_code (length (sb_bytes b)) (length (sb_bytes b')) r"
      "\<forall>f \<in> set fs. fixup_in_code (length (sb_bytes b)) (length (sb_bytes b'))
        (length (sb_constants b)) (length (sb_constants b')) f"
    unfolding grows_def by blast
  then show ?thesis
    using assms(2) by (fastforce simp: outside_fields_def in_code_def fixup_in_code_def)
qed

lemma fresh_outside: "grows empty_builder b \<Longrightarrow> length (sb_bytes b) \<le> i \<Longrightarrow> outside_fields b i"
  using grows_empty(1,2) [of b] by (fastforce simp: outside_fields_def in_code_def fixup_in_code_def)

definition moved_relocation :: "bytes \<Rightarrow> nat \<Rightarrow> stub_builder \<Rightarrow> stub_relocation" where
  "moved_relocation instruction off b =
     \<lparr>sr_DisplacementOffset = length (sb_bytes b) + off, sr_InstructionEnd = length (sb_bytes b) + length instruction,
      sr_SiteTarget = sb_siteOffset b + int (length instruction) + sint (field32 instruction off),
      sr_AddressSize32 = addressSize32 instruction\<rparr>"

lemma Move_Some_Inr:
  "Move instruction (Some off) b = Inr b' \<longleftrightarrow> off + 4 \<le> length instruction \<and>
     b' = b\<lparr>sb_bytes := sb_bytes b @ foldl (\<lambda>out index. out[off + index := 0]) instruction [0..<4],
            sb_relocations := sb_relocations b @ [moved_relocation instruction off b],
            sb_siteOffset := sb_siteOffset b + int (length instruction)\<rparr>"
  by (auto simp: Move_def Let_def Raw_def Advance_def moved_relocation_def signed32_def bytes_value_field32 clear_field
      not_less le_diff_conv2 stub_builder.defs)

lemma clear_field_other: "i < off \<or> off + 4 \<le> i \<Longrightarrow> foldl (\<lambda>out index. out[off + index := 0]) xs [0..<4] ! i = xs ! i"
  by (auto simp: upt_4)

lemma Move_in_place:
  assumes b: "builds empty_builder b" and move: "Move instruction (Some off) b = Inr b'" and later: "builds b' b''"
    and body: "stub_resolved b'' siteAddress stubAddress body"
  shows "reloc_addresses siteAddress stubAddress body (moved_relocation instruction off b)"
    and "i < length instruction \<Longrightarrow> i < off \<or> off + 4 \<le> i \<Longrightarrow> body ! (length (sb_bytes b) + i) = instruction ! i"
proof -
  note b' = move [unfolded Move_Some_Inr]
  from builds_grows [OF later] obtain code rels where g: "sb_bytes b'' = sb_bytes b' @ code" "sb_relocations b'' = sb_relocations b' @ rels"
    unfolding grows_def by blast
  have "moved_relocation instruction off b \<in> set (sb_relocations b'')" using g(2) b' by simp
  with body show "reloc_addresses siteAddress stubAddress body (moved_relocation instruction off b)"
    by (simp add: stub_resolved_def)
  let ?cleared = "foldl (\<lambda>out index. out[off + index := 0]) instruction [0..<4]"
  show "body ! (length (sb_bytes b) + i) = instruction ! i" if i: "i < length instruction" "i < off \<or> off + 4 \<le> i"
  proof -
    have "outside_fields b (length (sb_bytes b) + i)" by (rule fresh_outside [OF builds_grows [OF b]]) simp
    then have "outside_fields b' (length (sb_bytes b) + i)" using b' i by (auto simp: outside_fields_def moved_relocation_def)
    then have "outside_fields b'' (length (sb_bytes b) + i)" using grows_outside [OF builds_grows [OF later]] b' i by simp
    moreover have "(sb_bytes b'' @ kJmpRel32) ! (length (sb_bytes b) + i) = ?cleared ! i"
    proof -
      have "sb_bytes b'' @ kJmpRel32 = sb_bytes b @ ?cleared @ (code @ kJmpRel32)" using g(1) b' by simp
      then show ?thesis using i by (simp add: nth_append)
    qed
    ultimately show ?thesis using body i g(1) b' by (simp add: stub_resolved_def clear_field_other)
  qed
qed

text \<open>
  C20: After any sequence of builder calls, \<open>Finish\<close> and a successful \<open>ApplyStubRelocations\<close>, every reference of
  the stub arrives: each relocated instruction addresses its site target from the stub's address, each
  constant field leads to a sixteen-byte aligned copy of its constant, and every other byte of the code and
  of the return branch is the one the builder emitted.
\<close>
theorem stub_references_resolved:
  assumes "builds empty_builder b"
    and "ApplyStubRelocations (lb_Bytes (Finish b)) (lb_Relocations (Finish b)) siteAddress stubAddress fo = Inr body"
    and "length body < 2 ^ 31"
  shows "length body = length (lb_Bytes (Finish b)) \<and> stub_resolved b siteAddress stubAddress body"
  using stub_resolvedI [OF assms] by blast

text \<open>
  C21: The relocations that a finished builder hands out always lie inside its body: applying them fails
  exactly when some target is out of the reach of a signed 32-bit displacement, with that message.
\<close>
theorem stub_relocation_failure:
  assumes "builds empty_builder b"
  shows "((\<exists>body. ApplyStubRelocations (lb_Bytes (Finish b)) (lb_Relocations (Finish b)) siteAddress stubAddress fo = Inr body)
       \<longleftrightarrow> (\<forall>r \<in> set (sb_relocations b). reloc_reachable siteAddress stubAddress r)) \<and>
    (\<forall>e. ApplyStubRelocations (lb_Bytes (Finish b)) (lb_Relocations (Finish b)) siteAddress stubAddress fo = Inl e \<longrightarrow>
       e = CodegenException ''RIP-relative operand is out of rel32 range from its stub'' fo)"
  unfolding ApplyStubRelocations_Finish [OF assms] by auto

text \<open>
  An instruction that \<open>Move\<close> copies into a stub keeps the absolute address of its RIP-relative operand:
  from its place in the stub it addresses what it addressed at the site, and its other bytes are unchanged.
\<close>
theorem move_keeps_operand:
  assumes "builds empty_builder b" and "Move instruction (Some off) b = Inr b'" and "builds b' b''"
    and "ApplyStubRelocations (lb_Bytes (Finish b'')) (lb_Relocations (Finish b'')) siteAddress stubAddress fo = Inr body"
    and "length body < 2 ^ 31" and "\<not> addressSize32 instruction"
  shows "(\<forall>i < length instruction. i < off \<or> off + 4 \<le> i \<longrightarrow> body ! (length (sb_bytes b) + i) = instruction ! i) \<and>
    stubAddress + of_nat (length (sb_bytes b) + length instruction) + scast (field32 body (length (sb_bytes b) + off)) =
    siteAddress + word_of_int (sb_siteOffset b + int (length instruction)) + scast (field32 instruction off)"
proof -
  have "builds b b'" by (rule builds_partial(2) [OF builds_refl assms(2)])
  then have "builds empty_builder b''" using assms(1,3) by (blast intro: builds_trans)
  note moved = Move_in_place [OF assms(1-3) stub_resolvedI(1) [OF this assms(4,5)]]
  have "stubAddress + of_nat (length (sb_bytes b) + length instruction) + scast (field32 body (length (sb_bytes b) + off)) =
    siteAddress + word_of_int (sb_siteOffset b + int (length instruction) + sint (field32 instruction off))"
    using moved(1) assms(6)
    by (simp only: reloc_addresses_def moved_relocation_def Let_def stub_relocation.simps if_False)
  also have "\<dots> = siteAddress + word_of_int (sb_siteOffset b + int (length instruction)) + scast (field32 instruction off)"
    by (simp only: scast_eq wi_hom_add [symmetric] add.assoc)
  finally show ?thesis
    by (intro conjI allI impI moved(2)) assumption+
qed


subsection \<open>A concrete stub\<close>

text \<open>\<open>lea rax, [rip + 0x10]\<close> moved into a stub, followed by \<open>pand xmm1, [constant]\<close>.\<close>

definition sample_lea :: bytes where
  "sample_lea = [0x48, 0x8D, 0x05, 0x10, 0x00, 0x00, 0x00]"

definition sample_moved :: stub_builder where
  "sample_moved = projr (Move sample_lea (Some 3) empty_builder)"

definition sample_builder :: stub_builder where
  "sample_builder = RipOperand [0x0F, 0xDB] 1 (map of_nat [0..<16]) sample_moved"

definition sample_body :: bytes where
  "sample_body = projr (ApplyStubRelocations (lb_Bytes (Finish sample_builder)) (lb_Relocations (Finish sample_builder))
     0x1000 0x2000 0)"

lemma sample_move: "Move sample_lea (Some 3) empty_builder = Inr sample_moved"
  by (simp add: sample_moved_def Move_def sample_lea_def Let_def)

lemma sample_builds: "builds empty_builder sample_moved" "builds sample_moved sample_builder"
  using sample_move by (auto simp: sample_builder_def intro: builds_calls builds_partial builds_refl)

lemma sample_built: "builds empty_builder sample_builder"
  using sample_builds by (rule builds_trans)

lemma sample_result:
  "res_holds (\<lambda>body. length body = 48)
     (ApplyStubRelocations (lb_Bytes (Finish sample_builder)) (lb_Relocations (Finish sample_builder)) 0x1000 0x2000 0)"
  by code_simp

lemma sample_body: "ApplyStubRelocations (lb_Bytes (Finish sample_builder)) (lb_Relocations (Finish sample_builder))
     0x1000 0x2000 0 = Inr sample_body" "length sample_body < 2 ^ 31"
  using res_holdsD [OF sample_result] by (auto simp: sample_body_def)

lemma stub_references_resolved_witness:
  "length sample_body = length (lb_Bytes (Finish sample_builder)) \<and> stub_resolved sample_builder 0x1000 0x2000 sample_body"
  by (rule stub_references_resolved [OF sample_built sample_body])

lemma stub_relocation_failure_witness:
  "\<exists>body. ApplyStubRelocations (lb_Bytes (Finish sample_builder)) (lb_Relocations (Finish sample_builder))
     0x1000 0x2000 0 = Inr body \<and> (\<forall>r \<in> set (sb_relocations sample_builder). reloc_reachable 0x1000 0x2000 r)"
  using stub_relocation_failure [OF sample_built, of "0x1000" "0x2000" 0] sample_body(1) by blast

lemma sample_not_32: "\<not> addressSize32 sample_lea"
  by code_simp

lemma move_keeps_operand_witness:
  "0x2000 + of_nat (length (sb_bytes empty_builder) + length sample_lea) +
     scast (field32 sample_body (length (sb_bytes empty_builder) + 3)) =
   (0x1000 :: u64) + word_of_int (sb_siteOffset empty_builder + int (length sample_lea)) + scast (field32 sample_lea 3)"
  using move_keeps_operand [OF builds_refl sample_move sample_builds(2) sample_body sample_not_32] by (rule conjunct2)

end
