(* ===== verification/X64_Calls.thy ===== *)
theory X64_Calls
  imports X64_Stub_Layout
begin

text \<open>
  The lowerings never read the builder: what they emit is a sequence of calls of its interface. A
  lowering is modelled as the list of its calls, in the order the code makes them, and \<open>perform\<close> is the
  builder's answer to each. The lemmas give, for every list of calls, what the builder looks like
  afterwards; the locale \<open>stub_emitter\<close> is what every lowering promises of its list: the registers it
  spills are restored in the opposite order, and the calls never move the position in the site.
\<close>

subsection \<open>Calls\<close>

datatype stub_call =
    CallSse u8 bytes u8 u8
  | CallSsePlain bytes u8 u8
  | CallSseImm u8 bytes u8 u8 u8
  | CallShiftImm u8 u8 u8
  | CallShiftDwordImm u8 u8 u8
  | CallRipOperand bytes u8 bytes
  | CallLoad u8 memory_operand
  | CallSpill u8
  | CallRestore u8
  | CallRaw bytes
  | CallRipRelative bytes nat int

fun perform :: "stub_call \<Rightarrow> stub_builder \<Rightarrow> stub_builder res" where
  "perform (CallSse prefix opc dst src) b = Inr (Sse prefix opc dst src b)"
| "perform (CallSsePlain opc dst src) b = Inr (SsePlain opc dst src b)"
| "perform (CallSseImm prefix opc dst src imm) b = Inr (SseImm prefix opc dst src imm b)"
| "perform (CallShiftImm extension reg imm) b = Inr (ShiftImm extension reg imm b)"
| "perform (CallShiftDwordImm extension reg imm) b = Inr (ShiftDwordImm extension reg imm b)"
| "perform (CallRipOperand opc reg constant) b = Inr (RipOperand opc reg constant b)"
| "perform (CallLoad reg operand) b = Load reg operand b"
| "perform (CallSpill reg) b = Inr (Spill reg b)"
| "perform (CallRestore reg) b = Inr (Restore reg b)"
| "perform (CallRaw code) b = Inr (Raw code b)"
| "perform (CallRipRelative instruction off target) b = RipRelative instruction off target b"

definition perform_all :: "stub_call list \<Rightarrow> stub_builder \<Rightarrow> stub_builder res" where
  "perform_all = fold_res perform"

text \<open>A stub constant is a \<open>std::array\<close> of sixteen bytes.\<close>

fun call_ok :: "stub_call \<Rightarrow> bool" where
  "call_ok (CallRipOperand opc reg constant) \<longleftrightarrow> length constant = 16"
| "call_ok _ \<longleftrightarrow> True"

lemma perform_all_Nil [simp]: "perform_all [] b = Inr b"
  and perform_all_Cons [simp]: "perform_all (c # cs) b = bind_res (perform c b) (perform_all cs)"
  by (simp_all add: perform_all_def)

lemma perform_all_append: "perform_all (xs @ ys) b = bind_res (perform_all xs b) (perform_all ys)"
  by (simp add: perform_all_def fold_res_append)

lemma perform_step: "call_ok c \<Longrightarrow> perform c b = Inr b' \<Longrightarrow> builder_step b b'"
  by (cases c) (auto intro: builder_step.intros)

lemma perform_all_builds: "perform_all cs b = Inr b' \<Longrightarrow> list_all call_ok cs \<Longrightarrow> builds b b'"
proof (induction cs arbitrary: b)
  case (Cons c cs)
  then obtain b1 where "perform c b = Inr b1" "perform_all cs b1 = Inr b'" by (auto simp: res_simps)
  then show ?case using Cons by (auto intro: builds_trans builds_step [OF builds_refl perform_step])
qed simp

subsection \<open>The position in the site\<close>

lemma perform_site: "perform c b = Inr b' \<Longrightarrow> sb_siteOffset b' = sb_siteOffset b"
  by (cases c) (auto simp: builder_defs Let_def Load_def RipRelative_def split: if_splits)

lemma perform_all_site: "perform_all cs b = Inr b' \<Longrightarrow> sb_siteOffset b' = sb_siteOffset b"
  by (induction cs arbitrary: b) (auto simp: res_simps dest: perform_site)

subsection \<open>Spilled registers\<close>

text \<open>The registers on the stack after some calls; \<open>None\<close> when a register is restored out of order.\<close>

fun spill_stack :: "stub_call list \<Rightarrow> u8 list \<Rightarrow> u8 list option" where
  "spill_stack [] st = Some st"
| "spill_stack (CallSpill reg # cs) st = spill_stack cs (reg # st)"
| "spill_stack (CallRestore reg # cs) st =
     (case st of [] \<Rightarrow> None | saved # st \<Rightarrow> if saved = reg then spill_stack cs st else None)"
| "spill_stack (_ # cs) st = spill_stack cs st"

lemma spill_stack_append:
  "spill_stack (xs @ ys) st = (case spill_stack xs st of None \<Rightarrow> None | Some st \<Rightarrow> spill_stack ys st)"
  by (induction xs st rule: spill_stack.induct) (auto split: list.split)

definition neutral :: "stub_call list \<Rightarrow> bool" where
  "neutral cs \<longleftrightarrow> (\<forall>c \<in> set cs. \<forall>reg. c \<noteq> CallSpill reg \<and> c \<noteq> CallRestore reg)"

lemma spill_stack_neutral: "neutral cs \<Longrightarrow> spill_stack cs st = Some st"
  by (induction cs st rule: spill_stack.induct) (auto simp: neutral_def)

lemma spill_stack_spills: "spill_stack (map CallSpill regs) st = Some (rev regs @ st)"
  by (induction regs arbitrary: st) auto

lemma spill_stack_restores: "spill_stack (map CallRestore regs) (regs @ st) = Some st"
  by (induction regs arbitrary: st) auto

text \<open>Saving registers around calls that do not touch the stack.\<close>

definition saving :: "u8 list \<Rightarrow> stub_call list \<Rightarrow> stub_call list" where
  "saving regs cs = map CallSpill regs @ cs @ map CallRestore (rev regs)"

lemma spill_stack_saving: "spill_stack cs (rev regs @ st) = Some (rev regs @ st) \<Longrightarrow> spill_stack (saving regs cs) st = Some st"
  using spill_stack_restores [of "rev regs" st] by (simp add: saving_def spill_stack_append spill_stack_spills)

lemma perform_depth:
  "perform c b = Inr b' \<Longrightarrow> spill_stack [c] st = Some st' \<Longrightarrow> sb_stackDepth b = base + kRedZoneSpillFrame * length st \<Longrightarrow>
   sb_stackDepth b' = base + kRedZoneSpillFrame * length st'"
  by (cases c) (auto simp: builder_defs Let_def Load_def RipRelative_def split: if_splits list.splits)

lemma perform_all_depth:
  "perform_all cs b = Inr b' \<Longrightarrow> spill_stack cs st = Some st' \<Longrightarrow> sb_stackDepth b = base + kRedZoneSpillFrame * length st \<Longrightarrow>
   sb_stackDepth b' = base + kRedZoneSpillFrame * length st'"
proof (induction cs arbitrary: b st)
  case (Cons c cs)
  from Cons.prems(1) obtain b1 where b1: "perform c b = Inr b1" "perform_all cs b1 = Inr b'" by (auto simp: res_simps)
  have "spill_stack ([c] @ cs) st = Some st'" using Cons.prems(2) by simp
  then obtain st1 where st1: "spill_stack [c] st = Some st1" "spill_stack cs st1 = Some st'"
    unfolding spill_stack_append by (auto split: option.splits)
  show ?case by (rule Cons.IH [OF b1(2) st1(2) perform_depth [OF b1(1) st1(1) Cons.prems(3)]])
qed simp

subsection \<open>What a lowering promises\<close>

locale stub_emitter =
  fixes calls :: "'a \<Rightarrow> stub_call list res"
  assumes calls_ok: "calls operands = Inr cs \<Longrightarrow> list_all call_ok cs"
    and calls_balanced: "calls operands = Inr cs \<Longrightarrow> spill_stack cs st = Some st"
begin

lemma emit_builds: "calls operands = Inr cs \<Longrightarrow> perform_all cs b = Inr b' \<Longrightarrow> builds b b'"
  using calls_ok perform_all_builds by blast

lemma emit_depth: "calls operands = Inr cs \<Longrightarrow> perform_all cs b = Inr b' \<Longrightarrow> sb_stackDepth b' = sb_stackDepth b"
  using perform_all_depth [of cs b b' "[]" "[]" "sb_stackDepth b"] calls_balanced by simp

lemma emit_site: "calls operands = Inr cs \<Longrightarrow> perform_all cs b = Inr b' \<Longrightarrow> sb_siteOffset b' = sb_siteOffset b"
  using perform_all_site by blast

end

text \<open>\<open>EmitOutOfLine\<close> of a lowering: its calls, performed on the builder.\<close>

definition emit_calls :: "('a \<Rightarrow> stub_call list res) \<Rightarrow> 'a \<Rightarrow> stub_builder \<Rightarrow> stub_builder res" where
  "emit_calls calls operands b = bind_res (calls operands) (\<lambda>cs. perform_all cs b)"

definition emit_kept :: "stub_builder \<Rightarrow> stub_builder \<Rightarrow> bool" where
  "emit_kept b b' \<longleftrightarrow> builds b b' \<and> sb_stackDepth b' = sb_stackDepth b \<and> sb_siteOffset b' = sb_siteOffset b"

context stub_emitter
begin

lemma emit_keeps: "emit_calls calls operands b = Inr b' \<Longrightarrow> emit_kept b b'"
  unfolding emit_calls_def emit_kept_def by (auto simp: res_simps emit_builds emit_depth emit_site)

end

end
