(* ===== verification/X64_Operands.thy ===== *)
theory X64_Operands
  imports X64_Calls X64_Recognisers
begin

text \<open>
  The operand decoders of the lowered instructions (\<open>codegen/src/x86/*Operands.cpp\<close>). An instruction is
  the list of its bytes; the loop over the prefixes of each decoder walks that list and returns the
  position of the opcode with what it noted. The register numbers come out below sixteen and the bit
  fields inside their 64 bits.
\<close>

subsection \<open>Register numbers\<close>

definition reg_number :: "u8 \<Rightarrow> bool \<Rightarrow> u8" where
  "reg_number field extended = field OR (if extended then 8 else 0)"

definition is_segment_prefix :: "u8 \<Rightarrow> bool" where
  "is_segment_prefix b \<longleftrightarrow> b = PrefixSegCs \<or> b = PrefixSegSs \<or> b = PrefixSegDs \<or>
     b = PrefixSegEs \<or> b = PrefixSegFs \<or> b = PrefixSegGs"

subsection \<open>EXTRQ and INSERTQ\<close>

record sse4a_operands =
  s4_Insertq :: bool
  s4_RegisterForm :: bool
  s4_Destination :: u8
  s4_Source :: u8
  s4_Length :: u8
  s4_Index :: u8

fun sse4a_prefixes :: "bytes \<Rightarrow> nat \<Rightarrow> bool \<Rightarrow> bool \<Rightarrow> u8 \<Rightarrow> (nat \<times> bool \<times> bool \<times> u8) res" where
  "sse4a_prefixes [] pos operandSize repne rexByte = Inr (pos, operandSize, repne, rexByte)"
| "sse4a_prefixes (b # bs) pos operandSize repne rexByte =
     (if b \<ge> RexMin \<and> b \<le> RexMax then sse4a_prefixes bs (pos + 1) operandSize repne b
      else if b = PrefixLock then Inl (CodegenError ''SSE4a instruction with a LOCK prefix'')
      else if b = PrefixOperandSize then sse4a_prefixes bs (pos + 1) True repne 0
      else if b = PrefixRepne then sse4a_prefixes bs (pos + 1) operandSize True 0
      else if b \<noteq> PrefixRep \<and> b \<noteq> PrefixAddressSize \<and> \<not> is_segment_prefix b
      then Inr (pos, operandSize, repne, rexByte)
      else sse4a_prefixes bs (pos + 1) operandSize repne 0)"

definition DecodeSse4a :: "bytes \<Rightarrow> sse4a_operands res" where
  "DecodeSse4a data =
     bind_res (sse4a_prefixes data 0 False False 0) (\<lambda>(pos, operandSize, repne, rexByte).
       if pos + 3 > length data \<or> data ! pos \<noteq> TwoByteOpcodeEscape \<or>
          (data ! (pos + 1) \<noteq> TwoByteExtrqInsertqImm8Imm8 \<and> data ! (pos + 1) \<noteq> TwoByteExtrqInsertqModRm) \<or>
          (\<not> operandSize \<and> \<not> repne)
       then Inl (CodegenError ''Not an SSE4a instruction'')
       else
         let modrm = data ! (pos + 2)
         in if modrm_mod modrm \<noteq> ModRmModRegister
            then Inl (CodegenError ''SSE4a instruction with a memory operand'')
            else
              let regField = modrm_reg modrm;
                  reg = reg_number regField (rexByte AND 4 \<noteq> 0);
                  rm = reg_number (modrm_rm modrm) (rexByte AND 1 \<noteq> 0);
                  operands = \<lparr>s4_Insertq = repne,
                              s4_RegisterForm = (data ! (pos + 1) = TwoByteExtrqInsertqModRm),
                              s4_Destination = reg, s4_Source = rm, s4_Length = 0, s4_Index = 0\<rparr>
              in if s4_RegisterForm operands then Inr operands
                 else if pos + 5 > length data
                 then Inl (CodegenError ''SSE4a instruction truncated before its immediates'')
                 else if \<not> s4_Insertq operands \<and> regField \<noteq> 0
                 then Inl (CodegenError ''EXTRQ immediate form with a non-zero reg field'')
                 else
                   let rawLength = data ! (pos + 3) AND 0x3F;
                       len = if rawLength = 0 then 64 else rawLength;
                       index = data ! (pos + 4) AND 0x3F
                   in if unat len + unat index > 64
                      then Inl (CodegenError ''SSE4a field exceeds 64 bits'')
                      else Inr (operands\<lparr>s4_Destination := if s4_Insertq operands then reg else rm,
                                         s4_Length := len, s4_Index := index\<rparr>))"

subsection \<open>CLZERO\<close>

record clzero_operands =
  cz_AddressSize32 :: bool

abbreviation (input) kMaxInstructionLength :: nat where "kMaxInstructionLength \<equiv> 15"

fun clzero_prefixes :: "bytes \<Rightarrow> nat \<Rightarrow> bool \<Rightarrow> (nat \<times> bool) res" where
  "clzero_prefixes [] pos address32 = Inr (pos, address32)"
| "clzero_prefixes (b # bs) pos address32 =
     (if b \<ge> RexMin \<and> b \<le> RexMax then clzero_prefixes bs (pos + 1) address32
      else if b = PrefixLock then Inl (CodegenError ''CLZERO with a LOCK prefix'')
      else if b = PrefixSegFs \<or> b = PrefixSegGs
      then Inl (CodegenError ''CLZERO with an FS or GS segment override'')
      else if b = PrefixOperandSize \<or> b = PrefixRepne \<or> b = PrefixRep
      then Inl (CodegenError ''Not a CLZERO instruction'')
      else if b = PrefixAddressSize then clzero_prefixes bs (pos + 1) True
      else if b \<noteq> PrefixSegCs \<and> b \<noteq> PrefixSegSs \<and> b \<noteq> PrefixSegDs \<and> b \<noteq> PrefixSegEs
      then Inr (pos, address32)
      else clzero_prefixes bs (pos + 1) address32)"

definition DecodeClzero :: "bytes \<Rightarrow> clzero_operands res" where
  "DecodeClzero data =
     (if length data > kMaxInstructionLength then Inl (CodegenError ''CLZERO longer than 15 bytes'')
      else bind_res (clzero_prefixes data 0 False) (\<lambda>(pos, address32).
        if pos + 3 \<noteq> length data \<or> data ! pos \<noteq> TwoByteOpcodeEscape \<or> data ! (pos + 1) \<noteq> TwoByteGrp7 \<or>
           data ! (pos + 2) \<noteq> 0xFC
        then Inl (CodegenError ''Not a CLZERO instruction'')
        else Inr \<lparr>cz_AddressSize32 = address32\<rparr>))"

subsection \<open>The SHA instructions\<close>

text \<open>Both decoders have the same loop over the prefixes, with their own messages.\<close>

fun sha_prefixes :: "exn \<Rightarrow> exn \<Rightarrow> bytes \<Rightarrow> nat \<Rightarrow> u8 \<Rightarrow> bytes \<Rightarrow> (nat \<times> u8 \<times> bytes) res" where
  "sha_prefixes lock other [] pos rexByte prefixes = Inr (pos, rexByte, prefixes)"
| "sha_prefixes lock other (b # bs) pos rexByte prefixes =
     (if b \<ge> RexMin \<and> b \<le> RexMax then sha_prefixes lock other bs (pos + 1) b prefixes
      else if b = PrefixLock then Inl lock
      else if b = PrefixOperandSize \<or> b = PrefixRepne \<or> b = PrefixRep then Inl other
      else if b \<noteq> PrefixAddressSize \<and> \<not> is_segment_prefix b then Inr (pos, rexByte, prefixes)
      else sha_prefixes lock other bs (pos + 1) 0 (prefixes @ [b]))"

datatype sha1_operation = Sha1Rnds4 | Sha1Nexte | Sha1Msg1 | Sha1Msg2

record sha1_operands =
  s1_Operation :: sha1_operation
  s1_Destination :: u8
  s1_Source :: u8
  s1_Function :: u8
  s1_Memory :: "memory_operand option"

definition sha1_operation_of :: "u8 \<Rightarrow> u8 \<Rightarrow> sha1_operation res" where
  "sha1_operation_of escape opc =
     (if escape = ThreeByteEscape3A \<and> opc = 0xCC then Inr Sha1Rnds4
      else if escape = ThreeByteEscape38 \<and> opc = 0xC8 then Inr Sha1Nexte
      else if escape = ThreeByteEscape38 \<and> opc = 0xC9 then Inr Sha1Msg1
      else if escape = ThreeByteEscape38 \<and> opc = 0xCA then Inr Sha1Msg2
      else Inl (CodegenError ''Not a SHA-1 instruction''))"

text \<open>The source operand of a SHA instruction: a register, or a memory operand with its size.\<close>

definition sha_source :: "bytes \<Rightarrow> nat \<Rightarrow> u8 \<Rightarrow> bytes \<Rightarrow> (u8 \<times> memory_operand option \<times> nat) res" where
  "sha_source data modRmOffset rexByte prefixes =
     (let modrm = data ! modRmOffset
      in if modrm_mod modrm \<noteq> ModRmModRegister
         then bind_res (DecodeMemoryOperand data modRmOffset rexByte prefixes) (\<lambda>m.
                Inr (0, Some m, modRmOffset + mo_EncodedSize m))
         else Inr (reg_number (modrm_rm modrm) (rexByte AND 1 \<noteq> 0), None, modRmOffset + 1))"

definition DecodeSha1 :: "bytes \<Rightarrow> sha1_operands res" where
  "DecodeSha1 data =
     bind_res (sha_prefixes (CodegenError ''SHA-1 instruction with a LOCK prefix'')
                 (CodegenError ''Not a SHA-1 instruction'') data 0 0 []) (\<lambda>(pos, rexByte, prefixes).
       if pos + 4 > length data \<or> data ! pos \<noteq> TwoByteOpcodeEscape
       then Inl (CodegenError ''Not a SHA-1 instruction'')
       else bind_res (sha1_operation_of (data ! (pos + 1)) (data ! (pos + 2))) (\<lambda>operation.
         bind_res (sha_source data (pos + 3) rexByte prefixes) (\<lambda>(source, memory, immediateOffset).
           if operation = Sha1Rnds4 \<and> immediateOffset \<ge> length data
           then Inl (CodegenError ''SHA1RNDS4 truncated before its immediate'')
           else if (case memory of None \<Rightarrow> False | Some m \<Rightarrow> mo_RipRelative m \<and>
                     immediateOffset + (if operation = Sha1Rnds4 then 1 else 0) \<noteq> length data)
           then Inl (CodegenError ''RIP-relative SHA-1 operand does not end the instruction'')
           else Inr \<lparr>s1_Operation = operation,
                  s1_Destination = reg_number (modrm_reg (data ! (pos + 3))) (rexByte AND 4 \<noteq> 0),
                  s1_Source = source,
                  s1_Function = (if operation = Sha1Rnds4 then data ! immediateOffset AND 3 else 0),
                  s1_Memory = memory\<rparr>)))"

datatype sha256_operation = Sha256Rnds2 | Sha256Msg1 | Sha256Msg2

record sha256_operands =
  s2_Operation :: sha256_operation
  s2_Destination :: u8
  s2_Source :: u8
  s2_Memory :: "memory_operand option"

definition sha256_operation_of :: "u8 \<Rightarrow> sha256_operation res" where
  "sha256_operation_of opc =
     (if opc = 0xCB then Inr Sha256Rnds2
      else if opc = 0xCC then Inr Sha256Msg1
      else if opc = 0xCD then Inr Sha256Msg2
      else Inl (CodegenError ''Not a SHA-256 instruction''))"

definition DecodeSha256 :: "bytes \<Rightarrow> sha256_operands res" where
  "DecodeSha256 data =
     bind_res (sha_prefixes (CodegenError ''SHA-256 instruction with a LOCK prefix'')
                 (CodegenError ''Not a SHA-256 instruction'') data 0 0 []) (\<lambda>(pos, rexByte, prefixes).
       if pos + 4 > length data \<or> data ! pos \<noteq> TwoByteOpcodeEscape \<or> data ! (pos + 1) \<noteq> ThreeByteEscape38
       then Inl (CodegenError ''Not a SHA-256 instruction'')
       else bind_res (sha256_operation_of (data ! (pos + 2))) (\<lambda>operation.
         bind_res (sha_source data (pos + 3) rexByte prefixes) (\<lambda>(source, memory, endOffset).
           if (case memory of None \<Rightarrow> False | Some m \<Rightarrow> mo_RipRelative m \<and> endOffset \<noteq> length data)
           then Inl (CodegenError ''RIP-relative SHA-256 operand does not end the instruction'')
           else Inr \<lparr>s2_Operation = operation,
                  s2_Destination = reg_number (modrm_reg (data ! (pos + 3))) (rexByte AND 4 \<noteq> 0),
                  s2_Source = source, s2_Memory = memory\<rparr>)))"

subsection \<open>RCPPS and RSQRTPS\<close>

abbreviation (input) kVexMap0F :: u8 where "kVexMap0F \<equiv> 0x01"
abbreviation (input) kVexUnusedRegister :: u8 where "kVexUnusedRegister \<equiv> 0x0F"
abbreviation (input) kOpcodeRsqrtps :: u8 where "kOpcodeRsqrtps \<equiv> 0x52"
abbreviation (input) kOpcodeRcpps :: u8 where "kOpcodeRcpps \<equiv> 0x53"

datatype reciprocal_operation = Reciprocal | ReciprocalSquareRoot

record reciprocal_operands =
  rc_Operation :: reciprocal_operation
  rc_Destination :: u8
  rc_Source :: u8
  rc_Vex :: bool

text \<open>The four encodings: the extensions, the VEX payload, the opcode's offset and whether it is VEX.\<close>

definition reciprocal_form :: "bytes \<Rightarrow> (bool \<times> bool \<times> u8 \<times> nat \<times> bool) option" where
  "reciprocal_form data =
     (if data ! 0 = OneByteVex2 \<and> length data = 4
      then Some (data ! 1 AND 0x80 = 0, False, data ! 1, 2, True)
      else if data ! 0 = OneByteVex3 \<and> length data = 5
      then if data ! 1 AND Vex3MapMask \<noteq> kVexMap0F then None
           else Some (data ! 1 AND 0x80 = 0, data ! 1 AND 0x20 = 0, data ! 2, 3, True)
      else if data ! 0 = TwoByteOpcodeEscape \<and> length data = 3 then Some (False, False, 0, 1, False)
      else if data ! 0 \<ge> RexMin \<and> data ! 0 \<le> RexMax \<and> length data = 4 \<and> data ! 1 = TwoByteOpcodeEscape
      then Some (data ! 0 AND 4 \<noteq> 0, data ! 0 AND 1 \<noteq> 0, 0, 2, False)
      else None)"

definition DecodeReciprocal :: "bytes \<Rightarrow> reciprocal_operands option" where
  "DecodeReciprocal data =
     (if length data < 3 then None
      else case reciprocal_form data of
        None \<Rightarrow> None
      | Some (registerExtension, rmExtension, payload, opcodeOffset, vex) \<Rightarrow>
          let vvvv = drop_bit 3 payload AND 0x0F; wide = (payload AND 4 \<noteq> 0); pp = payload AND 3
          in if vex \<and> (vvvv \<noteq> kVexUnusedRegister \<or> wide \<or> pp \<noteq> 0) then None
             else
               let opc = data ! opcodeOffset
               in if opc \<noteq> kOpcodeRsqrtps \<and> opc \<noteq> kOpcodeRcpps then None
                  else
                    let modrm = data ! (opcodeOffset + 1)
                    in if modrm_mod modrm \<noteq> ModRmModRegister then None
                       else Some \<lparr>rc_Operation = if opc = kOpcodeRsqrtps then ReciprocalSquareRoot else Reciprocal,
                              rc_Destination = reg_number (modrm_reg modrm) registerExtension,
                              rc_Source = reg_number (modrm_rm modrm) rmExtension,
                              rc_Vex = vex\<rparr>)"

subsection \<open>Scalar compares\<close>

abbreviation (input) kPpF3 :: u8 where "kPpF3 \<equiv> 0x02"
abbreviation (input) kCompareOpcode :: u8 where "kCompareOpcode \<equiv> 0xC2"
abbreviation (input) kPredicateLeOs :: u8 where "kPredicateLeOs \<equiv> 0x02"

record scalar_compare_operands =
  sc_RipDisplacementOffset :: "nat option"
  sc_RipTarget :: int

fun compare_prefixes :: "bytes \<Rightarrow> nat \<Rightarrow> bool \<Rightarrow> bool \<Rightarrow> nat \<times> bool \<times> bool" where
  "compare_prefixes [] pos singlePrecision doublePrecision = (pos, singlePrecision, doublePrecision)"
| "compare_prefixes (b # bs) pos singlePrecision doublePrecision =
     (if b = PrefixRep then compare_prefixes bs (pos + 1) True doublePrecision
      else if b = PrefixRepne then compare_prefixes bs (pos + 1) singlePrecision True
      else if \<not> is_segment_prefix b then (pos, singlePrecision, doublePrecision)
      else compare_prefixes bs (pos + 1) singlePrecision doublePrecision)"

definition compare_modrm :: "bytes \<Rightarrow> nat option" where
  "compare_modrm data =
     (let pos = length (takeWhile is_segment_prefix data)
      in if pos < length data \<and> data ! pos = OneByteVex2
         then if pos + 4 > length data \<or> data ! (pos + 1) AND 3 < kPpF3 \<or> data ! (pos + 2) \<noteq> kCompareOpcode
              then None else Some (pos + 3)
         else if pos < length data \<and> data ! pos = OneByteVex3
         then if pos + 5 > length data \<or> data ! (pos + 1) AND Vex3MapMask \<noteq> kVexMap0F \<or>
                 data ! (pos + 2) AND 3 < kPpF3 \<or> data ! (pos + 3) \<noteq> kCompareOpcode
              then None else Some (pos + 4)
         else
           let (pos, singlePrecision, doublePrecision) = compare_prefixes (drop pos data) pos False False
           in if singlePrecision = doublePrecision then None
              else
                let pos = if pos < length data \<and> data ! pos \<ge> RexMin \<and> data ! pos \<le> RexMax then pos + 1 else pos
                in if pos + 3 > length data \<or> data ! pos \<noteq> TwoByteOpcodeEscape \<or> data ! (pos + 1) \<noteq> kCompareOpcode
                   then None else Some (pos + 2))"

text \<open>
  The operand bytes behind a ModRM byte: the SIB byte, whether the operand is RIP-relative or an
  absolute displacement, the size of the displacement and where it starts.
\<close>

definition operand_sib :: "bytes \<Rightarrow> nat \<Rightarrow> u8 \<Rightarrow> u8 \<Rightarrow> (u8 option \<times> nat) option" where
  "operand_sib data modRmOffset md rm =
     (if md \<noteq> ModRmModRegister \<and> rm = ModRmRmSibPresent
      then if modRmOffset + 1 \<ge> length data then None
           else Some (Some (data ! (modRmOffset + 1)), modRmOffset + 2)
      else Some (None, modRmOffset + 1))"

definition operand_ripRelative :: "u8 \<Rightarrow> u8 \<Rightarrow> bool" where
  "operand_ripRelative md rm \<longleftrightarrow> md = ModRmModIndirect \<and> rm = ModRmRmRipRelative"

definition operand_absolute :: "u8 \<Rightarrow> u8 option \<Rightarrow> bool" where
  "operand_absolute md sib \<longleftrightarrow> md = ModRmModIndirect \<and>
     (case sib of None \<Rightarrow> False | Some s \<Rightarrow> s AND SibBaseMask = SibBaseDisp32)"

definition operand_displacementSize :: "u8 \<Rightarrow> u8 \<Rightarrow> u8 option \<Rightarrow> nat" where
  "operand_displacementSize md rm sib =
     (if md = ModRmModDisp8 then Disp8Size
      else if md = ModRmModDisp32 \<or> operand_ripRelative md rm \<or> operand_absolute md sib then Disp32Size else 0)"

definition DecodeScalarCompare :: "bytes \<Rightarrow> scalar_compare_operands option" where
  "DecodeScalarCompare data =
     (case compare_modrm data of
        None \<Rightarrow> None
      | Some modRmOffset \<Rightarrow>
          let modrm = data ! modRmOffset; md = modrm_mod modrm; rm = modrm_rm modrm
          in case operand_sib data modRmOffset md rm of
               None \<Rightarrow> None
             | Some (sib, cursor) \<Rightarrow>
                 if cursor + operand_displacementSize md rm sib + 1 \<noteq> length data \<or>
                    data ! (length data - 1) \<le> kPredicateLeOs
                 then None
                 else if operand_ripRelative md rm
                 then Some \<lparr>sc_RipDisplacementOffset = Some cursor,
                       sc_RipTarget = int (length data) + signed32 (bytes_value data cursor Disp32Size)\<rparr>
                 else Some \<lparr>sc_RipDisplacementOffset = None, sc_RipTarget = 0\<rparr>)"

subsection \<open>256-bit stores\<close>

abbreviation (input) kVexLength256 :: u8 where "kVexLength256 \<equiv> 0x04"
abbreviation (input) kPpNone :: u8 where "kPpNone \<equiv> 0x00"
abbreviation (input) kPp66 :: u8 where "kPp66 \<equiv> 0x01"
abbreviation (input) kVextractf128 :: u8 where "kVextractf128 \<equiv> 0x19"
abbreviation (input) kVextractf128Payload :: u8 where "kVextractf128Payload \<equiv> 0x7D"
abbreviation (input) kUpperHalf :: u8 where "kUpperHalf \<equiv> 0x01"
abbreviation (input) kHalfBytes :: int where "kHalfBytes \<equiv> 16"

record wide_store_half =
  wh_Bytes :: bytes
  wh_RipDisplacementOffset :: "nat option"
  wh_RipTarget :: int

record wide_store_operands =
  ws_Low :: wide_store_half
  ws_High :: wide_store_half

definition unalignedStore :: "u8 \<Rightarrow> u8 \<Rightarrow> bool" where
  "unalignedStore pp opc \<longleftrightarrow> ((pp = kPpNone \<or> pp = kPp66) \<and> opc = 0x11) \<or> (pp = kPpF3 \<and> opc = 0x7F)"

definition legacyPrefixAllowed :: "u8 \<Rightarrow> bool" where
  "legacyPrefixAllowed prefix \<longleftrightarrow> is_segment_prefix prefix \<or> prefix = PrefixAddressSize"

definition appendU32 :: "bytes \<Rightarrow> u32 \<Rightarrow> bytes" where
  "appendU32 out v = out @ value_bytes Disp32Size v"

text \<open>The VEX prefix: the inverted extension bits, the payload byte and the position of the opcode.\<close>

definition wide_store_vex :: "bytes \<Rightarrow> nat \<Rightarrow> (u8 \<times> u8 \<times> nat) option" where
  "wide_store_vex data vex =
     (if vex + 2 > length data then None
      else if data ! vex = OneByteVex2
      then Some ((data ! (vex + 1) AND 0x80) OR 0x60, data ! (vex + 1), vex + Vex2PrefixLength)
      else if data ! vex = OneByteVex3
      then if vex + Vex3PrefixLength > length data \<or> data ! (vex + 1) AND Vex3MapMask \<noteq> kVexMap0F then None
           else Some (data ! (vex + 1) AND 0xE0, data ! (vex + 2), vex + Vex3PrefixLength)
      else None)"

definition wide_displacement :: "bytes \<Rightarrow> nat \<Rightarrow> nat \<Rightarrow> int" where
  "wide_displacement data cursor n =
     (if n = Disp8Size then sint (data ! cursor)
      else if n = Disp32Size then signed32 (bytes_value data cursor Disp32Size) else 0)"

definition high_mod :: "u8 \<Rightarrow> bool \<Rightarrow> int \<Rightarrow> u8" where
  "high_mod md fixedSize highDisplacement =
     (if \<not> fixedSize \<and> (md = ModRmModIndirect \<or> (md = ModRmModDisp8 \<and> highDisplacement > 127))
      then if highDisplacement > 127 then ModRmModDisp32 else ModRmModDisp8
      else md)"

definition high_displacementSize :: "u8 \<Rightarrow> bool \<Rightarrow> int \<Rightarrow> nat \<Rightarrow> nat" where
  "high_displacementSize md fixedSize highDisplacement n =
     (if \<not> fixedSize \<and> (md = ModRmModIndirect \<or> (md = ModRmModDisp8 \<and> highDisplacement > 127))
      then if high_mod md fixedSize highDisplacement = ModRmModDisp8 then Disp8Size else Disp32Size
      else n)"

text \<open>The \<open>VEXTRACTF128\<close> that stores the upper half sixteen bytes further.\<close>

definition high_bytes :: "bytes \<Rightarrow> nat \<Rightarrow> u8 \<Rightarrow> u8 \<Rightarrow> u8 \<Rightarrow> u8 option \<Rightarrow> int \<Rightarrow> nat \<Rightarrow> bytes \<times> nat" where
  "high_bytes data vex inverted modrm md sib highDisplacement n =
     (let rm = modrm_rm modrm; ripRelative = operand_ripRelative md rm;
          fixedSize = (ripRelative \<or> operand_absolute md sib);
          high = take vex data @ [OneByteVex3, inverted OR Vex3Map0F3A, kVextractf128Payload, kVextractf128] @
                 [push_bit ModRmModShift (high_mod md fixedSize highDisplacement) OR
                  (modrm AND push_bit ModRmRegShift ModRmRegMask) OR rm] @
                 (case sib of None \<Rightarrow> [] | Some s \<Rightarrow> [s]);
          size = high_displacementSize md fixedSize highDisplacement n
      in ((if size = Disp8Size then high @ [word_of_int highDisplacement]
           else if ripRelative then appendU32 high 0
           else if size = Disp32Size then appendU32 high (word_of_int highDisplacement)
           else high) @ [kUpperHalf],
          length high))"

definition wide_store_room :: "bool \<Rightarrow> bool \<Rightarrow> int \<Rightarrow> bool" where
  "wide_store_room ripRelative address32Absolute displacement \<longleftrightarrow>
     ripRelative \<or>
     (if address32Absolute then uint (word_of_int displacement :: u32) + kHalfBytes \<le> 4294967295
      else displacement + kHalfBytes \<le> 2147483647)"

definition DecodeVexWideStore :: "bytes \<Rightarrow> wide_store_operands option res" where
  "DecodeVexWideStore data =
     (let vex = length (takeWhile legacyPrefixAllowed data);
          addressSize = (PrefixAddressSize \<in> set (take vex data))
      in case wide_store_vex data vex of
           None \<Rightarrow> Inr None
         | Some (inverted, payload, pos) \<Rightarrow>
             if payload AND kVexLength256 = 0 \<or> drop_bit 3 payload AND 0x0F \<noteq> kVexUnusedRegister then Inr None
             else if pos + 2 > length data \<or> \<not> unalignedStore (payload AND 3) (data ! pos) then Inr None
             else
               let modRmOffset = pos + 1; modrm = data ! modRmOffset; md = modrm_mod modrm; rm = modrm_rm modrm
               in if md = ModRmModRegister then Inr None
                  else case operand_sib data modRmOffset md rm of
                    None \<Rightarrow> Inr None
                  | Some (sib, cursor) \<Rightarrow>
                      let ripRelative = operand_ripRelative md rm;
                          absoluteNoIndex = (operand_absolute md sib \<and>
                            (case sib of None \<Rightarrow> False | Some s \<Rightarrow> s AND SibIndexMask = SibIndexNone) \<and>
                            inverted AND 0x40 \<noteq> 0);
                          n = operand_displacementSize md rm sib
                      in if cursor + n \<noteq> length data then Inr None
                         else
                           let displacement = wide_displacement data cursor n;
                               cleared = (if data ! vex = OneByteVex2 then vex + 1 else vex + 2);
                               (high, highOffset) = high_bytes data vex inverted modrm md sib (displacement + kHalfBytes) n
                           in if \<not> wide_store_room ripRelative (addressSize \<and> absoluteNoIndex) displacement
                              then Inl (CodegenError ''256-bit store displacement leaves no room for its upper half'')
                              else Inr (Some
                                \<lparr>ws_Low = \<lparr>wh_Bytes = data[cleared := data ! cleared AND NOT kVexLength256],
                                   wh_RipDisplacementOffset = (if ripRelative then Some cursor else None),
                                   wh_RipTarget = (if ripRelative then int (length data) + displacement else 0)\<rparr>,
                                 ws_High = \<lparr>wh_Bytes = high,
                                   wh_RipDisplacementOffset = (if ripRelative then Some highOffset else None),
                                   wh_RipTarget = (if ripRelative then int (length data) + displacement + kHalfBytes else 0)\<rparr>\<rparr>))"

end
