(* ===== verification/X64_Sse_Lowering.thy ===== *)
theory X64_Sse_Lowering
  imports X64_Operands
begin

text \<open>
  The lowerings that compute in vector registers (\<open>codegen/src/x86/Sse4aLowering.cpp\<close>,
  \<open>ClzeroLowering.cpp\<close>, \<open>ReciprocalLowering.cpp\<close>, \<open>Sha256Lowering.cpp\<close>, \<open>Sha1Lowering.cpp\<close>): for each
  operation, the calls of the stub builder in the order the code makes them. A loop over scratch
  registers is the list of the first registers that no operand uses.
\<close>

subsection \<open>Scratch registers\<close>

definition scratch_regs :: "nat \<Rightarrow> u8 list \<Rightarrow> u8 list" where
  "scratch_regs n used = take n (filter (\<lambda>reg. reg \<notin> set used) (map of_nat [0..<n + length used]))"

abbreviation (input) packed :: "u8 \<Rightarrow> u8 \<Rightarrow> u8 \<Rightarrow> stub_call" where
  "packed opc dst src \<equiv> CallSse kPrefixPacked [0x0F, opc] dst src"

abbreviation (input) packed_constant :: "u8 \<Rightarrow> u8 \<Rightarrow> bytes \<Rightarrow> stub_call" where
  "packed_constant opc reg constant \<equiv> CallRipOperand [0x0F, opc] reg constant"

subsection \<open>EXTRQ and INSERTQ\<close>

abbreviation (input) kShiftRight :: u8 where "kShiftRight \<equiv> 2"
abbreviation (input) kShiftRightBytes :: u8 where "kShiftRightBytes \<equiv> 3"
abbreviation (input) kShiftLeft :: u8 where "kShiftLeft \<equiv> 6"
abbreviation (input) kFieldBits :: u8 where "kFieldBits \<equiv> 64"

definition kNop :: "nat \<Rightarrow> bytes" where
  "kNop n =
     (if n = 1 then [0x90]
      else if n = 2 then [0x66, 0x90]
      else if n = 3 then [0x0F, 0x1F, 0x00]
      else if n = 4 then [0x0F, 0x1F, 0x40, 0x00]
      else if n = 5 then [0x0F, 0x1F, 0x44, 0x00, 0x00]
      else if n = 6 then [0x66, 0x0F, 0x1F, 0x44, 0x00, 0x00]
      else [0x0F, 0x1F, 0x80, 0x00, 0x00, 0x00, 0x00])"

fun nopFill :: "bytes \<Rightarrow> nat \<Rightarrow> bytes" where
  "nopFill out 0 = out"
| "nopFill out (Suc n) = nopFill (out @ kNop (min (Suc n) 7)) (Suc n - min (Suc n) 7)"

definition zeroUpper :: "u8 \<Rightarrow> stub_call" where
  "zeroUpper dst = CallSse kPrefixScalar [0x0F, 0x7E] dst dst"

definition fieldMask :: "u8 \<Rightarrow> u64" where
  "fieldMask n = (if n \<ge> kFieldBits then NOT 0 else push_bit (unat n) 1 - 1)"

definition low_constant :: "u8 \<Rightarrow> bytes" where
  "low_constant v = v # replicate 15 0"

definition insertq_register_calls :: "sse4a_operands \<Rightarrow> stub_call list" where
  "insertq_register_calls operands =
     (let dst = s4_Destination operands; src = s4_Source operands;
          scratch = scratch_regs 3 [dst, src];
          control = scratch ! 0; index = scratch ! 1; hole = scratch ! 2;
          fieldBits = low_constant (kFieldBits - 1); one = low_constant 1
      in [CallSpill control, CallSpill index, CallSpill hole,
          packed 0x6F control src,
          CallShiftImm kShiftRightBytes control 8,
          packed 0x6F index control,
          CallShiftImm kShiftRight index 8,
          packed_constant 0xDB index fieldBits,
          packed_constant 0xDB control fieldBits,
          packed_constant 0xEF control fieldBits,
          packed_constant 0xD4 control one,
          packed_constant 0xDB control fieldBits,
          packed 0x76 hole hole,
          CallSse kPrefixScalar [0x0F, 0x7E] hole hole,
          packed 0xD3 hole control,
          packed 0xF3 hole index,
          packed 0x6F control src,
          packed 0xF3 control index,
          packed 0xEF control dst,
          packed 0xDB control hole,
          packed 0xEF dst control,
          CallSse kPrefixScalar [0x0F, 0x7E] dst dst,
          CallRestore hole, CallRestore index, CallRestore control])"

definition extrq_register_calls :: "sse4a_operands \<Rightarrow> stub_call list" where
  "extrq_register_calls operands =
     (let dst = s4_Destination operands; src = s4_Source operands;
          scratch = scratch_regs 2 [dst, src];
          fieldBits = low_constant (kFieldBits - 1); one = low_constant 1
      in [CallSpill (scratch ! 0), CallSpill (scratch ! 1),
          packed 0x6F (scratch ! 0) src,
          CallShiftImm kShiftRight (scratch ! 0) 8,
          packed_constant 0xDB (scratch ! 0) fieldBits,
          packed 0x6F (scratch ! 1) src,
          packed_constant 0xDB (scratch ! 1) fieldBits,
          packed_constant 0xEF (scratch ! 1) fieldBits,
          packed_constant 0xD4 (scratch ! 1) one,
          packed_constant 0xDB (scratch ! 1) fieldBits,
          packed 0xD3 dst (scratch ! 0),
          packed 0xF3 dst (scratch ! 1),
          packed 0xD3 dst (scratch ! 1),
          zeroUpper dst,
          CallRestore (scratch ! 1), CallRestore (scratch ! 0)])"

definition extrq_mask :: "u8 \<Rightarrow> u8 \<Rightarrow> bytes" where
  "extrq_mask n index =
     map (\<lambda>byte. if byte < unat n div 8 then of_nat (unat index div 8 + byte) else kPshufbZero) [0..<16]"

definition insertq_mask :: "bool \<Rightarrow> u8 \<Rightarrow> u8 \<Rightarrow> bytes" where
  "insertq_mask otherSource n index =
     map (\<lambda>byte. if unat index div 8 \<le> byte \<and> byte < unat index div 8 + unat n div 8
                 then of_nat ((if otherSource then 8 else 0) + (byte - unat index div 8))
                 else if byte < 8 then of_nat byte else kPshufbZero) [0..<16]"

definition hole_constant :: "u8 \<Rightarrow> u8 \<Rightarrow> bytes" where
  "hole_constant n index =
     map (\<lambda>byte. ucast (drop_bit (byte * 8) (push_bit (unat index) (fieldMask n)))) [0..<8] @ replicate 8 0"

definition extrq_calls :: "sse4a_operands \<Rightarrow> stub_call list" where
  "extrq_calls operands =
     (let n = s4_Length operands; index = s4_Index operands; dst = s4_Destination operands
      in if unat n mod 8 = 0 \<and> unat index mod 8 = 0
         then [CallRipOperand [0x0F, 0x38, 0x00] dst (extrq_mask n index)]
         else (if index \<noteq> 0 then [CallShiftImm kShiftRight dst index] else []) @
              (if n \<noteq> kFieldBits
               then [CallShiftImm kShiftLeft dst (kFieldBits - n), CallShiftImm kShiftRight dst (kFieldBits - n)]
               else []) @
              [zeroUpper dst])"

definition insertq_calls :: "sse4a_operands \<Rightarrow> stub_call list" where
  "insertq_calls operands =
     (let n = s4_Length operands; index = s4_Index operands; dst = s4_Destination operands; src = s4_Source operands
      in if unat n mod 8 = 0 \<and> unat index mod 8 = 0
         then (if src \<noteq> dst then [packed 0x6C dst src] else []) @
              [CallRipOperand [0x0F, 0x38, 0x00] dst (insertq_mask (src \<noteq> dst) n index)]
         else
           let scratch = scratch_regs 1 [dst, src] ! 0
           in [CallSpill scratch, packed 0x6F scratch src] @
              (if index \<noteq> 0 then [CallShiftImm kShiftLeft scratch index] else []) @
              [packed 0xEF scratch dst,
               packed_constant 0xDB scratch (hole_constant n index),
               packed 0xEF dst scratch,
               zeroUpper dst,
               CallRestore scratch])"

definition sse4a_calls :: "sse4a_operands \<Rightarrow> stub_call list res" where
  "sse4a_calls operands = Inr
     (if s4_RegisterForm operands
      then if s4_Insertq operands then insertq_register_calls operands else extrq_register_calls operands
      else if s4_Insertq operands then insertq_calls operands else extrq_calls operands)"

text \<open>\<open>LowerInPlace\<close>: a move that fits the instruction, filled up with no-operations.\<close>

definition sse4a_move :: "sse4a_operands \<Rightarrow> (u8 \<times> u8) option" where
  "sse4a_move operands =
     (let n = s4_Length operands; index = s4_Index operands; dst = s4_Destination operands; src = s4_Source operands
      in if s4_Insertq operands
         then if dst = src \<and> index = 0 then Some (dst, dst)
              else if n = kFieldBits \<and> index = 0 then Some (dst, src)
              else None
         else if index = 0 \<and> n = kFieldBits then Some (dst, dst)
         else None)"

definition LowerInPlace :: "sse4a_operands \<Rightarrow> nat \<Rightarrow> bytes option" where
  "LowerInPlace operands originalLength =
     (if s4_RegisterForm operands then None
      else case sse4a_move operands of
             None \<Rightarrow> None
           | Some (dst, src) \<Rightarrow>
               let sequence = EmitSse [] kPrefixScalar [0x0F, 0x7E] dst src
               in if length sequence > originalLength then None
                  else Some (nopFill sequence (originalLength - length sequence)))"

subsection \<open>CLZERO\<close>

abbreviation (input) kLineMask :: u64 where "kLineMask \<equiv> NOT 63"
abbreviation (input) kPushRcx :: bytes where "kPushRcx \<equiv> [0x51]"
abbreviation (input) kPopRcx :: bytes where "kPopRcx \<equiv> [0x59]"
abbreviation (input) kMovqXmm0Rax :: bytes where "kMovqXmm0Rax \<equiv> [0x66, 0x48, 0x0F, 0x6E, 0xC0]"
abbreviation (input) kMovdXmm0Eax :: bytes where "kMovdXmm0Eax \<equiv> [0x66, 0x0F, 0x6E, 0xC0]"
abbreviation (input) kMovqRcxXmm0 :: bytes where "kMovqRcxXmm0 \<equiv> [0x66, 0x48, 0x0F, 0x7E, 0xC1]"
abbreviation (input) kMovntdqRcx :: bytes where "kMovntdqRcx \<equiv> [0x66, 0x0F, 0xE7, 0x01]"
abbreviation (input) kMovntdqRcx16 :: bytes where "kMovntdqRcx16 \<equiv> [0x66, 0x0F, 0xE7, 0x41, 0x10]"
abbreviation (input) kMovntdqRcx32 :: bytes where "kMovntdqRcx32 \<equiv> [0x66, 0x0F, 0xE7, 0x41, 0x20]"
abbreviation (input) kMovntdqRcx48 :: bytes where "kMovntdqRcx48 \<equiv> [0x66, 0x0F, 0xE7, 0x41, 0x30]"

definition clzero_calls :: "clzero_operands \<Rightarrow> stub_call list res" where
  "clzero_calls operands =
     (let lineMask = map (\<lambda>byte. ucast (drop_bit (byte * 8) kLineMask)) [0..<8] @ replicate 8 0
      in Inr [CallSpill 0,
          CallRaw kPushRcx,
          CallRaw (if cz_AddressSize32 operands then kMovdXmm0Eax else kMovqXmm0Rax),
          packed_constant 0xDB 0 lineMask,
          CallRaw kMovqRcxXmm0,
          packed 0xEF 0 0,
          CallRaw kMovntdqRcx,
          CallRaw kMovntdqRcx16,
          CallRaw kMovntdqRcx32,
          CallRaw kMovntdqRcx48,
          CallRaw kPopRcx,
          CallRestore 0])"

subsection \<open>RCPPS and RSQRTPS\<close>

abbreviation (input) kSqrtps :: u8 where "kSqrtps \<equiv> 0x51"
abbreviation (input) kDivps :: u8 where "kDivps \<equiv> 0x5E"
abbreviation (input) kMovaps :: u8 where "kMovaps \<equiv> 0x28"

text \<open>Four times the bytes of \<open>1.0f\<close>.\<close>

definition ones_constant :: bytes where
  "ones_constant = concat (replicate 4 [0x00, 0x00, 0x80, 0x3F])"

definition vexMovaps :: "u8 \<Rightarrow> u8 \<Rightarrow> stub_call" where
  "vexMovaps dst src = CallRaw
     [0xC4,
      (if dst AND 8 \<noteq> 0 then 0x00 else 0x80) OR 0x40 OR (if src AND 8 \<noteq> 0 then 0x00 else 0x20) OR 0x01,
      0x78, kMovaps, 0xC0 OR push_bit 3 (dst AND 7) OR (src AND 7)]"

definition reciprocal_calls :: "reciprocal_operands \<Rightarrow> stub_call list res" where
  "reciprocal_calls operands =
     (let dst = rc_Destination operands; src = rc_Source operands;
          scratch = scratch_regs 1 [dst, src] ! 0
      in Inr ([CallSpill scratch] @
         (case rc_Operation operands of
            ReciprocalSquareRoot \<Rightarrow>
              [CallSsePlain [0x0F, kSqrtps] scratch src,
               packed_constant kMovaps dst ones_constant,
               CallSsePlain [0x0F, kDivps] dst scratch] @
              (if rc_Vex operands then [vexMovaps dst dst] else [])
          | Reciprocal \<Rightarrow>
              [packed_constant kMovaps scratch ones_constant,
               CallSsePlain [0x0F, kDivps] scratch src,
               if rc_Vex operands then vexMovaps dst scratch else CallSsePlain [0x0F, kMovaps] dst scratch]) @
         [CallRestore scratch]))"

subsection \<open>SHA-256\<close>

abbreviation (input) kShiftRightDwords :: u8 where "kShiftRightDwords \<equiv> 2"
abbreviation (input) kShiftLeftDwords :: u8 where "kShiftLeftDwords \<equiv> 6"
abbreviation (input) kShiftLeftBytes :: u8 where "kShiftLeftBytes \<equiv> 7"
abbreviation (input) kWordBits :: u8 where "kWordBits \<equiv> 32"
abbreviation (input) kRoundKeys :: u8 where "kRoundKeys \<equiv> 0"
abbreviation (input) kPunpckldq :: u8 where "kPunpckldq \<equiv> 0x62"
abbreviation (input) kPunpcklqdq :: u8 where "kPunpcklqdq \<equiv> 0x6C"
abbreviation (input) kMovdqa :: u8 where "kMovdqa \<equiv> 0x6F"
abbreviation (input) kPshufd :: u8 where "kPshufd \<equiv> 0x70"
abbreviation (input) kShufpd :: u8 where "kShufpd \<equiv> 0xC6"
abbreviation (input) kPand :: u8 where "kPand \<equiv> 0xDB"
abbreviation (input) kPor :: u8 where "kPor \<equiv> 0xEB"
abbreviation (input) kPxor :: u8 where "kPxor \<equiv> 0xEF"
abbreviation (input) kPaddd :: u8 where "kPaddd \<equiv> 0xFE"

abbreviation (input) shuffle_lane :: "u8 \<Rightarrow> u8 \<Rightarrow> u8 \<Rightarrow> stub_call" where
  "shuffle_lane dst src imm \<equiv> CallSseImm kPrefixPacked [0x0F, kPshufd] dst src imm"

text \<open>The terms of a sigma function: each rotation is a shift right and a shift left, the shift comes last.\<close>

definition sigma_terms :: "u8 list \<Rightarrow> u8 \<Rightarrow> (u8 \<times> u8) list" where
  "sigma_terms rotations shift =
     concat (map (\<lambda>rotation. [(kShiftRightDwords, rotation), (kShiftLeftDwords, kWordBits - rotation)]) rotations) @
     (if shift \<noteq> 0 then [(kShiftRightDwords, shift)] else [])"

definition sigma_term :: "u8 \<Rightarrow> u8 \<Rightarrow> u8 \<Rightarrow> bool \<Rightarrow> u8 \<times> u8 \<Rightarrow> stub_call list" where
  "sigma_term out v tmp first term =
     (let target = if first then out else tmp
      in [packed kMovdqa target v, CallShiftDwordImm (fst term) target (snd term)] @
         (if first then [] else [packed kPxor out tmp]))"

definition sigma_calls :: "u8 \<Rightarrow> u8 \<Rightarrow> u8 \<Rightarrow> u8 list \<Rightarrow> u8 \<Rightarrow> stub_call list" where
  "sigma_calls out v tmp rotations shift =
     (case sigma_terms rotations shift of
        [] \<Rightarrow> []
      | term # terms \<Rightarrow> sigma_term out v tmp True term @ concat (map (sigma_term out v tmp False) terms))"

definition choose_calls :: "u8 \<Rightarrow> u8 \<Rightarrow> u8 \<Rightarrow> u8 \<Rightarrow> stub_call list" where
  "choose_calls out e f g =
     [packed kMovdqa out f, packed kPxor out g, packed kPand out e, packed kPxor out g]"

definition majority_calls :: "u8 \<Rightarrow> u8 \<Rightarrow> u8 \<Rightarrow> u8 \<Rightarrow> stub_call list" where
  "majority_calls x y z tmp =
     [packed kMovdqa tmp y, packed kPand tmp z, packed kPxor y z, packed kPand y x, packed kPxor y tmp]"

definition bigSigma0_calls :: "u8 \<Rightarrow> u8 \<Rightarrow> u8 \<Rightarrow> stub_call list" where
  "bigSigma0_calls out v tmp = sigma_calls out v tmp [2, 13, 22] 0"

definition bigSigma1_calls :: "u8 \<Rightarrow> u8 \<Rightarrow> u8 \<Rightarrow> stub_call list" where
  "bigSigma1_calls out v tmp = sigma_calls out v tmp [6, 11, 25] 0"

definition smallSigma0_calls :: "u8 \<Rightarrow> u8 \<Rightarrow> u8 \<Rightarrow> stub_call list" where
  "smallSigma0_calls out v tmp = sigma_calls out v tmp [7, 18] 3"

definition smallSigma1_calls :: "u8 \<Rightarrow> u8 \<Rightarrow> u8 \<Rightarrow> stub_call list" where
  "smallSigma1_calls out v tmp = sigma_calls out v tmp [17, 19] 10"

definition sha256_scratch :: "nat \<Rightarrow> u8 \<Rightarrow> u8 \<Rightarrow> u8 list" where
  "sha256_scratch n dst src = scratch_regs n [dst, src, kRoundKeys]"

text \<open>The two rounds, with the scratch registers as arguments in the order the code takes them.\<close>

definition sha256_rounds_body ::
    "u8 \<Rightarrow> u8 \<Rightarrow> u8 \<Rightarrow> u8 \<Rightarrow> u8 \<Rightarrow> u8 \<Rightarrow> u8 \<Rightarrow> u8 \<Rightarrow> u8 \<Rightarrow> u8 \<Rightarrow> stub_call list" where
  "sha256_rounds_body state words a t2 e g t1 x tmp e1 =
     [shuffle_lane a words 3] @
     bigSigma0_calls t2 a tmp @
     [shuffle_lane e words 2, shuffle_lane g state 3] @
     majority_calls a e g tmp @
     [packed kPaddd t2 e, shuffle_lane e words 1, shuffle_lane g state 1] @
     bigSigma1_calls t1 e tmp @
     choose_calls x e words g @
     [packed kPaddd t1 x, packed kPaddd t1 state, packed kPaddd t1 kRoundKeys,
      shuffle_lane e1 state 2, packed kPaddd e1 t1, packed kPaddd t2 t1] @
     bigSigma1_calls t1 e1 tmp @
     choose_calls x e1 e words @
     [packed kPaddd t1 x, packed kPaddd t1 g, shuffle_lane x kRoundKeys 1, packed kPaddd t1 x,
      shuffle_lane g state 3, packed kPaddd g t1] @
     bigSigma0_calls x t2 tmp @
     [shuffle_lane e words 2] @
     majority_calls t2 a e tmp @
     [packed kPaddd x a, packed kPaddd x t1, packed kPunpckldq e1 g, packed kPunpckldq t2 x,
      packed kPunpcklqdq e1 t2, packed kMovdqa state e1]"

definition sha256_rounds_calls :: "u8 \<Rightarrow> u8 \<Rightarrow> stub_call list" where
  "sha256_rounds_calls dst src =
     (let s = sha256_scratch 8 dst src
      in saving s (sha256_rounds_body dst src (s ! 0) (s ! 1) (s ! 2) (s ! 3) (s ! 4) (s ! 5) (s ! 6) (s ! 7)))"

definition sha256_message1_calls :: "u8 \<Rightarrow> u8 \<Rightarrow> stub_call list" where
  "sha256_message1_calls dst src =
     (let s = sha256_scratch 3 dst src; next = s ! 0; sigma = s ! 1; tmp = s ! 2
      in saving s
           ([packed kMovdqa next dst, CallShiftImm kShiftRightBytes next 4,
             packed kMovdqa sigma src, CallShiftImm kShiftLeftBytes sigma 12,
             packed kPor next sigma] @
            smallSigma0_calls sigma next tmp @
            [packed kPaddd dst sigma]))"

definition sha256_message2_calls :: "u8 \<Rightarrow> u8 \<Rightarrow> stub_call list" where
  "sha256_message2_calls dst src =
     (let s = sha256_scratch 3 dst src; words = s ! 0; sigma = s ! 1; tmp = s ! 2
      in saving s
           ([packed kMovdqa words src, CallShiftImm kShiftRightBytes words 8] @
            smallSigma1_calls sigma words tmp @
            [packed kPaddd dst sigma, packed kMovdqa words dst, CallShiftImm kShiftLeftBytes words 8] @
            smallSigma1_calls sigma words tmp @
            [packed kPaddd dst sigma]))"

definition sha256_register_calls :: "sha256_operation \<Rightarrow> u8 \<Rightarrow> u8 \<Rightarrow> stub_call list" where
  "sha256_register_calls operation dst src =
     (case operation of
        Sha256Rnds2 \<Rightarrow> sha256_rounds_calls dst src
      | Sha256Msg1 \<Rightarrow> sha256_message1_calls dst src
      | Sha256Msg2 \<Rightarrow> sha256_message2_calls dst src)"

definition sha256_calls :: "sha256_operands \<Rightarrow> stub_call list res" where
  "sha256_calls operands = Inr
     (case s2_Memory operands of
        None \<Rightarrow> sha256_register_calls (s2_Operation operands) (s2_Destination operands) (s2_Source operands)
      | Some m \<Rightarrow>
          let source = sha256_scratch 1 (s2_Destination operands) (s2_Destination operands) ! 0
          in [CallSpill source, CallLoad source m] @
             sha256_register_calls (s2_Operation operands) (s2_Destination operands) source @
             [CallRestore source])"

subsection \<open>SHA-1\<close>

definition kRoundConstants :: "u32 list" where
  "kRoundConstants = [0x5A827999, 0x6ED9EBA1, 0x8F1BBCDC, 0xCA62C1D6]"

definition rotate_calls :: "u8 \<Rightarrow> u8 \<Rightarrow> u8 \<Rightarrow> stub_call list" where
  "rotate_calls reg tmp count =
     [packed kMovdqa tmp reg, CallShiftDwordImm kShiftLeftDwords tmp count,
      CallShiftDwordImm kShiftRightDwords reg (kWordBits - count), packed kPor reg tmp]"

definition function_calls :: "u8 \<Rightarrow> u8 \<Rightarrow> u8 \<Rightarrow> u8 \<Rightarrow> u8 \<Rightarrow> u8 \<Rightarrow> stub_call list" where
  "function_calls f out b c d tmp =
     (if f = 0 then [packed kMovdqa out c, packed kPxor out d, packed kPand out b, packed kPxor out d]
      else if f = 2 then [packed kMovdqa out b, packed kPand out c, packed kMovdqa tmp b, packed kPor tmp c,
                          packed kPand tmp d, packed kPor out tmp]
      else [packed kMovdqa out b, packed kPxor out c, packed kPxor out d])"

definition roundConstant :: "u8 \<Rightarrow> bytes" where
  "roundConstant f = map (\<lambda>index. ucast (drop_bit (index mod 4 * 8) (kRoundConstants ! unat f))) [0..<16]"

definition sha1_scratch :: "nat \<Rightarrow> u8 \<Rightarrow> u8 \<Rightarrow> u8 list" where
  "sha1_scratch n dst src = scratch_regs n [dst, src]"

text \<open>One round; the registers of the state rotate by one place after it.\<close>

type_synonym sha1_state = "u8 \<times> u8 \<times> u8 \<times> u8 \<times> u8"

definition sha1_round :: "u8 \<Rightarrow> u8 \<Rightarrow> u8 \<Rightarrow> u8 \<Rightarrow> u8 \<Rightarrow> sha1_state \<Rightarrow> stub_call list" where
  "sha1_round f src t u round st =
     (case st of (a, b, c, d, e) \<Rightarrow>
        function_calls f t b c d u @
        [packed kPaddd e t, packed kMovdqa t a] @
        rotate_calls t u 5 @
        [packed kPaddd e t, shuffle_lane t src (3 - round), packed kPaddd e t,
         packed_constant kPaddd e (roundConstant f)] @
        rotate_calls b u 30)"

fun rotate_state :: "sha1_state \<Rightarrow> sha1_state" where
  "rotate_state (a, b, c, d, e) = (e, a, b, c, d)"

definition sha1_rounds_body :: "u8 \<Rightarrow> u8 \<Rightarrow> u8 \<Rightarrow> u8 \<Rightarrow> u8 \<Rightarrow> sha1_state \<Rightarrow> stub_call list" where
  "sha1_rounds_body f dst src t u st =
     (let s1 = rotate_state st; s2 = rotate_state s1; s3 = rotate_state s2; (a, b, c, d, e) = rotate_state s3
      in sha1_round f src t u 0 st @ sha1_round f src t u 1 s1 @
         sha1_round f src t u 2 s2 @ sha1_round f src t u 3 s3 @
         [packed kPunpckldq d c, packed kPunpckldq b a, packed kPunpcklqdq d b, packed kMovdqa dst d])"

definition sha1_rounds_calls :: "u8 \<Rightarrow> u8 \<Rightarrow> u8 \<Rightarrow> stub_call list" where
  "sha1_rounds_calls f dst src =
     (let s = sha1_scratch 7 dst src
      in saving s
           (map (\<lambda>index. shuffle_lane (s ! index) dst (of_nat (3 - index))) [0..<4] @
            [packed kPxor (s ! 4) (s ! 4)] @
            sha1_rounds_body f dst src (s ! 5) (s ! 6) (s ! 0, s ! 1, s ! 2, s ! 3, s ! 4)))"

definition sha1_next_calls :: "u8 \<Rightarrow> u8 \<Rightarrow> stub_call list" where
  "sha1_next_calls dst src =
     (let s = sha1_scratch 2 dst src; rotated = s ! 0; tmp = s ! 1
      in saving s
           ([packed kMovdqa rotated dst] @ rotate_calls rotated tmp 30 @
            [CallShiftImm kShiftRightBytes rotated 12, CallShiftImm kShiftLeftBytes rotated 12,
             packed kMovdqa dst src, packed kPaddd dst rotated]))"

definition sha1_message1_calls :: "u8 \<Rightarrow> u8 \<Rightarrow> stub_call list" where
  "sha1_message1_calls dst src =
     (let s = sha1_scratch 1 dst src; words = s ! 0
      in saving s
           [packed kMovdqa words src, CallSseImm kPrefixPacked [0x0F, kShufpd] words dst 1, packed kPxor dst words])"

definition sha1_message2_calls :: "u8 \<Rightarrow> u8 \<Rightarrow> stub_call list" where
  "sha1_message2_calls dst src =
     (let s = sha1_scratch 2 dst src; words = s ! 0; tmp = s ! 1
      in saving s
           ([packed kMovdqa words src, CallShiftImm kShiftLeftBytes words 4, packed kPxor dst words] @
            rotate_calls dst tmp 1 @
            [packed kMovdqa words dst, CallShiftImm kShiftRightBytes words 12] @
            rotate_calls words tmp 1 @
            [packed kPxor dst words]))"

definition sha1_register_calls :: "sha1_operation \<Rightarrow> u8 \<Rightarrow> u8 \<Rightarrow> u8 \<Rightarrow> stub_call list" where
  "sha1_register_calls operation f dst src =
     (case operation of
        Sha1Rnds4 \<Rightarrow> sha1_rounds_calls f dst src
      | Sha1Nexte \<Rightarrow> sha1_next_calls dst src
      | Sha1Msg1 \<Rightarrow> sha1_message1_calls dst src
      | Sha1Msg2 \<Rightarrow> sha1_message2_calls dst src)"

definition sha1_calls :: "sha1_operands \<Rightarrow> stub_call list res" where
  "sha1_calls operands = Inr
     (case s1_Memory operands of
        None \<Rightarrow> sha1_register_calls (s1_Operation operands) (s1_Function operands) (s1_Destination operands) (s1_Source operands)
      | Some m \<Rightarrow>
          let source = sha1_scratch 1 (s1_Destination operands) (s1_Destination operands) ! 0
          in [CallSpill source, CallLoad source m] @
             sha1_register_calls (s1_Operation operands) (s1_Function operands) (s1_Destination operands) source @
             [CallRestore source])"

text \<open>\<open>LowerOutOfLine\<close>: the calls on an empty builder, finished.\<close>

definition LowerOutOfLine :: "('a \<Rightarrow> stub_call list res) \<Rightarrow> 'a \<Rightarrow> lowered_body res" where
  "LowerOutOfLine calls operands = map_sum id Finish (emit_calls calls operands empty_builder)"

definition LowerSequence :: "sse4a_operands list \<Rightarrow> lowered_body res" where
  "LowerSequence ops = map_sum id Finish (fold_res (emit_calls sse4a_calls) ops empty_builder)"

subsection \<open>The promises\<close>

lemma scratch_regs:
  assumes "n + length used \<le> 256"
  shows "length (scratch_regs n used) = n" and "distinct (scratch_regs n used)"
    and "set (scratch_regs n used) \<inter> set used = {}"
proof -
  let ?c = "map of_nat [0..<n + length used] :: u8 list"
  have inj: "inj_on (of_nat :: nat \<Rightarrow> u8) {0..<n + length used}"
    using assms by (auto intro!: inj_onI simp: of_nat_inverse word_of_nat_eq_iff take_bit_nat_eq_self)
  have distinct: "distinct ?c" using inj by (simp add: distinct_map)
  have "length (filter (\<lambda>reg. reg \<notin> set used) ?c) + length (filter (\<lambda>reg. reg \<in> set used) ?c) = n + length used"
    using sum_length_filter_compl [of "\<lambda>reg. reg \<notin> set used" ?c] by simp
  moreover have "length (filter (\<lambda>reg. reg \<in> set used) ?c) \<le> length used"
  proof -
    have "length (filter (\<lambda>reg. reg \<in> set used) ?c) = card (set (filter (\<lambda>reg. reg \<in> set used) ?c))"
      using distinct by (simp only: distinct_card distinct_filter)
    also have "\<dots> \<le> card (set used)" by (rule card_mono) auto
    also have "\<dots> \<le> length used" by (rule card_length)
    finally show ?thesis .
  qed
  ultimately show "length (scratch_regs n used) = n" by (simp add: scratch_regs_def)
  show "distinct (scratch_regs n used)" using distinct by (simp add: scratch_regs_def distinct_filter del: distinct_map)
  show "set (scratch_regs n used) \<inter> set used = {}" by (auto simp: scratch_regs_def dest!: in_set_takeD)
qed

lemma neutral_simps [simp]:
  "neutral []" "neutral (c # cs) \<longleftrightarrow> (\<forall>reg. c \<noteq> CallSpill reg \<and> c \<noteq> CallRestore reg) \<and> neutral cs"
  "neutral (xs @ ys) \<longleftrightarrow> neutral xs \<and> neutral ys"
  by (auto simp: neutral_def)

lemma neutral_concat: "(\<And>cs. cs \<in> set css \<Longrightarrow> neutral cs) \<Longrightarrow> neutral (concat css)"
  by (induction css) auto

lemma saving_balanced: "neutral cs \<Longrightarrow> spill_stack (saving regs cs) st = Some st"
  by (intro spill_stack_saving spill_stack_neutral)

lemma saving_ok: "list_all call_ok cs \<Longrightarrow> list_all call_ok (saving regs cs)"
  by (auto simp: saving_def list_all_iff)

text \<open>Calls between a spill and its restore.\<close>

lemma spill_stack_around:
  "spill_stack cs (reg # st) = Some (reg # st) \<Longrightarrow> spill_stack (CallSpill reg # cs @ [CallRestore reg]) st = Some st"
  by (simp add: spill_stack_append)

lemmas sha256_parts = bigSigma0_calls_def bigSigma1_calls_def smallSigma0_calls_def smallSigma1_calls_def
  sigma_calls_def sigma_terms_def sigma_term_def choose_calls_def majority_calls_def Let_def

lemmas sha256_defs = sha256_rounds_calls_def sha256_message1_calls_def sha256_message2_calls_def sha256_rounds_body_def

lemmas sha1_parts = rotate_calls_def function_calls_def sha1_round_def Let_def

lemmas sha1_defs = sha1_rounds_calls_def sha1_next_calls_def sha1_message1_calls_def sha1_message2_calls_def
  sha1_rounds_body_def

lemma length_roundConstant [simp]: "length (roundConstant f) = 16"
  by (simp add: roundConstant_def)

lemma sha256_register_promise:
  "list_all call_ok (sha256_register_calls operation dst src) \<and> spill_stack (sha256_register_calls operation dst src) st = Some st"
  by (cases operation)
    (auto simp: sha256_register_calls_def sha256_defs sha256_parts intro!: saving_ok saving_balanced)

lemma sha1_register_promise:
  "list_all call_ok (sha1_register_calls operation f dst src) \<and> spill_stack (sha1_register_calls operation f dst src) st = Some st"
proof (cases operation)
  case Sha1Rnds4
  then show ?thesis
    by (auto simp: sha1_register_calls_def sha1_defs sha1_parts upt_rec intro!: saving_ok saving_balanced)
qed (auto simp: sha1_register_calls_def sha1_defs sha1_parts intro!: saving_ok saving_balanced)

interpretation sha256: stub_emitter sha256_calls
  by unfold_locales
    (auto simp: sha256_calls_def Let_def spill_stack_append sha256_register_promise split: option.splits)

interpretation sha1: stub_emitter sha1_calls
  by unfold_locales
    (auto simp: sha1_calls_def Let_def spill_stack_append sha1_register_promise split: option.splits)

interpretation clzero: stub_emitter clzero_calls
  by unfold_locales (auto simp: clzero_calls_def Let_def)

interpretation reciprocal: stub_emitter reciprocal_calls
  by unfold_locales
    (auto simp: reciprocal_calls_def Let_def ones_constant_def vexMovaps_def eval_nat_numeral
      split: reciprocal_operation.splits)

lemmas sse4a_defs = sse4a_calls_def insertq_register_calls_def extrq_register_calls_def extrq_calls_def insertq_calls_def
  low_constant_def extrq_mask_def insertq_mask_def hole_constant_def zeroUpper_def Let_def

interpretation sse4a: stub_emitter sse4a_calls
  by unfold_locales (auto simp: sse4a_defs)

end
