(* ===== verification/Xmm_Semantics.thy ===== *)
theory Xmm_Semantics
  imports X64_Sse_Lowering
begin

unbundle bit_operations_syntax

text \<open>
  What the processor does with the vector instructions the lowerings emit: the abstract machine
  against which the lowerings are verified. A register is a 128-bit word; the doubleword and quadword
  lanes and the effect of each instruction follow the processor manuals. It covers exactly the calls of
  the SSE4a and SHA lowerings. The constant of a \<open>RipOperand\<close> call is the source of its instruction, which
  is what \<open>stub_references_resolved\<close> shows of the finished stub; \<open>load\<close> gives the sixteen bytes at a
  memory operand.
\<close>

type_synonym xmm = "128 word"

subsection \<open>Lanes\<close>

definition lane32 :: "nat \<Rightarrow> xmm \<Rightarrow> u32" where
  "lane32 i x = ucast (drop_bit (32 * i) x)"

definition lane64 :: "nat \<Rightarrow> xmm \<Rightarrow> u64" where
  "lane64 i x = ucast (drop_bit (64 * i) x)"

definition join32 :: "u32 \<Rightarrow> u32 \<Rightarrow> u32 \<Rightarrow> u32 \<Rightarrow> xmm" where
  "join32 a b c d = ucast a OR push_bit 32 (ucast b) OR push_bit 64 (ucast c) OR push_bit 96 (ucast d)"

definition join64 :: "u64 \<Rightarrow> u64 \<Rightarrow> xmm" where
  "join64 a b = ucast a OR push_bit 64 (ucast b)"

definition lanes32 :: "(u32 \<Rightarrow> u32 \<Rightarrow> u32) \<Rightarrow> xmm \<Rightarrow> xmm \<Rightarrow> xmm" where
  "lanes32 f x y = join32 (f (lane32 0 x) (lane32 0 y)) (f (lane32 1 x) (lane32 1 y))
     (f (lane32 2 x) (lane32 2 y)) (f (lane32 3 x) (lane32 3 y))"

definition lanes64 :: "(u64 \<Rightarrow> u64 \<Rightarrow> u64) \<Rightarrow> xmm \<Rightarrow> xmm \<Rightarrow> xmm" where
  "lanes64 f x y = join64 (f (lane64 0 x) (lane64 0 y)) (f (lane64 1 x) (lane64 1 y))"

lemma bit_lane32: "bit (lane32 i x) n \<longleftrightarrow> n < 32 \<and> bit x (32 * i + n)"
  by (auto simp: lane32_def bit_simps dest: bit_imp_le_length)

lemma bit_lane64: "bit (lane64 i x) n \<longleftrightarrow> n < 64 \<and> bit x (64 * i + n)"
  by (auto simp: lane64_def bit_simps dest: bit_imp_le_length)

lemma lane32_join32 [simp]:
  "lane32 0 (join32 a b c d) = a" "lane32 (Suc 0) (join32 a b c d) = b"
  "lane32 2 (join32 a b c d) = c" "lane32 3 (join32 a b c d) = d"
  by (rule bit_word_eqI; auto simp: bit_lane32 join32_def bit_simps dest: bit_imp_le_length)+

lemma lane64_join64 [simp]: "lane64 0 (join64 a b) = a" "lane64 (Suc 0) (join64 a b) = b"
  by (rule bit_word_eqI; auto simp: bit_lane64 join64_def bit_simps dest: bit_imp_le_length)+

lemma lane32_bitwise [simp]:
  "lane32 i (x AND y) = lane32 i x AND lane32 i y"
  "lane32 i (x OR y) = lane32 i x OR lane32 i y"
  "lane32 i (x XOR y) = lane32 i x XOR lane32 i y"
  by (rule bit_word_eqI; auto simp: bit_lane32 bit_simps)+

lemma lane64_bitwise [simp]:
  "lane64 i (x AND y) = lane64 i x AND lane64 i y"
  "lane64 i (x OR y) = lane64 i x OR lane64 i y"
  "lane64 i (x XOR y) = lane64 i x XOR lane64 i y"
  by (rule bit_word_eqI; auto simp: bit_lane64 bit_simps)+

lemma xmm_eqI32:
  assumes "lane32 0 x = lane32 0 y" "lane32 1 x = lane32 1 y" "lane32 2 x = lane32 2 y" "lane32 3 x = lane32 3 y"
  shows "x = y"
proof (rule bit_word_eqI)
  fix n
  assume n: "n < LENGTH(128)"
  have lane: "bit z n \<longleftrightarrow> bit (lane32 (n div 32) z) (n mod 32)" for z
    by (simp add: bit_lane32)
  have "n div 32 = 0 \<or> n div 32 = 1 \<or> n div 32 = 2 \<or> n div 32 = 3" using n by auto
  then show "bit x n \<longleftrightarrow> bit y n" unfolding lane [of x] lane [of y] using assms by auto
qed

subsection \<open>Instructions\<close>

definition pshufd :: "xmm \<Rightarrow> u8 \<Rightarrow> xmm" where
  "pshufd x imm = join32 (lane32 (unat (imm AND 3)) x) (lane32 (unat (drop_bit 2 imm AND 3)) x)
     (lane32 (unat (drop_bit 4 imm AND 3)) x) (lane32 (unat (drop_bit 6 imm AND 3)) x)"

definition shufpd :: "xmm \<Rightarrow> xmm \<Rightarrow> u8 \<Rightarrow> xmm" where
  "shufpd x y imm = join64 (lane64 (unat (imm AND 1)) x) (lane64 (unat (drop_bit 1 imm AND 1)) y)"

definition xmm_bytes :: "xmm \<Rightarrow> bytes" where
  "xmm_bytes x = map (\<lambda>i. ucast (drop_bit (8 * i) x)) [0..<16]"

definition bytes_xmm :: "bytes \<Rightarrow> xmm" where
  "bytes_xmm = le_word"

definition pshufb :: "xmm \<Rightarrow> xmm \<Rightarrow> xmm" where
  "pshufb x control =
     bytes_xmm (map (\<lambda>c. if bit c 7 then 0 else ucast (drop_bit (8 * unat (c AND 15)) x)) (xmm_bytes control))"

text \<open>A shift count beyond the lane clears the lane.\<close>

definition psrlq :: "xmm \<Rightarrow> nat \<Rightarrow> xmm" where
  "psrlq x n = join64 (drop_bit n (lane64 0 x)) (drop_bit n (lane64 1 x))"

definition psllq :: "xmm \<Rightarrow> nat \<Rightarrow> xmm" where
  "psllq x n = join64 (push_bit n (lane64 0 x)) (push_bit n (lane64 1 x))"

definition psrld :: "xmm \<Rightarrow> nat \<Rightarrow> xmm" where
  "psrld x n = join32 (drop_bit n (lane32 0 x)) (drop_bit n (lane32 1 x)) (drop_bit n (lane32 2 x)) (drop_bit n (lane32 3 x))"

definition pslld :: "xmm \<Rightarrow> nat \<Rightarrow> xmm" where
  "pslld x n = join32 (push_bit n (lane32 0 x)) (push_bit n (lane32 1 x)) (push_bit n (lane32 2 x)) (push_bit n (lane32 3 x))"

text \<open>The two-operand instructions by mandatory prefix and opcode: the new value of the destination.\<close>

definition sse_result :: "u8 \<Rightarrow> bytes \<Rightarrow> xmm \<Rightarrow> xmm \<Rightarrow> xmm option" where
  "sse_result prefix opc x y =
     (if prefix = 0xF3 then (if opc = [0x0F, 0x7E] then Some (join64 (lane64 0 y) 0) else None)
      else if prefix = 0x66 then
        (if opc = [0x0F, 0x6F] then Some y
         else if opc = [0x0F, 0xDB] then Some (x AND y)
         else if opc = [0x0F, 0xEB] then Some (x OR y)
         else if opc = [0x0F, 0xEF] then Some (x XOR y)
         else if opc = [0x0F, 0xFE] then Some (lanes32 (+) x y)
         else if opc = [0x0F, 0xD4] then Some (lanes64 (+) x y)
         else if opc = [0x0F, 0x76] then Some (lanes32 (\<lambda>a b. if a = b then - 1 else 0) x y)
         else if opc = [0x0F, 0xD3] then Some (psrlq x (unat (lane64 0 y)))
         else if opc = [0x0F, 0xF3] then Some (psllq x (unat (lane64 0 y)))
         else if opc = [0x0F, 0x62] then Some (join32 (lane32 0 x) (lane32 0 y) (lane32 1 x) (lane32 1 y))
         else if opc = [0x0F, 0x6C] then Some (join64 (lane64 0 x) (lane64 0 y))
         else if opc = [0x0F, 0x38, 0x00] then Some (pshufb x y)
         else None)
      else None)"

definition sse_imm_result :: "u8 \<Rightarrow> bytes \<Rightarrow> xmm \<Rightarrow> xmm \<Rightarrow> u8 \<Rightarrow> xmm option" where
  "sse_imm_result prefix opc x y imm =
     (if prefix = 0x66 \<and> opc = [0x0F, 0x70] then Some (pshufd y imm)
      else if prefix = 0x66 \<and> opc = [0x0F, 0xC6] then Some (shufpd x y imm)
      else None)"

definition shift_result :: "u8 \<Rightarrow> xmm \<Rightarrow> u8 \<Rightarrow> xmm option" where
  "shift_result extension x imm =
     (if extension = 2 then Some (psrlq x (unat imm))
      else if extension = 6 then Some (psllq x (unat imm))
      else if extension = 3 then Some (drop_bit (8 * unat imm) x)
      else if extension = 7 then Some (push_bit (8 * unat imm) x)
      else None)"

definition shift_dword_result :: "u8 \<Rightarrow> xmm \<Rightarrow> u8 \<Rightarrow> xmm option" where
  "shift_dword_result extension x imm =
     (if extension = 2 then Some (psrld x (unat imm))
      else if extension = 6 then Some (pslld x (unat imm))
      else None)"

subsection \<open>Running calls\<close>

type_synonym machine = "(u8 \<Rightarrow> xmm) \<times> xmm list"

definition set_reg :: "machine \<Rightarrow> u8 \<Rightarrow> xmm option \<Rightarrow> machine option" where
  "set_reg m reg v = map_option (\<lambda>v. ((fst m)(reg := v), snd m)) v"

fun exec_call :: "(memory_operand \<Rightarrow> xmm) \<Rightarrow> stub_call \<Rightarrow> machine \<Rightarrow> machine option" where
  "exec_call ld (CallSse prefix opc dst src) m = set_reg m dst (sse_result prefix opc (fst m dst) (fst m src))"
| "exec_call ld (CallSseImm prefix opc dst src imm) m =
     set_reg m dst (sse_imm_result prefix opc (fst m dst) (fst m src) imm)"
| "exec_call ld (CallShiftImm extension reg imm) m = set_reg m reg (shift_result extension (fst m reg) imm)"
| "exec_call ld (CallShiftDwordImm extension reg imm) m = set_reg m reg (shift_dword_result extension (fst m reg) imm)"
| "exec_call ld (CallRipOperand opc reg constant) m =
     set_reg m reg (sse_result kPrefixPacked opc (fst m reg) (bytes_xmm constant))"
| "exec_call ld (CallLoad reg operand) m = Some ((fst m)(reg := ld operand), snd m)"
| "exec_call ld (CallSpill reg) m = Some (fst m, fst m reg # snd m)"
| "exec_call ld (CallRestore reg) m = (case snd m of [] \<Rightarrow> None | v # st \<Rightarrow> Some ((fst m)(reg := v), st))"
| "exec_call ld _ m = None"

fun exec :: "(memory_operand \<Rightarrow> xmm) \<Rightarrow> stub_call list \<Rightarrow> machine \<Rightarrow> machine option" where
  "exec ld [] m = Some m"
| "exec ld (c # cs) m = (case exec_call ld c m of None \<Rightarrow> None | Some m' \<Rightarrow> exec ld cs m')"

lemma exec_append: "exec ld (xs @ ys) m = (case exec ld xs m of None \<Rightarrow> None | Some m' \<Rightarrow> exec ld ys m')"
  by (induction xs arbitrary: m) (auto split: option.split)

lemma exec_spills: "exec ld (map CallSpill regs) (R, st) = Some (R, rev (map R regs) @ st)"
  by (induction regs arbitrary: st) auto

lemma exec_restores:
  "exec ld (map CallRestore regs) (R, map V regs @ st) = Some (\<lambda>r. if r \<in> set regs then V r else R r, st)"
proof (induction regs arbitrary: R)
  case (Cons r regs)
  have "exec ld (map CallRestore (r # regs)) (R, map V (r # regs) @ st) =
      exec ld (map CallRestore regs) (R(r := V r), map V regs @ st)"
    by simp
  also have "\<dots> = Some (\<lambda>q. if q \<in> set regs then V q else (R(r := V r)) q, st)"
    by (rule Cons)
  also have "(\<lambda>q. if q \<in> set regs then V q else (R(r := V r)) q) = (\<lambda>q. if q \<in> set (r # regs) then V q else R q)"
    by (rule ext) auto
  finally show ?case .
qed simp

text \<open>Saved registers come back whatever the calls between did with them.\<close>

lemma exec_saving:
  assumes "exec ld cs (R, rev (map R regs) @ st) = Some (R', rev (map R regs) @ st)"
  shows "exec ld (saving regs cs) (R, st) = Some (\<lambda>r. if r \<in> set regs then R r else R' r, st)"
  using assms exec_restores [of ld "rev regs" R' R st]
  by (simp add: saving_def exec_append exec_spills rev_map)

end
