(* ===== verification/X64_Sse4a_Correct.thy ===== *)
theory X64_Sse4a_Correct
  imports Xmm_Semantics
begin

text \<open>
  The stubs that replace \<open>EXTRQ\<close> and \<open>INSERTQ\<close> compute these instructions: run on any register
  contents, the calls of \<open>Sse4aLowering\<close> leave the extracted or inserted field in the low quadword of the
  destination, zero in its upper quadword, and every other register as it was.
\<close>

subsection \<open>Constants\<close>

lemma bit_le_word:
  "bit (le_word bs :: 'a::len word) n \<longleftrightarrow> n < LENGTH('a) \<and> n div 8 < length bs \<and> bit (bs ! (n div 8)) (n mod 8)"
proof (induction bs arbitrary: n)
  case (Cons b bs)
  show ?case
  proof (cases "n < 8")
    case True
    then show ?thesis by (auto simp: bit_simps)
  next
    case False
    then obtain k where k: "n = k + 8" using le_Suc_ex [of 8 n] by (auto simp: add.commute)
    have d: "(k + 8) div 8 = Suc (k div 8)" by simp
    have "\<not> bit b n" using False bit_imp_le_length [of b n] by auto
    then show ?thesis
      using Cons [of k] by (auto simp: bit_simps k d simp del: div_add_self2 dest: bit_imp_le_length)
  qed
qed simp

lemma bit_bytes_xmm: "bit (bytes_xmm bs) n \<longleftrightarrow> n < 128 \<and> n div 8 < length bs \<and> bit (bs ! (n div 8)) (n mod 8)"
  by (simp add: bytes_xmm_def bit_le_word)

lemma bit_join64: "bit (join64 a b) n \<longleftrightarrow> (if n < 64 then bit a n else n < 128 \<and> bit b (n - 64))"
  by (auto simp: join64_def bit_simps dest: bit_imp_le_length)

lemma xmm_bytes_bytes_xmm: "length bs = 16 \<Longrightarrow> xmm_bytes (bytes_xmm bs) = bs"
proof (rule nth_equalityI)
  assume len: "length bs = 16"
  then show "length (xmm_bytes (bytes_xmm bs)) = length bs" by (simp add: xmm_bytes_def)
  fix i
  assume "i < length (xmm_bytes (bytes_xmm bs))"
  then have i: "i < 16" by (simp add: xmm_bytes_def)
  show "xmm_bytes (bytes_xmm bs) ! i = bs ! i"
    by (rule bit_word_eqI) (use i len in \<open>auto simp: xmm_bytes_def bit_simps bit_bytes_xmm\<close>)
qed

lemma bit_pshufb:
  assumes "length ctl = 16" and "n < 128"
  shows "bit (pshufb x (bytes_xmm ctl)) n \<longleftrightarrow>
    \<not> bit (ctl ! (n div 8)) 7 \<and> bit x (8 * unat (ctl ! (n div 8) AND 15) + n mod 8)"
proof -
  have i: "n div 8 < 16" using assms(2) by auto
  show ?thesis
    using i assms unfolding pshufb_def xmm_bytes_bytes_xmm [OF assms(1)] bit_bytes_xmm
    by (auto simp: bit_simps dest: bit_imp_le_length)
qed

lemma constant_join64:
  "bytes_xmm (map (\<lambda>byte. ucast (drop_bit (byte * 8) (v :: u64))) [0..<8] @ replicate 8 0) = join64 v 0"
proof (rule bit_word_eqI)
  fix n
  assume n: "n < LENGTH(128)"
  show "bit (bytes_xmm (map (\<lambda>byte. ucast (drop_bit (byte * 8) v)) [0..<8] @ replicate 8 0)) n \<longleftrightarrow> bit (join64 v 0) n"
  proof (cases "n < 64")
    case True
    then have "n div 8 < 8" by auto
    then show ?thesis using True n by (simp add: bit_bytes_xmm bit_join64 nth_append bit_simps)
  next
    case False
    then have "\<not> n div 8 < 8" and "n div 8 < 16" using n by auto
    then show ?thesis using False n by (simp add: bit_bytes_xmm bit_join64 nth_append)
  qed
qed

lemma low_constant_join64: "bytes_xmm (low_constant v) = join64 (ucast v) 0"
proof -
  have "low_constant v = map (\<lambda>byte. ucast (drop_bit (byte * 8) (ucast v :: u64))) [0..<8] @ replicate 8 0"
  proof (rule nth_equalityI)
    fix i
    assume "i < length (low_constant v)"
    then have "i < 16" by (simp add: low_constant_def)
    show "low_constant v ! i = (map (\<lambda>byte. ucast (drop_bit (byte * 8) (ucast v :: u64))) [0..<8] @ replicate 8 0) ! i"
    proof (rule bit_word_eqI)
      fix k
      assume "k < LENGTH(8)"
      then show "bit (low_constant v ! i) k \<longleftrightarrow>
          bit ((map (\<lambda>byte. ucast (drop_bit (byte * 8) (ucast v :: u64)) :: u8) [0..<8] @ replicate 8 0) ! i) k"
        using \<open>i < 16\<close> bit_imp_le_length [of v k] by (cases i) (auto simp: low_constant_def nth_append bit_simps dest: bit_imp_le_length)
    qed
  qed (simp add: low_constant_def)
  then show ?thesis by (simp only: constant_join64)
qed

subsection \<open>The SSE4a instructions\<close>

text \<open>The operation of the manual: a field of the low quadword is extracted, or replaced.\<close>

definition extract_field :: "nat \<Rightarrow> nat \<Rightarrow> u64 \<Rightarrow> u64" where
  "extract_field n i x = take_bit n (drop_bit i x)"

definition insert_field :: "nat \<Rightarrow> nat \<Rightarrow> u64 \<Rightarrow> u64 \<Rightarrow> u64" where
  "insert_field n i x y = (x AND NOT (push_bit i (mask n))) OR push_bit i (take_bit n y)"

definition field_length :: "u64 \<Rightarrow> nat" where
  "field_length control = (if control AND 63 = 0 then 64 else unat (control AND 63))"

definition field_index :: "u64 \<Rightarrow> nat" where
  "field_index control = unat (drop_bit 8 control AND 63)"

definition sse4a_field :: "sse4a_operands \<Rightarrow> (u8 \<Rightarrow> xmm) \<Rightarrow> nat \<times> nat" where
  "sse4a_field operands R =
     (if s4_RegisterForm operands
      then let control = lane64 (if s4_Insertq operands then 1 else 0) (R (s4_Source operands))
           in (field_length control, field_index control)
      else (unat (s4_Length operands), unat (s4_Index operands)))"

definition sse4a_result :: "sse4a_operands \<Rightarrow> (u8 \<Rightarrow> xmm) \<Rightarrow> u64" where
  "sse4a_result operands R =
     (let (n, i) = sse4a_field operands R; x = lane64 0 (R (s4_Destination operands))
      in if s4_Insertq operands then insert_field n i x (lane64 0 (R (s4_Source operands)))
         else extract_field n i x)"

lemma bit_extract_field: "bit (extract_field n i x) k \<longleftrightarrow> k < n \<and> bit x (i + k)"
  by (auto simp: extract_field_def bit_simps add.commute)

lemma bit_insert_field:
  "k < 64 \<Longrightarrow> bit (insert_field n i x y) k \<longleftrightarrow> (if i \<le> k \<and> k < i + n then bit y (k - i) else bit x k)"
  by (auto simp: insert_field_def bit_simps dest: bit_imp_le_length)

lemma extract_by_shifts: "n \<le> 64 \<Longrightarrow> drop_bit (64 - n) (push_bit (64 - n) (drop_bit i x)) = extract_field n i x"
  by (rule bit_word_eqI) (auto simp: bit_extract_field bit_simps dest: bit_imp_le_length)

lemma insert_by_mask:
  "x XOR ((push_bit i y XOR x) AND push_bit i (mask n)) = insert_field n i x (y :: u64)"
  by (rule bit_word_eqI) (auto simp: bit_insert_field bit_simps dest: bit_imp_le_length)

lemma extract_field_drop: "extract_field n 0 (drop_bit i x) = extract_field n i x"
  by (simp add: extract_field_def)

lemmas extract_by_shifts_0 = extract_by_shifts [of _ 0, simplified]

lemma insert_by_mask_0: "x XOR ((y XOR x) AND mask n) = insert_field n 0 x (y :: u64)"
  using insert_by_mask [of x 0 y n] by simp

lemma insert_same: "insert_field n 0 x x = x"
  by (rule bit_word_eqI) (auto simp: bit_insert_field)

lemma fieldMask_mask: "unat n \<le> 64 \<Longrightarrow> fieldMask n = mask (unat n)"
proof (cases "n \<ge> kFieldBits")
  case True
  assume "unat n \<le> 64"
  with True have "unat n = 64" by (simp add: word_le_nat_alt)
  then show ?thesis using True by (simp add: fieldMask_def mask_eq_exp_minus_1)
next
  case False
  then show ?thesis by (simp add: fieldMask_def mask_eq_exp_minus_1 push_bit_eq_mult)
qed


lemma shift_count: "unat ((((c :: u64) AND 63) XOR 63) + 1 AND 63) = 64 - field_length c"
proof -
  have "unat (c AND 63) < 64"
    using word_and_le1 [of c 63] by (simp add: word_le_nat_alt)
  then have "c AND 63 \<in> set (map of_nat [0..<64])"
    by (auto intro!: image_eqI [of _ _ "unat (c AND 63)"])
  moreover have "\<forall>w \<in> set (map of_nat [0..<64]). unat (((w :: u64) XOR 63) + 1 AND 63) = (if w = 0 then 0 else 64 - unat w)"
    by code_simp
  ultimately show ?thesis unfolding field_length_def by auto
qed

lemma field_length_le: "field_length c \<le> 64" and field_length_pos: "0 < field_length c"
  using word_and_le1 [of c 63] by (auto simp: field_length_def word_le_nat_alt unat_gt_0)

lemmas exec_simps = set_reg_def sse_result_def sse_imm_result_def shift_result_def shift_dword_result_def

lemma lane64_lanes64: "lane64 0 (lanes64 f x y) = f (lane64 0 x) (lane64 0 y)"
  by (simp add: lanes64_def)

lemma lane64_high: "lane64 0 (drop_bit 64 x) = lane64 (Suc 0) x"
  by (simp add: lane64_def)

lemma two_scratch:
  obtains s0 s1 where "scratch_regs 2 [d, s] = [s0, s1]" "s0 \<noteq> s1" "s0 \<noteq> d" "s0 \<noteq> s" "s1 \<noteq> d" "s1 \<noteq> s"
proof -
  note r = scratch_regs [of 2 "[d, s]"]
  then obtain s0 s1 where "scratch_regs 2 [d, s] = [s0, s1]"
    by (auto simp: length_Suc_conv eval_nat_numeral)
  then show thesis using r that by auto
qed

lemma extrq_register_exec:
  "exec ld (extrq_register_calls operands) (R, st) =
     Some (R(s4_Destination operands :=
       join64 (extract_field (field_length (lane64 0 (R (s4_Source operands)))) (field_index (lane64 0 (R (s4_Source operands))))
         (lane64 0 (R (s4_Destination operands)))) 0), st)"
proof -
  obtain s0 s1 where s: "scratch_regs 2 [s4_Destination operands, s4_Source operands] = [s0, s1]"
    "s0 \<noteq> s1" "s0 \<noteq> s4_Destination operands" "s0 \<noteq> s4_Source operands"
    "s1 \<noteq> s4_Destination operands" "s1 \<noteq> s4_Source operands"
    by (rule two_scratch)
  show ?thesis
    unfolding extrq_register_calls_def Let_def s(1)
    by (simp add: s s(2-6) [symmetric] exec_simps low_constant_join64 zeroUpper_def psrlq_def psllq_def
        lane64_lanes64 shift_count extract_by_shifts field_length_le field_index_def) (auto simp: fun_eq_iff s)
qed

lemma three_scratch:
  obtains s0 s1 s2 where "scratch_regs 3 [d, s] = [s0, s1, s2]" "distinct [s0, s1, s2]"
    "d \<notin> {s0, s1, s2}" "s \<notin> {s0, s1, s2}"
proof -
  note r = scratch_regs [of 3 "[d, s]"]
  then obtain s0 s1 s2 where "scratch_regs 3 [d, s] = [s0, s1, s2]"
    by (auto simp: length_Suc_conv eval_nat_numeral)
  then show thesis using r that by auto
qed

lemma all_ones_lane: "lane64 0 (lanes32 (\<lambda>a b. if a = b then - 1 else 0) x x) = - 1"
  by (rule bit_word_eqI) (auto simp: bit_lane64 lanes32_def join32_def bit_simps)

lemma insertq_register_exec:
  "exec ld (insertq_register_calls operands) (R, st) =
     Some (R(s4_Destination operands :=
       join64 (insert_field (field_length (lane64 1 (R (s4_Source operands)))) (field_index (lane64 1 (R (s4_Source operands))))
         (lane64 0 (R (s4_Destination operands))) (lane64 0 (R (s4_Source operands)))) 0), st)"
proof -
  obtain s0 s1 s2 where s: "scratch_regs 3 [s4_Destination operands, s4_Source operands] = [s0, s1, s2]"
    "distinct [s0, s1, s2]" "s4_Destination operands \<notin> {s0, s1, s2}" "s4_Source operands \<notin> {s0, s1, s2}"
    by (rule three_scratch)
  then have ne: "s0 \<noteq> s1" "s0 \<noteq> s2" "s1 \<noteq> s2" "s4_Destination operands \<noteq> s0" "s4_Destination operands \<noteq> s1"
    "s4_Destination operands \<noteq> s2" "s4_Source operands \<noteq> s0" "s4_Source operands \<noteq> s1" "s4_Source operands \<noteq> s2"
    by auto
  show ?thesis
    unfolding insertq_register_calls_def Let_def s(1)
    by (simp add: ne ne [symmetric] exec_simps low_constant_join64 zeroUpper_def psrlq_def psllq_def
        lane64_lanes64 shift_count field_length_le field_index_def all_ones_lane lane64_high insert_by_mask)
      (auto simp: fun_eq_iff ne)
qed

text \<open>The immediate forms.\<close>

definition imm_field_ok :: "sse4a_operands \<Rightarrow> bool" where
  "imm_field_ok operands \<longleftrightarrow> 0 < unat (s4_Length operands) \<and>
     unat (s4_Length operands) + unat (s4_Index operands) \<le> 64"

lemma unat_of_nat_u8: "n < 256 \<Longrightarrow> unat (of_nat n :: u8) = n"
  by (rule unat_of_nat_small) simp

lemma low_index: "c < 16 \<Longrightarrow> unat ((of_nat c :: u8) AND 15) = c \<and> \<not> bit (of_nat c :: u8) 7"
proof -
  assume "c < 16"
  moreover have "\<forall>c \<in> set [0..<16]. unat ((of_nat c :: u8) AND 15) = c \<and> \<not> bit (of_nat c :: u8) 7" by code_simp
  ultimately show ?thesis by (metis atLeastLessThan_iff set_upt zero_le)
qed

lemma pshufb_low:
  assumes "length ctl = 16" and "\<And>b. b < 16 \<Longrightarrow> ctl ! b = (case f b of None \<Rightarrow> kPshufbZero | Some c \<Rightarrow> of_nat c)"
    and "\<And>b c. b < 16 \<Longrightarrow> f b = Some c \<Longrightarrow> c < 16" and "n < 128"
  shows "bit (pshufb x (bytes_xmm ctl)) n \<longleftrightarrow> (case f (n div 8) of None \<Rightarrow> False | Some c \<Rightarrow> bit x (8 * c + n mod 8))"
proof -
  have "n div 8 < 16" using assms(4) by auto
  then show ?thesis
    unfolding bit_pshufb [OF assms(1,4)]
    using assms(2) [of "n div 8"] assms(3) [of "n div 8"] by (auto simp: low_index split: option.split)
qed

lemma extrq_shuffle:
  assumes "n mod 8 = 0" and "i mod 8 = 0" and "n + i \<le> 64" and "unat l = n" and "unat k = i"
  shows "pshufb x (bytes_xmm (extrq_mask l k)) = join64 (extract_field n i (lane64 0 x)) 0"
proof (rule bit_word_eqI)
  fix p
  assume p: "p < LENGTH(128)"
  let ?f = "\<lambda>b. if b < n div 8 then Some (i div 8 + b) else None"
  have "bit (pshufb x (bytes_xmm (extrq_mask l k))) p \<longleftrightarrow>
      (case ?f (p div 8) of None \<Rightarrow> False | Some c \<Rightarrow> bit x (8 * c + p mod 8))"
    by (rule pshufb_low) (use assms p in \<open>auto simp: extrq_mask_def split: if_splits\<close>)
  moreover have "p div 8 < n div 8 \<longleftrightarrow> p < n" using assms(1) by auto
  moreover have "8 * (i div 8 + p div 8) + p mod 8 = i + p" using assms(2) by auto
  ultimately show "bit (pshufb x (bytes_xmm (extrq_mask l k))) p \<longleftrightarrow> bit (join64 (extract_field n i (lane64 0 x)) 0) p"
    using assms(3) by (auto simp: bit_join64 bit_extract_field bit_lane64 add.commute [of p i])
qed

lemma byte_range:
  assumes "n mod 8 = 0" and "i mod 8 = 0"
  shows "i div 8 \<le> p div 8 \<and> p div 8 < i div 8 + n div 8 \<longleftrightarrow> i \<le> p \<and> p < i + (n :: nat)"
proof -
  obtain a b where ab: "n = 8 * a" "i = 8 * b"
    using assms by (auto elim!: dvdE simp: mod_eq_0_iff_dvd)
  obtain q r where p: "p = 8 * q + r" "r < 8"
    using mod_less_divisor [of 8 p] mult_div_mod_eq [of 8 p] by (metis zero_less_numeral)
  show ?thesis
    unfolding ab p(1) using p(2) by (simp; linarith)
qed

lemma byte_offset:
  assumes "i mod 8 = 0" and "i \<le> p"
  shows "8 * (c + (p div 8 - i div 8)) + p mod 8 = 8 * c + (p - (i :: nat))"
proof -
  obtain b where i: "i = 8 * b"
    using assms(1) by (auto elim!: dvdE simp: mod_eq_0_iff_dvd)
  have "b \<le> p div 8" using assms(2) unfolding i by simp
  moreover have "p = 8 * (p div 8) + p mod 8" by simp
  ultimately show ?thesis unfolding i by (simp add: diff_mult_distrib2)
qed

lemma insertq_shuffle:
  assumes "n mod 8 = 0" and "i mod 8 = 0" and "n + i \<le> 64" and "unat l = n" and "unat k = i"
    and "\<And>b. b < 64 \<Longrightarrow> bit x ((if other then 64 else 0) + b) = bit y b"
  shows "pshufb x (bytes_xmm (insertq_mask other l k)) = join64 (insert_field n i (lane64 0 x) (lane64 0 y)) 0"
proof (rule bit_word_eqI)
  fix p
  assume p: "p < LENGTH(128)"
  let ?f = "\<lambda>b. if i div 8 \<le> b \<and> b < i div 8 + n div 8 then Some ((if other then 8 else 0) + (b - i div 8))
       else if b < 8 then Some b else None"
  have shuffled: "bit (pshufb x (bytes_xmm (insertq_mask other l k))) p \<longleftrightarrow>
      (case ?f (p div 8) of None \<Rightarrow> False | Some c \<Rightarrow> bit x (8 * c + p mod 8))"
    by (rule pshufb_low) (use assms p in \<open>auto simp: insertq_mask_def split: if_splits\<close>)
  have inside: "i div 8 \<le> p div 8 \<and> p div 8 < i div 8 + n div 8 \<longleftrightarrow> i \<le> p \<and> p < i + n"
    by (rule byte_range) (use assms(1,2) in simp_all)
  consider (field) "i \<le> p" "p < i + n" | (rest) "\<not> (i \<le> p \<and> p < i + n)" "p < 64" | (upper) "\<not> p < 64" "\<not> (i \<le> p \<and> p < i + n)"
    by blast
  then show "bit (pshufb x (bytes_xmm (insertq_mask other l k))) p \<longleftrightarrow>
      bit (join64 (insert_field n i (lane64 0 x) (lane64 0 y)) 0) p"
  proof cases
    case field
    have "bit (pshufb x (bytes_xmm (insertq_mask other l k))) p \<longleftrightarrow> bit x ((if other then 64 else 0) + (p - i))"
      unfolding shuffled if_P [OF inside [THEN iffD2, OF conjI [OF field]]] option.case
        byte_offset [OF assms(2) field(1)] by simp
    also have "\<dots> \<longleftrightarrow> bit y (p - i)" using field assms(3) by (intro assms(6)) simp
    finally have "bit (pshufb x (bytes_xmm (insertq_mask other l k))) p \<longleftrightarrow> bit y (p - i)" .
    moreover have "p < 64" and "p - i < 64" using field assms(3) by linarith+
    ultimately show ?thesis using field assms(3) by (simp add: bit_join64 bit_insert_field bit_lane64)
  next
    case rest
    then have "p div 8 < 8" by auto
    then have "bit (pshufb x (bytes_xmm (insertq_mask other l k))) p \<longleftrightarrow> bit x p"
      unfolding shuffled if_not_P [OF rest(1) [folded inside]] by simp
    then show ?thesis using rest by (auto simp: bit_join64 bit_insert_field bit_lane64)
  next
    case upper
    then have "\<not> p div 8 < 8" by auto
    then have "\<not> bit (pshufb x (bytes_xmm (insertq_mask other l k))) p"
      unfolding shuffled if_not_P [OF upper(2) [folded inside]] by simp
    then show ?thesis using upper by (simp add: bit_join64)
  qed
qed

lemma extrq_exec:
  assumes "imm_field_ok operands"
  shows "exec ld (extrq_calls operands) (R, st) =
     Some (R(s4_Destination operands := join64 (extract_field (unat (s4_Length operands)) (unat (s4_Index operands))
       (lane64 0 (R (s4_Destination operands)))) 0), st)"
proof (cases "unat (s4_Length operands) mod 8 = 0 \<and> unat (s4_Index operands) mod 8 = 0")
  case True
  then show ?thesis
    using assms extrq_shuffle [of "unat (s4_Length operands)" "unat (s4_Index operands)" "s4_Length operands" "s4_Index operands"]
    by (simp add: extrq_calls_def Let_def exec_simps imm_field_ok_def)
next
  case False
  have "unat (kFieldBits - s4_Length operands) = 64 - unat (s4_Length operands)"
    using assms unfolding imm_field_ok_def by (subst unat_sub_le) (simp_all add: word_le_nat_alt)
  moreover have "s4_Length operands = 64 \<Longrightarrow> unat (s4_Length operands) = 64" by simp
  ultimately show ?thesis
    using assms False
    by (auto simp: extract_by_shifts_0 extract_field_drop extrq_calls_def Let_def exec_simps imm_field_ok_def zeroUpper_def psrlq_def psllq_def fun_eq_iff)
qed

lemma one_scratch:
  obtains s0 where "scratch_regs 1 [d, s] = [s0]" "s0 \<noteq> d" "s0 \<noteq> s"
proof -
  note r = scratch_regs [of 1 "[d, s]"]
  then obtain s0 where "scratch_regs 1 [d, s] = [s0]"
    by (auto simp: length_Suc_conv)
  then show thesis using r that by auto
qed

lemma hole_constant_join64: "unat n \<le> 64 \<Longrightarrow> bytes_xmm (hole_constant n i) = join64 (push_bit (unat i) (mask (unat n))) 0"
  by (simp add: hole_constant_def constant_join64 fieldMask_mask)

lemma insertq_exec:
  assumes "imm_field_ok operands"
  shows "exec ld (insertq_calls operands) (R, st) =
     Some (R(s4_Destination operands := join64 (insert_field (unat (s4_Length operands)) (unat (s4_Index operands))
       (lane64 0 (R (s4_Destination operands))) (lane64 0 (R (s4_Source operands)))) 0), st)"
proof (cases "unat (s4_Length operands) mod 8 = 0 \<and> unat (s4_Index operands) mod 8 = 0")
  case True
  let ?x = "if s4_Source operands \<noteq> s4_Destination operands
    then join64 (lane64 0 (R (s4_Destination operands))) (lane64 0 (R (s4_Source operands))) else R (s4_Destination operands)"
  have "pshufb ?x (bytes_xmm (insertq_mask (s4_Source operands \<noteq> s4_Destination operands) (s4_Length operands) (s4_Index operands))) =
      join64 (insert_field (unat (s4_Length operands)) (unat (s4_Index operands)) (lane64 0 ?x) (lane64 0 (R (s4_Source operands)))) 0"
    by (rule insertq_shuffle) (use True assms in \<open>auto simp: imm_field_ok_def bit_join64 bit_lane64\<close>)
  then show ?thesis
    using True by (auto simp: insertq_calls_def Let_def exec_simps split: if_splits)
next
  case False
  obtain s0 where s: "scratch_regs 1 [s4_Destination operands, s4_Source operands] = [s0]"
    "s0 \<noteq> s4_Destination operands" "s0 \<noteq> s4_Source operands"
    by (rule one_scratch)
  then show ?thesis
    using False assms
    by (auto simp: insert_by_mask insert_by_mask_0 insert_same insertq_calls_def Let_def exec_simps imm_field_ok_def zeroUpper_def psllq_def hole_constant_join64 fun_eq_iff)
qed

lemma sse4a_exec:
  assumes "s4_RegisterForm operands \<or> imm_field_ok operands" and "sse4a_calls operands = Inr cs"
  shows "exec ld cs (R, st) = Some (R(s4_Destination operands := join64 (sse4a_result operands R) 0), st)"
  using assms extrq_exec [of operands ld R st] insertq_exec [of operands ld R st]
  by (auto simp: sse4a_calls_def sse4a_result_def sse4a_field_def Let_def extrq_register_exec insertq_register_exec)

lemma DecodeSse4a_field:
  assumes "DecodeSse4a data = Inr operands"
  shows "s4_RegisterForm operands \<or> imm_field_ok operands"
  using assms unfolding DecodeSse4a_def
  by (auto simp: res_simps Let_def imm_field_ok_def unat_gt_0 split: if_splits)

subsection \<open>The lowering in place\<close>

lemma sse4a_move_result:
  assumes "sse4a_move operands = Some (d, s)" and "\<not> s4_RegisterForm operands" and "imm_field_ok operands"
  shows "d = s4_Destination operands \<and> lane64 0 (R s) = sse4a_result operands R"
proof -
  have full: "insert_field 64 0 x y = y" "extract_field 64 0 x = x" for x y :: u64
    by (rule bit_word_eqI; simp add: bit_insert_field bit_extract_field)+
  show ?thesis
    using assms
    by (auto simp: sse4a_move_def sse4a_result_def sse4a_field_def Let_def full insert_same split: if_splits)
qed

definition nop_bytes :: "bytes \<Rightarrow> bool" where
  "nop_bytes bs \<longleftrightarrow> (\<exists>ns. bs = concat (map kNop ns) \<and> (\<forall>n \<in> set ns. 1 \<le> n \<and> n \<le> 7))"

lemma length_kNop: "1 \<le> n \<Longrightarrow> n \<le> 7 \<Longrightarrow> length (kNop n) = n"
  by (auto simp: kNop_def)

lemma nop_bytes_append: "1 \<le> n \<Longrightarrow> n \<le> 7 \<Longrightarrow> nop_bytes bs \<Longrightarrow> nop_bytes (kNop n @ bs)"
  unfolding nop_bytes_def by (elim exE) (rule exI [of _ "n # _"], auto)

lemma nopFill_nops: "\<exists>fill. nopFill out n = out @ fill \<and> length fill = n \<and> nop_bytes fill"
proof (induction out n rule: nopFill.induct)
  case (1 out)
  have "nop_bytes []" unfolding nop_bytes_def by (rule exI [of _ "[]"]) simp
  then show ?case by simp
next
  case (2 out n)
  let ?m = "min (Suc n) 7"
  from 2 obtain fill where fill: "nopFill (out @ kNop ?m) (Suc n - ?m) = (out @ kNop ?m) @ fill"
    "length fill = Suc n - ?m" "nop_bytes fill" by blast
  have m: "1 \<le> ?m" "?m \<le> 7" by simp_all
  have "nopFill out (Suc n) = out @ (kNop ?m @ fill)" using fill(1) by simp
  moreover have "length (kNop ?m @ fill) = Suc n"
    unfolding length_append length_kNop [OF m] fill(2) by simp
  ultimately show ?case using nop_bytes_append [OF m fill(3)] by blast
qed

subsection \<open>Properties\<close>

text \<open>
  C11: The stub for a decoded \<open>EXTRQ\<close> or \<open>INSERTQ\<close>, in the immediate and in the register form, computes the
  instruction: from any register contents its calls run to the end, the destination holds the field that
  the instruction extracts or inserts with a zero upper half, and no other register has changed.
\<close>
theorem sse4a_lowering_correct:
  assumes "DecodeSse4a data = Inr operands"
  shows "\<exists>cs. sse4a_calls operands = Inr cs \<and>
    exec ld cs (R, st) = Some (R(s4_Destination operands := join64 (sse4a_result operands R) 0), st)"
proof -
  obtain cs where cs: "sse4a_calls operands = Inr cs" by (simp add: sse4a_calls_def)
  show ?thesis using sse4a_exec [OF DecodeSse4a_field [OF assms] cs] cs by blast
qed

text \<open>
  The replacement in place of an \<open>EXTRQ\<close> or \<open>INSERTQ\<close> is exactly as long as the instruction: one move
  between vector registers with the effect of the instruction, followed by no-operations only.
\<close>
theorem sse4a_in_place_correct:
  assumes "DecodeSse4a data = Inr operands" and "LowerInPlace operands n = Some bs"
  shows "\<exists>dst src fill. length bs = n \<and> bs = EmitSse [] kPrefixScalar [0x0F, 0x7E] dst src @ fill \<and> nop_bytes fill \<and>
    exec ld [CallSse kPrefixScalar [0x0F, 0x7E] dst src] (R, st) =
      Some (R(s4_Destination operands := join64 (sse4a_result operands R) 0), st)"
proof -
  let ?code = "\<lambda>dst src. EmitSse [] kPrefixScalar [0x0F, 0x7E] dst src"
  obtain dst src where form: "\<not> s4_RegisterForm operands" and move: "sse4a_move operands = Some (dst, src)"
    and size: "length (?code dst src) \<le> n" and bs: "bs = nopFill (?code dst src) (n - length (?code dst src))"
    using assms(2) by (auto simp: LowerInPlace_def Let_def split: if_splits option.splits)
  obtain fill where fill: "bs = ?code dst src @ fill" "length fill = n - length (?code dst src)" "nop_bytes fill"
    using nopFill_nops [of "?code dst src" "n - length (?code dst src)"] bs by blast
  have "imm_field_ok operands" using DecodeSse4a_field [OF assms(1)] form by blast
  from sse4a_move_result [OF move form this] fill size show ?thesis
    by (intro exI [of _ dst] exI [of _ src] exI [of _ fill]) (simp add: exec_simps)
qed

subsection \<open>A concrete EXTRQ\<close>

text \<open>\<open>extrq xmm1, 12, 5\<close> and \<open>extrq xmm1, 0, 0\<close>.\<close>

definition sample_extrq :: sse4a_operands where
  "sample_extrq = \<lparr>s4_Insertq = False, s4_RegisterForm = False, s4_Destination = 1, s4_Source = 1, s4_Length = 12, s4_Index = 5\<rparr>"

definition sample_extrq_full :: sse4a_operands where
  "sample_extrq_full = \<lparr>s4_Insertq = False, s4_RegisterForm = False, s4_Destination = 1, s4_Source = 1, s4_Length = 64, s4_Index = 0\<rparr>"

lemma sample_extrq_decodes: "DecodeSse4a [0x66, 0x0F, 0x78, 0xC1, 12, 5] = Inr sample_extrq"
  by code_simp

lemma sample_extrq_full_decodes: "DecodeSse4a [0x66, 0x0F, 0x78, 0xC1, 0, 0] = Inr sample_extrq_full"
  by code_simp

lemma sample_extrq_in_place: "LowerInPlace sample_extrq_full 6 = Some [0xF3, 0x0F, 0x7E, 0xC9, 0x66, 0x90]"
  by code_simp

lemma sse4a_lowering_correct_witness:
  "\<exists>cs. sse4a_calls sample_extrq = Inr cs \<and>
    exec (\<lambda>_. 0) cs (\<lambda>_. 0xABCDEF, []) =
      Some ((\<lambda>_. 0xABCDEF)(s4_Destination sample_extrq := join64 (sse4a_result sample_extrq (\<lambda>_. 0xABCDEF)) 0), [])"
  by (rule sse4a_lowering_correct [OF sample_extrq_decodes])

lemma sse4a_in_place_correct_witness:
  "\<exists>dst src fill. length [0xF3, 0x0F, 0x7E, 0xC9, 0x66, 0x90 :: u8] = 6 \<and>
    [0xF3, 0x0F, 0x7E, 0xC9, 0x66, 0x90] = EmitSse [] kPrefixScalar [0x0F, 0x7E] dst src @ fill \<and> nop_bytes fill \<and>
    exec (\<lambda>_. 0) [CallSse kPrefixScalar [0x0F, 0x7E] dst src] (\<lambda>_. 0xABCDEF, []) =
      Some ((\<lambda>_. 0xABCDEF)(s4_Destination sample_extrq_full := join64 (sse4a_result sample_extrq_full (\<lambda>_. 0xABCDEF)) 0), [])"
  by (rule sse4a_in_place_correct [OF sample_extrq_full_decodes sample_extrq_in_place])

end
