(* ===== verification/X64_Sha_Correct.thy ===== *)
theory X64_Sha_Correct
  imports Xmm_Semantics
begin

text \<open>
  The stubs that replace the SHA instructions compute them: run on any register contents, the calls of
  \<open>Sha256Lowering\<close> and \<open>Sha1Lowering\<close> leave in the destination what the processor manual defines with the
  functions of the SHA standard (FIPS 180-4), and every other register as it was.
\<close>

subsection \<open>More about lanes\<close>

definition map32 :: "(u32 \<Rightarrow> u32) \<Rightarrow> xmm \<Rightarrow> xmm" where
  "map32 f x = join32 (f (lane32 0 x)) (f (lane32 1 x)) (f (lane32 2 x)) (f (lane32 3 x))"

lemma lane32_map32 [simp]:
  "lane32 0 (map32 f x) = f (lane32 0 x)" "lane32 (Suc 0) (map32 f x) = f (lane32 1 x)"
  "lane32 2 (map32 f x) = f (lane32 2 x)" "lane32 3 (map32 f x) = f (lane32 3 x)"
  by (simp_all add: map32_def)

lemma lane32_lanes32 [simp]:
  "lane32 0 (lanes32 f x y) = f (lane32 0 x) (lane32 0 y)" "lane32 (Suc 0) (lanes32 f x y) = f (lane32 1 x) (lane32 1 y)"
  "lane32 2 (lanes32 f x y) = f (lane32 2 x) (lane32 2 y)" "lane32 3 (lanes32 f x y) = f (lane32 3 x) (lane32 3 y)"
  by (simp_all add: lanes32_def)

lemma lane32_zero [simp]: "lane32 i 0 = 0"
  by (simp add: lane32_def)

lemma lane32_beyond [simp]: "4 \<le> i \<Longrightarrow> lane32 i x = 0"
  by (rule bit_word_eqI) (auto simp: bit_lane32 dest: bit_imp_le_length)

lemma lane32_drop [simp]:
  "lane32 0 (drop_bit 32 x) = lane32 (Suc 0) x" "lane32 (Suc 0) (drop_bit 32 x) = lane32 2 x"
  "lane32 2 (drop_bit 32 x) = lane32 3 x" "lane32 3 (drop_bit 32 x) = 0"
  "lane32 0 (drop_bit 64 x) = lane32 2 x" "lane32 (Suc 0) (drop_bit 64 x) = lane32 3 x"
  "lane32 2 (drop_bit 64 x) = 0" "lane32 3 (drop_bit 64 x) = 0"
  "lane32 0 (drop_bit 96 x) = lane32 3 x" "lane32 (Suc 0) (drop_bit 96 x) = 0"
  "lane32 2 (drop_bit 96 x) = 0" "lane32 3 (drop_bit 96 x) = 0"
  by (rule bit_word_eqI; auto simp: bit_lane32 bit_simps algebra_simps dest: bit_imp_le_length)+

lemma lane32_push [simp]:
  "lane32 0 (push_bit 32 x) = 0" "lane32 (Suc 0) (push_bit 32 x) = lane32 0 x"
  "lane32 2 (push_bit 32 x) = lane32 1 x" "lane32 3 (push_bit 32 x) = lane32 2 x"
  "lane32 0 (push_bit 64 x) = 0" "lane32 (Suc 0) (push_bit 64 x) = 0"
  "lane32 2 (push_bit 64 x) = lane32 0 x" "lane32 3 (push_bit 64 x) = lane32 1 x"
  "lane32 0 (push_bit 96 x) = 0" "lane32 (Suc 0) (push_bit 96 x) = 0"
  "lane32 2 (push_bit 96 x) = 0" "lane32 3 (push_bit 96 x) = lane32 0 x"
  by (rule bit_word_eqI; auto simp: bit_lane32 bit_simps algebra_simps)+

lemma lane32_join64_lane64 [simp]:
  "lane32 0 (join64 (lane64 0 x) b) = lane32 0 x" "lane32 (Suc 0) (join64 (lane64 0 x) b) = lane32 1 x"
  "lane32 0 (join64 (lane64 (Suc 0) x) b) = lane32 2 x" "lane32 (Suc 0) (join64 (lane64 (Suc 0) x) b) = lane32 3 x"
  "lane32 2 (join64 a (lane64 0 y)) = lane32 0 y" "lane32 3 (join64 a (lane64 0 y)) = lane32 1 y"
  by (rule bit_word_eqI; auto simp: bit_lane32 bit_lane64 join64_def bit_simps algebra_simps dest: bit_imp_le_length)+

subsection \<open>The functions of the SHA standard\<close>

definition rotr32 :: "nat \<Rightarrow> u32 \<Rightarrow> u32" where
  "rotr32 n x = drop_bit n x OR push_bit (32 - n) x"

definition Ch :: "u32 \<Rightarrow> u32 \<Rightarrow> u32 \<Rightarrow> u32" where
  "Ch x y z = (x AND y) XOR (NOT x AND z)"

definition Maj :: "u32 \<Rightarrow> u32 \<Rightarrow> u32 \<Rightarrow> u32" where
  "Maj x y z = (x AND y) XOR (x AND z) XOR (y AND z)"

definition bigSigma0 :: "u32 \<Rightarrow> u32" where
  "bigSigma0 x = rotr32 2 x XOR rotr32 13 x XOR rotr32 22 x"

definition bigSigma1 :: "u32 \<Rightarrow> u32" where
  "bigSigma1 x = rotr32 6 x XOR rotr32 11 x XOR rotr32 25 x"

definition smallSigma0 :: "u32 \<Rightarrow> u32" where
  "smallSigma0 x = rotr32 7 x XOR rotr32 18 x XOR drop_bit 3 x"

definition smallSigma1 :: "u32 \<Rightarrow> u32" where
  "smallSigma1 x = rotr32 17 x XOR rotr32 19 x XOR drop_bit 10 x"

subsection \<open>SHA-256 instructions of the manual\<close>

type_synonym sha256_state = "u32 \<times> u32 \<times> u32 \<times> u32 \<times> u32 \<times> u32 \<times> u32 \<times> u32"

fun sha256_step :: "u32 \<Rightarrow> sha256_state \<Rightarrow> sha256_state" where
  "sha256_step wk (a, b, c, d, e, f, g, h) =
     (let t1 = h + bigSigma1 e + Ch e f g + wk
      in (t1 + bigSigma0 a + Maj a b c, a, b, c, d + t1, e, f, g))"

definition sha256rnds2 :: "xmm \<Rightarrow> xmm \<Rightarrow> xmm \<Rightarrow> xmm" where
  "sha256rnds2 dst src keys =
     (case sha256_step (lane32 1 keys) (sha256_step (lane32 0 keys)
        (lane32 3 src, lane32 2 src, lane32 3 dst, lane32 2 dst, lane32 1 src, lane32 0 src, lane32 1 dst, lane32 0 dst))
      of (a, b, c, d, e, f, g, h) \<Rightarrow> join32 f e b a)"

definition sha256msg1 :: "xmm \<Rightarrow> xmm \<Rightarrow> xmm" where
  "sha256msg1 dst src =
     join32 (lane32 0 dst + smallSigma0 (lane32 1 dst)) (lane32 1 dst + smallSigma0 (lane32 2 dst))
       (lane32 2 dst + smallSigma0 (lane32 3 dst)) (lane32 3 dst + smallSigma0 (lane32 0 src))"

definition sha256msg2 :: "xmm \<Rightarrow> xmm \<Rightarrow> xmm" where
  "sha256msg2 dst src =
     (let w16 = lane32 0 dst + smallSigma1 (lane32 2 src); w17 = lane32 1 dst + smallSigma1 (lane32 3 src);
          w18 = lane32 2 dst + smallSigma1 w16; w19 = lane32 3 dst + smallSigma1 w17
      in join32 w16 w17 w18 w19)"

definition sha256_result :: "sha256_operation \<Rightarrow> xmm \<Rightarrow> xmm \<Rightarrow> xmm \<Rightarrow> xmm" where
  "sha256_result operation dst src keys =
     (case operation of
        Sha256Rnds2 \<Rightarrow> sha256rnds2 dst src keys
      | Sha256Msg1 \<Rightarrow> sha256msg1 dst src
      | Sha256Msg2 \<Rightarrow> sha256msg2 dst src)"

subsection \<open>The blocks of the lowering\<close>

lemmas exec_rules = set_reg_def sse_result_def sse_imm_result_def shift_result_def shift_dword_result_def

lemma psrld_pslld_lanes:
  "lane32 0 (psrld x n) = drop_bit n (lane32 0 x)" "lane32 (Suc 0) (psrld x n) = drop_bit n (lane32 (Suc 0) x)"
  "lane32 2 (psrld x n) = drop_bit n (lane32 2 x)" "lane32 3 (psrld x n) = drop_bit n (lane32 3 x)"
  "lane32 0 (pslld x n) = push_bit n (lane32 0 x)" "lane32 (Suc 0) (pslld x n) = push_bit n (lane32 (Suc 0) x)"
  "lane32 2 (pslld x n) = push_bit n (lane32 2 x)" "lane32 3 (pslld x n) = push_bit n (lane32 3 x)"
  by (simp_all add: psrld_def pslld_def)

lemma rotr32_xor: "n + m = 32 \<Longrightarrow> rotr32 n x = drop_bit n x XOR push_bit m x"
proof (rule bit_word_eqI)
  fix k
  assume nm: "n + m = 32" and "k < LENGTH(32)"
  have m: "32 - n = m" using nm by simp
  have "\<not> bit x (n + k)" if "m \<le> k"
    using that nm bit_imp_le_length [of x "n + k"] by auto
  then show "bit (rotr32 n x) k \<longleftrightarrow> bit (drop_bit n x XOR push_bit m x) k"
    by (auto simp: rotr32_def m bit_simps)
qed

lemma sigma_words:
  "((((drop_bit 2 x XOR push_bit 30 x) XOR drop_bit 13 x) XOR push_bit 19 x) XOR drop_bit 22 x) XOR push_bit 10 x = bigSigma0 x"
  "((((drop_bit 6 x XOR push_bit 26 x) XOR drop_bit 11 x) XOR push_bit 21 x) XOR drop_bit 25 x) XOR push_bit 7 x = bigSigma1 x"
  "(((drop_bit 7 x XOR push_bit 25 x) XOR drop_bit 18 x) XOR push_bit 14 x) XOR drop_bit 3 x = smallSigma0 x"
  "(((drop_bit 17 x XOR push_bit 15 x) XOR drop_bit 19 x) XOR push_bit 13 x) XOR drop_bit 10 x = smallSigma1 x"
  using rotr32_xor [of 2 30 x] rotr32_xor [of 13 19 x] rotr32_xor [of 22 10 x]
    rotr32_xor [of 6 26 x] rotr32_xor [of 11 21 x] rotr32_xor [of 25 7 x]
    rotr32_xor [of 7 25 x] rotr32_xor [of 18 14 x] rotr32_xor [of 17 15 x] rotr32_xor [of 19 13 x]
  by (simp_all add: bigSigma0_def bigSigma1_def smallSigma0_def smallSigma1_def xor.assoc)

lemma xmm_sigma:
  "((((psrld x 2 XOR pslld x 30) XOR psrld x 13) XOR pslld x 19) XOR psrld x 22) XOR pslld x 10 = map32 bigSigma0 x"
  "((((psrld x 6 XOR pslld x 26) XOR psrld x 11) XOR pslld x 21) XOR psrld x 25) XOR pslld x 7 = map32 bigSigma1 x"
  "(((psrld x 7 XOR pslld x 25) XOR psrld x 18) XOR pslld x 14) XOR psrld x 3 = map32 smallSigma0 x"
  "(((psrld x 17 XOR pslld x 15) XOR psrld x 19) XOR pslld x 13) XOR psrld x 10 = map32 smallSigma1 x"
  by (rule xmm_eqI32; simp add: psrld_pslld_lanes sigma_words)+

lemma sigma_exec:
  assumes "out \<noteq> v" "out \<noteq> tmp" "v \<noteq> tmp"
  shows "exec ld (bigSigma0_calls out v tmp @ cs) (R, st) =
      exec ld cs (R(out := map32 bigSigma0 (R v), tmp := pslld (R v) 10), st)"
    and "exec ld (bigSigma1_calls out v tmp @ cs) (R, st) =
      exec ld cs (R(out := map32 bigSigma1 (R v), tmp := pslld (R v) 7), st)"
    and "exec ld (smallSigma0_calls out v tmp @ cs) (R, st) =
      exec ld cs (R(out := map32 smallSigma0 (R v), tmp := psrld (R v) 3), st)"
    and "exec ld (smallSigma1_calls out v tmp @ cs) (R, st) =
      exec ld cs (R(out := map32 smallSigma1 (R v), tmp := psrld (R v) 10), st)"
  using assms assms [symmetric] xmm_sigma
  by (simp_all add: sha256_parts exec_rules fun_upd_twist [of tmp out] xmm_sigma)

definition xch :: "xmm \<Rightarrow> xmm \<Rightarrow> xmm \<Rightarrow> xmm" where
  "xch e f g = ((f XOR g) AND e) XOR g"

definition xmaj :: "xmm \<Rightarrow> xmm \<Rightarrow> xmm \<Rightarrow> xmm" where
  "xmaj x y z = ((y XOR z) AND x) XOR (y AND z)"

lemma choose_exec:
  "out \<noteq> e \<Longrightarrow> out \<noteq> g \<Longrightarrow> exec ld (choose_calls out e f g @ cs) (R, st) = exec ld cs (R(out := xch (R e) (R f) (R g)), st)"
  by (auto simp: choose_calls_def exec_rules xch_def)

lemma majority_exec:
  "distinct [x, y, z, tmp] \<Longrightarrow> exec ld (majority_calls x y z tmp @ cs) (R, st) =
     exec ld cs (R(y := xmaj (R x) (R y) (R z), tmp := R y AND R z), st)"
  by (auto simp: majority_calls_def exec_rules xmaj_def fun_upd_twist)

lemma lane_xch: "lane32 i (xch e f g) = Ch (lane32 i e) (lane32 i f) (lane32 i g)"
  by (rule bit_word_eqI) (auto simp: xch_def Ch_def bit_simps)

lemma lane_xmaj: "lane32 i (xmaj x y z) = Maj (lane32 i x) (lane32 i y) (lane32 i z)"
  by (rule bit_word_eqI) (auto simp: xmaj_def Maj_def bit_simps)


lemma shuffle_exec:
  "exec ld (shuffle_lane dst src imm # cs) (R, st) = exec ld cs (R(dst := pshufd (R src) imm), st)"
  by (simp add: exec_rules)

lemma lane_pshufd:
  "lane32 0 (pshufd x 0) = lane32 0 x" "lane32 0 (pshufd x 1) = lane32 1 x"
  "lane32 0 (pshufd x 2) = lane32 2 x" "lane32 0 (pshufd x 3) = lane32 3 x"
  by (simp_all add: pshufd_def)

lemma sha256_rounds_body_exec:
  assumes "distinct [a, t2, e, g, t1, x, tmp, e1]" and "{a, t2, e, g, t1, x, tmp, e1} \<inter> {dst, src, 0} = {}"
  shows "\<exists>R'. exec ld (sha256_rounds_body dst src a t2 e g t1 x tmp e1) (R, st) = Some (R', st) \<and>
    R' dst = sha256rnds2 (R dst) (R src) (R 0) \<and>
    (\<forall>r. r \<notin> {dst, a, t2, e, g, t1, x, tmp, e1} \<longrightarrow> R' r = R r)"
proof -
  have ne: "a \<noteq> t2" "a \<noteq> e" "a \<noteq> g" "a \<noteq> t1" "a \<noteq> x" "a \<noteq> tmp" "a \<noteq> e1"
    "t2 \<noteq> e" "t2 \<noteq> g" "t2 \<noteq> t1" "t2 \<noteq> x" "t2 \<noteq> tmp" "t2 \<noteq> e1"
    "e \<noteq> g" "e \<noteq> t1" "e \<noteq> x" "e \<noteq> tmp" "e \<noteq> e1" "g \<noteq> t1" "g \<noteq> x" "g \<noteq> tmp" "g \<noteq> e1"
    "t1 \<noteq> x" "t1 \<noteq> tmp" "t1 \<noteq> e1" "x \<noteq> tmp" "x \<noteq> e1" "tmp \<noteq> e1"
    "dst \<noteq> a" "dst \<noteq> t2" "dst \<noteq> e" "dst \<noteq> g" "dst \<noteq> t1" "dst \<noteq> x" "dst \<noteq> tmp" "dst \<noteq> e1"
    "src \<noteq> a" "src \<noteq> t2" "src \<noteq> e" "src \<noteq> g" "src \<noteq> t1" "src \<noteq> x" "src \<noteq> tmp" "src \<noteq> e1"
    "0 \<noteq> a" "0 \<noteq> t2" "0 \<noteq> e" "0 \<noteq> g" "0 \<noteq> t1" "0 \<noteq> x" "0 \<noteq> tmp" "0 \<noteq> e1"
    using assms by auto
  show ?thesis
    unfolding sha256_rounds_body_def
    by (simp add: ne ne [symmetric] sigma_exec choose_exec majority_exec exec_rules fun_upd_twist)
      (rule xmm_eqI32; simp add: sha256rnds2_def lane_xch lane_xmaj lane_pshufd Let_def ac_simps)
qed

lemma sha256_rounds_exec:
  "exec ld (sha256_rounds_calls dst src) (R, st) = Some (R(dst := sha256rnds2 (R dst) (R src) (R 0)), st)"
proof -
  note r = scratch_regs [of 8 "[dst, src, kRoundKeys]", folded sha256_scratch_def]
  then obtain a t2 e g t1 x tmp e1 where s: "sha256_scratch 8 dst src = [a, t2, e, g, t1, x, tmp, e1]"
    by (auto simp: length_Suc_conv eval_nat_numeral)
  have d: "distinct [a, t2, e, g, t1, x, tmp, e1]" and f: "{a, t2, e, g, t1, x, tmp, e1} \<inter> {dst, src, 0} = {}"
    using r(2,3) by (simp_all add: s)
  from sha256_rounds_body_exec [OF d f, of ld R "rev (map R [a, t2, e, g, t1, x, tmp, e1]) @ st"]
  obtain R' where R': "exec ld (sha256_rounds_body dst src a t2 e g t1 x tmp e1) (R, rev (map R [a, t2, e, g, t1, x, tmp, e1]) @ st)
      = Some (R', rev (map R [a, t2, e, g, t1, x, tmp, e1]) @ st)"
    and dst: "R' dst = sha256rnds2 (R dst) (R src) (R 0)"
    and other: "\<forall>r. r \<notin> {dst, a, t2, e, g, t1, x, tmp, e1} \<longrightarrow> R' r = R r"
    by blast
  have "(\<lambda>r. if r \<in> set [a, t2, e, g, t1, x, tmp, e1] then R r else R' r) = R(dst := sha256rnds2 (R dst) (R src) (R 0))"
    using dst other f by (intro ext) auto
  then show ?thesis
    unfolding sha256_rounds_calls_def Let_def s using exec_saving [OF R'] by (simp add: eval_nat_numeral)
qed

lemma sha256_three:
  obtains s0 s1 s2 where "sha256_scratch 3 dst src = [s0, s1, s2]" "distinct [s0, s1, s2]"
    "{s0, s1, s2} \<inter> {dst, src} = {}"
proof -
  note r = scratch_regs [of 3 "[dst, src, kRoundKeys]", folded sha256_scratch_def]
  then obtain s0 s1 s2 where s: "sha256_scratch 3 dst src = [s0, s1, s2]"
    by (auto simp: length_Suc_conv eval_nat_numeral)
  show thesis by (rule that [OF s]) (use r(2,3) in \<open>auto simp: s\<close>)
qed

lemma smallSigma1_zero: "smallSigma1 0 = 0"
  by (simp add: smallSigma1_def rotr32_def)

lemma sha256_message1_exec:
  "exec ld (sha256_message1_calls dst src) (R, st) = Some (R(dst := sha256msg1 (R dst) (R src)), st)"
proof -
  obtain s0 s1 s2 where s: "sha256_scratch 3 dst src = [s0, s1, s2]" "distinct [s0, s1, s2]" "{s0, s1, s2} \<inter> {dst, src} = {}"
    by (rule sha256_three)
  then have ne: "s0 \<noteq> s1" "s0 \<noteq> s2" "s1 \<noteq> s2" "dst \<noteq> s0" "dst \<noteq> s1" "dst \<noteq> s2" "src \<noteq> s0" "src \<noteq> s1" "src \<noteq> s2"
    by auto
  have result: "lanes32 (+) d (map32 smallSigma0 (drop_bit 32 d OR push_bit 96 v)) = sha256msg1 d v" for d v
    by (rule xmm_eqI32) (simp_all add: sha256msg1_def)
  show ?thesis
    unfolding sha256_message1_calls_def Let_def s(1) saving_def
    by (simp add: ne ne [symmetric] sigma_exec exec_rules result) (auto simp: fun_eq_iff ne)
qed

lemma sha256_message2_exec:
  "exec ld (sha256_message2_calls dst src) (R, st) = Some (R(dst := sha256msg2 (R dst) (R src)), st)"
proof -
  obtain s0 s1 s2 where s: "sha256_scratch 3 dst src = [s0, s1, s2]" "distinct [s0, s1, s2]" "{s0, s1, s2} \<inter> {dst, src} = {}"
    by (rule sha256_three)
  then have ne: "s0 \<noteq> s1" "s0 \<noteq> s2" "s1 \<noteq> s2" "dst \<noteq> s0" "dst \<noteq> s1" "dst \<noteq> s2" "src \<noteq> s0" "src \<noteq> s1" "src \<noteq> s2"
    by auto
  have result: "lanes32 (+) (lanes32 (+) d (map32 smallSigma1 (drop_bit 64 v)))
      (map32 smallSigma1 (push_bit 64 (lanes32 (+) d (map32 smallSigma1 (drop_bit 64 v))))) = sha256msg2 d v" for d v
    by (rule xmm_eqI32) (simp_all add: sha256msg2_def Let_def smallSigma1_zero)
  show ?thesis
    unfolding sha256_message2_calls_def Let_def s(1) saving_def
    by (simp add: ne ne [symmetric] sigma_exec exec_rules result) (auto simp: fun_eq_iff ne)
qed

lemma sha256_register_exec:
  "exec ld (sha256_register_calls operation dst src) (R, st) =
     Some (R(dst := sha256_result operation (R dst) (R src) (R 0)), st)"
  by (cases operation)
    (simp_all add: sha256_register_calls_def sha256_result_def sha256_rounds_exec sha256_message1_exec sha256_message2_exec)

definition sha256_source :: "(memory_operand \<Rightarrow> xmm) \<Rightarrow> sha256_operands \<Rightarrow> (u8 \<Rightarrow> xmm) \<Rightarrow> xmm" where
  "sha256_source ld operands R =
     (case s2_Memory operands of None \<Rightarrow> R (s2_Source operands) | Some m \<Rightarrow> ld m)"

lemma sha256_exec:
  assumes "sha256_calls operands = Inr cs"
  shows "exec ld cs (R, st) = Some (R(s2_Destination operands :=
    sha256_result (s2_Operation operands) (R (s2_Destination operands)) (sha256_source ld operands R) (R 0)), st)"
proof (cases "s2_Memory operands")
  case None
  then show ?thesis using assms by (auto simp: sha256_calls_def sha256_register_exec sha256_source_def)
next
  case (Some m)
  note r = scratch_regs [of 1 "[s2_Destination operands, s2_Destination operands, kRoundKeys]", folded sha256_scratch_def]
  then obtain s0 where s: "sha256_scratch 1 (s2_Destination operands) (s2_Destination operands) = [s0]"
    by (auto simp: length_Suc_conv)
  have ne: "s0 \<noteq> s2_Destination operands" "s0 \<noteq> 0" using r(3) unfolding s by auto
  show ?thesis
    using assms Some s ne
    by (auto simp: sha256_calls_def Let_def exec_append sha256_register_exec sha256_source_def fun_eq_iff)
qed


subsection \<open>SHA-1 instructions of the manual\<close>

definition rotl32 :: "nat \<Rightarrow> u32 \<Rightarrow> u32" where
  "rotl32 n x = push_bit n x OR drop_bit (32 - n) x"

definition sha1_f :: "u8 \<Rightarrow> u32 \<Rightarrow> u32 \<Rightarrow> u32 \<Rightarrow> u32" where
  "sha1_f f b c d = (if f = 0 then Ch b c d else if f = 2 then Maj b c d else b XOR c XOR d)"

definition sha1_k :: "u8 \<Rightarrow> u32" where
  "sha1_k f = (if f = 0 then 0x5A827999 else if f = 1 then 0x6ED9EBA1 else if f = 2 then 0x8F1BBCDC else 0xCA62C1D6)"

fun sha1_step :: "u8 \<Rightarrow> u32 \<Rightarrow> u32 \<times> u32 \<times> u32 \<times> u32 \<times> u32 \<Rightarrow> u32 \<times> u32 \<times> u32 \<times> u32 \<times> u32" where
  "sha1_step f w (a, b, c, d, e) = (sha1_f f b c d + rotl32 5 a + w + e + sha1_k f, a, rotl32 30 b, c, d)"

definition sha1rnds4 :: "u8 \<Rightarrow> xmm \<Rightarrow> xmm \<Rightarrow> xmm" where
  "sha1rnds4 f dst src =
     (case sha1_step f (lane32 0 src) (sha1_step f (lane32 1 src) (sha1_step f (lane32 2 src) (sha1_step f (lane32 3 src)
        (lane32 3 dst, lane32 2 dst, lane32 1 dst, lane32 0 dst, 0))))
      of (a, b, c, d, e) \<Rightarrow> join32 d c b a)"

definition sha1nexte :: "xmm \<Rightarrow> xmm \<Rightarrow> xmm" where
  "sha1nexte dst src = join32 (lane32 0 src) (lane32 1 src) (lane32 2 src) (lane32 3 src + rotl32 30 (lane32 3 dst))"

definition sha1msg1 :: "xmm \<Rightarrow> xmm \<Rightarrow> xmm" where
  "sha1msg1 dst src = join32 (lane32 0 dst XOR lane32 2 src) (lane32 1 dst XOR lane32 3 src)
     (lane32 2 dst XOR lane32 0 dst) (lane32 3 dst XOR lane32 1 dst)"

definition sha1msg2 :: "xmm \<Rightarrow> xmm \<Rightarrow> xmm" where
  "sha1msg2 dst src =
     (let w16 = rotl32 1 (lane32 3 dst XOR lane32 2 src); w17 = rotl32 1 (lane32 2 dst XOR lane32 1 src);
          w18 = rotl32 1 (lane32 1 dst XOR lane32 0 src); w19 = rotl32 1 (lane32 0 dst XOR w16)
      in join32 w19 w18 w17 w16)"

definition sha1_result :: "sha1_operation \<Rightarrow> u8 \<Rightarrow> xmm \<Rightarrow> xmm \<Rightarrow> xmm" where
  "sha1_result operation f dst src =
     (case operation of
        Sha1Rnds4 \<Rightarrow> sha1rnds4 f dst src
      | Sha1Nexte \<Rightarrow> sha1nexte dst src
      | Sha1Msg1 \<Rightarrow> sha1msg1 dst src
      | Sha1Msg2 \<Rightarrow> sha1msg2 dst src)"

lemma rotate_exec:
  assumes "reg \<noteq> tmp"
  shows "exec ld (rotate_calls reg tmp 5 @ cs) (R, st) =
      exec ld cs (R(reg := map32 (rotl32 5) (R reg), tmp := pslld (R reg) 5), st)"
    and "exec ld (rotate_calls reg tmp 30 @ cs) (R, st) =
      exec ld cs (R(reg := map32 (rotl32 30) (R reg), tmp := pslld (R reg) 30), st)"
    and "exec ld (rotate_calls reg tmp 1 @ cs) (R, st) =
      exec ld cs (R(reg := map32 (rotl32 1) (R reg), tmp := pslld (R reg) 1), st)"
proof -
  have "psrld x 27 OR pslld x 5 = map32 (rotl32 5) x" "psrld x 2 OR pslld x 30 = map32 (rotl32 30) x"
    "psrld x 31 OR pslld x 1 = map32 (rotl32 1) x" for x
    by (rule xmm_eqI32; simp add: psrld_pslld_lanes rotl32_def or.commute)+
  then show "exec ld (rotate_calls reg tmp 5 @ cs) (R, st) =
      exec ld cs (R(reg := map32 (rotl32 5) (R reg), tmp := pslld (R reg) 5), st)"
    "exec ld (rotate_calls reg tmp 30 @ cs) (R, st) =
      exec ld cs (R(reg := map32 (rotl32 30) (R reg), tmp := pslld (R reg) 30), st)"
    "exec ld (rotate_calls reg tmp 1 @ cs) (R, st) =
      exec ld cs (R(reg := map32 (rotl32 1) (R reg), tmp := pslld (R reg) 1), st)"
    using assms by (simp_all add: rotate_calls_def exec_rules fun_upd_twist [of tmp reg])
qed

definition xf :: "u8 \<Rightarrow> xmm \<Rightarrow> xmm \<Rightarrow> xmm \<Rightarrow> xmm" where
  "xf f b c d = (if f = 0 then xch b c d else if f = 2 then (b AND c) OR ((b OR c) AND d) else (b XOR c) XOR d)"

lemma function_exec:
  "distinct [out, b, c, d, tmp] \<Longrightarrow> exec ld (function_calls f out b c d tmp @ cs) (R, st) =
     exec ld cs (R(out := xf f (R b) (R c) (R d), tmp := if f = 2 then (R b OR R c) AND R d else R tmp), st)"
  by (auto simp: function_calls_def exec_rules xf_def xch_def fun_upd_twist)

lemma lane_xf: "lane32 i (xf f b c d) = sha1_f f (lane32 i b) (lane32 i c) (lane32 i d)"
proof -
  have "lane32 i ((b AND c) OR ((b OR c) AND d)) = Maj (lane32 i b) (lane32 i c) (lane32 i d)"
    by (rule bit_word_eqI) (auto simp: Maj_def bit_simps)
  then show ?thesis by (simp add: xf_def sha1_f_def lane_xch xor.assoc)
qed


lemma lane_roundConstant:
  assumes "f < 4" and "i < 4"
  shows "lane32 i (bytes_xmm (roundConstant f)) = sha1_k f"
proof -
  have "f \<in> {0, 1, 2, 3}" and "i \<in> {0, 1, 2, 3}"
    using assms by (auto simp: word_less_nat_alt word_unat_eq_iff)
  moreover have "\<forall>f \<in> {0, 1, 2, 3}. \<forall>i \<in> {0, 1, 2, 3}. lane32 i (bytes_xmm (roundConstant f)) = sha1_k f"
    by code_simp
  ultimately show ?thesis by blast
qed


lemma sha1_rounds_body_exec:
  assumes "distinct [a, b, c, d, e, t, u]" and "{a, b, c, d, e, t, u} \<inter> {dst, src} = {}" and "f < 4"
    and "R a = pshufd D 3" "R b = pshufd D 2" "R c = pshufd D 1" "R d = pshufd D 0" "R e = 0"
  shows "\<exists>R'. exec ld (sha1_rounds_body f dst src t u (a, b, c, d, e)) (R, st) = Some (R', st) \<and>
    R' dst = sha1rnds4 f D (R src) \<and> (\<forall>r. r \<notin> {dst, a, b, c, d, e, t, u} \<longrightarrow> R' r = R r)"
proof -
  have ne: "a \<noteq> b" "a \<noteq> c" "a \<noteq> d" "a \<noteq> e" "a \<noteq> t" "a \<noteq> u" "b \<noteq> c" "b \<noteq> d" "b \<noteq> e" "b \<noteq> t" "b \<noteq> u"
    "c \<noteq> d" "c \<noteq> e" "c \<noteq> t" "c \<noteq> u" "d \<noteq> e" "d \<noteq> t" "d \<noteq> u" "e \<noteq> t" "e \<noteq> u" "t \<noteq> u"
    "dst \<noteq> a" "dst \<noteq> b" "dst \<noteq> c" "dst \<noteq> d" "dst \<noteq> e" "dst \<noteq> t" "dst \<noteq> u"
    "src \<noteq> a" "src \<noteq> b" "src \<noteq> c" "src \<noteq> d" "src \<noteq> e" "src \<noteq> t" "src \<noteq> u"
    using assms(1,2) by auto
  have k: "lane32 0 (bytes_xmm (roundConstant f)) = sha1_k f"
    using lane_roundConstant [OF assms(3), of 0] by simp
  show ?thesis
    unfolding sha1_rounds_body_def sha1_round_def Let_def rotate_state.simps prod.case append_assoc
    by (simp add: ne ne [symmetric] rotate_exec function_exec exec_rules fun_upd_twist assms(4-8))
      (rule xmm_eqI32; simp add: sha1rnds4_def lane_xf lane_pshufd k ac_simps)
qed


lemma upt_0_4: "[0..<4] = [0, 1, 2, 3]"
  by (simp add: upt_rec)

lemma sha1_rounds_exec:
  assumes "f < 4"
  shows "exec ld (sha1_rounds_calls f dst src) (R, st) = Some (R(dst := sha1rnds4 f (R dst) (R src)), st)"
proof -
  note r = scratch_regs [of 7 "[dst, src]", folded sha1_scratch_def]
  then obtain a b c d e t u where s: "sha1_scratch 7 dst src = [a, b, c, d, e, t, u]"
    by (auto simp: length_Suc_conv eval_nat_numeral)
  have dist: "distinct [a, b, c, d, e, t, u]" and f: "{a, b, c, d, e, t, u} \<inter> {dst, src} = {}"
    using r(2,3) by (simp_all add: s)
  let ?regs = "[a, b, c, d, e, t, u]"
  let ?R = "R(a := pshufd (R dst) 3, b := pshufd (R dst) 2, c := pshufd (R dst) 1, d := pshufd (R dst) 0, e := 0)"
  have ne: "dst \<notin> set ?regs" "src \<notin> set ?regs" using f by auto
  have nth: "?regs ! 0 = a" "?regs ! 1 = b" "?regs ! 2 = c" "?regs ! 3 = d" "?regs ! 4 = e" "?regs ! 5 = t" "?regs ! 6 = u"
    by simp_all
  have start: "exec ld (map (\<lambda>index. shuffle_lane (?regs ! index) dst (of_nat (3 - index))) [0..<4] @
      [packed kPxor e e] @ cs) (R, st') = exec ld cs (?R, st')" for cs st'
  proof -
    have shuffles: "map (\<lambda>index. shuffle_lane (?regs ! index) dst (of_nat (3 - index))) [0..<4] =
        [shuffle_lane a dst 3, shuffle_lane b dst 2, shuffle_lane c dst 1, shuffle_lane d dst 0]"
      by (simp add: upt_0_4)
    show ?thesis
      unfolding shuffles using dist ne by (simp add: exec_rules)
  qed
  from sha1_rounds_body_exec [OF dist f assms, of ?R "R dst" ld "rev (map R ?regs) @ st"] dist
  obtain R' where R': "exec ld (sha1_rounds_body f dst src t u (a, b, c, d, e)) (?R, rev (map R ?regs) @ st) =
      Some (R', rev (map R ?regs) @ st)"
    and dst: "R' dst = sha1rnds4 f (R dst) (?R src)"
    and other: "\<forall>r. r \<notin> {dst, a, b, c, d, e, t, u} \<longrightarrow> R' r = ?R r"
    by auto
  have "exec ld (map (\<lambda>index. shuffle_lane (?regs ! index) dst (of_nat (3 - index))) [0..<4] @ [packed kPxor e e] @
      sha1_rounds_body f dst src t u (a, b, c, d, e)) (R, rev (map R ?regs) @ st) = Some (R', rev (map R ?regs) @ st)"
    unfolding start by (rule R')
  note saved = exec_saving [OF this]
  have "(\<lambda>r. if r \<in> set ?regs then R r else R' r) = R(dst := sha1rnds4 f (R dst) (R src))"
    using dst other ne by (intro ext) auto
  then show ?thesis
    unfolding sha1_rounds_calls_def Let_def s nth saved by simp
qed

lemma sha1_two:
  obtains s0 s1 where "sha1_scratch 2 dst src = [s0, s1]" "s0 \<noteq> s1" "dst \<noteq> s0" "dst \<noteq> s1" "src \<noteq> s0" "src \<noteq> s1"
proof -
  note r = scratch_regs [of 2 "[dst, src]", folded sha1_scratch_def]
  then obtain s0 s1 where s: "sha1_scratch 2 dst src = [s0, s1]"
    by (auto simp: length_Suc_conv eval_nat_numeral)
  show thesis by (rule that [OF s]) (use r(2,3) in \<open>auto simp: s\<close>)
qed

lemma sha1_one:
  obtains s0 where "sha1_scratch 1 dst src = [s0]" "dst \<noteq> s0" "src \<noteq> s0"
proof -
  note r = scratch_regs [of 1 "[dst, src]", folded sha1_scratch_def]
  then obtain s0 where s: "sha1_scratch 1 dst src = [s0]"
    by (auto simp: length_Suc_conv)
  show thesis by (rule that [OF s]) (use r(3) in \<open>unfold s, auto\<close>)
qed

lemma rotl32_zero: "rotl32 n 0 = 0"
  by (simp add: rotl32_def)

lemma rotl32_1_xor: "rotl32 (Suc 0) (x XOR y) = rotl32 (Suc 0) x XOR rotl32 (Suc 0) y"
proof -
  have "rotl32 (Suc 0) v = drop_bit 31 v XOR push_bit (Suc 0) v" for v
    using rotr32_xor [of 31 1 v] by (simp add: rotl32_def rotr32_def or.commute)
  then show ?thesis by (simp only: push_bit_xor drop_bit_xor) (simp only: xor.assoc xor.left_commute)
qed

lemma sha1_next_exec:
  "exec ld (sha1_next_calls dst src) (R, st) = Some (R(dst := sha1nexte (R dst) (R src)), st)"
proof -
  obtain s0 s1 where s: "sha1_scratch 2 dst src = [s0, s1]" and ne: "s0 \<noteq> s1" "dst \<noteq> s0" "dst \<noteq> s1" "src \<noteq> s0" "src \<noteq> s1"
    by (rule sha1_two)
  have result: "lanes32 (+) v (push_bit 96 (drop_bit 96 (map32 (rotl32 30) d))) = sha1nexte d v" for d v
    by (rule xmm_eqI32) (simp_all add: sha1nexte_def)
  show ?thesis
    unfolding sha1_next_calls_def Let_def s saving_def
    by (simp add: ne ne [symmetric] rotate_exec exec_rules result) (auto simp: fun_eq_iff ne)
qed

lemma sha1_message1_exec:
  "exec ld (sha1_message1_calls dst src) (R, st) = Some (R(dst := sha1msg1 (R dst) (R src)), st)"
proof -
  obtain s0 where s: "sha1_scratch 1 dst src = [s0]" and ne: "dst \<noteq> s0" "src \<noteq> s0"
    by (rule sha1_one)
  have result: "d XOR shufpd v d 1 = sha1msg1 d v" for d v
    by (rule xmm_eqI32) (simp_all add: sha1msg1_def shufpd_def)
  show ?thesis
    unfolding sha1_message1_calls_def Let_def s saving_def
    by (simp add: ne ne [symmetric] exec_rules result) (auto simp: fun_eq_iff ne)
qed

lemma sha1_message2_exec:
  "exec ld (sha1_message2_calls dst src) (R, st) = Some (R(dst := sha1msg2 (R dst) (R src)), st)"
proof -
  obtain s0 s1 where s: "sha1_scratch 2 dst src = [s0, s1]" and ne: "s0 \<noteq> s1" "dst \<noteq> s0" "dst \<noteq> s1" "src \<noteq> s0" "src \<noteq> s1"
    by (rule sha1_two)
  have result: "map32 (rotl32 (Suc 0)) (d XOR push_bit 32 v) XOR
      map32 (rotl32 (Suc 0)) (drop_bit 96 (map32 (rotl32 (Suc 0)) (d XOR push_bit 32 v))) = sha1msg2 d v" for d v
    by (rule xmm_eqI32) (simp_all add: sha1msg2_def Let_def rotl32_zero rotl32_1_xor)
  show ?thesis
    unfolding sha1_message2_calls_def Let_def s saving_def
    by (simp add: ne ne [symmetric] rotate_exec exec_rules result) (auto simp: fun_eq_iff ne)
qed

lemma sha1_register_exec:
  "f < 4 \<Longrightarrow> exec ld (sha1_register_calls operation f dst src) (R, st) =
     Some (R(dst := sha1_result operation f (R dst) (R src)), st)"
  by (cases operation)
    (simp_all add: sha1_register_calls_def sha1_result_def sha1_rounds_exec sha1_next_exec sha1_message1_exec sha1_message2_exec)

definition sha1_source :: "(memory_operand \<Rightarrow> xmm) \<Rightarrow> sha1_operands \<Rightarrow> (u8 \<Rightarrow> xmm) \<Rightarrow> xmm" where
  "sha1_source ld operands R =
     (case s1_Memory operands of None \<Rightarrow> R (s1_Source operands) | Some m \<Rightarrow> ld m)"

lemma sha1_exec:
  assumes "sha1_calls operands = Inr cs" and "s1_Function operands < 4"
  shows "exec ld cs (R, st) = Some (R(s1_Destination operands :=
    sha1_result (s1_Operation operands) (s1_Function operands) (R (s1_Destination operands)) (sha1_source ld operands R)), st)"
proof (cases "s1_Memory operands")
  case None
  then show ?thesis using assms by (auto simp: sha1_calls_def sha1_register_exec sha1_source_def)
next
  case (Some m)
  obtain s0 where s: "sha1_scratch 1 (s1_Destination operands) (s1_Destination operands) = [s0]" and ne: "s1_Destination operands \<noteq> s0"
    by (rule sha1_one)
  show ?thesis
    using assms Some s ne
    by (auto simp: sha1_calls_def Let_def exec_append sha1_register_exec sha1_source_def fun_eq_iff)
qed

lemma and_3_less: "(x :: u8) AND 3 < 4"
  using word_and_le1 [of x 3] by (rule le_less_trans) simp

lemma DecodeSha1_function: "DecodeSha1 data = Inr operands \<Longrightarrow> s1_Function operands < 4"
  unfolding DecodeSha1_def by (auto simp: res_simps and_3_less split: if_splits)

subsection \<open>Properties\<close>

text \<open>
  C12: The stub for \<open>SHA256RNDS2\<close>, \<open>SHA256MSG1\<close> or \<open>SHA256MSG2\<close>, with a register or a memory operand, computes
  the instruction: from any register contents its calls run to the end, the destination holds the result
  of the instruction, and no other register has changed.
\<close>
theorem sha256_lowering_correct:
  "\<exists>cs. sha256_calls operands = Inr cs \<and> exec ld cs (R, st) = Some (R(s2_Destination operands :=
     sha256_result (s2_Operation operands) (R (s2_Destination operands)) (sha256_source ld operands R) (R 0)), st)"
proof -
  obtain cs where cs: "sha256_calls operands = Inr cs" by (simp add: sha256_calls_def)
  show ?thesis using sha256_exec [OF cs] cs by blast
qed

text \<open>
  C13: The stub for a decoded \<open>SHA1RNDS4\<close>, \<open>SHA1NEXTE\<close>, \<open>SHA1MSG1\<close> or \<open>SHA1MSG2\<close>, with a register or a memory
  operand and any of the four round functions, computes the instruction: its calls run to the end, the
  destination holds the result of the instruction, and no other register has changed.
\<close>
theorem sha1_lowering_correct:
  assumes "DecodeSha1 data = Inr operands"
  shows "\<exists>cs. sha1_calls operands = Inr cs \<and> exec ld cs (R, st) = Some (R(s1_Destination operands :=
    sha1_result (s1_Operation operands) (s1_Function operands) (R (s1_Destination operands)) (sha1_source ld operands R)), st)"
proof -
  obtain cs where cs: "sha1_calls operands = Inr cs" by (simp add: sha1_calls_def)
  show ?thesis using sha1_exec [OF cs DecodeSha1_function [OF assms]] cs by blast
qed

subsection \<open>A concrete SHA1RNDS4\<close>

text \<open>\<open>sha1rnds4 xmm1, xmm2, 2\<close>.\<close>

definition sample_sha1 :: sha1_operands where
  "sample_sha1 = \<lparr>s1_Operation = Sha1Rnds4, s1_Destination = 1, s1_Source = 2, s1_Function = 2, s1_Memory = None\<rparr>"

lemma sample_sha1_decodes: "DecodeSha1 [0x0F, 0x3A, 0xCC, 0xCA, 2] = Inr sample_sha1"
  by code_simp

lemma sha1_lowering_correct_witness:
  "\<exists>cs. sha1_calls sample_sha1 = Inr cs \<and> exec (\<lambda>_. 0) cs (\<lambda>_. 7, []) = Some ((\<lambda>_. 7)(s1_Destination sample_sha1 :=
    sha1_result (s1_Operation sample_sha1) (s1_Function sample_sha1) 7 (sha1_source (\<lambda>_. 0) sample_sha1 (\<lambda>_. 7))), [])"
  by (rule sha1_lowering_correct [OF sample_sha1_decodes])

end
