(* ===== verification/X64_Scalar_Lowering.thy ===== *)
theory X64_Scalar_Lowering
  imports X64_Operands
begin

text \<open>
  The lowerings of the BMI instructions (\<open>codegen/x86/ScalarLowering.hpp\<close> and the lowerings that include
  it, with \<open>MulxLowering.cpp\<close>): for each, the decoder of its operands and the calls its emitter makes.
  A lowering makes room below the red zone, saves the registers it borrows there, computes in a
  borrowed register, and writes the destination. The register array of \<open>UsedRegisters\<close> is a list of
  sixteen flags; a borrowed register is returned with the array in which it is marked. The lemmas show
  that a borrowed register is none of the registers in use, and that every lowering keeps the contract
  of \<open>stub_emitter\<close>.
\<close>

subsection \<open>Encoding helpers\<close>

abbreviation (input) FrameSize :: int where "FrameSize \<equiv> 144"
abbreviation (input) Stack :: u8 where "Stack \<equiv> 4"

definition LegacyPrefix :: "u8 \<Rightarrow> bool" where
  "LegacyPrefix b \<longleftrightarrow> b = 0x2E \<or> b = 0x36 \<or> b = 0x3E \<or> b = 0x26 \<or> b = 0x64 \<or> b = 0x65 \<or> b = 0x67"

definition Append32 :: "bytes \<Rightarrow> int \<Rightarrow> bytes" where
  "Append32 out v = out @ map (\<lambda>shift. ucast (drop_bit shift (word_of_int v :: u32))) [0, 8, 16, 24]"

definition Rex :: "bool \<Rightarrow> u8 \<Rightarrow> u8 \<Rightarrow> u8" where
  "Rex wide reg rm = 0x40 OR (if wide then 8 else 0) OR drop_bit 1 (reg AND 8) OR drop_bit 3 (rm AND 8)"

definition RegisterBytes :: "u8 \<Rightarrow> bool \<Rightarrow> u8 \<Rightarrow> u8 \<Rightarrow> bytes" where
  "RegisterBytes opc wide reg rm = [Rex wide reg rm, opc, 0xC0 OR push_bit 3 (reg AND 7) OR (rm AND 7)]"

definition StackBytes :: "u8 \<Rightarrow> bool \<Rightarrow> u8 \<Rightarrow> int \<Rightarrow> bytes" where
  "StackBytes opc wide reg displacement =
     Append32 [Rex wide reg Stack, opc, 0x84 OR push_bit 3 (reg AND 7), 0x24] displacement"

definition Register :: "u8 \<Rightarrow> bool \<Rightarrow> u8 \<Rightarrow> u8 \<Rightarrow> stub_call" where
  "Register opc wide reg rm = CallRaw (RegisterBytes opc wide reg rm)"

definition StackSlot :: "u8 \<Rightarrow> bool \<Rightarrow> u8 \<Rightarrow> int \<Rightarrow> stub_call" where
  "StackSlot opc wide reg displacement = CallRaw (StackBytes opc wide reg displacement)"

subsection \<open>Borrowed registers\<close>

text \<open>The registers that the address of a memory operand reads.\<close>

definition address_registers :: "memory_operand \<Rightarrow> u8 list" where
  "address_registers m =
     (if mo_Rm m = 4
      then let base = (mo_Sib m AND 7) OR push_bit 3 (mo_RexIndexBase m AND 1);
               index = (drop_bit 3 (mo_Sib m) AND 7) OR push_bit 2 (mo_RexIndexBase m AND 2)
           in (if mo_Mod m \<noteq> 0 \<or> mo_Sib m AND 7 \<noteq> 5 then [base] else []) @
              (if index \<noteq> Stack then [index] else [])
      else if \<not> mo_RipRelative m then [mo_Rm m OR push_bit 3 (mo_RexIndexBase m AND 1)]
      else [])"

definition mark :: "u8 \<Rightarrow> bool list \<Rightarrow> bool list" where
  "mark reg used = used[unat reg := True]"

definition use_register :: "u8 \<Rightarrow> bool list \<Rightarrow> bool list res" where
  "use_register reg used =
     (if unat reg \<ge> length used
      then Inl (CodegenError (''register index '' @ to_string (unat reg) @ '' is out of range''))
      else Inr (mark reg used))"

definition UsedRegisters :: "u8 list \<Rightarrow> memory_operand option \<Rightarrow> bool list res" where
  "UsedRegisters registers memory =
     bind_res (fold_res use_register registers (mark Stack (replicate 16 False))) (\<lambda>used. Inr
       (case memory of None \<Rightarrow> used | Some m \<Rightarrow> fold mark (address_registers m) used))"

definition scratch_order :: "nat list" where
  "scratch_order = [11, 10, 9, 8, 0, 1, 2, 3, 5, 6, 7, 12, 13, 14, 15]"

definition Scratch :: "bool list \<Rightarrow> string \<Rightarrow> (u8 \<times> bool list) res" where
  "Scratch used instruction =
     (case find (\<lambda>reg. \<not> used ! reg) scratch_order of
        None \<Rightarrow> Inl (CodegenError (instruction @ '' has no scratch register''))
      | Some reg \<Rightarrow> Inr (of_nat reg, used[reg := True]))"

subsection \<open>The memory operand with the stack pointer moved\<close>

definition operand_address32 :: "memory_operand \<Rightarrow> bool" where
  "operand_address32 m \<longleftrightarrow> 0x67 \<in> set (mo_Prefixes m)"

definition shifted_displacement :: "int \<Rightarrow> memory_operand \<Rightarrow> int" where
  "shifted_displacement frame m = mo_Displacement m + (if mo_StackBase m then frame else 0)"

definition shifted_mod :: "memory_operand \<Rightarrow> u8" where
  "shifted_mod m = (if mo_StackBase m then 2 else mo_Mod m)"

text \<open>The bytes up to the displacement, and those of the displacement.\<close>

definition memory_head :: "u8 \<Rightarrow> bool \<Rightarrow> memory_operand \<Rightarrow> u8 \<Rightarrow> bytes" where
  "memory_head opc wide m reg =
     mo_Prefixes m @ [Rex wide reg 0 OR mo_RexIndexBase m, opc,
       push_bit 6 (shifted_mod m) OR push_bit 3 (reg AND 7) OR mo_Rm m] @
     (if mo_Rm m = 4 then [mo_Sib m] else [])"

definition memory_displacement :: "int \<Rightarrow> memory_operand \<Rightarrow> bytes" where
  "memory_displacement frame m =
     (let md = shifted_mod m; displacement = shifted_displacement frame m
      in (if md = 1 then [word_of_int displacement] else []) @
         (if md = 2 \<or> md = 0 \<and> (mo_RipRelative m \<or> mo_Rm m = 4 \<and> mo_Sib m AND 7 = 5)
          then Append32 [] displacement else []))"

definition memory_call :: "bytes \<Rightarrow> int \<Rightarrow> memory_operand \<Rightarrow> stub_call" where
  "memory_call head frame m =
     (let code = head @ memory_displacement frame m
      in if mo_RipRelative m
         then CallRipRelative code (length head) (int (mo_InstructionLength m) + mo_Displacement m)
         else CallRaw code)"

definition displacement_fits :: "int \<Rightarrow> memory_operand \<Rightarrow> bool" where
  "displacement_fits frame m \<longleftrightarrow> operand_address32 m \<or> shifted_displacement frame m \<le> 2147483647"

definition Memory :: "u8 \<Rightarrow> bool \<Rightarrow> memory_operand \<Rightarrow> u8 \<Rightarrow> string \<Rightarrow> int \<Rightarrow> stub_call res" where
  "Memory opc wide m reg instruction frame =
     (if \<not> displacement_fits frame m
      then Inl (CodegenError (instruction @ '' stack displacement does not fit after spilling''))
      else Inr (memory_call (memory_head opc wide m reg) frame m))"

subsection \<open>The VEX prefix of the operand decoders\<close>

definition vex_offset :: "bytes \<Rightarrow> nat" where
  "vex_offset data = length (takeWhile LegacyPrefix data)"

definition vex_register :: "u8 \<Rightarrow> u8 \<Rightarrow> u8" where
  "vex_register modrm extensions = (drop_bit 3 modrm AND 7) OR drop_bit 4 (extensions AND 0x80)"

definition vex_operand :: "u8 \<Rightarrow> u8 \<Rightarrow> u8" where
  "vex_operand modrm extensions = (modrm AND 7) OR drop_bit 2 (extensions AND 0x20)"

definition vex_vvvv :: "u8 \<Rightarrow> u8" where
  "vex_vvvv b = drop_bit 3 (NOT b) AND 15"

definition vex_rex :: "u8 \<Rightarrow> u8" where
  "vex_rex extensions = drop_bit 5 (extensions AND 0x20) OR drop_bit 5 (extensions AND 0x40)"

text \<open>The operand in the last three bits of ModRM: the memory operand, if it is one, and where it ends.\<close>

definition vex_memory :: "bytes \<Rightarrow> nat \<Rightarrow> (memory_operand option \<times> nat) res" where
  "vex_memory data vex =
     (if drop_bit 6 (data ! (vex + 4)) = 3 then Inr (None, vex + 5)
      else bind_res (DecodeMemoryOperand data (vex + 4) (vex_rex (NOT (data ! (vex + 1)))) (take vex data))
        (\<lambda>m. Inr (Some m, vex + 4 + mo_EncodedSize m)))"

definition vex_source :: "bytes \<Rightarrow> nat \<Rightarrow> string \<Rightarrow> memory_operand option res" where
  "vex_source data vex name =
     bind_res (vex_memory data vex) (\<lambda>(memory, stop).
       if stop = length data then Inr memory
       else Inl (CodegenError (name @ (if memory = None then '' register operand has trailing bytes''
                                       else '' memory operand has trailing bytes''))))"

subsection \<open>ANDN\<close>

record andn_operands =
  an_Destination :: u8
  an_InvertedSource :: u8
  an_Source :: u8
  an_Wide :: bool
  an_Memory :: "memory_operand option"

definition DecodeAndn :: "bytes \<Rightarrow> andn_operands option res" where
  "DecodeAndn data =
     (let vex = vex_offset data
      in if vex + 5 > length data \<or> data ! vex \<noteq> 0xC4 \<or> data ! (vex + 1) AND 0x1F \<noteq> 2 \<or> data ! (vex + 3) \<noteq> 0xF2
         then Inr None
         else if data ! (vex + 2) AND 7 \<noteq> 0 then Inl (CodegenError ''ANDN requires VEX.L=0 and VEX.pp=0'')
         else
           let extensions = NOT (data ! (vex + 1)); modrm = data ! (vex + 4)
           in bind_res (vex_source data vex ''ANDN'') (\<lambda>memory. Inr (Some
                \<lparr>an_Destination = vex_register modrm extensions,
                 an_InvertedSource = vex_vvvv (data ! (vex + 2)),
                 an_Source = vex_operand modrm extensions,
                 an_Wide = (data ! (vex + 2) AND 0x80 \<noteq> 0),
                 an_Memory = memory\<rparr>)))"

definition andn_used :: "andn_operands \<Rightarrow> bool list res" where
  "andn_used operands =
     (if an_Memory operands \<noteq> None
      then UsedRegisters [an_Destination operands, an_InvertedSource operands] (an_Memory operands)
      else UsedRegisters [an_Destination operands, an_InvertedSource operands, an_Source operands] None)"

definition andn_source_call :: "andn_operands \<Rightarrow> u8 \<Rightarrow> stub_call res" where
  "andn_source_call operands scratch =
     (case an_Memory operands of
        Some m \<Rightarrow> Memory 0x23 (an_Wide operands) m scratch ''ANDN'' FrameSize
      | None \<Rightarrow> Inr (if an_Source operands = Stack then StackSlot 0x23 (an_Wide operands) scratch 8
                     else Register 0x23 (an_Wide operands) scratch (an_Source operands)))"

definition andn_calls :: "andn_operands \<Rightarrow> stub_call list res" where
  "andn_calls operands =
     bind_res (andn_used operands) (\<lambda>used. bind_res (Scratch used ''ANDN'') (\<lambda>(scratch, used).
     bind_res (andn_source_call operands scratch) (\<lambda>source. Inr (
       [StackSlot 0x8D True Stack (- FrameSize), StackSlot 0x89 True scratch 0] @
       (if an_Memory operands = None \<and> an_Source operands = Stack
        then [StackSlot 0x8D True scratch FrameSize, StackSlot 0x89 True scratch 8] else []) @
       [if an_InvertedSource operands = Stack then StackSlot 0x8D True scratch FrameSize
        else Register 0x8B (an_Wide operands) scratch (an_InvertedSource operands),
        Register 0xF7 (an_Wide operands) 2 scratch,
        source,
        if an_Destination operands = Stack then StackSlot 0x89 (an_Wide operands) scratch 8
        else Register 0x8B (an_Wide operands) (an_Destination operands) scratch,
        StackSlot 0x8B True scratch 0,
        StackSlot 0x8D True Stack FrameSize] @
       (if an_Destination operands = Stack
        then [StackSlot 0x8B (an_Wide operands) Stack (8 - FrameSize)] else [])))))"

subsection \<open>BLSR, BLSMSK and BLSI\<close>

datatype bls_operation = BlsReset | BlsMask | BlsIsolate

record bls_operands =
  bl_Operation :: bls_operation
  bl_Destination :: u8
  bl_Source :: u8
  bl_Wide :: bool
  bl_Memory :: "memory_operand option"

abbreviation (input) kSetCarry :: u8 where "kSetCarry \<equiv> 0xF9"

definition leaMinusOne :: "u8 \<Rightarrow> u8 \<Rightarrow> bytes" where
  "leaMinusOne destination base =
     [Rex True destination base, 0x8D, 0x40 OR push_bit 3 (destination AND 7) OR (base AND 7)] @
     (if base AND 7 = 4 then [0x24] else []) @ [0xFF]"

definition bls_nonzero :: "bls_operands \<Rightarrow> u8 \<Rightarrow> u8 \<Rightarrow> bytes" where
  "bls_nonzero operands result temporary =
     (case bl_Operation operands of
        BlsReset \<Rightarrow> leaMinusOne temporary result @ RegisterBytes 0x23 (bl_Wide operands) result temporary
      | BlsMask \<Rightarrow> leaMinusOne temporary result @ RegisterBytes 0x33 (bl_Wide operands) result temporary
      | BlsIsolate \<Rightarrow> RegisterBytes 0x8B (bl_Wide operands) temporary result @
          RegisterBytes 0xF7 (bl_Wide operands) 3 temporary @
          RegisterBytes 0x23 (bl_Wide operands) result temporary @ [kSetCarry])"

definition bls_zero :: "bls_operands \<Rightarrow> u8 \<Rightarrow> bytes" where
  "bls_zero operands result =
     (case bl_Operation operands of
        BlsReset \<Rightarrow> RegisterBytes 0x33 (bl_Wide operands) result result @ [kSetCarry]
      | BlsMask \<Rightarrow> RegisterBytes 0x83 (bl_Wide operands) 1 result @ [0xFF] @ [kSetCarry]
      | BlsIsolate \<Rightarrow> RegisterBytes 0x33 (bl_Wide operands) result result)"

definition BlsName :: "bls_operation \<Rightarrow> string" where
  "BlsName operation =
     (case operation of BlsReset \<Rightarrow> ''BLSR'' | BlsMask \<Rightarrow> ''BLSMSK'' | BlsIsolate \<Rightarrow> ''BLSI'')"

definition bls_of_extension :: "u8 \<Rightarrow> bls_operation" where
  "bls_of_extension extension = (if extension = 1 then BlsReset else if extension = 2 then BlsMask else BlsIsolate)"

definition DecodeBls :: "bytes \<Rightarrow> bls_operands option res" where
  "DecodeBls data =
     (let vex = vex_offset data
      in if vex + 5 > length data \<or> data ! vex \<noteq> 0xC4 \<or> data ! (vex + 1) AND 0x1F \<noteq> 2 \<or> data ! (vex + 3) \<noteq> 0xF3
         then Inr None
         else
           let modrm = data ! (vex + 4); extension = drop_bit 3 modrm AND 7
           in if extension < 1 \<or> extension > 3 then Inr None
              else if data ! (vex + 2) AND 7 \<noteq> 0
              then Inl (CodegenError (BlsName (bls_of_extension extension) @ '' requires VEX.L=0 and VEX.pp=0''))
              else bind_res (vex_source data vex (BlsName (bls_of_extension extension))) (\<lambda>memory. Inr (Some
                \<lparr>bl_Operation = bls_of_extension extension,
                 bl_Destination = vex_vvvv (data ! (vex + 2)),
                 bl_Source = vex_operand modrm (NOT (data ! (vex + 1))),
                 bl_Wide = (data ! (vex + 2) AND 0x80 \<noteq> 0),
                 bl_Memory = memory\<rparr>)))"

definition bls_used :: "bls_operands \<Rightarrow> bool list res" where
  "bls_used operands =
     (if bl_Memory operands \<noteq> None then UsedRegisters [bl_Destination operands] (bl_Memory operands)
      else UsedRegisters [bl_Destination operands, bl_Source operands] None)"

text \<open>Loading the source into the result register; the three lowerings that read one have the same code.\<close>

definition load_source_call ::
    "memory_operand option \<Rightarrow> u8 \<Rightarrow> bool \<Rightarrow> u8 \<Rightarrow> string \<Rightarrow> int \<Rightarrow> stub_call res" where
  "load_source_call memory source wide result name frame =
     (case memory of
        Some m \<Rightarrow> Memory 0x8B wide m result name frame
      | None \<Rightarrow> Inr (if source = Stack then StackSlot 0x8D True result frame
                     else Register 0x8B wide result source))"

definition bls_calls :: "bls_operands \<Rightarrow> stub_call list res" where
  "bls_calls operands =
     (let name = BlsName (bl_Operation operands); wide = bl_Wide operands
      in bind_res (bls_used operands) (\<lambda>used. bind_res (Scratch used name) (\<lambda>(result, used).
         bind_res (Scratch used name) (\<lambda>(temporary, used).
         bind_res (load_source_call (bl_Memory operands) (bl_Source operands) wide result name FrameSize) (\<lambda>source.
           let nonzero = bls_nonzero operands result temporary; zero = bls_zero operands result
           in Inr (
             [StackSlot 0x8D True Stack (- FrameSize),
              StackSlot 0x89 True result 0,
              StackSlot 0x89 True temporary 8,
              source,
              Register 0x85 wide result result,
              CallRaw [0x74, of_nat (length nonzero + 2)],
              CallRaw nonzero,
              CallRaw [0xEB, of_nat (length zero)],
              CallRaw zero,
              StackSlot 0x8B True temporary 8,
              if bl_Destination operands = Stack then StackSlot 0x89 wide result 8
              else Register 0x8B wide (bl_Destination operands) result,
              StackSlot 0x8B True result 0,
              if bl_Destination operands = Stack then StackSlot 0x8B wide Stack 8
              else StackSlot 0x8D True Stack FrameSize]))))))"

subsection \<open>SHLX, SHRX, SARX and RORX\<close>

datatype shift_operation = ShiftLeft | LogicalRight | ArithmeticRight | RotateRight

record shift_operands =
  sh_Operation :: shift_operation
  sh_Destination :: u8
  sh_Source :: u8
  sh_Count :: u8
  sh_Wide :: bool
  sh_Memory :: "memory_operand option"

abbreviation (input) kCountRegister :: u8 where "kCountRegister \<equiv> 1"
abbreviation (input) kResultSlot :: int where "kResultSlot \<equiv> 0"
abbreviation (input) kCountSlot :: int where "kCountSlot \<equiv> 8"
abbreviation (input) kFlagsSlot :: int where "kFlagsSlot \<equiv> 16"
abbreviation (input) kStackResultSlot :: int where "kStackResultSlot \<equiv> 24"
abbreviation (input) kPushFlags :: u8 where "kPushFlags \<equiv> 0x9C"
abbreviation (input) kPopFlags :: u8 where "kPopFlags \<equiv> 0x9D"
abbreviation (input) kFrame :: int where "kFrame \<equiv> FrameSize + 16"

definition shiftDigit :: "shift_operation \<Rightarrow> u8" where
  "shiftDigit operation =
     (case operation of ShiftLeft \<Rightarrow> 4 | LogicalRight \<Rightarrow> 5 | ArithmeticRight \<Rightarrow> 7 | RotateRight \<Rightarrow> 1)"

definition ShiftName :: "shift_operation \<Rightarrow> string" where
  "ShiftName operation =
     (case operation of ShiftLeft \<Rightarrow> ''SHLX'' | LogicalRight \<Rightarrow> ''SHRX'' | ArithmeticRight \<Rightarrow> ''SARX''
      | RotateRight \<Rightarrow> ''RORX'')"

definition shift_opcode :: "u8 \<Rightarrow> u8 \<Rightarrow> u8 \<Rightarrow> shift_operation option" where
  "shift_opcode opmap pp opc =
     (if opmap = 2 \<and> opc = 0xF7 \<and> pp \<noteq> 0
      then Some (if pp = 1 then ShiftLeft else if pp = 2 then ArithmeticRight else LogicalRight)
      else if opmap = 3 \<and> opc = 0xF0 \<and> pp = 3 then Some RotateRight
      else None)"

text \<open>The immediate of \<open>RORX\<close> behind the operand, and the end of the instruction.\<close>

definition shift_count :: "bytes \<Rightarrow> shift_operation \<Rightarrow> u8 \<Rightarrow> nat \<Rightarrow> u8 res" where
  "shift_count data operation vvvv stop =
     (if operation = RotateRight \<and> stop \<ge> length data
      then Inl (CodegenError ''RORX is missing its immediate'')
      else if (if operation = RotateRight then stop + 1 else stop) \<noteq> length data
      then Inl (CodegenError (ShiftName operation @ '' has trailing bytes''))
      else Inr (if operation = RotateRight then data ! stop else vvvv))"

definition DecodeShift :: "bytes \<Rightarrow> shift_operands option res" where
  "DecodeShift data =
     (let vex = vex_offset data
      in if vex + 5 > length data \<or> data ! vex \<noteq> 0xC4 then Inr None
         else case shift_opcode (data ! (vex + 1) AND 0x1F) (data ! (vex + 2) AND 3) (data ! (vex + 3)) of
           None \<Rightarrow> Inr None
         | Some operation \<Rightarrow>
             if data ! (vex + 2) AND 4 \<noteq> 0 then Inl (CodegenError (ShiftName operation @ '' requires VEX.L=0''))
             else
               let extensions = NOT (data ! (vex + 1)); modrm = data ! (vex + 4); vvvv = vex_vvvv (data ! (vex + 2))
               in if operation = RotateRight \<and> vvvv \<noteq> 0
                  then Inl (CodegenError ''RORX requires VEX.vvvv=1111'')
                  else bind_res (vex_memory data vex) (\<lambda>(memory, stop).
                       bind_res (shift_count data operation vvvv stop) (\<lambda>count. Inr (Some
                         \<lparr>sh_Operation = operation,
                          sh_Destination = vex_register modrm extensions,
                          sh_Source = vex_operand modrm extensions,
                          sh_Count = count,
                          sh_Wide = (data ! (vex + 2) AND 0x80 \<noteq> 0),
                          sh_Memory = memory\<rparr>))))"

definition shift_used :: "shift_operands \<Rightarrow> bool list res" where
  "shift_used operands =
     (if sh_Operation operands = RotateRight
      then if sh_Memory operands \<noteq> None then UsedRegisters [sh_Destination operands] (sh_Memory operands)
           else UsedRegisters [sh_Destination operands, sh_Source operands] None
      else if sh_Memory operands \<noteq> None
           then UsedRegisters [sh_Destination operands, sh_Count operands, kCountRegister] (sh_Memory operands)
           else UsedRegisters [sh_Destination operands, sh_Source operands, sh_Count operands, kCountRegister] None)"

definition shift_calls :: "shift_operands \<Rightarrow> stub_call list res" where
  "shift_calls operands =
     (let name = ShiftName (sh_Operation operands); wide = sh_Wide operands;
          rotate = (sh_Operation operands = RotateRight); digit = shiftDigit (sh_Operation operands)
      in bind_res (shift_used operands) (\<lambda>used. bind_res (Scratch used name) (\<lambda>(result, used).
         bind_res (load_source_call (sh_Memory operands) (sh_Source operands) wide result name kFrame) (\<lambda>source. Inr (
           [StackSlot 0x8D True Stack (- kFrame), StackSlot 0x89 True result kResultSlot] @
           (if \<not> rotate then [StackSlot 0x89 True kCountRegister kCountSlot] else []) @
           [CallRaw [kPushFlags], StackSlot 0x8F False 0 kFlagsSlot, source] @
           (if rotate then [Register 0xC1 wide digit result, CallRaw [sh_Count operands]]
            else (if sh_Count operands = Stack then [StackSlot 0x8D True kCountRegister kFrame]
                  else if sh_Count operands \<noteq> kCountRegister
                  then [Register 0x8B True kCountRegister (sh_Count operands)] else []) @
                 [Register 0xD3 wide digit result]) @
           [if sh_Destination operands = Stack then StackSlot 0x89 wide result kStackResultSlot
            else if \<not> rotate \<and> sh_Destination operands = kCountRegister then StackSlot 0x89 True result kCountSlot
            else Register 0x8B wide (sh_Destination operands) result,
            StackSlot 0xFF False 6 kFlagsSlot,
            CallRaw [kPopFlags]] @
           (if \<not> rotate then [StackSlot 0x8B True kCountRegister kCountSlot] else []) @
           [StackSlot 0x8B True result kResultSlot,
            if sh_Destination operands = Stack then StackSlot 0x8B wide Stack kStackResultSlot
            else StackSlot 0x8D True Stack kFrame])))))"

subsection \<open>BZHI and BEXTR\<close>

datatype bitfield_operation = BitfieldZeroHigh | BitfieldExtract

record bitfield_operands =
  bf_Operation :: bitfield_operation
  bf_Destination :: u8
  bf_Source :: u8
  bf_Control :: u8
  bf_Wide :: bool
  bf_Memory :: "memory_operand option"

abbreviation (input) kControlRegister :: u8 where "kControlRegister \<equiv> 1"
abbreviation (input) kControlSlot :: int where "kControlSlot \<equiv> 8"
abbreviation (input) kMaskSlot :: int where "kMaskSlot \<equiv> 16"
abbreviation (input) kJumpBelow :: u8 where "kJumpBelow \<equiv> 0x72"
abbreviation (input) kJumpAboveOrEqual :: u8 where "kJumpAboveOrEqual \<equiv> 0x73"
abbreviation (input) kJump :: u8 where "kJump \<equiv> 0xEB"

definition bitfield_bits :: "bitfield_operands \<Rightarrow> u8" where
  "bitfield_bits operands = (if bf_Wide operands then 64 else 32)"

definition compareControlByte :: "u8 \<Rightarrow> u8 \<Rightarrow> bytes" where
  "compareControlByte rm bits = [0x80, 0xF8 OR rm, bits]"

definition lowMask :: "bitfield_operands \<Rightarrow> u8 \<Rightarrow> bytes" where
  "lowMask operands msk = RegisterBytes 0xD3 (bf_Wide operands) 4 msk @ RegisterBytes 0xF7 (bf_Wide operands) 2 msk"

definition zeroHigh_calls :: "bitfield_operands \<Rightarrow> u8 \<Rightarrow> u8 \<Rightarrow> stub_call list" where
  "zeroHigh_calls operands result msk =
     (let wide = bf_Wide operands;
          high = (if wide then [] else RegisterBytes 0x8B False result result) @
                 RegisterBytes 0x85 wide result result @ [kSetCarry];
          low = lowMask operands msk @ RegisterBytes 0x21 wide msk result
      in [CallRaw (compareControlByte kControlRegister (bitfield_bits operands)),
          CallRaw [kJumpBelow, of_nat (length high + 2)],
          CallRaw high,
          CallRaw [kJump, of_nat (length low)],
          CallRaw low])"

definition extract_calls :: "bitfield_operands \<Rightarrow> u8 \<Rightarrow> u8 \<Rightarrow> stub_call list" where
  "extract_calls operands result msk =
     (let wide = bf_Wide operands; bits = bitfield_bits operands;
          len = [0x88, 0xE9] @ lowMask operands msk;
          zero = RegisterBytes 0x31 wide result result;
          shifted = RegisterBytes 0xD3 wide 5 result @ compareControlByte 5 bits @
                    [kJumpAboveOrEqual, of_nat (length len + 2 + length zero)] @ len @
                    [kJump, of_nat (length zero)]
      in [CallRaw (compareControlByte kControlRegister bits),
          CallRaw [kJumpAboveOrEqual, of_nat (length shifted)],
          CallRaw shifted,
          CallRaw zero,
          Register 0x21 wide msk result])"

definition BitfieldName :: "bitfield_operation \<Rightarrow> string" where
  "BitfieldName operation = (case operation of BitfieldZeroHigh \<Rightarrow> ''BZHI'' | BitfieldExtract \<Rightarrow> ''BEXTR'')"

definition DecodeBitfield :: "bytes \<Rightarrow> bitfield_operands option res" where
  "DecodeBitfield data =
     (let vex = vex_offset data
      in if vex + 5 > length data \<or> data ! vex \<noteq> 0xC4 \<or> data ! (vex + 1) AND 0x1F \<noteq> 2 \<or> data ! (vex + 2) AND 3 \<noteq> 0
         then Inr None
         else if data ! (vex + 3) \<noteq> 0xF5 \<and> data ! (vex + 3) \<noteq> 0xF7 then Inr None
         else
           let operation = if data ! (vex + 3) = 0xF5 then BitfieldZeroHigh else BitfieldExtract
           in if data ! (vex + 2) AND 4 \<noteq> 0
              then Inl (CodegenError (BitfieldName operation @ '' requires VEX.L=0''))
              else
                let extensions = NOT (data ! (vex + 1)); modrm = data ! (vex + 4)
                in bind_res (vex_memory data vex) (\<lambda>(memory, stop).
                     if stop \<noteq> length data
                     then Inl (CodegenError (BitfieldName operation @ '' has trailing bytes''))
                     else Inr (Some
                       \<lparr>bf_Operation = operation,
                        bf_Destination = vex_register modrm extensions,
                        bf_Source = vex_operand modrm extensions,
                        bf_Control = vex_vvvv (data ! (vex + 2)),
                        bf_Wide = (data ! (vex + 2) AND 0x80 \<noteq> 0),
                        bf_Memory = memory\<rparr>)))"

definition bitfield_used :: "bitfield_operands \<Rightarrow> bool list res" where
  "bitfield_used operands =
     (if bf_Memory operands \<noteq> None
      then UsedRegisters [bf_Destination operands, bf_Control operands, kControlRegister] (bf_Memory operands)
      else UsedRegisters [bf_Destination operands, bf_Source operands, bf_Control operands, kControlRegister] None)"

definition bitfield_calls :: "bitfield_operands \<Rightarrow> stub_call list res" where
  "bitfield_calls operands =
     (let name = BitfieldName (bf_Operation operands); wide = bf_Wide operands
      in bind_res (bitfield_used operands) (\<lambda>used. bind_res (Scratch used name) (\<lambda>(result, used).
         bind_res (Scratch used name) (\<lambda>(msk, used).
         bind_res (load_source_call (bf_Memory operands) (bf_Source operands) wide result name kFrame) (\<lambda>source. Inr (
           [StackSlot 0x8D True Stack (- kFrame),
            StackSlot 0x89 True result kResultSlot,
            StackSlot 0x89 True kControlRegister kControlSlot,
            StackSlot 0x89 True msk kMaskSlot,
            source] @
           (if bf_Control operands = Stack then [StackSlot 0x8D True kControlRegister kFrame]
            else if bf_Control operands \<noteq> kControlRegister
            then [Register 0x8B True kControlRegister (bf_Control operands)] else []) @
           [CallRaw (Append32 (RegisterBytes 0xC7 wide 0 msk) (- 1))] @
           (if bf_Operation operands = BitfieldZeroHigh then zeroHigh_calls operands result msk
            else extract_calls operands result msk) @
           [if bf_Destination operands = Stack then StackSlot 0x89 wide result kStackResultSlot
            else if bf_Destination operands = kControlRegister then StackSlot 0x89 True result kControlSlot
            else Register 0x8B wide (bf_Destination operands) result,
            StackSlot 0x8B True msk kMaskSlot,
            StackSlot 0x8B True kControlRegister kControlSlot,
            StackSlot 0x8B True result kResultSlot,
            if bf_Destination operands = Stack then StackSlot 0x8B wide Stack kStackResultSlot
            else StackSlot 0x8D True Stack kFrame]))))))"

subsection \<open>MULX\<close>

record mulx_operands =
  mu_HighDestination :: u8
  mu_LowDestination :: u8
  mu_Source :: u8
  mu_Wide :: bool
  mu_Memory :: "memory_operand option"

abbreviation (input) kFrameSize :: int where "kFrameSize \<equiv> 192"
abbreviation (input) kStack :: u8 where "kStack \<equiv> 4"

text \<open>The file has its own copies of the encoding helpers, with the code of the shared ones.\<close>

definition mulx_source_call :: "mulx_operands \<Rightarrow> stub_call res" where
  "mulx_source_call operands =
     (case mu_Memory operands of
        None \<Rightarrow> Inr (if mu_Source operands = kStack then StackSlot 0x8D (mu_Wide operands) 0 kFrameSize
                     else CallRaw [Rex (mu_Wide operands) 0 (mu_Source operands), 0x8B,
                                   0xC0 OR (mu_Source operands AND 7)])
      | Some m \<Rightarrow> Memory 0x8B (mu_Wide operands) m 0 ''MULX'' kFrameSize)"

definition DecodeMulx :: "bytes \<Rightarrow> mulx_operands option res" where
  "DecodeMulx data =
     (let vex = vex_offset data
      in if vex + 5 > length data \<or> data ! vex \<noteq> 0xC4 \<or> data ! (vex + 1) AND 0x1F \<noteq> 2 \<or> data ! (vex + 3) \<noteq> 0xF6 \<or>
            data ! (vex + 2) AND 3 \<noteq> 3
         then Inr None
         else if data ! (vex + 2) AND 4 \<noteq> 0 then Inl (CodegenError ''MULX requires VEX.L=0'')
         else
           let extensions = NOT (data ! (vex + 1)); modrm = data ! (vex + 4)
           in bind_res (vex_source data vex ''MULX'') (\<lambda>memory. Inr (Some
                \<lparr>mu_HighDestination = vex_register modrm extensions,
                 mu_LowDestination = vex_vvvv (data ! (vex + 2)),
                 mu_Source = vex_operand modrm extensions,
                 mu_Wide = (data ! (vex + 2) AND 0x80 \<noteq> 0),
                 mu_Memory = memory\<rparr>)))"

definition mulx_overlaps :: "bool \<Rightarrow> memory_operand \<Rightarrow> bool" where
  "mulx_overlaps wide m \<longleftrightarrow>
     mo_StackBase m \<and> mo_Sib m AND 0x38 = 0x20 \<and> mo_RexIndexBase m AND 2 = 0 \<and>
     mo_Displacement m < 24 - kFrameSize \<and> mo_Displacement m + (if wide then 8 else 4) > - kFrameSize"

definition mulx_calls :: "mulx_operands \<Rightarrow> stub_call list res" where
  "mulx_calls operands =
     (let wide = mu_Wide operands; high = mu_HighDestination operands; low = mu_LowDestination operands
      in if (case mu_Memory operands of None \<Rightarrow> False | Some m \<Rightarrow> mulx_overlaps wide m)
         then Inl (CodegenError ''MULX source overlaps its spill frame'')
         else bind_res (mulx_source_call operands) (\<lambda>source. Inr (
           [StackSlot 0x8D True kStack (8 - kFrameSize),
            CallRaw [0x9C],
            StackSlot 0x89 True 0 8,
            StackSlot 0x89 True 2 16,
            source,
            CallRaw [Rex wide 0 2, 0xF7, 0xE2],
            StackSlot 0x89 True 0 24,
            StackSlot 0x89 True 2 32,
            StackSlot 0x8B True 0 8,
            StackSlot 0x8B True 2 16] @
           (if low \<noteq> kStack then [StackSlot 0x8B wide low 24] else []) @
           (if high \<noteq> kStack then [StackSlot 0x8B wide high 32] else []) @
           [CallRaw [0x9D],
            StackSlot 0x8D True kStack (kFrameSize - 8)] @
           (if high = kStack \<or> low = kStack
            then [StackSlot 0x8B wide kStack ((if high = kStack then 32 else 24) - kFrameSize)] else []))))"

subsection \<open>Masked vector stores\<close>

record masked_store_operands =
  ms_Name :: string
  ms_ElementSize :: u8
  ms_Wide :: bool
  ms_Mask :: u8
  ms_Memory :: memory_operand
  ms_Instruction :: bytes
  ms_DisplacementOffset :: nat

abbreviation (input) masked_frame :: int where "masked_frame \<equiv> 128 + 3 * 8"

definition masked_address_call :: "memory_operand \<Rightarrow> stub_call res" where
  "masked_address_call m = Memory 0x8D True m 0 ''Masked store'' masked_frame"

definition masked_store_name :: "u8 \<Rightarrow> bool \<Rightarrow> (string \<times> u8) option" where
  "masked_store_name opc w =
     (if opc = 0x2E \<and> \<not> w then Some (''VMASKMOVPS'', 4)
      else if opc = 0x2F \<and> \<not> w then Some (''VMASKMOVPD'', 8)
      else if opc = 0x8E then Some (if w then ''VPMASKMOVQ'' else ''VPMASKMOVD'', if w then 8 else 4)
      else None)"

definition DecodeMaskedStore :: "bytes \<Rightarrow> masked_store_operands option res" where
  "DecodeMaskedStore data =
     (let vex = vex_offset data
      in if vex + 5 > length data \<or> data ! vex \<noteq> 0xC4 \<or> data ! (vex + 1) AND 0x1F \<noteq> 2 \<or>
            data ! (vex + 2) AND 3 \<noteq> 1 \<or> drop_bit 6 (data ! (vex + 4)) = 3
         then Inr None
         else case masked_store_name (data ! (vex + 3)) (data ! (vex + 2) AND 0x80 \<noteq> 0) of
           None \<Rightarrow> Inr None
         | Some (name, elementSize) \<Rightarrow>
             bind_res (DecodeMemoryOperand data (vex + 4) (vex_rex (NOT (data ! (vex + 1)))) (take vex data)) (\<lambda>m.
               if vex + 4 + mo_EncodedSize m \<noteq> length data
               then Inl (CodegenError ''Masked store memory operand has trailing bytes'')
               else Inr (Some
                 \<lparr>ms_Name = name, ms_ElementSize = elementSize,
                  ms_Wide = (data ! (vex + 2) AND 4 \<noteq> 0),
                  ms_Mask = vex_vvvv (data ! (vex + 2)),
                  ms_Memory = m,
                  ms_Instruction = data,
                  ms_DisplacementOffset = vex + 5 + (if mo_Rm m = 4 then 1 else 0)\<rparr>)))"

text \<open>One element: a locked no-op on its first and on its last byte, skipped when its mask bit is clear.\<close>

definition masked_probes :: "bytes \<Rightarrow> nat \<Rightarrow> nat \<Rightarrow> bytes" where
  "masked_probes prefixes elementSize element =
     concat (map (\<lambda>offset. prefixes @ [0xF0, 0x80, 0x48, of_nat offset, 0x00])
       [element * elementSize, element * elementSize + elementSize - 1])"

definition masked_element_calls :: "bytes \<Rightarrow> nat \<Rightarrow> nat \<Rightarrow> stub_call list" where
  "masked_element_calls prefixes elementSize element =
     (let probes = masked_probes prefixes elementSize element
      in [CallRaw [0xF6, 0xC1, push_bit element 1, 0x74, of_nat (length probes)], CallRaw probes])"

definition masked_store_calls :: "masked_store_operands \<Rightarrow> stub_call list res" where
  "masked_store_calls operands =
     (let m = ms_Memory operands; elementSize = unat (ms_ElementSize operands);
          elements = (if ms_Wide operands then 32 else 16) div elementSize
      in bind_res (masked_address_call m) (\<lambda>address. Inr (
           [CallRaw [0x48, 0x8D, 0x64, 0x24, 0x80, 0x9C, 0x50, 0x51],
            address,
            CallRaw [0xC4, if ms_Mask operands \<ge> 8 then 0xC1 else 0xE1,
              0x78 OR (if ms_Wide operands then 4 else 0) OR (if ms_ElementSize operands = 8 then 1 else 0), 0x50,
              0xC8 OR (ms_Mask operands AND 7)]] @
           concat (map (masked_element_calls (mo_Prefixes m) elementSize) [0..<elements]) @
           [CallRaw [0x59, 0x58, 0x9D, 0x48, 0x8D, 0xA4, 0x24, 0x80, 0x00, 0x00, 0x00],
            if mo_RipRelative m
            then CallRipRelative (ms_Instruction operands) (ms_DisplacementOffset operands)
                   (int (mo_InstructionLength m) + mo_Displacement m)
            else CallRaw (ms_Instruction operands)])))"

subsection \<open>Wide stores and scalar compares\<close>

definition half_call :: "wide_store_half \<Rightarrow> stub_call" where
  "half_call half =
     (case wh_RipDisplacementOffset half of
        Some offset \<Rightarrow> CallRipRelative (wh_Bytes half) offset (wh_RipTarget half)
      | None \<Rightarrow> CallRaw (wh_Bytes half))"

definition wide_store_calls :: "wide_store_operands \<Rightarrow> stub_call list res" where
  "wide_store_calls operands = Inr [half_call (ws_Low operands), half_call (ws_High operands)]"

definition scalar_compare_calls :: "bytes \<times> scalar_compare_operands \<Rightarrow> stub_call list res" where
  "scalar_compare_calls p =
     (case p of (instruction, operands) \<Rightarrow> Inr
       [case sc_RipDisplacementOffset operands of
          Some offset \<Rightarrow> CallRipRelative instruction offset (sc_RipTarget operands)
        | None \<Rightarrow> CallRaw instruction])"

subsection \<open>Lowerings that only emit code\<close>

text \<open>None of these lowerings spills a vector register or refers to a constant.\<close>

fun plain_call :: "stub_call \<Rightarrow> bool" where
  "plain_call (CallRaw code) \<longleftrightarrow> True"
| "plain_call (CallRipRelative instruction off target) \<longleftrightarrow> True"
| "plain_call _ \<longleftrightarrow> False"

lemma plain_call_simps [simp]:
  "plain_call (Register opc wide reg rm)" "plain_call (StackSlot opc wide reg displacement)"
  "plain_call (memory_call head frame m)" "plain_call (half_call half)"
  by (simp_all add: Register_def StackSlot_def memory_call_def half_call_def Let_def split: option.split)

lemma plain_Memory: "Memory opc wide m reg name frame = Inr c \<Longrightarrow> plain_call c"
  by (auto simp: Memory_def split: if_splits)

lemma plain_load_source: "load_source_call memory source wide result name frame = Inr c \<Longrightarrow> plain_call c"
  by (auto simp: load_source_call_def dest: plain_Memory split: option.splits if_splits)

lemma plain_calls_ok: "list_all plain_call cs \<Longrightarrow> list_all call_ok cs"
  by (induction cs) (auto elim: plain_call.elims)

lemma plain_calls_neutral: "list_all plain_call cs \<Longrightarrow> neutral cs"
  by (auto simp: neutral_def list_all_iff)

locale plain_emitter =
  fixes calls :: "'a \<Rightarrow> stub_call list res"
  assumes calls_plain: "calls operands = Inr cs \<Longrightarrow> list_all plain_call cs"
begin

lemma emit_plain: "calls operands = Inr cs \<Longrightarrow> neutral cs \<and> list_all call_ok cs"
  by (simp add: calls_plain plain_calls_ok plain_calls_neutral)

end

sublocale plain_emitter \<subseteq> stub_emitter calls
  by unfold_locales (simp_all add: emit_plain spill_stack_neutral)

lemma plain_andn_source: "andn_source_call operands scratch = Inr c \<Longrightarrow> plain_call c"
  by (auto simp: andn_source_call_def dest: plain_Memory split: option.splits if_splits)

interpretation andn: plain_emitter andn_calls
  by unfold_locales (auto simp: andn_calls_def res_simps dest: plain_andn_source split: prod.splits)

interpretation bls: plain_emitter bls_calls
  by unfold_locales (auto simp: bls_calls_def Let_def res_simps dest: plain_load_source split: prod.splits)

interpretation shift: plain_emitter shift_calls
  by unfold_locales (auto simp: shift_calls_def Let_def res_simps dest: plain_load_source split: prod.splits)

interpretation bitfield: plain_emitter bitfield_calls
  by unfold_locales
    (auto simp: bitfield_calls_def zeroHigh_calls_def extract_calls_def Let_def res_simps
      dest: plain_load_source split: prod.splits)

interpretation mulx: plain_emitter mulx_calls
  by unfold_locales
    (auto simp: mulx_calls_def mulx_source_call_def Let_def res_simps dest: plain_Memory split: option.splits if_splits)

interpretation masked: plain_emitter masked_store_calls
  by unfold_locales
    (auto simp: masked_store_calls_def masked_address_call_def masked_element_calls_def Let_def res_simps list_all_iff
      dest: plain_Memory)

interpretation wide_store: plain_emitter wide_store_calls
  by unfold_locales (auto simp: wide_store_calls_def)

interpretation scalar_compare: plain_emitter scalar_compare_calls
  by unfold_locales (auto simp: scalar_compare_calls_def split: option.splits)

subsection \<open>Borrowed registers are free\<close>

lemma length_mark [simp]: "length (mark reg used) = length used"
  by (simp add: mark_def)

lemma length_fold_mark [simp]: "length (fold mark regs used) = length used"
  by (induction regs arbitrary: used) auto

lemma mark_mono: "used ! i \<Longrightarrow> mark reg used ! i"
  by (cases "unat reg < length used") (auto simp: mark_def nth_list_update list_update_beyond)

lemma mark_marks: "unat reg < length used \<Longrightarrow> mark reg used ! unat reg"
  by (simp add: mark_def)

lemma fold_mark_mono: "used ! i \<Longrightarrow> fold mark regs used ! i"
  by (induction regs arbitrary: used) (auto simp: mark_mono)

lemma fold_mark_marks: "reg \<in> set regs \<Longrightarrow> unat reg < length used \<Longrightarrow> fold mark regs used ! unat reg"
  by (induction regs arbitrary: used) (auto simp: fold_mark_mono mark_marks)

lemma use_registers:
  "fold_res use_register regs used = Inr used' \<longleftrightarrow> (\<forall>r \<in> set regs. unat r < length used) \<and> used' = fold mark regs used"
  by (induction regs arbitrary: used) (auto simp: use_register_def res_simps)

text \<open>What is left of the array: the stack pointer, the operands and the registers of the address are marked.\<close>

lemma UsedRegisters_Inr:
  "UsedRegisters regs memory = Inr used \<longleftrightarrow>
   (\<forall>r \<in> set regs. unat r < 16) \<and>
   used = fold mark (Stack # regs @ (case memory of None \<Rightarrow> [] | Some m \<Rightarrow> address_registers m)) (replicate 16 False)"
  by (auto simp: UsedRegisters_def res_simps use_registers split: option.splits)

lemma Scratch_Inr:
  assumes "Scratch used name = Inr (r, used')" and "length used = 16"
  shows "r < 16 \<and> \<not> used ! unat r \<and> used' = mark r used"
proof -
  from assms(1) obtain i where i: "find (\<lambda>reg. \<not> used ! reg) scratch_order = Some i" "r = of_nat i" "used' = used[i := True]"
    by (auto simp: Scratch_def split: option.splits)
  then have "i \<in> set scratch_order" "\<not> used ! i" by (auto simp: find_Some_iff)
  then have "i < 16" by (auto simp: scratch_order_def)
  then have "unat r = i" "r < 16" using i(2) by (simp_all add: unat_of_nat word_less_nat_alt)
  then show ?thesis using i(3) \<open>\<not> used ! i\<close> by (simp add: mark_def)
qed

lemma UsedRegisters_marked:
  assumes "UsedRegisters regs memory = Inr used"
  shows "length used = 16" and "used ! 4" and "r \<in> set regs \<Longrightarrow> used ! unat r"
    and "memory = Some m \<Longrightarrow> r \<in> set (address_registers m) \<Longrightarrow> unat r < 16 \<Longrightarrow> used ! unat r"
proof -
  let ?regs = "Stack # regs @ (case memory of None \<Rightarrow> [] | Some m \<Rightarrow> address_registers m)"
  from assms have used: "used = fold mark ?regs (replicate 16 False)" and regs: "\<forall>r \<in> set regs. unat r < 16"
    by (simp_all add: UsedRegisters_Inr)
  have marks: "r \<in> set ?regs \<Longrightarrow> unat r < 16 \<Longrightarrow> used ! unat r" for r
    unfolding used by (rule fold_mark_marks) simp_all
  show "length used = 16" by (simp add: used)
  show "used ! 4" using marks [of Stack] by simp
  show "r \<in> set regs \<Longrightarrow> used ! unat r" using marks [of r] regs by simp
  show "memory = Some m \<Longrightarrow> r \<in> set (address_registers m) \<Longrightarrow> unat r < 16 \<Longrightarrow> used ! unat r"
    using marks [of r] by simp
qed

end
