(* ===== verification/Gpr_Semantics.thy ===== *)
theory Gpr_Semantics
  imports X64_Scalar_Lowering
begin

text \<open>
  The machine that the BMI lowerings are checked against: the general registers, the status flags and
  byte-addressed memory of an x86-64 processor, and the instructions that the lowerings emit, executed
  from their encoding. The tables follow the processor manuals. A lowering jumps forward only, so code is
  the list of the bytes that follow the instruction pointer, and execution ends at the end of the list.
  Flags that an instruction leaves undefined come from an oracle in the state, the bases of the segments
  are a parameter of the state, and RIP-relative operands are outside this machine (their displacement
  is a relocation).
\<close>

subsection \<open>Memory\<close>

definition load :: "(u64 \<Rightarrow> u8) \<Rightarrow> nat \<Rightarrow> u64 \<Rightarrow> u64" where
  "load mem n a = le_word (map (\<lambda>i. mem (a + of_nat i)) [0..<n])"

definition store :: "(u64 \<Rightarrow> u8) \<Rightarrow> nat \<Rightarrow> u64 \<Rightarrow> u64 \<Rightarrow> u64 \<Rightarrow> u8" where
  "store mem n a v x = (if unat (x - a) < n then le_bytes n v ! unat (x - a) else mem x)"

subsection \<open>State\<close>

record gpr_state =
  gs_reg :: "u8 \<Rightarrow> u64"
  gs_mem :: "u64 \<Rightarrow> u8"
  gs_flags :: u64
  gs_segment :: "bytes \<Rightarrow> u64"
  gs_oracle :: "u64 \<Rightarrow> u64"

definition width :: "bool \<Rightarrow> nat" where
  "width wide = (if wide then 8 else 4)"

definition clip :: "bool \<Rightarrow> u64 \<Rightarrow> u64" where
  "clip wide v = (if wide then v else take_bit 32 v)"

definition set_reg :: "bool \<Rightarrow> u8 \<Rightarrow> u64 \<Rightarrow> gpr_state \<Rightarrow> gpr_state" where
  "set_reg wide r v st = st\<lparr>gs_reg := (gs_reg st)(r := clip wide v)\<rparr>"

abbreviation (input) CF :: nat where "CF \<equiv> 0"
abbreviation (input) ZF :: nat where "ZF \<equiv> 6"
abbreviation (input) SF :: nat where "SF \<equiv> 7"
abbreviation (input) OF :: nat where "OF \<equiv> 11"

text \<open>The carry, zero, sign and overflow flags are set; the parity and the auxiliary carry flag come from a value.\<close>

definition put :: "nat \<Rightarrow> bool \<Rightarrow> u64 \<Rightarrow> u64" where
  "put n b f = (if b then set_bit n f else unset_bit n f)"

definition status :: "bool \<Rightarrow> bool \<Rightarrow> bool \<Rightarrow> bool \<Rightarrow> u64 \<Rightarrow> u64 \<Rightarrow> u64" where
  "status cf zf sf ov other f =
     put CF cf (put ZF zf (put SF sf (put OF ov (put 2 (bit other 2) (put 4 (bit other 4) f)))))"

definition sign :: "bool \<Rightarrow> u64 \<Rightarrow> bool" where
  "sign wide v = bit v (if wide then 63 else 31)"

definition set_status :: "bool \<Rightarrow> bool \<Rightarrow> bool \<Rightarrow> bool \<Rightarrow> gpr_state \<Rightarrow> gpr_state" where
  "set_status cf zf sf ov st = st\<lparr>gs_flags := status cf zf sf ov (gs_oracle st (gs_flags st)) (gs_flags st)\<rparr>"

text \<open>The flags after a bitwise operation with a result.\<close>

definition logic_flags :: "bool \<Rightarrow> u64 \<Rightarrow> gpr_state \<Rightarrow> gpr_state" where
  "logic_flags wide v = set_status False (clip wide v = 0) (sign wide v) False"

text \<open>The flags after a shift or a multiplication: no lowering relies on them.\<close>

definition any_flags :: "gpr_state \<Rightarrow> gpr_state" where
  "any_flags st =
     (let f = gs_oracle st (gs_flags st) in set_status (bit f CF) (bit f ZF) (bit f SF) (bit f OF) st)"

subsection \<open>Operands\<close>

datatype operand = RegOp u8 | MemOp bytes u8 u8 u8 bool bool int

text \<open>The offset that an operand's fields name: prefixes, mod, rm, SIB, the index and base bits of REX, displacement.\<close>

definition extend_reg :: "bool \<Rightarrow> u8 \<Rightarrow> u8" where
  "extend_reg e field = field OR (if e then 8 else 0)"

definition address_base :: "(u8 \<Rightarrow> u64) \<Rightarrow> u8 \<Rightarrow> u8 \<Rightarrow> u8 \<Rightarrow> bool \<Rightarrow> u64" where
  "address_base R md rm sib b =
     (if rm \<noteq> 4 then R (extend_reg b rm)
      else if md = 0 \<and> sib AND 7 = 5 then 0
      else R (extend_reg b (sib AND 7)))"

definition address_index :: "(u8 \<Rightarrow> u64) \<Rightarrow> u8 \<Rightarrow> u8 \<Rightarrow> bool \<Rightarrow> u64" where
  "address_index R rm sib x =
     (let index = extend_reg x (drop_bit 3 sib AND 7)
      in if rm \<noteq> 4 \<or> index = 4 then 0 else push_bit (unat (drop_bit 6 sib)) (R index))"

definition offset_of :: "(u8 \<Rightarrow> u64) \<Rightarrow> bytes \<Rightarrow> u8 \<Rightarrow> u8 \<Rightarrow> u8 \<Rightarrow> bool \<Rightarrow> bool \<Rightarrow> int \<Rightarrow> u64" where
  "offset_of R prefixes md rm sib x b displacement =
     (let a = address_base R md rm sib b + address_index R rm sib x + word_of_int displacement
      in if 0x67 \<in> set prefixes then take_bit 32 a else a)"

definition displacement_bytes :: "u8 \<Rightarrow> u8 \<Rightarrow> u8 \<Rightarrow> nat" where
  "displacement_bytes md rm sib =
     (if md = 1 then 1 else if md = 2 \<or> md = 0 \<and> rm = 4 \<and> sib AND 7 = 5 then 4 else 0)"

definition little :: "bytes \<Rightarrow> int" where
  "little code =
     (if code = [] then 0 else if length code = 1 then sint (hd code) else sint (le_word code :: u32))"

definition decode_operand :: "bytes \<Rightarrow> u8 \<Rightarrow> bytes \<Rightarrow> (u8 \<times> operand \<times> bytes) option" where
  "decode_operand prefixes rexByte code =
     (case code of [] \<Rightarrow> None
      | modrm # t \<Rightarrow>
          let md = drop_bit 6 modrm; rm = modrm AND 7;
              reg = extend_reg (bit rexByte 2) (drop_bit 3 modrm AND 7)
          in if md = 3 then Some (reg, RegOp (extend_reg (bit rexByte 0) rm), t)
             else if md = 0 \<and> rm = 5 \<or> rm = 4 \<and> t = [] then None
             else
               let sib = if rm = 4 then hd t else 0; t = if rm = 4 then tl t else t;
                   n = displacement_bytes md rm sib
               in if length t < n then None
                  else Some (reg, MemOp prefixes md rm sib (bit rexByte 1) (bit rexByte 0) (little (take n t)), drop n t))"

fun operand_offset :: "(u8 \<Rightarrow> u64) \<Rightarrow> operand \<Rightarrow> u64" where
  "operand_offset R (RegOp r) = 0"
| "operand_offset R (MemOp prefixes md rm sib x b displacement) = offset_of R prefixes md rm sib x b displacement"

fun operand_address :: "gpr_state \<Rightarrow> operand \<Rightarrow> u64" where
  "operand_address st (RegOp r) = 0"
| "operand_address st (MemOp prefixes md rm sib x b displacement) =
     gs_segment st prefixes + offset_of (gs_reg st) prefixes md rm sib x b displacement"

fun read_operand :: "bool \<Rightarrow> operand \<Rightarrow> gpr_state \<Rightarrow> u64" where
  "read_operand wide (RegOp r) st = clip wide (gs_reg st r)"
| "read_operand wide op st = load (gs_mem st) (width wide) (operand_address st op)"

fun write_operand :: "bool \<Rightarrow> operand \<Rightarrow> u64 \<Rightarrow> gpr_state \<Rightarrow> gpr_state" where
  "write_operand wide (RegOp r) v st = set_reg wide r v st"
| "write_operand wide op v st = st\<lparr>gs_mem := store (gs_mem st) (width wide) (operand_address st op) v\<rparr>"

subsection \<open>Instructions\<close>

definition push_word :: "u64 \<Rightarrow> gpr_state \<Rightarrow> gpr_state" where
  "push_word v st =
     st\<lparr>gs_mem := store (gs_mem st) 8 (gs_reg st 4 - 8) v, gs_reg := (gs_reg st)(4 := gs_reg st 4 - 8)\<rparr>"

definition pop_word :: "gpr_state \<Rightarrow> u64 \<times> gpr_state" where
  "pop_word st = (load (gs_mem st) 8 (gs_reg st 4), st\<lparr>gs_reg := (gs_reg st)(4 := gs_reg st 4 + 8)\<rparr>)"

text \<open>Shifts and rotates of a value of the operand size, by a count taken modulo the size.\<close>

definition count_of :: "bool \<Rightarrow> u64 \<Rightarrow> nat" where
  "count_of wide c = unat (c AND (if wide then 63 else 31))"

definition shift_left :: "bool \<Rightarrow> u64 \<Rightarrow> nat \<Rightarrow> u64" where
  "shift_left wide v n = clip wide (push_bit n v)"

definition shift_right :: "bool \<Rightarrow> u64 \<Rightarrow> nat \<Rightarrow> u64" where
  "shift_right wide v n = drop_bit n (clip wide v)"

definition shift_arithmetic :: "bool \<Rightarrow> u64 \<Rightarrow> nat \<Rightarrow> u64" where
  "shift_arithmetic wide v n =
     (if wide then word_of_int (sint v div 2 ^ n) else ucast (word_of_int (sint (ucast v :: u32) div 2 ^ n) :: u32))"

definition rotate_right :: "bool \<Rightarrow> u64 \<Rightarrow> nat \<Rightarrow> u64" where
  "rotate_right wide v n = (if wide then word_rotr n v else ucast (word_rotr n (ucast v :: u32)))"

text \<open>The opcodes whose operands are a register and a register or memory operand.\<close>

definition exec_modrm :: "bool \<Rightarrow> u8 \<Rightarrow> u8 \<Rightarrow> operand \<Rightarrow> gpr_state \<Rightarrow> gpr_state option" where
  "exec_modrm wide opc reg op st =
     (let r = clip wide (gs_reg st reg); v = read_operand wide op st
      in if opc = 0x8D then (case op of RegOp x \<Rightarrow> None | _ \<Rightarrow> Some (set_reg wide reg (operand_offset (gs_reg st) op) st))
         else if opc = 0x8B then Some (set_reg wide reg v st)
         else if opc = 0x89 then Some (write_operand wide op r st)
         else if opc = 0x23 then Some (logic_flags wide (r AND v) (set_reg wide reg (r AND v) st))
         else if opc = 0x21 then Some (logic_flags wide (v AND r) (write_operand wide op (v AND r) st))
         else if opc = 0x33 then Some (logic_flags wide (r XOR v) (set_reg wide reg (r XOR v) st))
         else if opc = 0x31 then Some (logic_flags wide (v XOR r) (write_operand wide op (v XOR r) st))
         else if opc = 0x85 then Some (logic_flags wide (v AND r) st)
         else if opc = 0xF7 \<and> reg = 2 then Some (write_operand wide op (NOT v) st)
         else if opc = 0xF7 \<and> reg = 3
         then Some (set_status (v \<noteq> 0) (clip wide (- v) = 0) (sign wide (- v)) (sign wide v \<and> sign wide (- v))
                (write_operand wide op (- v) st))
         else if opc = 0xF7 \<and> reg = 4
         then let product = uint (clip wide (gs_reg st 0)) * uint v; size = 8 * width wide
              in Some (any_flags (set_reg wide 2 (word_of_int (product div 2 ^ size))
                   (set_reg wide 0 (word_of_int product) st)))
         else if opc = 0xD3 \<and> reg = 4
         then Some (any_flags (write_operand wide op (shift_left wide v (count_of wide (gs_reg st 1))) st))
         else if opc = 0xD3 \<and> reg = 5
         then Some (any_flags (write_operand wide op (shift_right wide v (count_of wide (gs_reg st 1))) st))
         else if opc = 0xD3 \<and> reg = 7
         then Some (any_flags (write_operand wide op (shift_arithmetic wide v (count_of wide (gs_reg st 1))) st))
         else if opc = 0xFF \<and> reg = 6 then Some (push_word (read_operand True op st) st)
         else if opc = 0x8F \<and> reg = 0
         then let (v, st) = pop_word st in Some (write_operand True op v st)
         else None)"

text \<open>The opcodes with an immediate operand.\<close>

definition exec_immediate :: "bool \<Rightarrow> u8 \<Rightarrow> u8 \<Rightarrow> operand \<Rightarrow> bytes \<Rightarrow> gpr_state \<Rightarrow> (bytes \<times> gpr_state) option" where
  "exec_immediate wide opc reg op code st =
     (let v = read_operand wide op st
      in case code of
        [] \<Rightarrow> None
      | imm # t \<Rightarrow>
          if opc = 0x83 \<and> reg = 1
          then let w = v OR word_of_int (sint imm) in Some (t, logic_flags wide w (write_operand wide op w st))
          else if opc = 0xC1 \<and> reg = 1
          then Some (t, any_flags (write_operand wide op (rotate_right wide v (count_of wide (ucast imm))) st))
          else if opc = 0xC7 \<and> reg = 0 \<and> length t \<ge> 3
          then Some (drop 3 t, write_operand wide op (word_of_int (little (imm # take 3 t))) st)
          else None)"

definition exec_rex :: "bytes \<Rightarrow> u8 \<Rightarrow> u8 \<Rightarrow> bytes \<Rightarrow> gpr_state \<Rightarrow> (bytes \<times> gpr_state) option" where
  "exec_rex prefixes rexByte opc code st =
     (case decode_operand prefixes rexByte code of
        None \<Rightarrow> None
      | Some (reg, op, t) \<Rightarrow>
          if opc = 0x83 \<or> opc = 0xC1 \<or> opc = 0xC7 then exec_immediate (bit rexByte 3) opc reg op t st
          else case exec_modrm (bit rexByte 3) opc reg op st of None \<Rightarrow> None | Some st \<Rightarrow> Some (t, st))"

text \<open>A conditional jump over the next bytes.\<close>

definition jump_if :: "bool \<Rightarrow> u8 \<Rightarrow> bytes \<Rightarrow> gpr_state \<Rightarrow> (bytes \<times> gpr_state) option" where
  "jump_if c d code st =
     (if d < 128 \<and> unat d \<le> length code then Some (if c then drop (unat d) code else code, st) else None)"

text \<open>The low byte register of a number without REX: the fifth is the second byte of \<open>rcx\<close>.\<close>

definition low_byte :: "u8 \<Rightarrow> gpr_state \<Rightarrow> u8" where
  "low_byte rm st = (if rm = 5 then ucast (drop_bit 8 (gs_reg st 1)) else ucast (gs_reg st rm))"

fun exec_short :: "bytes \<Rightarrow> gpr_state \<Rightarrow> (bytes \<times> gpr_state) option" where
  "exec_short (b # t) st =
     (if b = 0x9C then Some (t, push_word (gs_flags st) st)
      else if b = 0x9D then let (v, st) = pop_word st in Some (t, st\<lparr>gs_flags := v\<rparr>)
      else if b = 0xF9 then Some (t, st\<lparr>gs_flags := set_bit CF (gs_flags st)\<rparr>)
      else case t of
        [] \<Rightarrow> None
      | d # t \<Rightarrow>
          if b = 0x74 then jump_if (bit (gs_flags st) ZF) d t st
          else if b = 0x72 then jump_if (bit (gs_flags st) CF) d t st
          else if b = 0x73 then jump_if (\<not> bit (gs_flags st) CF) d t st
          else if b = 0xEB then jump_if True d t st
          else if b = 0x88 \<and> d = 0xE9
          then Some (t, st\<lparr>gs_reg := (gs_reg st)(1 := (gs_reg st 1 AND NOT 0xFF) OR ucast (low_byte 5 st))\<rparr>)
          else if b = 0x80 \<and> d AND 0xF8 = 0xF8 \<and> (d AND 7 = 1 \<or> d AND 7 = 5) \<and> t \<noteq> []
          then let v = low_byte (d AND 7) st; w = hd t
               in Some (tl t, set_status (v < w) (v = w) (bit (v - w) 7) (sint v - sint w \<noteq> sint (v - w)) st)
          else None)"
| "exec_short [] st = None"

definition exec_one :: "bytes \<Rightarrow> gpr_state \<Rightarrow> (bytes \<times> gpr_state) option" where
  "exec_one code st =
     (let prefixes = takeWhile LegacyPrefix code
      in case dropWhile LegacyPrefix code of
           b # opc # t \<Rightarrow>
             if drop_bit 4 b = 4 then exec_rex prefixes b opc t st
             else if prefixes = [] then exec_short code st else None
         | _ \<Rightarrow> if prefixes = [] then exec_short code st else None)"

text \<open>Running the code to its end.\<close>

function run :: "bytes \<Rightarrow> gpr_state \<Rightarrow> gpr_state option" where
  "run [] st = Some st"
| "run (b # code) st =
     (case exec_one (b # code) st of
        None \<Rightarrow> None
      | Some (rest, st') \<Rightarrow> if length rest \<le> length code then run rest st' else None)"
  by pat_completeness auto
termination by (relation "measure (\<lambda>(code, st). length code)") auto

end
