(* ===== verification/Gpr_Execution.thy ===== *)
theory Gpr_Execution
  imports Gpr_Semantics
begin

text \<open>
  Symbolic execution on the machine of \<open>Gpr_Semantics\<close>: what the encodings of \<open>ScalarLowering.hpp\<close> decode
  to, one rewriting rule for each instruction that the lowerings emit (\<open>run_simps\<close>), reads and writes of
  the slots of the frame, and the address of a memory operand once the stack pointer has moved.
\<close>

subsection \<open>Fields of the encoded bytes\<close>

lemma u8_eqI:
  fixes a b :: u8
  assumes "bit a 0 = bit b 0" "bit a (Suc 0) = bit b (Suc 0)" "bit a 2 = bit b 2" "bit a 3 = bit b 3"
    "bit a 4 = bit b 4" "bit a 5 = bit b 5" "bit a 6 = bit b 6" "bit a 7 = bit b 7"
  shows "a = b"
proof (rule bit_word_eqI)
  fix n assume "n < LENGTH(8)"
  then consider "n = 0" | "n = Suc 0" | "n = 2" | "n = 3" | "n = 4" | "n = 5" | "n = 6" | "n = 7"
    by force
  then show "bit a n = bit b n" by cases (simp_all add: assms)
qed

lemma bit_u8_ge:
  assumes "(r::u8) < 2 ^ k" and "k \<le> n"
  shows "\<not> bit r n"
proof (cases "k < 8")
  case True
  then have "unat r < 2 ^ k" using assms(1) by (simp add: word_less_nat_alt unat_power_of_two)
  then have "r = take_bit k r" by (metis take_bit_nat_eq_self unsigned_take_bit_eq word_unat_eq_iff)
  then show ?thesis using assms(2) by (metis bit_take_bit_iff not_less)
next
  case False
  then show ?thesis using bit_imp_le_length [of r n] assms(2) by auto
qed

lemma reg_bits: "(r::u8) < 16 \<Longrightarrow> 4 \<le> n \<Longrightarrow> \<not> bit r n"
  using bit_u8_ge [of r 4 n] by simp

lemma bit_u8_beyond: "8 \<le> n \<Longrightarrow> \<not> bit (w::u8) n"
  using bit_imp_le_length [of w n] by auto

lemma bit_Rex [simp]:
  "bit (Rex wide reg rm) 0 = bit rm 3" "\<not> bit (Rex wide reg rm) (Suc 0)" "bit (Rex wide reg rm) 2 = bit reg 3"
  "bit (Rex wide reg rm) 3 = wide" "\<not> bit (Rex wide reg rm) 4" "\<not> bit (Rex wide reg rm) 5"
  "bit (Rex wide reg rm) 6" "\<not> bit (Rex wide reg rm) 7"
  by (auto simp: Rex_def bit_simps eval_nat_numeral)

lemma Rex_top: "drop_bit 4 (Rex wide reg rm) = 4"
  by (rule u8_eqI) (simp_all add: bit_u8_beyond bit_simps)

lemma extend_field: "r < 16 \<Longrightarrow> extend_reg (bit r 3) (r AND 7) = r"
  by (rule u8_eqI) (auto simp: extend_reg_def reg_bits bit_simps eval_nat_numeral)

definition modrm_of :: "u8 \<Rightarrow> u8 \<Rightarrow> u8 \<Rightarrow> u8" where
  "modrm_of md reg rm = push_bit 6 md OR push_bit 3 (reg AND 7) OR rm"

lemma modrm_of_fields:
  assumes "md < 4" and "rm < 8"
  shows "drop_bit 6 (modrm_of md reg rm) = md" "modrm_of md reg rm AND 7 = rm"
    "drop_bit 3 (modrm_of md reg rm) AND 7 = reg AND 7"
proof -
  have md: "\<not> bit md 2" "\<not> bit md 3" "\<not> bit md 4" "\<not> bit md 5" "\<not> bit md 6" "\<not> bit md 7"
    using assms(1) bit_u8_ge [of md 2] by (simp_all)
  have rm: "\<not> bit rm 3" "\<not> bit rm 4" "\<not> bit rm 5" "\<not> bit rm 6" "\<not> bit rm 7"
    using assms(2) bit_u8_ge [of rm 3] by (simp_all)
  show "drop_bit 6 (modrm_of md reg rm) = md" "modrm_of md reg rm AND 7 = rm"
    "drop_bit 3 (modrm_of md reg rm) AND 7 = reg AND 7"
    unfolding modrm_of_def
    by (rule u8_eqI; simp add: md rm bit_u8_beyond bit_simps; fail)+
qed


lemma Register_modrm: "0xC0 OR push_bit 3 (reg AND 7) OR (rm AND 7) = modrm_of 3 reg (rm AND 7)"
  by (simp add: modrm_of_def)

lemma Stack_modrm: "0x84 OR push_bit 3 (reg AND 7) = modrm_of 2 reg 4"
  by (rule u8_eqI) (simp_all add: modrm_of_def bit_simps bit_u8_beyond)

lemma RegisterBytes_eq: "RegisterBytes opc wide reg rm = [Rex wide reg rm, opc, modrm_of 3 reg (rm AND 7)]"
  unfolding RegisterBytes_def Register_modrm ..

lemma field_less: "(r::u8) AND 7 < 8"
  by (rule le_less_trans [OF word_and_le1]) simp

lemma decode_register:
  assumes "reg < 16" "rm < 16"
  shows "decode_operand prefixes (Rex wide reg rm) (modrm_of 3 reg (rm AND 7) # t) = Some (reg, RegOp rm, t)"
  using assms by (simp add: decode_operand_def modrm_of_fields field_less extend_field Let_def)

subsection \<open>Little-endian fields\<close>

lemma Append32_le: "Append32 out v = out @ le_bytes 4 (word_of_int v :: u32)"
  by (simp add: Append32_def eval_nat_numeral)

lemma StackBytes_eq:
  "StackBytes opc wide reg d = [Rex wide reg Stack, opc, modrm_of 2 reg 4, 0x24] @ le_bytes 4 (word_of_int d :: u32)"
  unfolding StackBytes_def Stack_modrm Append32_le ..

lemma little_word32: "little (le_bytes 4 (v :: u32)) = sint v"
  using le_word_le_bytes [of 4 v] by (auto simp: little_def dest: arg_cong [of _ _ length])

lemma little_byte [simp]: "little [v] = sint v" and little_Nil [simp]: "little [] = 0"
  by (simp_all add: little_def)

lemma decode_stack:
  assumes "reg < 16"
  shows "decode_operand prefixes (Rex wide reg 4) (modrm_of 2 reg 4 # 0x24 # le_bytes 4 (v :: u32) @ t) =
    Some (reg, MemOp prefixes 2 4 0x24 False False (sint v), t)"
  using assms by (simp add: decode_operand_def modrm_of_fields extend_field Let_def displacement_bytes_def little_word32)

subsection \<open>Memory\<close>

lemma le_bytes_take: "m \<le> n \<Longrightarrow> take m (le_bytes n v) = le_bytes m v"
  by (induction m arbitrary: n v) (simp, case_tac n, auto)

lemma load_store_same: "m \<le> n \<Longrightarrow> n < 2 ^ 64 \<Longrightarrow> load (store mem n a v) m a = take_bit (8 * m) v"
proof -
  assume mn: "m \<le> n" "n < 2 ^ 64"
  have "map (\<lambda>i. store mem n a v (a + of_nat i)) [0..<m] = take m (le_bytes n v)"
    using mn by (auto simp: store_def unat_of_nat_small intro!: nth_equalityI)
  then show ?thesis using mn by (simp add: load_def le_bytes_take le_word_le_bytes_take)
qed

text \<open>Two fields that do not meet.\<close>

definition apart :: "nat \<Rightarrow> u64 \<Rightarrow> nat \<Rightarrow> u64 \<Rightarrow> bool" where
  "apart n a m b \<longleftrightarrow> n \<le> unat (b - a) \<and> m \<le> unat (a - b)"

lemma unat_less_64: "unat (x :: u64) < 2 ^ 64"
proof -
  have "unat x < 2 ^ LENGTH(64)" by (rule unsigned_less)
  then show ?thesis by simp
qed

lemma unat_uminus: "(x::u64) \<noteq> 0 \<Longrightarrow> unat (- x) = 2 ^ 64 - unat x"
proof -
  assume x: "x \<noteq> 0"
  have less: "unat x < 2 ^ 64" by (rule unat_less_64)
  have "(of_nat (2 ^ 64 - unat x) :: u64) = of_nat (2 ^ 64) - of_nat (unat x)"
    by (rule of_nat_diff) (use less in simp)
  also have "\<dots> = - x" by simp
  finally have "(of_nat (2 ^ 64 - unat x) :: u64) = - x" .
  moreover have "2 ^ 64 - unat x < 2 ^ LENGTH(64)" using x less by (simp add: unat_gt_0)
  ultimately show ?thesis by (metis unat_of_nat_small)
qed

lemma apart_outside:
  assumes "apart n a m b" and "i < m" 
  shows "\<not> unat (b + of_nat i - a) < n"
proof
  assume less: "unat (b + of_nat i - a) < n"
  show False
  proof (cases "b - a = 0")
    case True
    then show False using assms less by (simp add: apart_def)
  next
    case False
    have "unat (a - b) = 2 ^ 64 - unat (b - a)"
      using unat_uminus [OF False] by simp
    then have sum: "unat (b - a) + i < 2 ^ 64" and m: "m \<le> 2 ^ 64"
      using assms unat_less_64 [of "b - a"] by (auto simp: apart_def)
    have "unat (b - a + of_nat i) = unat (b - a) + i"
      using sum assms(2) m by (subst unat_add_of_nat) simp_all
    then show False using less assms by (simp add: apart_def algebra_simps)
  qed
qed

lemma load_store_apart: "apart n a m b \<Longrightarrow> load (store mem n a v) m b = load mem m b"
  unfolding load_def store_def
  by (rule arg_cong [of _ _ le_word]) (auto simp: apart_outside)

subsection \<open>One instruction\<close>

lemma not_prefix_Rex: "\<not> LegacyPrefix (Rex wide reg rm OR (ib AND 3))"
proof
  let ?b = "Rex wide reg rm OR (ib AND 3)"
  assume "LegacyPrefix ?b"
  then have "\<not> bit ?b 6 \<or> bit ?b 5" by (auto simp: LegacyPrefix_def)
  then show False by (simp add: bit_simps)
qed

lemma Rex_or_top: "drop_bit 4 (Rex wide reg rm OR (ib AND 3)) = 4"
  by (rule u8_eqI) (simp_all add: bit_u8_beyond bit_simps)

lemma exec_one_prefixed:
  "list_all LegacyPrefix prefixes \<Longrightarrow> \<not> LegacyPrefix b \<Longrightarrow> drop_bit 4 b = 4 \<Longrightarrow>
   exec_one (prefixes @ b # opc # t) st = exec_rex prefixes b opc t st"
  by (simp add: exec_one_def takeWhile_append dropWhile_append list_all_iff Let_def)

lemma exec_one_rex:
  "list_all LegacyPrefix prefixes \<Longrightarrow> exec_one (prefixes @ (Rex wide reg rm OR (ib AND 3)) # opc # t) st =
    exec_rex prefixes (Rex wide reg rm OR (ib AND 3)) opc t st"
  by (rule exec_one_prefixed [OF _ not_prefix_Rex Rex_or_top])

lemma run_step:
  assumes "exec_one (code @ t) st = Some (t, st')" and "code \<noteq> []"
  shows "run (code @ t) st = run t st'"
  using assms by (cases code) auto

definition immediate_opcode :: "u8 \<Rightarrow> bool" where
  "immediate_opcode opc \<longleftrightarrow> opc = 0x83 \<or> opc = 0xC1 \<or> opc = 0xC7"

lemma run_register:
  assumes "reg < 16" "rm < 16" "\<not> immediate_opcode opc" "exec_modrm wide opc reg (RegOp rm) st = Some st'"
  shows "run (RegisterBytes opc wide reg rm @ t) st = run t st'"
proof (rule run_step)
  show "exec_one (RegisterBytes opc wide reg rm @ t) st = Some (t, st')"
    using assms exec_one_rex [of "[]" wide reg rm 0 opc "modrm_of 3 reg (rm AND 7) # t" st]
    by (simp add: RegisterBytes_eq exec_rex_def decode_register immediate_opcode_def)
qed (simp add: RegisterBytes_eq)

lemma run_register_immediate:
  assumes "reg < 16" "rm < 16" "immediate_opcode opc"
    "exec_immediate wide opc reg (RegOp rm) (imm @ t) st = Some (t, st')"
  shows "run (RegisterBytes opc wide reg rm @ imm @ t) st = run t st'"
proof -
  have "run ((RegisterBytes opc wide reg rm @ imm) @ t) st = run t st'"
  proof (rule run_step)
    show "exec_one ((RegisterBytes opc wide reg rm @ imm) @ t) st = Some (t, st')"
      using assms exec_one_rex [of "[]" wide reg rm 0 opc "modrm_of 3 reg (rm AND 7) # imm @ t" st]
      by (auto simp: RegisterBytes_eq exec_rex_def decode_register immediate_opcode_def)
  qed (simp add: RegisterBytes_eq)
  then show ?thesis by simp
qed

definition in_int32 :: "int \<Rightarrow> bool" where
  "in_int32 d \<longleftrightarrow> - (2 ^ 31) \<le> d \<and> d < 2 ^ 31"

lemma sint_int32: "in_int32 d \<Longrightarrow> sint (word_of_int d :: u32) = d"
  by (simp add: in_int32_def sint_word_of_int_small)

lemma run_stack:
  assumes "reg < 16" "in_int32 d" "\<not> immediate_opcode opc"
    "exec_modrm wide opc reg (MemOp [] 2 4 0x24 False False d) st = Some st'"
  shows "run (StackBytes opc wide reg d @ t) st = run t st'"
proof (rule run_step)
  show "exec_one (StackBytes opc wide reg d @ t) st = Some (t, st')"
    using assms exec_one_rex [of "[]" wide reg 4 0 opc "modrm_of 2 reg 4 # 0x24 # le_bytes 4 (word_of_int d :: u32) @ t" st]
    by (simp add: StackBytes_eq exec_rex_def decode_stack immediate_opcode_def sint_int32)
qed (simp add: StackBytes_eq)

subsection \<open>The instructions of the lowerings\<close>

named_theorems run_simps \<open>symbolic execution of emitted code\<close>

lemma clip_clip [simp]: "clip wide (clip wide v) = clip wide v"
  by (simp add: clip_def)

lemma clip_bits: "clip wide (a AND b) = clip wide a AND clip wide b" "clip wide (a OR b) = clip wide a OR clip wide b"
  "clip wide (a XOR b) = clip wide a XOR clip wide b"
  by (simp_all add: clip_def)

lemma clip_not [simp]: "clip wide (NOT (clip wide v)) = clip wide (NOT v)"
  by (auto simp: clip_def bit_simps intro!: bit_word_eqI)

lemma set_reg_clip [simp]: "set_reg wide r (clip wide v) st = set_reg wide r v st"
  by (simp add: set_reg_def)

lemma run_Nil [run_simps]: "run [] st = Some st"
  by simp

lemma run_register_forms [run_simps]:
  assumes "reg < 16" "rm < 16"
  shows "run (RegisterBytes 0x8B wide reg rm @ t) st = run t (set_reg wide reg (gs_reg st rm) st)"
    "run (RegisterBytes 0x23 wide reg rm @ t) st =
       run t (let v = clip wide (gs_reg st reg AND gs_reg st rm) in logic_flags wide v (set_reg wide reg v st))"
    "run (RegisterBytes 0x33 wide reg rm @ t) st =
       run t (let v = clip wide (gs_reg st reg XOR gs_reg st rm) in logic_flags wide v (set_reg wide reg v st))"
    "run (RegisterBytes 0x21 wide reg rm @ t) st =
       run t (let v = clip wide (gs_reg st rm AND gs_reg st reg) in logic_flags wide v (set_reg wide rm v st))"
    "run (RegisterBytes 0x31 wide reg rm @ t) st =
       run t (let v = clip wide (gs_reg st rm XOR gs_reg st reg) in logic_flags wide v (set_reg wide rm v st))"
    "run (RegisterBytes 0x85 wide reg rm @ t) st = run t (logic_flags wide (clip wide (gs_reg st rm AND gs_reg st reg)) st)"
  by (rule run_register [OF assms]; simp add: immediate_opcode_def exec_modrm_def Let_def clip_bits; fail)+

lemma run_digit_forms [run_simps]:
  assumes "rm < 16"
  shows "run (RegisterBytes 0xF7 wide 2 rm @ t) st = run t (set_reg wide rm (NOT (gs_reg st rm)) st)"
    "run (RegisterBytes 0xF7 wide 3 rm @ t) st =
       run t (let v = clip wide (gs_reg st rm)
              in set_status (v \<noteq> 0) (clip wide (- v) = 0) (sign wide (- v)) (sign wide v \<and> sign wide (- v))
                   (set_reg wide rm (- v) st))"
    "run (RegisterBytes 0xD3 wide 4 rm @ t) st =
       run t (any_flags (set_reg wide rm (shift_left wide (clip wide (gs_reg st rm)) (count_of wide (gs_reg st 1))) st))"
    "run (RegisterBytes 0xD3 wide 5 rm @ t) st =
       run t (any_flags (set_reg wide rm (shift_right wide (clip wide (gs_reg st rm)) (count_of wide (gs_reg st 1))) st))"
    "run (RegisterBytes 0xD3 wide 7 rm @ t) st =
       run t (any_flags (set_reg wide rm (shift_arithmetic wide (clip wide (gs_reg st rm)) (count_of wide (gs_reg st 1))) st))"
    "run (RegisterBytes 0xC1 wide 1 rm @ imm # t) st =
       run t (any_flags (set_reg wide rm (rotate_right wide (clip wide (gs_reg st rm)) (count_of wide (ucast imm))) st))"
    "run (RegisterBytes 0x83 wide 1 rm @ imm # t) st =
       run t (let v = clip wide (gs_reg st rm) OR word_of_int (sint imm)
              in logic_flags wide v (set_reg wide rm v st))"
  subgoal using assms by (intro run_register) (simp_all add: immediate_opcode_def exec_modrm_def Let_def set_reg_def)
  subgoal using assms by (intro run_register) (simp_all add: immediate_opcode_def exec_modrm_def Let_def)
  subgoal using assms by (intro run_register) (simp_all add: immediate_opcode_def exec_modrm_def Let_def)
  subgoal using assms by (intro run_register) (simp_all add: immediate_opcode_def exec_modrm_def Let_def)
  subgoal using assms by (intro run_register) (simp_all add: immediate_opcode_def exec_modrm_def Let_def)
  subgoal using run_register_immediate [of 1 rm "0xC1" wide "[imm]" t st] assms
    by (simp add: immediate_opcode_def exec_immediate_def Let_def)
  subgoal using run_register_immediate [of 1 rm "0x83" wide "[imm]" t st] assms
    by (simp add: immediate_opcode_def exec_immediate_def Let_def)
  done

text \<open>Slots of the frame; the segment of an operand without prefixes starts at address zero.\<close>

abbreviation slot :: "gpr_state \<Rightarrow> int \<Rightarrow> u64" where
  "slot st d \<equiv> gs_reg st 4 + word_of_int d"

lemma stack_operand [simp]:
  "operand_offset R (MemOp [] 2 4 0x24 False False d) = R 4 + word_of_int d"
  "gs_segment st [] = 0 \<Longrightarrow> operand_address st (MemOp [] 2 4 0x24 False False d) = slot st d"
  by (simp_all add: offset_of_def address_base_def address_index_def extend_reg_def)

lemma run_stack_forms [run_simps]:
  assumes "reg < 16" "in_int32 d" "gs_segment st [] = 0"
  shows "run (StackBytes 0x8D wide reg d @ t) st = run t (set_reg wide reg (slot st d) st)"
    "run (StackBytes 0x89 wide reg d @ t) st =
       run t (st\<lparr>gs_mem := store (gs_mem st) (width wide) (slot st d) (clip wide (gs_reg st reg))\<rparr>)"
    "run (StackBytes 0x8B wide reg d @ t) st = run t (set_reg wide reg (load (gs_mem st) (width wide) (slot st d)) st)"
    "run (StackBytes 0x23 wide reg d @ t) st =
       run t (let v = clip wide (gs_reg st reg) AND load (gs_mem st) (width wide) (slot st d)
              in logic_flags wide v (set_reg wide reg v st))"
  by (rule run_stack; use assms in \<open>simp add: immediate_opcode_def exec_modrm_def Let_def del: operand_address.simps operand_offset.simps\<close>; fail)+

lemma run_stack_flags [run_simps]:
  assumes "in_int32 d" "gs_segment st [] = 0"
  shows "run (StackBytes 0xFF wide 6 d @ t) st = run t (push_word (load (gs_mem st) 8 (slot st d)) st)"
    "run (StackBytes 0x8F wide 0 d @ t) st =
       run t (st\<lparr>gs_reg := (gs_reg st)(4 := gs_reg st 4 + 8),
                 gs_mem := store (gs_mem st) 8 (gs_reg st 4 + 8 + word_of_int d) (load (gs_mem st) 8 (gs_reg st 4))\<rparr>)"
  by (rule run_stack; use assms in \<open>simp add: immediate_opcode_def exec_modrm_def Let_def pop_word_def width_def
      del: operand_address.simps operand_offset.simps\<close>; fail)+

lemma run_short [run_simps]:
  "run (0x9C # t) st = run t (push_word (gs_flags st) st)"
  "run (0x9D # t) st = run t (snd (pop_word st)\<lparr>gs_flags := fst (pop_word st)\<rparr>)"
  "run (0xF9 # t) st = run t (st\<lparr>gs_flags := set_bit CF (gs_flags st)\<rparr>)"
  by (simp_all add: exec_one_def LegacyPrefix_def pop_word_def Let_def split: list.split)

lemmas run_last [run_simps] =
  run_register_forms [where t = "[]", unfolded append_Nil2] run_digit_forms [where t = "[]", unfolded append_Nil2]
  run_stack_forms [where t = "[]", unfolded append_Nil2]

subsection \<open>Slots of a frame\<close>

lemma width_simps [simp]: "width True = 8" "width False = 4" and clip_True [simp]: "clip True v = v"
  by (simp_all add: width_def clip_def)

lemma clip_width: "clip wide v = take_bit (8 * width wide) v"
proof -
  have "take_bit 64 v = v" by (rule take_bit_word_eq_self) simp
  then show ?thesis by (simp add: clip_def width_def)
qed

lemma width_le: "width wide \<le> 8"
  by (simp add: width_def)

lemma apart_simps [simp]:
  "apart n (f + a) m (f + b) \<longleftrightarrow> n \<le> unat (b - a) \<and> m \<le> unat (a - b)"
  "apart n f m (f + b) \<longleftrightarrow> n \<le> unat b \<and> m \<le> unat (- b)"
  "apart n (f + a) m f \<longleftrightarrow> n \<le> unat (- a) \<and> m \<le> unat a"
  "apart n (f - a) m (f + b) \<longleftrightarrow> n \<le> unat (b + a) \<and> m \<le> unat (- a - b)"
  "apart n (f + a) m (f - b) \<longleftrightarrow> n \<le> unat (- b - a) \<and> m \<le> unat (a + b)"
  "apart n f m (f - b) \<longleftrightarrow> n \<le> unat (- b) \<and> m \<le> unat b"
  "apart n (f - a) m f \<longleftrightarrow> n \<le> unat a \<and> m \<le> unat (- a)"
  by (simp_all add: apart_def algebra_simps minus_diff_commute)

lemma take_bit_le_word: "length bs \<le> n \<Longrightarrow> take_bit (8 * n) (le_word bs :: u64) = le_word bs"
proof (induction bs arbitrary: n)
  case (Cons b bs)
  then obtain k where n: "n = Suc k" by (cases n) auto
  have "take_bit (8 * k) (le_word bs :: u64) = le_word bs" using Cons n by simp
  then have "\<not> bit (le_word bs :: u64) i" if "8 * k \<le> i" for i
    using that by (metis bit_take_bit_iff not_less)
  then show ?case
    by (intro bit_word_eqI) (auto simp: n bit_simps dest: bit_imp_le_length)
qed simp

lemma clip_load [simp]: "clip wide (load mem (width wide) a) = load mem (width wide) a"
  unfolding clip_width load_def by (rule take_bit_le_word) simp

lemma load_store_field [simp]: "load (store mem 8 a v) (width wide) a = clip wide v"
  by (simp add: load_store_same width_le clip_width)

lemma load_store_word [simp]: "load (store mem 8 a v) 8 a = v"
  using load_store_field [of mem a v True] by simp

lemma load_store_narrow [simp]: "load (store mem (width wide) a v) (width wide) a = clip wide v"
proof -
  have "width wide < 2 ^ 64" by (simp add: width_def)
  then show ?thesis by (simp add: load_store_same clip_width)
qed

lemma clip_absorb:
  "clip wide (clip wide a AND b) = clip wide (a AND b)" "clip wide (a AND clip wide b) = clip wide (a AND b)"
  "clip wide (clip wide a XOR b) = clip wide (a XOR b)" "clip wide (a XOR clip wide b) = clip wide (a XOR b)"
  by (simp_all add: clip_bits)

lemma store_outside:
  assumes "k \<le> unat (x - f)"
  shows "n \<le> k \<Longrightarrow> store mem n f v x = mem x" "unat c + n \<le> k \<Longrightarrow> store mem n (f + c) v x = mem x"
proof -
  show "n \<le> k \<Longrightarrow> store mem n f v x = mem x" using assms by (simp add: store_def)
  assume c: "unat c + n \<le> k"
  then have "unat (x - f - c) = unat (x - f) - unat c"
    using assms by (intro unat_sub_le) (simp add: word_le_nat_alt)
  then have "n \<le> unat (x - (f + c))" using assms c by (simp add: algebra_simps)
  then show "store mem n (f + c) v x = mem x" by (simp add: store_def)
qed

text \<open>The bytes of the stack from a distance below the stack pointer up to the red zone.\<close>

definition outside_frame :: "nat \<Rightarrow> gpr_state \<Rightarrow> u64 \<Rightarrow> bool" where
  "outside_frame n st x \<longleftrightarrow> n - 128 \<le> unat (x - (gs_reg st 4 - of_nat n))"

definition frame_kept :: "nat \<Rightarrow> gpr_state \<Rightarrow> gpr_state \<Rightarrow> bool" where
  "frame_kept n st st' \<longleftrightarrow> (\<forall>x. outside_frame n st x \<longrightarrow> gs_mem st' x = gs_mem st x)"

lemma load_cong: "(\<And>i. i < n \<Longrightarrow> mem' (a + of_nat i) = mem (a + of_nat i)) \<Longrightarrow> load mem' n a = load mem n a"
  unfolding load_def by (rule arg_cong [of _ _ le_word]) auto

lemma load_frame_kept:
  "frame_kept n st st' \<Longrightarrow> (\<And>i. i < k \<Longrightarrow> outside_frame n st (a + of_nat i)) \<Longrightarrow>
   load (gs_mem st') k a = load (gs_mem st) k a"
  by (rule load_cong) (simp add: frame_kept_def)

subsection \<open>Memory operands\<close>

text \<open>What the decoder of memory operands promises of the fields; RIP-relative operands are excluded.\<close>

definition long_displacement :: "memory_operand \<Rightarrow> bool" where
  "long_displacement m \<longleftrightarrow> mo_Mod m = 2 \<or> mo_Mod m = 0 \<and> mo_Rm m = 4 \<and> mo_Sib m AND 7 = 5"

definition operand_ok :: "memory_operand \<Rightarrow> bool" where
  "operand_ok m \<longleftrightarrow>
     list_all LegacyPrefix (mo_Prefixes m) \<and> mo_RexIndexBase m AND 3 = mo_RexIndexBase m \<and>
     mo_Mod m < 3 \<and> mo_Rm m < 8 \<and> (mo_Rm m \<noteq> 4 \<longrightarrow> mo_Sib m = 0) \<and> \<not> mo_RipRelative m \<and> \<not> (mo_Mod m = 0 \<and> mo_Rm m = 5) \<and>
     mo_StackBase m = (mo_Rm m = 4 \<and> mo_Sib m AND 7 = 4 \<and> \<not> bit (mo_RexIndexBase m) 0) \<and>
     (if mo_Mod m = 1 then - 128 \<le> mo_Displacement m \<and> mo_Displacement m < 128
      else if long_displacement m then in_int32 (mo_Displacement m) else mo_Displacement m = 0)"

definition memory_offset :: "memory_operand \<Rightarrow> gpr_state \<Rightarrow> u64" where
  "memory_offset m st =
     offset_of (gs_reg st) (mo_Prefixes m) (mo_Mod m) (mo_Rm m) (mo_Sib m) (bit (mo_RexIndexBase m) 1)
       (bit (mo_RexIndexBase m) 0) (mo_Displacement m)"

definition memory_address :: "memory_operand \<Rightarrow> gpr_state \<Rightarrow> u64" where
  "memory_address m st = gs_segment st (mo_Prefixes m) + memory_offset m st"

definition emitted_displacement :: "int \<Rightarrow> memory_operand \<Rightarrow> int" where
  "emitted_displacement frame m =
     (if shifted_mod m = 1 then sint (word_of_int (shifted_displacement frame m) :: u8)
      else if shifted_mod m = 2 \<or> long_displacement m then sint (word_of_int (shifted_displacement frame m) :: u32)
      else 0)"

definition emitted_operand :: "int \<Rightarrow> memory_operand \<Rightarrow> operand" where
  "emitted_operand frame m =
     MemOp (mo_Prefixes m) (shifted_mod m) (mo_Rm m) (mo_Sib m) (bit (mo_RexIndexBase m) 1)
       (bit (mo_RexIndexBase m) 0) (emitted_displacement frame m)"

lemma take_little:
  "little (take 4 (le_bytes 4 (v :: u32) @ t)) = sint v" "drop 4 (le_bytes 4 (v :: u32) @ t) = t"
  by (simp_all add: little_word32)

lemma memory_modrm: "push_bit 6 md OR push_bit 3 (reg AND 7) OR rm = modrm_of md reg rm"
  by (simp add: modrm_of_def)

lemma bit_memory_rex:
  assumes "ib AND 3 = (ib :: u8)"
  shows "bit (Rex wide reg 0 OR ib) 3 = wide" "bit (Rex wide reg 0 OR ib) 2 = bit reg 3"
    "bit (Rex wide reg 0 OR ib) (Suc 0) = bit ib (Suc 0)" "bit (Rex wide reg 0 OR ib) 0 = bit ib 0"
proof -
  have "\<not> bit ib 3" "\<not> bit ib 2" by (subst assms [symmetric], simp add: bit_simps)+
  then show "bit (Rex wide reg 0 OR ib) 3 = wide" "bit (Rex wide reg 0 OR ib) 2 = bit reg 3"
    "bit (Rex wide reg 0 OR ib) (Suc 0) = bit ib (Suc 0)" "bit (Rex wide reg 0 OR ib) 0 = bit ib 0"
    by (simp_all add: bit_simps)
qed

lemma decode_memory:
  assumes ok: "operand_ok m" and reg: "reg < 16"
  shows "decode_operand (mo_Prefixes m) (Rex wide reg 0 OR mo_RexIndexBase m)
      (modrm_of (shifted_mod m) reg (mo_Rm m) # (if mo_Rm m = 4 then [mo_Sib m] else []) @ memory_displacement frame m @ t) =
    Some (reg, emitted_operand frame m, t)"
proof -
  have md: "shifted_mod m < 4" "shifted_mod m \<noteq> 3" and rm: "mo_Rm m < 8" "mo_Rm m \<noteq> 4 \<longrightarrow> mo_Sib m = 0" and ib: "mo_RexIndexBase m AND 3 = mo_RexIndexBase m"
    and rip: "\<not> mo_RipRelative m" "\<not> (shifted_mod m = 0 \<and> mo_Rm m = 5)"
    using ok less_trans [of "mo_Mod m" 3 4] less_imp_neq [of "mo_Mod m" 3]
    by (simp_all add: operand_ok_def shifted_mod_def)
  show ?thesis
    using md rm rip(2) reg
    by (simp add: decode_operand_def modrm_of_fields bit_memory_rex [OF ib] extend_field Let_def)
      (auto simp: memory_displacement_def displacement_bytes_def Append32_le rip(1) little_word32 emitted_operand_def
        emitted_displacement_def long_displacement_def shifted_mod_def Let_def split: if_splits)
qed


lemma run_memory:
  assumes ok: "operand_ok m" and reg: "reg < 16" and opc: "\<not> immediate_opcode opc"
    and step: "exec_modrm wide opc reg (emitted_operand frame m) st = Some st'"
  shows "run (memory_head opc wide m reg @ memory_displacement frame m @ t) st = run t st'"
proof -
  let ?rex = "Rex wide reg 0 OR mo_RexIndexBase m"
  let ?rest = "modrm_of (shifted_mod m) reg (mo_Rm m) # (if mo_Rm m = 4 then [mo_Sib m] else []) @ memory_displacement frame m"
  have ib: "mo_RexIndexBase m AND 3 = mo_RexIndexBase m" and prefixes: "list_all LegacyPrefix (mo_Prefixes m)"
    using ok by (simp_all add: operand_ok_def)
  have code: "memory_head opc wide m reg @ memory_displacement frame m = mo_Prefixes m @ ?rex # opc # ?rest"
    unfolding memory_head_def memory_modrm by simp
  have "run ((mo_Prefixes m @ ?rex # opc # ?rest) @ t) st = run t st'"
  proof (rule run_step)
    have "exec_one (mo_Prefixes m @ ?rex # opc # ?rest @ t) st = exec_rex (mo_Prefixes m) ?rex opc (?rest @ t) st"
      using exec_one_rex [OF prefixes, of wide reg 0 "mo_RexIndexBase m" opc "?rest @ t" st] unfolding ib .
    also have "\<dots> = Some (t, st')"
      using opc step decode_memory [OF ok reg, of wide frame t]
      by (simp add: exec_rex_def immediate_opcode_def bit_memory_rex [OF ib])
    finally show "exec_one ((mo_Prefixes m @ ?rex # opc # ?rest) @ t) st = Some (t, st')" by simp
  qed simp
  then show ?thesis by (simp add: code [symmetric])
qed

text \<open>The emitted operand names the address of the instruction's operand, with the stack pointer moved down.\<close>

definition moved_down :: "int \<Rightarrow> u8 set \<Rightarrow> gpr_state \<Rightarrow> gpr_state \<Rightarrow> bool" where
  "moved_down frame borrowed st st' \<longleftrightarrow>
     gs_reg st' 4 = gs_reg st 4 - word_of_int frame \<and> gs_segment st' = gs_segment st \<and>
     (\<forall>r. r \<noteq> 4 \<longrightarrow> r \<notin> borrowed \<longrightarrow> gs_reg st' r = gs_reg st r)"

lemma address_registers_extend:
  assumes "operand_ok m"
  shows "address_registers m =
    (if mo_Rm m = 4
     then (if mo_Mod m \<noteq> 0 \<or> mo_Sib m AND 7 \<noteq> 5 then [extend_reg (bit (mo_RexIndexBase m) 0) (mo_Sib m AND 7)] else []) @
          (if extend_reg (bit (mo_RexIndexBase m) 1) (drop_bit 3 (mo_Sib m) AND 7) \<noteq> 4
           then [extend_reg (bit (mo_RexIndexBase m) 1) (drop_bit 3 (mo_Sib m) AND 7)] else [])
     else [extend_reg (bit (mo_RexIndexBase m) 0) (mo_Rm m)])"
proof -
  have "push_bit 3 (mo_RexIndexBase m AND 1) = (if bit (mo_RexIndexBase m) 0 then 8 else 0)"
    by (rule u8_eqI) (simp_all add: bit_simps)
  moreover have "push_bit 2 (mo_RexIndexBase m AND 2) = (if bit (mo_RexIndexBase m) 1 then 8 else 0)"
    by (rule u8_eqI) (simp_all add: bit_simps)
  ultimately show ?thesis using assms unfolding address_registers_def extend_reg_def Let_def operand_ok_def by simp
qed

lemma extend_eq_4: "f < 8 \<Longrightarrow> extend_reg e f = 4 \<longleftrightarrow> f = 4 \<and> \<not> e"
proof -
  assume f: "f < 8"
  have "\<not> bit f 3" using bit_u8_ge [of f 3 3] f by simp
  moreover have "bit (f OR 8) 3" by (simp add: bit_simps)
  moreover have "\<not> bit (4 :: u8) 3" by simp
  ultimately show ?thesis by (auto simp: extend_reg_def)
qed

lemma take_bit_4_less: "take_bit 4 (x :: u8) < 16"
  by (simp add: word_less_nat_alt unsigned_take_bit_eq take_bit_nat_less_exp [of 4, simplified])

lemma extend_less: "f < 8 \<Longrightarrow> extend_reg e f < 16"
proof -
  assume f: "f < 8"
  have "take_bit 4 (extend_reg e f) = extend_reg e f"
    using bit_u8_ge [of f 3] f by (intro u8_eqI) (auto simp: extend_reg_def bit_simps)
  then show ?thesis 
    by (metis take_bit_4_less)
qed

lemma word_sub_of_int: "a - word_of_int i + word_of_int (j + i) = (a + word_of_int j :: u64)"
  by (simp add: algebra_simps)

lemma take_bit_word_of_int: "n \<le> 64 \<Longrightarrow> take_bit n (word_of_int k :: u64) = word_of_int (take_bit n k)"
  by (rule bit_word_eqI) (auto simp: bit_simps)

lemma sint_low32: "take_bit 32 (a + word_of_int (sint (word_of_int d :: u32))) = take_bit 32 (a + word_of_int d :: u64)"
proof -
  have "take_bit 32 (sint (word_of_int d :: u32)) = take_bit 32 d"
    by (simp add: sint_sbintrunc' take_bit_signed_take_bit)
  then have "take_bit 32 (uint a + sint (word_of_int d :: u32)) = take_bit 32 (uint a + d)"
    by (metis take_bit_add)
  moreover have "a + word_of_int k = word_of_int (uint a + k)" for k by simp
  ultimately show ?thesis by (simp only: take_bit_word_of_int [of 32, simplified])
qed

lemma base_moved:
  assumes ok: "operand_ok m" and moved: "moved_down frame borrowed st st'"
    and free: "set (address_registers m) \<inter> borrowed = {}"
  shows "address_base (gs_reg st') (shifted_mod m) (mo_Rm m) (mo_Sib m) (bit (mo_RexIndexBase m) 0) =
     address_base (gs_reg st) (mo_Mod m) (mo_Rm m) (mo_Sib m) (bit (mo_RexIndexBase m) 0) -
       (if mo_StackBase m then word_of_int frame else 0)"
    and "address_index (gs_reg st') (mo_Rm m) (mo_Sib m) (bit (mo_RexIndexBase m) 1) =
     address_index (gs_reg st) (mo_Rm m) (mo_Sib m) (bit (mo_RexIndexBase m) 1)"
proof -
  have rm: "mo_Rm m < 8" and stack: "mo_StackBase m = (mo_Rm m = 4 \<and> mo_Sib m AND 7 = 4 \<and> \<not> bit (mo_RexIndexBase m) 0)"
    using ok by (simp_all add: operand_ok_def)
  show "address_base (gs_reg st') (shifted_mod m) (mo_Rm m) (mo_Sib m) (bit (mo_RexIndexBase m) 0) =
     address_base (gs_reg st) (mo_Mod m) (mo_Rm m) (mo_Sib m) (bit (mo_RexIndexBase m) 0) -
       (if mo_StackBase m then word_of_int frame else 0)"
  proof (cases "mo_StackBase m")
    case True
    then show ?thesis using stack moved by (simp add: address_base_def extend_reg_def moved_down_def)
  next
    case False
    then show ?thesis using stack rm moved free
      by (auto simp: address_base_def shifted_mod_def moved_down_def address_registers_extend [OF ok] extend_eq_4 field_less)
  qed
  show "address_index (gs_reg st') (mo_Rm m) (mo_Sib m) (bit (mo_RexIndexBase m) 1) =
     address_index (gs_reg st) (mo_Rm m) (mo_Sib m) (bit (mo_RexIndexBase m) 1)"
    using moved free by (auto simp: address_index_def moved_down_def address_registers_extend [OF ok] Let_def)
qed

text \<open>The displacement that is emitted is the operand's, with the frame added where the base moved.\<close>

lemma emitted_sum:
  assumes ok: "operand_ok m" and fits: "displacement_fits frame m" and frame: "0 \<le> frame"
  shows "b - (if mo_StackBase m then word_of_int frame else 0) + word_of_int (emitted_displacement frame m) =
      b + word_of_int (mo_Displacement m) \<or>
    0x67 \<in> set (mo_Prefixes m) \<and>
    take_bit 32 (b - (if mo_StackBase m then word_of_int frame else 0) + word_of_int (emitted_displacement frame m)) =
      take_bit 32 (b + word_of_int (mo_Displacement m) :: u64)"
proof (cases "mo_StackBase m")
  case True
  let ?d = "mo_Displacement m + frame"
  have e: "emitted_displacement frame m = sint (word_of_int ?d :: u32)"
    using True by (simp add: emitted_displacement_def shifted_mod_def shifted_displacement_def)
  have sum: "b - word_of_int frame + word_of_int ?d = b + word_of_int (mo_Displacement m)"
    by simp
  show ?thesis
  proof (cases "0x67 \<in> set (mo_Prefixes m)")
    case True
    then show ?thesis using \<open>mo_StackBase m\<close> sint_low32 [of "b - word_of_int frame" ?d] unfolding e sum by simp
  next
    case False
    then have "?d < 2 ^ 31" using fits True
      by (simp add: displacement_fits_def operand_address32_def shifted_displacement_def)
    moreover have "- (2 ^ 31) \<le> ?d" using ok frame by (auto simp: operand_ok_def in_int32_def split: if_splits)
    ultimately have "emitted_displacement frame m = ?d" unfolding e by (intro sint_int32) (simp add: in_int32_def)
    then show ?thesis using sum True by simp
  qed
next
  case False
  then have "emitted_displacement frame m = mo_Displacement m"
    using ok sint_word_of_int_small [of "mo_Displacement m", where 'a = 8]
    by (auto simp: emitted_displacement_def shifted_mod_def shifted_displacement_def operand_ok_def long_displacement_def
        sint_int32 split: if_splits)
  then show ?thesis using False by simp
qed

lemma emitted_address:
  assumes ok: "operand_ok m" and moved: "moved_down frame borrowed st st'"
    and free: "set (address_registers m) \<inter> borrowed = {}"
    and fits: "displacement_fits frame m" and frame: "0 \<le> frame"
  shows "operand_address st' (emitted_operand frame m) = memory_address m st"
proof -
  let ?b = "address_base (gs_reg st) (mo_Mod m) (mo_Rm m) (mo_Sib m) (bit (mo_RexIndexBase m) 0) +
    address_index (gs_reg st) (mo_Rm m) (mo_Sib m) (bit (mo_RexIndexBase m) 1)"
  let ?s = "if mo_StackBase m then word_of_int frame else (0 :: u64)"
  have "?b - ?s + word_of_int (emitted_displacement frame m) = ?b + word_of_int (mo_Displacement m) \<or>
    0x67 \<in> set (mo_Prefixes m) \<and>
    take_bit 32 (?b - ?s + word_of_int (emitted_displacement frame m)) = take_bit 32 (?b + word_of_int (mo_Displacement m))"
    by (rule emitted_sum [OF ok fits frame])
  then show ?thesis
    unfolding emitted_operand_def operand_address.simps memory_address_def memory_offset_def offset_of_def Let_def
      base_moved [OF ok moved free]
    using moved by (auto simp: moved_down_def algebra_simps)
qed

subsection \<open>Decoded operands\<close>

lemma vex_prefixes: "list_all LegacyPrefix (take (vex_offset data) data)"
  by (simp add: vex_offset_def list_all_iff) (metis set_takeWhileD takeWhile_eq_take)

lemma u8_less_4: "(a :: u8) < 4 \<Longrightarrow> a \<noteq> 3 \<Longrightarrow> a < 3"
  by (simp add: word_less_nat_alt word_unat_eq_iff)

lemma modrm_field_less: "modrm_rm b < 8" "modrm_mod b < 4" "modrm_mod b \<noteq> 3 \<Longrightarrow> modrm_mod b < 3"
proof -
  show mod: "modrm_mod b < 4" unfolding modrm_mod_def by (rule le_less_trans [OF word_and_le1]) simp
  show "modrm_rm b < 8" unfolding modrm_rm_def by (rule field_less)
  show "modrm_mod b \<noteq> 3 \<Longrightarrow> modrm_mod b < 3" by (rule u8_less_4 [OF mod])
qed

lemma sint_byte_range: "- 128 \<le> sint (b :: u8)" "sint b < 128"
  using sint_ge [of b] sint_lt [of b] by simp_all

lemma signed32_range: "in_int32 (signed32 v)"
  using sint_ge [of v] sint_lt [of v] by (simp add: in_int32_def signed32_def)

lemma decoded_displacement:
  "displacementSize md rm sib = Disp8Size \<longleftrightarrow> md = 1"
  "displacementSize md rm sib = Disp32Size \<longleftrightarrow> md = 2 \<or> md = 0 \<and> (rm = 5 \<or> rm = 4 \<and> sib AND 7 = 5)"
  by (auto simp: displacementSize_def)

lemma bit_0_and_1: "bit (b AND 3) 0 = bit b 0" "b AND 1 = 0 \<longleftrightarrow> \<not> bit b 0" for b :: u8
  by (simp add: bit_and_iff) (simp add: and_one_eq bit_0 odd_iff_mod_2_eq_one)

lemma decoded_operand_ok:
  assumes dec: "DecodeMemoryOperand data pos rexByte prefixes = Inr m" and rip: "\<not> mo_RipRelative m"
    and prefixes: "list_all LegacyPrefix prefixes"
  shows "operand_ok m"
proof -
  let ?md = "modrm_mod (data ! pos)" and ?rm = "modrm_rm (data ! pos)"
  let ?sib = "if ?rm = 4 then data ! (pos + 1) else 0"
  let ?at = "if ?rm = 4 then pos + 1 + 1 else pos + 1"
  from dec have md: "?md \<noteq> 3" and m: "mo_Prefixes m = prefixes" "mo_RexIndexBase m = rexByte AND 3"
      "mo_Mod m = ?md" "mo_Rm m = ?rm" "mo_Sib m = ?sib"
      "mo_StackBase m = (?rm = 4 \<and> ?sib AND 7 = 4 \<and> rexByte AND 1 = 0)"
      "mo_RipRelative m = (?md = 0 \<and> ?rm = 5)"
      "mo_Displacement m = (if displacementSize ?md ?rm ?sib = Disp8Size then sint (data ! ?at)
         else if displacementSize ?md ?rm ?sib = Disp32Size
         then signed32 (bytes_value data ?at (displacementSize ?md ?rm ?sib)) else 0)"
    by (auto simp: DecodeMemoryOperand_def Let_def split: if_splits)
  show ?thesis
    unfolding operand_ok_def long_displacement_def m decoded_displacement
    using prefixes rip md m(7) modrm_field_less [of "data ! pos"]
    by (auto simp: sint_byte_range signed32_range bit_0_and_1 and.assoc)
qed

lemma vex_register_less: "vex_register modrm e < 16" "vex_operand modrm e < 16" "vex_vvvv b < 16"
proof -
  have "take_bit 4 (vex_register modrm e) = vex_register modrm e" "take_bit 4 (vex_operand modrm e) = vex_operand modrm e"
    by (rule u8_eqI; simp add: vex_register_def vex_operand_def bit_simps; fail)+
  then show "vex_register modrm e < 16" "vex_operand modrm e < 16" by (metis take_bit_4_less)+
  show "vex_vvvv b < 16" unfolding vex_vvvv_def by (rule le_less_trans [OF word_and_le1]) simp
qed


subsection \<open>Jumps and flags\<close>

lemma run_jump_over [run_simps]:
  "length z < 128 \<Longrightarrow> run (0xEB # of_nat (length z) # z @ t) st = run t st"
  by (simp add: exec_one_def LegacyPrefix_def jump_if_def unat_of_nat_small word_less_nat_alt Let_def)

lemma run_jump_if [run_simps]:
  assumes "length a < 128"
  shows "run (0x74 # of_nat (length a) # a @ t) st = run (if bit (gs_flags st) ZF then t else a @ t) st"
    "run (0x72 # of_nat (length a) # a @ t) st = run (if bit (gs_flags st) CF then t else a @ t) st"
    "run (0x73 # of_nat (length a) # a @ t) st = run (if bit (gs_flags st) CF then a @ t else t) st"
  using assms by (simp_all add: exec_one_def LegacyPrefix_def jump_if_def unat_of_nat_small word_less_nat_alt Let_def)

lemma bit_put: "n < 64 \<Longrightarrow> bit (put n b f) k \<longleftrightarrow> (if k = n then b else bit f k)"
  by (auto simp: put_def bit_set_bit_iff bit_unset_bit_iff dest: bit_imp_le_length)

lemma bit_status:
  "bit (status cf zf sf ov other f) n \<longleftrightarrow>
     (if n = CF then cf else if n = ZF then zf else if n = SF then sf else if n = OF then ov
      else if n = 2 \<or> n = 4 then bit other n else bit f n)"
  by (simp add: status_def bit_put)

lemma status_flags [simp]:
  "bit (status cf zf sf ov other f) CF = cf" "bit (status cf zf sf ov other f) ZF = zf"
  by (simp_all add: bit_status)

lemma set_carry_status [simp]: "set_bit CF (status cf zf sf ov other f) = status True zf sf ov other f"
  by (rule bit_word_eqI) (auto simp: bit_set_bit_iff bit_status)

lemma status_status [simp]: "status cf zf sf ov other (status cf' zf' sf' ov' other' f) = status cf zf sf ov other f"
  by (rule bit_word_eqI) (auto simp: bit_status)


lemma uint_take_bit_32: "uint (take_bit 32 (a :: u64)) = take_bit 32 (uint a)"
  by (simp add: unsigned_take_bit_eq)

lemma clip_cong_add: "clip wide a = clip wide b \<Longrightarrow> clip wide (a + c) = clip wide (b + c)"
proof (cases wide)
  case False
  assume "clip wide a = clip wide b"
  then have "word_of_int (take_bit 32 (uint a)) = (word_of_int (take_bit 32 (uint b)) :: u64)"
    using False by (simp add: clip_def flip: take_bit_word_of_int [of 32, simplified])
  then have "take_bit 32 (uint a) = take_bit 32 (uint b)"
    by (metis (no_types, opaque_lifting) uint_take_bit_32 take_bit_word_of_int word_of_int_uint)
  then have "take_bit 32 (uint a + uint c) = take_bit 32 (uint b + uint c)" by (metis take_bit_add)
  moreover have "x + c = word_of_int (uint x + uint c)" for x :: u64 by simp
  ultimately show ?thesis using False by (simp only: clip_def take_bit_word_of_int [of 32, simplified] if_False)
qed simp

lemma clip_diff_1 [simp]: "clip wide (clip wide a - 1) = clip wide (a - 1)"
  using clip_cong_add [of wide "clip wide a" a "- 1"] by simp


lemma clip_minus [simp]: "clip wide (- clip wide a) = clip wide (- a)"
proof -
  have "clip wide (NOT (clip wide a - 1)) = clip wide (NOT (clip wide (clip wide a - 1)))" by (simp only: clip_not)
  also have "\<dots> = clip wide (NOT (a - 1))" by (simp only: clip_diff_1 clip_not)
  finally show ?thesis by (simp only: minus_eq_not_minus_1)
qed

lemma sign_clip [simp]: "sign wide (clip wide v) = sign wide v"
  by (simp add: sign_def clip_def bit_take_bit_iff)

subsection \<open>Decrement\<close>

lemma leaMinusOne_eq:
  "leaMinusOne dst base = [Rex True dst base, 0x8D, modrm_of 1 dst (base AND 7)] @
     (if base AND 7 = 4 then [0x24] else []) @ [0xFF]"
proof -
  have "0x40 OR push_bit 3 (dst AND 7) OR (base AND 7) = modrm_of 1 dst (base AND 7)"
    by (simp add: modrm_of_def)
  then show ?thesis unfolding leaMinusOne_def by simp
qed

lemma extend_reg_False [simp]: "extend_reg False f = f"
  by (simp add: extend_reg_def)

lemma base_without_index: "address_index R rm 0x24 False = 0"
  by (simp add: address_index_def extend_reg_def)

lemma run_leaMinusOne [run_simps]:
  assumes "dst < 16" "base < 16"
  shows "run (leaMinusOne dst base @ t) st = run t (set_reg True dst (gs_reg st base - 1) st)"
proof -
  let ?sib = "if base AND 7 = 4 then 0x24 else 0 :: u8"
  have decode: "decode_operand [] (Rex True dst base) (modrm_of 1 dst (base AND 7) # (if base AND 7 = 4 then [0x24] else []) @ 0xFF # t)
      = Some (dst, MemOp [] 1 (base AND 7) ?sib False (bit base 3) (- 1), t)"
    using assms by (simp add: decode_operand_def modrm_of_fields field_less extend_field Let_def displacement_bytes_def)
  have offset: "operand_offset (gs_reg st) (MemOp [] 1 (base AND 7) ?sib False (bit base 3) (- 1)) = gs_reg st base - 1"
    using extend_field [OF assms(2)]
    by (auto simp: offset_of_def address_base_def address_index_def base_without_index Let_def)
  have "exec_modrm True 0x8D dst (MemOp [] 1 (base AND 7) ?sib False (bit base 3) (- 1)) st =
      Some (set_reg True dst (gs_reg st base - 1) st)"
    using offset by (simp add: exec_modrm_def)
  then have "exec_one (leaMinusOne dst base @ t) st = Some (t, set_reg True dst (gs_reg st base - 1) st)"
    using exec_one_rex [of "[]" True dst base 0 "0x8D"
        "modrm_of 1 dst (base AND 7) # (if base AND 7 = 4 then [0x24] else []) @ 0xFF # t" st] decode
    by (simp add: leaMinusOne_eq exec_rex_def del: operand_offset.simps)
  then show ?thesis by (rule run_step) (simp add: leaMinusOne_eq)
qed


lemma clip_0 [simp]: "clip wide 0 = 0"
  by (simp add: clip_def)

subsection \<open>Counts and masks\<close>

definition low8 :: "u64 \<Rightarrow> nat" where
  "low8 c = unat (ucast c :: u8)"

definition high8 :: "u64 \<Rightarrow> nat" where
  "high8 c = unat (ucast (drop_bit 8 c) :: u8)"

lemma low8_mod: "low8 c = unat c mod 256"
  by (simp add: low8_def unsigned_ucast_eq take_bit_eq_mod)

lemma count_of_mod: "count_of wide c = unat c mod (8 * width wide)"
proof -
  have "c AND 63 = take_bit 6 c" "c AND 31 = take_bit 5 c"
    unfolding take_bit_eq_mask by (simp_all add: mask_eq_exp_minus_1)
  then show ?thesis by (simp add: count_of_def width_def take_bit_eq_mod unat_mod)
qed

lemma count_low8: "low8 c < 8 * width wide \<Longrightarrow> count_of wide c = low8 c"
proof -
  assume less: "low8 c < 8 * width wide"
  have "8 * width wide dvd 256" by (simp add: width_def)
  then have "unat c mod 256 mod (8 * width wide) = unat c mod (8 * width wide)" by (rule mod_mod_cancel)
  then show ?thesis using less by (simp add: count_of_mod low8_mod)
qed

lemma low8_moved: "low8 ((c AND NOT 0xFF) OR ucast (b :: u8)) = unat b"
proof -
  have "(ucast ((c AND NOT 0xFF) OR ucast b) :: u8) = b"
    by (rule u8_eqI) (simp_all add: bit_simps)
  then show ?thesis by (simp add: low8_def)
qed

lemma low_mask: "n < 8 * width wide \<Longrightarrow> clip wide (NOT (shift_left wide (clip wide (- 1)) n)) = mask n"
  by (rule bit_word_eqI) (auto simp: shift_left_def clip_def width_def bit_simps not_less split: if_splits)

lemma run_compare [run_simps]:
  "run (0x80 # 0xF9 # bits # t) st =
     run t (let v = low_byte 1 st in set_status (v < bits) (v = bits) (bit (v - bits) 7) (sint v - sint bits \<noteq> sint (v - bits)) st)"
  "run (0x80 # 0xFD # bits # t) st =
     run t (let v = low_byte 5 st in set_status (v < bits) (v = bits) (bit (v - bits) 7) (sint v - sint bits \<noteq> sint (v - bits)) st)"
  "run (0x88 # 0xE9 # t) st =
     run t (st\<lparr>gs_reg := (gs_reg st)(1 := (gs_reg st 1 AND NOT 0xFF) OR ucast (low_byte 5 st))\<rparr>)"
  by (simp_all add: exec_one_def LegacyPrefix_def Let_def)

lemma low_byte_less: "bits < 256 \<Longrightarrow> low_byte 1 st < of_nat bits \<longleftrightarrow> low8 (gs_reg st 1) < bits"
  "bits < 256 \<Longrightarrow> low_byte 5 st < of_nat bits \<longleftrightarrow> high8 (gs_reg st 1) < bits"
  by (simp_all add: low_byte_def low8_def high8_def word_less_nat_alt unat_of_nat_small)

lemma le_bytes_ones: "le_bytes 4 (- 1 :: u32) = [0xFF, 0xFF, 0xFF, 0xFF]"
  by code_simp

lemma run_set_mask [run_simps]:
  assumes "r < 16"
  shows "run (RegisterBytes 0xC7 wide 0 r @ 0xFF # 0xFF # 0xFF # 0xFF # t) st = run t (set_reg wide r (- 1) st)"
proof -
  have "little [0xFF, 0xFF, 0xFF, 0xFF] = - 1"
    using little_word32 [of "- 1"] unfolding le_bytes_ones by simp
  then show ?thesis
    using run_register_immediate [of 0 r "0xC7" wide "[0xFF, 0xFF, 0xFF, 0xFF]" t st] assms
    by (simp add: immediate_opcode_def exec_immediate_def Let_def)
qed

declare run.simps(2) [simp del]

end
