(* ===== verification/X64_Scalar_Correct.thy ===== *)
theory X64_Scalar_Correct
  imports Gpr_Execution
begin

text \<open>
  The lowerings of the BMI instructions compute the instructions: the code of each, run on the machine
  of \<open>Gpr_Semantics\<close>, leaves the result in the destination, the flags of the instruction, every other
  register, and the memory outside the frame below the red zone as they were.
\<close>

subsection \<open>What an instruction reads and what a lowering may change\<close>

fun raw_code :: "stub_call \<Rightarrow> bytes" where
  "raw_code (CallRaw code) = code"
| "raw_code _ = []"

lemma raw_code_simps [simp]:
  "raw_code (Register opc wide reg rm) = RegisterBytes opc wide reg rm"
  "raw_code (StackSlot opc wide reg d) = StackBytes opc wide reg d"
  by (simp_all add: Register_def StackSlot_def)

definition source_value :: "memory_operand option \<Rightarrow> u8 \<Rightarrow> bool \<Rightarrow> gpr_state \<Rightarrow> u64" where
  "source_value memory source wide st =
     (case memory of None \<Rightarrow> clip wide (gs_reg st source)
      | Some m \<Rightarrow> load (gs_mem st) (width wide) (memory_address m st))"

text \<open>A memory operand that the machine executes, outside the frame that the lowering uses.\<close>

definition source_ok :: "nat \<Rightarrow> memory_operand option \<Rightarrow> bool \<Rightarrow> gpr_state \<Rightarrow> bool" where
  "source_ok n memory wide st \<longleftrightarrow>
     (case memory of None \<Rightarrow> True
      | Some m \<Rightarrow> \<not> mo_RipRelative m \<and> (\<forall>i < width wide. outside_frame n st (memory_address m st + of_nat i)))"

definition register_kept :: "u8 \<Rightarrow> u64 \<Rightarrow> gpr_state \<Rightarrow> gpr_state \<Rightarrow> bool" where
  "register_kept dst v st st' \<longleftrightarrow> gs_reg st' = (gs_reg st)(dst := v)"

text \<open>The flags after an instruction that defines the carry, zero, sign and overflow flags.\<close>

definition flags_after :: "bool \<Rightarrow> bool \<Rightarrow> bool \<Rightarrow> bool \<Rightarrow> gpr_state \<Rightarrow> gpr_state \<Rightarrow> bool" where
  "flags_after cf zf sf ov st st' \<longleftrightarrow> (\<exists>other. gs_flags st' = status cf zf sf ov other (gs_flags st))"

lemmas state_defs = set_reg_def logic_flags_def set_status_def any_flags_def push_word_def pop_word_def Let_def

lemma width_le_any: "8 \<le> n \<Longrightarrow> width wide \<le> n"
  by (simp add: width_def)

lemmas exec_simps = run_simps in_int32_def state_defs load_store_apart moved_down_def frame_kept_def outside_frame_def
  register_kept_def flags_after_def clip_bits width_le_any

lemma perform_raw: "\<forall>c \<in> set cs. \<exists>code. c = CallRaw code \<Longrightarrow>
  perform_all cs b = Inr (b\<lparr>sb_bytes := sb_bytes b @ concat (map raw_code cs)\<rparr>)"
  by (induction cs arbitrary: b) (auto simp: Raw_def)

lemma clip_source [simp]: "clip wide (source_value memory source wide st) = source_value memory source wide st"
  by (simp add: source_value_def clip_load split: option.split)

subsection \<open>The memory operand\<close>

lemma memory_call_raw: "\<not> mo_RipRelative m \<Longrightarrow> memory_call head frame m = CallRaw (head @ memory_displacement frame m)"
  by (simp add: memory_call_def Let_def)

lemma read_emitted:
  assumes ok: "operand_ok m" and moved: "moved_down frame borrowed st st'" and kept: "frame_kept n st st'"
    and free: "set (address_registers m) \<inter> borrowed = {}" and fits: "displacement_fits frame m" "0 \<le> frame"
    and outside: "source_ok n (Some m) wide st"
  shows "read_operand wide (emitted_operand frame m) st' = source_value (Some m) s wide st"
proof -
  have "read_operand wide (emitted_operand frame m) st' =
      load (gs_mem st') (width wide) (operand_address st' (emitted_operand frame m))"
    by (simp add: emitted_operand_def)
  also have "\<dots> = load (gs_mem st') (width wide) (memory_address m st)"
    by (simp only: emitted_address [OF ok moved free fits])
  also have "\<dots> = load (gs_mem st) (width wide) (memory_address m st)"
    by (rule load_frame_kept [OF kept]) (use outside in \<open>simp add: source_ok_def\<close>)
  finally show ?thesis by (simp add: source_value_def)
qed

text \<open>Loading the source into the borrowed register, in all three forms; the stack pointer comes in its full width.\<close>

definition loaded_value :: "memory_operand option \<Rightarrow> u8 \<Rightarrow> bool \<Rightarrow> gpr_state \<Rightarrow> u64" where
  "loaded_value memory source wide st =
     (if memory = None \<and> source = 4 then gs_reg st 4 else source_value memory source wide st)"

lemma clip_loaded: "clip wide (loaded_value memory source wide st) = source_value memory source wide st"
  by (auto simp: loaded_value_def source_value_def clip_load split: option.split)

lemma run_load_source:
  assumes call: "load_source_call memory source wide result name (int n) = Inr c"
    and ok: "\<And>m. memory = Some m \<Longrightarrow> operand_ok m \<and> set (address_registers m) \<inter> borrowed = {}"
    and source: "memory = None \<Longrightarrow> source < 16 \<and> source \<notin> borrowed" and result: "result < 16"
    and outside: "source_ok k memory wide st" and moved: "moved_down (int n) borrowed st st'" and kept: "frame_kept k st st'"
    and flat: "gs_segment st [] = 0" and n: "n < 2 ^ 31"
  shows "run (raw_code c @ t) st' = run t (set_reg True result (loaded_value memory source wide st) st')"
proof (cases memory)
  case None
  have segment: "gs_segment st' [] = 0" using moved flat by (simp add: moved_down_def)
  show ?thesis
  proof (cases "source = 4")
    case True
    then have "run (raw_code c @ t) st' = run t (set_reg True result (gs_reg st 4) st')"
      using call None moved result segment n
      by (auto simp: load_source_call_def moved_down_def run_simps in_int32_def)
    then show ?thesis using None True by (simp add: loaded_value_def)
  next
    case False
    then have "run (raw_code c @ t) st' = run t (set_reg True result (clip wide (gs_reg st source)) st')"
      using call None moved result segment source
      by (auto simp: load_source_call_def moved_down_def run_simps set_reg_def)
    then show ?thesis using None False by (simp add: loaded_value_def source_value_def)
  qed
next
  case (Some m)
  then have m: "operand_ok m" "set (address_registers m) \<inter> borrowed = {}" "\<not> mo_RipRelative m"
    using ok outside by (simp_all add: source_ok_def)
  have c: "c = memory_call (memory_head 0x8B wide m result) (int n) m" and fits: "displacement_fits (int n) m"
    using call Some by (auto simp: load_source_call_def Memory_def split: if_splits)
  have read: "read_operand wide (emitted_operand (int n) m) st' = source_value memory source wide st"
    using read_emitted [OF m(1) moved kept m(2) fits] outside Some by simp
  have "run (raw_code c @ t) st' = run t (set_reg wide result (source_value memory source wide st) st')"
    unfolding c memory_call_raw [OF m(3)] raw_code.simps append_assoc
    by (rule run_memory [OF m(1) result]) (simp_all add: immediate_opcode_def exec_modrm_def read)
  moreover have "clip wide (source_value memory source wide st) = source_value memory source wide st"
    by (rule clip_source)
  ultimately show ?thesis using Some by (simp add: set_reg_def loaded_value_def)
qed


subsection \<open>ANDN\<close>

lemma run_andn_source:
  assumes call: "andn_source_call operands scratch = Inr c"
    and ok: "\<And>m. an_Memory operands = Some m \<Longrightarrow> operand_ok m \<and> scratch \<notin> set (address_registers m)"
    and source: "an_Memory operands = None \<Longrightarrow> an_Source operands < 16 \<and> an_Source operands \<noteq> scratch"
    and scratch: "scratch < 16" and outside: "source_ok 144 (an_Memory operands) (an_Wide operands) st"
    and moved: "moved_down 144 {scratch} st st'" and kept: "frame_kept 144 st st'" and flat: "gs_segment st [] = 0"
    and saved: "an_Memory operands = None \<and> an_Source operands = 4 \<longrightarrow>
      load (gs_mem st') (width (an_Wide operands)) (gs_reg st' 4 + 8) = clip (an_Wide operands) (gs_reg st 4)"
  shows "run (raw_code c @ t) st' =
    run t (let v = clip (an_Wide operands) (gs_reg st' scratch AND
             source_value (an_Memory operands) (an_Source operands) (an_Wide operands) st)
           in logic_flags (an_Wide operands) v (set_reg (an_Wide operands) scratch v st'))"
proof (cases "an_Memory operands")
  case None
  have segment: "gs_segment st' [] = 0" using moved flat by (simp add: moved_down_def)
  show ?thesis
    using call None moved scratch source segment saved
    by (auto simp: andn_source_call_def moved_down_def run_simps in_int32_def source_value_def clip_absorb clip_bits Let_def
        split: if_splits)
next
  case (Some m)
  then have m: "operand_ok m" "set (address_registers m) \<inter> {scratch} = {}" "\<not> mo_RipRelative m"
    using ok outside by (auto simp: source_ok_def)
  have c: "c = memory_call (memory_head 0x23 (an_Wide operands) m scratch) 144 m" and fits: "displacement_fits 144 m"
    using call Some by (auto simp: andn_source_call_def Memory_def split: if_splits)
  have read: "read_operand (an_Wide operands) (emitted_operand 144 m) st' =
      source_value (an_Memory operands) (an_Source operands) (an_Wide operands) st"
    using read_emitted [OF m(1) moved kept m(2) fits] outside Some by simp
  show ?thesis
    unfolding c memory_call_raw [OF m(3)] raw_code.simps append_assoc
    by (rule run_memory [OF m(1) scratch])
      (simp_all add: immediate_opcode_def exec_modrm_def read clip_bits clip_source Let_def)
qed


subsection \<open>Borrowing a register always succeeds\<close>

lemma fold_mark_only: "fold mark regs used ! i \<Longrightarrow> used ! i \<or> i \<in> unat ` set regs"
proof (induction regs arbitrary: used)
  case (Cons r regs)
  then have "mark r used ! i \<or> i \<in> unat ` set regs" by simp
  then show ?case by (cases "i = unat r") (auto simp: mark_def)
qed simp

lemma Scratch_free:
  assumes "length regs < 15"
  shows "\<exists>r. Scratch (fold mark regs (replicate 16 False)) name = Inr (r, fold mark (regs @ [r]) (replicate 16 False)) \<and>
    r < 16 \<and> r \<notin> set regs"
proof -
  let ?used = "fold mark regs (replicate 16 False)"
  have "\<not> set scratch_order \<subseteq> unat ` set regs"
  proof
    assume "set scratch_order \<subseteq> unat ` set regs"
    then have "card (set scratch_order) \<le> card (set regs)" by (meson List.finite_set card_image_le card_mono finite_imageI order_trans)
    also have "\<dots> \<le> length regs" by (rule card_length)
    finally show False using assms by (simp add: scratch_order_def)
  qed
  then obtain i where i: "i \<in> set scratch_order" "i \<notin> unat ` set regs" by blast
  then have "i < 16" by (auto simp: scratch_order_def)
  then have "\<not> ?used ! i" using i(2) fold_mark_only [of regs "replicate 16 False" i] by auto
  then have "find (\<lambda>reg. \<not> ?used ! reg) scratch_order \<noteq> None" using i(1) by (auto simp: find_None_iff)
  then obtain r used' where r: "Scratch ?used name = Inr (r, used')" by (auto simp: Scratch_def)
  then have "r < 16 \<and> \<not> ?used ! unat r \<and> used' = mark r ?used" by (intro Scratch_Inr) simp_all
  moreover have "r \<notin> set regs"
  proof
    assume "r \<in> set regs"
    then have "?used ! unat r" using \<open>r < 16 \<and> _\<close> by (intro fold_mark_marks) (simp_all add: word_less_nat_alt)
    then show False using \<open>r < 16 \<and> _\<close> by simp
  qed
  ultimately show ?thesis using r by auto
qed

lemma address_registers_length: "length (address_registers m) \<le> 2"
  by (simp add: address_registers_def Let_def)

abbreviation memory_registers :: "memory_operand option \<Rightarrow> u8 list" where
  "memory_registers memory \<equiv> (case memory of None \<Rightarrow> [] | Some m \<Rightarrow> address_registers m)"

lemma memory_registers_length: "length (memory_registers memory) \<le> 2"
  by (simp add: address_registers_length split: option.split)

lemma used_registers: "list_all (\<lambda>r. r < 16) regs \<Longrightarrow>
  UsedRegisters regs memory = Inr (fold mark (Stack # regs @ memory_registers memory) (replicate 16 False))"
  by (simp add: UsedRegisters_Inr list_all_iff word_less_nat_alt)

lemma borrow_one:
  assumes "list_all (\<lambda>r. r < 16) regs" "length regs \<le> 10" "UsedRegisters regs memory = Inr used"
  obtains r used' where "Scratch used name = Inr (r, used')" "r < 16" "r \<noteq> 4" "r \<notin> set regs"
    "r \<notin> set (memory_registers memory)"
proof -
  let ?regs = "Stack # regs @ memory_registers memory"
  have "length ?regs < 15" using assms(2) memory_registers_length [of memory] by simp
  then show thesis using Scratch_free [of ?regs name] used_registers [OF assms(1), of memory] assms(3) that by auto
qed

lemma borrow_two:
  assumes "list_all (\<lambda>r. r < 16) regs" "length regs \<le> 10" "UsedRegisters regs memory = Inr used"
  obtains r s used' used'' where "Scratch used name = Inr (r, used')" "Scratch used' name = Inr (s, used'')"
    "r < 16" "r \<noteq> 4" "r \<notin> set regs" "r \<notin> set (memory_registers memory)"
    "s < 16" "s \<noteq> 4" "s \<notin> set regs" "s \<notin> set (memory_registers memory)" "s \<noteq> r"
proof -
  let ?regs = "Stack # regs @ memory_registers memory"
  have "length ?regs < 15" using assms(2) memory_registers_length [of memory] by simp
  then obtain r where r: "Scratch used name = Inr (r, fold mark (?regs @ [r]) (replicate 16 False))" "r < 16" "r \<notin> set ?regs"
    using Scratch_free [of ?regs name] used_registers [OF assms(1), of memory] assms(3) by auto
  have "length (?regs @ [r]) < 15" using assms(2) memory_registers_length [of memory] by simp
  then show thesis using Scratch_free [of "?regs @ [r]" name] r that by auto
qed

subsection \<open>The decoded operands\<close>

lemma vex_memory_ok:
  assumes "vex_memory data (vex_offset data) = Inr (Some m, stop)" "\<not> mo_RipRelative m"
  shows "operand_ok m"
  using assms decoded_operand_ok [OF _ _ vex_prefixes] by (auto simp: vex_memory_def res_simps split: if_splits)

lemma vex_source_ok:
  "vex_source data (vex_offset data) name = Inr (Some m) \<Longrightarrow> \<not> mo_RipRelative m \<Longrightarrow> operand_ok m"
  by (auto simp: vex_source_def res_simps dest: vex_memory_ok split: if_splits)

lemma decoded_andn:
  assumes "DecodeAndn data = Inr (Some operands)"
  shows "an_Destination operands < 16" "an_InvertedSource operands < 16" "an_Source operands < 16"
    and "an_Memory operands = Some m \<Longrightarrow> \<not> mo_RipRelative m \<Longrightarrow> operand_ok m"
  using assms by (auto simp: DecodeAndn_def Let_def res_simps vex_register_less dest: vex_source_ok split: if_splits)


lemma run_andn:
  fixes operands :: andn_operands and st :: gpr_state
  defines "wide \<equiv> an_Wide operands" and "dst \<equiv> an_Destination operands" and "neg \<equiv> an_InvertedSource operands"
    and "mem \<equiv> an_Memory operands" and "src \<equiv> an_Source operands"
  defines "v \<equiv> clip wide (NOT (gs_reg st neg)) AND source_value mem src wide st"
  assumes calls: "andn_calls operands = Inr cs"
    and regs: "dst < 16" "neg < 16" "src < 16"
    and ok: "\<And>m. mem = Some m \<Longrightarrow> operand_ok m"
    and outside: "source_ok 144 mem wide st" and flat: "gs_segment st [] = 0"
  shows "\<exists>st'. run (concat (map raw_code cs)) st = Some st' \<and> register_kept dst v st st' \<and> frame_kept 144 st st' \<and>
    flags_after False (v = 0) (sign wide v) False st st'"
proof -
  define f where "f = gs_reg st 4 - 144"
  have sp: "gs_reg st 4 = f + 144" by (simp add: f_def)
  define regs' where "regs' = (if mem \<noteq> None then [dst, neg] else [dst, neg, src])"
  have regs'_ok: "list_all (\<lambda>r. r < 16) regs'" "length regs' \<le> 10" using regs by (simp_all add: regs'_def)
  have "andn_used operands = UsedRegisters regs' mem"
    by (simp add: andn_used_def regs'_def mem_def dst_def neg_def src_def)
  then obtain used where used: "andn_used operands = Inr used" "UsedRegisters regs' mem = Inr used"
    using calls unfolding andn_calls_def bind_res_Inr_iff by metis
  obtain s used' where s: "Scratch used ''ANDN'' = Inr (s, used')" "s < 16" "s \<noteq> 4" "s \<notin> set regs'"
      "s \<notin> set (memory_registers mem)"
    by (rule borrow_one [OF regs'_ok used(2)])
  then have distinct: "s \<noteq> dst" "s \<noteq> neg" "mem = None \<Longrightarrow> s \<noteq> src" by (auto simp: regs'_def split: if_splits)
  obtain c where c: "andn_source_call operands s = Inr c"
    using calls unfolding andn_calls_def used(1) bind_res.simps s(1) prod.case bind_res_Inr_iff by blast
  define own where "own = (mem = None \<and> src = 4)"
  have source: "run (raw_code c @ t) st' = run t (let w = clip wide (gs_reg st' s AND source_value mem src wide st)
      in logic_flags wide w (set_reg wide s w st'))"
    if "moved_down 144 {s} st st'" "frame_kept 144 st st'"
      "own \<longrightarrow> load (gs_mem st') (width wide) (gs_reg st' 4 + 8) = clip wide (gs_reg st 4)" for st' t
    unfolding wide_def mem_def src_def
    by (rule run_andn_source [OF c]) (use that s distinct regs ok outside flat in \<open>auto simp: wide_def mem_def src_def own_def\<close>)
  have cs: "concat (map raw_code cs) =
      StackBytes 0x8D True 4 (- 144) @ StackBytes 0x89 True s 0 @
      (if own then StackBytes 0x8D True s 144 @ StackBytes 0x89 True s 8 else []) @
      (if neg = 4 then StackBytes 0x8D True s 144 else RegisterBytes 0x8B wide s neg) @
      RegisterBytes 0xF7 wide 2 s @ raw_code c @
      (if dst = 4 then StackBytes 0x89 wide s 8 else RegisterBytes 0x8B wide dst s) @
      StackBytes 0x8B True s 0 @ StackBytes 0x8D True 4 144 @
      (if dst = 4 then StackBytes 0x8B wide 4 (8 - 144) else [])"
    using calls unfolding andn_calls_def used(1) bind_res.simps s(1) prod.case c
    by (auto simp: wide_def dst_def neg_def mem_def src_def own_def)
  show ?thesis
    unfolding cs
    using s(2,3) distinct regs flat sp
    by (cases own; cases "neg = 4"; cases "dst = 4")
      (simp_all add: exec_simps source store_outside [of 16 _ f] v_def add.commute [of 8 f], auto simp: fun_eq_iff)
qed

definition raw_call :: "stub_call \<Rightarrow> bool" where
  "raw_call c \<longleftrightarrow> (\<exists>code. c = CallRaw code)"

lemma raw_call_simps [simp]:
  "raw_call (CallRaw code)" "raw_call (Register opc wide reg rm)" "raw_call (StackSlot opc wide reg displacement)"
  "\<not> mo_RipRelative m \<Longrightarrow> raw_call (memory_call head frame m)"
  by (simp_all add: raw_call_def Register_def StackSlot_def memory_call_raw)

lemma emit_raw:
  "calls operands = Inr cs \<Longrightarrow> list_all raw_call cs \<Longrightarrow>
   \<exists>b'. emit_calls calls operands b = Inr b' \<and> sb_bytes b' = sb_bytes b @ concat (map raw_code cs)"
  by (simp add: emit_calls_def perform_raw raw_call_def list_all_iff)

text \<open>A memory operand whose displacement can be shifted by the frame.\<close>

definition source_fits :: "int \<Rightarrow> memory_operand option \<Rightarrow> bool" where
  "source_fits frame memory \<longleftrightarrow> (\<forall>m. memory = Some m \<longrightarrow> displacement_fits frame m)"

lemma andn_calls_total:
  assumes regs: "an_Destination operands < 16" "an_InvertedSource operands < 16" "an_Source operands < 16"
    and fits: "source_fits 144 (an_Memory operands)" and rip: "\<And>m. an_Memory operands = Some m \<Longrightarrow> \<not> mo_RipRelative m"
  obtains cs where "andn_calls operands = Inr cs" "list_all raw_call cs"
proof -
  define regs' where "regs' = (if an_Memory operands \<noteq> None then [an_Destination operands, an_InvertedSource operands]
     else [an_Destination operands, an_InvertedSource operands, an_Source operands])"
  have regs'_ok: "list_all (\<lambda>r. r < 16) regs'" "length regs' \<le> 10" using regs by (simp_all add: regs'_def)
  have used: "andn_used operands = UsedRegisters regs' (an_Memory operands)" by (simp add: andn_used_def regs'_def)
  obtain r used' where s: "Scratch (fold mark (Stack # regs' @ memory_registers (an_Memory operands)) (replicate 16 False)) ''ANDN''
      = Inr (r, used')"
    by (rule borrow_one [OF regs'_ok used_registers [OF regs'_ok(1)]])
  obtain c where c: "andn_source_call operands r = Inr c" "raw_call c"
    using fits rip by (cases "an_Memory operands")
      (auto simp: andn_source_call_def Memory_def source_fits_def)
  show thesis
    using that c(2) unfolding andn_calls_def used used_registers [OF regs'_ok(1)] bind_res.simps s prod.case c(1) by simp
qed


subsection \<open>BLSR, BLSMSK and BLSI\<close>

definition bls_value :: "bls_operation \<Rightarrow> bool \<Rightarrow> u64 \<Rightarrow> u64" where
  "bls_value operation wide v =
     (case operation of
        BlsReset \<Rightarrow> v AND clip wide (v - 1)
      | BlsMask \<Rightarrow> v XOR clip wide (v - 1)
      | BlsIsolate \<Rightarrow> v AND clip wide (- v))"

definition bls_carry :: "bls_operation \<Rightarrow> u64 \<Rightarrow> bool" where
  "bls_carry operation v \<longleftrightarrow> (if operation = BlsIsolate then v \<noteq> 0 else v = 0)"

lemma decoded_bls:
  assumes "DecodeBls data = Inr (Some operands)"
  shows "bl_Destination operands < 16" "bl_Source operands < 16"
    and "bl_Memory operands = Some m \<Longrightarrow> \<not> mo_RipRelative m \<Longrightarrow> operand_ok m"
  using assms by (auto simp: DecodeBls_def Let_def res_simps vex_register_less dest: vex_source_ok split: if_splits)

text \<open>The two computations between which the conditional jump chooses.\<close>

lemma bls_lengths: "length (bls_nonzero operands r s) + 2 < 128" "length (bls_zero operands r) < 128"
  by (auto simp: bls_nonzero_def bls_zero_def RegisterBytes_def leaMinusOne_def split: bls_operation.split)

lemma run_bls_choice:
  fixes operands :: bls_operands and r s :: u8
  defines "wide \<equiv> bl_Wide operands"
  defines "nz \<equiv> bls_nonzero operands r s" and "z \<equiv> bls_zero operands r"
  assumes regs: "r < 16" "s < 16" "r \<noteq> s" "r \<noteq> 4" "s \<noteq> 4"
    and zf: "bit (gs_flags st) ZF = (clip wide (gs_reg st r) = 0)"
  shows "\<exists>R other. run (0x74 # of_nat (length nz + 2) # nz @ 0xEB # of_nat (length z) # z @ t) st =
    run t (st\<lparr>gs_reg := R,
      gs_flags := (let v = bls_value (bl_Operation operands) wide (clip wide (gs_reg st r)) in
        status (bls_carry (bl_Operation operands) (clip wide (gs_reg st r))) (v = 0) (sign wide v) False other (gs_flags st))\<rparr>) \<and>
    R r = bls_value (bl_Operation operands) wide (clip wide (gs_reg st r)) \<and> (\<forall>q. q \<noteq> r \<and> q \<noteq> s \<longrightarrow> R q = gs_reg st q)"
proof -
  let ?a = "nz @ [0xEB, of_nat (length z)]"
  have "run (0x74 # of_nat (length ?a) # ?a @ z @ t) st = run (if bit (gs_flags st) ZF then z @ t else ?a @ z @ t) st"
    by (rule run_jump_if(1)) (use bls_lengths(1) [of operands r s] in \<open>simp add: nz_def\<close>)
  then have jump: "run (0x74 # of_nat (length nz + 2) # nz @ 0xEB # of_nat (length z) # z @ t) st =
      run (if clip wide (gs_reg st r) = 0 then z @ t else nz @ 0xEB # of_nat (length z) # z @ t) st"
    using zf by simp
  show ?thesis
  proof (cases "clip wide (gs_reg st r) = 0")
    case True
    show ?thesis
      unfolding jump using True regs
      by (cases "bl_Operation operands"; simp add: z_def bls_zero_def bls_value_def bls_carry_def wide_def exec_simps)
        (intro exI conjI, rule refl, simp, simp)+
  next
    case False
    have over: "run (0xEB # of_nat (length z) # z @ t) st' = run t st'" for st'
      by (rule run_jump_over) (simp add: z_def bls_lengths)
    show ?thesis
      unfolding jump using False regs
      by (cases "bl_Operation operands"; simp add: nz_def bls_nonzero_def bls_value_def bls_carry_def wide_def exec_simps over)
        (intro exI conjI, rule refl, simp, simp)+
  qed
qed


lemma run_bls:
  fixes operands :: bls_operands and st :: gpr_state
  defines "wide \<equiv> bl_Wide operands" and "dst \<equiv> bl_Destination operands" and "mem \<equiv> bl_Memory operands"
    and "src \<equiv> bl_Source operands"
  defines "v \<equiv> source_value mem src wide st"
  defines "w \<equiv> bls_value (bl_Operation operands) wide v"
  assumes calls: "bls_calls operands = Inr cs"
    and regs: "dst < 16" "src < 16"
    and ok: "\<And>m. mem = Some m \<Longrightarrow> operand_ok m"
    and outside: "source_ok 144 mem wide st" and flat: "gs_segment st [] = 0"
  shows "\<exists>st'. run (concat (map raw_code cs)) st = Some st' \<and> register_kept dst w st st' \<and> frame_kept 144 st st' \<and>
    flags_after (bls_carry (bl_Operation operands) v) (w = 0) (sign wide w) False st st'"
proof -
  let ?name = "BlsName (bl_Operation operands)"
  define f where "f = gs_reg st 4 - 144"
  have sp: "gs_reg st 4 = f + 144" by (simp add: f_def)
  define regs' where "regs' = (if mem \<noteq> None then [dst] else [dst, src])"
  have regs'_ok: "list_all (\<lambda>r. r < 16) regs'" "length regs' \<le> 10" using regs by (simp_all add: regs'_def)
  have "bls_used operands = UsedRegisters regs' mem"
    by (simp add: bls_used_def regs'_def mem_def dst_def src_def)
  then obtain used where used: "bls_used operands = Inr used" "UsedRegisters regs' mem = Inr used"
    using calls unfolding bls_calls_def Let_def bind_res_Inr_iff by metis
  obtain r s used' used'' where s: "Scratch used ?name = Inr (r, used')" "Scratch used' ?name = Inr (s, used'')"
      "r < 16" "r \<noteq> 4" "r \<notin> set regs'" "r \<notin> set (memory_registers mem)"
      "s < 16" "s \<noteq> 4" "s \<notin> set regs'" "s \<notin> set (memory_registers mem)" "s \<noteq> r"
    by (rule borrow_two [OF regs'_ok used(2)])
  then have distinct: "r \<noteq> dst" "s \<noteq> dst" "mem = None \<Longrightarrow> r \<noteq> src \<and> s \<noteq> src" by (auto simp: regs'_def split: if_splits)
  obtain c where c: "load_source_call mem src wide r ?name 144 = Inr c"
    using calls unfolding bls_calls_def Let_def used(1) bind_res.simps s(1,2) prod.case bind_res_Inr_iff mem_def src_def wide_def
    by blast
  have source: "run (raw_code c @ t) st' = run t (set_reg True r (loaded_value mem src wide st) st')"
    if "moved_down 144 {r, s} st st'" "frame_kept 144 st st'" for st' t
    by (rule run_load_source [where n = 144 and k = 144 and borrowed = "{r, s}"])
      (use that s distinct regs ok outside flat c in auto)
  define nz z where "nz = bls_nonzero operands r s" and "z = bls_zero operands r"
  let ?jump = "0x74 # of_nat (length nz + 2) # nz @ 0xEB # of_nat (length z) # z @ StackBytes 0x8B True s 8 @
      (if dst = 4 then StackBytes 0x89 wide r 8 else RegisterBytes 0x8B wide dst r) @
      StackBytes 0x8B True r 0 @ (if dst = 4 then StackBytes 0x8B wide 4 8 else StackBytes 0x8D True 4 144)"
  have cs: "concat (map raw_code cs) =
      StackBytes 0x8D True 4 (- 144) @ StackBytes 0x89 True r 0 @ StackBytes 0x89 True s 8 @ raw_code c @
      RegisterBytes 0x85 wide r r @ ?jump"
    using calls unfolding bls_calls_def Let_def used(1) bind_res.simps s(1,2) prod.case c [unfolded mem_def src_def wide_def]
    by (auto simp: wide_def dst_def nz_def z_def)
  let ?lv = "loaded_value mem src wide st"
  define st1 where "st1 = st\<lparr>gs_mem := store (store (gs_mem st) 8 f (gs_reg st r)) 8 (f + 8) (gs_reg st s),
    gs_reg := (gs_reg st)(4 := f, r := ?lv),
    gs_flags := status False (v = 0) (sign wide v) False (gs_oracle st (gs_flags st)) (gs_flags st)\<rparr>"
  have v: "clip wide ?lv = v" by (simp add: v_def clip_loaded)
  have "run (concat (map raw_code cs)) st = run ?jump st1"
    unfolding cs using s distinct regs flat sp
    by (simp add: exec_simps source store_outside [of 16 _ f] st1_def v [symmetric])
  moreover have "bit (gs_flags st1) ZF = (clip wide (gs_reg st1 r) = 0)" by (simp add: st1_def v)
  moreover have "clip wide (gs_reg st1 r) = v" by (simp add: st1_def v)
  ultimately obtain R other where jump: "run (concat (map raw_code cs)) st =
      run (StackBytes 0x8B True s 8 @
      (if dst = 4 then StackBytes 0x89 wide r 8 else RegisterBytes 0x8B wide dst r) @
      StackBytes 0x8B True r 0 @ (if dst = 4 then StackBytes 0x8B wide 4 8 else StackBytes 0x8D True 4 144))
      (st1\<lparr>gs_reg := R, gs_flags := status (bls_carry (bl_Operation operands) v) (w = 0) (sign wide w) False other (gs_flags st1)\<rparr>)"
      and R: "R r = w" "\<And>q. q \<noteq> r \<Longrightarrow> q \<noteq> s \<Longrightarrow> R q = gs_reg st1 q"
    using run_bls_choice [of r s st1 operands] s unfolding nz_def z_def w_def wide_def Let_def by metis
  have wc: "clip wide w = w" unfolding w_def bls_value_def v_def by (simp add: clip_bits split: bls_operation.split)
  have "R 4 = f" "\<And>q. q \<noteq> r \<Longrightarrow> q \<noteq> s \<Longrightarrow> q \<noteq> 4 \<Longrightarrow> R q = gs_reg st q" using R(2) s by (simp_all add: st1_def)
  then show ?thesis
    unfolding jump using s distinct regs flat sp R(1) wc
    by (cases "dst = 4") (simp_all add: exec_simps store_outside [of 16 _ f] st1_def, auto simp: fun_eq_iff)
qed


subsection \<open>SHLX, SHRX, SARX and RORX\<close>

definition shift_value :: "shift_operation \<Rightarrow> bool \<Rightarrow> u64 \<Rightarrow> nat \<Rightarrow> u64" where
  "shift_value operation wide v n =
     (case operation of
        ShiftLeft \<Rightarrow> shift_left wide v n
      | LogicalRight \<Rightarrow> shift_right wide v n
      | ArithmeticRight \<Rightarrow> shift_arithmetic wide v n
      | RotateRight \<Rightarrow> rotate_right wide v n)"

text \<open>The count is a register's value, or the immediate of \<open>RORX\<close>.\<close>

definition shift_amount :: "shift_operands \<Rightarrow> gpr_state \<Rightarrow> nat" where
  "shift_amount operands st =
     count_of (sh_Wide operands)
       (if sh_Operation operands = RotateRight then ucast (sh_Count operands) else gs_reg st (sh_Count operands))"

lemma decoded_shift:
  assumes "DecodeShift data = Inr (Some operands)"
  shows "sh_Destination operands < 16" "sh_Source operands < 16"
    and "sh_Operation operands \<noteq> RotateRight \<Longrightarrow> sh_Count operands < 16"
    and "sh_Memory operands = Some m \<Longrightarrow> \<not> mo_RipRelative m \<Longrightarrow> operand_ok m"
  using assms by (auto simp: DecodeShift_def Let_def res_simps vex_register_less shift_count_def dest: vex_memory_ok
      split: if_splits option.splits)

lemma run_shift_digit:
  assumes "r < 16" "operation \<noteq> RotateRight"
  shows "run (RegisterBytes 0xD3 wide (shiftDigit operation) r @ t) st =
    run t (any_flags (set_reg wide r (shift_value operation wide (clip wide (gs_reg st r)) (count_of wide (gs_reg st 1))) st))"
  using assms by (cases operation) (simp_all add: shiftDigit_def run_simps shift_value_def)

lemma run_shift:
  fixes operands :: shift_operands and st :: gpr_state
  defines "wide \<equiv> sh_Wide operands" and "dst \<equiv> sh_Destination operands" and "mem \<equiv> sh_Memory operands"
    and "src \<equiv> sh_Source operands" and "cnt \<equiv> sh_Count operands"
  defines "v \<equiv> source_value mem src wide st"
  defines "w \<equiv> clip wide (shift_value (sh_Operation operands) wide v (shift_amount operands st))"
  assumes calls: "shift_calls operands = Inr cs"
    and regs: "dst < 16" "src < 16" "sh_Operation operands \<noteq> RotateRight \<Longrightarrow> cnt < 16"
    and ok: "\<And>m. mem = Some m \<Longrightarrow> operand_ok m"
    and outside: "source_ok 168 mem wide st" and flat: "gs_segment st [] = 0"
  shows "\<exists>st'. run (concat (map raw_code cs)) st = Some st' \<and> register_kept dst w st st' \<and> frame_kept 168 st st' \<and>
    gs_flags st' = gs_flags st"
proof -
  let ?name = "ShiftName (sh_Operation operands)"
  define g where "g = gs_reg st 4 - 168"
  have sp: "gs_reg st 4 = g + 168" by (simp add: g_def)
  define rotate where "rotate = (sh_Operation operands = RotateRight)"
  define regs' where "regs' = (if mem \<noteq> None then [dst] else [dst, src]) @ (if rotate then [] else [cnt, 1])"
  have regs'_ok: "list_all (\<lambda>r. r < 16) regs'" "length regs' \<le> 10" using regs by (simp_all add: regs'_def rotate_def)
  have "shift_used operands = UsedRegisters regs' mem"
    by (simp add: shift_used_def regs'_def mem_def dst_def src_def cnt_def rotate_def)
  then obtain used where used: "shift_used operands = Inr used" "UsedRegisters regs' mem = Inr used"
    using calls unfolding shift_calls_def Let_def bind_res_Inr_iff by metis
  obtain r used' where s: "Scratch used ?name = Inr (r, used')" "r < 16" "r \<noteq> 4" "r \<notin> set regs'" "r \<notin> set (memory_registers mem)"
    by (rule borrow_one [OF regs'_ok used(2)])
  then have distinct: "r \<noteq> dst" "mem = None \<Longrightarrow> r \<noteq> src" "\<not> rotate \<Longrightarrow> r \<noteq> cnt \<and> r \<noteq> 1"
    by (auto simp: regs'_def split: if_splits)
  obtain c where c: "load_source_call mem src wide r ?name 160 = Inr c"
    using calls unfolding shift_calls_def Let_def used(1) bind_res.simps s(1) prod.case bind_res_Inr_iff mem_def src_def wide_def
    by auto
  have source: "run (raw_code c @ t) st' = run t (set_reg True r (loaded_value mem src wide st) st')"
    if "moved_down 160 {r} st st'" "frame_kept 168 st st'" for st' t
    by (rule run_load_source [where n = 160 and k = 168 and borrowed = "{r}"])
      (use that s distinct regs ok outside flat c in auto)
  have cs: "concat (map raw_code cs) =
      StackBytes 0x8D True 4 (- 160) @ StackBytes 0x89 True r 0 @ (if \<not> rotate then StackBytes 0x89 True 1 8 else []) @
      [0x9C] @ StackBytes 0x8F False 0 16 @ raw_code c @
      (if rotate then RegisterBytes 0xC1 wide 1 r @ [cnt]
       else (if cnt = 4 then StackBytes 0x8D True 1 160 else if cnt \<noteq> 1 then RegisterBytes 0x8B True 1 cnt else []) @
         RegisterBytes 0xD3 wide (shiftDigit (sh_Operation operands)) r) @
      (if dst = 4 then StackBytes 0x89 wide r 24
       else if \<not> rotate \<and> dst = 1 then StackBytes 0x89 True r 8 else RegisterBytes 0x8B wide dst r) @
      StackBytes 0xFF False 6 16 @ [0x9D] @ (if \<not> rotate then StackBytes 0x8B True 1 8 else []) @
      StackBytes 0x8B True r 0 @ (if dst = 4 then StackBytes 0x8B wide 4 24 else StackBytes 0x8D True 4 160)"
    using calls c unfolding shift_calls_def Let_def used(1) bind_res.simps s(1) prod.case mem_def src_def wide_def
    by (auto simp: dst_def cnt_def rotate_def shiftDigit_def)
  let ?lv = "loaded_value mem src wide st"
  have v: "clip wide ?lv = v" by (simp add: v_def clip_loaded)
  show ?thesis
  proof (cases rotate)
    case True
    have w: "w = clip wide (rotate_right wide v (count_of wide (ucast cnt)))"
      using True by (simp add: w_def shift_amount_def shift_value_def rotate_def wide_def cnt_def)
    show ?thesis unfolding cs w using True s distinct regs flat sp
      by (cases "dst = 4") (simp_all add: exec_simps source store_outside [of 40 _ g] v add.commute [of "numeral _" g], auto simp: fun_eq_iff)
  next
    case False
    note digit = run_shift_digit [OF _ False [unfolded rotate_def]]
    have w: "w = clip wide (shift_value (sh_Operation operands) wide v (count_of wide (gs_reg st cnt)))"
      using False by (simp add: w_def shift_amount_def rotate_def wide_def cnt_def)
    have cnt: "cnt < 16" using False regs(3) by (simp add: rotate_def)
    show ?thesis unfolding cs w using False s(2,3) distinct regs(1,2) cnt flat sp
      by (cases "dst = 4"; cases "dst = 1"; cases "cnt = 4"; cases "cnt = 1")
        (simp_all add: exec_simps source digit store_outside [of 40 _ g] v add.commute [of "numeral _" g],
          auto simp: fun_eq_iff)
  qed
qed


subsection \<open>BZHI and BEXTR\<close>

text \<open>The control register holds a bit position in its low byte and, for \<open>BEXTR\<close>, a length in the next.\<close>

definition bitfield_value :: "bitfield_operation \<Rightarrow> bool \<Rightarrow> u64 \<Rightarrow> u64 \<Rightarrow> u64" where
  "bitfield_value operation wide v c =
     (case operation of
        BitfieldZeroHigh \<Rightarrow> if low8 c < 8 * width wide then take_bit (low8 c) v else v
      | BitfieldExtract \<Rightarrow> take_bit (high8 c) (drop_bit (low8 c) v))"

definition bitfield_carry :: "bitfield_operation \<Rightarrow> bool \<Rightarrow> u64 \<Rightarrow> bool" where
  "bitfield_carry operation wide c \<longleftrightarrow> operation = BitfieldZeroHigh \<and> 8 * width wide \<le> low8 c"

lemma decoded_bitfield:
  assumes "DecodeBitfield data = Inr (Some operands)"
  shows "bf_Destination operands < 16" "bf_Source operands < 16" "bf_Control operands < 16"
    and "bf_Memory operands = Some m \<Longrightarrow> \<not> mo_RipRelative m \<Longrightarrow> operand_ok m"
  using assms by (auto simp: DecodeBitfield_def Let_def res_simps vex_register_less dest: vex_memory_ok split: if_splits)

lemma run_lowMask:
  assumes "m < 16" "m \<noteq> 1" "n < 8 * width (bf_Wide operands)" "count_of (bf_Wide operands) (gs_reg st 1) = n"
    and "clip (bf_Wide operands) (gs_reg st m) = clip (bf_Wide operands) (- 1)"
  shows "run (lowMask operands m @ t) st =
    run t ((any_flags st)\<lparr>gs_reg := (gs_reg st)(m := mask n)\<rparr>)"
  using assms low_mask [of n "bf_Wide operands"] by (simp add: lowMask_def exec_simps)

lemma clip_fields [simp]:
  "clip wide (take_bit n (clip wide v)) = take_bit n (clip wide v)"
  "clip wide (take_bit n (drop_bit k (clip wide v))) = take_bit n (drop_bit k (clip wide v))"
  "clip wide (drop_bit k (clip wide v)) = drop_bit k (clip wide v)"
  by (auto simp: clip_def bit_simps intro!: bit_word_eqI)

lemma clip_source_fields:
  "clip wide (take_bit n (source_value memory source wide st)) = take_bit n (source_value memory source wide st)"
  "clip wide (take_bit n (drop_bit k (source_value memory source wide st))) = take_bit n (drop_bit k (source_value memory source wide st))"
  using clip_fields(1,2) [where wide = wide and v = "source_value memory source wide st"] by simp_all

lemma bits_less: "low8 c < unat (bitfield_bits operands) \<longleftrightarrow> low8 c < 8 * width (bf_Wide operands)"
  by (simp add: bitfield_bits_def width_def)

lemma low_byte_bits:
  "low_byte 1 st < bitfield_bits operands \<longleftrightarrow> low8 (gs_reg st 1) < 8 * width (bf_Wide operands)"
  "low_byte 5 st < bitfield_bits operands \<longleftrightarrow> high8 (gs_reg st 1) < 8 * width (bf_Wide operands)"
  by (simp_all add: low_byte_def low8_def high8_def bitfield_bits_def width_def word_less_nat_alt)

text \<open>The state after the computation: the result, the flags, and two registers that are restored later.\<close>

definition bitfield_computed :: "bitfield_operands \<Rightarrow> u8 \<Rightarrow> u8 \<Rightarrow> gpr_state \<Rightarrow> (u8 \<Rightarrow> u64) \<Rightarrow> u64 \<Rightarrow> bool" where
  "bitfield_computed operands r m st R fl \<longleftrightarrow>
     (let wide = bf_Wide operands; c = gs_reg st 1; w = bitfield_value (bf_Operation operands) wide (clip wide (gs_reg st r)) c
      in R r = w \<and> (\<forall>q. q \<noteq> r \<and> q \<noteq> m \<and> q \<noteq> 1 \<longrightarrow> R q = gs_reg st q) \<and>
         (\<exists>other. fl = status (bitfield_carry (bf_Operation operands) wide c) (w = 0) (sign wide w) False other (gs_flags st)))"

lemma run_zeroHigh:
  assumes regs: "r < 16" "m < 16" "r \<noteq> m" "r \<noteq> 1" "m \<noteq> 1" and operation: "bf_Operation operands = BitfieldZeroHigh"
    and ones: "clip (bf_Wide operands) (gs_reg st m) = clip (bf_Wide operands) (- 1)"
  shows "\<exists>R fl. run (concat (map raw_code (zeroHigh_calls operands r m)) @ t) st = run t (st\<lparr>gs_reg := R, gs_flags := fl\<rparr>) \<and>
    bitfield_computed operands r m st R fl"
proof -
  let ?wide = "bf_Wide operands"
  define high where "high = (if ?wide then [] else RegisterBytes 0x8B False r r) @ RegisterBytes 0x85 ?wide r r @ [kSetCarry]"
  define low where "low = lowMask operands m @ RegisterBytes 0x21 ?wide m r"
  let ?a = "high @ [0xEB, of_nat (length low)]"
  have lengths: "length ?a < 128" "length low < 128"
    by (simp_all add: high_def low_def lowMask_def RegisterBytes_def)
  have code: "concat (map raw_code (zeroHigh_calls operands r m)) @ t =
      0x80 # 0xF9 # bitfield_bits operands # 0x72 # of_nat (length ?a) # ?a @ low @ t"
    by (simp add: zeroHigh_calls_def compareControlByte_def high_def low_def Let_def)
  let ?v = "clip ?wide (gs_reg st r)" and ?n = "low8 (gs_reg st 1)"
  define fl where "fl = gs_flags (let v = low_byte 1 st; bits = bitfield_bits operands in
    set_status (v < bits) (v = bits) (bit (v - bits) 7) (sint v - sint bits \<noteq> sint (v - bits)) st)"
  have fl: "bit fl CF = (?n < 8 * width ?wide)" "status a b c d e fl = status a b c d e (gs_flags st)" for a b c d e
    by (simp_all add: fl_def set_status_def low_byte_bits Let_def)
  have jump: "run (concat (map raw_code (zeroHigh_calls operands r m)) @ t) st =
      run (if ?n < 8 * width ?wide then low @ t else ?a @ low @ t) (st\<lparr>gs_flags := fl\<rparr>)"
    unfolding code run_compare run_jump_if(2) [OF lengths(1)] by (simp add: fl_def set_status_def low_byte_bits Let_def)
  show ?thesis
  proof (cases "?n < 8 * width ?wide")
    case True
    have "clip ?wide (mask ?n) = mask ?n" using low_mask [OF True] clip_clip by metis
    then have "?v AND clip ?wide (mask ?n) = take_bit ?n ?v" by (simp add: take_bit_eq_mask)
    then show ?thesis
      unfolding jump low_def using True regs ones
      by (simp add: run_lowMask count_low8 exec_simps bitfield_computed_def operation bitfield_value_def bitfield_carry_def fl)
        (intro exI conjI, rule refl, simp_all)
  next
    case False
    have over: "run (0xEB # of_nat (length low) # low @ t) st' = run t st'" for st'
      by (rule run_jump_over) (simp add: lengths)
    let ?R = "(gs_reg st)(r := ?v)"
    let ?fl = "status True (?v = 0) (sign ?wide ?v) False (gs_oracle st fl) (gs_flags st)"
    have "run (high @ 0xEB # of_nat (length low) # low @ t) (st\<lparr>gs_flags := fl\<rparr>) = run t (st\<lparr>gs_reg := ?R, gs_flags := ?fl\<rparr>)"
      unfolding high_def using regs by (cases ?wide) (simp_all add: over exec_simps fl)
    moreover have "bitfield_computed operands r m st ?R ?fl"
      using False by (auto simp: bitfield_computed_def operation bitfield_value_def bitfield_carry_def Let_def)
    ultimately show ?thesis unfolding jump using False by auto
  qed
qed

lemma run_extract:
  assumes regs: "r < 16" "m < 16" "r \<noteq> m" "r \<noteq> 1" "m \<noteq> 1" and operation: "bf_Operation operands = BitfieldExtract"
    and ones: "gs_reg st m = clip (bf_Wide operands) (- 1)"
  shows "\<exists>R fl. run (concat (map raw_code (extract_calls operands r m)) @ t) st = run t (st\<lparr>gs_reg := R, gs_flags := fl\<rparr>) \<and>
    bitfield_computed operands r m st R fl"
proof -
  let ?wide = "bf_Wide operands" and ?bits = "bitfield_bits operands"
  define len where "len = [0x88, 0xE9] @ lowMask operands m"
  define zero where "zero = RegisterBytes 0x31 ?wide r r"
  define rest where "rest = RegisterBytes 0x21 ?wide m r @ t"
  let ?a = "len @ [0xEB, of_nat (length zero)] @ zero"
  define shifted where "shifted = RegisterBytes 0xD3 ?wide 5 r @ [0x80, 0xFD, ?bits, 0x73, of_nat (length ?a)] @ len @
    [0xEB, of_nat (length zero)]"
  have lengths: "length ?a < 128" "length shifted < 128" "length zero < 128"
    by (simp_all add: len_def zero_def shifted_def lowMask_def RegisterBytes_def)
  have code: "concat (map raw_code (extract_calls operands r m)) @ t =
      0x80 # 0xF9 # ?bits # 0x73 # of_nat (length shifted) # shifted @ zero @ rest"
    by (simp add: extract_calls_def compareControlByte_def len_def zero_def shifted_def rest_def Let_def add.commute)
  let ?v = "clip ?wide (gs_reg st r)" and ?c = "gs_reg st 1"
  define fl where "fl = gs_flags (let v = low_byte 1 st; bits = ?bits in
    set_status (v < bits) (v = bits) (bit (v - bits) 7) (sint v - sint bits \<noteq> sint (v - bits)) st)"
  have fl: "bit fl CF = (low8 ?c < 8 * width ?wide)" "status a b c d e fl = status a b c d e (gs_flags st)" for a b c d e
    by (simp_all add: fl_def set_status_def low_byte_bits Let_def)
  have jump: "run (concat (map raw_code (extract_calls operands r m)) @ t) st =
      run (if low8 ?c < 8 * width ?wide then shifted @ zero @ rest else zero @ rest) (st\<lparr>gs_flags := fl\<rparr>)"
    unfolding code run_compare run_jump_if(3) [OF lengths(2)] by (simp add: fl_def set_status_def low_byte_bits Let_def)
  show ?thesis
  proof (cases "low8 ?c < 8 * width ?wide")
    case False
    then have "drop_bit (low8 ?c) ?v = 0" 
      by (intro bit_word_eqI) (auto simp: clip_def width_def bit_simps dest: bit_imp_le_length split: if_splits)
    then show ?thesis
      unfolding jump rest_def zero_def using False regs ones
      by (simp add: exec_simps bitfield_computed_def operation bitfield_value_def bitfield_carry_def fl)
        (intro exI conjI, rule refl, simp_all)
  next
    case True
    let ?w = "drop_bit (low8 ?c) ?v" and ?k = "high8 ?c"
    define st1 where "st1 = any_flags (st\<lparr>gs_reg := (gs_reg st)(r := ?w), gs_flags := fl\<rparr>)"
    define st2 where "st2 = (let v = low_byte 5 st1 in
      set_status (v < ?bits) (v = ?bits) (bit (v - ?bits) 7) (sint v - sint ?bits \<noteq> sint (v - ?bits)) st1)"
    have shift: "run (shifted @ zero @ rest) (st\<lparr>gs_flags := fl\<rparr>) =
        run (0x80 # 0xFD # ?bits # 0x73 # of_nat (length ?a) # ?a @ rest) st1"
      using regs True by (simp add: shifted_def st1_def run_simps set_reg_def any_flags_def set_status_def shift_right_def count_low8)
    have st2: "gs_reg st2 = (gs_reg st)(r := ?w)" "bit (gs_flags st2) CF = (?k < 8 * width ?wide)"
        "status a b c d e (gs_flags st2) = status a b c d e (gs_flags st)"
        "st2\<lparr>gs_reg := R, gs_flags := f\<rparr> = st\<lparr>gs_reg := R, gs_flags := f\<rparr>" for a b c d e R f
      using regs by (simp_all add: st2_def st1_def any_flags_def set_status_def low_byte_bits fl Let_def)
    have inner: "run (shifted @ zero @ rest) (st\<lparr>gs_flags := fl\<rparr>) =
        run (if ?k < 8 * width ?wide then ?a @ rest else rest) st2"
      unfolding shift run_compare run_jump_if(3) [OF lengths(1)] st2_def [symmetric] st2(2) ..
    have whole: "run (concat (map raw_code (extract_calls operands r m)) @ t) st =
        run (if ?k < 8 * width ?wide then ?a @ rest else rest) st2"
      using True inner jump by simp
    show ?thesis
    proof (cases "?k < 8 * width ?wide")
      case True
      let ?c2 = "(?c AND NOT 0xFF) OR ucast (low_byte 5 st2)"
      have low: "low_byte 5 st2 = ucast (drop_bit 8 ?c)" using regs by (simp add: low_byte_def st2(1))
      have k: "low8 ?c2 = ?k" unfolding low8_moved by (simp add: low high8_def)
      have count: "count_of ?wide ?c2 = ?k" using count_low8 [of ?c2 ?wide] True unfolding k by simp
      have over: "run (0xEB # of_nat (length zero) # zero @ rest) st' = run rest st'" for st'
        by (rule run_jump_over) (simp add: lengths)
      let ?st3 = "st2\<lparr>gs_reg := (gs_reg st2)(1 := ?c2)\<rparr>"
      have "run (?a @ rest) st2 = run (lowMask operands m @ 0xEB # of_nat (length zero) # zero @ rest) ?st3"
        using regs by (simp add: len_def run_compare st2(1))
      also have "\<dots> = run rest ((any_flags ?st3)\<lparr>gs_reg := (gs_reg ?st3)(m := mask ?k)\<rparr>)"
        using regs True ones by (subst run_lowMask [where n = ?k]) (simp_all add: count [simplified] over st2(1))
      finally have mask: "run (?a @ rest) st2 = run rest ((any_flags ?st3)\<lparr>gs_reg := (gs_reg ?st3)(m := mask ?k)\<rparr>)" .
      have "clip ?wide (mask ?k) = mask ?k" using low_mask [OF True] clip_clip by metis
      then have "?w AND mask ?k = take_bit ?k ?w" "clip ?wide ?w AND clip ?wide (mask ?k) = take_bit ?k ?w"
        by (simp_all add: take_bit_eq_mask)
      then show ?thesis
        unfolding whole if_P [OF True] mask
        unfolding rest_def using True \<open>low8 ?c < _\<close> regs ones
        by (simp add: run_simps state_defs bitfield_computed_def operation bitfield_value_def bitfield_carry_def st2 clip_bits)
          (intro exI conjI, rule refl, simp_all)
    next
      case False
      have "?w AND clip ?wide (- 1) = ?w"
        by (rule bit_word_eqI) (auto simp: clip_def bit_simps dest: bit_imp_le_length)
      moreover have "take_bit ?k ?w = ?w"
        using False by (intro bit_word_eqI) (auto simp: clip_def width_def bit_simps dest: bit_imp_le_length split: if_splits)
      ultimately show ?thesis
        unfolding whole rest_def using False \<open>low8 ?c < _\<close> regs ones
        by (simp add: run_simps state_defs bitfield_computed_def operation bitfield_value_def bitfield_carry_def st2)
          (intro exI conjI, rule refl, simp_all)
    qed
  qed
qed


lemma run_bitfield:
  fixes operands :: bitfield_operands and st :: gpr_state
  defines "wide \<equiv> bf_Wide operands" and "dst \<equiv> bf_Destination operands" and "mem \<equiv> bf_Memory operands"
    and "src \<equiv> bf_Source operands" and "ctl \<equiv> bf_Control operands" and "operation \<equiv> bf_Operation operands"
  defines "v \<equiv> source_value mem src wide st" and "c \<equiv> gs_reg st ctl"
  defines "w \<equiv> bitfield_value operation wide v c"
  assumes calls: "bitfield_calls operands = Inr cs"
    and regs: "dst < 16" "src < 16" "ctl < 16"
    and ok: "\<And>m. mem = Some m \<Longrightarrow> operand_ok m"
    and outside: "source_ok 160 mem wide st" and flat: "gs_segment st [] = 0"
  shows "\<exists>st'. run (concat (map raw_code cs)) st = Some st' \<and> register_kept dst w st st' \<and> frame_kept 160 st st' \<and>
    flags_after (bitfield_carry operation wide c) (w = 0) (sign wide w) False st st'"
proof -
  let ?name = "BitfieldName (bf_Operation operands)"
  define f where "f = gs_reg st 4 - 160"
  have sp: "gs_reg st 4 = f + 160" by (simp add: f_def)
  define regs' where "regs' = (if mem \<noteq> None then [dst] else [dst, src]) @ [ctl, 1]"
  have regs'_ok: "list_all (\<lambda>r. r < 16) regs'" "length regs' \<le> 10" using regs by (simp_all add: regs'_def)
  have "bitfield_used operands = UsedRegisters regs' mem"
    by (simp add: bitfield_used_def regs'_def mem_def dst_def src_def ctl_def)
  then obtain used where used: "bitfield_used operands = Inr used" "UsedRegisters regs' mem = Inr used"
    using calls unfolding bitfield_calls_def Let_def bind_res_Inr_iff by metis
  obtain r m used' used'' where s: "Scratch used ?name = Inr (r, used')" "Scratch used' ?name = Inr (m, used'')"
      "r < 16" "r \<noteq> 4" "r \<notin> set regs'" "r \<notin> set (memory_registers mem)"
      "m < 16" "m \<noteq> 4" "m \<notin> set regs'" "m \<notin> set (memory_registers mem)" "m \<noteq> r"
    by (rule borrow_two [OF regs'_ok used(2)])
  then have distinct: "r \<noteq> dst" "m \<noteq> dst" "mem = None \<Longrightarrow> r \<noteq> src \<and> m \<noteq> src" "r \<noteq> ctl" "m \<noteq> ctl" "r \<noteq> 1" "m \<noteq> 1"
    by (auto simp: regs'_def split: if_splits)
  obtain l where l0: "load_source_call mem src wide r ?name kFrame = Inr l"
    using calls unfolding bitfield_calls_def Let_def used(1) bind_res.simps s(1,2) prod.case bind_res_Inr_iff mem_def src_def wide_def
    by blast
  then have l: "load_source_call mem src wide r ?name 160 = Inr l" by simp
  have source: "run (raw_code l @ t) st' = run t (set_reg True r (loaded_value mem src wide st) st')"
    if "moved_down 160 {r, m} st st'" "frame_kept 160 st st'" for st' t
    by (rule run_load_source [where n = 160 and k = 160 and borrowed = "{r, m}"])
      (use that s distinct regs ok outside flat l in auto)
  define computing where "computing = concat (map raw_code
    (if operation = BitfieldZeroHigh then zeroHigh_calls operands r m else extract_calls operands r m))"
  let ?rest = "(if dst = 4 then StackBytes 0x89 wide r 24
       else if dst = 1 then StackBytes 0x89 True r 8 else RegisterBytes 0x8B wide dst r) @
      StackBytes 0x8B True m 16 @ StackBytes 0x8B True 1 8 @ StackBytes 0x8B True r 0 @
      (if dst = 4 then StackBytes 0x8B wide 4 24 else StackBytes 0x8D True 4 160)"
  have cs: "concat (map raw_code cs) =
      StackBytes 0x8D True 4 (- 160) @ StackBytes 0x89 True r 0 @ StackBytes 0x89 True 1 8 @ StackBytes 0x89 True m 16 @
      raw_code l @
      (if ctl = 4 then StackBytes 0x8D True 1 160 else if ctl \<noteq> 1 then RegisterBytes 0x8B True 1 ctl else []) @
      RegisterBytes 0xC7 wide 0 m @ 0xFF # 0xFF # 0xFF # 0xFF # computing @ ?rest"
    using calls unfolding bitfield_calls_def Let_def used(1) bind_res.simps s(1,2) prod.case l0 [unfolded mem_def src_def wide_def]
    by (auto simp: wide_def dst_def ctl_def computing_def operation_def Append32_le le_bytes_ones)
  let ?lv = "loaded_value mem src wide st"
  define st1 where "st1 = st\<lparr>gs_mem := store (store (store (gs_mem st) 8 f (gs_reg st r)) 8 (f + 8) (gs_reg st 1)) 8 (f + 16) (gs_reg st m),
    gs_reg := (gs_reg st)(4 := f, r := ?lv, 1 := c, m := clip wide (- 1))\<rparr>"
  have v: "clip wide ?lv = v" by (simp add: v_def clip_loaded)
  have unchanged: "(gs_reg st)(4 := x, r := y, 1 := gs_reg st 1, m := z) = (gs_reg st)(4 := x, r := y, m := z)" for x y z
    using s distinct by (auto simp: fun_eq_iff)
  have start: "run (concat (map raw_code cs)) st = run (computing @ ?rest) st1"
    unfolding cs using s(3,4,7,8,11) distinct regs flat sp
    by (cases "ctl = 4"; cases "ctl = 1")
      (simp_all add: exec_simps source store_outside [of 32 _ f] st1_def c_def add.commute [of "numeral _" f]
        unchanged del: if_split)
  have r: "clip wide (gs_reg st1 r) = v" "gs_reg st1 1 = c" using s distinct by (simp_all add: st1_def v)
  have "\<exists>R fl. run (computing @ ?rest) st1 = run ?rest (st1\<lparr>gs_reg := R, gs_flags := fl\<rparr>) \<and>
      bitfield_computed operands r m st1 R fl"
  proof (cases "operation = BitfieldZeroHigh")
    case True
    then show ?thesis unfolding computing_def if_P [OF True]
      by (intro run_zeroHigh) (use s distinct in \<open>auto simp: operation_def st1_def wide_def\<close>)
  next
    case False
    then have "operation = BitfieldExtract" by (cases operation) auto
    then show ?thesis unfolding computing_def if_not_P [OF False]
      by (intro run_extract) (use s distinct in \<open>auto simp: operation_def st1_def wide_def\<close>)
  qed
  then obtain R fl where R0: "run (computing @ ?rest) st1 = run ?rest (st1\<lparr>gs_reg := R, gs_flags := fl\<rparr>)"
      "bitfield_computed operands r m st1 R fl" by blast
  have flags: "gs_flags st1 = gs_flags st" by (simp add: st1_def)
  from R0(2) obtain other where R: "R r = w" "\<And>q. q \<noteq> r \<Longrightarrow> q \<noteq> m \<Longrightarrow> q \<noteq> 1 \<Longrightarrow> R q = gs_reg st1 q"
      and fl: "fl = status (bitfield_carry operation wide c) (w = 0) (sign wide w) False other (gs_flags st)"
    unfolding bitfield_computed_def Let_def wide_def [symmetric] operation_def [symmetric] r w_def [symmetric] flags by blast
  note finish = start [unfolded R0(1) fl]
  have wc: "clip wide w = w" unfolding w_def bitfield_value_def v_def
    by (simp add: clip_source_fields split: bitfield_operation.split)
  have "R 4 = f" "\<And>q. q \<noteq> r \<Longrightarrow> q \<noteq> m \<Longrightarrow> q \<noteq> 1 \<Longrightarrow> q \<noteq> 4 \<Longrightarrow> R q = gs_reg st q"
    using R(2) s distinct by (simp_all add: st1_def)
  then have R': "R 4 = f" "\<And>q. q \<noteq> r \<Longrightarrow> q \<noteq> m \<Longrightarrow> q \<noteq> 1 \<Longrightarrow> q \<noteq> 4 \<Longrightarrow> R q = gs_reg st q" by auto
  have restored: "R(m := gs_reg st m, 1 := gs_reg st 1, r := gs_reg st r, 4 := x) = (gs_reg st)(4 := x)"
    "R(m := gs_reg st m, 1 := y, r := gs_reg st r, 4 := x) = (gs_reg st)(1 := y, 4 := x)"
    "R(dst := y, m := gs_reg st m, 1 := gs_reg st 1, r := gs_reg st r, 4 := x) = (gs_reg st)(dst := y, 1 := gs_reg st 1, 4 := x)" for x y
    using R'(2) s distinct by (auto simp: fun_eq_iff)
  note facts = s(3,4,7,8,11) distinct(1,2,6,7) regs flat sp R(1) wc R'(1)
  consider "dst = 4" | "dst = 1" | "dst \<noteq> 4" "dst \<noteq> 1" by blast
  then show ?thesis
  proof cases
    case 1
    then show ?thesis unfolding finish using facts
      by (simp add: exec_simps store_outside [of 32 _ f] st1_def add.commute [of "numeral _" f] restored) blast?
  next
    case 2
    then show ?thesis unfolding finish using facts
      by (simp add: exec_simps store_outside [of 32 _ f] st1_def add.commute [of "numeral _" f] restored) (auto simp: fun_eq_iff)
  next
    case 3
    then show ?thesis unfolding finish using facts
      by (simp add: exec_simps store_outside [of 32 _ f] st1_def add.commute [of "numeral _" f] restored) (auto simp: fun_eq_iff)
  qed
qed

end
