(* ===== verification/X64_Mulx_Correct.thy ===== *)
theory X64_Mulx_Correct
  imports X64_Scalar_Correct
begin

text \<open>The lowering of MULX computes the two halves of the product and leaves the flags as they were.\<close>

definition mulx_product :: "bool \<Rightarrow> u64 \<Rightarrow> u64 \<Rightarrow> int" where
  "mulx_product wide v w = uint v * uint (clip wide w)"

definition mulx_low :: "bool \<Rightarrow> u64 \<Rightarrow> u64 \<Rightarrow> u64" where
  "mulx_low wide v w = clip wide (word_of_int (mulx_product wide v w))"

definition mulx_high :: "bool \<Rightarrow> u64 \<Rightarrow> u64 \<Rightarrow> u64" where
  "mulx_high wide v w = clip wide (word_of_int (mulx_product wide v w div 2 ^ (8 * width wide)))"

lemma decoded_mulx:
  assumes "DecodeMulx data = Inr (Some operands)"
  shows "mu_HighDestination operands < 16" "mu_LowDestination operands < 16" "mu_Source operands < 16"
    and "mu_Memory operands = Some m \<Longrightarrow> \<not> mo_RipRelative m \<Longrightarrow> operand_ok m"
  using assms by (auto simp: DecodeMulx_def Let_def res_simps vex_register_less dest: vex_source_ok split: if_splits)

lemma run_multiply:
  "run (Rex wide 0 2 # 0xF7 # 0xE2 # t) st =
    run t (any_flags (set_reg wide 2 (word_of_int (uint (clip wide (gs_reg st 0)) * uint (clip wide (gs_reg st 2)) div 2 ^ (8 * width wide)))
      (set_reg wide 0 (word_of_int (uint (clip wide (gs_reg st 0)) * uint (clip wide (gs_reg st 2)))) st)))"
proof -
  have "Rex wide 0 2 # 0xF7 # 0xE2 # t = RegisterBytes 0xF7 wide 4 2 @ t"
    by (simp add: RegisterBytes_def Rex_def)
  then show ?thesis
    by (simp only:) (rule run_register; simp add: immediate_opcode_def exec_modrm_def Let_def)
qed

lemma run_mulx_source:
  assumes call: "mulx_source_call operands = Inr c"
    and ok: "\<And>m. mu_Memory operands = Some m \<Longrightarrow> operand_ok m"
    and source: "mu_Memory operands = None \<Longrightarrow> mu_Source operands < 16"
    and outside: "source_ok 192 (mu_Memory operands) (mu_Wide operands) st"
    and moved: "moved_down 192 {} st st'" and kept: "frame_kept 192 st st'" and flat: "gs_segment st [] = 0"
  shows "run (raw_code c @ t) st' =
    run t (set_reg (mu_Wide operands) 0 (source_value (mu_Memory operands) (mu_Source operands) (mu_Wide operands) st) st')"
proof (cases "mu_Memory operands")
  case None
  have segment: "gs_segment st' [] = 0" using moved flat by (simp add: moved_down_def)
  have load: "Rex wide 0 source # 0x8B # (0xC0 OR (source AND 7)) # t = RegisterBytes 0x8B wide 0 source @ t"
    for wide and source :: u8
    by (simp add: RegisterBytes_def)
  show ?thesis
    using call None moved source segment
    by (auto simp: mulx_source_call_def load moved_down_def run_simps in_int32_def source_value_def)
next
  case (Some m)
  then have m: "operand_ok m" "set (address_registers m) \<inter> {} = {}" "\<not> mo_RipRelative m"
    using ok outside by (simp_all add: source_ok_def)
  have c: "c = memory_call (memory_head 0x8B (mu_Wide operands) m 0) 192 m" and fits: "displacement_fits 192 m"
    using call Some by (auto simp: mulx_source_call_def Memory_def split: if_splits)
  have read: "read_operand (mu_Wide operands) (emitted_operand 192 m) st' =
      source_value (mu_Memory operands) (mu_Source operands) (mu_Wide operands) st"
    using read_emitted [OF m(1) moved kept m(2) fits] outside Some by simp
  show ?thesis
    unfolding c memory_call_raw [OF m(3)] raw_code.simps append_assoc
    by (rule run_memory [OF m(1)]) (simp_all add: immediate_opcode_def exec_modrm_def read)
qed

lemma run_mulx:
  fixes operands :: mulx_operands and st :: gpr_state
  defines "wide \<equiv> mu_Wide operands" and "high \<equiv> mu_HighDestination operands" and "low \<equiv> mu_LowDestination operands"
    and "mem \<equiv> mu_Memory operands" and "src \<equiv> mu_Source operands"
  defines "v \<equiv> source_value mem src wide st" and "w \<equiv> gs_reg st 2"
  assumes calls: "mulx_calls operands = Inr cs"
    and regs: "high < 16" "low < 16" "src < 16"
    and ok: "\<And>m. mem = Some m \<Longrightarrow> operand_ok m"
    and outside: "source_ok 192 mem wide st" and flat: "gs_segment st [] = 0"
  shows "\<exists>st'. run (concat (map raw_code cs)) st = Some st' \<and>
    gs_reg st' = (gs_reg st)(low := mulx_low wide v w, high := mulx_high wide v w) \<and> frame_kept 192 st st' \<and>
    gs_flags st' = gs_flags st"
proof -
  define f where "f = gs_reg st 4 - 192"
  have sp: "gs_reg st 4 = f + 192" by (simp add: f_def)
  obtain c where c: "mulx_source_call operands = Inr c"
    using calls by (auto simp: mulx_calls_def Let_def res_simps split: if_splits)
  have source: "run (raw_code c @ t) st' = run t (set_reg wide 0 v st')"
    if "moved_down 192 {} st st'" "frame_kept 192 st st'" for st' t
    unfolding wide_def mem_def src_def v_def
    by (rule run_mulx_source [OF c]) (use that regs ok outside flat in \<open>auto simp: wide_def mem_def src_def\<close>)
  have cs: "concat (map raw_code cs) =
      StackBytes 0x8D True 4 (- 184) @ 0x9C # StackBytes 0x89 True 0 8 @ StackBytes 0x89 True 2 16 @ raw_code c @
      Rex wide 0 2 # 0xF7 # 0xE2 # StackBytes 0x89 True 0 24 @ StackBytes 0x89 True 2 32 @
      StackBytes 0x8B True 0 8 @ StackBytes 0x8B True 2 16 @
      (if low \<noteq> 4 then StackBytes 0x8B wide low 24 else []) @
      (if high \<noteq> 4 then StackBytes 0x8B wide high 32 else []) @
      0x9D # StackBytes 0x8D True 4 184 @
      (if high = 4 then StackBytes 0x8B wide 4 (32 - 192) else if low = 4 then StackBytes 0x8B wide 4 (24 - 192) else [])"
    using calls unfolding mulx_calls_def Let_def c
    by (auto simp: wide_def high_def low_def split: if_splits)
  have cv: "clip wide v = v" by (simp add: v_def)
  show ?thesis
    unfolding cs
    using regs flat sp
    by (cases "low = 4"; cases "high = 4")
      (simp_all add: exec_simps source run_multiply store_outside [of 40 _ f] add.commute [of "numeral _" f]
        mulx_low_def mulx_high_def mulx_product_def w_def cv, auto simp: fun_eq_iff)
qed

end
