(* ===== verification/X64_Bmi_Correct.thy ===== *)
theory X64_Bmi_Correct
  imports X64_Mulx_Correct
begin

text \<open>
  The results on the BMI lowerings, from the bytes of the instruction: what \<open>DecodeAndn\<close>, \<open>DecodeBls\<close>,
  \<open>DecodeShift\<close>, \<open>DecodeBitfield\<close> and \<open>DecodeMulx\<close> accept, their emitters turn into calls of the stub
  builder that append code, and the code computes the instruction. Emission stops for one reason only, a
  displacement that does not reach over the frame: a register to borrow is always found.
\<close>

subsection \<open>Emitting and running\<close>

definition runs_to :: "('a \<Rightarrow> stub_call list res) \<Rightarrow> 'a \<Rightarrow> gpr_state \<Rightarrow> (gpr_state \<Rightarrow> bool) \<Rightarrow> bool" where
  "runs_to calls operands st Q \<longleftrightarrow>
     (\<forall>b. \<exists>b' code st'. emit_calls calls operands b = Inr b' \<and> sb_bytes b' = sb_bytes b @ code \<and>
        run code st = Some st' \<and> Q st')"

lemma runs_toI:
  assumes "calls operands = Inr cs" "list_all raw_call cs" "\<exists>st'. run (concat (map raw_code cs)) st = Some st' \<and> Q st'"
  shows "runs_to calls operands st Q"
  unfolding runs_to_def using emit_raw [of calls, OF assms(1,2)] assms(3) by blast

lemma runs_to_mono: "runs_to calls operands st Q \<Longrightarrow> (\<And>st'. Q st' \<Longrightarrow> Q' st') \<Longrightarrow> runs_to calls operands st Q'"
  unfolding runs_to_def by meson

lemma source_not_rip: "source_ok n memory wide st \<Longrightarrow> memory = Some m \<Longrightarrow> \<not> mo_RipRelative m"
  by (simp add: source_ok_def)

lemma load_source_total:
  assumes "source_fits frame memory" "\<And>m. memory = Some m \<Longrightarrow> \<not> mo_RipRelative m"
  obtains c where "load_source_call memory source wide r name frame = Inr c" "raw_call c"
  using assms by (cases memory) (auto simp: load_source_call_def Memory_def source_fits_def)

lemma bls_calls_total:
  assumes regs: "bl_Destination operands < 16" "bl_Source operands < 16"
    and fits: "source_fits 144 (bl_Memory operands)" and rip: "\<And>m. bl_Memory operands = Some m \<Longrightarrow> \<not> mo_RipRelative m"
  obtains cs where "bls_calls operands = Inr cs" "list_all raw_call cs"
proof -
  define regs' where "regs' = (if bl_Memory operands \<noteq> None then [bl_Destination operands]
     else [bl_Destination operands, bl_Source operands])"
  have regs'_ok: "list_all (\<lambda>r. r < 16) regs'" "length regs' \<le> 10" using regs by (simp_all add: regs'_def)
  have used: "bls_used operands = UsedRegisters regs' (bl_Memory operands)" by (simp add: bls_used_def regs'_def)
  obtain r s used' used'' where s:
      "Scratch (fold mark (Stack # regs' @ memory_registers (bl_Memory operands)) (replicate 16 False))
         (BlsName (bl_Operation operands)) = Inr (r, used')"
      "Scratch used' (BlsName (bl_Operation operands)) = Inr (s, used'')"
    by (rule borrow_two [OF regs'_ok used_registers [OF regs'_ok(1)]])
  obtain c where c: "load_source_call (bl_Memory operands) (bl_Source operands) (bl_Wide operands) r
      (BlsName (bl_Operation operands)) 144 = Inr c" "raw_call c"
    by (rule load_source_total [OF fits rip])
  show thesis
    using that c unfolding bls_calls_def Let_def used used_registers [OF regs'_ok(1)] bind_res.simps s prod.case by simp
qed

lemma shift_calls_total:
  assumes regs: "sh_Destination operands < 16" "sh_Source operands < 16" "sh_Operation operands \<noteq> RotateRight \<Longrightarrow> sh_Count operands < 16"
    and fits: "source_fits 160 (sh_Memory operands)" and rip: "\<And>m. sh_Memory operands = Some m \<Longrightarrow> \<not> mo_RipRelative m"
  obtains cs where "shift_calls operands = Inr cs" "list_all raw_call cs"
proof -
  define regs' where "regs' = (if sh_Memory operands \<noteq> None then [sh_Destination operands]
     else [sh_Destination operands, sh_Source operands]) @
    (if sh_Operation operands = RotateRight then [] else [sh_Count operands, 1])"
  have regs'_ok: "list_all (\<lambda>r. r < 16) regs'" "length regs' \<le> 10" using regs by (simp_all add: regs'_def)
  have used: "shift_used operands = UsedRegisters regs' (sh_Memory operands)" by (simp add: shift_used_def regs'_def)
  obtain r used' where s:
      "Scratch (fold mark (Stack # regs' @ memory_registers (sh_Memory operands)) (replicate 16 False))
         (ShiftName (sh_Operation operands)) = Inr (r, used')"
    by (rule borrow_one [OF regs'_ok used_registers [OF regs'_ok(1)]])
  obtain c where c: "load_source_call (sh_Memory operands) (sh_Source operands) (sh_Wide operands) r
      (ShiftName (sh_Operation operands)) 160 = Inr c" "raw_call c"
    by (rule load_source_total [OF fits rip])
  show thesis
    using that c unfolding shift_calls_def Let_def used used_registers [OF regs'_ok(1)] bind_res.simps s prod.case by simp
qed

lemma bitfield_calls_total:
  assumes regs: "bf_Destination operands < 16" "bf_Source operands < 16" "bf_Control operands < 16"
    and fits: "source_fits 160 (bf_Memory operands)" and rip: "\<And>m. bf_Memory operands = Some m \<Longrightarrow> \<not> mo_RipRelative m"
  obtains cs where "bitfield_calls operands = Inr cs" "list_all raw_call cs"
proof -
  define regs' where "regs' = (if bf_Memory operands \<noteq> None then [bf_Destination operands]
     else [bf_Destination operands, bf_Source operands]) @ [bf_Control operands, 1]"
  have regs'_ok: "list_all (\<lambda>r. r < 16) regs'" "length regs' \<le> 10" using regs by (simp_all add: regs'_def)
  have used: "bitfield_used operands = UsedRegisters regs' (bf_Memory operands)" by (simp add: bitfield_used_def regs'_def)
  obtain r s used' used'' where s:
      "Scratch (fold mark (Stack # regs' @ memory_registers (bf_Memory operands)) (replicate 16 False))
         (BitfieldName (bf_Operation operands)) = Inr (r, used')"
      "Scratch used' (BitfieldName (bf_Operation operands)) = Inr (s, used'')"
    by (rule borrow_two [OF regs'_ok used_registers [OF regs'_ok(1)]])
  obtain c where c: "load_source_call (bf_Memory operands) (bf_Source operands) (bf_Wide operands) r
      (BitfieldName (bf_Operation operands)) 160 = Inr c" "raw_call c"
    by (rule load_source_total [OF fits rip])
  show thesis
    using that c unfolding bitfield_calls_def Let_def used used_registers [OF regs'_ok(1)] bind_res.simps s prod.case
    by (simp add: zeroHigh_calls_def extract_calls_def Let_def)
qed

lemma mulx_calls_total:
  assumes "source_fits 192 (mu_Memory operands)" "\<And>m. mu_Memory operands = Some m \<Longrightarrow> \<not> mo_RipRelative m"
    "\<And>m. mu_Memory operands = Some m \<Longrightarrow> \<not> mulx_overlaps (mu_Wide operands) m"
  obtains cs where "mulx_calls operands = Inr cs" "list_all raw_call cs"
  using assms
  by (cases "mu_Memory operands") (auto simp: mulx_calls_def mulx_source_call_def Memory_def source_fits_def Let_def)

subsection \<open>Properties\<close>

text \<open>
  C14: The code emitted for a decoded ANDN computes it: from any state, the destination gets the and of the
  second source and the complement of the first, the flags are those of ANDN, every other register is as
  before, and memory changes only in the frame below the red zone. Emission succeeds whenever the
  displacement of a memory operand reaches over the frame.
\<close>
theorem andn_lowering_correct:
  assumes "DecodeAndn data = Inr (Some operands)" "source_fits 144 (an_Memory operands)"
    and "source_ok 144 (an_Memory operands) (an_Wide operands) st" "gs_segment st [] = 0"
  shows "runs_to andn_calls operands st (\<lambda>st'.
    let v = clip (an_Wide operands) (NOT (gs_reg st (an_InvertedSource operands))) AND
          source_value (an_Memory operands) (an_Source operands) (an_Wide operands) st
    in gs_reg st' = (gs_reg st)(an_Destination operands := v) \<and> frame_kept 144 st st' \<and>
       flags_after False (v = 0) (sign (an_Wide operands) v) False st st')"
proof -
  note decoded = decoded_andn [OF assms(1)]
  have ok: "\<And>m. an_Memory operands = Some m \<Longrightarrow> operand_ok m"
    by (rule decoded(4)) (auto dest: source_not_rip [OF assms(3)])
  obtain cs where cs: "andn_calls operands = Inr cs" "list_all raw_call cs"
    by (rule andn_calls_total [OF decoded(1-3) assms(2) source_not_rip [OF assms(3)]])
  show ?thesis
    using run_andn [OF cs(1) decoded(1-3) ok assms(3,4)]
    by (intro runs_toI [of andn_calls, OF cs]) (simp add: Let_def register_kept_def)
qed

text \<open>
  C4: The code emitted for a decoded BLSR, BLSMSK or BLSI computes it: the destination and the flags are those
  of the instruction for the value of the source, every other register is as before, and memory changes
  only in the frame below the red zone.
\<close>
theorem bls_lowering_correct:
  assumes "DecodeBls data = Inr (Some operands)" "source_fits 144 (bl_Memory operands)"
    and "source_ok 144 (bl_Memory operands) (bl_Wide operands) st" "gs_segment st [] = 0"
  shows "runs_to bls_calls operands st (\<lambda>st'.
    let v = source_value (bl_Memory operands) (bl_Source operands) (bl_Wide operands) st;
        w = bls_value (bl_Operation operands) (bl_Wide operands) v
    in gs_reg st' = (gs_reg st)(bl_Destination operands := w) \<and> frame_kept 144 st st' \<and>
       flags_after (bls_carry (bl_Operation operands) v) (w = 0) (sign (bl_Wide operands) w) False st st')"
proof -
  note decoded = decoded_bls [OF assms(1)]
  have ok: "\<And>m. bl_Memory operands = Some m \<Longrightarrow> operand_ok m"
    by (rule decoded(3)) (auto dest: source_not_rip [OF assms(3)])
  obtain cs where cs: "bls_calls operands = Inr cs" "list_all raw_call cs"
    by (rule bls_calls_total [OF decoded(1,2) assms(2) source_not_rip [OF assms(3)]])
  show ?thesis
    using run_bls [OF cs(1) decoded(1,2) ok assms(3,4)]
    by (intro runs_toI [of bls_calls, OF cs]) (simp add: Let_def register_kept_def)
qed

text \<open>
  C15: The code emitted for a decoded SHLX, SHRX, SARX or RORX computes it: the destination holds the source
  shifted or rotated by the count modulo the operand size, and all flags and every other register are as
  before, although the code shifts with instructions that take their count in \<open>cl\<close> and write the flags.
\<close>
theorem shift_lowering_correct:
  assumes "DecodeShift data = Inr (Some operands)" "source_fits 160 (sh_Memory operands)"
    and "source_ok 168 (sh_Memory operands) (sh_Wide operands) st" "gs_segment st [] = 0"
  shows "runs_to shift_calls operands st (\<lambda>st'.
    gs_reg st' = (gs_reg st)(sh_Destination operands := clip (sh_Wide operands) (shift_value (sh_Operation operands) (sh_Wide operands)
      (source_value (sh_Memory operands) (sh_Source operands) (sh_Wide operands) st) (shift_amount operands st))) \<and>
    frame_kept 168 st st' \<and> gs_flags st' = gs_flags st)"
proof -
  note decoded = decoded_shift [OF assms(1)]
  have ok: "\<And>m. sh_Memory operands = Some m \<Longrightarrow> operand_ok m"
    by (rule decoded(4)) (auto dest: source_not_rip [OF assms(3)])
  obtain cs where cs: "shift_calls operands = Inr cs" "list_all raw_call cs"
    by (rule shift_calls_total [OF decoded(1-3) assms(2) source_not_rip [OF assms(3)]])
  show ?thesis
    using run_shift [OF cs(1) decoded(1-3) ok assms(3,4)]
    by (intro runs_toI [of shift_calls, OF cs]) (simp add: register_kept_def)
qed

text \<open>
  C16: The code emitted for a decoded BZHI or BEXTR computes it, for every value of the control register, those
  that index beyond the operand included: the low bits, or the field that the control's two low bytes
  name, go to the destination, with the flags of the instruction and every other register as before.
\<close>
theorem bitfield_lowering_correct:
  assumes "DecodeBitfield data = Inr (Some operands)" "source_fits 160 (bf_Memory operands)"
    and "source_ok 160 (bf_Memory operands) (bf_Wide operands) st" "gs_segment st [] = 0"
  shows "runs_to bitfield_calls operands st (\<lambda>st'.
    let c = gs_reg st (bf_Control operands); wide = bf_Wide operands;
        w = bitfield_value (bf_Operation operands) wide (source_value (bf_Memory operands) (bf_Source operands) wide st) c
    in gs_reg st' = (gs_reg st)(bf_Destination operands := w) \<and> frame_kept 160 st st' \<and>
       flags_after (bitfield_carry (bf_Operation operands) wide c) (w = 0) (sign wide w) False st st')"
proof -
  note decoded = decoded_bitfield [OF assms(1)]
  have ok: "\<And>m. bf_Memory operands = Some m \<Longrightarrow> operand_ok m"
    by (rule decoded(4)) (auto dest: source_not_rip [OF assms(3)])
  obtain cs where cs: "bitfield_calls operands = Inr cs" "list_all raw_call cs"
    by (rule bitfield_calls_total [OF decoded(1-3) assms(2) source_not_rip [OF assms(3)]])
  show ?thesis
    using run_bitfield [OF cs(1) decoded(1-3) ok assms(3,4)]
    by (intro runs_toI [of bitfield_calls, OF cs]) (simp add: Let_def register_kept_def)
qed

text \<open>
  C17: The code emitted for a decoded MULX computes it: the low half of the product of \<open>rdx\<close> and the source goes
  to the low destination and then the high half to the high destination, the same register included,
  with all flags and every other register, \<open>rax\<close> and \<open>rdx\<close> too, as before.
\<close>
theorem mulx_lowering_correct:
  assumes "DecodeMulx data = Inr (Some operands)" "source_fits 192 (mu_Memory operands)"
    and "\<And>m. mu_Memory operands = Some m \<Longrightarrow> \<not> mulx_overlaps (mu_Wide operands) m"
    and "source_ok 192 (mu_Memory operands) (mu_Wide operands) st" "gs_segment st [] = 0"
  shows "runs_to mulx_calls operands st (\<lambda>st'.
    let v = source_value (mu_Memory operands) (mu_Source operands) (mu_Wide operands) st
    in gs_reg st' = (gs_reg st)(mu_LowDestination operands := mulx_low (mu_Wide operands) v (gs_reg st 2),
         mu_HighDestination operands := mulx_high (mu_Wide operands) v (gs_reg st 2)) \<and>
       frame_kept 192 st st' \<and> gs_flags st' = gs_flags st)"
proof -
  note decoded = decoded_mulx [OF assms(1)]
  have ok: "\<And>m. mu_Memory operands = Some m \<Longrightarrow> operand_ok m"
    by (rule decoded(4)) (auto dest: source_not_rip [OF assms(4)])
  obtain cs where cs: "mulx_calls operands = Inr cs" "list_all raw_call cs"
    by (rule mulx_calls_total [OF assms(2) source_not_rip [OF assms(4)] assms(3)])
  show ?thesis
    using run_mulx [OF cs(1) decoded(1-3) ok assms(4,5)]
    by (intro runs_toI [of mulx_calls, OF cs]) (simp add: Let_def)
qed

subsection \<open>A concrete instruction of each\<close>

definition sample_gpr :: gpr_state where
  "sample_gpr = \<lparr>gs_reg = (\<lambda>r. if r = 4 then 0x7FFF0000 else if r = 1 then 0x0804 else if r = 2 then 0xFFFFFFFF00000002 else 0x12345678),
     gs_mem = (\<lambda>a. if a = 0x12345680 then 0x0F else 0), gs_flags = 0x202, gs_segment = (\<lambda>_. 0), gs_oracle = (\<lambda>_. 0)\<rparr>"

lemma sample_segment: "gs_segment sample_gpr [] = 0"
  by (simp add: sample_gpr_def)

lemmas sample_simps = sample_gpr_def source_fits_def source_ok_def source_value_def clip_def width_def Let_def

text \<open>\<open>andn eax, ecx, [rsi + 8]\<close>.\<close>

definition sample_memory :: memory_operand where
  "sample_memory = \<lparr>mo_Prefixes = [], mo_RexIndexBase = 0, mo_Mod = 1, mo_Rm = 6, mo_Sib = 0, mo_Displacement = 8,
     mo_StackBase = False, mo_EncodedSize = 2, mo_RipRelative = False, mo_InstructionLength = 6\<rparr>"

definition sample_andn :: andn_operands where
  "sample_andn = \<lparr>an_Destination = 0, an_InvertedSource = 1, an_Source = 6, an_Wide = False, an_Memory = Some sample_memory\<rparr>"

lemma sample_andn_decodes: "DecodeAndn [0xC4, 0xE2, 0x70, 0xF2, 0x46, 0x08] = Inr (Some sample_andn)"
  by code_simp

lemma sample_memory_facts: "memory_address sample_memory sample_gpr = 0x12345680" "displacement_fits 144 sample_memory"
  "\<not> mo_RipRelative sample_memory"
  by code_simp+

lemma andn_lowering_correct_witness:
  "runs_to andn_calls sample_andn sample_gpr (\<lambda>st'. gs_reg st' 0 = 0x0B \<and> gs_reg st' 1 = 0x0804)"
proof -
  have "source_fits 144 (an_Memory sample_andn)" by (simp add: source_fits_def sample_andn_def sample_memory_facts)
  moreover have "source_ok 144 (an_Memory sample_andn) (an_Wide sample_andn) sample_gpr"
    by (simp add: source_ok_def sample_andn_def sample_memory_facts width_def eval_nat_numeral All_less_Suc outside_frame_def)
      (simp add: sample_gpr_def)
  moreover have "source_value (an_Memory sample_andn) 6 False sample_gpr = 0x0F"
    by (simp add: source_value_def sample_andn_def sample_memory_facts load_def width_def upt_rec)
      (simp add: sample_gpr_def)
  ultimately show ?thesis
    by (intro runs_to_mono [OF andn_lowering_correct [OF sample_andn_decodes _ _ sample_segment]])
      (simp_all add: sample_andn_def, simp add: sample_gpr_def clip_def)
qed

text \<open>\<open>blsr eax, ebx\<close>.\<close>

definition sample_bls :: bls_operands where
  "sample_bls = \<lparr>bl_Operation = BlsReset, bl_Destination = 0, bl_Source = 3, bl_Wide = False, bl_Memory = None\<rparr>"

lemma sample_bls_decodes: "DecodeBls [0xC4, 0xE2, 0x78, 0xF3, 0xCB] = Inr (Some sample_bls)"
  by code_simp

lemma bls_lowering_correct_witness:
  "runs_to bls_calls sample_bls sample_gpr (\<lambda>st'. gs_reg st' 0 = 0x12345670 \<and> gs_reg st' 3 = 0x12345678)"
  by (rule runs_to_mono [OF bls_lowering_correct [OF sample_bls_decodes _ _ sample_segment]])
    (simp_all add: sample_bls_def sample_simps bls_value_def)

text \<open>\<open>shlx rax, rbx, rcx\<close>.\<close>

definition sample_shift :: shift_operands where
  "sample_shift = \<lparr>sh_Operation = ShiftLeft, sh_Destination = 0, sh_Source = 3, sh_Count = 1, sh_Wide = True, sh_Memory = None\<rparr>"

lemma sample_shift_decodes: "DecodeShift [0xC4, 0xE2, 0xF1, 0xF7, 0xC3] = Inr (Some sample_shift)"
  by code_simp

lemma shift_lowering_correct_witness:
  "runs_to shift_calls sample_shift sample_gpr (\<lambda>st'. gs_reg st' 0 = 0x123456780 \<and> gs_reg st' 1 = 0x0804)"
  by (rule runs_to_mono [OF shift_lowering_correct [OF sample_shift_decodes _ _ sample_segment]])
    (simp_all add: sample_shift_def sample_simps shift_value_def shift_left_def shift_amount_def count_of_def)

text \<open>\<open>bextr eax, ebx, ecx\<close>: eight bits from the fourth.\<close>

definition sample_bitfield :: bitfield_operands where
  "sample_bitfield = \<lparr>bf_Operation = BitfieldExtract, bf_Destination = 0, bf_Source = 3, bf_Control = 1, bf_Wide = False, bf_Memory = None\<rparr>"

lemma sample_bitfield_decodes: "DecodeBitfield [0xC4, 0xE2, 0x70, 0xF7, 0xC3] = Inr (Some sample_bitfield)"
  by code_simp

lemma bitfield_lowering_correct_witness:
  "runs_to bitfield_calls sample_bitfield sample_gpr (\<lambda>st'. gs_reg st' 0 = 0x67 \<and> gs_reg st' 1 = 0x0804)"
  by (rule runs_to_mono [OF bitfield_lowering_correct [OF sample_bitfield_decodes _ _ sample_segment]])
    (simp_all add: sample_bitfield_def sample_simps bitfield_value_def low8_def high8_def)

text \<open>\<open>mulx rax, rbx, rsi\<close>.\<close>

definition sample_mulx :: mulx_operands where
  "sample_mulx = \<lparr>mu_HighDestination = 0, mu_LowDestination = 3, mu_Source = 6, mu_Wide = True, mu_Memory = None\<rparr>"

lemma sample_mulx_decodes: "DecodeMulx [0xC4, 0xE2, 0xE3, 0xF6, 0xC6] = Inr (Some sample_mulx)"
  by code_simp

lemma mulx_lowering_correct_witness:
  "runs_to mulx_calls sample_mulx sample_gpr (\<lambda>st'. gs_reg st' 0 = 0x12345677 \<and> gs_reg st' 3 = 0xEDCBA9882468ACF0 \<and> gs_reg st' 2 = 0xFFFFFFFF00000002)"
  by (rule runs_to_mono [OF mulx_lowering_correct [OF sample_mulx_decodes _ _ _ sample_segment]])
    (simp_all add: sample_mulx_def sample_simps mulx_low_def mulx_high_def mulx_product_def)

end
