(* ===== verification/X64_Matcher.thy ===== *)
theory X64_Matcher
  imports X64_Sse_Lowering X64_Scalar_Lowering
begin

text \<open>
  \<open>Amd64OnlyInstructionMatcher\<close> (\<open>codegen/src/x86/Amd64OnlyInstructionMatcher.cpp\<close>): which instructions
  have a substitution on the target, and what it is: bytes of the same length written in place, a stub
  that the instruction jumps to, or none. The stub of an instruction is built by its lowering, followed
  by the trailing instructions that the jump overwrites. The lemmas show that a substitution covers the
  instruction exactly, that a stub is built by the builder and leaves the stack as it found it, and that
  the two ways to build the stub of one instruction agree.
\<close>

subsection \<open>Data\<close>

datatype amd64_target = Intel | Rosetta

datatype amd64_lowering = InPlace | Trampoline | Unsupported | Kept

record amd64_match =
  am_InstructionName :: string
  am_Length :: nat
  am_Lowering :: amd64_lowering
  am_ReplacementBytes :: bytes
  am_StubBody :: bytes
  am_ReturnBranchOffset :: nat
  am_Optional :: bool
  am_Relocations :: "stub_relocation list"
  am_RelocatableWindow :: bool

text \<open>The table's entries for instructions only have a name.\<close>

definition kMonitorx :: string where "kMonitorx = ''MONITORX''"
definition kMwaitx :: string where "kMwaitx = ''MWAITX''"
definition kClzero :: string where "kClzero = ''CLZERO''"
definition kRdpru :: string where "kRdpru = ''RDPRU''"
definition kMcommit :: string where "kMcommit = ''MCOMMIT''"
definition kRdseed :: string where "kRdseed = ''RDSEED''"
definition kRdpid :: string where "kRdpid = ''RDPID''"
definition kRdtscp :: string where "kRdtscp = ''RDTSCP''"
definition kClwb :: string where "kClwb = ''CLWB''"
definition kXsaveopt :: string where "kXsaveopt = ''XSAVEOPT''"
definition kWideStore :: string where "kWideStore = ''256-bit store''"
definition kScalarCompare :: string where "kScalarCompare = ''scalar compare''"
definition kExtrq :: string where "kExtrq = ''EXTRQ''"
definition kInsertq :: string where "kInsertq = ''INSERTQ''"
definition kExtrqRegisterForm :: string where "kExtrqRegisterForm = ''EXTRQ register form''"
definition kInsertqRegisterForm :: string where "kInsertqRegisterForm = ''INSERTQ register form''"
definition kMovntss :: string where "kMovntss = ''MOVNTSS''"
definition kMovntsd :: string where "kMovntsd = ''MOVNTSD''"
definition kVrcpps :: string where "kVrcpps = ''VRCPPS''"
definition kVrsqrtps :: string where "kVrsqrtps = ''VRSQRTPS''"
definition kRcpps :: string where "kRcpps = ''RCPPS''"
definition kRsqrtps :: string where "kRsqrtps = ''RSQRTPS''"
definition kSha256rnds2 :: string where "kSha256rnds2 = ''SHA256RNDS2''"
definition kSha256msg1 :: string where "kSha256msg1 = ''SHA256MSG1''"
definition kSha256msg2 :: string where "kSha256msg2 = ''SHA256MSG2''"
definition kSha1rnds4 :: string where "kSha1rnds4 = ''SHA1RNDS4''"
definition kSha1nexte :: string where "kSha1nexte = ''SHA1NEXTE''"
definition kSha1msg1 :: string where "kSha1msg1 = ''SHA1MSG1''"
definition kSha1msg2 :: string where "kSha1msg2 = ''SHA1MSG2''"

abbreviation (input) kMovsStoreOpcode :: u8 where "kMovsStoreOpcode \<equiv> 0x11"
abbreviation (input) kMcommitStc :: u8 where "kMcommitStc \<equiv> 0xF9"
abbreviation (input) kMaxInstructionLength :: nat where "kMaxInstructionLength \<equiv> 15"

definition kRdpruTrampolineBytes :: bytes where
  "kRdpruTrampolineBytes = [0x9C, 0x85, 0xC9, 0x74, 0x0B, 0x83, 0xF9, 0x01, 0x74, 0x06, 0x31, 0xC0, 0x31, 0xD2,
     0xEB, 0x02, 0x0F, 0x31, 0x9D]"

definition kPause :: bytes where "kPause = [0xF3, 0x90]"

subsection \<open>Names and helpers\<close>

definition sse4aEntry :: "sse4a_operands \<Rightarrow> string" where
  "sse4aEntry operands =
     (if s4_RegisterForm operands then (if s4_Insertq operands then kInsertqRegisterForm else kExtrqRegisterForm)
      else if s4_Insertq operands then kInsertq else kExtrq)"

definition reciprocalEntry :: "reciprocal_operands \<Rightarrow> string" where
  "reciprocalEntry operands =
     (if \<not> rc_Vex operands then (if rc_Operation operands = ReciprocalSquareRoot then kRsqrtps else kRcpps)
      else if rc_Operation operands = ReciprocalSquareRoot then kVrsqrtps else kVrcpps)"

definition sha256Entry :: "sha256_operands \<Rightarrow> string" where
  "sha256Entry operands =
     (case s2_Operation operands of Sha256Rnds2 \<Rightarrow> kSha256rnds2 | Sha256Msg1 \<Rightarrow> kSha256msg1 | Sha256Msg2 \<Rightarrow> kSha256msg2)"

definition sha1Entry :: "sha1_operands \<Rightarrow> string" where
  "sha1Entry operands =
     (case s1_Operation operands of
        Sha1Rnds4 \<Rightarrow> kSha1rnds4 | Sha1Nexte \<Rightarrow> kSha1nexte | Sha1Msg1 \<Rightarrow> kSha1msg1 | Sha1Msg2 \<Rightarrow> kSha1msg2)"

definition unsupported :: "string \<Rightarrow> nat \<Rightarrow> amd64_match" where
  "unsupported name n =
     \<lparr>am_InstructionName = name, am_Length = n, am_Lowering = Unsupported, am_ReplacementBytes = [], am_StubBody = [],
      am_ReturnBranchOffset = 0, am_Optional = False, am_Relocations = [], am_RelocatableWindow = False\<rparr>"

definition replaced :: "string \<Rightarrow> nat \<Rightarrow> bytes \<Rightarrow> amd64_match" where
  "replaced name n replacement =
     \<lparr>am_InstructionName = name, am_Length = n, am_Lowering = InPlace, am_ReplacementBytes = replacement, am_StubBody = [],
      am_ReturnBranchOffset = 0, am_Optional = False, am_Relocations = [], am_RelocatableWindow = False\<rparr>"

definition trampoline :: "string \<Rightarrow> nat \<Rightarrow> bool \<Rightarrow> bool \<Rightarrow> lowered_body \<Rightarrow> amd64_match" where
  "trampoline name n optional window body =
     \<lparr>am_InstructionName = name, am_Length = n, am_Lowering = Trampoline, am_ReplacementBytes = [],
      am_StubBody = lb_Bytes body, am_ReturnBranchOffset = lb_ReturnBranchOffset body, am_Optional = optional,
      am_Relocations = lb_Relocations body, am_RelocatableWindow = window\<rparr>"

function moveTrailing :: "bytes \<Rightarrow> stub_builder \<Rightarrow> stub_builder res" where
  "moveTrailing trailing b =
     (if trailing = [] then Inr b
      else bind_res (DecodeInstruction trailing) (\<lambda>info.
        if di_Length info = 0 \<or> di_Length info > length trailing
        then Inl (CodegenError ''Trailing bytes do not split into whole instructions'')
        else bind_res (Move (take (di_Length info) trailing)
                         (if di_HasRipRelativeDisp info then Some (di_RipRelativeDispOffset info) else None) b)
               (\<lambda>b. moveTrailing (drop (di_Length info) trailing) b)))"
  by pat_completeness auto
termination by (relation "measure (\<lambda>(trailing, b). length trailing)") auto

declare moveTrailing.simps [simp del]

definition outOfLine :: "nat \<Rightarrow> bytes \<Rightarrow> (stub_builder \<Rightarrow> stub_builder res) \<Rightarrow> lowered_body res" where
  "outOfLine n trailing emit =
     bind_res (emit empty_builder) (\<lambda>b. bind_res (moveTrailing trailing (Advance n b)) (\<lambda>b. Inr (Finish b)))"

definition inPlace :: "string \<Rightarrow> nat \<Rightarrow> bytes \<Rightarrow> amd64_match" where
  "inPlace name n replacement = replaced name n (nopFill replacement (n - length replacement))"

definition emitRdpru :: "stub_builder \<Rightarrow> stub_builder" where
  "emitRdpru b = Raw kLeaRspRestore (Raw kRdpruTrampolineBytes (Raw kLeaRspBelowRedZone b))"

definition isClzeroOpcode :: "bytes \<Rightarrow> bool" where
  "isClzeroOpcode data =
     (let pos = OpcodeOffset data
      in pos + 2 < length data \<and> data ! pos = TwoByteOpcodeEscape \<and> data ! (pos + 1) = TwoByteGrp7 \<and> data ! (pos + 2) = 0xFC)"

definition rdpidReplacement :: "bytes \<Rightarrow> bytes" where
  "rdpidReplacement data =
     (let opc = OpcodeOffset data;
          rex = if opc > 0 \<and> data ! (opc - 1) \<ge> RexMin \<and> data ! (opc - 1) \<le> RexMax then data ! (opc - 1) else 0;
          reg = (data ! (opc + 2) AND ModRmRmMask) OR push_bit 3 (rex AND 1)
      in (if reg \<ge> 8 then [0x41] else []) @ [0xB8 + (reg AND 7)] @ replicate 4 0)"

definition rdtscpReplacement :: "bytes \<Rightarrow> bytes" where
  "rdtscpReplacement data = data @ [0xB9] @ replicate 4 0"

definition validWait :: "bytes \<Rightarrow> bool" where
  "validWait data \<longleftrightarrow> length data \<le> kMaxInstructionLength \<and> PrefixLock \<notin> set (take (OpcodeOffset data) data)"

subsection \<open>Matching an instruction\<close>

definition matchMovnts :: "bytes \<Rightarrow> string \<Rightarrow> amd64_match res" where
  "matchMovnts data name =
     (let opcodeOffset = OpcodeOffset data
      in if PrefixLock \<in> set (take opcodeOffset data) then Inl (CodegenError ''MOVNTSS/MOVNTSD with a LOCK prefix'')
         else if opcodeOffset + 2 \<ge> length data
         then Inl (CodegenError ''MOVNTSS/MOVNTSD truncated before its ModRM byte'')
         else if modrm_mod (data ! (opcodeOffset + 2)) = ModRmModRegister
         then Inl (CodegenError ''MOVNTSS/MOVNTSD with a register operand'')
         else Inr (replaced name (length data) (data[opcodeOffset + 1 := kMovsStoreOpcode])))"

definition matchSse4a :: "bytes \<Rightarrow> string \<Rightarrow> string \<Rightarrow> bytes \<Rightarrow> amd64_match res" where
  "matchSse4a data name registerFormName trailing =
     bind_res (DecodeSse4a data) (\<lambda>operands.
       case (if \<not> s4_RegisterForm operands \<and> trailing = [] then LowerInPlace operands (length data) else None) of
         Some replacement \<Rightarrow> Inr (replaced name (length data) replacement)
       | None \<Rightarrow>
           bind_res (outOfLine (length data) trailing (emit_calls sse4a_calls operands)) (\<lambda>body.
             Inr (trampoline (if s4_RegisterForm operands then registerFormName else name) (length data) False False body)))"

definition matchSha256 :: "bytes \<Rightarrow> bytes \<Rightarrow> amd64_match res" where
  "matchSha256 data trailing =
     bind_res (DecodeSha256 data) (\<lambda>operands.
     bind_res (outOfLine (length data) trailing (emit_calls sha256_calls operands)) (\<lambda>body.
       Inr (trampoline (sha256Entry operands) (length data) False False body)))"

definition matchSha1 :: "bytes \<Rightarrow> bytes \<Rightarrow> amd64_match res" where
  "matchSha1 data trailing =
     bind_res (DecodeSha1 data) (\<lambda>operands.
     bind_res (outOfLine (length data) trailing (emit_calls sha1_calls operands)) (\<lambda>body.
       Inr (trampoline (sha1Entry operands) (length data) False False body)))"

definition matchClzero :: "bytes \<Rightarrow> bytes \<Rightarrow> amd64_match res" where
  "matchClzero data trailing =
     bind_res (DecodeClzero data) (\<lambda>operands.
     bind_res (outOfLine (length data) trailing (emit_calls clzero_calls operands)) (\<lambda>body.
       Inr (trampoline kClzero (length data) False False body)))"

definition matchRdpru :: "bytes \<Rightarrow> bytes \<Rightarrow> amd64_match res" where
  "matchRdpru data trailing =
     (if \<not> validWait data then Inr (unsupported kRdpru (length data))
      else bind_res (outOfLine (length data) trailing (\<lambda>b. Inr (emitRdpru b))) (\<lambda>body.
        Inr (trampoline kRdpru (length data) False False body)))"

definition matchMcommit :: "bytes \<Rightarrow> amd64_match" where
  "matchMcommit data =
     (if \<not> validWait data then unsupported kMcommit (length data) else inPlace kMcommit (length data) [kMcommitStc])"

text \<open>
  The chain of \<open>if (const auto operands = Decode...)\<close>: the decoder's answer, or the rest of the chain. A
  stub of a decoded instruction.
\<close>

definition if_decoded :: "'a option res \<Rightarrow> ('a \<Rightarrow> 'b res) \<Rightarrow> 'b res \<Rightarrow> 'b res" where
  "if_decoded result found rest = bind_res result (\<lambda>d. case d of None \<Rightarrow> rest | Some operands \<Rightarrow> found operands)"

definition stub_match :: "bytes \<Rightarrow> bytes \<Rightarrow> string \<Rightarrow> bool \<Rightarrow> bool \<Rightarrow> (stub_builder \<Rightarrow> stub_builder res) \<Rightarrow> amd64_match option res" where
  "stub_match data trailing name optional window emit =
     bind_res (outOfLine (length data) trailing emit) (\<lambda>body. Inr (Some (trampoline name (length data) optional window body)))"

definition matchRosetta :: "amd64_target \<Rightarrow> bytes \<Rightarrow> bytes \<Rightarrow> amd64_match option res" where
  "matchRosetta target data trailing =
     (if target \<noteq> Rosetta then Inr None else
      if_decoded (DecodeAndn data) (\<lambda>andn. stub_match data trailing ''ANDN'' False False (emit_calls andn_calls andn)) (
      if_decoded (DecodeBls data) (\<lambda>bls.
        stub_match data trailing (BlsName (bl_Operation bls)) False False (emit_calls bls_calls bls)) (
      if_decoded (DecodeShift data) (\<lambda>shift.
        stub_match data trailing (ShiftName (sh_Operation shift)) False False (emit_calls shift_calls shift)) (
      if_decoded (DecodeBitfield data) (\<lambda>bitfield.
        stub_match data trailing (BitfieldName (bf_Operation bitfield)) False False (emit_calls bitfield_calls bitfield)) (
      if IsRdseed data
      then let at = OpcodeOffset data + 2
           in Inr (Some (replaced kRdseed (length data) (data[at := data ! at AND NOT (push_bit ModRmRegShift 1)])))
      else if IsClwb data then Inr (Some (inPlace kClwb (length data) []))
      else if IsXsaveopt data
      then let at = OpcodeOffset data + 2
           in Inr (Some (replaced kXsaveopt (length data) (data[at := data ! at AND NOT (push_bit ModRmRegShift 2)])))
      else if IsRdpid data
      then stub_match data trailing kRdpid True False (\<lambda>b. Inr (Raw (rdpidReplacement data) b))
      else if IsRdtscp data
      then stub_match data trailing kRdtscp True False (\<lambda>b. Inr (Raw (rdtscpReplacement data) b))
      else
      if_decoded (DecodeVexWideStore data) (\<lambda>wide.
        stub_match data trailing kWideStore False True (emit_calls wide_store_calls wide)) (
      if_decoded (Inr (DecodeScalarCompare data)) (\<lambda>compare.
        stub_match data trailing kScalarCompare True False (emit_calls scalar_compare_calls (data, compare))) (
      if_decoded (DecodeMaskedStore data) (\<lambda>masked.
        stub_match data trailing (ms_Name masked) False False (emit_calls masked_store_calls masked)) (
      if_decoded (DecodeMulx data) (\<lambda>mulx. stub_match data trailing ''MULX'' False False (emit_calls mulx_calls mulx))
        (Inr None)))))))))"

definition Match :: "amd64_target \<Rightarrow> bytes \<Rightarrow> bytes \<Rightarrow> amd64_match option res" where
  "Match target data trailing =
     (if IsMovntss data then map_sum id Some (matchMovnts data kMovntss)
      else if IsMovntsd data then map_sum id Some (matchMovnts data kMovntsd)
      else if IsExtrq data then map_sum id Some (matchSse4a data kExtrq kExtrqRegisterForm trailing)
      else if IsInsertq data then map_sum id Some (matchSse4a data kInsertq kInsertqRegisterForm trailing)
      else if IsSha256 data then map_sum id Some (matchSha256 data trailing)
      else if IsSha1 data then map_sum id Some (matchSha1 data trailing)
      else if IsMonitorx data
      then Inr (Some (if validWait data then inPlace kMonitorx (length data) [] else unsupported kMonitorx (length data)))
      else if IsMwaitx data
      then Inr (Some (if validWait data then inPlace kMwaitx (length data) kPause else unsupported kMwaitx (length data)))
      else case DecodeReciprocal data of
        Some reciprocal \<Rightarrow>
          stub_match data trailing (reciprocalEntry reciprocal) True False (emit_calls reciprocal_calls reciprocal)
      | None \<Rightarrow>
          if IsClzero data then map_sum id Some (matchClzero data trailing)
          else if isClzeroOpcode data then Inr (Some (unsupported kClzero (length data)))
          else if IsRdpru data then map_sum id Some (matchRdpru data trailing)
          else if IsMcommit data then Inr (Some (matchMcommit data))
          else matchRosetta target data trailing)"

subsection \<open>Emitting into a stub under construction\<close>

text \<open>\<open>None\<close> stands for the null pointer: nothing was emitted.\<close>

definition emitted :: "string \<Rightarrow> stub_builder res \<Rightarrow> (string \<times> stub_builder) option res" where
  "emitted name r = bind_res r (\<lambda>b. Inr (Some (name, b)))"

definition emitOutOfLine :: "amd64_target \<Rightarrow> bytes \<Rightarrow> stub_builder \<Rightarrow> (string \<times> stub_builder) option res" where
  "emitOutOfLine target data b =
     (if IsExtrq data \<or> IsInsertq data
      then bind_res (DecodeSse4a data) (\<lambda>operands. emitted (sse4aEntry operands) (emit_calls sse4a_calls operands b))
      else if IsSha256 data
      then bind_res (DecodeSha256 data) (\<lambda>operands. emitted (sha256Entry operands) (emit_calls sha256_calls operands b))
      else if IsSha1 data
      then bind_res (DecodeSha1 data) (\<lambda>operands. emitted (sha1Entry operands) (emit_calls sha1_calls operands b))
      else if IsClzero data
      then bind_res (DecodeClzero data) (\<lambda>operands. emitted kClzero (emit_calls clzero_calls operands b))
      else case DecodeReciprocal data of
        Some reciprocal \<Rightarrow> emitted (reciprocalEntry reciprocal) (emit_calls reciprocal_calls reciprocal b)
      | None \<Rightarrow>
      if IsRdpru data then (if \<not> validWait data then Inr None else emitted kRdpru (Inr (emitRdpru b)))
      else if IsMcommit data then (if \<not> validWait data then Inr None else emitted kMcommit (Inr (Raw [kMcommitStc] b)))
      else if target = Rosetta \<and> IsRdpid data then emitted kRdpid (Inr (Raw (rdpidReplacement data) b))
      else
      if_decoded (if target = Rosetta then DecodeAndn data else Inr None) (\<lambda>andn.
        emitted ''ANDN'' (emit_calls andn_calls andn b)) (
      if_decoded (if target = Rosetta then DecodeBls data else Inr None) (\<lambda>bls.
        emitted (BlsName (bl_Operation bls)) (emit_calls bls_calls bls b)) (
      if_decoded (if target = Rosetta then DecodeShift data else Inr None) (\<lambda>shift.
        emitted (ShiftName (sh_Operation shift)) (emit_calls shift_calls shift b)) (
      if_decoded (if target = Rosetta then DecodeBitfield data else Inr None) (\<lambda>bitfield.
        emitted (BitfieldName (bf_Operation bitfield)) (emit_calls bitfield_calls bitfield b)) (
      if target = Rosetta \<and> IsRdtscp data then emitted kRdtscp (Inr (Raw (rdtscpReplacement data) b))
      else
      if_decoded (if target = Rosetta then DecodeVexWideStore data else Inr None) (\<lambda>wide.
        emitted kWideStore (emit_calls wide_store_calls wide b)) (
      if_decoded (if target = Rosetta then Inr (DecodeScalarCompare data) else Inr None) (\<lambda>compare.
        emitted kScalarCompare (emit_calls scalar_compare_calls (data, compare) b)) (
      if_decoded (if target = Rosetta then DecodeMaskedStore data else Inr None) (\<lambda>masked.
        emitted (ms_Name masked) (emit_calls masked_store_calls masked b)) (
      if_decoded (if target = Rosetta then DecodeMulx data else Inr None) (\<lambda>mulx.
        emitted ''MULX'' (emit_calls mulx_calls mulx b))
        (Inr None)))))))))"

text \<open>The instructions of an in-place replacement, moved into the stub one by one.\<close>

function emitParts :: "bytes \<Rightarrow> nat \<Rightarrow> stub_builder \<Rightarrow> stub_builder res" where
  "emitParts replacement offset b =
     (if offset < length replacement
      then bind_res (DecodeInstruction (drop offset replacement)) (\<lambda>info.
        if di_Length info = 0 \<or> di_Length info > length replacement - offset
        then Inl (CodegenError ''In-place replacement does not split into whole instructions'')
        else
          let part = take (di_Length info) (drop offset replacement)
          in bind_res
               (if di_HasRipRelativeDisp info
                then RipRelative part (di_RipRelativeDispOffset info)
                       (int (offset + di_Length info) + signed32 (bytes_value part (di_RipRelativeDispOffset info) 4)) b
                else Inr (Raw part b))
               (\<lambda>b. emitParts replacement (offset + di_Length info) b))
      else Inr b)"
  by pat_completeness auto
termination by (relation "measure (\<lambda>(replacement, offset, b). length replacement - offset)") auto

declare emitParts.simps [simp del]

definition emitInPlace :: "amd64_target \<Rightarrow> bytes \<Rightarrow> stub_builder \<Rightarrow> (string \<times> stub_builder) option res" where
  "emitInPlace target data b =
     bind_res (Match target data []) (\<lambda>found.
       case found of
         None \<Rightarrow> Inr None
       | Some m \<Rightarrow>
           if am_Lowering m = InPlace \<and>
              am_InstructionName m \<in> set [kMovntss, kMovntsd, kMonitorx, kMwaitx, kRdseed, kClwb]
           then emitted (am_InstructionName m) (emitParts (am_ReplacementBytes m) 0 b)
           else Inr None)"

definition EmitOutOfLine :: "amd64_target \<Rightarrow> bytes \<Rightarrow> bool \<Rightarrow> stub_builder \<Rightarrow> stub_builder res" where
  "EmitOutOfLine target instruction allowInPlace b =
     bind_res (emitOutOfLine target instruction b) (\<lambda>e.
     bind_res (if e = None \<and> allowInPlace then emitInPlace target instruction b else Inr e) (\<lambda>e.
       case e of
         None \<Rightarrow> Inl (CodegenError ''AMD-only instruction has no out-of-line lowering'')
       | Some (_, b) \<Rightarrow> Inr (Advance (length instruction) b)))"

fun emitSequence :: "amd64_target \<Rightarrow> bytes list \<Rightarrow> string option \<Rightarrow> stub_builder \<Rightarrow> (string option \<times> stub_builder) option res" where
  "emitSequence target [] name b = Inr (Some (name, b))"
| "emitSequence target (instruction # instructions) name b =
     bind_res (emitOutOfLine target instruction b) (\<lambda>e.
     bind_res (if e = None \<and> name \<noteq> None then emitInPlace target instruction b else Inr e) (\<lambda>e.
       case e of
         None \<Rightarrow> Inr None
       | Some (emittedName, b) \<Rightarrow>
           emitSequence target instructions (Some (case name of None \<Rightarrow> emittedName | Some n \<Rightarrow> n))
             (Advance (length instruction) b)))"

definition MatchSequence :: "amd64_target \<Rightarrow> bytes list \<Rightarrow> bytes \<Rightarrow> amd64_match option res" where
  "MatchSequence target instructions trailing =
     (if instructions = [] then Inr None
      else bind_res (emitSequence target instructions None empty_builder) (\<lambda>e.
        case e of
          None \<Rightarrow> Inr None
        | Some (name, b) \<Rightarrow>
            bind_res (moveTrailing trailing b) (\<lambda>b.
              let first = hd instructions
              in Inr (Some (trampoline (the name) (length first)
                   (DecodeReciprocal first \<noteq> None \<or> target = Rosetta \<and> (IsRdpid first \<or> IsRdtscp first))
                   False (Finish b))))))"

subsection \<open>Emission keeps the stack and the position\<close>

lemma emit_kept_refl [simp]: "emit_kept b b"
  by (simp add: emit_kept_def)

lemma emit_kept_trans: "emit_kept a b \<Longrightarrow> emit_kept b c \<Longrightarrow> emit_kept a c"
  unfolding emit_kept_def by (auto intro: builds_trans)

lemma emit_kept_Raw: "emit_kept b (Raw code b)"
  unfolding emit_kept_def using builds_step [OF builds_refl step_Raw, of b code] by (simp add: Raw_def)

lemma emit_kept_rdpru: "emit_kept b (emitRdpru b)"
  unfolding emitRdpru_def by (blast intro: emit_kept_trans emit_kept_Raw)

lemmas emit_keeps = sse4a.emit_keeps sha256.emit_keeps sha1.emit_keeps clzero.emit_keeps reciprocal.emit_keeps
  andn.emit_keeps bls.emit_keeps shift.emit_keeps bitfield.emit_keeps mulx.emit_keeps masked.emit_keeps
  wide_store.emit_keeps scalar_compare.emit_keeps

lemma emitted_Inr [res_simps]: "emitted name r = Inr (Some (n, b)) \<longleftrightarrow> n = name \<and> r = Inr b"
  by (cases r) (auto simp: emitted_def)

lemma emitted_None [simp]: "emitted name r \<noteq> Inr None"
  by (cases r) (auto simp: emitted_def)

lemma if_decoded_cases:
  assumes "if_decoded r found rest = Inr x"
  obtains operands where "r = Inr (Some operands)" "found operands = Inr x" | "r = Inr None" "rest = Inr x"
  using assms unfolding if_decoded_def bind_res_Inr_iff by (metis option.case_eq_if option.collapse)

lemma emitOutOfLine_kept: "emitOutOfLine target data b = Inr (Some (n, b')) \<Longrightarrow> emit_kept b b'"
  unfolding emitOutOfLine_def
  by (auto simp: res_simps elim!: if_decoded_cases split: if_splits option.splits dest: emit_keeps intro: emit_kept_Raw emit_kept_rdpru)

lemma Move_position:
  assumes "Move instruction offset b = Inr b'"
  shows "sb_siteOffset b' = sb_siteOffset b + int (length instruction)" "sb_stackDepth b' = sb_stackDepth b"
  using assms by (auto simp: Move_def Advance_def Raw_def Let_def split: option.splits if_splits)

lemma moveTrailing_builds:
  "moveTrailing trailing b = Inr b' \<Longrightarrow>
   builds b b' \<and> sb_stackDepth b' = sb_stackDepth b \<and> sb_siteOffset b' = sb_siteOffset b + int (length trailing)"
proof (induction trailing b rule: moveTrailing.induct)
  case (1 trailing b)
  show ?case
  proof (cases "trailing = []")
    case True
    then show ?thesis using 1(2) by (simp add: moveTrailing.simps)
  next
    case False
    obtain info b1 where info: "DecodeInstruction trailing = Inr info" "0 < di_Length info" "di_Length info \<le> length trailing"
      and move: "Move (take (di_Length info) trailing)
        (if di_HasRipRelativeDisp info then Some (di_RipRelativeDispOffset info) else None) b = Inr b1"
      and rest: "moveTrailing (drop (di_Length info) trailing) b1 = Inr b'"
      using 1(2) False by (subst (asm) moveTrailing.simps) (auto simp: res_simps)
    have "builds b1 b' \<and> sb_stackDepth b' = sb_stackDepth b1 \<and>
        sb_siteOffset b' = sb_siteOffset b1 + int (length (drop (di_Length info) trailing))"
      by (rule 1(1) [OF False info(1) _ move rest]) (use info in auto)
    then show ?thesis
      using builds_step [OF builds_refl step_Move [OF move]] Move_position [OF move] info(3)
      by (auto intro: builds_trans)
  qed
qed

subsection \<open>The stub of one instruction\<close>

definition built_from :: "amd64_target \<Rightarrow> bytes \<Rightarrow> bytes \<Rightarrow> amd64_match \<Rightarrow> bool" where
  "built_from target data trailing m \<longleftrightarrow> (\<exists>b b' optional window.
     emitOutOfLine target data empty_builder = Inr (Some (am_InstructionName m, b)) \<and>
     moveTrailing trailing (Advance (length data) b) = Inr b' \<and>
     m = trampoline (am_InstructionName m) (length data) optional window (Finish b'))"

lemma outOfLine_Inr [res_simps]:
  "outOfLine n trailing emit = Inr body \<longleftrightarrow>
     (\<exists>b b'. emit empty_builder = Inr b \<and> moveTrailing trailing (Advance n b) = Inr b' \<and> body = Finish b')"
  by (auto simp: outOfLine_def res_simps)

lemma stub_match_Inr [res_simps]:
  "stub_match data trailing name optional window emit = Inr (Some m) \<longleftrightarrow>
     (\<exists>b b'. emit empty_builder = Inr b \<and> moveTrailing trailing (Advance (length data) b) = Inr b' \<and>
        m = trampoline name (length data) optional window (Finish b'))"
  by (auto simp: stub_match_def res_simps)

lemma stub_match_None [simp]: "stub_match data trailing name optional window emit \<noteq> Inr None"
  by (auto simp: stub_match_def bind_res_Inr_iff)

lemma match_fields [simp]:
  "am_Lowering (trampoline name n optional window body) = Trampoline" "am_Lowering (replaced name n bs) = InPlace"
  "am_Lowering (inPlace name n bs) = InPlace" "am_Lowering (unsupported name n) = Unsupported"
  "am_InstructionName (trampoline name n optional window body) = name" "am_Length (trampoline name n optional window body) = n"
  "am_Length (replaced name n bs) = n" "am_Length (inPlace name n bs) = n" "am_Length (unsupported name n) = n"
  "am_ReplacementBytes (replaced name n bs) = bs"
  "am_ReplacementBytes (inPlace name n bs) = nopFill bs (n - length bs)"
  by (simp_all add: trampoline_def replaced_def inPlace_def unsupported_def)

lemma skip_prefixes_vex:
  "vex_offset data < length data \<Longrightarrow> data ! vex_offset data = 0xC4 \<Longrightarrow>
   fst (skip_prefixes data pos f) = pos + vex_offset data"
proof (induction data arbitrary: pos f)
  case (Cons x data)
  then show ?case
    by (cases "LegacyPrefix x") (auto simp: vex_offset_def LegacyPrefix_def is_rex_def skip_prefixes.simps)
qed simp

lemma not_rdpid_vex: "vex_offset data < length data \<Longrightarrow> data ! vex_offset data = 0xC4 \<Longrightarrow> \<not> IsRdpid data"
  using skip_prefixes_vex [of data 0 no_flags] by (auto simp: IsRdpid_def skipPrefixesAndRex_def Let_def split: prod.splits)

lemma decoded_not_rdpid:
  "DecodeAndn data = Inr (Some andn) \<Longrightarrow> \<not> IsRdpid data"
  "DecodeBls data = Inr (Some bls) \<Longrightarrow> \<not> IsRdpid data"
  "DecodeShift data = Inr (Some shift) \<Longrightarrow> \<not> IsRdpid data"
  "DecodeBitfield data = Inr (Some bitfield) \<Longrightarrow> \<not> IsRdpid data"
  by (rule not_rdpid_vex; simp add: DecodeAndn_def DecodeBls_def DecodeShift_def DecodeBitfield_def Let_def split: if_splits)+

lemma skip_prefixes_stop: "data \<noteq> [] \<Longrightarrow> hd data = 0x0F \<or> hd data = 0xC4 \<or> hd data = 0xC5 \<Longrightarrow> skip_prefixes data pos f = (pos, f)"
  by (cases data) (auto simp: skip_prefixes.simps is_rex_def)

lemma clzero_bytes:
  assumes "IsClzero data"
  shows "data ! OpcodeOffset data = TwoByteOpcodeEscape \<and> data ! (OpcodeOffset data + 1) = TwoByteGrp7"
  using assms by (simp add: IsClzero_def OpcodeOffset_def Let_def split: prod.splits if_splits)

lemma reciprocal_form_cases:
  "reciprocal_form data = Some (r, rm, payload, off, vex) \<Longrightarrow>
   data ! 0 \<in> {OneByteVex2, OneByteVex3} \<or> data ! 0 = TwoByteOpcodeEscape \<and> off = 1 \<or>
   is_rex (data ! 0) \<and> data ! 1 = TwoByteOpcodeEscape \<and> off = 2"
  by (auto simp: reciprocal_form_def is_rex_def split: if_splits)

lemma reciprocal_opcode:
  "DecodeReciprocal data = Some operands \<Longrightarrow> 3 \<le> length data \<and>
   (\<exists>r rm payload off vex. reciprocal_form data = Some (r, rm, payload, off, vex) \<and> data ! off \<noteq> TwoByteGrp7)"
  by (auto simp: DecodeReciprocal_def Let_def split: if_splits option.splits)

lemma reciprocal_not_clzero:
  assumes "DecodeReciprocal data = Some operands"
  shows "\<not> IsClzero data"
proof -
  obtain r rm payload off vex where form: "reciprocal_form data = Some (r, rm, payload, off, vex)" "data ! off \<noteq> TwoByteGrp7"
      and "3 \<le> length data"
    using reciprocal_opcode [OF assms] by blast
  then obtain a b rest where data: "data = a # b # rest" by (cases data; cases "tl data") auto
  from reciprocal_form_cases [OF form(1)] show ?thesis
  proof (elim disjE conjE)
    assume "data ! 0 \<in> {OneByteVex2, OneByteVex3}"
    then have "OpcodeOffset data = 0" "data ! 0 \<noteq> TwoByteOpcodeEscape"
      by (auto simp: data OpcodeOffset_def skipPrefixesAndRex_def skip_prefixes_stop)
    then show ?thesis using clzero_bytes [of data] by auto
  next
    assume "data ! 0 = TwoByteOpcodeEscape" "off = 1"
    then have "OpcodeOffset data = 0" by (simp add: data OpcodeOffset_def skipPrefixesAndRex_def skip_prefixes_stop)
    then show ?thesis using clzero_bytes [of data] form(2) \<open>off = 1\<close> by auto
  next
    assume "is_rex (data ! 0)" "data ! 1 = TwoByteOpcodeEscape" "off = 2"
    moreover have "\<not> is_rex TwoByteOpcodeEscape" by (simp add: is_rex_def)
    ultimately have "OpcodeOffset data = 1"
      by (simp add: data OpcodeOffset_def skipPrefixesAndRex_def skip_prefixes.simps)
    then show ?thesis using clzero_bytes [of data] form(2) \<open>off = 2\<close> by (auto simp: numeral_2_eq_2)
  qed
qed

lemma sse4a_prefixes_repne:
  "sse4a_prefixes data pos operandSize repne rexByte = Inr (pos', operandSize', repne', rexByte') \<Longrightarrow>
   hasRepnePrefix f = repne \<Longrightarrow> hasRepnePrefix (snd (skip_prefixes data pos f)) = repne'"
proof (induction data arbitrary: pos operandSize repne rexByte f)
  case (Cons b data)
  consider (rex) "RexMin \<le> b" "b \<le> RexMax" | (lock) "b = PrefixLock" | (size) "b = PrefixOperandSize" | (repne) "b = PrefixRepne"
    | (skipped) "b \<in> {PrefixRep, PrefixAddressSize, PrefixSegCs, PrefixSegSs, PrefixSegDs, PrefixSegEs, PrefixSegFs, PrefixSegGs}"
    | (stop) "\<not> (RexMin \<le> b \<and> b \<le> RexMax)" "b \<notin> {PrefixLock, PrefixOperandSize, PrefixRepne, PrefixRep, PrefixAddressSize,
        PrefixSegCs, PrefixSegSs, PrefixSegDs, PrefixSegEs, PrefixSegFs, PrefixSegGs}"
    by blast
  then show ?case
  proof cases
    case rex
    then show ?thesis using Cons.prems by (simp add: skip_prefixes.simps is_rex_def Cons.IH)
  next
    case lock
    then show ?thesis using Cons.prems(1) by simp
  next
    case size
    then show ?thesis using Cons.prems by (simp add: skip_prefixes.simps is_rex_def Cons.IH)
  next
    case repne
    then show ?thesis using Cons.prems by (simp add: skip_prefixes.simps is_rex_def Cons.IH)
  next
    case skipped
    then show ?thesis using Cons.prems
      by (elim insertE emptyE) (simp_all add: skip_prefixes.simps is_rex_def is_segment_prefix_def Cons.IH)
  next
    case stop
    then show ?thesis using Cons.prems by (simp add: skip_prefixes.simps is_rex_def [symmetric] is_segment_prefix_def)
  qed
qed simp

lemma DecodeSse4a_prefixes:
  "DecodeSse4a data = Inr operands \<Longrightarrow> \<exists>pos operandSize rexByte.
   sse4a_prefixes data 0 False False 0 = Inr (pos, operandSize, s4_Insertq operands, rexByte)"
  unfolding DecodeSse4a_def by (auto simp: res_simps Let_def split: if_splits)

lemma DecodeSse4a_insertq:
  "DecodeSse4a data = Inr operands \<Longrightarrow> s4_Insertq operands = hasRepnePrefix (snd (skipPrefixesAndRex data))"
  using DecodeSse4a_prefixes [of data operands] sse4a_prefixes_repne [of data 0 False False 0 _ _ _ _ no_flags]
  by (fastforce simp: skipPrefixesAndRex_def no_flags_def)

lemma DecodeSse4a_kind:
  assumes "DecodeSse4a data = Inr operands"
  shows "IsExtrq data \<Longrightarrow> \<not> s4_Insertq operands" "IsInsertq data \<Longrightarrow> s4_Insertq operands"
  using DecodeSse4a_insertq [OF assms] by (auto simp: IsExtrq_def IsInsertq_def Let_def split: prod.splits if_splits)

lemma if_decoded_simps [simp]:
  "if_decoded (Inr None) found rest = rest" "if_decoded (Inr (Some operands)) found rest = found operands"
  by (simp_all add: if_decoded_def)

lemma emitted_simp [simp]: "emitted name (Inr b) = Inr (Some (name, b))"
  by (simp add: emitted_def)

text \<open>
  \<open>same_stub data trailing found e\<close>: when the matcher answers \<open>found\<close> with a stub, the emission \<open>e\<close> into an
  empty builder is the start of that stub, under the same name. The chains of the two functions are
  compared link by link.
\<close>

definition same_stub :: "bytes \<Rightarrow> bytes \<Rightarrow> amd64_match option res \<Rightarrow> (string \<times> stub_builder) option res \<Rightarrow> bool" where
  "same_stub data trailing found e \<longleftrightarrow> (\<forall>m. found = Inr (Some m) \<and> am_Lowering m = Trampoline \<longrightarrow>
     (\<exists>b b' optional window. e = Inr (Some (am_InstructionName m, b)) \<and>
        moveTrailing trailing (Advance (length data) b) = Inr b' \<and>
        m = trampoline (am_InstructionName m) (length data) optional window (Finish b')))"

lemma same_stub_built: "same_stub data trailing (Match target data trailing) (emitOutOfLine target data empty_builder) \<Longrightarrow>
  Match target data trailing = Inr (Some m) \<Longrightarrow> am_Lowering m = Trampoline \<Longrightarrow> built_from target data trailing m"
  unfolding same_stub_def built_from_def by blast

lemma same_stub_decoded:
  "(\<And>operands. r = Inr (Some operands) \<Longrightarrow> same_stub data trailing (found operands) (e operands)) \<Longrightarrow>
   (r = Inr None \<Longrightarrow> same_stub data trailing rest rest') \<Longrightarrow>
   same_stub data trailing (if_decoded r found rest) (if_decoded r e rest')"
  by (cases r; cases "projr r") (auto simp: if_decoded_def same_stub_def)

lemma same_stub_if: "(c \<Longrightarrow> same_stub data trailing x y) \<Longrightarrow> (\<not> c \<Longrightarrow> same_stub data trailing x' y') \<Longrightarrow>
  same_stub data trailing (if c then x else x') (if c then y else y')"
  by simp

lemma same_stub_match: "same_stub data trailing (stub_match data trailing name optional window emit) (emitted name (emit empty_builder))"
  unfolding same_stub_def by (auto simp: res_simps) blast

lemma same_stub_None [simp]: "same_stub data trailing (Inr None) e"
  by (simp add: same_stub_def)

lemma same_stub_other: "am_Lowering m \<noteq> Trampoline \<Longrightarrow> same_stub data trailing (Inr (Some m)) e"
  by (simp add: same_stub_def)

lemma same_stub_rosetta:
  "same_stub data trailing (matchRosetta target data trailing)
     (if_decoded (if target = Rosetta then DecodeAndn data else Inr None) (\<lambda>andn.
        emitted ''ANDN'' (emit_calls andn_calls andn empty_builder)) (
      if_decoded (if target = Rosetta then DecodeBls data else Inr None) (\<lambda>bls.
        emitted (BlsName (bl_Operation bls)) (emit_calls bls_calls bls empty_builder)) (
      if_decoded (if target = Rosetta then DecodeShift data else Inr None) (\<lambda>shift.
        emitted (ShiftName (sh_Operation shift)) (emit_calls shift_calls shift empty_builder)) (
      if_decoded (if target = Rosetta then DecodeBitfield data else Inr None) (\<lambda>bitfield.
        emitted (BitfieldName (bf_Operation bitfield)) (emit_calls bitfield_calls bitfield empty_builder)) (
      if target = Rosetta \<and> IsRdpid data then emitted kRdpid (Inr (Raw (rdpidReplacement data) empty_builder))
      else if target = Rosetta \<and> IsRdtscp data then emitted kRdtscp (Inr (Raw (rdtscpReplacement data) empty_builder))
      else
      if_decoded (if target = Rosetta then DecodeVexWideStore data else Inr None) (\<lambda>wide.
        emitted kWideStore (emit_calls wide_store_calls wide empty_builder)) (
      if_decoded (if target = Rosetta then Inr (DecodeScalarCompare data) else Inr None) (\<lambda>compare.
        emitted kScalarCompare (emit_calls scalar_compare_calls (data, compare) empty_builder)) (
      if_decoded (if target = Rosetta then DecodeMaskedStore data else Inr None) (\<lambda>masked.
        emitted (ms_Name masked) (emit_calls masked_store_calls masked empty_builder)) (
      if_decoded (if target = Rosetta then DecodeMulx data else Inr None) (\<lambda>mulx.
        emitted ''MULX'' (emit_calls mulx_calls mulx empty_builder))
        (Inr None)))))))))"
proof (cases target)
  case Rosetta
  have rdpid: "same_stub data trailing (stub_match data trailing kRdpid True False (\<lambda>b. Inr (Raw (rdpidReplacement data) b)))
      (emitted kRdpid (Inr (Raw (rdpidReplacement data) empty_builder)))"
    "same_stub data trailing (stub_match data trailing kRdtscp True False (\<lambda>b. Inr (Raw (rdtscpReplacement data) b)))
      (emitted kRdtscp (Inr (Raw (rdtscpReplacement data) empty_builder)))"
    by (rule same_stub_match)+
  show ?thesis
    unfolding matchRosetta_def Rosetta
    by (simp add: rdpid del: emitted_simp) (auto intro!: same_stub_decoded same_stub_match same_stub_other rdpid simp: Let_def simp del: emitted_simp)
qed (simp add: matchRosetta_def)

lemma same_stub_skip:
  "(\<And>operands. r \<noteq> Inr (Some operands)) \<Longrightarrow> (r = Inr None \<Longrightarrow> same_stub data trailing rest e) \<Longrightarrow>
   same_stub data trailing (if_decoded r found rest) e"
  by (cases r; cases "projr r") (auto simp: if_decoded_def same_stub_def)

lemma same_stub_rdpid:
  assumes "IsRdpid data"
  shows "same_stub data trailing (matchRosetta Rosetta data trailing) (Inr (Some (kRdpid, Raw (rdpidReplacement data) empty_builder)))"
proof -
  have "same_stub data trailing (stub_match data trailing kRdpid True False (\<lambda>b. Inr (Raw (rdpidReplacement data) b)))
      (emitted kRdpid (Inr (Raw (rdpidReplacement data) empty_builder)))"
    by (rule same_stub_match)
  then show ?thesis
    unfolding matchRosetta_def using assms decoded_not_rdpid
    by (simp add: Let_def) (auto intro!: same_stub_skip same_stub_other)
qed

lemma same_stub_bind:
  "(\<And>x. r = Inr x \<Longrightarrow> same_stub data trailing (map_sum id Some (found x)) (e x)) \<Longrightarrow>
   same_stub data trailing (map_sum id Some (bind_res r found)) (bind_res r e)"
  by (cases r) (auto simp: same_stub_def)

lemma map_match: "map_sum id Some (bind_res (outOfLine (length data) trailing emit) (\<lambda>body.
    Inr (trampoline name (length data) optional window body))) = stub_match data trailing name optional window emit"
  unfolding stub_match_def by (cases "outOfLine (length data) trailing emit") auto

lemma same_stub_sse4a:
  assumes "\<And>operands. DecodeSse4a data = Inr operands \<Longrightarrow>
    sse4aEntry operands = (if s4_RegisterForm operands then registerFormName else name)"
  shows "same_stub data trailing (map_sum id Some (matchSse4a data name registerFormName trailing))
    (bind_res (DecodeSse4a data) (\<lambda>operands. emitted (sse4aEntry operands) (emit_calls sse4a_calls operands empty_builder)))"
  unfolding matchSse4a_def
  by (rule same_stub_bind) (auto simp: map_match assms intro!: same_stub_match same_stub_other split: option.split)

lemma same_stub_movnts: "same_stub data trailing (map_sum id Some (matchMovnts data name)) e"
  by (auto simp: matchMovnts_def same_stub_def Let_def)

lemma same_stub_Match: "same_stub data trailing (Match target data trailing) (emitOutOfLine target data empty_builder)"
proof (cases "IsMovntss data \<or> IsMovntsd data")
  case True
  then show ?thesis by (auto simp: Match_def same_stub_movnts)
next
  case not_movnt: False
  have rdpru: "same_stub data trailing (stub_match data trailing kRdpru False False (\<lambda>b. Inr (emitRdpru b)))
      (emitted kRdpru (Inr (emitRdpru empty_builder)))"
    by (rule same_stub_match)
  consider (extrq) "IsExtrq data" | (insertq) "\<not> IsExtrq data" "IsInsertq data"
    | (sha256) "\<not> IsExtrq data" "\<not> IsInsertq data" "IsSha256 data"
    | (sha1) "\<not> IsExtrq data" "\<not> IsInsertq data" "\<not> IsSha256 data" "IsSha1 data"
    | (other) "\<not> IsExtrq data" "\<not> IsInsertq data" "\<not> IsSha256 data" "\<not> IsSha1 data"
    by blast
  then show ?thesis
  proof cases
    case extrq
    then show ?thesis using not_movnt
      by (simp add: Match_def emitOutOfLine_def) (rule same_stub_sse4a; simp add: DecodeSse4a_kind sse4aEntry_def)
  next
    case insertq
    then show ?thesis using not_movnt
      by (simp add: Match_def emitOutOfLine_def) (rule same_stub_sse4a; simp add: DecodeSse4a_kind sse4aEntry_def)
  next
    case sha256
    then show ?thesis using not_movnt
      by (simp add: Match_def emitOutOfLine_def matchSha256_def) (rule same_stub_bind; simp add: map_match same_stub_match)
  next
    case sha1
    then show ?thesis using not_movnt
      by (simp add: Match_def emitOutOfLine_def matchSha1_def) (rule same_stub_bind; simp add: map_match same_stub_match)
  next
    case other
    show ?thesis
    proof (cases "IsMonitorx data \<or> IsMwaitx data")
      case True
      then show ?thesis using not_movnt other by (auto simp: Match_def intro!: same_stub_other)
    next
      case not_wait: False
      show ?thesis
      proof (cases "DecodeReciprocal data")
        case (Some reciprocal)
        then show ?thesis using not_movnt other not_wait reciprocal_not_clzero [OF Some]
          by (simp add: Match_def emitOutOfLine_def same_stub_match)
      next
        case None
        have rosetta: "same_stub data trailing (matchRosetta target data trailing) (emitOutOfLine target data empty_builder)"
          if "\<not> IsClzero data" "\<not> IsRdpru data" "\<not> IsMcommit data"
        proof (cases "target = Rosetta \<and> IsRdpid data")
          case True
          then show ?thesis using other None that same_stub_rdpid by (simp add: emitOutOfLine_def)
        next
          case False
          show ?thesis
          proof (cases target)
            case Rosetta
            then show ?thesis using False other None that same_stub_rosetta [of data trailing Rosetta]
              by (simp add: emitOutOfLine_def del: emitted_simp)
          qed (simp add: matchRosetta_def)
        qed
        show ?thesis using not_movnt other not_wait None rosetta rdpru
          by (auto simp: Match_def emitOutOfLine_def matchClzero_def matchRdpru_def matchMcommit_def map_match
              intro!: same_stub_bind same_stub_other same_stub_match)
      qed
    qed
  qed
qed

lemmas Match_trampoline_built = same_stub_built [OF same_stub_Match]

subsection \<open>Replacements in place\<close>

lemma length_kNops: "1 \<le> n \<Longrightarrow> n \<le> 7 \<Longrightarrow> length (kNop n) = n"
  by (simp add: kNop_def)

lemma length_nopFill: "length (nopFill out n) = length out + n"
proof (induction out n rule: nopFill.induct)
  case (2 out n)
  then show ?case by (simp add: length_kNops)
qed simp

lemma length_inPlace: "length bs \<le> n \<Longrightarrow> length (am_ReplacementBytes (inPlace name n bs)) = n"
  by (simp add: length_nopFill)

lemma LowerInPlace_length: "LowerInPlace operands n = Some bs \<Longrightarrow> length bs = n"
  by (auto simp: LowerInPlace_def length_nopFill Let_def split: if_splits option.splits)

lemma recognised_length: "IsMwaitx data \<Longrightarrow> 3 \<le> length data" "IsMcommit data \<Longrightarrow> 3 \<le> length data"
  by (auto simp: IsMwaitx_def IsMcommit_def Let_def split: prod.splits if_splits)

lemma map_sum_Inr_iff: "map_sum id Some r = Inr (Some m) \<longleftrightarrow> r = Inr m"
  by (cases r) auto

definition covers :: "bytes \<Rightarrow> amd64_match \<Rightarrow> bool" where
  "covers data m \<longleftrightarrow> am_Length m = length data \<and> am_Lowering m \<noteq> Kept \<and>
     (am_Lowering m = InPlace \<longrightarrow> length (am_ReplacementBytes m) = length data)"

lemma covers_simps [simp]:
  "covers data (trampoline name (length data) optional window body)" "covers data (unsupported name (length data))"
  "length bs = length data \<Longrightarrow> covers data (replaced name (length data) bs)"
  "length bs \<le> length data \<Longrightarrow> covers data (inPlace name (length data) bs)"
  by (simp_all add: covers_def length_nopFill)

lemma covers_rosetta: "matchRosetta target data trailing = Inr (Some m) \<Longrightarrow> covers data m"
  unfolding matchRosetta_def
  by (auto simp: res_simps Let_def elim!: if_decoded_cases split: if_splits)

lemma covers_movnts: "matchMovnts data name = Inr m \<Longrightarrow> covers data m"
  by (auto simp: matchMovnts_def Let_def split: if_splits)

lemma covers_sse4a: "matchSse4a data name registerFormName trailing = Inr m \<Longrightarrow> covers data m"
  by (auto simp: matchSse4a_def res_simps LowerInPlace_length split: if_splits option.splits)

lemma covers_Match: "Match target data trailing = Inr (Some m) \<Longrightarrow> covers data m"
  unfolding Match_def
  by (auto simp: matchSha256_def matchSha1_def matchClzero_def matchRdpru_def matchMcommit_def res_simps map_sum_Inr_iff
      kPause_def dest: recognised_length covers_movnts covers_sse4a covers_rosetta split: if_splits option.splits)

subsection \<open>Properties\<close>

lemma emitOutOfLine_start:
  "emitOutOfLine target data empty_builder = Inr (Some (name, b)) \<Longrightarrow>
   builds empty_builder (Advance n b) \<and> sb_stackDepth (Advance n b) = 0 \<and> sb_siteOffset (Advance n b) = int n"
  using emitOutOfLine_kept [of target data empty_builder name b]
  by (auto simp: emit_kept_def Advance_def [abs_def] empty_builder_def dest: builds_step [OF _ step_Advance, of _ b n])

text \<open>
  A substitution covers the instruction exactly: bytes in place are as many as the instruction has, and the builder that
  a stub is finished from, which the lowering fills, has the stack pointer where it was and ends behind the
  instruction and the trailing instructions, where its final jump returns to.
\<close>

lemma match_covers_instruction:
  assumes "Match target data trailing = Inr (Some m)"
  shows "am_Length m = length data \<and> am_Lowering m \<noteq> Kept \<and>
    (am_Lowering m = InPlace \<longrightarrow> length (am_ReplacementBytes m) = length data) \<and>
    (am_Lowering m = Trampoline \<longrightarrow> (\<exists>b b'. emitOutOfLine target data empty_builder = Inr (Some (am_InstructionName m, b)) \<and>
       moveTrailing trailing (Advance (length data) b) = Inr b' \<and> sb_stackDepth b' = 0 \<and>
       sb_siteOffset b' = int (length data + length trailing) \<and> am_StubBody m = lb_Bytes (Finish b') \<and>
       am_ReturnBranchOffset m = length (sb_bytes b') \<and> am_Relocations m = sb_relocations b'))"
proof -
  have "\<exists>b b'. emitOutOfLine target data empty_builder = Inr (Some (am_InstructionName m, b)) \<and>
       moveTrailing trailing (Advance (length data) b) = Inr b' \<and> sb_stackDepth b' = 0 \<and>
       sb_siteOffset b' = int (length data + length trailing) \<and> am_StubBody m = lb_Bytes (Finish b') \<and>
       am_ReturnBranchOffset m = length (sb_bytes b') \<and> am_Relocations m = sb_relocations b'"
    if tr: "am_Lowering m = Trampoline"
  proof -
    obtain b b' optional window where b: "emitOutOfLine target data empty_builder = Inr (Some (am_InstructionName m, b))"
        "moveTrailing trailing (Advance (length data) b) = Inr b'"
        "m = trampoline (am_InstructionName m) (length data) optional window (Finish b')"
      using Match_trampoline_built [OF assms tr] unfolding built_from_def by blast
    have "sb_stackDepth b' = 0" "sb_siteOffset b' = int (length data + length trailing)"
      using emitOutOfLine_start [OF b(1), of "length data"] moveTrailing_builds [OF b(2)] by auto
    moreover have "am_StubBody m = lb_Bytes (Finish b')" "am_ReturnBranchOffset m = length (sb_bytes b')" "am_Relocations m = sb_relocations b'"
      by (subst b(3), simp add: trampoline_def Finish_def split: prod.split)+
    ultimately show ?thesis using b(1,2) by blast
  qed
  then show ?thesis using covers_Match [OF assms] by (simp add: covers_def)
qed

text \<open>
  C18: The two ways to build the stub of one instruction agree: when \<open>Match\<close> answers with a stub, \<open>MatchSequence\<close> on
  that instruction alone answers with the same name, length, body, return branch and relocations.
\<close>
theorem match_sequence_agrees:
  assumes "Match target data trailing = Inr (Some m)" "am_Lowering m = Trampoline"
  shows "\<exists>optional. MatchSequence target [data] trailing =
    Inr (Some (m\<lparr>am_Optional := optional, am_RelocatableWindow := False\<rparr>))"
proof -
  obtain b b' optional window where b: "emitOutOfLine target data empty_builder = Inr (Some (am_InstructionName m, b))"
      "moveTrailing trailing (Advance (length data) b) = Inr b'"
      "m = trampoline (am_InstructionName m) (length data) optional window (Finish b')"
    using Match_trampoline_built [OF assms] unfolding built_from_def by blast
  have "\<exists>optional. MatchSequence target [data] trailing =
      Inr (Some (trampoline (am_InstructionName m) (length data) optional False (Finish b')))"
    by (simp add: MatchSequence_def b(1,2) trampoline_def)
  moreover have "m\<lparr>am_Optional := x, am_RelocatableWindow := False\<rparr> =
      trampoline (am_InstructionName m) (length data) x False (Finish b')" for x
    by (subst b(3)) (simp add: trampoline_def)
  ultimately show ?thesis by simp
qed

subsection \<open>A concrete EXTRQ\<close>

text \<open>\<open>extrq xmm1, 8, 4\<close> followed by a no-operation that the jump would overwrite.\<close>

definition sample_extrq_code :: bytes where "sample_extrq_code = [0x66, 0x0F, 0x78, 0xC1, 0x08, 0x04]"

definition sample_extrq_match :: amd64_match where
  "sample_extrq_match = \<lparr>am_InstructionName = ''EXTRQ'', am_Length = 6, am_Lowering = Trampoline, am_ReplacementBytes = [],
     am_StubBody = [0x66, 0x0F, 0x73, 0xD1, 4, 0x66, 0x0F, 0x73, 0xF1, 56, 0x66, 0x0F, 0x73, 0xD1, 56, 0xF3, 0x0F, 0x7E, 0xC9,
       0x90, 0xE9, 0, 0, 0, 0], am_ReturnBranchOffset = 20, am_Optional = False, am_Relocations = [],
     am_RelocatableWindow = False\<rparr>"

lemma sample_extrq_Match: "Match Intel sample_extrq_code [0x90] = Inr (Some sample_extrq_match)"
  by code_simp

lemma match_sequence_agrees_witness:
  "\<exists>optional. MatchSequence Intel [sample_extrq_code] [0x90] =
     Inr (Some (sample_extrq_match\<lparr>am_Optional := optional, am_RelocatableWindow := False\<rparr>))"
  by (rule match_sequence_agrees [OF sample_extrq_Match]) (simp add: sample_extrq_match_def)

end
