(* ===== verification/X64_Window.thy ===== *)
theory X64_Window
  imports X64_Matcher Code_Scanner
begin

text \<open>
  \<open>WindowPlacer\<close> (\<open>codegen/src/Amd64OnlyConverter.cpp\<close>): where the jump to a stub goes when the instruction is
  shorter than the jump. A window moves the instruction with a neighbour into the stub; an island moves
  nearby instructions away and puts the jump in their place, in reach of a two-byte jump. The placer
  reads the segment, the instructions found in it, the addresses that branches enter, the instructions
  that wait for a substitution and those that another stub has moved; an island writes the segment.
\<close>

subsection \<open>Data\<close>

record trampoline_site =
  ts_Offset :: u64
  ts_Address :: u64
  ts_Length :: nat
  ts_OriginalBytes :: bytes
  ts_Body :: bytes
  ts_ReturnBranchOffset :: nat
  ts_Relocations :: "stub_relocation list"

record placement =
  pl_Sites :: "trampoline_site list"
  pl_Claimed :: "nat list"
  pl_Consumed :: "nat list"
  pl_ReplacementLength :: nat

definition empty_placement :: placement where
  "empty_placement = \<lparr>pl_Sites = [], pl_Claimed = [], pl_Consumed = [], pl_ReplacementLength = 0\<rparr>"

text \<open>The placer's references: the segment is the one part that it changes.\<close>

record window_placer =
  wp_seg :: bytes
  wp_matches :: "instruction_match list"
  wp_ph :: program_header
  wp_branchTargets :: "u64 set"
  wp_pending :: "nat set"
  wp_claimed :: "nat set"
  wp_target :: amd64_target

abbreviation (input) kShortJumpSize :: u64 where "kShortJumpSize \<equiv> 2"
abbreviation (input) kIslandSearchBytes :: u64 where "kIslandSearchBytes \<equiv> 0x100"

text \<open>\<open>catch (const CodegenException&)\<close>\<close>

fun catch_codegen :: "'a res \<Rightarrow> 'a res \<Rightarrow> 'a res" where
  "catch_codegen (Inl (CodegenException message offset)) handler = handler"
| "catch_codegen r handler = r"

subsection \<open>Instructions\<close>

definition wp_count :: "window_placer \<Rightarrow> nat" where
  "wp_count p = length (wp_matches p)"

definition wp_address :: "window_placer \<Rightarrow> nat \<Rightarrow> u64" where
  "wp_address p index = ph_MappedAddress (wp_ph p) + im_Offset (wp_matches p ! index)"

definition wp_end :: "window_placer \<Rightarrow> nat \<Rightarrow> u64" where
  "wp_end p index = wp_address p index + of_nat (im_Length (wp_matches p ! index))"

definition distance :: "u64 \<Rightarrow> u64 \<Rightarrow> int" where
  "distance to start = sint (to - start)"

definition wp_bytes :: "window_placer \<Rightarrow> nat \<Rightarrow> bytes" where
  "wp_bytes p index = subbytes (wp_seg p) (unat (im_Offset (wp_matches p ! index))) (im_Length (wp_matches p ! index))"

definition wp_info :: "window_placer \<Rightarrow> nat \<Rightarrow> instruction_info res" where
  "wp_info p index = DecodeInstruction (wp_bytes p index)"

text \<open>Whether a branch target lies strictly inside: the first target above the start is below the end.\<close>

definition entered :: "u64 set \<Rightarrow> u64 \<Rightarrow> u64 \<Rightarrow> bool" where
  "entered targets start stop \<longleftrightarrow> (\<exists>hit \<in> targets. start < hit \<and> hit < stop)"

definition int3 :: "window_placer \<Rightarrow> nat \<Rightarrow> bool" where
  "int3 p index \<longleftrightarrow> wp_bytes p index = [OneByteInt3]"

definition padding :: "window_placer \<Rightarrow> nat \<Rightarrow> bool res" where
  "padding p index =
     bind_res (wp_info p index) (\<lambda>info. Inr (
       if di_IsTwoByteOpcode info then di_Opcode info = TwoByteNopModRm
       else if di_Opcode info \<noteq> OneByteNop then int3 p index
       else di_RexPrefix info AND RexBBit = 0 \<and> PrefixRep \<notin> set (take (di_OpcodeOffset info) (wp_bytes p index))))"

definition blocksFollowing :: "window_placer \<Rightarrow> nat \<Rightarrow> bool res" where
  "blocksFollowing p index =
     bind_res (wp_info p index) (\<lambda>info.
       Inr (di_FlowKind info \<noteq> Sequential \<and> di_FlowKind info \<noteq> ConditionalBranch))"

text \<open>The loop counts \<open>previous\<close> down to the first instruction.\<close>

fun mayBeEntered :: "window_placer \<Rightarrow> nat \<Rightarrow> bool res" where
  "mayBeEntered p 0 = Inr True"
| "mayBeEntered p (Suc index) =
     (if wp_end p index \<noteq> wp_address p (Suc index) then Inr True
      else bind_res (blocksFollowing p index) (\<lambda>blocks.
        if blocks then Inr True
        else bind_res (padding p index) (\<lambda>pad. if \<not> pad then Inr False else mayBeEntered p index)))"

text \<open>A loop over indices that stops at the first that satisfies a fallible condition.\<close>

fun any_res :: "('a \<Rightarrow> bool res) \<Rightarrow> 'a list \<Rightarrow> bool res" where
  "any_res f [] = Inr False"
| "any_res f (x # xs) = bind_res (f x) (\<lambda>hit. if hit then Inr True else any_res f xs)"

definition enteredWithin :: "window_placer \<Rightarrow> nat \<Rightarrow> nat \<Rightarrow> bool res" where
  "enteredWithin p first final =
     (if entered (wp_branchTargets p) (wp_address p first) (wp_end p final) then Inr True
      else any_res (\<lambda>index. if int3 p index then Inr False else mayBeEntered p index) [first + 1..<final + 1])"

definition movable :: "window_placer \<Rightarrow> nat \<Rightarrow> bool \<Rightarrow> bool \<Rightarrow> bool res" where
  "movable p index final avoidSegment =
     (if index \<in> wp_claimed p \<or> index \<in> wp_pending p then Inr False
      else bind_res (if final then Inr False else blocksFollowing p index) (\<lambda>blocks.
        if blocks then Inr False
        else if avoidSegment then bind_res (wp_info p index) (\<lambda>info. Inr (di_SegmentPrefix info = 0))
        else Inr True))"

definition site :: "window_placer \<Rightarrow> u64 \<Rightarrow> nat \<Rightarrow> lowered_body \<Rightarrow> trampoline_site" where
  "site p start n body =
     (let offset = start - ph_MappedAddress (wp_ph p)
      in \<lparr>ts_Offset = ph_Offset (wp_ph p) + offset, ts_Address = start, ts_Length = n,
          ts_OriginalBytes = subbytes (wp_seg p) (unat offset) n, ts_Body = lb_Bytes body,
          ts_ReturnBranchOffset = lb_ReturnBranchOffset body, ts_Relocations = lb_Relocations body\<rparr>)"

subsection \<open>Windows\<close>

definition relocate_step ::
    "window_placer \<Rightarrow> nat \<Rightarrow> bool \<Rightarrow> nat \<Rightarrow> stub_builder \<times> placement \<Rightarrow> (stub_builder \<times> placement) res" where
  "relocate_step p index allowInPlace k st =
     (case st of (b, placement) \<Rightarrow>
       bind_res
         (if k \<in> wp_pending p
          then bind_res (EmitOutOfLine (wp_target p) (wp_bytes p k) allowInPlace b) (\<lambda>b.
            Inr (b, if k \<noteq> index then placement\<lparr>pl_Consumed := pl_Consumed placement @ [k]\<rparr> else placement))
          else bind_res (wp_info p k) (\<lambda>info. bind_res (MoveControlFlow (wp_bytes p k) info b) (\<lambda>b. Inr (b, placement))))
         (\<lambda>(b, placement). Inr (b, placement\<lparr>pl_Claimed := pl_Claimed placement @ [k]\<rparr>)))"

definition relocate :: "window_placer \<Rightarrow> nat \<Rightarrow> nat \<Rightarrow> nat \<Rightarrow> bool \<Rightarrow> placement option res" where
  "relocate p index first final allowInPlace =
     bind_res (enteredWithin p first final) (\<lambda>inside.
       if inside then Inr None
       else bind_res
         (catch_codegen
           (bind_res (fold_res (relocate_step p index allowInPlace) [first..<final + 1] (empty_builder, empty_placement))
              (\<lambda>st. Inr (Some st)))
           (Inr None))
         (\<lambda>moved. case moved of
            None \<Rightarrow> Inr None
          | Some (b, placement) \<Rightarrow>
              let s = site p (wp_address p first) (unat (wp_end p final - wp_address p first)) (Finish b)
              in Inr (Some (placement\<lparr>pl_Sites := [s], pl_ReplacementLength := length (ts_Body s)\<rparr>))))"

text \<open>An attempt that may find no placement, and the attempts after it.\<close>

definition or_else :: "'a option res \<Rightarrow> 'a option res \<Rightarrow> 'a option res" where
  "or_else attempt rest = bind_res attempt (\<lambda>found. case found of None \<Rightarrow> rest | Some x \<Rightarrow> Inr (Some x))"

definition window_with :: "window_placer \<Rightarrow> nat \<Rightarrow> bool \<Rightarrow> placement option res" where
  "window_with p index avoidSegment =
     or_else
       (bind_res
          (if index + 1 < wp_count p
           then if index + 1 \<in> wp_pending p then Inr True else movable p (index + 1) True avoidSegment
           else Inr False)
          (\<lambda>next. if next then relocate p index index (index + 1) False else Inr None))
       (bind_res (if index > 0 then movable p (index - 1) False avoidSegment else Inr False)
          (\<lambda>previous. if previous then relocate p index (index - 1) index False else Inr None))"

definition window_fallback :: "window_placer \<Rightarrow> nat \<Rightarrow> placement option res" where
  "window_fallback p index =
     (if index + 1 < wp_count p \<and> index + 1 \<in> wp_pending p then relocate p index index (index + 1) True else Inr None)"

text \<open>The loop over \<open>{true, false}\<close>: a fallback found in the first round stands, else it is tried again.\<close>

definition Window :: "window_placer \<Rightarrow> nat \<Rightarrow> placement option res" where
  "Window p index =
     or_else (window_with p index True)
       (bind_res (window_fallback p index) (\<lambda>fallback.
         or_else (window_with p index False)
           (case fallback of None \<Rightarrow> window_fallback p index | Some placement \<Rightarrow> Inr (Some placement))))"

subsection \<open>Islands\<close>

definition move_all :: "window_placer \<Rightarrow> nat list \<Rightarrow> stub_builder \<Rightarrow> stub_builder res" where
  "move_all p =
     fold_res (\<lambda>k b. bind_res (wp_info p k) (\<lambda>info. MoveControlFlow (wp_bytes p k) info b))"

text \<open>The instruction becomes a short jump to the island, and the bytes behind the jump trap.\<close>

definition short_jump :: "bytes \<Rightarrow> nat \<Rightarrow> nat \<Rightarrow> int \<Rightarrow> bytes" where
  "short_jump seg offset n d =
     (blit seg offset (replicate n kTrapFill))[offset := OneByteJmpRel8, offset + 1 := word_of_int d]"

definition buildIsland :: "window_placer \<Rightarrow> nat \<Rightarrow> nat \<Rightarrow> nat \<Rightarrow> u64 \<Rightarrow> (placement \<times> bytes) res" where
  "buildIsland p index start final head =
     (let windowStart = wp_address p start; windowEnd = wp_end p final; island = windowStart + head;
          store = wp_address p index
      in bind_res (move_all p [start..<final + 1] empty_builder) (\<lambda>moved.
         bind_res (blocksFollowing p final) (\<lambda>blocks.
           let moved = if \<not> blocks then JumpTo (sint (windowEnd - windowStart)) moved else moved;
               headSite = site p windowStart (unat head) (Finish moved)
           in bind_res (EmitOutOfLine (wp_target p) (wp_bytes p index) False (Seek (distance store island) empty_builder)) (\<lambda>lowered.
             let lowered = JumpTo (distance (wp_end p index) island) lowered;
                 islandSite = site p island (length kJmpRel32) (Finish lowered);
                 m = wp_matches p ! index
             in Inr (\<lparr>pl_Sites = [headSite, islandSite], pl_Claimed = [start..<final + 1] @ [index], pl_Consumed = [],
                      pl_ReplacementLength = length (ts_Body islandSite)\<rparr>,
                     short_jump (wp_seg p) (unat (im_Offset m)) (im_Length m) (distance island (store + kShortJumpSize)))))))"

function islandFrom :: "window_placer \<Rightarrow> nat \<Rightarrow> nat \<Rightarrow> nat \<Rightarrow> u64 \<Rightarrow> (placement \<times> bytes) option res" where
  "islandFrom p index start final head =
     (if \<not> final < wp_count p then Inr None
      else bind_res (movable p final True False) (\<lambda>free.
        if \<not> free then Inr None
        else bind_res (enteredWithin p start final) (\<lambda>inside.
          if inside then Inr None
          else
            let head = if head = 0 \<and> wp_end p final - wp_address p start \<ge> of_nat (length kJmpRel32)
                       then wp_end p final - wp_address p start else head;
                island = wp_address p start + head;
                reach = distance island (wp_address p index + kShortJumpSize)
            in if head \<noteq> 0 \<and> (reach < - 128 \<or> reach > 127) then Inr None
               else if head \<noteq> 0 \<and> wp_end p final \<ge> island + of_nat (length kJmpRel32)
               then catch_codegen (bind_res (buildIsland p index start final head) (\<lambda>r. Inr (Some r))) (Inr None)
               else bind_res (blocksFollowing p final) (\<lambda>blocks.
                 if blocks then Inr None else islandFrom p index start (final + 1) head))))"
  by pat_completeness auto
termination by (relation "measure (\<lambda>(p, index, start, final, head). wp_count p - final)") auto

declare islandFrom.simps [simp del]

definition islandAt :: "window_placer \<Rightarrow> nat \<Rightarrow> nat \<Rightarrow> (placement \<times> bytes) option res" where
  "islandAt p index start = islandFrom p index start start 0"

text \<open>One side of the search at a distance: whether it is in reach, and the placement there.\<close>

definition island_side :: "window_placer \<Rightarrow> nat \<Rightarrow> nat \<Rightarrow> bool \<Rightarrow> bool" where
  "island_side p index d before \<longleftrightarrow>
     \<not> (if before then d > index else index + d \<ge> wp_count p) \<and>
     (let store = wp_address p index; start = if before then index - d else index + d
      in \<not> (wp_address p start + kIslandSearchBytes < store \<or> wp_address p start > store + kIslandSearchBytes))"

function island_search :: "window_placer \<Rightarrow> nat \<Rightarrow> nat \<Rightarrow> (placement \<times> bytes) option res" where
  "island_search p index d =
     (let before = island_side p index d True; after = island_side p index d False
      in or_else (if before then islandAt p index (index - d) else Inr None)
           (or_else (if after then islandAt p index (index + d) else Inr None)
              (if before \<or> after then island_search p index (d + 1) else Inr None)))"
  by pat_completeness auto
termination
  by (relation "measure (\<lambda>(p, index, d). wp_count p + index + 1 - d)")
    (auto simp: island_side_def split: if_splits)

declare island_search.simps [simp del]

definition Island :: "window_placer \<Rightarrow> nat \<Rightarrow> (placement \<times> bytes) option res" where
  "Island p index = island_search p index 1"

end
