(* ===== verification/X64_Converter.thy ===== *)
theory X64_Converter
  imports X64_Window
begin

text \<open>
  \<open>Amd64OnlyConverter\<close> (\<open>codegen/src/Amd64OnlyConverter.cpp\<close>): every instruction of the executable segments
  is matched, and a match is written in place, becomes a stub with a site that jumps to it, is kept, or is
  an error. The converter is modelled without its progress callback, which only reports; the scanner gets
  one, and what it reports is dropped. The sets of indices are sets of numbers and the jump tables are
  read entry by entry.
\<close>

subsection \<open>Data\<close>

record substitution_report =
  rp_InstructionName :: string
  rp_Offset :: u64
  rp_OriginalLength :: nat
  rp_ReplacementLength :: nat
  rp_Lowering :: amd64_lowering

record convert_result =
  cr_Bytes :: bytes
  cr_ReplacedCount :: nat
  cr_Trampolines :: "trampoline_site list"
  cr_Reports :: "substitution_report list"
  cr_KeptCount :: nat

record pending =
  pd_Index :: nat
  pd_Instruction :: instruction_match
  pd_Substitution :: amd64_match

abbreviation (input) kLoadSegment :: u32 where "kLoadSegment \<equiv> 1"
abbreviation (input) kExecutableSegment :: u32 where "kExecutableSegment \<equiv> 1"
abbreviation (input) kLea :: u8 where "kLea \<equiv> 0x8D"

definition empty_result :: convert_result where
  "empty_result = \<lparr>cr_Bytes = [], cr_ReplacedCount = 0, cr_Trampolines = [], cr_Reports = [], cr_KeptCount = 0\<rparr>"

text \<open>\<open>_atFileOffset\<close>\<close>

fun atFileOffset :: "u64 \<Rightarrow> 'a res \<Rightarrow> 'a res" where
  "atFileOffset base (Inl (CodegenException message offset)) = Inl (CodegenException message (base + offset))"
| "atFileOffset base r = r"

subsection \<open>Branch targets\<close>

definition startsInstruction :: "instruction_match list \<Rightarrow> program_header \<Rightarrow> u64 \<Rightarrow> bool" where
  "startsInstruction matches ph address =
     (let offset = address - ph_MappedAddress ph
      in case dropWhile (\<lambda>m. im_Offset m < offset) matches of [] \<Rightarrow> False | m # _ \<Rightarrow> im_Offset m = offset)"

definition pastPrefixes :: "bytes \<Rightarrow> instruction_match list \<Rightarrow> program_header \<Rightarrow> u64 \<Rightarrow> bool" where
  "pastPrefixes seg matches ph address =
     (let offset = address - ph_MappedAddress ph; upto = takeWhile (\<lambda>m. \<not> offset < im_Offset m) matches
      in if upto = [] then False
         else
           let m = last upto; inside = unat (offset - im_Offset m)
           in inside \<noteq> 0 \<and> inside < im_Length m \<and>
              inside > OpcodeOffset (subbytes seg (unat (im_Offset m)) (im_Length m)))"

text \<open>The entries of a jump table up to the first that is no address of an instruction.\<close>

fun jump_table :: "(u64 \<Rightarrow> bool) \<Rightarrow> bytes \<Rightarrow> u64 \<Rightarrow> nat \<Rightarrow> nat \<Rightarrow> u64 list" where
  "jump_table starts fileBytes table at 0 = []"
| "jump_table starts fileBytes table at (Suc n) =
     (let target = table + word_of_int (sint (le_word (subbytes fileBytes at 4) :: u32))
      in if starts target then target # jump_table starts fileBytes table (at + 4) n else [])"

definition table_targets ::
    "instruction_match list \<Rightarrow> program_header \<Rightarrow> bytes \<Rightarrow> u64 \<Rightarrow> program_header \<Rightarrow> u64 list res" where
  "table_targets matches ph fileBytes table data =
     (if ph_Type data \<noteq> kLoadSegment \<or> table < ph_MappedAddress data \<or> table - ph_MappedAddress data \<ge> ph_FileSize data
      then Inr []
      else if unat (ph_Offset data) > length fileBytes \<or> unat (ph_FileSize data) > length fileBytes - unat (ph_Offset data)
      then Inl (CodegenException ''Segment exceeds the file'' (ph_Offset data))
      else
        let skipped = unat (table - ph_MappedAddress data)
        in Inr (jump_table (startsInstruction matches ph) fileBytes table (unat (ph_Offset data) + skipped)
                  ((unat (ph_FileSize data) - skipped) div 4)))"

definition match_targets ::
    "bytes \<Rightarrow> instruction_match list \<Rightarrow> program_header \<Rightarrow> bytes \<Rightarrow> program_header list \<Rightarrow> instruction_match
     \<Rightarrow> u64 list res" where
  "match_targets seg matches ph fileBytes segments m =
     (let at = unat (im_Offset m)
      in bind_res (DecodeInstruction (subbytes seg at (im_Length m))) (\<lambda>info.
        let next = ph_MappedAddress ph + im_Offset m + of_nat (di_Length info)
        in if di_HasBranchTarget info \<and> \<not> di_HasRipRelativeDisp info
           then
             let target = next + word_of_int (di_BranchDisp info);
                 wrapped = if di_BranchDisp info < 0 then target > next else target < next
             in Inr (if \<not> wrapped \<and> \<not> pastPrefixes seg matches ph target then [target] else [])
           else if di_HasRipRelativeDisp info \<and> di_Opcode info = kLea
           then
             let displacement = sint (le_word (subbytes seg (at + di_RipRelativeDispOffset info) 4) :: u32);
                 table = next + word_of_int displacement
             in bind_res (map_res (table_targets matches ph fileBytes table) segments) (\<lambda>tables. Inr (concat tables))
           else Inr []))"

definition collectBranchTargets ::
    "bytes \<Rightarrow> instruction_match list \<Rightarrow> program_header \<Rightarrow> bytes \<Rightarrow> program_header list \<Rightarrow> u64 set res" where
  "collectBranchTargets seg matches ph fileBytes segments =
     bind_res (map_res (match_targets seg matches ph fileBytes segments) matches) (\<lambda>targets. Inr (set (concat targets)))"

subsection \<open>One segment\<close>

text \<open>What the loop over the pending instructions changes.\<close>

record convert_state =
  cs_seg :: bytes
  cs_result :: convert_result
  cs_claimed :: "nat set"
  cs_consumed :: "nat set"

text \<open>What it reads.\<close>

record convert_input =
  ci_matches :: "instruction_match list"
  ci_ph :: program_header
  ci_branchTargets :: "u64 set"
  ci_pending :: "nat set"
  ci_target :: amd64_target

definition placer_of :: "convert_input \<Rightarrow> convert_state \<Rightarrow> window_placer" where
  "placer_of ci st =
     \<lparr>wp_seg = cs_seg st, wp_matches = ci_matches ci, wp_ph = ci_ph ci, wp_branchTargets = ci_branchTargets ci,
      wp_pending = ci_pending ci, wp_claimed = cs_claimed st, wp_target = ci_target ci\<rparr>"

definition matched_bytes :: "bytes \<Rightarrow> instruction_match \<Rightarrow> bytes" where
  "matched_bytes seg m = subbytes seg (unat (im_Offset m)) (im_Length m)"

definition add_report :: "substitution_report \<Rightarrow> convert_result \<Rightarrow> convert_result" where
  "add_report r result = result\<lparr>cr_Reports := cr_Reports result @ [r]\<rparr>"

definition convert_in_place :: "convert_input \<Rightarrow> pending \<Rightarrow> convert_state \<Rightarrow> (nat \<times> convert_state) res" where
  "convert_in_place ci item st =
     (let m = pd_Instruction item; replacement = am_ReplacementBytes (pd_Substitution item)
      in if length replacement \<noteq> im_Length m
         then Inl (CodegenException ''Intel substitution changes the instruction length'' (ph_Offset (ci_ph ci) + im_Offset m))
         else Inr (length replacement,
                st\<lparr>cs_seg := blit (cs_seg st) (unat (im_Offset m)) replacement,
                   cs_result := (cs_result st)\<lparr>cr_ReplacedCount := cr_ReplacedCount (cs_result st) + 1\<rparr>\<rparr>))"

text \<open>An instruction that may move, in a window or, if there is none, with an island.\<close>

definition find_placement :: "window_placer \<Rightarrow> nat \<Rightarrow> (placement \<times> bytes) option res" where
  "find_placement p index =
     bind_res (Window p index) (\<lambda>found. case found of
       Some placement \<Rightarrow> Inr (Some (placement, wp_seg p))
     | None \<Rightarrow> Island p index)"

definition convert_placed :: "convert_input \<Rightarrow> pending \<Rightarrow> convert_state \<Rightarrow> (nat \<times> convert_state) res" where
  "convert_placed ci item st =
     bind_res (find_placement (placer_of ci st) (pd_Index item)) (\<lambda>found. case found of
       None \<Rightarrow> Inl (CodegenException
                 (''No room for a jump to the stub of '' @ am_InstructionName (pd_Substitution item) @
                  '' within its neighbours or a nearby island'')
                 (ph_Offset (ci_ph ci) + im_Offset (pd_Instruction item)))
     | Some (placement, seg) \<Rightarrow> Inr (pl_ReplacementLength placement,
         st\<lparr>cs_seg := seg,
            cs_result := (cs_result st)\<lparr>cr_Trampolines := cr_Trampolines (cs_result st) @ pl_Sites placement\<rparr>,
            cs_claimed := cs_claimed st \<union> set (pl_Claimed placement),
            cs_consumed := cs_consumed st \<union> set (pl_Consumed placement)\<rparr>))"

text \<open>The instructions that the jump overwrites: the sequence, the indices taken, the trailing bytes, the length.\<close>

record jump_room =
  jr_sequence :: "bytes list"
  jr_taken :: "nat list"
  jr_trailingBytes :: nat
  jr_siteLength :: nat

function gather_room :: "convert_input \<Rightarrow> pending \<Rightarrow> convert_state \<Rightarrow> nat \<Rightarrow> jump_room \<Rightarrow> jump_room res" where
  "gather_room ci item st next room =
     (let m = pd_Instruction item; ph = ci_ph ci; fileOffset = ph_Offset ph + im_Offset m; ms = ci_matches ci
      in if \<not> jr_siteLength room < length kJmpRel32 then Inr room
         else if next \<ge> length ms \<or> im_Offset (ms ! next) \<noteq> im_Offset m + of_nat (jr_siteLength room)
         then Inl (CodegenException ''AMD-only instruction too short for a jump and not followed by an instruction'' fileOffset)
         else if next \<in> cs_claimed st
         then Inl (CodegenException
                ''AMD-only instruction too short for a jump is followed by an instruction another stub already moved''
                (ph_Offset ph + im_Offset (ms ! next)))
         else
           let following = ms ! next; data = matched_bytes (cs_seg st) following
           in bind_res (DecodeInstruction data) (\<lambda>info. bind_res (Match (ci_target ci) data []) (\<lambda>found.
             let amdOnly = (found \<noteq> None)
             in bind_res
               (if amdOnly \<and> jr_trailingBytes room = 0
                then Inr (room\<lparr>jr_sequence := jr_sequence room @ [data], jr_taken := jr_taken room @ [next]\<rparr>)
                else if amdOnly \<or> di_FlowKind info \<noteq> Sequential \<or> di_HasBranchTarget info
                then Inl (CodegenException
                       ''AMD-only instruction too short for a jump is followed by an instruction that cannot move''
                       (ph_Offset ph + im_Offset following))
                else Inr (room\<lparr>jr_trailingBytes := jr_trailingBytes room + im_Length following\<rparr>))
               (\<lambda>room. gather_room ci item st (next + 1)
                  (room\<lparr>jr_siteLength := jr_siteLength room + im_Length following\<rparr>)))))"
  by pat_completeness auto
termination by (relation "measure (\<lambda>(ci, item, st, next, room). length (ci_matches ci) - next)") auto

declare gather_room.simps [simp del]

text \<open>The stub and the site of an instruction that the jump fits or that takes its followers along.\<close>

definition stub_site ::
    "convert_input \<Rightarrow> pending \<Rightarrow> convert_state \<Rightarrow> (amd64_match \<times> nat \<times> nat list) res" where
  "stub_site ci item st =
     (let m = pd_Instruction item; fileOffset = ph_Offset (ci_ph ci) + im_Offset m
      in if \<not> im_Length m < length kJmpRel32 then Inr (pd_Substitution item, im_Length m, [])
         else
           bind_res (gather_room ci item st (pd_Index item + 1)
               \<lparr>jr_sequence = [matched_bytes (cs_seg st) m], jr_taken = [], jr_trailingBytes = 0, jr_siteLength = im_Length m\<rparr>)
             (\<lambda>room.
               let trailing = subbytes (cs_seg st) (unat (im_Offset m) + jr_siteLength room - jr_trailingBytes room)
                                (jr_trailingBytes room)
               in bind_res (atFileOffset fileOffset (MatchSequence (ci_target ci) (jr_sequence room) trailing)) (\<lambda>relocated.
                    case relocated of
                      None \<Rightarrow> Inl (CodegenException ''AMD-only instruction sequence has no out-of-line lowering'' fileOffset)
                    | Some stub \<Rightarrow>
                        if am_Lowering stub \<noteq> Trampoline
                        then Inl (CodegenException ''AMD-only instruction sequence has no out-of-line lowering'' fileOffset)
                        else Inr (stub, jr_siteLength room, jr_taken room))))"

text \<open>The first branch target above the address.\<close>

definition first_above :: "u64 set \<Rightarrow> u64 \<Rightarrow> u64" where
  "first_above targets address = Min (Set.filter (\<lambda>target. address < target) targets)"

definition convert_stub :: "convert_input \<Rightarrow> pending \<Rightarrow> convert_state \<Rightarrow> (nat \<times> convert_state) res" where
  "convert_stub ci item st =
     (let m = pd_Instruction item; ph = ci_ph ci; address = ph_MappedAddress ph + im_Offset m; ms = ci_matches ci
      in bind_res (stub_site ci item st) (\<lambda>(stub, siteLength, taken).
           if entered (ci_branchTargets ci) address (address + of_nat siteLength)
           then Inl (CodegenException ''Branch enters an AMD-only instruction''
                  (ph_Offset ph + (first_above (ci_branchTargets ci) address - ph_MappedAddress ph)))
           else Inr (length (am_StubBody stub),
             st\<lparr>cs_result := (cs_result st)\<lparr>cr_Trampolines := cr_Trampolines (cs_result st) @
                  [\<lparr>ts_Offset = ph_Offset ph + im_Offset m, ts_Address = address, ts_Length = siteLength,
                    ts_OriginalBytes = subbytes (cs_seg st) (unat (im_Offset m)) siteLength, ts_Body = am_StubBody stub,
                    ts_ReturnBranchOffset = am_ReturnBranchOffset stub, ts_Relocations = am_Relocations stub\<rparr>]\<rparr>,
                cs_claimed := cs_claimed st \<union>
                  set (takeWhile (\<lambda>k. im_Offset (ms ! k) < im_Offset m + of_nat siteLength) [pd_Index item..<length ms]),
                cs_consumed := cs_consumed st \<union> set taken\<rparr>)))"

definition keep_or_throw :: "convert_input \<Rightarrow> pending \<Rightarrow> convert_state \<Rightarrow> exn \<Rightarrow> (nat \<times> convert_state) option res" where
  "keep_or_throw ci item st e =
     (case e of
        CodegenException _ _ \<Rightarrow> if am_Optional (pd_Substitution item) then Inr None else Inl e
      | _ \<Rightarrow> Inl e)"

text \<open>The switch over the lowering; \<open>None\<close> when an optional substitution is kept.\<close>

definition convert_lowered :: "convert_input \<Rightarrow> pending \<Rightarrow> convert_state \<Rightarrow> (nat \<times> convert_state) option res" where
  "convert_lowered ci item st =
     (let substitution = pd_Substitution item; m = pd_Instruction item; some = (\<lambda>r. bind_res r (\<lambda>x. Inr (Some x)))
      in case am_Lowering substitution of
           InPlace \<Rightarrow> some (convert_in_place ci item st)
         | Trampoline \<Rightarrow>
             if am_RelocatableWindow substitution \<and> im_Length m < length kJmpRel32
             then some (convert_placed ci item st)
             else (case convert_stub ci item st of
                     Inl e \<Rightarrow> keep_or_throw ci item st e
                   | Inr x \<Rightarrow> Inr (Some x))
         | _ \<Rightarrow> Inl (CodegenException (''AMD-only instruction without Intel lowering: '' @ am_InstructionName substitution)
                      (ph_Offset (ci_ph ci) + im_Offset m)))"

definition convert_item :: "convert_input \<Rightarrow> pending \<Rightarrow> convert_state \<Rightarrow> convert_state res" where
  "convert_item ci item st =
     (if pd_Index item \<in> cs_consumed st then Inr st
      else
        let m = pd_Instruction item; substitution = pd_Substitution item; fileOffset = ph_Offset (ci_ph ci) + im_Offset m
        in bind_res (convert_lowered ci item st) (\<lambda>converted. case converted of
             None \<Rightarrow> Inr (st\<lparr>cs_result := add_report
                 \<lparr>rp_InstructionName = am_InstructionName substitution, rp_Offset = fileOffset,
                  rp_OriginalLength = im_Length m, rp_ReplacementLength = 0, rp_Lowering = Kept\<rparr>
                 ((cs_result st)\<lparr>cr_KeptCount := cr_KeptCount (cs_result st) + 1\<rparr>)\<rparr>)
           | Some (replacementLength, st) \<Rightarrow> Inr (st\<lparr>cs_result := add_report
                 \<lparr>rp_InstructionName = am_InstructionName substitution, rp_Offset = fileOffset,
                  rp_OriginalLength = im_Length m, rp_ReplacementLength = replacementLength,
                  rp_Lowering = am_Lowering substitution\<rparr> (cs_result st)\<rparr>)))"

definition find_pending :: "amd64_target \<Rightarrow> program_header \<Rightarrow> bytes \<Rightarrow> instruction_match list \<Rightarrow> pending list res" where
  "find_pending target ph seg matches =
     bind_res
       (map_res (\<lambda>(index, m).
          bind_res (atFileOffset (ph_Offset ph + im_Offset m) (Match target (matched_bytes seg m) [])) (\<lambda>found. Inr (
            case found of None \<Rightarrow> []
            | Some substitution \<Rightarrow> [\<lparr>pd_Index = index, pd_Instruction = m, pd_Substitution = substitution\<rparr>])))
        (enumerate 0 matches))
       (\<lambda>found. Inr (concat found))"

definition convertSegment ::
    "amd64_target \<Rightarrow> program_header list \<Rightarrow> program_header \<Rightarrow> bytes \<times> convert_result \<Rightarrow> (bytes \<times> convert_result) res" where
  "convertSegment target segments ph r =
     (case r of (fileBytes, result) \<Rightarrow>
       let segOffset = unat (ph_Offset ph); segSize = unat (ph_FileSize ph)
       in if segOffset > length fileBytes \<or> segSize > length fileBytes - segOffset
          then Inl (CodegenException ''Code segment exceeds the file'' (ph_Offset ph))
          else
            let seg = subbytes fileBytes segOffset segSize
            in bind_res (atFileOffset (ph_Offset ph) (ScanCodeSection (MakeInstructionScanner True []) seg 0 (of_nat (length seg))))
              (\<lambda>matches. bind_res (find_pending target ph seg matches) (\<lambda>items.
                if items = [] then Inr (fileBytes, result)
                else bind_res
                  (if \<exists>item \<in> set items. am_Lowering (pd_Substitution item) = Trampoline
                   then collectBranchTargets seg matches ph fileBytes segments else Inr {})
                  (\<lambda>branchTargets.
                    let ci = \<lparr>ci_matches = matches, ci_ph = ph, ci_branchTargets = branchTargets,
                              ci_pending = set (map pd_Index items), ci_target = target\<rparr>
                    in bind_res (fold_res (convert_item ci) items
                           \<lparr>cs_seg = seg, cs_result = result, cs_claimed = {}, cs_consumed = {}\<rparr>) (\<lambda>st.
                         if length (cs_seg st) \<noteq> segSize
                         then Inl (CodegenException ''Code segment size changed during Intel conversion'' (ph_Offset ph))
                         else Inr (blit fileBytes segOffset (cs_seg st), cs_result st))))))"

subsection \<open>The file\<close>

definition executable :: "program_header \<Rightarrow> bool" where
  "executable ph \<longleftrightarrow> \<not> (ph_Type ph \<noteq> kLoadSegment \<or> ph_Flags ph AND kExecutableSegment = 0)"

text \<open>The sum of the sizes for the progress, whose overflow is an error.\<close>

definition add_total :: "program_header \<Rightarrow> u64 \<Rightarrow> u64 res" where
  "add_total ph sizes =
     (if \<not> executable ph then Inr sizes
      else if ph_FileSize ph > (u64_max - sizes) div 3
      then Inl (CodegenError ''Instruction conversion progress size overflow'')
      else Inr (sizes + 3 * ph_FileSize ph))"

definition Convert :: "amd64_target \<Rightarrow> bytes \<Rightarrow> program_header list \<Rightarrow> convert_result res" where
  "Convert target fileBytes segments =
     bind_res (fold_res add_total segments 0) (\<lambda>sizes.
     bind_res
       (fold_res (\<lambda>ph r. if executable ph then convertSegment target segments ph r else Inr r) segments
          (fileBytes, empty_result))
       (\<lambda>(fileBytes, result). Inr (result\<lparr>cr_Bytes := fileBytes\<rparr>)))"

end
