(* ===== verification/X64_Converter_Correct.thy ===== *)
theory X64_Converter_Correct
  imports X64_Converter
begin

text \<open>
  What a conversion leaves behind: bytes change only in executable segments, in place or at the store that
  reaches an island, and the sites of the stubs are sound. A site holds the bytes that it was made from,
  before and after the conversion, is long enough for its jump, overlaps no other site, and no branch
  of the segment leads inside it, unless it leads behind the prefixes of an instruction, which the converter
  tolerates. The lemmas follow the loop over the pending instructions: an instruction that is
  not processed yet has its original bytes, and if another stub has taken it, it is consumed.
\<close>

subsection \<open>Instructions in a segment\<close>

definition at_pos :: "instruction_match list \<Rightarrow> nat \<Rightarrow> nat" where
  "at_pos ms k = unat (im_Offset (ms ! k))"

definition at_end :: "instruction_match list \<Rightarrow> nat \<Rightarrow> nat" where
  "at_end ms k = at_pos ms k + im_Length (ms ! k)"

definition tiled :: "instruction_match list \<Rightarrow> nat \<Rightarrow> bool" where
  "tiled ms n \<longleftrightarrow> n < 2 ^ 64 \<and> (\<forall>k < length ms. 0 < im_Length (ms ! k) \<and> at_end ms k \<le> n) \<and>
     (\<forall>j k. j < k \<and> k < length ms \<longrightarrow> at_end ms j \<le> at_pos ms k)"

lemma tiled_scan:
  assumes "ScanCodeSection (MakeInstructionScanner progress ranges) seg 0 (of_nat (length seg)) = Inr ms" "length seg < 2 ^ 64"
  shows "tiled ms (length seg)"
proof -
  have n: "unat (of_nat (length seg) :: u64) = length seg" using assms(2) by (simp add: unat_of_nat_small)
  have sorted: "\<forall>m \<in> set ms. match_ok seg 0 (length seg) m" "sorted_wrt (\<lambda>a b. match_end 0 a \<le> match_pos 0 b) ms"
    using ScanCodeSection_Inr [OF assms(1)] assms(2)
      sweep_matches [of "length seg" seg 0 "is_unwindRanges (MakeInstructionScanner progress ranges)" 0
        "is_unwindRanges (MakeInstructionScanner progress ranges)"]
    by (simp_all add: n)
  have "0 < im_Length (ms ! k) \<and> at_end ms k \<le> length seg" if "k < length ms" for k
  proof -
    have "match_ok seg 0 (length seg) (ms ! k)" using sorted(1) that by simp
    then show ?thesis
      by (auto simp: match_ok_def match_end_def match_pos_def at_end_def at_pos_def dest: x64.decode_pos)
  qed
  moreover have "at_end ms j \<le> at_pos ms k" if "j < k" "k < length ms" for j k
    using sorted_wrt_nth_less [OF sorted(2) that] by (simp add: match_end_def match_pos_def at_end_def at_pos_def)
  ultimately show ?thesis using assms(2) by (simp add: tiled_def)
qed

lemma tiled_pos_end: "tiled ms n \<Longrightarrow> k < length ms \<Longrightarrow> at_pos ms k < at_end ms k"
  by (simp add: tiled_def at_end_def)

lemma tiled_order: "tiled ms n \<Longrightarrow> j < k \<Longrightarrow> k < length ms \<Longrightarrow> at_end ms j \<le> at_pos ms k"
  by (simp add: tiled_def)

lemma tiled_end: "tiled ms n \<Longrightarrow> k < length ms \<Longrightarrow> at_end ms k \<le> n"
  by (simp add: tiled_def)

lemma tiled_less: "tiled ms n \<Longrightarrow> k < length ms \<Longrightarrow> at_end ms k < 2 ^ 64"
  using tiled_end [of ms n k] unfolding tiled_def by (meson le_less_trans)

lemma tiled_mono:
  assumes "tiled ms n" "f \<le> l" "l < length ms"
  shows "at_pos ms f \<le> at_pos ms l" "at_end ms f \<le> at_end ms l" "at_pos ms f < at_end ms l"
  using assms tiled_order [OF assms(1), of f l] tiled_pos_end [OF assms(1), of f] tiled_pos_end [OF assms(1), of l]
  by (cases "f = l"; auto)+

lemma intervals_apart: "f \<le> l \<Longrightarrow> f' \<le> l' \<Longrightarrow> {f..l} \<inter> {f'..l'} = {} \<Longrightarrow> l < f' \<or> l' < (f :: nat)"
  by (metis Int_iff atLeastAtMost_iff empty_iff le_cases linorder_not_less)

lemma tiled_apart:
  assumes "tiled ms n" "f \<le> l" "l < length ms" "f' \<le> l'" "l' < length ms" "{f..l} \<inter> {f'..l'} = {}"
  shows "at_end ms l \<le> at_pos ms f' \<or> at_end ms l' \<le> at_pos ms f"
proof -
  consider "l < f'" | "l' < f" using intervals_apart [OF assms(2,4,6)] by blast
  then show ?thesis
  proof cases
    case 1
    then show ?thesis using tiled_order [OF assms(1), of l f'] assms(4,5) by simp
  next
    case 2
    then show ?thesis using tiled_order [OF assms(1), of l' f] assms(2,3) by simp
  qed
qed

text \<open>A segment that differs from another in the bytes of some instructions only.\<close>

definition agrees :: "bytes \<Rightarrow> instruction_match list \<Rightarrow> nat set \<Rightarrow> bytes \<Rightarrow> bool" where
  "agrees orig ms M seg \<longleftrightarrow> length seg = length orig \<and>
     (\<forall>x < length orig. (\<forall>k \<in> M. \<not> (at_pos ms k \<le> x \<and> x < at_end ms k)) \<longrightarrow> seg ! x = orig ! x)"

lemma agrees_subbytes:
  assumes "agrees orig ms M seg" "tiled ms (length orig)" "f \<le> l" "l < length ms" "{f..l} \<inter> M = {}" "M \<subseteq> {..<length ms}"
    and "at_pos ms f \<le> a" "a + n \<le> at_end ms l"
  shows "subbytes seg a n = subbytes orig a n"
proof (rule nth_equalityI)
  have len: "length seg = length orig" using assms(1) by (simp add: agrees_def)
  have stop: "a + n \<le> length orig" using assms(8) tiled_end [OF assms(2,4)] by simp
  show "length (subbytes seg a n) = length (subbytes orig a n)" using stop len by (simp add: layout_simps)
  fix i assume "i < length (subbytes seg a n)"
  then have i: "i < n" using stop len by (simp add: layout_simps)
  have "\<not> (at_pos ms k \<le> a + i \<and> a + i < at_end ms k)" if "k \<in> M" for k
  proof -
    have "{f..l} \<inter> {k..k} = {}" "k < length ms" using assms(5,6) that by auto
    then have "at_end ms l \<le> at_pos ms k \<or> at_end ms k \<le> at_pos ms f" by (intro tiled_apart [OF assms(2-4)]) auto
    then show ?thesis using assms(7,8) i by linarith
  qed
  then show "subbytes seg a n ! i = subbytes orig a n ! i"
    using assms(1) i stop len by (simp add: agrees_def layout_simps)
qed

lemma agrees_refl [simp]: "agrees orig ms {} orig"
  by (simp add: agrees_def)

lemma agrees_write:
  assumes "agrees orig ms M seg" "length seg' = length seg" "\<And>x. x < length seg \<Longrightarrow> \<not> (at_pos ms k \<le> x \<and> x < at_end ms k) \<Longrightarrow> seg' ! x = seg ! x"
  shows "agrees orig ms (insert k M) seg'"
  using assms by (auto simp: agrees_def)

subsection \<open>Windows\<close>

lemma enteredWithin_False: "enteredWithin p first final = Inr False \<Longrightarrow> \<not> entered (wp_branchTargets p) (wp_address p first) (wp_end p final)"
  by (auto simp: enteredWithin_def split: if_splits)

lemma movable_free: "movable p k final avoid = Inr True \<Longrightarrow> k \<notin> wp_claimed p \<and> k \<notin> wp_pending p"
  by (auto simp: movable_def split: if_splits)

lemma catch_codegen_Some: "catch_codegen r (Inr None) = Inr (Some x) \<longleftrightarrow> r = Inr (Some x)"
  by (cases r; cases "projl r") auto

lemma or_else_Some: "or_else attempt rest = Inr (Some x) \<Longrightarrow> attempt = Inr (Some x) \<or> rest = Inr (Some x)"
  by (auto simp: or_else_def res_simps split: option.splits)

lemma relocate_step_lists:
  assumes "relocate_step p index aip k (b, pl) = Inr (b', pl')"
  shows "pl_Claimed pl' = pl_Claimed pl @ [k] \<and>
    pl_Consumed pl' = pl_Consumed pl @ (if k \<in> wp_pending p \<and> k \<noteq> index then [k] else [])"
  using assms by (auto simp: relocate_step_def res_simps split: if_splits)

lemma relocate_steps_lists:
  "fold_res (relocate_step p index aip) ks (b, pl) = Inr (b', pl') \<Longrightarrow>
   pl_Claimed pl' = pl_Claimed pl @ ks \<and> pl_Consumed pl' = pl_Consumed pl @ filter (\<lambda>k. k \<in> wp_pending p \<and> k \<noteq> index) ks"
proof (induction ks arbitrary: b pl)
  case (Cons k ks)
  then obtain b1 pl1 where "relocate_step p index aip k (b, pl) = Inr (b1, pl1)"
      "fold_res (relocate_step p index aip) ks (b1, pl1) = Inr (b', pl')"
    by (auto simp: res_simps)
  then show ?case using Cons.IH relocate_step_lists by fastforce
qed simp

lemma relocate_placement:
  assumes "relocate p index first final aip = Inr (Some pl)"
  shows "pl_Claimed pl = [first..<final + 1]" "pl_Consumed pl = filter (\<lambda>k. k \<in> wp_pending p \<and> k \<noteq> index) [first..<final + 1]"
    and "\<exists>body. pl_Sites pl = [site p (wp_address p first) (unat (wp_end p final - wp_address p first)) body]"
    and "\<not> entered (wp_branchTargets p) (wp_address p first) (wp_end p final)"
proof -
  obtain b placement where e: "enteredWithin p first final = Inr False"
    and moved: "fold_res (relocate_step p index aip) [first..<final + 1] (empty_builder, empty_placement) = Inr (b, placement)"
    and pl: "pl_Claimed pl = pl_Claimed placement" "pl_Consumed pl = pl_Consumed placement"
      "pl_Sites pl = [site p (wp_address p first) (unat (wp_end p final - wp_address p first)) (Finish b)]"
    using assms unfolding relocate_def bind_res_Inr_iff
    by (auto simp: catch_codegen_Some bind_res_Inr_iff Let_def split: if_splits option.splits)
  show "pl_Claimed pl = [first..<final + 1]" "pl_Consumed pl = filter (\<lambda>k. k \<in> wp_pending p \<and> k \<noteq> index) [first..<final + 1]"
    using relocate_steps_lists [OF moved] pl by (simp_all add: empty_placement_def)
  show "\<exists>body. pl_Sites pl = [site p (wp_address p first) (unat (wp_end p final - wp_address p first)) body]"
    using pl(3) by blast
  show "\<not> entered (wp_branchTargets p) (wp_address p first) (wp_end p final)" by (rule enteredWithin_False [OF e])
qed

definition free_in :: "window_placer \<Rightarrow> nat \<Rightarrow> bool" where
  "free_in p k \<longleftrightarrow> k < wp_count p \<and> k \<notin> wp_claimed p \<and> k \<notin> wp_pending p"

lemma window_with_placement:
  assumes "window_with p index avoid = Inr (Some pl)" "index < wp_count p"
  shows "\<exists>first final aip. relocate p index first final aip = Inr (Some pl) \<and>
    (first = index \<and> final = index + 1 \<and> final < wp_count p \<and> (final \<in> wp_pending p \<or> free_in p final) \<or>
     first + 1 = index \<and> final = index \<and> free_in p first)"
  using or_else_Some [OF assms(1) [unfolded window_with_def]]
proof
  assume "bind_res (if index + 1 < wp_count p then if index + 1 \<in> wp_pending p then Inr True else movable p (index + 1) True avoid
      else Inr False) (\<lambda>next. if next then relocate p index index (index + 1) False else Inr None) = Inr (Some pl)"
  then show ?thesis
    by (auto simp: bind_res_Inr_iff free_in_def dest: movable_free split: if_splits)
next
  assume "bind_res (if index > 0 then movable p (index - 1) False avoid else Inr False)
    (\<lambda>previous. if previous then relocate p index (index - 1) index False else Inr None) = Inr (Some pl)"
  then show ?thesis
    using assms(2) by (intro exI [of _ "index - 1"] exI [of _ index] exI [of _ False])
      (auto simp: bind_res_Inr_iff free_in_def dest: movable_free split: if_splits)
qed

lemma Window_placement:
  assumes "Window p index = Inr (Some pl)" "index < wp_count p"
  shows "\<exists>first final aip. relocate p index first final aip = Inr (Some pl) \<and>
    (first = index \<and> final = index + 1 \<and> final < wp_count p \<and> (final \<in> wp_pending p \<or> free_in p final) \<or>
     first + 1 = index \<and> final = index \<and> free_in p first)"
proof -
  have fallback: ?thesis if "window_fallback p index = Inr (Some pl)"
    using that by (auto simp: window_fallback_def split: if_splits)
  show ?thesis
    using or_else_Some [OF assms(1) [unfolded Window_def]]
  proof
    assume "window_with p index True = Inr (Some pl)"
    then show ?thesis by (rule window_with_placement [OF _ assms(2)])
  next
    assume "bind_res (window_fallback p index) (\<lambda>fallback. or_else (window_with p index False)
      (case fallback of None \<Rightarrow> window_fallback p index | Some placement \<Rightarrow> Inr (Some placement))) = Inr (Some pl)"
    then obtain fallback where f: "window_fallback p index = Inr fallback"
        "or_else (window_with p index False) (case fallback of None \<Rightarrow> window_fallback p index | Some placement \<Rightarrow> Inr (Some placement))
          = Inr (Some pl)"
      by (auto simp: bind_res_Inr_iff)
    from or_else_Some [OF f(2)] show ?thesis
      using window_with_placement [OF _ assms(2)] fallback f(1) by (auto split: option.splits)
  qed
qed

subsection \<open>Islands\<close>

definition island_found :: "window_placer \<Rightarrow> nat \<Rightarrow> nat \<Rightarrow> nat \<Rightarrow> u64 \<Rightarrow> bool" where
  "island_found p index start final head \<longleftrightarrow> start \<le> final \<and> final < wp_count p \<and> (\<forall>k \<in> {start..final}. free_in p k) \<and>
     \<not> entered (wp_branchTargets p) (wp_address p start) (wp_end p final) \<and>
     (\<exists>h \<in> {start..final}. head = wp_end p h - wp_address p start) \<and> 5 \<le> head \<and>
     wp_address p start + head + 5 \<le> wp_end p final"

lemma islandFrom_found:
  assumes "islandFrom p index start final head = Inr (Some (pl, seg))" "start \<le> final" "\<forall>k \<in> {start..<final}. free_in p k"
    and "head = 0 \<or> (\<exists>h \<in> {start..final}. head = wp_end p h - wp_address p start) \<and> 5 \<le> head"
  shows "\<exists>final head. island_found p index start final head \<and> buildIsland p index start final head = Inr (pl, seg)"
  using assms
proof (induction p index start final head rule: islandFrom.induct)
  case (1 p index start final head)
  define head' where "head' = (if head = 0 \<and> wp_end p final - wp_address p start \<ge> of_nat (length kJmpRel32)
    then wp_end p final - wp_address p start else head)"
  note eq = 1(2) [unfolded islandFrom.simps [of p index start final head] Let_def, folded head'_def]
  have final: "final < wp_count p" using eq by (auto split: if_splits)
  have free: "movable p final True False = Inr True" and inside: "enteredWithin p start final = Inr False"
    using eq final by (auto simp: bind_res_Inr_iff split: if_splits)
  have "free_in p final" using movable_free [OF free] final by (simp add: free_in_def)
  then have all_free: "\<forall>k \<in> {start..final}. free_in p k" using 1(4) by (metis atLeastAtMost_iff atLeastLessThan_iff le_neq_implies_less)
  have head': "head' = 0 \<or> (\<exists>h \<in> {start..final}. head' = wp_end p h - wp_address p start) \<and> 5 \<le> head'"
    using 1(3,5) by (auto simp: head'_def)
  note eq' = eq [unfolded free inside bind_res.simps if_False if_True, simplified final not_True_eq_False if_False]
  have reach: "\<not> (head' \<noteq> 0 \<and> (distance (wp_address p start + head') (wp_address p index + kShortJumpSize) < - 128 \<or>
      distance (wp_address p start + head') (wp_address p index + kShortJumpSize) > 127))"
    using eq' by (auto split: if_splits)
  show ?case
  proof (cases "head' \<noteq> 0 \<and> wp_end p final \<ge> wp_address p start + head' + of_nat (length kJmpRel32)")
    case True
    then have "buildIsland p index start final head' = Inr (pl, seg)"
      using eq' final by (auto simp: catch_codegen_Some bind_res_Inr_iff split: if_splits)
    then show ?thesis
      using True head' all_free final 1(3) enteredWithin_False [OF inside] by (auto simp: island_found_def)
  next
    case False
    then have blocks: "blocksFollowing p final = Inr False" "islandFrom p index start (final + 1) head' = Inr (Some (pl, seg))"
      using eq' final by (auto simp: bind_res_Inr_iff split: if_splits)
    show ?thesis
      by (rule 1(1) [OF _ free _ inside _ head'_def refl refl reach False blocks(1)])
        (use final blocks head' all_free 1(3) in auto)
  qed
qed

lemma island_search_placement:
  "island_search p index d = Inr (Some (pl, seg)) \<Longrightarrow> \<exists>start. islandAt p index start = Inr (Some (pl, seg))"
proof (induction p index d rule: island_search.induct)
  case (1 p index d)
  from 1(2) show ?case
    apply (subst (asm) island_search.simps)
    using 1(1) by (auto simp: Let_def split: if_splits dest!: or_else_Some)
qed

lemma Island_placement:
  assumes "Island p index = Inr (Some (pl, seg))"
  shows "\<exists>start final head. island_found p index start final head \<and> buildIsland p index start final head = Inr (pl, seg)"
proof -
  obtain start where "islandFrom p index start start 0 = Inr (Some (pl, seg))"
    using island_search_placement assms unfolding Island_def islandAt_def by blast
  then show ?thesis by (intro exI [of _ start] islandFrom_found) auto
qed

lemma buildIsland_result:
  assumes "buildIsland p index start final head = Inr (pl, seg)"
  shows "pl_Claimed pl = [start..<final + 1] @ [index]" "pl_Consumed pl = []"
    and "\<exists>body body'. pl_Sites pl = [site p (wp_address p start) (unat head) body, site p (wp_address p start + head) 5 body']"
    and "\<exists>d. seg = short_jump (wp_seg p) (unat (im_Offset (wp_matches p ! index))) (im_Length (wp_matches p ! index)) d"
proof -
  obtain moved b where "pl_Claimed pl = [start..<final + 1] @ [index] \<and> pl_Consumed pl = [] \<and>
      pl_Sites pl = [site p (wp_address p start) (unat head) (Finish moved),
        site p (wp_address p start + head) (length kJmpRel32) (Finish b)] \<and>
      seg = short_jump (wp_seg p) (unat (im_Offset (wp_matches p ! index))) (im_Length (wp_matches p ! index))
        (distance (wp_address p start + head) (wp_address p index + kShortJumpSize))"
    using assms unfolding buildIsland_def Let_def bind_res_Inr_iff by fastforce
  then show "pl_Claimed pl = [start..<final + 1] @ [index]" "pl_Consumed pl = []"
    "\<exists>body body'. pl_Sites pl = [site p (wp_address p start) (unat head) body, site p (wp_address p start + head) 5 body']"
    "\<exists>d. seg = short_jump (wp_seg p) (unat (im_Offset (wp_matches p ! index))) (im_Length (wp_matches p ! index)) d"
    by (auto simp: eval_nat_numeral)
qed

lemma short_jump_agrees:
  assumes "2 \<le> n" "a + n \<le> length seg"
  shows "length (short_jump seg a n d) = length seg" "x < length seg \<Longrightarrow> \<not> (a \<le> x \<and> x < a + n) \<Longrightarrow> short_jump seg a n d ! x = seg ! x"
  using assms by (auto simp: short_jump_def nth_list_update layout_simps nth_blit)

subsection \<open>Sites\<close>

definition site_pos :: "program_header \<Rightarrow> trampoline_site \<Rightarrow> nat" where
  "site_pos ph s = unat (ts_Offset s - ph_Offset ph)"

definition apart_sites :: "program_header \<Rightarrow> trampoline_site \<Rightarrow> trampoline_site \<Rightarrow> bool" where
  "apart_sites ph s s' \<longleftrightarrow> site_pos ph s + ts_Length s \<le> site_pos ph s' \<or> site_pos ph s' + ts_Length s' \<le> site_pos ph s"

definition site_fits :: "program_header \<Rightarrow> u64 set \<Rightarrow> bytes \<Rightarrow> trampoline_site \<Rightarrow> bool" where
  "site_fits ph targets orig s \<longleftrightarrow>
     ts_Offset s = ph_Offset ph + of_nat (site_pos ph s) \<and> ts_Address s = ph_MappedAddress ph + of_nat (site_pos ph s) \<and>
     5 \<le> ts_Length s \<and> site_pos ph s + ts_Length s \<le> length orig \<and>
     ts_OriginalBytes s = subbytes orig (site_pos ph s) (ts_Length s) \<and>
     \<not> entered targets (ts_Address s) (ts_Address s + of_nat (ts_Length s))"

text \<open>A site within the bytes of the instructions from \<open>f\<close> to \<open>l\<close>.\<close>

definition good_site :: "convert_input \<Rightarrow> bytes \<Rightarrow> nat \<Rightarrow> nat \<Rightarrow> trampoline_site \<Rightarrow> bool" where
  "good_site ci orig f l s \<longleftrightarrow> f \<le> l \<and> l < length (ci_matches ci) \<and> site_fits (ci_ph ci) (ci_branchTargets ci) orig s \<and>
     at_pos (ci_matches ci) f \<le> site_pos (ci_ph ci) s \<and> site_pos (ci_ph ci) s + ts_Length s \<le> at_end (ci_matches ci) l"

definition in_space :: "convert_input \<Rightarrow> bytes \<Rightarrow> bool" where
  "in_space ci orig \<longleftrightarrow> tiled (ci_matches ci) (length orig) \<and> unat (ph_MappedAddress (ci_ph ci)) + length orig + 5 < 2 ^ 64"

lemma address_unat: "in_space ci orig \<Longrightarrow> a \<le> length orig + 5 \<Longrightarrow>
  unat (ph_MappedAddress (ci_ph ci) + of_nat a) = unat (ph_MappedAddress (ci_ph ci)) + a"
  by (rule unat_add_of_nat) (simp add: in_space_def)

lemma entered_mono: "entered T a b \<Longrightarrow> a' \<le> a \<Longrightarrow> b \<le> b' \<Longrightarrow> entered T a' b'"
  unfolding entered_def by (meson le_less_trans less_le_trans)

lemma placer_simps [simp]:
  "wp_seg (placer_of ci st) = cs_seg st" "wp_matches (placer_of ci st) = ci_matches ci" "wp_ph (placer_of ci st) = ci_ph ci"
  "wp_branchTargets (placer_of ci st) = ci_branchTargets ci" "wp_pending (placer_of ci st) = ci_pending ci"
  "wp_claimed (placer_of ci st) = cs_claimed st" "wp_target (placer_of ci st) = ci_target ci"
  "wp_count (placer_of ci st) = length (ci_matches ci)"
  "wp_address (placer_of ci st) k = ph_MappedAddress (ci_ph ci) + of_nat (at_pos (ci_matches ci) k)"
  "wp_end (placer_of ci st) k = ph_MappedAddress (ci_ph ci) + of_nat (at_end (ci_matches ci) k)"
  by (simp_all add: placer_of_def wp_count_def wp_address_def wp_end_def at_pos_def at_end_def)

lemma fits_site:
  assumes space: "in_space ci orig" and seg: "agrees orig (ci_matches ci) M (cs_seg st)" and M: "M \<subseteq> {..<length (ci_matches ci)}"
    and hull: "f \<le> l" "l < length (ci_matches ci)" "{f..l} \<inter> M = {}"
    and a: "at_pos (ci_matches ci) f \<le> a" "a + n \<le> at_end (ci_matches ci) l" "5 \<le> n"
    and inside: "\<not> entered (ci_branchTargets ci) (ph_MappedAddress (ci_ph ci) + of_nat (at_pos (ci_matches ci) f))
      (ph_MappedAddress (ci_ph ci) + of_nat (at_end (ci_matches ci) l))"
    and s: "ts_Offset s = ph_Offset (ci_ph ci) + of_nat a" "ts_Address s = ph_MappedAddress (ci_ph ci) + of_nat a" "ts_Length s = n"
      "ts_OriginalBytes s = subbytes (cs_seg st) a n"
  shows "good_site ci orig f l s" "site_pos (ci_ph ci) s = a"
proof -
  have tiled: "tiled (ci_matches ci) (length orig)" using space by (simp add: in_space_def)
  have stop: "a + n \<le> length orig" using a(2) tiled_end [OF tiled hull(2)] by simp
  then have "a < 2 ^ 64" using tiled a(3) by (simp add: tiled_def)
  then show pos: "site_pos (ci_ph ci) s = a" by (simp add: site_pos_def s(1) unat_of_nat_small)
  have "\<not> entered (ci_branchTargets ci) (ts_Address s) (ts_Address s + of_nat (ts_Length s))"
  proof
    assume ent: "entered (ci_branchTargets ci) (ts_Address s) (ts_Address s + of_nat (ts_Length s))"
    have "ts_Address s + of_nat (ts_Length s) = ph_MappedAddress (ci_ph ci) + of_nat (a + n)" by (simp add: s(2,3))
    then have "entered (ci_branchTargets ci) (ph_MappedAddress (ci_ph ci) + of_nat a) (ph_MappedAddress (ci_ph ci) + of_nat (a + n))"
      using ent s(2) by metis
    then have "entered (ci_branchTargets ci) (ph_MappedAddress (ci_ph ci) + of_nat (at_pos (ci_matches ci) f))
        (ph_MappedAddress (ci_ph ci) + of_nat (at_end (ci_matches ci) l))"
      by (rule entered_mono) (use a(1,2) stop tiled_end [OF tiled hull(2)] in
        \<open>simp_all add: word_le_nat_alt address_unat [OF space] del: of_nat_add\<close>)
    then show False using inside by blast
  qed
  then show "good_site ci orig f l s"
    using hull a s stop agrees_subbytes [OF seg tiled hull M a(1,2)]
    by (simp add: good_site_def site_fits_def pos)
qed

lemma good_sites_apart:
  assumes "in_space ci orig" "good_site ci orig f l s" "good_site ci orig f' l' s'" "{f..l} \<inter> {f'..l'} = {}"
  shows "apart_sites (ci_ph ci) s s'"
  using assms tiled_apart [of "ci_matches ci" "length orig" f l f' l'] unfolding good_site_def in_space_def apart_sites_def
  by (auto intro: order_trans)

subsection \<open>The loop's invariant\<close>

definition sited :: "convert_input \<Rightarrow> bytes \<Rightarrow> nat set \<Rightarrow> nat set \<Rightarrow> trampoline_site list \<Rightarrow> bool" where
  "sited ci orig C M sites \<longleftrightarrow>
     (\<forall>s \<in> set sites. \<exists>f l. {f..l} \<subseteq> C \<and> {f..l} \<inter> M = {} \<and> good_site ci orig f l s) \<and> sorted_wrt (apart_sites (ci_ph ci)) sites"

text \<open>
  Before the pending instruction \<open>i\<close>: the changed instructions \<open>M\<close> are pending ones before it, the sites are
  within the instructions that are claimed, and a pending instruction that is claimed is consumed, with every pending
  instruction before it.
\<close>

definition conv_inv :: "convert_input \<Rightarrow> bytes \<Rightarrow> trampoline_site list \<Rightarrow> nat \<Rightarrow> nat set \<Rightarrow> convert_state \<Rightarrow> bool" where
  "conv_inv ci orig old i M st \<longleftrightarrow>
     M \<subseteq> {k \<in> ci_pending ci. k < i} \<and> agrees orig (ci_matches ci) M (cs_seg st) \<and>
     cs_claimed st \<subseteq> {..<length (ci_matches ci)} \<and>
     (\<exists>new. cr_Trampolines (cs_result st) = old @ new \<and> sited ci orig (cs_claimed st) M new) \<and>
     (\<forall>k \<in> ci_pending ci. i \<le> k \<and> k \<in> cs_claimed st \<longrightarrow> (\<forall>k' \<in> ci_pending ci. i \<le> k' \<and> k' \<le> k \<longrightarrow> k' \<in> cs_consumed st))"

lemma conv_inv_later: "conv_inv ci orig old i M st \<Longrightarrow> i \<le> j \<Longrightarrow> conv_inv ci orig old j M st"
  unfolding conv_inv_def by (auto; meson le_trans less_le_trans)

lemma conv_inv_free:
  "conv_inv ci orig old i M st \<Longrightarrow> i \<in> ci_pending ci \<Longrightarrow> i \<notin> cs_consumed st \<Longrightarrow> k \<in> ci_pending ci \<Longrightarrow> i \<le> k \<Longrightarrow> k \<notin> cs_claimed st"
  unfolding conv_inv_def by blast

lemma sited_append:
  assumes space: "in_space ci orig" and old: "sited ci orig C M new" and placed: "sited ci orig C' M' sites"
    and apart: "C \<inter> C' = {}" and M: "M \<subseteq> M'" "M' - M \<subseteq> - C"
  shows "sited ci orig (C \<union> C') M' (new @ sites)"
proof -
  have "apart_sites (ci_ph ci) s s'" if "s \<in> set new" "s' \<in> set sites" for s s'
  proof -
    obtain f l f' l' where hulls: "{f..l} \<subseteq> C" "good_site ci orig f l s" "{f'..l'} \<subseteq> C'" "good_site ci orig f' l' s'"
      using old placed \<open>s \<in> set new\<close> \<open>s' \<in> set sites\<close> unfolding sited_def by meson
    have "{f..l} \<inter> {f'..l'} = {}" using hulls(1,3) apart by blast
    then show ?thesis by (rule good_sites_apart [OF space hulls(2,4)])
  qed
  moreover have "\<exists>f l. {f..l} \<subseteq> C \<union> C' \<and> {f..l} \<inter> M' = {} \<and> good_site ci orig f l s" if s: "s \<in> set new" for s
  proof -
    obtain f l where "{f..l} \<subseteq> C" "{f..l} \<inter> M = {}" "good_site ci orig f l s"
      using old s unfolding sited_def by meson
    then show ?thesis using M by (intro exI [of _ f] exI [of _ l]) blast
  qed
  moreover have "\<exists>f l. {f..l} \<subseteq> C \<union> C' \<and> {f..l} \<inter> M' = {} \<and> good_site ci orig f l s" if s: "s \<in> set sites" for s
    using placed s unfolding sited_def by (meson le_supI2)
  ultimately show ?thesis using old placed by (auto simp: sited_def sorted_wrt_append)
qed

lemma sited_single: "{f..l} \<subseteq> C \<Longrightarrow> {f..l} \<inter> M = {} \<Longrightarrow> good_site ci orig f l (hd sites) \<Longrightarrow> length sites = 1 \<Longrightarrow> sited ci orig C M sites"
  unfolding sited_def by (cases sites) auto

lemma conv_inv_place:
  assumes space: "in_space ci orig" and inv: "conv_inv ci orig old i M st"
    and i: "i \<in> ci_pending ci" "i \<notin> cs_consumed st"
    and seg: "agrees orig (ci_matches ci) M' (cs_seg st')" "M' = M \<or> M' = insert i M"
    and sites: "cr_Trampolines (cs_result st') = cr_Trampolines (cs_result st) @ sites" "sited ci orig C M' sites"
    and claimed: "cs_claimed st' = cs_claimed st \<union> C" "C \<subseteq> {..<length (ci_matches ci)}" "C \<inter> cs_claimed st = {}"
    and consumed: "\<And>k k'. k \<in> C \<inter> ci_pending ci \<Longrightarrow> k' \<in> ci_pending ci \<Longrightarrow> i < k' \<Longrightarrow> k' \<le> k \<Longrightarrow> k' \<in> cs_consumed st'"
  shows "conv_inv ci orig old (Suc i) M' st'"
proof -
  have unclaimed: "k \<notin> cs_claimed st" if "k \<in> ci_pending ci" "i \<le> k" for k
    by (rule conv_inv_free [OF inv i that])
  obtain new where new: "cr_Trampolines (cs_result st) = old @ new" "sited ci orig (cs_claimed st) M new"
    using inv unfolding conv_inv_def by blast
  have M: "M' \<subseteq> {k \<in> ci_pending ci. k < Suc i}" using inv seg(2) i(1) unfolding conv_inv_def by auto
  have "sited ci orig (cs_claimed st \<union> C) M' (new @ sites)"
    by (rule sited_append [OF space new(2) sites(2)]) (use claimed(3) seg(2) unclaimed [OF i(1)] in auto)
  moreover have "cs_claimed st \<subseteq> {..<length (ci_matches ci)}" using inv by (simp add: conv_inv_def)
  moreover have "k' \<in> cs_consumed st'"
    if "k \<in> ci_pending ci" "Suc i \<le> k" "k \<in> cs_claimed st'" "k' \<in> ci_pending ci" "Suc i \<le> k'" "k' \<le> k" for k k'
    using that consumed [of k k'] unclaimed [of k] claimed(1) by auto
  ultimately show ?thesis
    unfolding conv_inv_def using M seg(1) sites(1) new(1) claimed(1,2) by auto
qed

subsection \<open>The steps\<close>

definition item_ok :: "convert_input \<Rightarrow> bytes \<Rightarrow> pending \<Rightarrow> bool" where
  "item_ok ci orig item \<longleftrightarrow> pd_Index item < length (ci_matches ci) \<and> pd_Instruction item = ci_matches ci ! pd_Index item \<and>
     Match (ci_target ci) (matched_bytes orig (pd_Instruction item)) [] = Inr (Some (pd_Substitution item))"

text \<open>The pending instructions are those with a substitution.\<close>

definition pending_ok :: "convert_input \<Rightarrow> bytes \<Rightarrow> bool" where
  "pending_ok ci orig \<longleftrightarrow> ci_pending ci = {k. k < length (ci_matches ci) \<and>
     Match (ci_target ci) (matched_bytes orig (ci_matches ci ! k)) [] \<noteq> Inr None}"

text \<open>Only a wide store moves with a window, and it has at least four bytes.\<close>

lemma wide_store_length: "DecodeVexWideStore data = Inr (Some wide) \<Longrightarrow> 4 \<le> length data"
  by (auto simp: DecodeVexWideStore_def wide_store_vex_def Let_def split: if_splits option.splits prod.splits)

definition window_ok :: "bytes \<Rightarrow> amd64_match \<Rightarrow> bool" where
  "window_ok data m \<longleftrightarrow> (am_RelocatableWindow m \<longrightarrow> 4 \<le> length data)"

lemma window_ok_simps [simp]:
  "window_ok data (trampoline name n optional moves body) \<longleftrightarrow> (moves \<longrightarrow> 4 \<le> length data)"
  "window_ok data (unsupported name n)" "window_ok data (replaced name n bs)" "window_ok data (inPlace name n bs)"
  by (simp_all add: window_ok_def trampoline_def unsupported_def replaced_def inPlace_def)

lemma window_rosetta: "matchRosetta target data trailing = Inr (Some m) \<Longrightarrow> window_ok data m"
  unfolding matchRosetta_def
  by (auto simp: res_simps Let_def elim!: if_decoded_cases split: if_splits) (rule wide_store_length, assumption)

lemma window_movnts: "matchMovnts data name = Inr m \<Longrightarrow> window_ok data m"
  by (auto simp: matchMovnts_def Let_def split: if_splits)

lemma window_sse4a: "matchSse4a data name registerFormName trailing = Inr m \<Longrightarrow> window_ok data m"
  by (auto simp: matchSse4a_def res_simps split: if_splits option.splits)

lemma window_Match: "Match target data trailing = Inr (Some m) \<Longrightarrow> window_ok data m"
  unfolding Match_def
  by (auto simp: matchSha256_def matchSha1_def matchClzero_def matchRdpru_def matchMcommit_def res_simps map_sum_Inr_iff
      dest: window_movnts window_sse4a window_rosetta split: if_splits option.splits)

lemma window_length: "Match target data trailing = Inr (Some m) \<Longrightarrow> am_RelocatableWindow m \<Longrightarrow> 4 \<le> length data"
  using window_Match by (simp add: window_ok_def)

lemma match_bytes_length: "tiled ms (length orig) \<Longrightarrow> k < length ms \<Longrightarrow> length (matched_bytes orig (ms ! k)) = im_Length (ms ! k)"
  using tiled_end [of ms "length orig" k] by (simp add: matched_bytes_def at_end_def at_pos_def layout_simps)

lemma agrees_match_bytes:
  assumes "agrees orig ms M seg" "tiled ms (length orig)" "k < length ms" "k \<notin> M" "M \<subseteq> {..<length ms}"
  shows "matched_bytes seg (ms ! k) = matched_bytes orig (ms ! k)"
  using agrees_subbytes [OF assms(1,2), of k k "at_pos ms k" "im_Length (ms ! k)"] assms(3-5)
  by (simp add: matched_bytes_def at_pos_def at_end_def)

lemma inv_in_place:
  assumes space: "in_space ci orig" and inv: "conv_inv ci orig old i M st" and item: "item_ok ci orig item" "pd_Index item = i"
    and i: "i \<in> ci_pending ci" "i \<notin> cs_consumed st" and run: "convert_in_place ci item st = Inr (n, st')"
  shows "conv_inv ci orig old (Suc i) (insert i M) st'"
proof -
  let ?m = "ci_matches ci ! i"
  have seg: "agrees orig (ci_matches ci) M (cs_seg st)" using inv by (simp add: conv_inv_def)
  have tiled: "tiled (ci_matches ci) (length orig)" "i < length (ci_matches ci)" and m: "pd_Instruction item = ?m"
    using space item by (auto simp: in_space_def item_ok_def)
  have len: "length (am_ReplacementBytes (pd_Substitution item)) = im_Length ?m"
    and st': "st' = st\<lparr>cs_seg := blit (cs_seg st) (at_pos (ci_matches ci) i) (am_ReplacementBytes (pd_Substitution item)),
      cs_result := (cs_result st)\<lparr>cr_ReplacedCount := cr_ReplacedCount (cs_result st) + 1\<rparr>\<rparr>"
    using run by (auto simp: convert_in_place_def m Let_def at_pos_def split: if_splits)
  have stop: "at_pos (ci_matches ci) i + im_Length ?m \<le> length (cs_seg st)"
    using tiled_end [OF tiled] seg by (simp add: at_end_def agrees_def)
  have "agrees orig (ci_matches ci) (insert i M) (cs_seg st')"
    by (rule agrees_write [OF seg]) (use stop len in \<open>auto simp: st' layout_simps nth_blit at_end_def\<close>)
  then show ?thesis
    by (intro conv_inv_place [OF space inv i, where sites = "[]" and C = "{}"]) (auto simp: st' sited_def)
qed

lemma site_fields [simp]:
  "ts_Address (site p start n body) = start" "ts_Length (site p start n body) = n"
  "ts_Offset (site p start n body) = ph_Offset (wp_ph p) + (start - ph_MappedAddress (wp_ph p))"
  "ts_OriginalBytes (site p start n body) = subbytes (wp_seg p) (unat (start - ph_MappedAddress (wp_ph p))) n"
  by (simp_all add: site_def Let_def)

lemma placer_site:
  assumes space: "in_space ci orig" and seg: "agrees orig (ci_matches ci) M (cs_seg st)" and M: "M \<subseteq> {..<length (ci_matches ci)}"
    and hull: "f \<le> l" "l < length (ci_matches ci)" "{f..l} \<inter> M = {}"
    and a: "at_pos (ci_matches ci) f \<le> a" "a + n \<le> at_end (ci_matches ci) l" "5 \<le> n"
    and inside: "\<not> entered (ci_branchTargets ci) (ph_MappedAddress (ci_ph ci) + of_nat (at_pos (ci_matches ci) f))
      (ph_MappedAddress (ci_ph ci) + of_nat (at_end (ci_matches ci) l))"
  shows "good_site ci orig f l (site (placer_of ci st) (ph_MappedAddress (ci_ph ci) + of_nat a) n body)"
    "site_pos (ci_ph ci) (site (placer_of ci st) (ph_MappedAddress (ci_ph ci) + of_nat a) n body) = a"
proof -
  have "at_end (ci_matches ci) l < 2 ^ 64"
    using tiled_less [OF _ hull(2)] space unfolding in_space_def by blast
  then have "a < 2 ^ 64" using a(2) by (simp add: le_less_trans)
  then have "unat (of_nat a :: u64) = a" by (simp add: unat_of_nat_small)
  then show "good_site ci orig f l (site (placer_of ci st) (ph_MappedAddress (ci_ph ci) + of_nat a) n body)"
    "site_pos (ci_ph ci) (site (placer_of ci st) (ph_MappedAddress (ci_ph ci) + of_nat a) n body) = a"
    by (auto intro: fits_site [OF space seg M hull a inside])
qed

lemma hull_length:
  assumes "tiled ms n" "first < final" "final < length ms" "i = first \<or> i = final" "4 \<le> im_Length (ms ! i)"
  shows "5 \<le> at_end ms final - at_pos ms first"
  using assms tiled_order [OF assms(1,2,3)] tiled_pos_end [OF assms(1), of first] tiled_pos_end [OF assms(1), of final]
  by (auto simp: at_end_def)

lemma inv_window:
  assumes space: "in_space ci orig" and inv: "conv_inv ci orig old i M st" and length_i: "i < length (ci_matches ci)"
    and i: "i \<in> ci_pending ci" "i \<notin> cs_consumed st" and long: "4 \<le> im_Length (ci_matches ci ! i)"
    and run: "Window (placer_of ci st) i = Inr (Some pl)"
    and st': "cs_seg st' = cs_seg st" "cr_Trampolines (cs_result st') = cr_Trampolines (cs_result st) @ pl_Sites pl"
      "cs_claimed st' = cs_claimed st \<union> set (pl_Claimed pl)" "cs_consumed st' = cs_consumed st \<union> set (pl_Consumed pl)"
  shows "conv_inv ci orig old (Suc i) M st'"
proof -
  let ?ms = "ci_matches ci" and ?p = "placer_of ci st"
  have tiled: "tiled ?ms (length orig)" using space by (simp add: in_space_def)
  have seg: "agrees orig ?ms M (cs_seg st)" and M: "M \<subseteq> {k \<in> ci_pending ci. k < i}"
    using inv by (simp_all add: conv_inv_def)
  obtain first final aip where r: "relocate ?p i first final aip = Inr (Some pl)"
    and where': "first = i \<and> final = i + 1 \<and> final < length ?ms \<and> (final \<in> ci_pending ci \<or> free_in ?p final) \<or>
      first + 1 = i \<and> final = i \<and> free_in ?p first"
    using Window_placement [OF run] length_i by auto
  note placed = relocate_placement [OF r]
  have range: "first < final" "final < length ?ms" "i = first \<or> i = final" using where' length_i by auto
  have unclaimed: "k \<notin> cs_claimed st" if "k \<in> ci_pending ci" "i \<le> k" for k by (rule conv_inv_free [OF inv i that])
  have "k \<notin> M" if "k \<in> {first..final}" for k
    using that where' M by (cases "k = first") (auto simp: free_in_def)
  then have hull: "{first..final} \<inter> M = {}" by blast
  obtain body where sites: "pl_Sites pl = [site ?p (ph_MappedAddress (ci_ph ci) + of_nat (at_pos ?ms first))
      (unat (of_nat (at_end ?ms final) - of_nat (at_pos ?ms first) :: u64)) body]"
    using placed(3) by auto
  have le: "at_pos ?ms first \<le> at_end ?ms final" "at_end ?ms final < 2 ^ 64"
    using tiled_mono(3) [OF tiled, of first final] range tiled_less [OF tiled range(2)] by simp_all
  have "of_nat (at_end ?ms final) - of_nat (at_pos ?ms first) = (of_nat (at_end ?ms final - at_pos ?ms first) :: u64)"
    using le(1) by (simp add: of_nat_diff)
  then have n: "unat (of_nat (at_end ?ms final) - of_nat (at_pos ?ms first) :: u64) = at_end ?ms final - at_pos ?ms first"
    using le(2) by (simp add: unat_of_nat_small)
  have "M \<subseteq> {..<length ?ms}" using M length_i by auto
  then have "good_site ci orig first final (hd (pl_Sites pl))"
    unfolding sites n list.sel
    by (intro placer_site(1) [OF space seg _ _ range(2) hull order_refl]) (use range le hull_length [OF tiled range long] placed(4) in auto)
  then have "sited ci orig {first..final} M (pl_Sites pl)"
    using hull by (intro sited_single) (simp_all add: sites)
  moreover have C: "set (pl_Claimed pl) = {first..final}" by (auto simp: placed(1))
  moreover have "k = first \<or> k = final" if "k \<in> {first..final}" for k using that where' by auto
  then have "{first..final} \<subseteq> {..<length ?ms}" "{first..final} \<inter> cs_claimed st = {}"
    using range where' unclaimed [of first] unclaimed [of final] i(1) by (fastforce simp: free_in_def)+
  moreover have "k' \<in> cs_consumed st'" if "k \<in> {first..final} \<inter> ci_pending ci" "k' \<in> ci_pending ci" "i < k'" "k' \<le> k" for k k'
  proof -
    have k': "k' = final" using that where' by auto
    show ?thesis using that(2,3) range(1) unfolding k' st'(4) placed(2) by simp
  qed
  moreover have "agrees orig ?ms M (cs_seg st')" using seg st'(1) by simp
  ultimately show ?thesis
    by (intro conv_inv_place [OF space inv i _ _ st'(2), where C = "{first..final}"]) (simp_all add: st'(3))
qed

lemma inv_island:
  assumes space: "in_space ci orig" and inv: "conv_inv ci orig old i M st" and length_i: "i < length (ci_matches ci)"
    and i: "i \<in> ci_pending ci" "i \<notin> cs_consumed st" and long: "4 \<le> im_Length (ci_matches ci ! i)"
    and run: "Island (placer_of ci st) i = Inr (Some (pl, seg'))"
    and st': "cs_seg st' = seg'" "cr_Trampolines (cs_result st') = cr_Trampolines (cs_result st) @ pl_Sites pl"
      "cs_claimed st' = cs_claimed st \<union> set (pl_Claimed pl)" "cs_consumed st' = cs_consumed st \<union> set (pl_Consumed pl)"
  shows "conv_inv ci orig old (Suc i) (insert i M) st'"
proof -
  let ?ms = "ci_matches ci" and ?p = "placer_of ci st" and ?base = "ph_MappedAddress (ci_ph ci)"
  have tiled: "tiled ?ms (length orig)" using space by (simp add: in_space_def)
  have seg: "agrees orig ?ms M (cs_seg st)" and M: "M \<subseteq> {k \<in> ci_pending ci. k < i}"
    using inv by (simp_all add: conv_inv_def)
  have Ms: "M \<subseteq> {..<length ?ms}" using M length_i by auto
  obtain start final head where found: "island_found ?p i start final head" and r: "buildIsland ?p i start final head = Inr (pl, seg')"
    using Island_placement [OF run] by blast
  then have range: "start \<le> final" "final < length ?ms" and free: "\<And>k. k \<in> {start..final} \<Longrightarrow> free_in ?p k"
    and inside: "\<not> entered (ci_branchTargets ci) (?base + of_nat (at_pos ?ms start)) (?base + of_nat (at_end ?ms final))"
    by (auto simp: island_found_def)
  obtain h where h: "h \<in> {start..final}" "head = ?base + of_nat (at_end ?ms h) - (?base + of_nat (at_pos ?ms start))"
    and head: "5 \<le> head" "?base + of_nat (at_pos ?ms start) + head + 5 \<le> ?base + of_nat (at_end ?ms final)"
    using found by (auto simp: island_found_def)
  define a where "a = at_pos ?ms start"
  define n where "n = at_end ?ms h - a"
  have order: "a < at_end ?ms h" "at_end ?ms h \<le> at_end ?ms final" "at_end ?ms final \<le> length orig"
    using tiled_mono(3) [OF tiled, of start h] tiled_mono(2) [OF tiled, of h final] tiled_end [OF tiled range(2)] h(1) range
    by (auto simp: a_def)
  have head_n: "head = of_nat n" using h(2) order(1) by (simp add: n_def a_def of_nat_diff)
  have "n < 2 ^ 64" using order tiled_less [OF tiled range(2)] by (simp add: n_def)
  then have unat_head: "unat head = n" by (simp add: head_n unat_of_nat_small)
  have n5: "5 \<le> n" using head(1) by (simp add: word_le_nat_alt unat_head)
  have "?base + of_nat (a + n + 5) \<le> ?base + of_nat (at_end ?ms final)"
    using head(2) by (simp add: head_n a_def add.assoc)
  then have room: "a + n + 5 \<le> at_end ?ms final"
    using order by (simp add: word_le_nat_alt address_unat [OF space] n_def del: of_nat_add)
  have hull: "{start..final} \<inter> insert i M = {}" using free M i(1) by (auto simp: free_in_def)
  then have hullM: "{start..final} \<inter> M = {}" by blast
  note built = buildIsland_result [OF r]
  obtain body body' where sites: "pl_Sites pl = [site ?p (?base + of_nat a) n body, site ?p (?base + of_nat (a + n)) 5 body']"
    using built(3) unat_head [unfolded head_n] by (auto simp: a_def head_n add.assoc)
  have s1: "good_site ci orig start final (site ?p (?base + of_nat a) n body)" "site_pos (ci_ph ci) (site ?p (?base + of_nat a) n body) = a"
    by (rule placer_site [OF space seg Ms range hullM _ _ n5 inside]; use room in \<open>simp add: a_def\<close>)+
  have s2: "good_site ci orig start final (site ?p (?base + of_nat (a + n)) 5 body')"
      "site_pos (ci_ph ci) (site ?p (?base + of_nat (a + n)) 5 body') = a + n"
    by (rule placer_site [OF space seg Ms range hullM _ _ order_refl inside]; use room in \<open>simp add: a_def\<close>)+
  have "\<exists>f l. {f..l} \<subseteq> {start..final} \<union> {i} \<and> {f..l} \<inter> insert i M = {} \<and> good_site ci orig f l s" if "s \<in> set (pl_Sites pl)" for s
    using that hull s1(1) s2(1) by (intro exI [of _ start] exI [of _ final]) (auto simp: sites)
  then have "sited ci orig ({start..final} \<union> {i}) (insert i M) (pl_Sites pl)"
    unfolding sited_def using s1(2) s2(2) by (simp add: sites apart_sites_def)
  moreover have "set (pl_Claimed pl) = {start..final} \<union> {i}" using built(1) by auto
  moreover have "({start..final} \<union> {i}) \<inter> cs_claimed st = {}" "{start..final} \<union> {i} \<subseteq> {..<length ?ms}"
    using free range length_i conv_inv_free [OF inv i i(1)] by (fastforce simp: free_in_def)+
  moreover have "agrees orig ?ms (insert i M) (cs_seg st')"
  proof -
    have stop: "at_pos ?ms i + im_Length (?ms ! i) \<le> length (cs_seg st)"
      using tiled_end [OF tiled length_i] seg by (simp add: at_end_def agrees_def)
    obtain d where d: "seg' = short_jump (cs_seg st) (at_pos ?ms i) (im_Length (?ms ! i)) d"
      using built(4) by (auto simp: at_pos_def)
    show ?thesis
      unfolding st'(1) d by (rule agrees_write [OF seg]) (use long stop in \<open>auto simp: short_jump_agrees at_end_def\<close>)
  qed
  moreover have "k' \<in> cs_consumed st'" if "k \<in> ({start..final} \<union> {i}) \<inter> ci_pending ci" "i < k'" "k' \<le> k" for k k'
    using that free by (auto simp: free_in_def)
  ultimately show ?thesis
    by (intro conv_inv_place [OF space inv i _ _ st'(2), where C = "{start..final} \<union> {i}"]) (simp_all add: st'(3))
qed

lemma inv_placed:
  assumes space: "in_space ci orig" and inv: "conv_inv ci orig old i M st" and item: "item_ok ci orig item" "pd_Index item = i"
    and i: "i \<in> ci_pending ci" "i \<notin> cs_consumed st" and window: "am_RelocatableWindow (pd_Substitution item)"
    and run: "convert_placed ci item st = Inr (n, st')"
  shows "\<exists>M'. conv_inv ci orig old (Suc i) M' st'"
proof -
  have length_i: "i < length (ci_matches ci)" using item by (simp add: item_ok_def)
  have "4 \<le> length (matched_bytes orig (ci_matches ci ! i))" using window_length [OF _ window] item by (auto simp: item_ok_def)
  then have long: "4 \<le> im_Length (ci_matches ci ! i)"
    using match_bytes_length [OF _ length_i, of orig] space by (simp add: in_space_def)
  obtain pl seg' where found: "find_placement (placer_of ci st) i = Inr (Some (pl, seg'))"
    and st': "st' = st\<lparr>cs_seg := seg', cs_result := (cs_result st)\<lparr>cr_Trampolines := cr_Trampolines (cs_result st) @ pl_Sites pl\<rparr>,
      cs_claimed := cs_claimed st \<union> set (pl_Claimed pl), cs_consumed := cs_consumed st \<union> set (pl_Consumed pl)\<rparr>"
    using run by (auto simp: convert_placed_def item(2) bind_res_Inr_iff split: option.splits)
  from found consider "Window (placer_of ci st) i = Inr (Some pl)" "seg' = cs_seg st" | "Island (placer_of ci st) i = Inr (Some (pl, seg'))"
    by (auto simp: find_placement_def bind_res_Inr_iff split: option.splits)
  then show ?thesis
  proof cases
    case 1
    show ?thesis by (rule exI, rule inv_window [OF space inv length_i i long 1(1)]) (simp_all add: st' 1(2))
  next
    case 2
    show ?thesis by (rule exI, rule inv_island [OF space inv length_i i long 2]) (simp_all add: st')
  qed
qed

text \<open>The room for a jump: whole instructions that follow without a gap, none of them claimed.\<close>

definition room_ok :: "convert_input \<Rightarrow> nat \<Rightarrow> convert_state \<Rightarrow> nat \<Rightarrow> nat \<Rightarrow> nat list \<Rightarrow> bool" where
  "room_ok ci i st final n taken \<longleftrightarrow> i \<le> final \<and> final < length (ci_matches ci) \<and>
     at_pos (ci_matches ci) i + n = at_end (ci_matches ci) final \<and>
     (\<forall>k. i < k \<and> k \<le> final \<longrightarrow> k \<notin> cs_claimed st \<and>
        (k \<in> set taken \<or> Match (ci_target ci) (matched_bytes (cs_seg st) (ci_matches ci ! k)) [] = Inr None))"

lemma gather_room_ok:
  assumes "gather_room ci item st next room = Inr room'"
    and "tiled (ci_matches ci) n" "pd_Instruction item = ci_matches ci ! i" "i < next"
    and "room_ok ci i st (next - 1) (jr_siteLength room) (jr_taken room)"
  shows "\<exists>final. room_ok ci i st final (jr_siteLength room') (jr_taken room') \<and> 5 \<le> jr_siteLength room'"
  using assms
proof (induction ci item st "next" room rule: gather_room.induct)
  case (1 ci item st next' room)
  let ?ms = "ci_matches ci" and ?m = "ci_matches ci ! i" and ?data = "matched_bytes (cs_seg st) (ci_matches ci ! next')"
  note eq = 1(2) [unfolded gather_room.simps [of ci item st next' room] Let_def]
  show ?case
  proof (cases "jr_siteLength room < length kJmpRel32")
    case False
    then have "room' = room" "5 \<le> jr_siteLength room" using eq by (simp_all add: eval_nat_numeral)
    then show ?thesis using 1(6) by blast
  next
    case True
    then have bound: "next' < length ?ms" and off: "im_Offset (?ms ! next') = im_Offset ?m + of_nat (jr_siteLength room)"
      and unclaimed: "next' \<notin> cs_claimed st"
      using eq 1(4) by (auto split: if_splits)
    obtain info found room1 where info: "DecodeInstruction ?data = Inr info" and found: "Match (ci_target ci) ?data [] = Inr found"
      and room1: "(if found \<noteq> None \<and> jr_trailingBytes room = 0
            then Inr (room\<lparr>jr_sequence := jr_sequence room @ [?data], jr_taken := jr_taken room @ [next']\<rparr>)
            else if found \<noteq> None \<or> di_FlowKind info \<noteq> Sequential \<or> di_HasBranchTarget info
            then Inl (CodegenException ''AMD-only instruction too short for a jump is followed by an instruction that cannot move''
                        (ph_Offset (ci_ph ci) + im_Offset (?ms ! next')))
            else Inr (room\<lparr>jr_trailingBytes := jr_trailingBytes room + im_Length (?ms ! next')\<rparr>)) = Inr room1"
      and rest: "gather_room ci item st (next' + 1) (room1\<lparr>jr_siteLength := jr_siteLength room1 + im_Length (?ms ! next')\<rparr>) = Inr room'"
      using eq True bound off unclaimed 1(4) by (auto simp: bind_res_Inr_iff)
    have len1: "jr_siteLength room1 = jr_siteLength room" and taken1: "set (jr_taken room) \<subseteq> set (jr_taken room1)"
      and taken_next: "next' \<in> set (jr_taken room1) \<or> found = None"
      using room1 by (auto split: if_splits)
    have prev: "next' - 1 < length ?ms" "at_pos ?ms i + jr_siteLength room = at_end ?ms (next' - 1)" "i \<le> next' - 1"
      using 1(6) by (simp_all add: room_ok_def)
    then have "unat (of_nat (jr_siteLength room) :: u64) = jr_siteLength room" "at_pos ?ms i + jr_siteLength room < 2 ^ 64"
      using tiled_less [OF 1(3) prev(1)] by (simp_all add: unat_of_nat_small)
    then have pos: "at_pos ?ms next' = at_pos ?ms i + jr_siteLength room"
      by (simp add: at_pos_def off unat_add_of_nat)
    have ok: "room_ok ci i st (next' + 1 - 1) (jr_siteLength (room1\<lparr>jr_siteLength := jr_siteLength room1 + im_Length (?ms ! next')\<rparr>))
        (jr_taken (room1\<lparr>jr_siteLength := jr_siteLength room1 + im_Length (?ms ! next')\<rparr>))"
      unfolding room_ok_def
    proof (intro conjI allI impI)
      fix k assume k: "i < k \<and> k \<le> next' + 1 - 1"
      show "k \<notin> cs_claimed st" using k unclaimed 1(6) by (cases "k = next'") (auto simp: room_ok_def)
      show "k \<in> set (jr_taken (room1\<lparr>jr_siteLength := jr_siteLength room1 + im_Length (?ms ! next')\<rparr>)) \<or>
          Match (ci_target ci) (matched_bytes (cs_seg st) (?ms ! k)) [] = Inr None"
      proof (cases "k = next'")
        case True
        then show ?thesis using taken_next found by auto
      next
        case False
        then have "i < k \<and> k \<le> next' - 1" using k by arith
        then show ?thesis using 1(6) taken1 unfolding room_ok_def by auto
      qed
    qed (use bound prev(3) 1(5) pos len1 in \<open>simp_all add: at_end_def\<close>)
    show ?thesis
      by (rule 1(1) [OF refl refl refl refl _ _ _ refl refl info found refl room1 rest 1(3,4) _ ok])
        (use True bound off unclaimed 1(4,5) in auto)
  qed
qed

lemma stub_site_room:
  assumes space: "in_space ci orig" and inv: "conv_inv ci orig old i M st" and item: "item_ok ci orig item" "pd_Index item = i"
    and run: "stub_site ci item st = Inr (stub, n, taken)"
  shows "\<exists>final. room_ok ci i st final n taken \<and> 5 \<le> n"
proof -
  have tiled: "tiled (ci_matches ci) (length orig)" using space by (simp add: in_space_def)
  have i: "i < length (ci_matches ci)" "pd_Instruction item = ci_matches ci ! i" using item by (auto simp: item_ok_def)
  have start: "room_ok ci i st i (im_Length (ci_matches ci ! i)) ts" for ts
    using i(1) by (auto simp: room_ok_def at_end_def)
  show ?thesis
  proof (cases "im_Length (ci_matches ci ! i) < length kJmpRel32")
    case False
    then show ?thesis using run start [of "[]"] by (auto simp: stub_site_def i(2) Let_def eval_nat_numeral)
  next
    case True
    then obtain room where room: "gather_room ci item st (i + 1)
        \<lparr>jr_sequence = [matched_bytes (cs_seg st) (ci_matches ci ! i)], jr_taken = [], jr_trailingBytes = 0,
         jr_siteLength = im_Length (ci_matches ci ! i)\<rparr> = Inr room"
      and n: "n = jr_siteLength room" "taken = jr_taken room"
      using run unfolding stub_site_def Let_def i(2) item(2) bind_res_Inr_iff
      by (auto simp: bind_res_Inr_iff split: if_splits option.splits)
    show ?thesis unfolding n by (rule gather_room_ok [OF room tiled i(2)]) (simp_all add: start)
  qed
qed

lemma taken_indices:
  assumes tiled: "tiled ms n" and range: "i \<le> final" "final < length ms" and stop: "at_pos ms i + k = at_end ms final"
  shows "set (takeWhile (\<lambda>j. im_Offset (ms ! j) < im_Offset (ms ! i) + of_nat k) [i..<length ms]) = {i..final}"
proof -
  have "unat (im_Offset (ms ! i) + of_nat k) = at_end ms final"
    using stop tiled_less [OF tiled range(2)] by (simp add: at_pos_def unat_add_of_nat)
  then have less: "im_Offset (ms ! j) < im_Offset (ms ! i) + of_nat k \<longleftrightarrow> at_pos ms j < at_end ms final" for j
    by (simp add: word_less_nat_alt at_pos_def)
  have below: "at_pos ms j < at_end ms final" if "j \<le> final" for j
    using tiled_mono(3) [OF tiled that range(2)] .
  have above: "\<not> at_pos ms j < at_end ms final" if "final < j" "j < length ms" for j
    using tiled_order [OF tiled that] by simp
  have "[i..<length ms] = [i..<final + 1] @ [final + 1..<length ms]"
    using range upt_add_eq_append [of i "final + 1" "length ms - (final + 1)"] by (simp del: upt_Suc One_nat_def)
  moreover have "takeWhile (\<lambda>j. at_pos ms j < at_end ms final) [final + 1..<length ms] = []"
    using above [of "final + 1"] by (cases "final + 1 < length ms") (simp_all add: upt_rec)
  moreover have "takeWhile (\<lambda>j. at_pos ms j < at_end ms final) ([i..<final + 1] @ rest) =
      [i..<final + 1] @ takeWhile (\<lambda>j. at_pos ms j < at_end ms final) rest" for rest
    by (rule takeWhile_append2) (use below in auto)
  ultimately have "takeWhile (\<lambda>j. at_pos ms j < at_end ms final) [i..<length ms] = [i..<final + 1]"
    by (simp del: upt_Suc One_nat_def)
  then show ?thesis by (auto simp: less)
qed

lemma inv_stub:
  assumes space: "in_space ci orig" and inv: "conv_inv ci orig old i M st" and item: "item_ok ci orig item" "pd_Index item = i"
    and pending: "pending_ok ci orig" and i: "i \<in> ci_pending ci" "i \<notin> cs_consumed st" and run: "convert_stub ci item st = Inr (n, st')"
  shows "conv_inv ci orig old (Suc i) M st'"
proof -
  let ?ms = "ci_matches ci" and ?ph = "ci_ph ci"
  have tiled: "tiled ?ms (length orig)" using space by (simp add: in_space_def)
  have seg: "agrees orig ?ms M (cs_seg st)" and M: "M \<subseteq> {k \<in> ci_pending ci. k < i}" using inv by (simp_all add: conv_inv_def)
  have m: "i < length ?ms" "pd_Instruction item = ?ms ! i" using item by (auto simp: item_ok_def)
  have Ms: "M \<subseteq> {..<length ?ms}" using M m(1) by auto
  obtain stub len taken where stub: "stub_site ci item st = Inr (stub, len, taken)"
    and free: "\<not> entered (ci_branchTargets ci) (ph_MappedAddress ?ph + im_Offset (?ms ! i)) (ph_MappedAddress ?ph + im_Offset (?ms ! i) + of_nat len)"
    and st': "st' = st\<lparr>cs_result := (cs_result st)\<lparr>cr_Trampolines := cr_Trampolines (cs_result st) @
          [\<lparr>ts_Offset = ph_Offset ?ph + im_Offset (?ms ! i), ts_Address = ph_MappedAddress ?ph + im_Offset (?ms ! i), ts_Length = len,
            ts_OriginalBytes = subbytes (cs_seg st) (unat (im_Offset (?ms ! i))) len, ts_Body = am_StubBody stub,
            ts_ReturnBranchOffset = am_ReturnBranchOffset stub, ts_Relocations = am_Relocations stub\<rparr>]\<rparr>,
        cs_claimed := cs_claimed st \<union>
          set (takeWhile (\<lambda>k. im_Offset (?ms ! k) < im_Offset (?ms ! i) + of_nat len) [i..<length ?ms]),
        cs_consumed := cs_consumed st \<union> set taken\<rparr>"
    using run unfolding convert_stub_def Let_def m(2) item(2) bind_res_Inr_iff by (auto split: if_splits)
  obtain final where room: "room_ok ci i st final len taken" and len: "5 \<le> len"
    using stub_site_room [OF space inv item stub] by blast
  then have range: "i \<le> final" "final < length ?ms" and stop: "at_pos ?ms i + len = at_end ?ms final"
    by (simp_all add: room_ok_def)
  have unclaimed: "k \<notin> cs_claimed st" if "k \<in> {i..final}" for k
    using that room conv_inv_free [OF inv i i(1)] by (cases "k = i") (auto simp: room_ok_def)
  have consumed: "k \<in> set taken" if "k \<in> ci_pending ci" "i < k" "k \<le> final" for k
  proof -
    have k: "k < length ?ms" "k \<notin> M" using that range M by auto
    have "Match (ci_target ci) (matched_bytes (cs_seg st) (?ms ! k)) [] \<noteq> Inr None"
      using that(1) pending agrees_match_bytes [OF seg tiled k Ms] by (simp add: pending_ok_def)
    then show ?thesis using room that by (auto simp: room_ok_def)
  qed
  have hull: "{i..final} \<inter> M = {}" using M by auto
  note taken = taken_indices [OF tiled range stop]
  have base: "ph_MappedAddress ?ph + of_nat (at_end ?ms final) = ph_MappedAddress ?ph + im_Offset (?ms ! i) + of_nat len"
    unfolding stop [symmetric] by (simp add: at_pos_def)
  have "good_site ci orig i final (last (cr_Trampolines (cs_result st')))"
    by (rule fits_site(1) [OF space seg Ms range hull order_refl eq_refl [OF stop] len])
      (use free in \<open>simp_all add: st' base del: of_nat_add\<close>, simp_all add: at_pos_def)
  then have "sited ci orig {i..final} M [last (cr_Trampolines (cs_result st'))]"
    using hull by (intro sited_single) auto
  moreover have "cr_Trampolines (cs_result st') = cr_Trampolines (cs_result st) @ [last (cr_Trampolines (cs_result st'))]"
    by (simp add: st')
  ultimately show ?thesis
    by (intro conv_inv_place [OF space inv i, where C = "{i..final}"]) (use seg range unclaimed consumed in \<open>auto simp: st' taken\<close>)
qed

subsection \<open>The loop\<close>

lemma inv_item:
  assumes space: "in_space ci orig" and inv: "conv_inv ci orig old (pd_Index item) M st" and item: "item_ok ci orig item"
    and pending: "pending_ok ci orig" "pd_Index item \<in> ci_pending ci" and run: "convert_item ci item st = Inr st'"
  shows "\<exists>M'. conv_inv ci orig old (Suc (pd_Index item)) M' st'"
proof (cases "pd_Index item \<in> cs_consumed st")
  case True
  then have "st' = st" using run by (simp add: convert_item_def)
  then show ?thesis using conv_inv_later [OF inv, of "Suc (pd_Index item)"] by auto
next
  case False
  have report: "conv_inv ci orig old j M (st\<lparr>cs_result := add_report r result\<rparr>) \<longleftrightarrow> conv_inv ci orig old j M st"
    if "cr_Trampolines result = cr_Trampolines (cs_result st)" for j M st r result
    using that by (simp add: conv_inv_def add_report_def)
  obtain converted where lowered: "convert_lowered ci item st = Inr converted"
    using run False by (cases "convert_lowered ci item st") (auto simp: convert_item_def Let_def)
  show ?thesis
  proof (cases converted)
    case None
    have "conv_inv ci orig old (Suc (pd_Index item)) M st" by (rule conv_inv_later [OF inv]) simp
    then show ?thesis using run False lowered None by (auto simp: convert_item_def Let_def report)
  next
    case (Some c)
    obtain n st1 where c: "c = (n, st1)" by (cases c)
    consider "convert_in_place ci item st = Inr (n, st1)"
      | "am_RelocatableWindow (pd_Substitution item)" "convert_placed ci item st = Inr (n, st1)"
      | "convert_stub ci item st = Inr (n, st1)"
      using lowered unfolding Some c convert_lowered_def Let_def keep_or_throw_def
      by (auto simp: bind_res_Inr_iff split: amd64_lowering.splits if_splits sum.splits exn.splits)
    then have "\<exists>M'. conv_inv ci orig old (Suc (pd_Index item)) M' st1"
    proof cases
      case 1
      then show ?thesis using inv_in_place [OF space inv item refl pending(2) False] by blast
    next
      case 2
      then show ?thesis using inv_placed [OF space inv item refl pending(2) False] by blast
    next
      case 3
      then show ?thesis using inv_stub [OF space inv item refl pending False] by blast
    qed
    then show ?thesis using run False lowered Some c by (auto simp: convert_item_def Let_def report)
  qed
qed

lemma inv_items:
  assumes space: "in_space ci orig" and pending: "pending_ok ci orig"
    and items: "\<forall>item \<in> set items. item_ok ci orig item \<and> pd_Index item \<in> ci_pending ci" "sorted_wrt (<) (map pd_Index items)"
    and inv: "conv_inv ci orig old i M st" "\<forall>item \<in> set items. i \<le> pd_Index item"
    and run: "fold_res (convert_item ci) items st = Inr st'"
  shows "\<exists>j M'. conv_inv ci orig old j M' st'"
  using items inv run
proof (induction items arbitrary: i M st)
  case Nil
  then show ?case by auto
next
  case (Cons item items)
  obtain st1 where st1: "convert_item ci item st = Inr st1" "fold_res (convert_item ci) items st1 = Inr st'"
    using Cons.prems(5) by (auto simp: bind_res_Inr_iff)
  have "conv_inv ci orig old (pd_Index item) M st" using conv_inv_later [OF Cons.prems(3)] Cons.prems(4) by simp
  then obtain M' where inv': "conv_inv ci orig old (Suc (pd_Index item)) M' st1"
    using inv_item [OF space _ _ pending _ st1(1)] Cons.prems(1) by force
  show ?case by (rule Cons.IH [OF _ _ inv' _ st1(2)]) (use Cons.prems(1,2) in auto)
qed

lemma atFileOffset_Inr [simp]: "atFileOffset base r = Inr x \<longleftrightarrow> r = Inr x"
  by (cases r; cases "projl r") auto

definition find_step :: "amd64_target \<Rightarrow> program_header \<Rightarrow> bytes \<Rightarrow> nat \<times> instruction_match \<Rightarrow> pending list res" where
  "find_step target ph seg = (\<lambda>(index, m).
     bind_res (atFileOffset (ph_Offset ph + im_Offset m) (Match target (matched_bytes seg m) [])) (\<lambda>found. Inr (
       case found of None \<Rightarrow> []
       | Some substitution \<Rightarrow> [\<lparr>pd_Index = index, pd_Instruction = m, pd_Substitution = substitution\<rparr>])))"

lemma find_step_Inr: "find_step target ph seg (n, m) = Inr items \<longleftrightarrow>
    (\<exists>found. Match target (matched_bytes seg m) [] = Inr found \<and>
      items = (case found of None \<Rightarrow> [] | Some sub \<Rightarrow> [\<lparr>pd_Index = n, pd_Instruction = m, pd_Substitution = sub\<rparr>]))"
  by (auto simp: find_step_def bind_res_Inr_iff)

lemma find_pending_items:
  assumes "map_res (find_step target ph seg) (enumerate n ms) = Inr found"
  shows "\<forall>item \<in> set (concat found). \<exists>k < length ms. pd_Index item = n + k \<and> pd_Instruction item = ms ! k \<and>
      Match target (matched_bytes seg (ms ! k)) [] = Inr (Some (pd_Substitution item))"
    and "sorted_wrt (<) (map pd_Index (concat found))"
    and "\<forall>k < length ms. Match target (matched_bytes seg (ms ! k)) [] \<noteq> Inr None \<longrightarrow> n + k \<in> pd_Index ` set (concat found)"
  using assms
proof (induction ms arbitrary: n found)
  case Nil
  { case 1 then show ?case by simp next case 2 then show ?case by simp next case 3 then show ?case by simp }
next
  case (Cons m ms)
  have step: "\<exists>items found'. found = items # found' \<and> find_step target ph seg (n, m) = Inr items \<and>
      map_res (find_step target ph seg) (enumerate (Suc n) ms) = Inr found'"
    if "map_res (find_step target ph seg) (enumerate n (m # ms)) = Inr found" for n found
    using that by (auto simp: bind_res_Inr_iff)
  { case 1
    from step [OF this] obtain items found' where f: "found = items # found'" "find_step target ph seg (n, m) = Inr items"
        "map_res (find_step target ph seg) (enumerate (Suc n) ms) = Inr found'" by blast
    show ?case using Cons.IH(1) [OF f(3)] f(1,2) by (fastforce simp: find_step_Inr split: option.splits)
  next
    case 2
    from step [OF this] obtain items found' where f: "found = items # found'" "find_step target ph seg (n, m) = Inr items"
        "map_res (find_step target ph seg) (enumerate (Suc n) ms) = Inr found'" by blast
    have "n < pd_Index item" if "item \<in> set (concat found')" for item
      using Cons.IH(1) [OF f(3)] that by fastforce
    then show ?case using Cons.IH(2) [OF f(3)] f(1,2) by (auto simp: find_step_Inr split: option.splits)
  next
    case 3
    from step [OF this] obtain items found' where f: "found = items # found'" "find_step target ph seg (n, m) = Inr items"
        "map_res (find_step target ph seg) (enumerate (Suc n) ms) = Inr found'" by blast
    show ?case
    proof (intro allI impI)
      fix k assume k: "k < length (m # ms)" "Match target (matched_bytes seg ((m # ms) ! k)) [] \<noteq> Inr None"
      show "n + k \<in> pd_Index ` set (concat found)"
      proof (cases k)
        case 0
        then show ?thesis using k f(1,2) by (auto simp: find_step_Inr split: option.splits)
      next
        case (Suc j)
        then have "Suc n + j \<in> pd_Index ` set (concat found')" using Cons.IH(3) [OF f(3)] k by auto
        then show ?thesis using Suc f(1) by auto
      qed
    qed }
qed

lemma find_pending_ok:
  assumes "find_pending target ph seg ms = Inr items"
    and "ci_matches ci = ms" "ci_target ci = target" "ci_pending ci = set (map pd_Index items)"
  shows "pending_ok ci seg" "\<forall>item \<in> set items. item_ok ci seg item \<and> pd_Index item \<in> ci_pending ci"
    "sorted_wrt (<) (map pd_Index items)"
proof -
  obtain found where "map_res (find_step target ph seg) (enumerate 0 ms) = Inr found" and items: "items = concat found"
    using assms(1) by (auto simp: find_pending_def find_step_def bind_res_Inr_iff)
  note found = find_pending_items [OF this(1)]
  show "sorted_wrt (<) (map pd_Index items)" using found(2) items by simp
  show "\<forall>item \<in> set items. item_ok ci seg item \<and> pd_Index item \<in> ci_pending ci"
    using found(1) assms(2-4) items by (fastforce simp: item_ok_def)
  have "pd_Index ` set items \<subseteq> {k. k < length ms \<and> Match target (matched_bytes seg (ms ! k)) [] \<noteq> Inr None}"
    using found(1) items by fastforce
  moreover have "{k. k < length ms \<and> Match target (matched_bytes seg (ms ! k)) [] \<noteq> Inr None} \<subseteq> pd_Index ` set items"
    using found(3) items by auto
  ultimately show "pending_ok ci seg" using assms(2-4) by (simp add: pending_ok_def)
qed

subsection \<open>A segment\<close>

definition segment_range :: "program_header \<Rightarrow> nat set" where
  "segment_range ph = {unat (ph_Offset ph)..<unat (ph_Offset ph) + unat (ph_FileSize ph)}"

lemma convertSegment_Inr:
  assumes "convertSegment target segments ph (fileBytes, result) = Inr (fileBytes', result')"
  shows "fileBytes' = fileBytes \<and> result' = result \<or>
    (\<exists>matches items targets ci st. ScanCodeSection (MakeInstructionScanner True []) (subbytes fileBytes (unat (ph_Offset ph)) (unat (ph_FileSize ph))) 0
         (of_nat (length (subbytes fileBytes (unat (ph_Offset ph)) (unat (ph_FileSize ph))))) = Inr matches \<and>
       find_pending target ph (subbytes fileBytes (unat (ph_Offset ph)) (unat (ph_FileSize ph))) matches = Inr items \<and>
       (if \<exists>item \<in> set items. am_Lowering (pd_Substitution item) = Trampoline
        then collectBranchTargets (subbytes fileBytes (unat (ph_Offset ph)) (unat (ph_FileSize ph))) matches ph fileBytes segments
        else Inr {}) = Inr targets \<and>
       ci = \<lparr>ci_matches = matches, ci_ph = ph, ci_branchTargets = targets, ci_pending = set (map pd_Index items), ci_target = target\<rparr> \<and>
       fold_res (convert_item ci) items \<lparr>cs_seg = subbytes fileBytes (unat (ph_Offset ph)) (unat (ph_FileSize ph)), cs_result = result,
         cs_claimed = {}, cs_consumed = {}\<rparr> = Inr st \<and> length (cs_seg st) = unat (ph_FileSize ph) \<and>
       fileBytes' = blit fileBytes (unat (ph_Offset ph)) (cs_seg st) \<and> result' = cs_result st)"
    and "unat (ph_Offset ph) + unat (ph_FileSize ph) \<le> length fileBytes"
  using assms unfolding convertSegment_def Let_def prod.case by (auto simp: bind_res_Inr_iff split: if_splits)

lemma convertSegment_frame:
  assumes "convertSegment target segments ph (fileBytes, result) = Inr (fileBytes', result')"
  shows "length fileBytes' = length fileBytes" "x \<notin> segment_range ph \<Longrightarrow> x < length fileBytes \<Longrightarrow> fileBytes' ! x = fileBytes ! x"
  using convertSegment_Inr [OF assms] by (auto simp: segment_range_def layout_simps nth_blit)

lemma items_trampolines:
  assumes "fold_res (convert_item ci) items st = Inr st'" "\<forall>item \<in> set items. am_Lowering (pd_Substitution item) \<noteq> Trampoline"
  shows "cr_Trampolines (cs_result st') = cr_Trampolines (cs_result st)"
  using assms
proof (induction items arbitrary: st)
  case (Cons item items)
  then obtain st1 where st1: "convert_item ci item st = Inr st1" "fold_res (convert_item ci) items st1 = Inr st'"
    by (auto simp: bind_res_Inr_iff)
  have "cr_Trampolines (cs_result st1) = cr_Trampolines (cs_result st)"
    using st1(1) Cons.prems(2)
    by (auto simp: convert_item_def convert_lowered_def convert_in_place_def add_report_def bind_res_Inr_iff Let_def
        split: if_splits amd64_lowering.splits)
  then show ?case using Cons.IH [OF st1(2)] Cons.prems(2) by simp
qed simp

text \<open>What a segment adds: sites in its range that are as the file has them before and after.\<close>

lemma convertSegment_sites:
  assumes run: "convertSegment target segments ph (fileBytes, result) = Inr (fileBytes', result')"
    and space: "unat (ph_MappedAddress ph) + unat (ph_FileSize ph) + 5 < 2 ^ 64"
  shows "\<exists>new. cr_Trampolines result' = cr_Trampolines result @ new \<and> sorted_wrt (apart_sites ph) new \<and>
    (\<forall>s \<in> set new. \<exists>matches targets.
       ScanCodeSection (MakeInstructionScanner True []) (subbytes fileBytes (unat (ph_Offset ph)) (unat (ph_FileSize ph))) 0
         (ph_FileSize ph) = Inr matches \<and>
       collectBranchTargets (subbytes fileBytes (unat (ph_Offset ph)) (unat (ph_FileSize ph))) matches ph fileBytes segments = Inr targets \<and>
       site_fits ph targets (subbytes fileBytes (unat (ph_Offset ph)) (unat (ph_FileSize ph))) s \<and>
       ts_OriginalBytes s = subbytes (subbytes fileBytes' (unat (ph_Offset ph)) (unat (ph_FileSize ph))) (site_pos ph s) (ts_Length s))"
proof -
  let ?seg = "subbytes fileBytes (unat (ph_Offset ph)) (unat (ph_FileSize ph))"
  have bound: "unat (ph_Offset ph) + unat (ph_FileSize ph) \<le> length fileBytes" by (rule convertSegment_Inr(2) [OF run])
  then have len: "length ?seg = unat (ph_FileSize ph)" by (simp add: layout_simps)
  have size: "(of_nat (length ?seg) :: u64) = ph_FileSize ph" by (simp add: len)
  from convertSegment_Inr(1) [OF run] show ?thesis
  proof (elim disjE conjE exE)
    assume "result' = result"
    then show ?thesis by (intro exI [of _ "[]"]) simp
  next
    fix matches items targets ci st
    assume scan: "ScanCodeSection (MakeInstructionScanner True []) ?seg 0 (of_nat (length ?seg)) = Inr matches"
      and items: "find_pending target ph ?seg matches = Inr items"
      and targets: "(if \<exists>item \<in> set items. am_Lowering (pd_Substitution item) = Trampoline
        then collectBranchTargets ?seg matches ph fileBytes segments else Inr {}) = Inr targets"
      and ci: "ci = \<lparr>ci_matches = matches, ci_ph = ph, ci_branchTargets = targets, ci_pending = set (map pd_Index items), ci_target = target\<rparr>"
      and fold: "fold_res (convert_item ci) items \<lparr>cs_seg = ?seg, cs_result = result, cs_claimed = {}, cs_consumed = {}\<rparr> = Inr st"
      and out: "length (cs_seg st) = unat (ph_FileSize ph)" "fileBytes' = blit fileBytes (unat (ph_Offset ph)) (cs_seg st)" "result' = cs_result st"
    have tiled: "tiled matches (length ?seg)" by (rule tiled_scan [OF scan]) (use space in \<open>simp add: len\<close>)
    then have in_space: "in_space ci ?seg" using space by (simp add: in_space_def ci len)
    have fields: "ci_matches ci = matches" "ci_target ci = target" "ci_pending ci = set (map pd_Index items)" "ci_ph ci = ph"
      "ci_branchTargets ci = targets" by (simp_all add: ci)
    note pending = find_pending_ok [OF items fields(1-3)]
    have start: "conv_inv ci ?seg (cr_Trampolines result) 0 {} \<lparr>cs_seg = ?seg, cs_result = result, cs_claimed = {}, cs_consumed = {}\<rparr>"
      by (simp add: conv_inv_def sited_def)
    obtain j M where inv: "conv_inv ci ?seg (cr_Trampolines result) j M st"
      using inv_items [OF in_space pending start _ fold] by auto
    then obtain new where new: "cr_Trampolines result' = cr_Trampolines result @ new" "sited ci ?seg (cs_claimed st) M new"
      unfolding conv_inv_def out(3) by blast
    have agrees: "agrees ?seg matches M (cs_seg st)" and M: "M \<subseteq> {..<length matches}"
      using inv pending(2) by (auto simp: conv_inv_def fields(1,3) item_ok_def)
    have seg': "subbytes fileBytes' (unat (ph_Offset ph)) (unat (ph_FileSize ph)) = cs_seg st"
      using bound out(1) by (intro nth_equalityI) (auto simp: out(2) layout_simps nth_blit)
    have good: "site_fits ph targets ?seg s \<and> ts_OriginalBytes s = subbytes (cs_seg st) (site_pos ph s) (ts_Length s)"
      if "s \<in> set new" for s
    proof -
      obtain f l where hull: "{f..l} \<inter> M = {}" "good_site ci ?seg f l s" using new(2) \<open>s \<in> set new\<close> unfolding sited_def by blast
      then have fits: "site_fits ph targets ?seg s" by (simp add: good_site_def fields)
      then have "ts_OriginalBytes s = subbytes ?seg (site_pos ph s) (ts_Length s)" unfolding site_fits_def by blast
      moreover have "subbytes (cs_seg st) (site_pos ph s) (ts_Length s) = subbytes ?seg (site_pos ph s) (ts_Length s)"
        by (rule agrees_subbytes [OF agrees tiled _ _ hull(1) M]) (use hull(2) in \<open>simp_all add: good_site_def fields\<close>)
      ultimately show ?thesis using fits by simp
    qed
    have "collectBranchTargets ?seg matches ph fileBytes segments = Inr targets" if "s \<in> set new" for s
      using targets items_trampolines [OF fold] new(1) that by (auto simp: out(3) split: if_splits)
    then show ?thesis
      using new good scan by (intro exI [of _ new]) (auto simp: sited_def fields(4) seg' size)
  qed
qed

subsection \<open>The file\<close>

lemma subbytes_agree: "length b = length b' \<Longrightarrow> a + n \<le> length b \<Longrightarrow> (\<And>x. a \<le> x \<Longrightarrow> x < a + n \<Longrightarrow> b ! x = b' ! x) \<Longrightarrow>
    subbytes b a n = subbytes b' a n"
  by (intro nth_equalityI) (auto simp: layout_simps)

lemma subbytes_subbytes: "a + n \<le> m \<Longrightarrow> start + m \<le> length b \<Longrightarrow> subbytes (subbytes b start m) a n = subbytes b (start + a) n"
  by (intro nth_equalityI) (auto simp: layout_simps add.assoc)

definition site_range :: "trampoline_site \<Rightarrow> nat set" where
  "site_range s = {unat (ts_Offset s)..<unat (ts_Offset s) + ts_Length s}"

definition site_kept :: "bytes \<Rightarrow> bytes \<Rightarrow> trampoline_site \<Rightarrow> bool" where
  "site_kept before after s \<longleftrightarrow> 5 \<le> ts_Length s \<and> unat (ts_Offset s) + ts_Length s \<le> length before \<and>
     subbytes before (unat (ts_Offset s)) (ts_Length s) = ts_OriginalBytes s \<and>
     subbytes after (unat (ts_Offset s)) (ts_Length s) = ts_OriginalBytes s"

definition code_of :: "program_header list \<Rightarrow> nat set" where
  "code_of segments = (\<Union>ph \<in> set (filter executable segments). segment_range ph)"

definition convert_step :: "amd64_target \<Rightarrow> program_header list \<Rightarrow> program_header \<Rightarrow> bytes \<times> convert_result \<Rightarrow> (bytes \<times> convert_result) res" where
  "convert_step target segments = (\<lambda>ph r. if executable ph then convertSegment target segments ph r else Inr r)"

lemma Convert_Inr:
  assumes "Convert target fileBytes segments = Inr r"
  shows "\<exists>result. fold_res (convert_step target segments) segments (fileBytes, empty_result) = Inr (cr_Bytes r, result) \<and>
    cr_Trampolines r = cr_Trampolines result"
  using assms by (auto simp: Convert_def convert_step_def bind_res_Inr_iff)

lemma convert_steps_frame:
  assumes "fold_res (convert_step target segments) phs (fileBytes, result) = Inr (fileBytes', result')"
  shows "length fileBytes' = length fileBytes \<and> (\<forall>x < length fileBytes. x \<notin> code_of phs \<longrightarrow> fileBytes' ! x = fileBytes ! x)"
  using assms
proof (induction phs arbitrary: fileBytes result)
  case (Cons ph phs)
  obtain b r where step: "convert_step target segments ph (fileBytes, result) = Inr (b, r)"
      "fold_res (convert_step target segments) phs (b, r) = Inr (fileBytes', result')"
    using Cons.prems by (auto simp: bind_res_Inr_iff)
  have "length b = length fileBytes \<and> (\<forall>x < length fileBytes. x \<notin> code_of [ph] \<longrightarrow> b ! x = fileBytes ! x)"
    using step(1) convertSegment_frame [of target segments ph fileBytes result b r]
    by (auto simp: convert_step_def code_of_def split: if_splits)
  then show ?case using Cons.IH [OF step(2)] by (auto simp: code_of_def)
qed simp

lemma convert_steps_sites:
  assumes "fold_res (convert_step target segments) phs (fileBytes, empty_result) = Inr (fileBytes', result')"
    and "length fileBytes < 2 ^ 64" "\<forall>ph \<in> set phs. executable ph \<longrightarrow> unat (ph_MappedAddress ph) + unat (ph_FileSize ph) + 5 < 2 ^ 64"
    and "sorted_wrt (\<lambda>ph ph'. segment_range ph \<inter> segment_range ph' = {}) (filter executable phs)"
  shows "sorted_wrt (\<lambda>s s'. site_range s \<inter> site_range s' = {}) (cr_Trampolines result') \<and>
    (\<forall>s \<in> set (cr_Trampolines result'). site_kept fileBytes fileBytes' s \<and> site_range s \<subseteq> code_of phs)"
  using assms
proof (induction phs arbitrary: fileBytes' result' rule: rev_induct)
  case Nil
  then show ?case by (auto simp: empty_result_def)
next
  case (snoc ph phs)
  obtain b r where start: "fold_res (convert_step target segments) phs (fileBytes, empty_result) = Inr (b, r)"
      and step: "convert_step target segments ph (b, r) = Inr (fileBytes', result')"
    using snoc.prems(1) by (auto simp: fold_res_append bind_res_Inr_iff)
  note IH = snoc.IH [OF start snoc.prems(2)]
  note frame = convert_steps_frame [OF start]
  have old: "sorted_wrt (\<lambda>s s'. site_range s \<inter> site_range s' = {}) (cr_Trampolines r)"
      "\<And>s. s \<in> set (cr_Trampolines r) \<Longrightarrow> site_kept fileBytes b s \<and> site_range s \<subseteq> code_of phs"
    using IH snoc.prems(3,4) by (auto simp: sorted_wrt_append)
  show ?case
  proof (cases "executable ph")
    case False
    then show ?thesis using step old by (auto simp: convert_step_def code_of_def)
  next
    case True
    let ?off = "unat (ph_Offset ph)" and ?size = "unat (ph_FileSize ph)"
    have run: "convertSegment target segments ph (b, r) = Inr (fileBytes', result')" using step True by (simp add: convert_step_def)
    have apart: "segment_range ph \<inter> code_of phs = {}" using snoc.prems(4) True by (auto simp: sorted_wrt_append code_of_def)
    have bound: "?off + ?size \<le> length fileBytes" using convertSegment_Inr(2) [OF run] frame by simp
    obtain new where new: "cr_Trampolines result' = cr_Trampolines r @ new" "sorted_wrt (apart_sites ph) new"
      and good: "\<And>s. s \<in> set new \<Longrightarrow> \<exists>targets. site_fits ph targets (subbytes b ?off ?size) s \<and>
        ts_OriginalBytes s = subbytes (subbytes fileBytes' ?off ?size) (site_pos ph s) (ts_Length s)"
      using convertSegment_sites [OF run] snoc.prems(3) True by fastforce
    have len: "length b = length fileBytes" "length fileBytes' = length fileBytes"
      using frame convertSegment_frame(1) [OF run] by simp_all
    have pos: "unat (ts_Offset s) = ?off + site_pos ph s \<and> site_pos ph s + ts_Length s \<le> ?size \<and> 5 \<le> ts_Length s \<and>
        ts_OriginalBytes s = subbytes b (unat (ts_Offset s)) (ts_Length s) \<and>
        ts_OriginalBytes s = subbytes fileBytes' (unat (ts_Offset s)) (ts_Length s)" if s: "s \<in> set new" for s
    proof -
      obtain targets where fits: "site_fits ph targets (subbytes b ?off ?size) s"
          "ts_OriginalBytes s = subbytes (subbytes fileBytes' ?off ?size) (site_pos ph s) (ts_Length s)"
        using good [OF s] by blast
      then have in_size: "site_pos ph s + ts_Length s \<le> ?size" using bound len by (simp add: site_fits_def layout_simps)
      then have "unat (ts_Offset s) = ?off + site_pos ph s"
        using fits(1) bound snoc.prems(2) unat_add_of_nat [of "ph_Offset ph" "site_pos ph s"] unfolding site_fits_def by simp
      then show ?thesis
        using fits in_size bound len by (simp add: site_fits_def subbytes_subbytes)
    qed
    have inside: "site_range s \<subseteq> segment_range ph" if "s \<in> set new" for s
      using pos [OF that] by (auto simp: site_range_def segment_range_def)
    have "site_kept fileBytes fileBytes' s" if s: "s \<in> set new" for s
    proof -
      have "b ! x = fileBytes ! x" if "x \<in> site_range s" for x
      proof -
        have "x \<in> segment_range ph" "x \<notin> code_of phs" using that inside [OF s] apart by blast+
        then show ?thesis using frame bound by (auto simp: segment_range_def)
      qed
      then have "subbytes b (unat (ts_Offset s)) (ts_Length s) = subbytes fileBytes (unat (ts_Offset s)) (ts_Length s)"
        using pos [OF s] bound len by (intro subbytes_agree) (auto simp: site_range_def)
      then show ?thesis using pos [OF s] bound unfolding site_kept_def by auto
    qed
    moreover have "site_kept fileBytes fileBytes' s" if s: "s \<in> set (cr_Trampolines r)" for s
    proof -
      have kept: "site_kept fileBytes b s" "site_range s \<subseteq> code_of phs" using old(2) [OF s] by simp_all
      have "fileBytes' ! x = b ! x" if "x \<in> site_range s" for x
      proof -
        have "x \<notin> segment_range ph" using that kept(2) apart by blast
        then show ?thesis
          using that kept(1) convertSegment_frame(2) [OF run, of x] len by (simp add: site_range_def site_kept_def)
      qed
      then have "subbytes fileBytes' (unat (ts_Offset s)) (ts_Length s) = subbytes b (unat (ts_Offset s)) (ts_Length s)"
        using kept(1) len by (intro subbytes_agree) (auto simp: site_range_def site_kept_def)
      then show ?thesis using kept(1) by (simp add: site_kept_def)
    qed
    moreover have "sorted_wrt (\<lambda>s s'. site_range s \<inter> site_range s' = {}) new"
      by (rule sorted_wrt_mono_rel [OF _ new(2)]) (use pos in \<open>auto simp: apart_sites_def site_range_def\<close>)
    moreover have "site_range s \<inter> site_range s' = {}" if "s \<in> set (cr_Trampolines r)" "s' \<in> set new" for s s'
      using old(2) [OF that(1)] inside [OF that(2)] apart by blast
    moreover have "code_of (phs @ [ph]) = code_of phs \<union> segment_range ph" using True by (auto simp: code_of_def)
    then have "site_range s \<subseteq> code_of (phs @ [ph])" if "s \<in> set (cr_Trampolines r) \<or> s \<in> set new" for s
      using that old(2) [of s] inside [of s] by blast
    ultimately show ?thesis
      unfolding new(1) set_append sorted_wrt_append using old(1) by blast
  qed
qed

text \<open>What the scanner finds does not depend on its progress reports.\<close>

lemma scan_quiet: "ScanCodeSection (MakeInstructionScanner True ranges) = ScanCodeSection (MakeInstructionScanner False ranges)"
  using ScanCodeSection_progress [of True "MakeInstructionScanner False ranges"] by (simp add: MakeInstructionScanner_def)

subsection \<open>Named targets\<close>

text \<open>
  The places that the code of a segment names, apart from how the converter collects them: the targets of its direct branches,
  as integers, since a branch may lead out of the address space, and the targets of its jump tables. A table is
  what a \<open>lea\<close> relative to \<open>rip\<close> addresses in a loaded segment, for as long as its entries lead to instructions.
\<close>

definition direct_target :: "program_header \<Rightarrow> bytes \<Rightarrow> instruction_match list \<Rightarrow> int \<Rightarrow> bool" where
  "direct_target ph seg matches t \<longleftrightarrow> (\<exists>m \<in> set matches. \<exists>info. DecodeInstruction (matched_bytes seg m) = Inr info \<and>
     di_HasBranchTarget info \<and> \<not> di_HasRipRelativeDisp info \<and>
     t = uint (ph_MappedAddress ph) + uint (im_Offset m) + int (di_Length info) + di_BranchDisp info)"

definition table_entry :: "bytes \<Rightarrow> program_header \<Rightarrow> u64 \<Rightarrow> nat \<Rightarrow> u64" where
  "table_entry fileBytes data table j =
     table + scast (field32 fileBytes (unat (ph_Offset data) + (unat table - unat (ph_MappedAddress data)) + 4 * j))"

definition table_of :: "program_header \<Rightarrow> bytes \<Rightarrow> instruction_match \<Rightarrow> u64 \<Rightarrow> bool" where
  "table_of ph seg m table \<longleftrightarrow> (\<exists>info. DecodeInstruction (matched_bytes seg m) = Inr info \<and> di_HasRipRelativeDisp info \<and>
     di_Opcode info = kLea \<and> table = ph_MappedAddress ph + im_Offset m + of_nat (di_Length info) +
       scast (field32 seg (unat (im_Offset m) + di_RipRelativeDispOffset info)))"

definition starts_match :: "program_header \<Rightarrow> instruction_match list \<Rightarrow> u64 \<Rightarrow> bool" where
  "starts_match ph matches a \<longleftrightarrow> (\<exists>m \<in> set matches. a = ph_MappedAddress ph + im_Offset m)"

definition table_target ::
    "program_header \<Rightarrow> bytes \<Rightarrow> instruction_match list \<Rightarrow> bytes \<Rightarrow> program_header list \<Rightarrow> u64 \<Rightarrow> bool" where
  "table_target ph seg matches fileBytes segments t \<longleftrightarrow> (\<exists>m \<in> set matches. \<exists>table. table_of ph seg m table \<and>
     (\<exists>data \<in> set segments. ph_Type data = kLoadSegment \<and> ph_MappedAddress data \<le> table \<and>
       (\<exists>k. unat table - unat (ph_MappedAddress data) + 4 * (k + 1) \<le> unat (ph_FileSize data) \<and>
         (\<forall>j \<le> k. starts_match ph matches (table_entry fileBytes data table j)) \<and> t = table_entry fileBytes data table k)))"

text \<open>A place inside an instruction of the segment behind its prefixes, where no instruction that was scanned starts.\<close>

definition behind_prefixes :: "program_header \<Rightarrow> bytes \<Rightarrow> instruction_match list \<Rightarrow> int \<Rightarrow> bool" where
  "behind_prefixes ph seg matches t \<longleftrightarrow> (\<exists>m \<in> set matches. let start = uint (ph_MappedAddress ph) + uint (im_Offset m) in
     start + int (OpcodeOffset (matched_bytes seg m)) < t \<and> t < start + int (im_Length m))"

definition inside_site :: "trampoline_site \<Rightarrow> int \<Rightarrow> bool" where
  "inside_site s t \<longleftrightarrow> uint (ts_Address s) < t \<and> t < uint (ts_Address s) + int (ts_Length s)"

lemma uint_eqI: "unat (w :: 'a::len word) = n \<Longrightarrow> uint w = int n"
  by (simp only: uint_nat)

lemma collect_member:
  assumes "collectBranchTargets seg matches ph fileBytes segments = Inr targets" "m \<in> set matches"
  obtains ts where "match_targets seg matches ph fileBytes segments m = Inr ts" "set ts \<subseteq> targets"
proof -
  obtain tss where tss: "map_res (match_targets seg matches ph fileBytes segments) matches = Inr tss" "targets = set (concat tss)"
    using assms(1) by (auto simp: collectBranchTargets_def bind_res_Inr_iff)
  obtain k where k: "k < length matches" "m = matches ! k" using assms(2) by (metis in_set_conv_nth)
  have "tss ! k \<in> set tss" using k(1) map_res_length [OF tss(1)] by simp
  then have "set (tss ! k) \<subseteq> targets" unfolding tss(2) by auto
  then show thesis using that map_res_nth [OF tss(1) k(1)] k(2) by blast
qed

lemma pastPrefixes_behind:
  assumes past: "pastPrefixes seg matches ph t" and tiled: "tiled matches (length seg)"
    and space: "unat (ph_MappedAddress ph) + length seg < 2 ^ 64"
  shows "behind_prefixes ph seg matches (uint t)"
proof -
  let ?off = "t - ph_MappedAddress ph"
  define m where "m = last (takeWhile (\<lambda>m. \<not> ?off < im_Offset m) matches)"
  have upto: "takeWhile (\<lambda>m. \<not> ?off < im_Offset m) matches \<noteq> []" and inside: "unat (?off - im_Offset m) < im_Length m"
      "OpcodeOffset (matched_bytes seg m) < unat (?off - im_Offset m)"
    using past by (auto simp: pastPrefixes_def Let_def m_def matched_bytes_def split: if_splits)
  have m: "m \<in> set matches" "im_Offset m \<le> ?off"
    using last_in_set [OF upto] set_takeWhileD unfolding m_def by (fastforce simp: not_less)+
  obtain k where k: "k < length matches" "m = matches ! k" using m(1) by (metis in_set_conv_nth)
  have stop: "unat (im_Offset m) + im_Length m \<le> length seg"
    using tiled_end [OF tiled k(1)] by (simp add: at_end_def at_pos_def k(2))
  define d where "d = unat (?off - im_Offset m)"
  have off: "unat ?off = unat (im_Offset m) + d"
    using unat_sub_le [OF m(2)] m(2) by (simp add: word_le_nat_alt d_def)
  have "t = ph_MappedAddress ph + of_nat (unat ?off)" by simp
  then have "unat t = unat (ph_MappedAddress ph) + unat ?off"
    using unat_add_of_nat [of "ph_MappedAddress ph" "unat ?off"] off inside(1) stop space by (simp add: d_def)
  then have "unat t = unat (ph_MappedAddress ph) + unat (im_Offset m) + d" using off by linarith
  from uint_eqI [OF this] have "uint t = uint (ph_MappedAddress ph) + uint (im_Offset m) + int d" by simp
  then show ?thesis using inside [folded d_def] m(1) unfolding behind_prefixes_def Let_def by (intro bexI [of _ m]) simp_all
qed

lemma direct_collected:
  assumes collected: "collectBranchTargets seg matches ph fileBytes segments = Inr targets" and tiled: "tiled matches (length seg)"
    and space: "unat (ph_MappedAddress ph) + length seg < 2 ^ 64"
    and t: "direct_target ph seg matches t" "0 \<le> t" "t < 2 ^ 64" "\<not> behind_prefixes ph seg matches t"
  shows "word_of_int t \<in> targets"
proof -
  obtain m info where m: "m \<in> set matches" "DecodeInstruction (matched_bytes seg m) = Inr info" "di_HasBranchTarget info"
      "\<not> di_HasRipRelativeDisp info" "t = uint (ph_MappedAddress ph) + uint (im_Offset m) + int (di_Length info) + di_BranchDisp info"
    using t(1) unfolding direct_target_def by blast
  obtain ts where ts: "match_targets seg matches ph fileBytes segments m = Inr ts" "set ts \<subseteq> targets"
    using collect_member [OF collected m(1)] by blast
  obtain k where k: "k < length matches" "m = matches ! k" using m(1) by (metis in_set_conv_nth)
  have "di_Length info \<le> im_Length m"
    using m(2) by (rule DecodeInstruction_ok) (use x64.decode_le match_bytes_length [OF tiled k(1)] k(2) in force)
  then have stop: "unat (im_Offset m) + di_Length info \<le> length seg"
    using tiled_end [OF tiled k(1)] by (simp add: at_end_def at_pos_def k(2))
  let ?next = "ph_MappedAddress ph + im_Offset m + of_nat (di_Length info)"
  have "unat ?next = unat (ph_MappedAddress ph) + (unat (im_Offset m) + di_Length info)"
    using unat_add_of_nat [of "ph_MappedAddress ph" "unat (im_Offset m) + di_Length info"] stop space by (simp add: add.assoc)
  then have next_int: "uint ?next = uint (ph_MappedAddress ph) + uint (im_Offset m) + int (di_Length info)" using uint_eqI by fastforce
  have target: "word_of_int t = ?next + word_of_int (di_BranchDisp info)" by (simp add: m(5))
  have t_int: "uint (word_of_int t :: u64) = t" using t(2,3) by (simp add: uint_word_of_int_eq take_bit_eq_mod)
  have unwrapped: "\<not> (if di_BranchDisp info < 0 then (word_of_int t :: u64) > ?next else word_of_int t < ?next)"
  proof -
    have "uint ?next = t - di_BranchDisp info" using next_int m(5) by linarith
    then show ?thesis by (simp only: word_less_def t_int) simp
  qed
  have "\<not> pastPrefixes seg matches ph (word_of_int t)"
    using pastPrefixes_behind [OF _ tiled space] t(4) t_int by metis
  then have "[word_of_int t] = ts"
    using ts(1) m(2-4) unwrapped by (simp add: match_targets_def Let_def target [symmetric] matched_bytes_def)
  then show ?thesis using ts(2) by auto
qed

lemma starts_match_starts:
  assumes "starts_match ph matches a" "tiled matches n"
  shows "startsInstruction matches ph a"
proof -
  obtain k where k: "k < length matches" "a = ph_MappedAddress ph + im_Offset (matches ! k)"
    using assms(1) unfolding starts_match_def by (metis in_set_conv_nth)
  have before: "im_Offset (matches ! j) < im_Offset (matches ! k)" if "j < k" for j
    using tiled_order [OF assms(2) that k(1)] tiled_pos_end [OF assms(2), of j] that k(1) by (simp add: at_pos_def word_less_nat_alt)
  let ?P = "\<lambda>m. im_Offset m < im_Offset (matches ! k)"
  have "dropWhile ?P (take k matches @ matches ! k # drop (Suc k) matches) = matches ! k # drop (Suc k) matches"
    by (subst dropWhile_append2) (use before k(1) in \<open>auto simp: in_set_conv_nth\<close>)
  then have "dropWhile ?P matches = matches ! k # drop (Suc k) matches" using id_take_nth_drop [OF k(1)] by simp
  then show ?thesis by (simp add: startsInstruction_def k(2))
qed

lemma jump_table_Suc:
  "jump_table starts fileBytes table pos (Suc n) =
     (let target = table + scast (field32 fileBytes pos)
      in if starts target then target # jump_table starts fileBytes table (pos + 4) n else [])"
  by (simp only: jump_table.simps field32_def scast_eq)

lemma jump_table_member:
  assumes "k < n" "\<forall>j \<le> k. starts (table + scast (field32 fileBytes (pos + 4 * j)))"
  shows "table + scast (field32 fileBytes (pos + 4 * k)) \<in> set (jump_table starts fileBytes table pos n)"
  using assms
proof (induction n arbitrary: pos k)
  case (Suc n)
  have first: "starts (table + scast (field32 fileBytes pos))" using Suc.prems(2) by (metis mult_0_right add_0_right zero_le)
  show ?case
  proof (cases k)
    case 0
    then show ?thesis using first by (simp add: jump_table_Suc del: jump_table.simps)
  next
    case (Suc k')
    have "table + scast (field32 fileBytes (pos + 4 + 4 * k')) \<in> set (jump_table starts fileBytes table (pos + 4) n)"
    proof (rule Suc.IH)
      show "\<forall>j \<le> k'. starts (table + scast (field32 fileBytes (pos + 4 + 4 * j)))"
      proof (intro allI impI)
        fix j assume "j \<le> k'"
        then have "starts (table + scast (field32 fileBytes (pos + 4 * Suc j)))" using Suc.prems(2) [rule_format, of "Suc j"] Suc by simp
        moreover have "pos + 4 * Suc j = pos + 4 + 4 * j" by simp
        ultimately show "starts (table + scast (field32 fileBytes (pos + 4 + 4 * j)))" by (simp only:)
      qed
    qed (use Suc.prems(1) Suc in simp)
    then show ?thesis using first by (simp add: jump_table_Suc Suc add.assoc del: jump_table.simps)
  qed
qed simp

lemma table_collected:
  assumes collected: "collectBranchTargets seg matches ph fileBytes segments = Inr targets" and tiled: "tiled matches (length seg)"
    and t: "table_target ph seg matches fileBytes segments t"
  shows "t \<in> targets"
proof -
  obtain m table data k where m: "m \<in> set matches" "table_of ph seg m table" and data: "data \<in> set segments" "ph_Type data = kLoadSegment"
      "ph_MappedAddress data \<le> table" and k: "unat table - unat (ph_MappedAddress data) + 4 * (k + 1) \<le> unat (ph_FileSize data)"
      "\<forall>j \<le> k. starts_match ph matches (table_entry fileBytes data table j)" "t = table_entry fileBytes data table k"
    using t unfolding table_target_def by blast
  obtain info where info: "DecodeInstruction (matched_bytes seg m) = Inr info" "di_HasRipRelativeDisp info" "di_Opcode info = kLea"
      "table = ph_MappedAddress ph + im_Offset m + of_nat (di_Length info) +
        scast (field32 seg (unat (im_Offset m) + di_RipRelativeDispOffset info))"
    using m(2) unfolding table_of_def by blast
  obtain ts where ts: "match_targets seg matches ph fileBytes segments m = Inr ts" "set ts \<subseteq> targets"
    using collect_member [OF collected m(1)] by blast
  have "table = ph_MappedAddress ph + im_Offset m + of_nat (di_Length info) +
      word_of_int (sint (le_word (subbytes seg (unat (im_Offset m) + di_RipRelativeDispOffset info) 4) :: u32))"
    unfolding info(4) field32_def scast_eq by simp
  then obtain tables where tables: "map_res (table_targets matches ph fileBytes table) segments = Inr tables" "ts = concat tables"
    using ts(1) info(1-3) by (auto simp: match_targets_def Let_def matched_bytes_def bind_res_Inr_iff)
  obtain j where j: "j < length segments" "data = segments ! j" using data(1) by (metis in_set_conv_nth)
  have entries: "table_targets matches ph fileBytes table data = Inr (tables ! j)" using map_res_nth [OF tables(1) j(1)] j(2) by simp
  let ?skipped = "unat table - unat (ph_MappedAddress data)"
  have skipped: "unat (table - ph_MappedAddress data) = ?skipped" using unat_sub_le [OF data(3)] by simp
  then have "\<not> table - ph_MappedAddress data \<ge> ph_FileSize data" using k(1) by (simp add: word_le_nat_alt)
  then have "tables ! j = jump_table (startsInstruction matches ph) fileBytes table (unat (ph_Offset data) + ?skipped)
      ((unat (ph_FileSize data) - ?skipped) div 4)"
    using entries data(2,3) skipped by (simp add: table_targets_def Let_def split: if_splits)
  moreover have "t \<in> set (jump_table (startsInstruction matches ph) fileBytes table (unat (ph_Offset data) + ?skipped)
      ((unat (ph_FileSize data) - ?skipped) div 4))"
    unfolding k(3) table_entry_def
    by (rule jump_table_member) (use k(1,2) starts_match_starts [OF _ tiled] in \<open>auto simp: table_entry_def\<close>)
  moreover have "tables ! j \<in> set tables" using j(1) map_res_length [OF tables(1)] by simp
  ultimately show ?thesis using ts(2) tables(2) by auto
qed

lemma site_not_entered:
  assumes fits: "site_fits ph targets seg s" and space: "unat (ph_MappedAddress ph) + length seg + 5 < 2 ^ 64"
    and t: "inside_site s t"
  shows "0 \<le> t" "t < 2 ^ 64" "word_of_int t \<notin> targets"
proof -
  have addr: "ts_Address s = ph_MappedAddress ph + of_nat (site_pos ph s)" and stop: "site_pos ph s + ts_Length s \<le> length seg"
    and free: "\<not> entered targets (ts_Address s) (ts_Address s + of_nat (ts_Length s))"
    using fits unfolding site_fits_def by blast+
  have start: "unat (ts_Address s) = unat (ph_MappedAddress ph) + site_pos ph s"
    unfolding addr by (rule unat_add_of_nat) (use stop space in simp)
  have finish: "unat (ts_Address s + of_nat (ts_Length s)) = unat (ts_Address s) + ts_Length s"
    by (rule unat_add_of_nat) (use start stop space in simp)
  have inside: "uint (ts_Address s) < t" "t < uint (ts_Address s) + int (ts_Length s)" using t by (simp_all add: inside_site_def)
  have "unat (ts_Address s) + ts_Length s < 2 ^ 64" using start stop space by simp
  then have "int (unat (ts_Address s) + ts_Length s) < int (2 ^ 64)" by (simp only: of_nat_less_iff)
  then show small: "t < 2 ^ 64" using inside(2) by simp
  have "0 \<le> uint (ts_Address s)" by simp
  then show pos: "0 \<le> t" using inside(1) by linarith
  have "uint (word_of_int t :: u64) = t" using pos small by (simp add: uint_word_of_int_eq take_bit_eq_mod)
  then have "ts_Address s < word_of_int t" "word_of_int t < ts_Address s + of_nat (ts_Length s)"
    using inside uint_eqI [OF finish] by (simp_all add: word_less_def)
  then show "word_of_int t \<notin> targets" using free unfolding entered_def by blast
qed

subsection \<open>Properties\<close>

text \<open>
  C22: The conversion changes the code only: the file keeps its length, and a byte that no executable segment covers is
  as it was.
\<close>

theorem convert_only_code:
  assumes "Convert target fileBytes segments = Inr r"
  shows "length (cr_Bytes r) = length fileBytes \<and>
    (\<forall>x < length fileBytes. x \<notin> code_of segments \<longrightarrow> cr_Bytes r ! x = fileBytes ! x)"
  using Convert_Inr [OF assms] convert_steps_frame by blast

text \<open>
  C2: The sites of the stubs are sound, when the executable segments do not overlap in the file and are not at the end of
  the address space: a site has room for a jump, lies in a segment of code, overlaps no other site, and holds the bytes
  that its stub was made from in the file as it was and in the converted file, so that installing the jumps
  overwrites nothing that the conversion wrote.
\<close>

theorem convert_sites_sound:
  assumes "Convert target fileBytes segments = Inr r" "length fileBytes < 2 ^ 64"
    and "\<forall>ph \<in> set segments. executable ph \<longrightarrow> unat (ph_MappedAddress ph) + unat (ph_FileSize ph) + 5 < 2 ^ 64"
    and "sorted_wrt (\<lambda>ph ph'. segment_range ph \<inter> segment_range ph' = {}) (filter executable segments)"
  shows "sorted_wrt (\<lambda>s s'. site_range s \<inter> site_range s' = {}) (cr_Trampolines r) \<and>
    (\<forall>s \<in> set (cr_Trampolines r). site_kept fileBytes (cr_Bytes r) s \<and> site_range s \<subseteq> code_of segments)"
  using Convert_Inr [OF assms(1)] convert_steps_sites [OF _ assms(2-4)] by fastforce

text \<open>
  C10: No branch enters a site: of the places that the code of a segment names, a target of a direct branch lies inside the
  bytes that the jump to a stub replaces, behind their first, only if it is inside an instruction of the segment behind its prefixes, and a
  target of a jump table never does.
\<close>

theorem convert_sites_not_entered:
  assumes "convertSegment target segments ph (fileBytes, result) = Inr (fileBytes', result')"
    and "unat (ph_MappedAddress ph) + unat (ph_FileSize ph) + 5 < 2 ^ 64"
    and "seg = subbytes fileBytes (unat (ph_Offset ph)) (unat (ph_FileSize ph))"
    and "ScanCodeSection (MakeInstructionScanner True []) seg 0 (ph_FileSize ph) = Inr matches"
    and "s \<in> set (drop (length (cr_Trampolines result)) (cr_Trampolines result'))" "inside_site s t"
  shows "(direct_target ph seg matches t \<longrightarrow> behind_prefixes ph seg matches t) \<and>
    \<not> (\<exists>w. t = uint w \<and> table_target ph seg matches fileBytes segments w)"
proof -
  obtain targets where targets: "collectBranchTargets seg matches ph fileBytes segments = Inr targets" "site_fits ph targets seg s"
    using convertSegment_sites [OF assms(1,2)] assms(4,5) unfolding assms(3) by fastforce
  have full: "length seg = unat (ph_FileSize ph)" using convertSegment_Inr(2) [OF assms(1)] by (simp add: assms(3) layout_simps)
  have tiled: "tiled matches (length seg)" by (rule tiled_scan) (use assms(2,4) full in simp_all)
  have space: "unat (ph_MappedAddress ph) + length seg + 5 < 2 ^ 64" using assms(2) full by simp
  note out = site_not_entered [OF targets(2) space assms(6)]
  have "behind_prefixes ph seg matches t" if "direct_target ph seg matches t"
    using direct_collected [OF targets(1) tiled _ that out(1,2)] out(3) space by fastforce
  moreover have "\<not> table_target ph seg matches fileBytes segments w" if "t = uint w" for w
    using table_collected [OF targets(1) tiled, of w] out(3) that by auto
  ultimately show ?thesis by blast
qed

subsection \<open>A concrete file\<close>

text \<open>The branch leads behind the prefix of the \<open>extrq\<close> that becomes a stub.\<close>

definition sample_converter_file :: bytes where
  "sample_converter_file = [0, 0x66, 0x0F, 0x79, 0xC1, 0x90, 0xEB, 0xFB]"

definition sample_converter_segment :: program_header where
  "sample_converter_segment = \<lparr>ph_Type = 1, ph_Flags = 5, ph_Offset = 1, ph_MappedAddress = 0x1000, ph_PhysicalAddress = 0x1000,
     ph_FileSize = 7, ph_MemorySize = 7, ph_Alignment = 1\<rparr>"

lemma sample_converted_segment:
  "\<exists>fileBytes r s. convertSegment Intel [sample_converter_segment] sample_converter_segment (sample_converter_file, empty_result) =
     Inr (fileBytes, r) \<and> cr_Trampolines r = [s] \<and> ts_Address s = 0x1000 \<and> ts_Length s = 5"
proof -
  have "case convertSegment Intel [sample_converter_segment] sample_converter_segment (sample_converter_file, empty_result) of
    Inl _ \<Rightarrow> False | Inr (fileBytes, r) \<Rightarrow> map ts_Address (cr_Trampolines r) = [0x1000] \<and> map ts_Length (cr_Trampolines r) = [5]"
    unfolding convertSegment_def scan_quiet by code_simp
  then show ?thesis by (auto split: sum.splits prod.splits simp: map_eq_Cons_conv)
qed

lemma sample_converted: "\<exists>r s. Convert Intel sample_converter_file [sample_converter_segment] = Inr r \<and> cr_Trampolines r = [s]"
proof -
  have "case fold_res add_total [sample_converter_segment] 0 of Inl _ \<Rightarrow> False | Inr _ \<Rightarrow> executable sample_converter_segment"
    by code_simp
  then show ?thesis using sample_converted_segment by (fastforce simp: Convert_def split: sum.splits)
qed

lemma sample_targets:
  "\<exists>matches. ScanCodeSection (MakeInstructionScanner True []) (tl sample_converter_file) 0 7 = Inr matches \<and>
    direct_target sample_converter_segment (tl sample_converter_file) matches 0x1002"
proof -
  have "case ScanCodeSection (MakeInstructionScanner False []) (tl sample_converter_file) 0 7 of Inl _ \<Rightarrow> False | Inr matches \<Rightarrow>
      list_ex (\<lambda>m. res_holds (\<lambda>info. di_HasBranchTarget info \<and> \<not> di_HasRipRelativeDisp info \<and>
        uint (ph_MappedAddress sample_converter_segment) + uint (im_Offset m) + int (di_Length info) + di_BranchDisp info = 0x1002)
        (DecodeInstruction (matched_bytes (tl sample_converter_file) m))) matches"
    by code_simp
  then show ?thesis
    unfolding scan_quiet direct_target_def by (fastforce simp: list_ex_iff dest: res_holdsD split: sum.splits)
qed

lemma convert_only_code_witness:
  "\<exists>r. Convert Intel sample_converter_file [sample_converter_segment] = Inr r \<and> length (cr_Bytes r) = 8 \<and> cr_Bytes r ! 0 = 0"
proof -
  obtain r where r: "Convert Intel sample_converter_file [sample_converter_segment] = Inr r" using sample_converted by blast
  have "0 \<notin> code_of [sample_converter_segment]"
    by (simp add: code_of_def segment_range_def sample_converter_segment_def)
  then show ?thesis using r convert_only_code [OF r] by (auto simp: sample_converter_file_def)
qed

lemma convert_sites_sound_witness:
  "\<exists>r s. Convert Intel sample_converter_file [sample_converter_segment] = Inr r \<and> cr_Trampolines r = [s] \<and>
     site_kept sample_converter_file (cr_Bytes r) s"
proof -
  obtain r s where r: "Convert Intel sample_converter_file [sample_converter_segment] = Inr r" "cr_Trampolines r = [s]"
    using sample_converted by blast
  have "sorted_wrt (\<lambda>s s'. site_range s \<inter> site_range s' = {}) (cr_Trampolines r) \<and>
    (\<forall>s \<in> set (cr_Trampolines r). site_kept sample_converter_file (cr_Bytes r) s \<and> site_range s \<subseteq> code_of [sample_converter_segment])"
    by (rule convert_sites_sound [OF r(1)]) (simp_all add: sample_converter_file_def sample_converter_segment_def)
  then show ?thesis using r by auto
qed

lemma convert_sites_not_entered_witness:
  "\<exists>fileBytes r s matches. convertSegment Intel [sample_converter_segment] sample_converter_segment (sample_converter_file, empty_result) =
     Inr (fileBytes, r) \<and> cr_Trampolines r = [s] \<and> inside_site s 0x1002 \<and>
     direct_target sample_converter_segment (tl sample_converter_file) matches 0x1002 \<and>
     behind_prefixes sample_converter_segment (tl sample_converter_file) matches 0x1002"
proof -
  obtain fileBytes r s where r: "convertSegment Intel [sample_converter_segment] sample_converter_segment (sample_converter_file, empty_result) =
     Inr (fileBytes, r)" "cr_Trampolines r = [s]" "ts_Address s = 0x1000" "ts_Length s = 5"
    using sample_converted_segment by blast
  obtain matches where t: "ScanCodeSection (MakeInstructionScanner True []) (tl sample_converter_file) 0 7 = Inr matches"
    "direct_target sample_converter_segment (tl sample_converter_file) matches 0x1002"
    using sample_targets by blast
  have seg: "tl sample_converter_file =
      subbytes sample_converter_file (unat (ph_Offset sample_converter_segment)) (unat (ph_FileSize sample_converter_segment))"
    "ph_FileSize sample_converter_segment = 7"
    by (simp_all add: sample_converter_file_def sample_converter_segment_def subbytes_def)
  have inside: "inside_site s 0x1002" by (simp add: inside_site_def r(3,4))
  have "(direct_target sample_converter_segment (tl sample_converter_file) matches 0x1002 \<longrightarrow>
      behind_prefixes sample_converter_segment (tl sample_converter_file) matches 0x1002) \<and>
    \<not> (\<exists>w. 0x1002 = uint w \<and> table_target sample_converter_segment (tl sample_converter_file) matches sample_converter_file
      [sample_converter_segment] w)"
    by (rule convert_sites_not_entered [OF r(1) _ seg(1) t(1) [folded seg(2)] _ inside])
      (simp_all add: r(2) empty_result_def sample_converter_segment_def)
  then show ?thesis using r(1,2) t(2) inside by blast
qed

end
