(* ===== verification/X64_Converter_Stubs.thy ===== *)
theory X64_Converter_Stubs
  imports X64_Converter_Correct
begin

text \<open>
  The stubs of a conversion: the body of every site that \<open>Convert\<close> returns is a builder's, finished, with its
  relocations and its return branch. So what holds of the code that builder calls produce holds of every
  body that a patcher places.
\<close>

subsection \<open>Builder calls\<close>

lemma emitParts_builds: "emitParts replacement offset b = Inr b' \<Longrightarrow> builds b b'"
proof (induction replacement offset b rule: emitParts.induct)
  case (1 replacement offset b)
  show ?case
  proof (cases "offset < length replacement")
    case False
    then show ?thesis using 1(2) by (simp add: emitParts.simps)
  next
    case True
    define part where "part = (\<lambda>info :: instruction_info. take (di_Length info) (drop offset replacement))"
    obtain info b1 where info: "DecodeInstruction (drop offset replacement) = Inr info"
        "\<not> (di_Length info = 0 \<or> di_Length info > length replacement - offset)"
      and step: "(if di_HasRipRelativeDisp info
               then RipRelative (part info) (di_RipRelativeDispOffset info)
                      (int (offset + di_Length info) + signed32 (bytes_value (part info) (di_RipRelativeDispOffset info) 4)) b
               else Inr (Raw (part info) b)) = Inr b1"
      and rest: "emitParts replacement (offset + di_Length info) b1 = Inr b'"
      using 1(2) True by (subst (asm) emitParts.simps) (auto simp: bind_res_Inr_iff Let_def part_def split: if_splits)
    have "builds b1 b'" by (rule 1(1) [OF True info refl step [unfolded part_def] rest])
    moreover have "builds b b1"
      using step by (auto split: if_splits intro: builds_calls builds_partial(3) [OF builds_refl])
    ultimately show ?thesis by (blast intro: builds_trans)
  qed
qed

lemma emitOutOfLine_builds: "emitOutOfLine target data b = Inr (Some (n, b')) \<Longrightarrow> builds b b'"
  using emitOutOfLine_kept [of target data b n b'] by (simp add: emit_kept_def)

lemma emitInPlace_builds: "emitInPlace target data b = Inr (Some (n, b')) \<Longrightarrow> builds b b'"
  by (auto simp: emitInPlace_def bind_res_Inr_iff emitted_Inr dest: emitParts_builds split: option.splits if_splits)

lemma emit_either_builds:
  assumes "emitOutOfLine target data b = Inr e" "(if e = None \<and> c then emitInPlace target data b else Inr e) = Inr (Some (n, b'))"
  shows "builds b b'"
  using assms by (auto dest: emitOutOfLine_builds emitInPlace_builds split: if_splits)

lemma EmitOutOfLine_builds: "EmitOutOfLine target instruction allowInPlace b = Inr b' \<Longrightarrow> builds b b'"
  unfolding EmitOutOfLine_def bind_res_Inr_iff
  by (auto split: option.splits if_splits intro!: builds_calls dest: emitOutOfLine_builds emitInPlace_builds)

lemma emitSequence_builds: "emitSequence target instructions name b = Inr (Some (n, b')) \<Longrightarrow> builds b b'"
proof (induction target instructions name b rule: emitSequence.induct)
  case (2 target instruction instructions name b)
  obtain e e' where e: "emitOutOfLine target instruction b = Inr e"
      "(if e = None \<and> name \<noteq> None then emitInPlace target instruction b else Inr e) = Inr e'"
      "(case e' of None \<Rightarrow> Inr None | Some (emittedName, b) \<Rightarrow>
         emitSequence target instructions (Some (case name of None \<Rightarrow> emittedName | Some n \<Rightarrow> n))
           (Advance (length instruction) b)) = Inr (Some (n, b'))"
    using 2(2) by (auto simp: bind_res_Inr_iff)
  then obtain m b1 where e': "e' = Some (m, b1)" by (auto split: option.splits)
  have "builds b b1" using e(1,2) unfolding e' by (rule emit_either_builds)
  moreover have "builds (Advance (length instruction) b1) b'"
    by (rule 2(1)) (use e e' in auto)
  ultimately show ?case by (meson builds_calls builds_trans)
qed simp

definition built_body :: "bytes \<Rightarrow> nat \<Rightarrow> stub_relocation list \<Rightarrow> bool" where
  "built_body body n relocations \<longleftrightarrow>
     (\<exists>b. builds empty_builder b \<and> body = lb_Bytes (Finish b) \<and> n = length (sb_bytes b) \<and> relocations = sb_relocations b)"

lemma built_bodyI: "builds empty_builder b \<Longrightarrow> built_body (lb_Bytes (Finish b)) (lb_ReturnBranchOffset (Finish b)) (lb_Relocations (Finish b))"
  by (auto simp: built_body_def)

definition built_match :: "amd64_match \<Rightarrow> bool" where
  "built_match m \<longleftrightarrow> built_body (am_StubBody m) (am_ReturnBranchOffset m) (am_Relocations m)"

lemma built_trampoline: "builds empty_builder b \<Longrightarrow> built_match (trampoline name n optional moves (Finish b))"
  by (simp add: built_match_def trampoline_def built_body_def) blast

lemma Match_built:
  assumes "Match target data trailing = Inr (Some m)" "am_Lowering m = Trampoline"
  shows "built_match m"
proof -
  obtain b b' optional moves where b: "emitOutOfLine target data empty_builder = Inr (Some (am_InstructionName m, b))"
      "moveTrailing trailing (Advance (length data) b) = Inr b'"
      "m = trampoline (am_InstructionName m) (length data) optional moves (Finish b')"
    using Match_trampoline_built [OF assms] unfolding built_from_def by blast
  have "builds empty_builder b'"
    using emitOutOfLine_builds [OF b(1)] moveTrailing_builds [OF b(2)] by (meson builds_calls builds_trans)
  then show ?thesis by (subst b(3)) (rule built_trampoline)
qed

lemma MatchSequence_built: "MatchSequence target instructions trailing = Inr (Some m) \<Longrightarrow> built_match m"
  by (auto simp: MatchSequence_def bind_res_Inr_iff Let_def intro!: built_trampoline split: if_splits option.splits
      dest!: emitSequence_builds moveTrailing_builds intro: builds_trans)

subsection \<open>Sites\<close>

definition built_site :: "trampoline_site \<Rightarrow> bool" where
  "built_site s \<longleftrightarrow> built_body (ts_Body s) (ts_ReturnBranchOffset s) (ts_Relocations s)"

lemma built_site_site: "builds empty_builder b \<Longrightarrow> built_site (site p start n (Finish b))"
  by (auto simp: built_site_def site_def Let_def built_body_def)

text \<open>The placer knows the length of an instruction that it moves: it is the one that the decoder reports.\<close>

definition exact_at :: "window_placer \<Rightarrow> nat \<Rightarrow> bool" where
  "exact_at p k \<longleftrightarrow> (\<forall>info. wp_info p k = Inr info \<longrightarrow> di_Length info = length (wp_bytes p k))"

lemma MoveControlFlow_builds: "exact_at p k \<Longrightarrow> wp_info p k = Inr info \<Longrightarrow> MoveControlFlow (wp_bytes p k) info b = Inr b' \<Longrightarrow> builds b b'"
  by (rule builds_step [OF builds_refl step_MoveControlFlow]) (auto simp: exact_at_def wp_info_def)

lemma relocate_steps_builds:
  "fold_res (relocate_step p index aip) ks (b, pl) = Inr (b', pl') \<Longrightarrow> \<forall>k \<in> set ks. k \<notin> wp_pending p \<longrightarrow> exact_at p k \<Longrightarrow> builds b b'"
proof (induction ks arbitrary: b pl)
  case (Cons k ks)
  obtain b1 pl1 where step: "relocate_step p index aip k (b, pl) = Inr (b1, pl1)"
      and rest: "fold_res (relocate_step p index aip) ks (b1, pl1) = Inr (b', pl')"
    using Cons.prems(1) by (auto simp: bind_res_Inr_iff)
  have "builds b b1"
    using step Cons.prems(2)
    by (auto simp: relocate_step_def bind_res_Inr_iff split: if_splits intro: EmitOutOfLine_builds MoveControlFlow_builds)
  moreover have "builds b1 b'" by (rule Cons.IH [OF rest]) (use Cons.prems(2) in simp)
  ultimately show ?case by (rule builds_trans)
qed simp

lemma relocate_built:
  assumes "relocate p index first final aip = Inr (Some pl)" "\<forall>k \<in> {first..final}. k \<notin> wp_pending p \<longrightarrow> exact_at p k"
  shows "\<forall>s \<in> set (pl_Sites pl). built_site s"
proof -
  obtain b placement where moved: "fold_res (relocate_step p index aip) [first..<final + 1] (empty_builder, empty_placement) = Inr (b, placement)"
    and pl: "pl_Sites pl = [site p (wp_address p first) (unat (wp_end p final - wp_address p first)) (Finish b)]"
    using assms(1) unfolding relocate_def bind_res_Inr_iff
    by (auto simp: catch_codegen_Some bind_res_Inr_iff Let_def split: if_splits option.splits)
  have "builds empty_builder b" by (rule relocate_steps_builds [OF moved]) (use assms(2) in auto)
  then show ?thesis by (simp add: pl built_site_site)
qed

lemma move_all_builds:
  "move_all p ks b = Inr b' \<Longrightarrow> \<forall>k \<in> set ks. exact_at p k \<Longrightarrow> builds b b'"
proof (induction ks arbitrary: b)
  case (Cons k ks)
  then obtain info b1 where "wp_info p k = Inr info" "MoveControlFlow (wp_bytes p k) info b = Inr b1" "move_all p ks b1 = Inr b'"
    by (auto simp: move_all_def bind_res_Inr_iff)
  note step = this
  have "exact_at p k" "\<forall>k \<in> set ks. exact_at p k" using Cons.prems(2) by simp_all
  then show ?case using builds_trans [OF MoveControlFlow_builds [OF _ step(1,2)] Cons.IH [OF step(3)]] by blast
qed (simp add: move_all_def)

lemma buildIsland_built:
  assumes "buildIsland p index start final head = Inr (pl, seg)" "\<forall>k \<in> {start..final}. exact_at p k"
  shows "\<forall>s \<in> set (pl_Sites pl). built_site s"
proof -
  obtain moved blocks lowered where moved: "move_all p [start..<final + 1] empty_builder = Inr moved"
    and lowered: "EmitOutOfLine (wp_target p) (wp_bytes p index) False
      (Seek (distance (wp_address p index) (wp_address p start + head)) empty_builder) = Inr lowered"
    and pl: "pl_Sites pl =
      [site p (wp_address p start) (unat head)
         (Finish (if \<not> blocks then JumpTo (sint (wp_end p final - wp_address p start)) moved else moved)),
       site p (wp_address p start + head) (length kJmpRel32)
         (Finish (JumpTo (distance (wp_end p index) (wp_address p start + head)) lowered))]"
    using assms(1) unfolding buildIsland_def Let_def bind_res_Inr_iff by fastforce
  have "builds empty_builder moved" by (rule move_all_builds [OF moved]) (use assms(2) in auto)
  moreover have "builds empty_builder lowered"
    using EmitOutOfLine_builds [OF lowered] builds_calls(11) [OF builds_refl] by (blast intro: builds_trans)
  ultimately show ?thesis by (auto simp: pl intro!: built_site_site builds_calls)
qed

subsection \<open>The loop\<close>

text \<open>Every instruction of the segment has the length that the decoder reports for its bytes.\<close>

definition exact_matches :: "convert_input \<Rightarrow> bytes \<Rightarrow> bool" where
  "exact_matches ci orig \<longleftrightarrow> (\<forall>k < length (ci_matches ci). \<forall>info. DecodeInstruction (matched_bytes orig (ci_matches ci ! k)) = Inr info \<longrightarrow>
     di_Length info = im_Length (ci_matches ci ! k))"

lemma exact_scan:
  assumes "ScanCodeSection (MakeInstructionScanner progress ranges) seg 0 (of_nat (length seg)) = Inr (ci_matches ci)" "length seg < 2 ^ 64"
  shows "exact_matches ci seg"
  unfolding exact_matches_def
proof (intro allI impI)
  fix k info
  let ?m = "ci_matches ci ! k"
  assume k: "k < length (ci_matches ci)" and info: "DecodeInstruction (matched_bytes seg ?m) = Inr info"
  have n: "unat (of_nat (length seg) :: u64) = length seg" using assms(2) by (simp add: unat_of_nat_small)
  have "\<forall>m \<in> set (ci_matches ci). match_ok seg 0 (length seg) m"
    using ScanCodeSection_Inr [OF assms(1)] assms(2)
      sweep_matches [of "length seg" seg 0 "is_unwindRanges (MakeInstructionScanner progress ranges)" 0
        "is_unwindRanges (MakeInstructionScanner progress ranges)"]
    by (simp_all add: n)
  then have decode: "Decode (window seg (unat (im_Offset ?m)) (length seg)) = Inr (im_Length ?m)"
      and stop: "unat (im_Offset ?m) + im_Length ?m \<le> length seg"
    using k by (auto simp: match_ok_def match_pos_def match_end_def)
  have "take (im_Length ?m) (window seg (unat (im_Offset ?m)) (length seg)) = matched_bytes seg ?m"
    using stop by (simp add: window_def matched_bytes_def subbytes_def min_def)
  then have exact: "Decode (matched_bytes seg ?m) = Inr (im_Length ?m)"
    using x64.decode_take [OF decode] by simp
  from info show "di_Length info = im_Length ?m"
    by (rule DecodeInstruction_ok) (use exact in simp)
qed

lemma exact_placer:
  assumes "in_space ci orig" "conv_inv ci orig old i M st" "exact_matches ci orig" "k < length (ci_matches ci)" "k \<notin> ci_pending ci"
    "i < length (ci_matches ci)"
  shows "exact_at (placer_of ci st) k"
proof -
  have M: "k \<notin> M" "M \<subseteq> {..<length (ci_matches ci)}" using assms(2,5,6) by (auto simp: conv_inv_def)
  have tiled: "tiled (ci_matches ci) (length orig)" using assms(1) by (simp add: in_space_def)
  have "wp_bytes (placer_of ci st) k = matched_bytes (cs_seg st) (ci_matches ci ! k)"
    by (simp add: wp_bytes_def matched_bytes_def)
  also have "\<dots> = matched_bytes orig (ci_matches ci ! k)"
    using assms(2) by (intro agrees_match_bytes [OF _ tiled assms(4) M]) (simp add: conv_inv_def)
  finally have bytes: "wp_bytes (placer_of ci st) k = matched_bytes orig (ci_matches ci ! k)" .
  show ?thesis
    using assms(3,4) match_bytes_length [OF tiled assms(4)]
    by (simp add: exact_at_def wp_info_def bytes exact_matches_def)
qed

lemma placed_built:
  assumes space: "in_space ci orig" and inv: "conv_inv ci orig old (pd_Index item) M st" and exact: "exact_matches ci orig"
    and i: "pd_Index item < length (ci_matches ci)" and run: "convert_placed ci item st = Inr (n, st')"
  shows "\<exists>new. cr_Trampolines (cs_result st') = cr_Trampolines (cs_result st) @ new \<and> (\<forall>s \<in> set new. built_site s)"
proof -
  let ?p = "placer_of ci st"
  obtain pl seg' where found: "find_placement ?p (pd_Index item) = Inr (Some (pl, seg'))"
    and st': "cr_Trampolines (cs_result st') = cr_Trampolines (cs_result st) @ pl_Sites pl"
    using run by (auto simp: convert_placed_def bind_res_Inr_iff split: option.splits)
  have exact': "exact_at ?p k" if "k < length (ci_matches ci)" "k \<notin> ci_pending ci" for k
    by (rule exact_placer [OF space inv exact that i])
  from found consider "Window ?p (pd_Index item) = Inr (Some pl)" | "Island ?p (pd_Index item) = Inr (Some (pl, seg'))"
    by (auto simp: find_placement_def bind_res_Inr_iff split: option.splits)
  then have "\<forall>s \<in> set (pl_Sites pl). built_site s"
  proof cases
    case 1
    obtain first final aip where r: "relocate ?p (pd_Index item) first final aip = Inr (Some pl)"
        and range: "final < length (ci_matches ci)"
      using Window_placement [OF 1] i by auto
    show ?thesis by (rule relocate_built [OF r]) (use exact' range in auto)
  next
    case 2
    obtain start final head where found: "island_found ?p (pd_Index item) start final head"
        and r: "buildIsland ?p (pd_Index item) start final head = Inr (pl, seg')"
      using Island_placement [OF 2] by blast
    have "\<forall>k \<in> {start..final}. k < length (ci_matches ci) \<and> k \<notin> ci_pending ci"
      using found by (auto simp: island_found_def free_in_def)
    then show ?thesis using exact' by (intro buildIsland_built [OF r]) blast
  qed
  then show ?thesis using st' by blast
qed

lemma stub_site_built:
  assumes "stub_site ci item st = Inr (stub, n, taken)" "built_match (pd_Substitution item)"
  shows "built_match stub"
  using assms unfolding stub_site_def Let_def bind_res_Inr_iff
  by (auto simp: bind_res_Inr_iff split: if_splits option.splits dest: MatchSequence_built)

lemma stub_built:
  assumes run: "convert_stub ci item st = Inr (n, st')" and built: "built_match (pd_Substitution item)"
  shows "\<exists>new. cr_Trampolines (cs_result st') = cr_Trampolines (cs_result st) @ new \<and> (\<forall>s \<in> set new. built_site s)"
proof -
  obtain stub len taken s where stub: "stub_site ci item st = Inr (stub, len, taken)"
    and st': "cr_Trampolines (cs_result st') = cr_Trampolines (cs_result st) @ [s]" "ts_Body s = am_StubBody stub"
      "ts_ReturnBranchOffset s = am_ReturnBranchOffset stub" "ts_Relocations s = am_Relocations stub"
    using run unfolding convert_stub_def Let_def bind_res_Inr_iff by (auto split: if_splits)
  show ?thesis using stub_site_built [OF stub built] st' by (auto simp: built_site_def built_match_def)
qed

lemma item_built:
  assumes space: "in_space ci orig" and inv: "conv_inv ci orig old (pd_Index item) M st" and item: "item_ok ci orig item"
    and exact: "exact_matches ci orig" and run: "convert_item ci item st = Inr st'"
  shows "\<exists>new. cr_Trampolines (cs_result st') = cr_Trampolines (cs_result st) @ new \<and> (\<forall>s \<in> set new. built_site s)"
proof (cases "pd_Index item \<in> cs_consumed st")
  case True
  then show ?thesis using run by (simp add: convert_item_def)
next
  case False
  obtain converted where lowered: "convert_lowered ci item st = Inr converted"
    using run False by (cases "convert_lowered ci item st") (auto simp: convert_item_def Let_def)
  show ?thesis
  proof (cases converted)
    case None
    then show ?thesis using run False lowered by (auto simp: convert_item_def Let_def add_report_def)
  next
    case (Some c)
    obtain n st1 where c: "c = (n, st1)" by (cases c)
    have i: "pd_Index item < length (ci_matches ci)" using item by (simp add: item_ok_def)
    consider "convert_in_place ci item st = Inr (n, st1)" | "convert_placed ci item st = Inr (n, st1)"
      | "am_Lowering (pd_Substitution item) = Trampoline" "convert_stub ci item st = Inr (n, st1)"
      using lowered unfolding Some c convert_lowered_def Let_def keep_or_throw_def
      by (auto simp: bind_res_Inr_iff split: amd64_lowering.splits if_splits sum.splits exn.splits)
    then have "\<exists>new. cr_Trampolines (cs_result st1) = cr_Trampolines (cs_result st) @ new \<and> (\<forall>s \<in> set new. built_site s)"
    proof cases
      case 1
      then show ?thesis by (auto simp: convert_in_place_def Let_def split: if_splits)
    next
      case 2
      then show ?thesis by (rule placed_built [OF space inv exact i])
    next
      case 3
      have "built_match (pd_Substitution item)" using item Match_built [OF _ 3(1)] by (auto simp: item_ok_def)
      then show ?thesis by (rule stub_built [OF 3(2)])
    qed
    then show ?thesis using run False lowered Some c by (auto simp: convert_item_def Let_def add_report_def)
  qed
qed

lemma items_built:
  assumes space: "in_space ci orig" and pending: "pending_ok ci orig" and exact: "exact_matches ci orig"
    and items: "\<forall>item \<in> set items. item_ok ci orig item \<and> pd_Index item \<in> ci_pending ci" "sorted_wrt (<) (map pd_Index items)"
    and inv: "conv_inv ci orig old i M st" "\<forall>item \<in> set items. i \<le> pd_Index item"
    and run: "fold_res (convert_item ci) items st = Inr st'"
  shows "\<exists>new. cr_Trampolines (cs_result st') = cr_Trampolines (cs_result st) @ new \<and> (\<forall>s \<in> set new. built_site s)"
  using items inv run
proof (induction items arbitrary: i M st)
  case (Cons item items)
  obtain st1 where st1: "convert_item ci item st = Inr st1" "fold_res (convert_item ci) items st1 = Inr st'"
    using Cons.prems(5) by (auto simp: bind_res_Inr_iff)
  have inv: "conv_inv ci orig old (pd_Index item) M st" using conv_inv_later [OF Cons.prems(3)] Cons.prems(4) by simp
  have item: "item_ok ci orig item" "pd_Index item \<in> ci_pending ci" using Cons.prems(1) by simp_all
  obtain M' where inv': "conv_inv ci orig old (Suc (pd_Index item)) M' st1"
    using inv_item [OF space inv item(1) pending item(2) st1(1)] by blast
  have "\<exists>new. cr_Trampolines (cs_result st') = cr_Trampolines (cs_result st1) @ new \<and> (\<forall>s \<in> set new. built_site s)"
    by (rule Cons.IH [OF _ _ inv' _ st1(2)]) (use Cons.prems(1,2) in auto)
  then show ?case using item_built [OF space inv item(1) exact st1(1)] by auto
qed simp

lemma convertSegment_built:
  assumes run: "convertSegment target segments ph (fileBytes, result) = Inr (fileBytes', result')"
    and space: "unat (ph_MappedAddress ph) + unat (ph_FileSize ph) + 5 < 2 ^ 64"
    and old: "\<forall>s \<in> set (cr_Trampolines result). built_site s"
  shows "\<forall>s \<in> set (cr_Trampolines result'). built_site s"
proof -
  let ?seg = "subbytes fileBytes (unat (ph_Offset ph)) (unat (ph_FileSize ph))"
  have bound: "unat (ph_Offset ph) + unat (ph_FileSize ph) \<le> length fileBytes" by (rule convertSegment_Inr(2) [OF run])
  then have len: "length ?seg = unat (ph_FileSize ph)" by (simp add: layout_simps)
  from convertSegment_Inr(1) [OF run] show ?thesis
  proof (elim disjE conjE exE)
    assume "result' = result"
    then show ?thesis using old by simp
  next
    fix matches items targets ci st
    assume scan: "ScanCodeSection (MakeInstructionScanner True []) ?seg 0 (of_nat (length ?seg)) = Inr matches"
      and items: "find_pending target ph ?seg matches = Inr items"
      and ci: "ci = \<lparr>ci_matches = matches, ci_ph = ph, ci_branchTargets = targets, ci_pending = set (map pd_Index items), ci_target = target\<rparr>"
      and fold: "fold_res (convert_item ci) items \<lparr>cs_seg = ?seg, cs_result = result, cs_claimed = {}, cs_consumed = {}\<rparr> = Inr st"
      and out: "result' = cs_result st"
    have fields: "ci_matches ci = matches" "ci_target ci = target" "ci_pending ci = set (map pd_Index items)" by (simp_all add: ci)
    have small: "length ?seg < 2 ^ 64" using space by (simp add: len)
    have in_space: "in_space ci ?seg" using tiled_scan [OF scan small] space by (simp add: in_space_def ci len)
    have exact: "exact_matches ci ?seg" by (rule exact_scan [OF scan [folded fields(1)] small])
    note pending = find_pending_ok [OF items fields]
    have start: "conv_inv ci ?seg (cr_Trampolines result) 0 {} \<lparr>cs_seg = ?seg, cs_result = result, cs_claimed = {}, cs_consumed = {}\<rparr>"
      by (simp add: conv_inv_def sited_def)
    show ?thesis
      using items_built [OF in_space pending(1) exact pending(2,3) start _ fold] old by (auto simp: out)
  qed
qed

lemma convert_steps_built:
  assumes "fold_res (convert_step target segments) phs (fileBytes, result) = Inr (fileBytes', result')"
    and "\<forall>ph \<in> set phs. executable ph \<longrightarrow> unat (ph_MappedAddress ph) + unat (ph_FileSize ph) + 5 < 2 ^ 64"
    and "\<forall>s \<in> set (cr_Trampolines result). built_site s"
  shows "\<forall>s \<in> set (cr_Trampolines result'). built_site s"
  using assms
proof (induction phs arbitrary: fileBytes result)
  case (Cons ph phs)
  obtain b r where step: "convert_step target segments ph (fileBytes, result) = Inr (b, r)"
      "fold_res (convert_step target segments) phs (b, r) = Inr (fileBytes', result')"
    using Cons.prems(1) by (auto simp: bind_res_Inr_iff)
  have "\<forall>s \<in> set (cr_Trampolines r). built_site s"
    using step(1) Cons.prems(2,3) convertSegment_built [of target segments ph fileBytes result b r]
    by (auto simp: convert_step_def split: if_splits)
  then show ?case using Cons.IH [OF step(2)] Cons.prems(2) by simp
qed simp

lemma Convert_built:
  assumes "Convert target fileBytes segments = Inr r"
    and "\<forall>ph \<in> set segments. executable ph \<longrightarrow> unat (ph_MappedAddress ph) + unat (ph_FileSize ph) + 5 < 2 ^ 64"
  shows "\<forall>s \<in> set (cr_Trampolines r). built_site s"
proof -
  obtain result where "fold_res (convert_step target segments) segments (fileBytes, empty_result) = Inr (cr_Bytes r, result)"
      "cr_Trampolines r = cr_Trampolines result"
    using Convert_Inr [OF assms(1)] by blast
  then show ?thesis using convert_steps_built [OF _ assms(2)] by (simp add: empty_result_def)
qed

end
