(* ===== verification/Linux_Trampolines.thy ===== *)
theory Linux_Trampolines
  imports Entry_Stub X64_Converter_Stubs
begin

text \<open>
  The stubs in the Linux file (\<open>elfpatcher/src/linux/LinuxElfPatcher.cpp\<close>): the patcher appends the body of every
  site behind the image, applies its relocations for the address it gets there, writes the jump back
  behind the site and puts the jump to the body in the site. The lemmas follow the loop over the sites;
  together with the soundness of the sites that the converter returns they show that the patched
  code runs through the stubs.
\<close>

subsection \<open>The patcher\<close>

text \<open>The lambda \<open>vaddrOfExtraBlockOffset\<close>.\<close>

definition vaddrOfExtraBlockOffset :: "u64 \<Rightarrow> u64 \<Rightarrow> u64 \<Rightarrow> u64 res" where
  "vaddrOfExtraBlockOffset extraBlockOff extraBlockVaddr fileOffset =
     (if fileOffset < extraBlockOff
      then Inl (RelinkerException ''Extra block member offset lies before the extra block'' 0)
      else Inr (extraBlockVaddr + (fileOffset - extraBlockOff)))"

text \<open>\<open>SignedDistance\<close> and the lambda \<open>inRange\<close>: the displacement as it is written.\<close>

definition rel32_distance :: "u64 \<Rightarrow> u64 \<Rightarrow> u32 option" where
  "rel32_distance target base =
     (case SignedDistance target base of
        None \<Rightarrow> None
      | Some d \<Rightarrow> if sint d \<ge> - 2147483648 \<and> sint d \<le> 2147483647 then Some (ucast d) else None)"

definition valid_site :: "trampoline_site \<Rightarrow> bool" where
  "valid_site s \<longleftrightarrow>
     \<not> (ts_Length s < length kJmpRel32 \<or> length (ts_OriginalBytes s) \<noteq> ts_Length s \<or>
        length (ts_Body s) < length kJmpRel32 \<or>
        ts_ReturnBranchOffset s > length (ts_Body s) - length kJmpRel32 \<or>
        ts_Body s ! ts_ReturnBranchOffset s \<noteq> kJmpRel32 ! 0)"

text \<open>The jump in the site, filled up with no-operations.\<close>

definition write_jump :: "trampoline_site \<Rightarrow> u32 \<Rightarrow> bytes \<Rightarrow> bytes res" where
  "write_jump s displacement buf =
     (let offset = unat (ts_Offset s); buf = blit buf offset (replicate (ts_Length s) 0x90)
      in ByteWriter_WriteU32 (buf[offset := kJmpRel32 ! 0]) (unat (ts_Offset s + 1)) displacement)"

text \<open>The jump back behind the body's code and the jump to it.\<close>

definition link_stub :: "trampoline_site \<Rightarrow> nat \<Rightarrow> u64 \<Rightarrow> bytes \<Rightarrow> bytes res" where
  "link_stub s bodyOff bodyVaddr buf =
     (case (rel32_distance (ts_Address s + of_nat (ts_Length s))
              (bodyVaddr + of_nat (ts_ReturnBranchOffset s) + of_nat (length kJmpRel32)),
            rel32_distance bodyVaddr (ts_Address s + of_nat (length kJmpRel32))) of
        (Some returnDisplacement, Some jumpDisplacement) \<Rightarrow>
          bind_res (ByteWriter_WriteU32 buf (bodyOff + ts_ReturnBranchOffset s + 1) returnDisplacement)
            (write_jump s jumpDisplacement)
      | _ \<Rightarrow> Inl (RelinkerException ''AMD-only stub exceeds rel32 range'' (ts_Offset s)))"

definition append_body :: "(u64 \<Rightarrow> u64 res) \<Rightarrow> trampoline_site \<Rightarrow> bytes \<Rightarrow> bytes res" where
  "append_body vaddrOf s buf =
     (let buf = trap_fill buf; bodyOff = length buf
      in bind_res (vaddrOf (of_nat bodyOff)) (\<lambda>bodyVaddr.
           let buf = buf @ ts_Body s
           in bind_res (ApplyStubRelocations (subbytes buf bodyOff (ts_ReturnBranchOffset s)) (ts_Relocations s)
                          (ts_Address s) bodyVaddr (ts_Offset s))
                (\<lambda>code. link_stub s bodyOff bodyVaddr (blit buf bodyOff code))))"

definition appendTrampoline :: "u64 \<Rightarrow> (u64 \<Rightarrow> u64 res) \<Rightarrow> trampoline_site \<Rightarrow> bytes \<Rightarrow> bytes res" where
  "appendTrampoline extraBlockOffset vaddrOf s buf =
     (if \<not> valid_site s
      then Inl (RelinkerException ''Invalid AMD-only trampoline site'' (ts_Offset s))
      else if ts_Offset s > extraBlockOffset \<or> ts_Length s > unat (extraBlockOffset - ts_Offset s)
      then Inl (RelinkerException ''AMD-only instruction is outside the original image'' (ts_Offset s))
      else if ts_OriginalBytes s \<noteq> subbytes buf (unat (ts_Offset s)) (length (ts_OriginalBytes s))
      then Inl (RelinkerException ''AMD-only site bytes changed before patching'' (ts_Offset s))
      else append_body vaddrOf s buf)"

text \<open>The loop in \<open>Patch\<close>.\<close>

definition appendTrampolines :: "u64 \<Rightarrow> u64 \<Rightarrow> trampoline_site list \<Rightarrow> bytes \<Rightarrow> bytes res" where
  "appendTrampolines extraBlockOff extraBlockVaddr =
     fold_res (appendTrampoline extraBlockOff (vaddrOfExtraBlockOffset extraBlockOff extraBlockVaddr))"

subsection \<open>One site\<close>

lemma rel32_distance_Some:
  assumes "rel32_distance target base = Some d"
  shows "base + scast d = target"
proof -
  obtain w where w: "SignedDistance target base = Some w" "sint w \<ge> - 2147483648" "sint w \<le> 2147483647" "d = ucast w"
    using assms by (auto simp: rel32_distance_def split: option.splits if_splits)
  have "scast d = w" unfolding w(4) by (rule scast_ucast_small [OF w(2,3)])
  then show ?thesis using SignedDistance_Some(1) [OF w(1)] by simp
qed

definition jumps_to :: "bytes \<Rightarrow> nat \<Rightarrow> u64 \<Rightarrow> u64 \<Rightarrow> bool" where
  "jumps_to buf pos address target \<longleftrightarrow>
     pos + 5 \<le> length buf \<and> buf ! pos = 0xE9 \<and> address + 5 + scast (field32 buf (pos + 1)) = target"

text \<open>The site \<open>s\<close> with its body at the position \<open>p\<close>, which the address \<open>stub\<close> maps.\<close>

definition installed :: "bytes \<Rightarrow> trampoline_site \<Rightarrow> nat \<Rightarrow> u64 \<Rightarrow> bool" where
  "installed buf s p stub \<longleftrightarrow> p mod 16 = 0 \<and> p + length (ts_Body s) \<le> length buf \<and>
     jumps_to buf (unat (ts_Offset s)) (ts_Address s) stub \<and>
     subbytes buf (unat (ts_Offset s) + 5) (ts_Length s - 5) = replicate (ts_Length s - 5) 0x90 \<and>
     jumps_to buf (p + ts_ReturnBranchOffset s) (stub + of_nat (ts_ReturnBranchOffset s)) (ts_Address s + of_nat (ts_Length s)) \<and>
     ApplyStubRelocations (take (ts_ReturnBranchOffset s) (ts_Body s)) (ts_Relocations s) (ts_Address s) stub (ts_Offset s) =
       Inr (subbytes buf p (ts_ReturnBranchOffset s)) \<and>
     subbytes buf (p + ts_ReturnBranchOffset s + 5) (length (ts_Body s) - ts_ReturnBranchOffset s - 5) =
       drop (ts_ReturnBranchOffset s + 5) (ts_Body s)"

lemma ApplyStubRelocations_length: "ApplyStubRelocations body rs siteAddress stubAddress fo = Inr body' \<Longrightarrow> length body' = length body"
  by (auto simp: ApplyStubRelocations_result split: if_splits)

lemma valid_site_iff:
  "valid_site s \<longleftrightarrow> 5 \<le> ts_Length s \<and> length (ts_OriginalBytes s) = ts_Length s \<and>
     ts_ReturnBranchOffset s + 5 \<le> length (ts_Body s) \<and> ts_Body s ! ts_ReturnBranchOffset s = 0xE9"
  by (auto simp: valid_site_def)

lemma write_jump_result:
  assumes "5 \<le> ts_Length s" "unat (ts_Offset s) + ts_Length s \<le> length buf" "length buf < 2 ^ 64"
  shows "write_jump s d buf = Inr (blit buf (unat (ts_Offset s)) (0xE9 # le_bytes 4 d @ replicate (ts_Length s - 5) 0x90))"
proof -
  let ?o = "unat (ts_Offset s)" and ?n = "ts_Length s"
  have pos: "unat (ts_Offset s + 1) = ?o + 1" using unat_add_of_nat [of "ts_Offset s" 1] assms by simp
  let ?b = "(blit buf ?o (replicate ?n 0x90))[?o := 0xE9]"
  have len: "length ?b = length buf" using assms by (simp add: length_blit)
  have "blit ?b (?o + 1) (le_bytes 4 d) = blit buf ?o (0xE9 # le_bytes 4 d @ replicate (?n - 5) 0x90)"
  proof (rule nth_equalityI)
    show "length (blit ?b (?o + 1) (le_bytes 4 d)) = length (blit buf ?o (0xE9 # le_bytes 4 d @ replicate (?n - 5) 0x90))"
      using assms by (simp add: length_blit)
    fix i assume "i < length (blit ?b (?o + 1) (le_bytes 4 d))"
    then have i: "i < length buf" using assms by (simp add: length_blit)
    show "blit ?b (?o + 1) (le_bytes 4 d) ! i = blit buf ?o (0xE9 # le_bytes 4 d @ replicate (?n - 5) 0x90) ! i"
      using assms i by (auto simp: nth_blit length_blit nth_list_update nth_Cons' nth_append)
  qed
  then show ?thesis
    using assms pos len by (simp add: write_jump_def Let_def byte_access_defs memcpy_write_cell(1) del: One_nat_def)
qed

text \<open>The placed body: the relocated code, the jump back, and the constants behind it.\<close>

definition placed_body :: "trampoline_site \<Rightarrow> bytes \<Rightarrow> u32 \<Rightarrow> bytes" where
  "placed_body s code d = code @ 0xE9 # le_bytes 4 d @ drop (ts_ReturnBranchOffset s + 5) (ts_Body s)"

definition jump_bytes :: "trampoline_site \<Rightarrow> u32 \<Rightarrow> bytes" where
  "jump_bytes s d = 0xE9 # le_bytes 4 d @ replicate (ts_Length s - 5) 0x90"

definition block_vaddr :: "u64 \<Rightarrow> u64 \<Rightarrow> nat \<Rightarrow> u64" where
  "block_vaddr extraBlockOff extraBlockVaddr p = extraBlockVaddr + (of_nat p - extraBlockOff)"

lemma appendTrampoline_Inr:
  assumes run: "appendTrampoline extra (vaddrOfExtraBlockOffset extra vaddr) s buf = Inr buf'"
    and extra: "unat extra \<le> length buf"
  shows "\<exists>pad code ret jump. let p = length buf + length pad; stub = block_vaddr extra vaddr p in
    valid_site s \<and> unat (ts_Offset s) + ts_Length s \<le> unat extra \<and>
    ts_OriginalBytes s = subbytes buf (unat (ts_Offset s)) (ts_Length s) \<and> p mod 16 = 0 \<and> length pad < 16 \<and>
    ApplyStubRelocations (take (ts_ReturnBranchOffset s) (ts_Body s)) (ts_Relocations s) (ts_Address s) stub (ts_Offset s) = Inr code \<and>
    length code = ts_ReturnBranchOffset s \<and>
    rel32_distance (ts_Address s + of_nat (ts_Length s)) (stub + of_nat (ts_ReturnBranchOffset s) + 5) = Some ret \<and>
    rel32_distance stub (ts_Address s + 5) = Some jump \<and> length buf' = p + length (ts_Body s) \<and>
    (length buf' < 2 ^ 64 \<longrightarrow> buf' = blit (buf @ pad @ placed_body s code ret) (unat (ts_Offset s)) (jump_bytes s jump))"
proof -
  let ?o = "unat (ts_Offset s)" and ?ret = "ts_ReturnBranchOffset s"
  have guards: "valid_site s" "\<not> (ts_Offset s > extra \<or> ts_Length s > unat (extra - ts_Offset s))"
      "ts_OriginalBytes s = subbytes buf ?o (length (ts_OriginalBytes s))"
    and append: "append_body (vaddrOfExtraBlockOffset extra vaddr) s buf = Inr buf'"
    using run by (auto simp: appendTrampoline_def split: if_splits)
  obtain bodyVaddr code where addr: "vaddrOfExtraBlockOffset extra vaddr (of_nat (length (trap_fill buf))) = Inr bodyVaddr"
    and code: "ApplyStubRelocations (subbytes (trap_fill buf @ ts_Body s) (length (trap_fill buf)) ?ret) (ts_Relocations s)
      (ts_Address s) bodyVaddr (ts_Offset s) = Inr code"
    and link: "link_stub s (length (trap_fill buf)) bodyVaddr (blit (trap_fill buf @ ts_Body s) (length (trap_fill buf)) code) = Inr buf'"
    using append unfolding append_body_def Let_def bind_res_Inr_iff by blast
  have five: "(of_nat (length kJmpRel32) :: u64) = 5" by simp
  obtain ret jump where ret: "rel32_distance (ts_Address s + of_nat (ts_Length s)) (bodyVaddr + of_nat ?ret + 5) = Some ret"
    and jump: "rel32_distance bodyVaddr (ts_Address s + 5) = Some jump"
    and written: "bind_res (ByteWriter_WriteU32 (blit (trap_fill buf @ ts_Body s) (length (trap_fill buf)) code)
      (length (trap_fill buf) + ?ret + 1) ret) (write_jump s jump) = Inr buf'"
    using link unfolding link_stub_def five by (auto split: option.splits)
  obtain pad where pad: "trap_fill buf = buf @ pad" "length pad < 16" "length (trap_fill buf) mod 16 = 0"
    using trap_fill_aligned [of buf] by (elim exE conjE)
  let ?p = "length buf + length pad"
  have p: "length (trap_fill buf) = ?p" by (simp add: pad(1))
  have valid: "5 \<le> ts_Length s" "length (ts_OriginalBytes s) = ts_Length s" "?ret + 5 \<le> length (ts_Body s)"
      "ts_Body s ! ?ret = 0xE9"
    using guards(1) by (simp_all add: valid_site_iff)
  have le: "ts_Offset s \<le> extra" using guards(2) by (simp add: not_less)
  have stop: "?o + ts_Length s \<le> unat extra"
    using guards(2) unat_sub_le [OF le] le [unfolded word_le_nat_alt] by linarith
  have code': "ApplyStubRelocations (take ?ret (ts_Body s)) (ts_Relocations s) (ts_Address s) bodyVaddr (ts_Offset s) = Inr code"
    using code subbytes_append_right [of "trap_fill buf" "ts_Body s" 0 ?ret] by (simp add: subbytes_def)
  have len_code: "length code = ?ret" using ApplyStubRelocations_length [OF code'] valid(3) by simp
  have body: "blit (trap_fill buf @ ts_Body s) ?p code = buf @ pad @ code @ drop ?ret (ts_Body s)"
    by (simp add: blit_def pad(1) len_code)
  have "ByteWriter_WriteU32 (buf @ pad @ code @ drop ?ret (ts_Body s)) (?p + ?ret + 1) ret =
      Inr (blit (buf @ pad @ code @ drop ?ret (ts_Body s)) (?p + ?ret + 1) (le_bytes 4 ret))"
    unfolding byte_access_defs by (rule memcpy_write_cell(1)) (use valid(3) len_code in simp)
  moreover have "blit (buf @ pad @ code @ drop ?ret (ts_Body s)) (?p + ?ret + 1) (le_bytes 4 ret) = buf @ pad @ placed_body s code ret"
  proof -
    have "drop ?ret (ts_Body s) = 0xE9 # drop (?ret + 1) (ts_Body s)"
      using valid(3,4) Cons_nth_drop_Suc [of ?ret "ts_Body s"] by simp
    then show ?thesis by (simp add: blit_def placed_body_def len_code add.commute [of 5])
  qed
  ultimately have written': "write_jump s jump (buf @ pad @ placed_body s code ret) = Inr buf'"
    using written by (simp add: p body)
  have len: "length (buf @ pad @ placed_body s code ret) = ?p + length (ts_Body s)"
    using valid(3) by (simp add: placed_body_def len_code)
  have len': "length buf' = length (buf @ pad @ placed_body s code ret)"
    using written' stop extra len valid(1)
    by (auto simp: write_jump_def Let_def byte_access_defs memcpy_write_def length_blit split: if_splits)
  have "buf' = blit (buf @ pad @ placed_body s code ret) ?o (jump_bytes s jump)" if "length buf' < 2 ^ 64"
    using written' write_jump_result [OF valid(1) _ that [unfolded len'], of jump] stop extra len by (simp add: jump_bytes_def)
  moreover have "bodyVaddr = block_vaddr extra vaddr ?p"
    using addr by (simp add: vaddrOfExtraBlockOffset_def p block_vaddr_def split: if_splits)
  ultimately show ?thesis
    using guards(1,3) stop pad(2,3) code' len_code ret jump valid(2) p len len' unfolding Let_def
    by (intro exI [of _ pad] exI [of _ code] exI [of _ ret] exI [of _ jump]) simp
qed

lemma length_jump_bytes: "5 \<le> ts_Length s \<Longrightarrow> length (jump_bytes s d) = ts_Length s"
  by (simp add: jump_bytes_def)

lemma length_placed_body:
  "length code = ts_ReturnBranchOffset s \<Longrightarrow> ts_ReturnBranchOffset s + 5 \<le> length (ts_Body s) \<Longrightarrow>
   length (placed_body s code d) = length (ts_Body s)"
  by (simp add: placed_body_def)

lemma jumps_toI:
  assumes "subbytes buf pos 5 = 0xE9 # le_bytes 4 (d :: u32)" "pos + 5 \<le> length buf" "address + 5 + scast d = target"
  shows "jumps_to buf pos address target"
proof -
  have "buf ! pos = subbytes buf pos 5 ! 0" using assms(2) by (simp add: layout_simps)
  then have "buf ! pos = 0xE9" by (simp add: assms(1))
  moreover have "subbytes buf (pos + 1) 4 = subbytes (subbytes buf pos 5) 1 4" by (rule subbytes_sub) simp
  ultimately show ?thesis
    using assms by (simp add: jumps_to_def field32_def subbytes_def le_word_le_bytes)
qed

lemma append_installed:
  assumes run: "appendTrampoline extra (vaddrOfExtraBlockOffset extra vaddr) s buf = Inr buf'"
    and small: "length buf' < 2 ^ 64" and extra: "unat extra \<le> length buf"
  shows "\<exists>p. length buf \<le> p \<and> length buf' = p + length (ts_Body s) \<and> installed buf' s p (block_vaddr extra vaddr p) \<and>
    site_range s \<subseteq> {..<unat extra} \<and> (\<forall>x < length buf. x \<notin> site_range s \<longrightarrow> buf' ! x = buf ! x)"
proof -
  let ?o = "unat (ts_Offset s)" and ?n = "ts_Length s" and ?ret = "ts_ReturnBranchOffset s"
  obtain pad code ret jump where d: "valid_site s" "?o + ?n \<le> unat extra" "(length buf + length pad) mod 16 = 0"
    "ApplyStubRelocations (take ?ret (ts_Body s)) (ts_Relocations s) (ts_Address s) (block_vaddr extra vaddr (length buf + length pad))
       (ts_Offset s) = Inr code" "length code = ?ret"
    "rel32_distance (ts_Address s + of_nat ?n) (block_vaddr extra vaddr (length buf + length pad) + of_nat ?ret + 5) = Some ret"
    "rel32_distance (block_vaddr extra vaddr (length buf + length pad)) (ts_Address s + 5) = Some jump"
    "buf' = blit (buf @ pad @ placed_body s code ret) ?o (jump_bytes s jump)"
    using appendTrampoline_Inr [OF run extra] small unfolding Let_def by (elim exE conjE) (rule that, assumption+, erule mp, assumption)
  let ?p = "length buf + length pad" and ?body = "placed_body s code ret"
  have valid: "5 \<le> ?n" "?ret + 5 \<le> length (ts_Body s)" using d(1) by (simp_all add: valid_site_iff)
  have len_body: "length ?body = length (ts_Body s)" by (rule length_placed_body [OF d(5) valid(2)])
  have len_jump: "length (jump_bytes s jump) = ?n" by (rule length_jump_bytes [OF valid(1)])
  have inside: "?o + length (jump_bytes s jump) \<le> length (buf @ pad @ ?body)" using d(2) extra by (simp add: len_jump)
  have len: "length buf' = ?p + length (ts_Body s)" by (simp add: d(8) length_blit [OF inside] len_body)
  have at_site: "subbytes buf' ?o ?n = jump_bytes s jump"
    using subbytes_blit_same [OF inside] by (simp add: d(8) len_jump)
  have at_body: "subbytes buf' (?p + k) n = subbytes ?body k n" if "k + n \<le> length (ts_Body s)" for k n
  proof -
    have "subbytes buf' (?p + k) n = subbytes (buf @ pad @ ?body) (?p + k) n"
      unfolding d(8) by (rule subbytes_blit_other [OF inside]) (use that d(2) extra in \<open>simp_all add: len_body len_jump\<close>)
    also have "\<dots> = subbytes ?body k n" using subbytes_append_right [of "buf @ pad" ?body k n] by simp
    finally show ?thesis .
  qed
  have parts: "subbytes ?body 0 ?ret = code" "subbytes ?body ?ret 5 = 0xE9 # le_bytes 4 ret"
    "subbytes ?body (?ret + 5) (length (ts_Body s) - ?ret - 5) = drop (?ret + 5) (ts_Body s)"
    by (simp_all add: subbytes_def placed_body_def d(5))
  have "subbytes buf' ?o 5 = subbytes (jump_bytes s jump) 0 5" "subbytes buf' (?o + 5) (?n - 5) = subbytes (jump_bytes s jump) 5 (?n - 5)"
    using subbytes_sub [of 0 5 ?n buf' ?o] subbytes_sub [of 5 "?n - 5" ?n buf' ?o] valid(1)
    by (simp_all add: at_site)
  then have "subbytes buf' ?o 5 = 0xE9 # le_bytes 4 jump" "subbytes buf' (?o + 5) (?n - 5) = replicate (?n - 5) 0x90"
    using valid(1) by (simp_all add: subbytes_def jump_bytes_def)
  moreover have "ts_Address s + 5 + scast jump = block_vaddr extra vaddr ?p" by (rule rel32_distance_Some [OF d(7)])
  moreover have "block_vaddr extra vaddr ?p + of_nat ?ret + 5 + scast ret = ts_Address s + of_nat ?n"
    by (rule rel32_distance_Some [OF d(6)])
  moreover have "subbytes buf' (?p + ?ret) 5 = 0xE9 # le_bytes 4 ret" using at_body [of ?ret 5] valid(2) parts(2) by simp
  ultimately have "installed buf' s ?p (block_vaddr extra vaddr ?p)"
    unfolding installed_def
    using d(3,4) at_body [of 0 ?ret] at_body [of "?ret + 5" "length (ts_Body s) - ?ret - 5"] valid(2) parts(1,3) len d(2) extra valid(1)
    by (auto intro!: jumps_toI simp: add.assoc)
  moreover have "buf' ! x = buf ! x" if "x < length buf" "x \<notin> site_range s" for x
    using that by (auto simp: d(8) nth_blit [OF inside] len_jump site_range_def nth_append)
  ultimately show ?thesis
    using d(2) len by (intro exI [of _ ?p]) (auto simp: site_range_def)
qed

lemma append_length:
  assumes "appendTrampoline extra (vaddrOfExtraBlockOffset extra vaddr) s buf = Inr buf'" "unat extra \<le> length buf"
  shows "length buf \<le> length buf'" "valid_site s" "length buf' < length buf + 16 + length (ts_Body s)"
  using appendTrampoline_Inr [OF assms] unfolding Let_def by (elim exE conjE, simp)+

subsection \<open>All sites\<close>

lemma subbytes_grown:
  assumes "a + n \<le> length buf" "length buf \<le> length buf'" "\<And>x. a \<le> x \<Longrightarrow> x < a + n \<Longrightarrow> buf' ! x = buf ! x"
  shows "subbytes buf' a n = subbytes buf a n"
  using assms by (intro nth_equalityI) (auto simp: layout_simps)

lemma jumps_to_grown:
  assumes "jumps_to buf pos address target" "length buf \<le> length buf'" "\<And>x. pos \<le> x \<Longrightarrow> x < pos + 5 \<Longrightarrow> buf' ! x = buf ! x"
  shows "jumps_to buf' pos address target"
  using assms subbytes_grown [of "pos + 1" 4 buf buf'] by (simp add: jumps_to_def field32_def)

lemma installed_grown:
  assumes inst: "installed buf s p stub" and valid: "valid_site s" and grown: "length buf \<le> length buf'"
    and same: "\<And>x. x < length buf \<Longrightarrow> x \<notin> R \<Longrightarrow> buf' ! x = buf ! x"
    and R: "R \<inter> site_range s = {}" "R \<subseteq> {..<lower}" "lower \<le> p"
    and site: "unat (ts_Offset s) + ts_Length s \<le> length buf"
  shows "installed buf' s p stub"
proof -
  have v: "5 \<le> ts_Length s" "ts_ReturnBranchOffset s + 5 \<le> length (ts_Body s)" using valid by (simp_all add: valid_site_iff)
  have body: "buf' ! x = buf ! x" if "p \<le> x" "x < length buf" for x
    using that R(2,3) by (intro same) auto
  have at_site: "buf' ! x = buf ! x" if "unat (ts_Offset s) \<le> x" "x < unat (ts_Offset s) + ts_Length s" for x
  proof (rule same)
    have "x \<in> site_range s" using that by (simp add: site_range_def)
    then show "x \<notin> R" using R(1) by blast
    show "x < length buf" using that site by simp
  qed
  have stop: "p + length (ts_Body s) \<le> length buf" using inst by (simp add: installed_def)
  have "subbytes buf' p (ts_ReturnBranchOffset s) = subbytes buf p (ts_ReturnBranchOffset s)"
    by (rule subbytes_grown) (use stop v grown body in auto)
  moreover have "subbytes buf' (p + ts_ReturnBranchOffset s + 5) (length (ts_Body s) - ts_ReturnBranchOffset s - 5) =
      subbytes buf (p + ts_ReturnBranchOffset s + 5) (length (ts_Body s) - ts_ReturnBranchOffset s - 5)"
    by (rule subbytes_grown) (use stop v grown body in auto)
  moreover have "subbytes buf' (unat (ts_Offset s) + 5) (ts_Length s - 5) = subbytes buf (unat (ts_Offset s) + 5) (ts_Length s - 5)"
    by (rule subbytes_grown) (use site v grown at_site in auto)
  moreover have "jumps_to buf' (unat (ts_Offset s)) (ts_Address s) stub"
    by (rule jumps_to_grown [OF _ grown]) (use inst v at_site in \<open>auto simp: installed_def\<close>)
  moreover have "jumps_to buf' (p + ts_ReturnBranchOffset s) (stub + of_nat (ts_ReturnBranchOffset s)) (ts_Address s + of_nat (ts_Length s))"
    by (rule jumps_to_grown [OF _ grown]) (use inst v stop body in \<open>auto simp: installed_def\<close>)
  ultimately show ?thesis using inst grown by (simp add: installed_def)
qed

lemma appendTrampolines_installed:
  assumes "appendTrampolines extra vaddr sites buf = Inr buf'" "length buf' < 2 ^ 64" "unat extra \<le> length buf"
    and "sorted_wrt (\<lambda>s s'. site_range s \<inter> site_range s' = {}) sites"
  shows "\<exists>ps. list_all2 (\<lambda>s p. length buf \<le> p \<and> installed buf' s p (block_vaddr extra vaddr p)) sites ps \<and>
    sorted_wrt (\<lambda>(s, p) (s', p'). p + length (ts_Body s) \<le> p') (zip sites ps) \<and> length buf \<le> length buf' \<and>
    (\<forall>s \<in> set sites. site_range s \<subseteq> {..<unat extra}) \<and>
    (\<forall>x < length buf. x \<notin> (\<Union>s \<in> set sites. site_range s) \<longrightarrow> buf' ! x = buf ! x)"
  using assms
proof (induction sites arbitrary: buf)
  case Nil
  then show ?case by (simp add: appendTrampolines_def)
next
  case (Cons s sites)
  obtain buf1 where step: "appendTrampoline extra (vaddrOfExtraBlockOffset extra vaddr) s buf = Inr buf1"
      and rest: "appendTrampolines extra vaddr sites buf1 = Inr buf'"
    using Cons.prems(1) by (auto simp: appendTrampolines_def bind_res_Inr_iff)
  note grows1 = append_length [OF step Cons.prems(3)]
  obtain ps where ps: "list_all2 (\<lambda>s p. length buf1 \<le> p \<and> installed buf' s p (block_vaddr extra vaddr p)) sites ps"
      "sorted_wrt (\<lambda>(s, p) (s', p'). p + length (ts_Body s) \<le> p') (zip sites ps)" "length buf1 \<le> length buf'"
      "\<forall>s \<in> set sites. site_range s \<subseteq> {..<unat extra}"
      "\<forall>x < length buf1. x \<notin> (\<Union>s \<in> set sites. site_range s) \<longrightarrow> buf' ! x = buf1 ! x"
    using Cons.IH [OF rest Cons.prems(2)] Cons.prems(3,4) grows1 by auto
  obtain p where p: "length buf \<le> p" "length buf1 = p + length (ts_Body s)" "installed buf1 s p (block_vaddr extra vaddr p)"
      "site_range s \<subseteq> {..<unat extra}" "\<forall>x < length buf. x \<notin> site_range s \<longrightarrow> buf1 ! x = buf ! x"
    using append_installed [OF step _ Cons.prems(3)] ps(3) Cons.prems(2) by auto
  have valid: "5 \<le> ts_Length s" using grows1(2) by (simp add: valid_site_iff)
  have "installed buf' s p (block_vaddr extra vaddr p)"
  proof (rule installed_grown [OF p(3) grows1(2) ps(3), of "\<Union>s \<in> set sites. site_range s" "unat extra"])
    show "(\<Union>s \<in> set sites. site_range s) \<inter> site_range s = {}" using Cons.prems(4) by auto
    show "unat (ts_Offset s) + ts_Length s \<le> length buf1"
    proof -
      have "unat (ts_Offset s) + ts_Length s - 1 \<in> site_range s" using valid by (simp add: site_range_def)
      then show ?thesis using p(4) Cons.prems(3) grows1(1) by auto
    qed
  qed (use ps(4,5) p(1) Cons.prems(3) in auto)
  moreover have "list_all2 (\<lambda>s p. length buf \<le> p \<and> installed buf' s p (block_vaddr extra vaddr p)) sites ps"
    using ps(1) grows1(1) by (auto elim!: list_all2_mono)
  moreover have "p + length (ts_Body s) \<le> p'" if "(s', p') \<in> set (zip sites ps)" for s' p'
    using that ps(1) p(2) by (auto simp: list_all2_conv_all_nth set_zip)
  moreover have "buf' ! x = buf ! x" if "x < length buf" "x \<notin> (\<Union>s \<in> set (s # sites). site_range s)" for x
    using that ps(5) p(5) grows1(1) by auto
  ultimately show ?case
    using ps(2,3,4) p(1,4) grows1(1) by (intro exI [of _ "p # ps"]) auto
qed

subsection \<open>Bodies that a builder made\<close>

text \<open>The relocations of a finished builder lie in its code, so applying them to the code alone is enough.\<close>

lemma write_value_append: "pos + 4 \<le> length a \<Longrightarrow> write_value (a @ b) pos v = write_value a pos v @ b"
  by (simp add: write_value_blit blit_def)

lemma write_fields_append:
  "(\<And>x. x \<in> set xs \<Longrightarrow> p x + 4 \<le> length a) \<Longrightarrow> write_fields p v xs (a @ b) = write_fields p v xs a @ b"
  by (induction xs arbitrary: a) (simp_all add: write_value_append)

lemma reloc_inside_code:
  assumes "builds empty_builder b" "r \<in> set (sb_relocations b)" "length code = length (sb_bytes b)"
  shows "reloc_inside code r"
proof -
  have "in_code 0 (length (sb_bytes b)) r" using grows_empty(1) [OF builds_grows [OF assms(1)]] assms(2) by blast
  then show ?thesis using assms(3) by (auto simp: in_code_def reloc_inside_def)
qed

lemma built_bodyE:
  assumes "built_body body n relocations"
  obtains b where "builds empty_builder b" "body = lb_Bytes (Finish b)" "n = length (sb_bytes b)" "relocations = sb_relocations b"
    "n + 5 \<le> length body" "body ! n = 0xE9"
proof -
  obtain b where b: "builds empty_builder b" "body = lb_Bytes (Finish b)" "n = length (sb_bytes b)" "relocations = sb_relocations b"
    using assms unfolding built_body_def by blast
  note g = grows_empty [OF builds_grows [OF b(1)]]
  have "\<forall>f \<in> set (sb_fixups b). fx_DisplacementOffset f + 4 \<le> length (sb_bytes b)"
    using g(2) by (auto simp: fixup_in_code_def)
  then have "n + 5 \<le> length body" "body ! n = (sb_bytes b @ kJmpRel32) ! n"
    using Finish_layout [OF b(1)] b(2,3) by auto
  then show thesis using that [OF b] b(3) by simp
qed

lemma ApplyStubRelocations_code:
  assumes "builds empty_builder b" "n = length (sb_bytes b)" "n + 5 \<le> length (lb_Bytes (Finish b))"
  shows "ApplyStubRelocations (take n (lb_Bytes (Finish b))) (sb_relocations b) address stub fo =
    (if \<forall>r \<in> set (sb_relocations b). reloc_reachable address stub r
     then Inr (take n (write_fields sr_DisplacementOffset (\<lambda>r. ucast (reloc_displacement address stub r)) (sb_relocations b)
       (lb_Bytes (Finish b))))
     else Inl (CodegenException ''RIP-relative operand is out of rel32 range from its stub'' fo))"
proof -
  let ?body = "lb_Bytes (Finish b)"
  have inside: "reloc_inside (take n ?body) r" if "r \<in> set (sb_relocations b)" for r
    by (rule reloc_inside_code [OF assms(1) that]) (use assms(2,3) in simp)
  have fields: "sr_DisplacementOffset r + 4 \<le> length (take n ?body)" if "r \<in> set (sb_relocations b)" for r
    using inside [OF that] by (simp add: reloc_inside_def)
  let ?ok = "\<lambda>r. reloc_inside (take n ?body) r \<and> reloc_reachable address stub r"
  have "reloc_inside (take n ?body) (hd (dropWhile ?ok (sb_relocations b)))" if "\<not> (\<forall>r \<in> set (sb_relocations b). ?ok r)"
  proof -
    have "dropWhile ?ok (sb_relocations b) \<noteq> []" using that by (simp add: dropWhile_eq_Nil_conv)
    then have "hd (dropWhile ?ok (sb_relocations b)) \<in> set (sb_relocations b)"
      using hd_in_set set_dropWhileD by metis
    then show ?thesis by (rule inside)
  qed
  moreover have "take n (write_fields sr_DisplacementOffset v (sb_relocations b) ?body) =
      write_fields sr_DisplacementOffset v (sb_relocations b) (take n ?body)" for v
    using write_fields_append [of "sb_relocations b" sr_DisplacementOffset "take n ?body" v "drop n ?body"] fields assms(3) by simp
  ultimately show ?thesis
    unfolding ApplyStubRelocations_result using inside by (auto simp del: if_split split: if_split)
qed

text \<open>
  A stub that runs, in terms of the site's own body, relocations and offsets: the jump in the site leads to the body, with
  no-operations behind it; every relocated operand of the body addresses the place it names from the site; every other byte of
  the body is as the converter made it, but for the displacement of the jump back, and that jump leads behind the site.
\<close>

definition reloc_field :: "trampoline_site \<Rightarrow> nat \<Rightarrow> bool" where
  "reloc_field s i \<longleftrightarrow> (\<exists>r \<in> set (ts_Relocations s). sr_DisplacementOffset r \<le> i \<and> i < sr_DisplacementOffset r + 4)"

definition runs_through :: "bytes \<Rightarrow> trampoline_site \<Rightarrow> nat \<Rightarrow> u64 \<Rightarrow> bool" where
  "runs_through buf s p stub \<longleftrightarrow> p mod 16 = 0 \<and> p + length (ts_Body s) \<le> length buf \<and>
     jumps_to buf (unat (ts_Offset s)) (ts_Address s) stub \<and>
     subbytes buf (unat (ts_Offset s) + 5) (ts_Length s - 5) = replicate (ts_Length s - 5) 0x90 \<and>
     (\<forall>r \<in> set (ts_Relocations s). sr_DisplacementOffset r + 4 \<le> ts_ReturnBranchOffset s \<and>
        reloc_addresses (ts_Address s) stub (subbytes buf p (length (ts_Body s))) r) \<and>
     (\<forall>i < length (ts_Body s). \<not> reloc_field s i \<longrightarrow> i \<le> ts_ReturnBranchOffset s \<or> ts_ReturnBranchOffset s + 5 \<le> i \<longrightarrow>
        buf ! (p + i) = ts_Body s ! i) \<and>
     jumps_to buf (p + ts_ReturnBranchOffset s) (stub + of_nat (ts_ReturnBranchOffset s)) (ts_Address s + of_nat (ts_Length s))"

lemma reloc_addresses_cong:
  "field32 a (sr_DisplacementOffset r) = field32 b (sr_DisplacementOffset r) \<Longrightarrow>
   reloc_addresses siteAddress stubAddress a r \<longleftrightarrow> reloc_addresses siteAddress stubAddress b r"
  by (simp add: reloc_addresses_def)

lemma installed_runs:
  assumes inst: "installed buf s p stub" and built: "built_site s"
  shows "runs_through buf s p stub"
proof -
  obtain b where b: "builds empty_builder b" "ts_Body s = lb_Bytes (Finish b)" "ts_ReturnBranchOffset s = length (sb_bytes b)"
      "ts_Relocations s = sb_relocations b" "ts_ReturnBranchOffset s + 5 \<le> length (ts_Body s)"
      "ts_Body s ! ts_ReturnBranchOffset s = 0xE9"
    using built_bodyE [OF built [unfolded built_site_def]] by metis
  let ?n = "ts_ReturnBranchOffset s" and ?rs = "ts_Relocations s"
  define body where "body = write_fields sr_DisplacementOffset (\<lambda>r. ucast (reloc_displacement (ts_Address s) stub r)) ?rs (ts_Body s)"
  note g = grows_empty [OF builds_grows [OF b(1)], folded b(4)]
  have reach: "\<forall>r \<in> set ?rs. reloc_reachable (ts_Address s) stub r" and code: "subbytes buf p ?n = take ?n body"
    using inst ApplyStubRelocations_code [OF b(1) refl, of "ts_Address s" stub "ts_Offset s"] b
    by (auto simp: installed_def body_def split: if_splits)
  have stop: "p + length (ts_Body s) \<le> length buf" and len: "length body = length (ts_Body s)"
    using inst by (simp_all add: body_def installed_def)
  have inside: "sr_DisplacementOffset r + 4 \<le> ?n" if "r \<in> set ?rs" for r
    using relocations_inside(2) [OF b(1)] that by (simp add: b(3,4))
  have below: "buf ! (p + i) = body ! i" if "i < ?n" for i
  proof -
    have "buf ! (p + i) = subbytes buf p ?n ! i" using that stop b(5) by (simp add: layout_simps)
    then show ?thesis using that by (simp add: code)
  qed
  have relocs: "reloc_addresses (ts_Address s) stub (subbytes buf p (length (ts_Body s))) r" if r: "r \<in> set ?rs" for r
  proof -
    have "field32 body (sr_DisplacementOffset r) = ucast (reloc_displacement (ts_Address s) stub r)"
      unfolding body_def by (rule write_fields_read [OF g(3) _ r]) (use inside b(5) in fastforce)
    then have "reloc_addresses (ts_Address s) stub body r" using reach r by (intro reloc_addresses_write) blast+
    moreover have "field32 (subbytes buf p (length (ts_Body s))) (sr_DisplacementOffset r) = field32 body (sr_DisplacementOffset r)"
      by (rule field32_cong) (use inside [OF r] below stop b(5) len in \<open>auto simp: layout_simps\<close>)
    ultimately show ?thesis using reloc_addresses_cong by blast
  qed
  have same: "buf ! (p + i) = ts_Body s ! i" if i: "i < length (ts_Body s)" "\<not> reloc_field s i" "i \<le> ?n \<or> ?n + 5 \<le> i" for i
  proof -
    consider "i < ?n" | "i = ?n" | "?n + 5 \<le> i" using i(3) by linarith
    then show ?thesis
    proof cases
      case 1
      have "body ! i = ts_Body s ! i"
        unfolding body_def by (rule write_fields_other) (use i(2) in \<open>force simp: reloc_field_def\<close>)
      then show ?thesis using below [OF 1] by simp
    next
      case 2
      then show ?thesis using inst b(6) by (simp add: installed_def jumps_to_def)
    next
      case 3
      have "subbytes buf (p + ?n + 5) (length (ts_Body s) - ?n - 5) ! (i - (?n + 5)) = drop (?n + 5) (ts_Body s) ! (i - (?n + 5))"
        using inst by (simp add: installed_def)
      then show ?thesis using 3 i(1) stop b(5) by (simp add: layout_simps)
    qed
  qed
  show ?thesis
    unfolding runs_through_def using inst inside relocs same by (simp add: installed_def)
qed

subsection \<open>The errors\<close>

definition reach_error :: "trampoline_site \<Rightarrow> exn \<Rightarrow> bool" where
  "reach_error s e \<longleftrightarrow> e = CodegenException ''RIP-relative operand is out of rel32 range from its stub'' (ts_Offset s) \<or>
     e = RelinkerException ''AMD-only stub exceeds rel32 range'' (ts_Offset s)"

definition site_ready :: "bytes \<Rightarrow> u64 \<Rightarrow> trampoline_site \<Rightarrow> bool" where
  "site_ready buf extra s \<longleftrightarrow> built_site s \<and> 5 \<le> ts_Length s \<and> unat (ts_Offset s) + ts_Length s \<le> unat extra \<and>
     length (ts_OriginalBytes s) = ts_Length s \<and> subbytes buf (unat (ts_Offset s)) (ts_Length s) = ts_OriginalBytes s"

lemma length_trap_fill: "length buf \<le> length (trap_fill buf)" "length (trap_fill buf) < length buf + 16"
  using trap_fill_aligned [of buf] by (elim exE conjE, simp)+

lemma append_fails:
  assumes fail: "appendTrampoline extra (vaddrOfExtraBlockOffset extra vaddr) s buf = Inl e"
    and ready: "site_ready buf extra s" and extra: "unat extra \<le> length buf" and room: "length buf + 16 + length (ts_Body s) < 2 ^ 64"
  shows "reach_error s e"
proof -
  let ?ret = "ts_ReturnBranchOffset s" and ?buf = "trap_fill buf" and ?o = "unat (ts_Offset s)"
  have ready': "built_site s" "5 \<le> ts_Length s" "?o + ts_Length s \<le> unat extra" "length (ts_OriginalBytes s) = ts_Length s"
      "subbytes buf ?o (ts_Length s) = ts_OriginalBytes s"
    using ready by (simp_all add: site_ready_def)
  obtain b where b: "builds empty_builder b" "ts_Body s = lb_Bytes (Finish b)" "?ret = length (sb_bytes b)"
      "ts_Relocations s = sb_relocations b" "?ret + 5 \<le> length (ts_Body s)" "ts_Body s ! ?ret = 0xE9"
    using built_bodyE [OF ready'(1) [unfolded built_site_def]] by metis
  have valid: "valid_site s" using ready'(2,4) b(5,6) by (simp add: valid_site_iff)
  have le: "ts_Offset s \<le> extra" using ready'(3) by (simp add: word_le_nat_alt)
  have "\<not> (ts_Offset s > extra \<or> ts_Length s > unat (extra - ts_Offset s))"
    using le unat_sub_le [OF le] ready'(3) by (simp add: not_less)
  then have append: "append_body (vaddrOfExtraBlockOffset extra vaddr) s buf = Inl e"
    using fail valid ready'(4,5) by (simp add: appendTrampoline_def)
  have small: "length ?buf < 2 ^ 64" using length_trap_fill(2) [of buf] room by simp
  then have "extra \<le> of_nat (length ?buf)"
    using length_trap_fill(1) [of buf] extra by (simp add: word_le_nat_alt unat_of_nat_small)
  then have addr: "vaddrOfExtraBlockOffset extra vaddr (of_nat (length ?buf)) = Inr (block_vaddr extra vaddr (length ?buf))"
    by (simp add: vaddrOfExtraBlockOffset_def block_vaddr_def not_less)
  let ?stub = "block_vaddr extra vaddr (length ?buf)"
  have code: "subbytes (?buf @ ts_Body s) (length ?buf) ?ret = take ?ret (lb_Bytes (Finish b))"
    using subbytes_append_right [of ?buf "ts_Body s" 0 ?ret] by (simp add: subbytes_def b(2))
  show ?thesis
  proof (cases "\<forall>r \<in> set (sb_relocations b). reloc_reachable (ts_Address s) ?stub r")
    case False
    have "ApplyStubRelocations (take ?ret (lb_Bytes (Finish b))) (sb_relocations b) (ts_Address s) ?stub (ts_Offset s) =
        Inl (CodegenException ''RIP-relative operand is out of rel32 range from its stub'' (ts_Offset s))"
      by (subst ApplyStubRelocations_code [OF b(1) b(3)]) (use False b(2,5) in simp_all)
    then show ?thesis
      using append addr code b(4) by (simp add: append_body_def Let_def reach_error_def)
  next
    case True
    define final where "final = take ?ret (write_fields sr_DisplacementOffset (\<lambda>r. ucast (reloc_displacement (ts_Address s) ?stub r))
      (sb_relocations b) (lb_Bytes (Finish b)))"
    have link: "link_stub s (length ?buf) ?stub (blit (?buf @ ts_Body s) (length ?buf) final) = Inl e"
    proof -
      have "ApplyStubRelocations (take ?ret (lb_Bytes (Finish b))) (sb_relocations b) (ts_Address s) ?stub (ts_Offset s) = Inr final"
        unfolding final_def by (subst ApplyStubRelocations_code [OF b(1) b(3)]) (use True b(2,5) in simp_all)
      then show ?thesis using append addr code b(4) by (simp add: append_body_def Let_def)
    qed
    have len: "length (blit (?buf @ ts_Body s) (length ?buf) final) = length ?buf + length (ts_Body s)"
      using b(2,5) by (simp add: length_blit final_def)
    have stop: "length ?buf + ?ret + 1 + 4 \<le> length (blit (?buf @ ts_Body s) (length ?buf) final)" using b(5) len by simp
    let ?buf' = "\<lambda>d. blit (blit (?buf @ ts_Body s) (length ?buf) final) (length ?buf + ?ret + 1) (le_bytes 4 d)"
    have written: "ByteWriter_WriteU32 (blit (?buf @ ts_Body s) (length ?buf) final) (length ?buf + ?ret + 1) d = Inr (?buf' d)" for d
      unfolding byte_access_defs by (rule memcpy_write_cell(1) [OF stop])
    have len': "length (?buf' d) = length ?buf + length (ts_Body s)" for d using stop len by (simp add: length_blit)
    have "write_jump s d' (?buf' d) \<noteq> Inl e" for d d'
    proof -
      have "length (?buf' d) < 2 ^ 64" using len' [of d] room length_trap_fill(2) [of buf] by simp
      moreover have "?o + ts_Length s \<le> length (?buf' d)"
        using len' [of d] ready'(3) extra length_trap_fill(1) [of buf] by simp
      ultimately show ?thesis using write_jump_result [OF ready'(2)] by simp
    qed
    then show ?thesis
      using link written by (auto simp: link_stub_def reach_error_def split: option.splits)
  qed
qed

lemma appendTrampolines_fails:
  assumes "appendTrampolines extra vaddr sites buf = Inl e" "\<forall>s \<in> set sites. site_ready buf extra s" "unat extra \<le> length buf"
    and "length buf + (\<Sum>s \<leftarrow> sites. 16 + length (ts_Body s)) < 2 ^ 64"
    and "sorted_wrt (\<lambda>s s'. site_range s \<inter> site_range s' = {}) sites"
  shows "\<exists>s \<in> set sites. reach_error s e"
  using assms
proof (induction sites arbitrary: buf)
  case Nil
  then show ?case by (simp add: appendTrampolines_def)
next
  case (Cons s sites)
  show ?case
  proof (cases "appendTrampoline extra (vaddrOfExtraBlockOffset extra vaddr) s buf")
    case (Inl e')
    then have "e' = e" using Cons.prems(1) by (simp add: appendTrampolines_def)
    then show ?thesis using append_fails [OF Inl _ Cons.prems(3)] Cons.prems(2,4) by auto
  next
    case (Inr buf1)
    have rest: "appendTrampolines extra vaddr sites buf1 = Inl e" using Cons.prems(1) Inr by (simp add: appendTrampolines_def)
    note pad = append_length [OF Inr Cons.prems(3)]
    have small: "length buf1 < 2 ^ 64" using pad(3) Cons.prems(4) by simp
    obtain p where p: "\<forall>x < length buf. x \<notin> site_range s \<longrightarrow> buf1 ! x = buf ! x"
      using append_installed [OF Inr small Cons.prems(3)] by blast
    have "site_ready buf1 extra s'" if s': "s' \<in> set sites" for s'
    proof -
      have ready: "site_ready buf extra s'" using Cons.prems(2) s' by simp
      have "subbytes buf1 (unat (ts_Offset s')) (ts_Length s') = subbytes buf (unat (ts_Offset s')) (ts_Length s')"
      proof (rule subbytes_grown)
        fix x assume x: "unat (ts_Offset s') \<le> x" "x < unat (ts_Offset s') + ts_Length s'"
        have "site_range s \<inter> site_range s' = {}" using Cons.prems(5) s' by simp
        moreover have "x \<in> site_range s'" using x by (simp add: site_range_def)
        ultimately have "x \<notin> site_range s" by blast
        then show "buf1 ! x = buf ! x" using p x ready Cons.prems(3) by (simp add: site_ready_def)
      qed (use ready Cons.prems(3) pad in \<open>simp_all add: site_ready_def\<close>)
      then show ?thesis using ready by (simp add: site_ready_def)
    qed
    then have "\<exists>s \<in> set sites. reach_error s e"
      using Cons.IH [OF rest] Cons.prems(3,4,5) pad by simp
    then show ?thesis by simp
  qed
qed

subsection \<open>Properties\<close>

lemma list_all2_runs:
  assumes "list_all2 (\<lambda>s p. n \<le> p \<and> installed buf s p (f p)) sites ps" "\<forall>s \<in> set sites. built_site s"
  shows "list_all2 (\<lambda>s p. n \<le> p \<and> runs_through buf s p (f p)) sites ps"
  using assms by (auto simp: list_all2_conv_all_nth intro: installed_runs)

text \<open>
  C1: The patched code runs through its stubs: when the stubs of a conversion are appended, every site jumps to
  a body of its own behind the old contents of the buffer; in the body every relocated operand addresses the place
  that the site's relocation names, every other byte but the displacement of the last jump is that of the site's body, and this
  jump leads behind the site. Outside the sites the old contents stay. The executable segments are disjoint and inside the address space.
\<close>

theorem patched_stubs_run:
  assumes "Convert target fileBytes segments = Inr r" "length fileBytes < 2 ^ 64"
    and "\<forall>ph \<in> set segments. executable ph \<longrightarrow> unat (ph_MappedAddress ph) + unat (ph_FileSize ph) + 5 < 2 ^ 64"
    and "sorted_wrt (\<lambda>ph ph'. segment_range ph \<inter> segment_range ph' = {}) (filter executable segments)"
    and "appendTrampolines extra vaddr (cr_Trampolines r) buf = Inr buf'" "unat extra \<le> length buf" "length buf' < 2 ^ 64"
  shows "\<exists>ps. list_all2 (\<lambda>s p. length buf \<le> p \<and> runs_through buf' s p (block_vaddr extra vaddr p)) (cr_Trampolines r) ps \<and>
    sorted_wrt (\<lambda>(s, p) (s', p'). p + length (ts_Body s) \<le> p') (zip (cr_Trampolines r) ps) \<and>
    (\<forall>x < length buf. (\<forall>s \<in> set (cr_Trampolines r). x \<notin> site_range s) \<longrightarrow> buf' ! x = buf ! x)"
proof -
  obtain result where steps: "fold_res (convert_step target segments) segments (fileBytes, empty_result) = Inr (cr_Bytes r, result)"
      "cr_Trampolines r = cr_Trampolines result"
    using Convert_Inr [OF assms(1)] by blast
  have sites: "sorted_wrt (\<lambda>s s'. site_range s \<inter> site_range s' = {}) (cr_Trampolines r)"
    using convert_steps_sites [OF steps(1) assms(2-4)] steps(2) by simp
  obtain ps where ps: "list_all2 (\<lambda>s p. length buf \<le> p \<and> installed buf' s p (block_vaddr extra vaddr p)) (cr_Trampolines r) ps"
      "sorted_wrt (\<lambda>(s, p) (s', p'). p + length (ts_Body s) \<le> p') (zip (cr_Trampolines r) ps)"
      "\<forall>x < length buf. x \<notin> (\<Union>s \<in> set (cr_Trampolines r). site_range s) \<longrightarrow> buf' ! x = buf ! x"
    using appendTrampolines_installed [OF assms(5,7,6) sites] by blast
  have "list_all2 (\<lambda>s p. length buf \<le> p \<and> runs_through buf' s p (block_vaddr extra vaddr p)) (cr_Trampolines r) ps"
    using list_all2_runs [OF ps(1)] Convert_built [OF assms(1,3)] by blast
  then show ?thesis using ps(2,3) by blast
qed

text \<open>
  C9: Appending the stubs of a conversion fails only for reach: if the buffer begins with the converted file, apart from
  bytes outside the sites, no site is rejected as invalid, as lying outside the image or as changed, and no relocation as lying
  outside its stub; what is left is an operand or a jump that a signed 32-bit displacement does not reach.
\<close>

theorem patch_fails_only_for_reach:
  assumes "Convert target fileBytes segments = Inr r" "length fileBytes < 2 ^ 64"
    and "\<forall>ph \<in> set segments. executable ph \<longrightarrow> unat (ph_MappedAddress ph) + unat (ph_FileSize ph) + 5 < 2 ^ 64"
    and "sorted_wrt (\<lambda>ph ph'. segment_range ph \<inter> segment_range ph' = {}) (filter executable segments)"
    and "\<forall>s \<in> set (cr_Trampolines r). \<forall>x \<in> site_range s. buf ! x = cr_Bytes r ! x"
    and "unat extra = length (cr_Bytes r)" "length (cr_Bytes r) \<le> length buf"
    and "length buf + (\<Sum>s \<leftarrow> cr_Trampolines r. 16 + length (ts_Body s)) < 2 ^ 64"
    and "appendTrampolines extra vaddr (cr_Trampolines r) buf = Inl e"
  shows "\<exists>s \<in> set (cr_Trampolines r). reach_error s e"
proof -
  obtain result where steps: "fold_res (convert_step target segments) segments (fileBytes, empty_result) = Inr (cr_Bytes r, result)"
      "cr_Trampolines r = cr_Trampolines result"
    using Convert_Inr [OF assms(1)] by blast
  have len: "length (cr_Bytes r) = length fileBytes" using convert_steps_frame [OF steps(1)] by simp
  have sites: "sorted_wrt (\<lambda>s s'. site_range s \<inter> site_range s' = {}) (cr_Trampolines r)"
      "\<And>s. s \<in> set (cr_Trampolines r) \<Longrightarrow> site_kept fileBytes (cr_Bytes r) s"
    using convert_steps_sites [OF steps(1) assms(2-4)] steps(2) by simp_all
  have "site_ready buf extra s" if s: "s \<in> set (cr_Trampolines r)" for s
  proof -
    have kept: "5 \<le> ts_Length s" "unat (ts_Offset s) + ts_Length s \<le> length (cr_Bytes r)"
        "subbytes (cr_Bytes r) (unat (ts_Offset s)) (ts_Length s) = ts_OriginalBytes s"
      using sites(2) [OF s] len by (simp_all add: site_kept_def)
    have "subbytes buf (unat (ts_Offset s)) (ts_Length s) = subbytes (cr_Bytes r) (unat (ts_Offset s)) (ts_Length s)"
      by (rule subbytes_grown) (use kept(2) assms(5,7) s in \<open>auto simp: site_range_def\<close>)
    moreover have "length (ts_OriginalBytes s) = ts_Length s" using kept(2) by (simp add: kept(3) [symmetric] layout_simps)
    ultimately show ?thesis using kept Convert_built [OF assms(1,3)] s assms(6) by (simp add: site_ready_def)
  qed
  then show ?thesis
    using appendTrampolines_fails [OF assms(9) _ _ assms(8) sites(1)] assms(6,7) by simp
qed

subsection \<open>A concrete patch\<close>

text \<open>The instruction that the jump overwrites behind the \<open>extrq\<close> loads relative to \<open>rip\<close>, so that the site has a relocation.\<close>

definition sample_patch_file :: bytes where
  "sample_patch_file = [0, 0x66, 0x0F, 0x79, 0xC1, 0x8B, 0x05, 0x10, 0, 0, 0, 0xEB, 0xF4]"

definition sample_patch_segment :: program_header where
  "sample_patch_segment = \<lparr>ph_Type = 1, ph_Flags = 5, ph_Offset = 1, ph_MappedAddress = 0x1000, ph_PhysicalAddress = 0x1000,
     ph_FileSize = 12, ph_MemorySize = 12, ph_Alignment = 1\<rparr>"

lemma sample_patched:
  "\<exists>r s buf e. Convert Intel sample_patch_file [sample_patch_segment] = Inr r \<and> cr_Trampolines r = [s] \<and> length (cr_Bytes r) = 13 \<and>
     length (ts_Relocations s) = 1 \<and>
     appendTrampolines 13 0x2000 (cr_Trampolines r) (cr_Bytes r) = Inr buf \<and> length buf < 1000 \<and> length (ts_Body s) < 1000 \<and>
     appendTrampolines 13 0x200000000 (cr_Trampolines r) (cr_Bytes r) = Inl e"
proof -
  have "case Convert Intel sample_patch_file [sample_patch_segment] of Inl _ \<Rightarrow> False | Inr r \<Rightarrow>
    length (cr_Bytes r) = 13 \<and> list_all (\<lambda>s. length (ts_Body s) < 1000 \<and> length (ts_Relocations s) = 1) (cr_Trampolines r) \<and>
    length (cr_Trampolines r) = 1 \<and>
    (case appendTrampolines 13 0x2000 (cr_Trampolines r) (cr_Bytes r) of Inl _ \<Rightarrow> False | Inr buf \<Rightarrow> length buf < 1000) \<and>
    (case appendTrampolines 13 0x200000000 (cr_Trampolines r) (cr_Bytes r) of Inl _ \<Rightarrow> True | Inr buf \<Rightarrow> False)"
    unfolding Convert_def convertSegment_def scan_quiet by code_simp
  then show ?thesis by (auto split: sum.splits simp: length_Suc_conv)
qed

lemma patched_stubs_run_witness:
  "\<exists>r s buf p. Convert Intel sample_patch_file [sample_patch_segment] = Inr r \<and> cr_Trampolines r = [s] \<and> length (ts_Relocations s) = 1 \<and>
     appendTrampolines 13 0x2000 (cr_Trampolines r) (cr_Bytes r) = Inr buf \<and> runs_through buf s p (block_vaddr 13 0x2000 p)"
proof -
  obtain r s buf where r: "Convert Intel sample_patch_file [sample_patch_segment] = Inr r" "cr_Trampolines r = [s]" "length (cr_Bytes r) = 13"
      "appendTrampolines 13 0x2000 (cr_Trampolines r) (cr_Bytes r) = Inr buf" "length buf < 1000" "length (ts_Relocations s) = 1"
    using sample_patched by blast
  have "\<exists>ps. list_all2 (\<lambda>s p. length (cr_Bytes r) \<le> p \<and> runs_through buf s p (block_vaddr 13 0x2000 p)) (cr_Trampolines r) ps \<and>
    sorted_wrt (\<lambda>(s, p) (s', p'). p + length (ts_Body s) \<le> p') (zip (cr_Trampolines r) ps) \<and>
    (\<forall>x < length (cr_Bytes r). (\<forall>s \<in> set (cr_Trampolines r). x \<notin> site_range s) \<longrightarrow> buf ! x = cr_Bytes r ! x)"
    by (rule patched_stubs_run [OF r(1) _ _ _ r(4)])
      (use r(3,5) in \<open>simp_all add: sample_patch_file_def sample_patch_segment_def\<close>)
  then obtain p where "runs_through buf s p (block_vaddr 13 0x2000 p)" using r(2) by (auto simp: list_all2_Cons1)
  then show ?thesis using r by blast
qed

lemma patch_fails_only_for_reach_witness:
  "\<exists>r s e. Convert Intel sample_patch_file [sample_patch_segment] = Inr r \<and> cr_Trampolines r = [s] \<and>
     appendTrampolines 13 0x200000000 (cr_Trampolines r) (cr_Bytes r) = Inl e \<and> reach_error s e"
proof -
  obtain r s e where r: "Convert Intel sample_patch_file [sample_patch_segment] = Inr r" "cr_Trampolines r = [s]" "length (cr_Bytes r) = 13"
      "length (ts_Body s) < 1000" "appendTrampolines 13 0x200000000 (cr_Trampolines r) (cr_Bytes r) = Inl e"
    using sample_patched by blast
  have "\<exists>s \<in> set (cr_Trampolines r). reach_error s e"
    by (rule patch_fails_only_for_reach [OF r(1) _ _ _ _ _ _ _ r(5)])
      (use r(2,3,4) in \<open>simp_all add: sample_patch_file_def sample_patch_segment_def\<close>)
  then show ?thesis using r by auto
qed

end
