(* ===== verification/Linux_Rebase.thy ===== *)
theory Linux_Rebase
  imports Elf_Types
begin

text \<open>
  The checks on the dynamic tables and the fixed base of the Linux file (\<open>elfpatcher/src/linux/LinuxElfPatcher.cpp\<close>):
  with a fixed base, \<open>Patch\<close> adds it to the symbols, the relocations and the program headers and writes a file of
  type \<open>ET_EXEC\<close>. The definition of the loader's actions follows the processor supplement of the ABI; the results
  say that the loader does with the rebased tables what it does with the original ones at that base.
\<close>

abbreviation (input) kLinuxUserAddressEnd :: u64 where "kLinuxUserAddressEnd \<equiv> 0x800000000000"

subsection \<open>Checks\<close>

fun hex_digits :: "nat \<Rightarrow> string" where
  "hex_digits n =
     (if n < 16 then [''0123456789abcdef'' ! n] else hex_digits (n div 16) @ [''0123456789abcdef'' ! (n mod 16)])"

declare hex_digits.simps [simp del]

definition Hex :: "u64 \<Rightarrow> string" where
  "Hex v = ''0x'' @ hex_digits (unat v)"

definition Rebased :: "u64 \<Rightarrow> u64 \<Rightarrow> string \<Rightarrow> u64 res" where
  "Rebased base address what =
     (if base > kLinuxUserAddressEnd \<or> address > kLinuxUserAddressEnd - base
      then Inl (RelinkerException (what @ '' '' @ Hex address @ '' lies outside the Linux user address space at fixed base '' @ Hex base) 0)
      else Inr (base + address))"

definition RequireWholeEntries :: "bytes \<Rightarrow> nat \<Rightarrow> string \<Rightarrow> unit res" where
  "RequireWholeEntries table entrySize what =
     (if length table mod entrySize \<noteq> 0
      then Inl (RelinkerException (what @ '' is not a whole number of entries'') 0) else Inr ())"

text \<open>The positions that a loop over the entries of a table visits.\<close>

definition entry_positions :: "nat \<Rightarrow> bytes \<Rightarrow> nat list" where
  "entry_positions entrySize table = map (\<lambda>i. i * entrySize) [0..<(length table + entrySize - 1) div entrySize]"

definition RequireOnlyDependencies :: "bytes \<Rightarrow> unit res" where
  "RequireOnlyDependencies entries =
     bind_res (RequireWholeEntries entries kDynEntrySize ''Executable dependency table'') (\<lambda>_.
       fold_res (\<lambda>entry _. bind_res (ReadU64 entries entry) (\<lambda>tag.
           if tag \<noteq> DT_NEEDED
           then Inl (RelinkerException (''Dynamic tag '' @ Hex tag @ '' cannot be placed at a fixed Linux base'') 0)
           else Inr ()))
         (entry_positions kDynEntrySize entries) ())"

definition RequireZeroImportSlotAddends :: "bytes \<Rightarrow> unit res" where
  "RequireZeroImportSlotAddends table =
     fold_res (\<lambda>entry _. bind_res (ReadU64 table (entry + 8)) (\<lambda>info.
         if (ucast info :: u32) = R_X86_64_GLOB_DAT \<or> (ucast info :: u32) = R_X86_64_JUMP_SLOT
         then bind_res (ReadU64 table (entry + 16)) (\<lambda>addend.
           if addend \<noteq> 0 then bind_res (ReadU64 table entry) (\<lambda>offset.
             Inl (RelinkerException ''GLOB_DAT/JUMP_SLOT relocation has a nonzero addend'' offset))
           else Inr ())
         else Inr ()))
       (entry_positions 24 table) ()"

definition RequireFileRange :: "bytes \<Rightarrow> program_header \<Rightarrow> unit res" where
  "RequireFileRange buf load =
     (if ph_Offset load > of_nat (length buf) \<or> ph_FileSize load > of_nat (length buf) - ph_Offset load
      then Inl (RelinkerException (''PT_LOAD at '' @ Hex (ph_MappedAddress load) @ '' has file bytes outside the input'') 0)
      else Inr ())"

definition loads_range :: "u64 \<Rightarrow> u64 \<Rightarrow> u32 \<Rightarrow> program_header \<Rightarrow> bool" where
  "loads_range address bytes_needed flags header \<longleftrightarrow>
     ph_Type header = PT_LOAD \<and> (ph_Flags header = 0 \<or> ph_Flags header AND flags = flags) \<and>
     address \<ge> ph_MappedAddress header \<and> address - ph_MappedAddress header < ph_MemorySize header \<and>
     bytes_needed \<le> ph_MemorySize header - (address - ph_MappedAddress header)"

definition RequireLoaded :: "program_header list \<Rightarrow> u64 \<Rightarrow> u64 \<Rightarrow> u32 \<Rightarrow> string \<Rightarrow> unit res" where
  "RequireLoaded headers address bytes_needed flags what =
     (if list_ex (loads_range address bytes_needed flags) headers then Inr ()
      else Inl (RelinkerException (what @ '' '' @ Hex address @
        (if bytes_needed > 1 then '' ('' @ to_string (unat bytes_needed) @ '' bytes) does not fit inside '' else '' is not inside '') @
        (if flags AND PF_X \<noteq> 0 then ''an executable'' else ''a'') @ '' PT_LOAD segment'') 0))"

definition RelocationWidth :: "bytes \<Rightarrow> nat \<Rightarrow> u64 res" where
  "RelocationWidth relocations entry =
     bind_res (ReadU64 relocations (entry + 8)) (\<lambda>info.
       Inr (if (ucast info :: u32) = R_X86_64_PC32 \<or> (ucast info :: u32) = R_X86_64_32 then 4 else 8))"

text \<open>The loop of \<open>Patch\<close> that looks for the place of every relocation.\<close>

definition require_relocations_loaded :: "program_header list \<Rightarrow> bytes \<Rightarrow> string \<Rightarrow> unit res" where
  "require_relocations_loaded headers table name =
     fold_res (\<lambda>entry _. bind_res (ReadU64 table entry) (\<lambda>offset. bind_res (RelocationWidth table entry) (\<lambda>width.
         RequireLoaded headers offset width 0 name))) (entry_positions 24 table) ()"

definition RequireBaseAlignment :: "u64 \<Rightarrow> u64 \<Rightarrow> unit res" where
  "RequireBaseAlignment base alignment =
     (if alignment > 1 \<and> base mod alignment \<noteq> 0
      then Inl (RelinkerException (''Fixed Linux base '' @ Hex base @ '' is not a multiple of the PT_LOAD alignment '' @ Hex alignment) 0)
      else Inr ())"

subsection \<open>Rebasing\<close>

text \<open>The bodies of the loops over the symbols, the relocations and the program headers.\<close>

definition rebase_symbol :: "u64 \<Rightarrow> nat \<Rightarrow> bytes \<Rightarrow> bytes res" where
  "rebase_symbol base entry rebased =
     bind_res (ReadU16 rebased (entry + 6)) (\<lambda>section.
       if section = SHN_UNDEF \<or> section = SHN_ABS \<or> rebased ! (entry + 4) AND 0xf = STT_TLS then Inr rebased
       else if section \<ge> SHN_LORESERVE
       then Inl (RelinkerException (''Symbol section index '' @ Hex (ucast section) @ '' cannot be placed at a fixed Linux base'') 0)
       else bind_res (ReadU64 rebased (entry + 8)) (\<lambda>v.
              bind_res (Rebased base v ''Symbol'') (WriteU64 rebased (entry + 8))))"

definition RebasedSymbols :: "bytes \<Rightarrow> u64 \<Rightarrow> bytes res" where
  "RebasedSymbols table base =
     bind_res (RequireWholeEntries table 24 ''Dynamic symbol table'') (\<lambda>_.
       fold_res (rebase_symbol base) (entry_positions 24 table) table)"

definition kept_relocation :: "u32 \<Rightarrow> bool" where
  "kept_relocation type \<longleftrightarrow>
     type \<in> {R_X86_64_64, R_X86_64_PC32, R_X86_64_GLOB_DAT, R_X86_64_JUMP_SLOT, R_X86_64_32,
             R_X86_64_DTPMOD64, R_X86_64_DTPOFF64, R_X86_64_TPOFF64}"

definition rebase_offset :: "u64 \<Rightarrow> nat \<Rightarrow> bytes \<Rightarrow> bytes res" where
  "rebase_offset base entry rebased =
     bind_res (ReadU64 rebased entry) (\<lambda>offset.
       bind_res (Rebased base offset ''Relocation offset'') (WriteU64 rebased entry))"

definition rebase_relocation :: "u64 \<Rightarrow> nat \<Rightarrow> bytes \<Rightarrow> bytes res" where
  "rebase_relocation base entry rebased =
     bind_res (ReadU64 rebased (entry + 8)) (\<lambda>info.
       let type = ucast info :: u32
       in if type = R_X86_64_NONE then Inr rebased
          else if type = R_X86_64_RELATIVE \<or> type = R_X86_64_IRELATIVE
          then bind_res (ReadU64 rebased (entry + 16)) (\<lambda>addend.
                 if sint addend < 0
                 then Inl (RelinkerException (''Relocation target -'' @ to_string (nat (- sint addend)) @
                        '' lies below the image at a fixed Linux base'') 0)
                 else bind_res (Rebased base addend ''Relocation target'') (\<lambda>target.
                        bind_res (WriteU64 rebased (entry + 16) target) (rebase_offset base entry)))
          else if kept_relocation type then rebase_offset base entry rebased
          else Inl (RelinkerException (''Relocation type '' @ to_string (unat type) @ '' cannot be placed at a fixed Linux base'') 0))"

definition RebasedRelocations :: "bytes \<Rightarrow> u64 \<Rightarrow> bytes res" where
  "RebasedRelocations table base =
     bind_res (RequireWholeEntries table 24 ''Relocation table'') (\<lambda>_.
       fold_res (rebase_relocation base) (entry_positions 24 table) table)"

definition rebase_header :: "u64 \<Rightarrow> nat \<Rightarrow> bytes \<Rightarrow> bytes res" where
  "rebase_header base header buf =
     bind_res (ReadU32 buf (header + kPhdrTypeOffset)) (\<lambda>type.
       if type = PT_NULL \<or> type = PT_GNU_STACK then Inr buf
       else bind_res (ReadU64 buf (header + kPhdrVaddrOffset)) (\<lambda>vaddr.
            bind_res (Rebased base vaddr ''Program header address'') (\<lambda>address.
            bind_res
              (if type = PT_LOAD
               then bind_res (ReadU64 buf (header + kPhdrAlignOffset)) (\<lambda>alignment.
                    bind_res (RequireBaseAlignment base alignment) (\<lambda>_.
                    bind_res (ReadU64 buf (header + kPhdrMemSizeOffset)) (\<lambda>memory.
                      if memory > kLinuxUserAddressEnd - address
                      then Inl (RelinkerException (''PT_LOAD at '' @ Hex address @ '' ends outside the Linux user address space'') 0)
                      else Inr ())))
               else Inr ()) (\<lambda>_.
            bind_res (WriteU64 buf (header + kPhdrVaddrOffset) address) (\<lambda>buf.
              WriteU64 buf (header + kPhdrPaddrOffset) address)))))"

definition RebaseProgramHeaders :: "bytes \<Rightarrow> u64 \<Rightarrow> u16 \<Rightarrow> u16 \<Rightarrow> u64 \<Rightarrow> bytes res" where
  "RebaseProgramHeaders buf tableOffset entrySize count base =
     fold_res (\<lambda>index. rebase_header base (unat (tableOffset + of_nat index * ucast entrySize))) [0..<unat count] buf"


subsection \<open>Passes over the records of a table\<close>

text \<open>
  The contract of a loop body that rewrites one record: what it does depends on the bytes of the record alone,
  and it changes no others.
\<close>

locale record_pass =
  fixes step :: "nat \<Rightarrow> bytes \<Rightarrow> bytes res" and width :: nat
  assumes step_record: "length r = width \<Longrightarrow> off + width \<le> length buf \<Longrightarrow>
      step off (blit buf off r) = bind_res (step 0 r) (\<lambda>r. Inr (blit buf off r))"
    and step_width: "length r = width \<Longrightarrow> step 0 r = Inr r' \<Longrightarrow> length r' = width"
begin

lemma step_Inr:
  assumes "step off buf = Inr buf'" and "off + width \<le> length buf"
  shows "\<exists>r. step 0 (subbytes buf off width) = Inr r \<and> length r = width \<and> buf' = blit buf off r"
proof -
  have l: "length (subbytes buf off width) = width" using assms(2) by (simp add: length_subbytes)
  have "blit buf off (subbytes buf off width) = buf"
    using assms(2) by (auto simp: blit_def subbytes_def) (metis add.commute append_take_drop_id drop_drop)
  then have "step off buf = bind_res (step 0 (subbytes buf off width)) (\<lambda>r. Inr (blit buf off r))"
    using step_record [OF l assms(2)] by simp
  then obtain r where r: "step 0 (subbytes buf off width) = Inr r" "buf' = blit buf off r"
    using assms(1) by (cases "step 0 (subbytes buf off width)") auto
  from step_width [OF l r(1)] r show ?thesis by blast
qed

lemma pass_records:
  assumes "fold_res (\<lambda>i. step (base + i * stride)) [0..<n] buf = Inr buf'"
    and "width \<le> stride" and "base + n * stride \<le> length buf"
  shows "length buf' = length buf
    \<and> (\<forall>i < n. step 0 (subbytes buf (base + i * stride) width) = Inr (subbytes buf' (base + i * stride) width))
    \<and> (\<forall>j < length buf. j < base \<or> base + n * stride \<le> j \<longrightarrow> buf' ! j = buf ! j)"
  using assms(1,3)
proof (induction n arbitrary: buf')
  case 0
  then show ?case by simp
next
  case (Suc k)
  from Suc.prems(1) obtain c where c: "fold_res (\<lambda>i. step (base + i * stride)) [0..<k] buf = Inr c"
    and last: "step (base + k * stride) c = Inr buf'"
    by (auto simp: fold_res_append res_simps)
  let ?at = "\<lambda>i. base + i * stride"
  have fit: "?at k + stride \<le> length buf" using Suc.prems(2) by simp
  note ih = Suc.IH [OF c]
  have inv: "length c = length buf" "\<forall>i < k. step 0 (subbytes buf (?at i) width) = Inr (subbytes c (?at i) width)"
    "\<forall>j < length buf. j < base \<or> ?at k \<le> j \<longrightarrow> c ! j = buf ! j"
    using ih fit by auto
  from step_Inr [OF last] obtain r where r: "step 0 (subbytes c (?at k) width) = Inr r" "length r = width"
    "buf' = blit c (?at k) r" using fit inv(1) assms(2) by auto
  have same: "subbytes c (?at k) width = subbytes buf (?at k) width"
    by (rule nth_equalityI) (use inv fit assms(2) in \<open>auto simp: layout_simps\<close>)
  have other: "subbytes buf' (?at i) width = subbytes c (?at i) width" if "i < k" for i
  proof -
    have "i * stride + stride \<le> k * stride" using that by (metis add.commute mult_Suc mult_le_mono1 Suc_leI)
    then have "?at i + width \<le> ?at k" using assms(2) by linarith
    then show ?thesis unfolding r(3) using fit inv(1) r(2) assms(2) by (intro subbytes_blit_other) auto
  qed
  have own: "subbytes buf' (?at k) width = r"
    unfolding r(3) using subbytes_blit_same [of "?at k" r c] fit inv(1) r(2) assms(2) by auto
  have "buf' ! j = buf ! j" if "j < length buf" "j < base \<or> ?at (Suc k) \<le> j" for j
    using that inv fit r nth_blit [of "?at k" r c j] assms(2) by auto
  moreover have "length buf' = length buf" using r fit inv(1) assms(2) by (auto simp: length_blit)
  ultimately show ?case using other own inv(2) r(1) same by (auto simp: less_Suc_eq)
qed

end

lemma entry_positions_whole:
  assumes "length table mod n = 0" and "0 < n"
  shows "entry_positions n table = map (\<lambda>i. i * n) [0..<length table div n]"
proof -
  obtain q where q: "length table = n * q" using assms(1) by (auto simp: mod_eq_0_iff_dvd elim: dvdE)
  have "(n * q + n - 1) div n = q"
    using assms(2) div_mult_self4 [of n q "n - 1"] by simp
  then have "(length table + n - 1) div n = length table div n" using assms(2) q by simp
  then show ?thesis by (simp add: entry_positions_def)
qed

text \<open>Reading and writing inside a record that lies in a buffer.\<close>

lemma subbytes_in_blit:
  assumes "k + n \<le> length r" and "off + length r \<le> length buf"
  shows "subbytes (blit buf off r) (off + k) n = subbytes r k n"
  by (rule nth_equalityI) (use assms in \<open>auto simp: layout_simps length_blit nth_blit\<close>)

lemma blit_in_blit:
  assumes "k + length v \<le> length r" and "off + length r \<le> length buf"
  shows "blit (blit buf off r) (off + k) v = blit buf off (blit r k v)"
  by (rule nth_equalityI) (use assms in \<open>auto simp: length_blit nth_blit\<close>)

lemma read_in_record:
  assumes "off + length r \<le> length buf"
  shows "k + 2 \<le> length r \<Longrightarrow> ReadU16 (blit buf off r) (off + k) = ReadU16 r k"
    and "k + 4 \<le> length r \<Longrightarrow> ReadU32 (blit buf off r) (off + k) = ReadU32 r k"
    and "k + 8 \<le> length r \<Longrightarrow> ReadU64 (blit buf off r) (off + k) = ReadU64 r k"
    and "k + 8 \<le> length r \<Longrightarrow> WriteU64 (blit buf off r) (off + k) v = bind_res (WriteU64 r k v) (\<lambda>r. Inr (blit buf off r))"
  using assms by (simp_all add: io16.rd_inside io32.rd_inside io64.rd_inside io64.wr_inside length_blit subbytes_in_blit blit_in_blit)

lemmas read_in_record_0 = read_in_record [where k = 0, simplified]

lemma nth_in_record: "off + length r \<le> length buf \<Longrightarrow> k < length r \<Longrightarrow> blit buf off r ! (off + k) = r ! k"
  by (simp add: nth_blit)

lemma fold_res_cong_set: "(\<And>x. x \<in> set xs \<Longrightarrow> f x = g x) \<Longrightarrow> fold_res f xs s = fold_res g xs s"
  by (induction xs arbitrary: s) (auto intro: bind_res_cong)

lemma bind_res_assoc: "bind_res (bind_res m f) g = bind_res m (\<lambda>x. bind_res (f x) g)"
  by (cases m) auto

lemma bind_res_if: "bind_res (if c then m else m') f = (if c then bind_res m f else bind_res m' f)"
  by simp


subsection \<open>The three loops keep the contract\<close>

lemma rebase_symbol_record:
  assumes "length r = 24" and "off + 24 \<le> length buf"
  shows "rebase_symbol base off (blit buf off r) = bind_res (rebase_symbol base 0 r) (\<lambda>r. Inr (blit buf off r))"
  using assms by (auto simp: rebase_symbol_def read_in_record nth_in_record bind_res_assoc bind_res_if intro!: bind_res_cong)

lemma rebase_offset_record:
  assumes "length r = 24" and "off + 24 \<le> length buf"
  shows "rebase_offset base off (blit buf off r) = bind_res (rebase_offset base 0 r) (\<lambda>r. Inr (blit buf off r))"
  using assms by (auto simp: rebase_offset_def read_in_record_0 bind_res_assoc intro!: bind_res_cong)

lemma rebase_relocation_record:
  assumes "length r = 24" and "off + 24 \<le> length buf"
  shows "rebase_relocation base off (blit buf off r) =
    bind_res (rebase_relocation base 0 r) (\<lambda>r. Inr (blit buf off r))"
proof -
  have o: "rebase_offset base off (blit buf off r') = bind_res (rebase_offset base 0 r') (\<lambda>r. Inr (blit buf off r))"
    if "WriteU64 r 16 v = Inr r'" for v r'
    using rebase_offset_record [of r' off buf base] io64.wr_length [OF that] assms by simp
  show ?thesis
    using assms by (auto simp: rebase_relocation_def Let_def read_in_record bind_res_assoc bind_res_if
        rebase_offset_record o intro!: bind_res_cong)
qed

lemma rebase_header_record:
  assumes "length r = 56" and "off + 56 \<le> length buf"
  shows "rebase_header base off (blit buf off r) = bind_res (rebase_header base 0 r) (\<lambda>r. Inr (blit buf off r))"
proof -
  have w: "WriteU64 (blit buf off r') (off + 24) x = bind_res (WriteU64 r' 24 x) (\<lambda>r. Inr (blit buf off r))"
    if "WriteU64 r 16 v = Inr r'" for v r' x
    using read_in_record(4) [of off r' buf 24 x] io64.wr_length [OF that] assms by simp
  show ?thesis
    using assms by (auto simp: rebase_header_def read_in_record read_in_record_0 bind_res_assoc bind_res_if w
        intro!: bind_res_cong)
qed

lemma rebase_widths:
  "rebase_symbol base off r = Inr r' \<Longrightarrow> length r' = length r"
  "rebase_offset base off r = Inr r' \<Longrightarrow> length r' = length r"
  "rebase_header base off r = Inr r' \<Longrightarrow> length r' = length r"
  by (auto simp: rebase_symbol_def rebase_offset_def rebase_header_def res_simps split: if_splits dest!: io64.wr_length)

lemma rebase_relocation_width: "rebase_relocation base off r = Inr r' \<Longrightarrow> length r' = length r"
  by (auto simp: rebase_relocation_def Let_def res_simps split: if_splits dest!: io64.wr_length rebase_widths(2))

interpretation symbol_pass: record_pass "rebase_symbol base" 24 for base
  by unfold_locales (simp_all add: rebase_symbol_record rebase_widths(1))

interpretation relocation_pass: record_pass "rebase_relocation base" 24 for base
  by unfold_locales (simp_all add: rebase_relocation_record rebase_relocation_width)

interpretation header_pass: record_pass "rebase_header base" 56 for base
  by unfold_locales (simp_all add: rebase_header_record rebase_widths(3))


subsection \<open>What the loader does\<close>

definition entry_field :: "bytes \<Rightarrow> nat \<Rightarrow> nat \<Rightarrow> 'a::len word" where
  "entry_field r off n = le_word (subbytes r off n)"

text \<open>
  The address of a symbol of a file that is loaded at a bias. Nothing for a symbol that another module defines; an
  absolute symbol keeps its value, and the value of a thread-local one is an offset in its block.
\<close>

definition symbol_address :: "u64 \<Rightarrow> bytes \<Rightarrow> u64 option" where
  "symbol_address bias s =
     (let section = entry_field s 6 2 :: u16; v = entry_field s 8 8
      in if section = SHN_UNDEF then None
         else if section = SHN_ABS \<or> s ! 4 AND 0xf = STT_TLS then Some v else Some (bias + v))"

text \<open>
  The action of one relocation: it stores a number of bytes of a value at a place, or the result of a call of the
  function at an address, or the number of the module of a symbol, or a thread offset. The addresses of external
  symbols are a parameter.
\<close>

datatype loader_action =
    Store nat u64 u64
  | StoreResult u64 u64
  | StoreModule u64 nat
  | StoreThreadOffset u64 u64

definition relocation_action :: "u64 \<Rightarrow> (nat \<Rightarrow> u64) \<Rightarrow> bytes \<Rightarrow> bytes \<Rightarrow> loader_action option" where
  "relocation_action bias external symbols r =
     (let place = bias + entry_field r 0 8; info = entry_field r 8 8 :: u64; addend = entry_field r 16 8;
          type = ucast info :: u32; sym = unat (drop_bit 32 info);
          s = (case symbol_address bias (subbytes symbols (sym * 24) 24) of None \<Rightarrow> external sym | Some a \<Rightarrow> a)
      in if type = R_X86_64_NONE then None
         else if type = R_X86_64_RELATIVE then Some (Store 8 place (bias + addend))
         else if type = R_X86_64_IRELATIVE then Some (StoreResult place (bias + addend))
         else if type = R_X86_64_64 \<or> type = R_X86_64_DTPOFF64 then Some (Store 8 place (s + addend))
         else if type = R_X86_64_GLOB_DAT \<or> type = R_X86_64_JUMP_SLOT then Some (Store 8 place s)
         else if type = R_X86_64_PC32 then Some (Store 4 place (s + addend - place))
         else if type = R_X86_64_32 then Some (Store 4 place (s + addend))
         else if type = R_X86_64_DTPMOD64 then Some (StoreModule place sym)
         else if type = R_X86_64_TPOFF64 then Some (StoreThreadOffset place (s + addend))
         else None)"

definition loader_actions :: "u64 \<Rightarrow> (nat \<Rightarrow> u64) \<Rightarrow> bytes \<Rightarrow> bytes \<Rightarrow> loader_action option list" where
  "loader_actions bias external symbols table =
     map (\<lambda>i. relocation_action bias external symbols (subbytes table (i * 24) 24)) [0..<length table div 24]"

lemma Rebased_Inr:
  assumes "Rebased base a what = Inr b"
  shows "b = base + a" "unat b = unat base + unat a" "b \<le> kLinuxUserAddressEnd"
proof -
  from assms have le: "base \<le> kLinuxUserAddressEnd" "a \<le> kLinuxUserAddressEnd - base" and b: "b = base + a"
    by (auto simp: Rebased_def not_less split: if_splits)
  have s: "unat a \<le> unat kLinuxUserAddressEnd - unat base"
    using le(2) unat_sub_le [OF le(1)] by (simp only: word_le_nat_alt)
  have e: "unat base \<le> unat kLinuxUserAddressEnd" using le(1) by (simp only: word_le_nat_alt)
  have "unat kLinuxUserAddressEnd < 2 ^ 64" by simp
  then have "unat base + unat a < 2 ^ 64" using s e by linarith
  then show u: "unat b = unat base + unat a" unfolding b by (simp add: unat_word_ariths)
  show "b = base + a" by (rule b)
  show "b \<le> kLinuxUserAddressEnd" using s e u by (simp only: word_le_nat_alt)
qed

lemma ReadU_field:
  "ReadU16 r off = Inr x \<longleftrightarrow> off + 2 \<le> length r \<and> x = entry_field r off 2"
  "ReadU32 r off = Inr y \<longleftrightarrow> off + 4 \<le> length r \<and> y = entry_field r off 4"
  "ReadU64 r off = Inr z \<longleftrightarrow> off + 8 \<le> length r \<and> z = entry_field r off 8"
  by (auto simp: io16.rd_Inr io32.rd_Inr io64.rd_Inr entry_field_def)

lemma WriteU64_fields:
  assumes "WriteU64 r off v = Inr r'"
  shows "entry_field r' off 8 = v" and "length r' = length r"
    and "o2 + n \<le> length r \<Longrightarrow> o2 + n \<le> off \<or> off + 8 \<le> o2 \<Longrightarrow> entry_field r' o2 n = entry_field r o2 n"
    and "j < length r \<Longrightarrow> j < off \<or> off + 8 \<le> j \<Longrightarrow> r' ! j = r ! j"
proof -
  from assms have b: "off + 8 \<le> length r" "r' = blit r off (le_bytes 8 v)" by (auto simp: io64.wr_Inr)
  show "entry_field r' off 8 = v"
    using subbytes_blit_same [of off "le_bytes 8 v" r] b by (simp add: entry_field_def le_word_le_bytes)
  show "length r' = length r" using b by (simp add: length_blit)
  show "o2 + n \<le> length r \<Longrightarrow> o2 + n \<le> off \<or> off + 8 \<le> o2 \<Longrightarrow> entry_field r' o2 n = entry_field r o2 n"
    using b by (simp add: entry_field_def subbytes_blit_other)
  show "j < length r \<Longrightarrow> j < off \<or> off + 8 \<le> j \<Longrightarrow> r' ! j = r ! j"
    using b by (auto simp: nth_blit)
qed

lemma rebase_symbol_address:
  assumes "rebase_symbol base 0 s = Inr s'" and "length s = 24"
  shows "symbol_address 0 s' = symbol_address base s"
proof (cases "s' = s \<and> (entry_field s 6 2 = (SHN_UNDEF :: u16) \<or> entry_field s 6 2 = (SHN_ABS :: u16) \<or> s ! 4 AND 0xf = STT_TLS)")
  case True
  then show ?thesis by (auto simp: symbol_address_def Let_def)
next
  case False
  from assms(1) False obtain b where b: "Rebased base (entry_field s 8 8) ''Symbol'' = Inr b" "WriteU64 s 8 b = Inr s'"
    and n: "entry_field s 6 2 \<noteq> (SHN_UNDEF :: u16)" "entry_field s 6 2 \<noteq> (SHN_ABS :: u16)" "s ! 4 AND 0xf \<noteq> STT_TLS"
    by (auto simp: rebase_symbol_def res_simps ReadU_field split: if_splits)
  note w = WriteU64_fields [OF b(2)]
  have "entry_field s' 6 2 = (entry_field s 6 2 :: u16)" using assms(2) by (intro w(3)) auto
  then show ?thesis
    using n w(1) w(4) [of 4] assms(2) Rebased_Inr(1) [OF b(1)]
    by (simp add: symbol_address_def Let_def)
qed

lemma RebasedSymbols_address:
  assumes "RebasedSymbols symbols base = Inr symbols'"
  shows "length symbols' = length symbols"
    and "symbol_address 0 (subbytes symbols' (k * 24) 24) = symbol_address base (subbytes symbols (k * 24) 24)"
proof -
  let ?n = "length symbols div 24"
  have whole: "length symbols mod 24 = 0"
    using assms by (auto simp: RebasedSymbols_def RequireWholeEntries_def res_simps split: if_splits)
  then have len: "?n * 24 = length symbols" using mult_div_mod_eq [of 24 "length symbols"] by simp
  have f: "fold_res (\<lambda>i. rebase_symbol base (0 + i * 24)) [0..<?n] symbols = Inr symbols'"
    using assms whole by (auto simp: RebasedSymbols_def res_simps entry_positions_whole fold_res_map)
  note p = symbol_pass.pass_records [OF f, simplified len]
  show l: "length symbols' = length symbols" using p by simp
  show "symbol_address 0 (subbytes symbols' (k * 24) 24) = symbol_address base (subbytes symbols (k * 24) 24)"
  proof (cases "k < ?n")
    case True
    then have "k * 24 + 24 \<le> length symbols" using len by linarith
    then have "length (subbytes symbols (k * 24) 24) = 24" by (simp add: length_subbytes)
    then show ?thesis using p True by (intro rebase_symbol_address) auto
  next
    case False
    then have "length symbols \<le> k * 24" using len by linarith
    then show ?thesis using l by (simp add: symbol_address_def entry_field_def subbytes_def)
  qed
qed


lemma rebase_offset_fields:
  assumes "rebase_offset base 0 r = Inr r'" and "length r = 24"
  shows "entry_field r' 0 8 = base + (entry_field r 0 8 :: u64)"
    and "entry_field r' 8 8 = (entry_field r 8 8 :: u64)" and "entry_field r' 16 8 = (entry_field r 16 8 :: u64)"
    and "unat (base + entry_field r 0 8) = unat base + unat (entry_field r 0 8 :: u64)"
    and "base + entry_field r 0 8 \<le> kLinuxUserAddressEnd"
proof -
  from assms(1) obtain b where b: "Rebased base (entry_field r 0 8) ''Relocation offset'' = Inr b" "WriteU64 r 0 b = Inr r'"
    by (auto simp: rebase_offset_def res_simps ReadU_field)
  note w = WriteU64_fields [OF b(2)] and v = Rebased_Inr [OF b(1)]
  show "entry_field r' 0 8 = base + (entry_field r 0 8 :: u64)" using w(1) v(1) by simp
  show "entry_field r' 8 8 = (entry_field r 8 8 :: u64)" using assms(2) by (intro w(3)) auto
  show "entry_field r' 16 8 = (entry_field r 16 8 :: u64)" using assms(2) by (intro w(3)) auto
  show "unat (base + entry_field r 0 8) = unat base + unat (entry_field r 0 8 :: u64)"
    and "base + entry_field r 0 8 \<le> kLinuxUserAddressEnd" using v by simp_all
qed

definition rela_type :: "bytes \<Rightarrow> u32" where
  "rela_type r = ucast (entry_field r 8 8 :: u64)"

lemma rebase_relocation_eq:
  "length r = 24 \<Longrightarrow> rebase_relocation base 0 r =
     (if rela_type r = R_X86_64_NONE then Inr r
      else if rela_type r = R_X86_64_RELATIVE \<or> rela_type r = R_X86_64_IRELATIVE
      then if sint (entry_field r 16 8 :: u64) < 0
           then Inl (RelinkerException (''Relocation target -'' @ to_string (nat (- sint (entry_field r 16 8 :: u64))) @
                  '' lies below the image at a fixed Linux base'') 0)
           else bind_res (Rebased base (entry_field r 16 8) ''Relocation target'') (\<lambda>target.
                  bind_res (WriteU64 r 16 target) (rebase_offset base 0))
      else if kept_relocation (rela_type r) then rebase_offset base 0 r
      else Inl (RelinkerException (''Relocation type '' @ to_string (unat (rela_type r)) @ '' cannot be placed at a fixed Linux base'') 0))"
  unfolding rebase_relocation_def rela_type_def entry_field_def
  by (simp only: io64.rd_inside Let_def add_0 bind_res.simps numeral_le_iff semiring_norm)

text \<open>What a successful rebasing of a relocation has done to its three fields.\<close>

lemma rebase_none: "rela_type r = R_X86_64_NONE \<Longrightarrow> length r = 24 \<Longrightarrow> rebase_relocation base 0 r = Inr r"
  by (simp add: rebase_relocation_eq)

lemma rebase_kept:
  assumes "rebase_relocation base 0 r = Inr r'" and "length r = 24"
    and "rela_type r \<noteq> R_X86_64_NONE" "rela_type r \<noteq> R_X86_64_RELATIVE" "rela_type r \<noteq> R_X86_64_IRELATIVE"
  shows "rebase_offset base 0 r = Inr r'"
proof -
  have "rebase_relocation base 0 r = (if kept_relocation (rela_type r) then rebase_offset base 0 r
      else Inl (RelinkerException (''Relocation type '' @ to_string (unat (rela_type r)) @ '' cannot be placed at a fixed Linux base'') 0))"
    using rebase_relocation_eq [OF assms(2), of base] assms(3-5) by (simp only: if_False simp_thms)
  with assms(1) show ?thesis by (cases "kept_relocation (rela_type r)") simp_all
qed

lemma rebase_relative:
  assumes "rebase_relocation base 0 r = Inr r'" and "length r = 24"
    and "rela_type r = R_X86_64_RELATIVE \<or> rela_type r = R_X86_64_IRELATIVE"
  obtains t q where "Rebased base (entry_field r 16 8) ''Relocation target'' = Inr t"
    "WriteU64 r 16 t = Inr q" "rebase_offset base 0 q = Inr r'"
proof -
  have n: "rela_type r \<noteq> R_X86_64_NONE" using assms(3) by auto
  have "sint (entry_field r 16 8 :: u64) < 0 = False \<and> bind_res (Rebased base (entry_field r 16 8) ''Relocation target'') (\<lambda>target.
      bind_res (WriteU64 r 16 target) (rebase_offset base 0)) = Inr r'"
    using rebase_relocation_eq [OF assms(2), of base] assms(1,3) n
    by (cases "sint (entry_field r 16 8 :: u64) < 0") (simp_all only: if_False if_True sum.distinct simp_thms)
  then show thesis using that by (elim conjE) (simp only: bind_res_Inr_iff, blast)
qed

lemma rebase_relative_fields:
  assumes "rebase_relocation base 0 r = Inr r'" and "length r = 24"
    and "rela_type r = R_X86_64_RELATIVE \<or> rela_type r = R_X86_64_IRELATIVE"
  shows "entry_field r' 0 8 = base + (entry_field r 0 8 :: u64)"
    and "entry_field r' 8 8 = (entry_field r 8 8 :: u64)" and "entry_field r' 16 8 = base + (entry_field r 16 8 :: u64)"
    and "unat (base + entry_field r 0 8) = unat base + unat (entry_field r 0 8 :: u64)"
    and "base + entry_field r 0 8 \<le> kLinuxUserAddressEnd"
proof -
  from rebase_relative [OF assms] obtain t q where
    t: "Rebased base (entry_field r 16 8) ''Relocation target'' = Inr t"
    and q: "WriteU64 r 16 t = Inr q" "rebase_offset base 0 q = Inr r'" .
  note w = WriteU64_fields [OF q(1)]
  have q24: "length q = 24" using w(2) assms(2) by simp
  note o = rebase_offset_fields [OF q(2) q24]
  have f0: "entry_field q 0 8 = (entry_field r 0 8 :: u64)" by (rule w(3)) (use assms(2) in simp_all)
  have f8: "entry_field q 8 8 = (entry_field r 8 8 :: u64)" by (rule w(3)) (use assms(2) in simp_all)
  show "entry_field r' 0 8 = base + (entry_field r 0 8 :: u64)" using o(1) f0 by simp
  show "entry_field r' 8 8 = (entry_field r 8 8 :: u64)" using o(2) f8 by simp
  show "entry_field r' 16 8 = base + (entry_field r 16 8 :: u64)" using o(3) w(1) Rebased_Inr(1) [OF t] by simp
  show "unat (base + entry_field r 0 8) = unat base + unat (entry_field r 0 8 :: u64)" using o(4) f0 by simp
  show "base + entry_field r 0 8 \<le> kLinuxUserAddressEnd" using o(5) f0 by simp
qed

lemma rela_type_cases:
  obtains (none) "rela_type r = R_X86_64_NONE"
  | (relative) "rela_type r = R_X86_64_RELATIVE \<or> rela_type r = R_X86_64_IRELATIVE"
  | (kept) "rela_type r \<noteq> R_X86_64_NONE" "rela_type r \<noteq> R_X86_64_RELATIVE" "rela_type r \<noteq> R_X86_64_IRELATIVE"
  by blast

lemma rebase_relocation_action:
  assumes "rebase_relocation base 0 r = Inr r'" and "length r = 24"
    and "\<And>k. symbol_address 0 (subbytes symbols' (k * 24) 24) = symbol_address base (subbytes symbols (k * 24) 24)"
  shows "relocation_action 0 external symbols' r' = relocation_action base external symbols r"
proof (cases r rule: rela_type_cases)
  case none
  then show ?thesis using assms(1) by (simp add: rebase_none assms(2)) (simp add: relocation_action_def rela_type_def Let_def)
next
  case relative
  note f = rebase_relative_fields [OF assms(1,2) relative]
  show ?thesis using relative unfolding relocation_action_def Let_def f(1,2,3) rela_type_def by auto
next
  case kept
  note f = rebase_offset_fields [OF rebase_kept [OF assms(1,2) kept] assms(2)]
  show ?thesis using kept unfolding relocation_action_def Let_def f(1,2,3) rela_type_def assms(3) by simp
qed

lemma rebase_relocation_place:
  assumes "rebase_relocation base 0 r = Inr r'" and "length r = 24" and "rela_type r \<noteq> R_X86_64_NONE"
  shows "unat (base + entry_field r 0 8) = unat base + unat (entry_field r 0 8 :: u64)"
    and "base + entry_field r 0 8 \<le> kLinuxUserAddressEnd"
proof -
  have "unat (base + entry_field r 0 8) = unat base + unat (entry_field r 0 8 :: u64) \<and>
    base + entry_field r 0 8 \<le> kLinuxUserAddressEnd"
  proof (cases r rule: rela_type_cases)
    case none
    then show ?thesis using assms(3) by (rule notE [rotated])
  next
    case relative
    show ?thesis by (intro conjI rebase_relative_fields(4,5) [OF assms(1,2) relative])
  next
    case kept
    show ?thesis by (intro conjI rebase_offset_fields(4,5) [OF rebase_kept [OF assms(1,2) kept] assms(2)])
  qed
  then show "unat (base + entry_field r 0 8) = unat base + unat (entry_field r 0 8 :: u64)"
    and "base + entry_field r 0 8 \<le> kLinuxUserAddressEnd" by (rule conjunct1, rule conjunct2)
qed

lemma RebasedRelocations_records:
  assumes "RebasedRelocations table base = Inr table'"
  shows "length table' = length table" and "length table = length table div 24 * 24"
    and "i < length table div 24 \<Longrightarrow> rebase_relocation base 0 (subbytes table (i * 24) 24) = Inr (subbytes table' (i * 24) 24)"
proof -
  let ?n = "length table div 24"
  have whole: "length table mod 24 = 0"
    using assms by (auto simp: RebasedRelocations_def RequireWholeEntries_def res_simps split: if_splits)
  then show len: "length table = ?n * 24" using mult_div_mod_eq [of 24 "length table"] by simp
  have f: "fold_res (\<lambda>i. rebase_relocation base (0 + i * 24)) [0..<?n] table = Inr table'"
    using assms whole by (auto simp: RebasedRelocations_def res_simps entry_positions_whole fold_res_map)
  note p = relocation_pass.pass_records [OF f]
  show "length table' = length table" using p len by simp
  show "i < ?n \<Longrightarrow> rebase_relocation base 0 (subbytes table (i * 24) 24) = Inr (subbytes table' (i * 24) 24)"
    using p len by simp
qed

text \<open>
  What the loader reads from a program header: the type, the flags, the file offset, the address, the two sizes and the
  alignment. Null entries and the stack entry have no address.
\<close>

definition no_address :: "u32 \<Rightarrow> bool" where
  "no_address type \<longleftrightarrow> type = PT_NULL \<or> type = PT_GNU_STACK"

definition loader_segment :: "u64 \<Rightarrow> bytes \<Rightarrow> u32 \<times> u32 \<times> u64 \<times> u64 \<times> u64 \<times> u64 \<times> u64" where
  "loader_segment bias r =
     (let type = entry_field r 0 4; vaddr = entry_field r 16 8
      in (type, entry_field r 4 4, entry_field r 8 8, if no_address type then vaddr else bias + vaddr,
          entry_field r 32 8, entry_field r 40 8, entry_field r 48 8))"

definition header_check :: "u64 \<Rightarrow> u64 \<Rightarrow> bytes \<Rightarrow> unit res" where
  "header_check base address r =
     (if entry_field r 0 4 = PT_LOAD
      then bind_res (RequireBaseAlignment base (entry_field r 48 8)) (\<lambda>_.
             if entry_field r 40 8 > kLinuxUserAddressEnd - address
             then Inl (RelinkerException (''PT_LOAD at '' @ Hex address @ '' ends outside the Linux user address space'') 0)
             else Inr ())
      else Inr ())"

lemma rebase_header_eq:
  "length r = 56 \<Longrightarrow> rebase_header base 0 r =
     (if no_address (entry_field r 0 4) then Inr r
      else bind_res (Rebased base (entry_field r 16 8) ''Program header address'') (\<lambda>address.
           bind_res (header_check base address r) (\<lambda>_. bind_res (WriteU64 r 16 address) (\<lambda>r. WriteU64 r 24 address))))"
  unfolding rebase_header_def header_check_def no_address_def entry_field_def
  by (simp only: io32.rd_inside io64.rd_inside add_0 bind_res.simps numeral_le_iff semiring_norm)

lemma header_check_Inr:
  assumes "header_check base address r = Inr ()" and "entry_field r 0 4 = PT_LOAD"
  shows "entry_field r 40 8 \<le> kLinuxUserAddressEnd - address"
    and "entry_field r 48 8 \<le> (1 :: u64) \<or> base mod entry_field r 48 8 = 0"
proof -
  have c: "RequireBaseAlignment base (entry_field r 48 8) = Inr ()" "\<not> entry_field r 40 8 > kLinuxUserAddressEnd - address"
    using assms(1) unfolding header_check_def if_P [OF assms(2)] bind_res_Inr_iff by (auto split: if_splits)
  then show "entry_field r 40 8 \<le> kLinuxUserAddressEnd - address" by (simp only: not_less)
  show "entry_field r 48 8 \<le> (1 :: u64) \<or> base mod entry_field r 48 8 = 0"
    using c(1) by (auto simp: RequireBaseAlignment_def not_less split: if_splits)
qed

lemma rebase_header_moved:
  assumes "rebase_header base 0 r = Inr r'" and "length r = 56" and "\<not> no_address (entry_field r 0 4)"
  obtains a q where "Rebased base (entry_field r 16 8) ''Program header address'' = Inr a"
      "WriteU64 r 16 a = Inr q" "WriteU64 q 24 a = Inr r'" "header_check base a r = Inr ()"
proof -
  from assms(1) obtain a q u where "Rebased base (entry_field r 16 8) ''Program header address'' = Inr a"
      "WriteU64 r 16 a = Inr q" "WriteU64 q 24 a = Inr r'" "header_check base a r = Inr u"
    unfolding rebase_header_eq [OF assms(2)] if_not_P [OF assms(3)] bind_res_Inr_iff by blast
  then show thesis using that by (cases u) blast
qed

lemma address_writes_keep:
  assumes "WriteU64 r 16 a = Inr q" "WriteU64 q 24 a = Inr r'" "length r = 56"
    and "o2 + n \<le> 16 \<or> 32 \<le> o2" "o2 + n \<le> 56"
  shows "entry_field r' o2 n = (entry_field r o2 n :: 'a::len word)"
proof -
  have "entry_field r' o2 n = (entry_field q o2 n :: 'a word)"
    if "WriteU64 q off a = Inr r'" "length q = 56" "off = 16 \<or> off = 24" for r' q off
    using that assms(4,5) by (intro WriteU64_fields(3) [OF that(1)]) auto
  then show ?thesis using assms(1-3) WriteU64_fields(2) [OF assms(1)] by metis
qed

lemma rebase_header_segment:
  assumes "rebase_header base 0 r = Inr r'" and "length r = 56"
  shows "loader_segment 0 r' = loader_segment base r"
proof (cases "no_address (entry_field r 0 4)")
  case True
  then have "r' = r" using assms(1) unfolding rebase_header_eq [OF assms(2)] by (simp only: if_True sum.inject)
  then show ?thesis using True by (simp add: loader_segment_def Let_def)
next
  case False
  from rebase_header_moved [OF assms False] obtain a q where
    moved: "\<not> no_address (entry_field r 0 4)" "Rebased base (entry_field r 16 8) ''Program header address'' = Inr a"
      "WriteU64 r 16 a = Inr q" "WriteU64 q 24 a = Inr r'" using False by metis
  note k = address_writes_keep [OF moved(3,4) assms(2)]
  have "entry_field r' 16 8 = (entry_field q 16 8 :: u64)"
    using WriteU64_fields(2) [OF moved(3)] assms(2) by (intro WriteU64_fields(3) [OF moved(4)]) simp_all
  then have v: "entry_field r' 16 8 = base + entry_field r 16 8"
    using WriteU64_fields(1) [OF moved(3)] Rebased_Inr(1) [OF moved(2)] by simp
  show ?thesis using moved(1) by (simp add: loader_segment_def Let_def k v)
qed

lemma rebase_header_load:
  assumes "rebase_header base 0 r = Inr r'" and "length r = 56" and "entry_field r 0 4 = PT_LOAD"
  shows "unat base + unat (entry_field r 16 8 :: u64) + unat (entry_field r 40 8 :: u64) \<le> unat kLinuxUserAddressEnd"
    and "entry_field r 48 8 \<le> (1 :: u64) \<or> base mod entry_field r 48 8 = 0"
proof -
  have "\<not> no_address (entry_field r 0 4)" using assms(3) by (simp add: no_address_def)
  from rebase_header_moved [OF assms(1,2) this] obtain a where
    a: "Rebased base (entry_field r 16 8) ''Program header address'' = Inr a" and "header_check base a r = Inr ()" by metis
  note c = header_check_Inr [OF this(2) assms(3)]
  note b = Rebased_Inr [OF a]
  have "unat (entry_field r 40 8 :: u64) \<le> unat (kLinuxUserAddressEnd - a)"
    using c(1) by (simp only: word_le_nat_alt)
  then have "unat (entry_field r 40 8 :: u64) \<le> unat kLinuxUserAddressEnd - unat a"
    by (simp only: unat_sub_le [OF b(3)])
  moreover have "unat a \<le> unat kLinuxUserAddressEnd" using b(3) by (simp only: word_le_nat_alt)
  ultimately show "unat base + unat (entry_field r 16 8 :: u64) + unat (entry_field r 40 8 :: u64) \<le> unat kLinuxUserAddressEnd"
    using b(2) by linarith
  show "entry_field r 48 8 \<le> (1 :: u64) \<or> base mod entry_field r 48 8 = 0" by (rule c(2))
qed

subsection \<open>Properties\<close>

text \<open>
  C6: The rebased tables at bias zero make the loader do what the original tables do at the fixed base: relocation by
  relocation, the same value at the same place, for every choice of the external symbols. No place wraps around, and all lie
  below the end of the user address space.
\<close>

theorem rebased_tables_load_at_base:
  assumes "RebasedSymbols symbols base = Inr symbols'" and "RebasedRelocations table base = Inr table'"
  shows "loader_actions 0 external symbols' table' = loader_actions base external symbols table \<and>
    (\<forall>i < length table div 24. rela_type (subbytes table (i * 24) 24) = R_X86_64_NONE \<or>
       (let offset = entry_field (subbytes table (i * 24) 24) 0 8 :: u64
        in unat (base + offset) = unat base + unat offset \<and> base + offset \<le> kLinuxUserAddressEnd))"
proof (intro conjI allI impI)
  note t = RebasedRelocations_records [OF assms(2)]
  have l: "length (subbytes table (i * 24) 24) = 24" if "i < length table div 24" for i
    using that t(2) by (intro length_subbytes) linarith
  show "loader_actions 0 external symbols' table' = loader_actions base external symbols table"
    unfolding loader_actions_def t(1)
    by (rule map_cong [OF refl], rule rebase_relocation_action)
      (simp_all add: t(3) l RebasedSymbols_address(2) [OF assms(1)])
  fix i assume i: "i < length table div 24"
  show "rela_type (subbytes table (i * 24) 24) = R_X86_64_NONE \<or>
       (let offset = entry_field (subbytes table (i * 24) 24) 0 8 :: u64
        in unat (base + offset) = unat base + unat offset \<and> base + offset \<le> kLinuxUserAddressEnd)"
    unfolding Let_def using rebase_relocation_place [OF t(3) [OF i] l [OF i]] by blast
qed


text \<open>
  C8: The rebased program headers at bias zero describe the segments of the original headers at the fixed base: type,
  flags, file range, address, sizes and alignment agree entry by entry, no address wraps around, every load ends inside the user
  address space at a base that its alignment divides, and the file outside the table is unchanged.
\<close>

theorem rebased_headers_load_at_base:
  assumes "RebaseProgramHeaders buf tableOffset entrySize n base = Inr buf'"
    and "56 \<le> unat entrySize" and "unat tableOffset + unat n * unat entrySize \<le> length buf" and "length buf < 2 ^ 64"
  shows "length buf' = length buf \<and>
    (\<forall>j < length buf. j < unat tableOffset \<or> unat tableOffset + unat n * unat entrySize \<le> j \<longrightarrow> buf' ! j = buf ! j) \<and>
    (\<forall>i < unat n. let r = subbytes buf (unat tableOffset + i * unat entrySize) 56;
                      r' = subbytes buf' (unat tableOffset + i * unat entrySize) 56
       in loader_segment 0 r' = loader_segment base r \<and>
          (entry_field r 0 4 = PT_LOAD \<longrightarrow>
             unat base + unat (entry_field r 16 8 :: u64) + unat (entry_field r 40 8 :: u64) \<le> unat kLinuxUserAddressEnd \<and>
             (entry_field r 48 8 \<le> (1 :: u64) \<or> base mod entry_field r 48 8 = 0)))"
proof -
  have at: "unat (tableOffset + of_nat i * ucast entrySize) = unat tableOffset + i * unat entrySize" if "i < unat n" for i
  proof -
    have "i * unat entrySize \<le> unat n * unat entrySize" using that by simp
    then have "unat tableOffset + i * unat entrySize < 2 ^ 64" using assms(3,4) by linarith
    moreover have "tableOffset + of_nat i * ucast entrySize = of_nat (unat tableOffset + i * unat entrySize)"
      by simp
    ultimately show ?thesis by (simp only: unat_of_nat len_of_numeral_64 mod_less)
  qed
  have f: "fold_res (\<lambda>i. rebase_header base (unat tableOffset + i * unat entrySize)) [0..<unat n] buf = Inr buf'"
    using assms(1) fold_res_cong_set [of "[0..<unat n]"] at unfolding RebaseProgramHeaders_def
    by (metis (no_types, lifting) atLeastLessThan_iff set_upt)
  note p = header_pass.pass_records [OF f assms(2,3)]
  have l: "length (subbytes buf (unat tableOffset + i * unat entrySize) 56) = 56" if "i < unat n" for i
  proof -
    have "(i + 1) * unat entrySize \<le> unat n * unat entrySize" using that by (intro mult_le_mono1) simp
    then show ?thesis using assms(2,3) by (intro length_subbytes) simp
  qed
  show ?thesis
    using p rebase_header_segment [OF _ l] rebase_header_load [OF _ l] by (auto simp: Let_def)
qed

subsection \<open>A concrete file\<close>

text \<open>
  A defined symbol and an undefined one, a relative relocation and one against each symbol, and a load with a stack entry.
\<close>

definition rebase_sample_symbols :: bytes where
  "rebase_sample_symbols = replicate 24 0
     @ le_bytes 4 (1 :: u32) @ [0x12, 0] @ le_bytes 2 (5 :: u16) @ le_bytes 8 (0x1000 :: u64) @ le_bytes 8 (0 :: u64)
     @ le_bytes 4 (9 :: u32) @ [0x12, 0] @ le_bytes 2 (0 :: u16) @ le_bytes 8 (0 :: u64) @ le_bytes 8 (0 :: u64)"

definition rebase_sample_table :: bytes where
  "rebase_sample_table =
     le_bytes 8 (0x2000 :: u64) @ le_bytes 8 (8 :: u64) @ le_bytes 8 (0x1010 :: u64)
     @ le_bytes 8 (0x2008 :: u64) @ le_bytes 8 (push_bit 32 1 + 1 :: u64) @ le_bytes 8 (4 :: u64)
     @ le_bytes 8 (0x2010 :: u64) @ le_bytes 8 (push_bit 32 2 + 6 :: u64) @ le_bytes 8 (0 :: u64)"

lemma rebase_sample_ok:
  "\<exists>s t. RebasedSymbols rebase_sample_symbols 0x400000 = Inr s \<and> RebasedRelocations rebase_sample_table 0x400000 = Inr t"
proof -
  have "case RebasedSymbols rebase_sample_symbols 0x400000 of Inl _ \<Rightarrow> False | Inr _ \<Rightarrow> True" by code_simp
  moreover have "case RebasedRelocations rebase_sample_table 0x400000 of Inl _ \<Rightarrow> False | Inr _ \<Rightarrow> True" by code_simp
  ultimately show ?thesis by (auto split: sum.splits)
qed

theorem rebased_tables_load_at_base_witness:
  "\<exists>s t. loader_actions 0 (\<lambda>k. 0x7000) s t =
    [Some (Store 8 0x402000 0x401010), Some (Store 8 0x402008 0x401004), Some (Store 8 0x402010 0x7000)]"
proof -
  obtain s t where st: "RebasedSymbols rebase_sample_symbols 0x400000 = Inr s" "RebasedRelocations rebase_sample_table 0x400000 = Inr t"
    using rebase_sample_ok by blast
  have "loader_actions 0x400000 (\<lambda>k. 0x7000) rebase_sample_symbols rebase_sample_table =
    [Some (Store 8 0x402000 0x401010), Some (Store 8 0x402008 0x401004), Some (Store 8 0x402010 0x7000)]"
    by code_simp
  then show ?thesis using rebased_tables_load_at_base [OF st, of "\<lambda>k. 0x7000"] by metis
qed

definition rebase_sample_headers :: bytes where
  "rebase_sample_headers =
     le_bytes 4 (1 :: u32) @ le_bytes 4 (5 :: u32) @ le_bytes 8 (0x1000 :: u64) @ le_bytes 8 (0x1000 :: u64) @ le_bytes 8 (0x1000 :: u64)
     @ le_bytes 8 (0x200 :: u64) @ le_bytes 8 (0x300 :: u64) @ le_bytes 8 (0x1000 :: u64)
     @ le_bytes 4 (0x6474e551 :: u32) @ replicate 52 0"

theorem rebased_headers_load_at_base_witness:
  "\<exists>buf'. loader_segment 0 (subbytes buf' 0 56) = (1, 5, 0x1000, 0x401000, 0x200, 0x300, 0x1000)"
proof -
  have "case RebaseProgramHeaders rebase_sample_headers 0 56 2 0x400000 of Inl _ \<Rightarrow> False | Inr _ \<Rightarrow> True" by code_simp
  then obtain buf' where r: "RebaseProgramHeaders rebase_sample_headers 0 56 2 0x400000 = Inr buf'"
    by (auto split: sum.splits)
  have l: "length rebase_sample_headers = 112" by (simp add: rebase_sample_headers_def)
  have "loader_segment 0x400000 (subbytes rebase_sample_headers 0 56) = (1, 5, 0x1000, 0x401000, 0x200, 0x300, 0x1000)"
    by code_simp
  then show ?thesis using rebased_headers_load_at_base [OF r] l by (force simp: Let_def)
qed

end
