(* ===== verification/Linux_Pages.thy ===== *)
theory Linux_Pages
  imports Linux_Rebase
begin

text \<open>
  \<open>SeparateSharedLoadPages\<close> (\<open>elfpatcher/src/linux/LinuxElfPatcher.cpp\<close>): the loads of a console executable may
  overlap and need not be congruent to their file offsets, while Linux maps whole pages. The pass shortens a load that the next
  one overlaps and copies a load to a page of its own where the pages of two loads meet. The results state that the memory
  image stays the same and that mapping the pages of a load does not disturb the loads below it.
\<close>

subsection \<open>The loads\<close>

definition is_load :: "program_header \<Rightarrow> bool" where
  "is_load h \<longleftrightarrow> ph_Type h = PT_LOAD \<and> ph_MemorySize h \<noteq> 0"

definition collect_loads :: "bytes \<Rightarrow> program_header list \<Rightarrow> nat list res" where
  "collect_loads buf headers =
     fold_res (\<lambda>index loads.
         if is_load (headers ! index)
         then bind_res (RequireFileRange buf (headers ! index)) (\<lambda>_. Inr (loads @ [index])) else Inr loads)
       [0..<length headers] []"

subsection \<open>Overlapping loads\<close>

definition overlap_error :: "program_header \<Rightarrow> exn" where
  "overlap_error current = RelinkerException ''Overlapping PT_LOAD memory ranges'' (ph_MappedAddress current)"

text \<open>The loop over the runs of the overlap, in each of which both loads have file bytes or only one has.\<close>

function congruent_from :: "bytes \<Rightarrow> program_header \<Rightarrow> program_header \<Rightarrow> u64 \<Rightarrow> u64 \<Rightarrow> bool" where
  "congruent_from buf previous current compareEnd address =
     (if address < compareEnd then
        let previousFileEnd = ph_MappedAddress previous + ph_FileSize previous;
            currentFileEnd = ph_MappedAddress current + ph_FileSize current;
            previousBacked = address < previousFileEnd;
            currentBacked = address < currentFileEnd;
            runEnd = (if previousBacked then min compareEnd previousFileEnd else compareEnd);
            runEnd = (if currentBacked then min runEnd currentFileEnd else runEnd);
            n = unat (runEnd - address);
            previousAt = unat (ph_Offset previous + (address - ph_MappedAddress previous));
            currentAt = unat (ph_Offset current + (address - ph_MappedAddress current))
        in (if previousBacked \<and> currentBacked then subbytes buf previousAt n = subbytes buf currentAt n
            else if previousBacked then list_all (\<lambda>b. b = 0) (subbytes buf previousAt n)
            else list_all (\<lambda>b. b = 0) (subbytes buf currentAt n))
           \<and> congruent_from buf previous current compareEnd runEnd
      else True)"
  by pat_completeness auto
termination
  by (relation "measure (\<lambda>(buf, previous, current, compareEnd, address). unat compareEnd - unat address)")
    (auto simp: word_less_nat_alt word_le_nat_alt min_def Let_def intro!: diff_less_mono2)

declare congruent_from.simps [simp del]

definition separate_step :: "bytes \<Rightarrow> nat list \<Rightarrow> nat \<Rightarrow> program_header list \<Rightarrow> program_header list res" where
  "separate_step buf loads position headers =
     (let previous = headers ! (loads ! (position - 1)); current = headers ! (loads ! position)
      in if ph_MappedAddress current - ph_MappedAddress previous \<ge> ph_MemorySize previous then Inr headers
         else
           let previousEnd = ph_MappedAddress previous + ph_MemorySize previous;
               flags = ph_Flags previous OR ph_Flags current;
               previousFileEnd = ph_MappedAddress previous + ph_FileSize previous;
               currentFileEnd = ph_MappedAddress current + ph_FileSize current;
               compareEnd = min previousEnd (max previousFileEnd currentFileEnd);
               memory = ph_MappedAddress current - ph_MappedAddress previous
           in if ph_MappedAddress current = ph_MappedAddress previous \<or>
                 previousEnd > ph_MappedAddress current + ph_MemorySize current
              then Inl (overlap_error current)
              else if flags AND (PF_W OR PF_X) = (PF_W OR PF_X) \<and> ph_MappedAddress current mod kDefaultLoadAlignment \<noteq> 0
              then Inl (overlap_error current)
              else if \<not> congruent_from buf previous current compareEnd (ph_MappedAddress current)
              then Inl (overlap_error current)
              else Inr (headers[loads ! (position - 1) := previous\<lparr>ph_MemorySize := memory,
                     ph_FileSize := (if ph_FileSize previous > memory then memory else ph_FileSize previous)\<rparr>]))"

subsection \<open>Loads on shared pages\<close>

text \<open>The bytes of a page in front of a load, and which of them belong to a load below.\<close>

definition paint :: "(nat \<Rightarrow> u8) \<Rightarrow> nat list \<Rightarrow> bytes \<times> bool list \<Rightarrow> bytes \<times> bool list" where
  "paint f indices st = foldl (\<lambda>(page, covered) i. (page[i := f i], covered[i := True])) st indices"

definition paint_load ::
    "bytes \<Rightarrow> u64 \<Rightarrow> program_header \<Rightarrow> program_header \<Rightarrow> bytes \<times> bool list \<Rightarrow> bytes \<times> bool list" where
  "paint_load buf pageStart load other st =
     (let stop = min (ph_MappedAddress other + ph_MemorySize other) (ph_MappedAddress load);
          start = max (ph_MappedAddress other) pageStart
      in paint (\<lambda>i. let relative = pageStart + of_nat i - ph_MappedAddress other
                     in if relative < ph_FileSize other then buf ! unat (ph_Offset other + relative) else 0)
           [unat (start - pageStart)..<(if start < stop then unat (stop - pageStart) else 0)] st)"

definition page_image :: "bytes \<Rightarrow> program_header list \<Rightarrow> nat list \<Rightarrow> nat \<Rightarrow> bytes \<times> bool list" where
  "page_image buf headers loads position =
     (let load = headers ! (loads ! position);
          prefix = ph_MappedAddress load mod kDefaultLoadAlignment
      in foldl (\<lambda>st below. paint_load buf (ph_MappedAddress load - prefix) load (headers ! (loads ! below)) st)
           (replicate (unat prefix) 0, replicate (unat prefix) False) [0..<position])"

definition page_differs :: "bytes \<Rightarrow> nat \<Rightarrow> bytes \<times> bool list \<Rightarrow> bool" where
  "page_differs buf mapped st =
     (case st of (page, covered) \<Rightarrow>
        list_ex (\<lambda>index. covered ! index \<and> buf ! (mapped + index) \<noteq> page ! index) [0..<length page])"

definition move_load :: "bytes \<Rightarrow> program_header \<Rightarrow> bytes \<Rightarrow> (bytes \<times> program_header) res" where
  "move_load buf load page =
     bind_res (AlignBuffer buf kDefaultLoadAlignment) (\<lambda>buf.
       let buf = buf @ page; offset = of_nat (length buf) :: u64;
           buf = resize_to (unat (offset + ph_FileSize load)) buf
       in Inr (blit buf (unat offset) (subbytes buf (unat (ph_Offset load)) (unat (ph_FileSize load))),
               load\<lparr>ph_Offset := offset, ph_Alignment := min (ph_Alignment load) kDefaultLoadAlignment\<rparr>))"

definition lowered_alignment :: "program_header \<Rightarrow> u64 \<Rightarrow> u64" where
  "lowered_alignment load lowered =
     (if ph_Alignment load > kDefaultLoadAlignment \<and> ph_Alignment load AND (ph_Alignment load - 1) = 0
      then max lowered (ph_Alignment load) else lowered)"

definition page_step ::
    "nat list \<Rightarrow> nat \<Rightarrow> bytes \<times> program_header list \<times> u64 \<Rightarrow> (bytes \<times> program_header list \<times> u64) res" where
  "page_step loads position st =
     (case st of (buf, headers, lowered) \<Rightarrow>
        let load = headers ! (loads ! position);
            prefix = ph_MappedAddress load mod kDefaultLoadAlignment;
            congruent = (ph_Offset load mod kDefaultLoadAlignment = prefix)
        in if ph_FileSize load = 0 \<or> congruent \<and> prefix = 0 then Inr st
           else
             let shared = page_image buf headers loads position
             in if congruent \<and> \<not> page_differs buf (unat (ph_Offset load - prefix)) shared then Inr st
                else bind_res (move_load buf load (fst shared)) (\<lambda>(buf, moved).
                  Inr (buf, headers[loads ! position := moved], lowered_alignment load lowered)))"

definition SeparateSharedLoadPages ::
    "bytes \<Rightarrow> program_header list \<Rightarrow> (bytes \<times> program_header list \<times> u64) res" where
  "SeparateSharedLoadPages buf headers =
     bind_res (collect_loads buf headers) (\<lambda>loads.
       let loads = sort_key (\<lambda>index. ph_MappedAddress (headers ! index)) loads
       in bind_res (fold_res (separate_step buf loads) [1..<length loads] headers) (\<lambda>headers.
            fold_res (page_step loads) [0..<length loads] (buf, headers, 0)))"


subsection \<open>The memory image\<close>

text \<open>Addresses, sizes and offsets of a load as numbers.\<close>

abbreviation (input) adr :: "program_header \<Rightarrow> nat" where "adr h \<equiv> unat (ph_MappedAddress h)"
abbreviation (input) mem :: "program_header \<Rightarrow> nat" where "mem h \<equiv> unat (ph_MemorySize h)"
abbreviation (input) fil :: "program_header \<Rightarrow> nat" where "fil h \<equiv> unat (ph_FileSize h)"
abbreviation (input) off :: "program_header \<Rightarrow> nat" where "off h \<equiv> unat (ph_Offset h)"

definition in_load :: "program_header \<Rightarrow> nat \<Rightarrow> bool" where
  "in_load h a \<longleftrightarrow> is_load h \<and> adr h \<le> a \<and> a < adr h + mem h"

definition segment_byte :: "bytes \<Rightarrow> program_header \<Rightarrow> nat \<Rightarrow> u8" where
  "segment_byte buf h a = (if a - adr h < fil h then buf ! (off h + (a - adr h)) else 0)"

text \<open>What the reader of the input guarantees of a load, and the file range that the pass itself checks.\<close>

definition proper :: "program_header \<Rightarrow> bool" where
  "proper h \<longleftrightarrow> (is_load h \<longrightarrow> fil h \<le> mem h \<and> adr h + mem h < 2 ^ 64)"

definition in_file :: "bytes \<Rightarrow> program_header \<Rightarrow> bool" where
  "in_file buf h \<longleftrightarrow> (is_load h \<longrightarrow> off h + fil h \<le> length buf)"

lemma unat_add_small: "unat x + unat y < 2 ^ 64 \<Longrightarrow> unat (x + y) = unat x + unat y" for x y :: u64
  by (simp add: unat_word_ariths)

lemma proper_ends:
  assumes "proper h" "is_load h"
  shows "unat (ph_MappedAddress h + ph_FileSize h) = adr h + fil h"
    and "unat (ph_MappedAddress h + ph_MemorySize h) = adr h + mem h" and "fil h \<le> mem h" and "adr h + mem h < 2 ^ 64"
  using assms by (auto simp: proper_def intro!: unat_add_small)

lemma unat_min_max: "unat (min x y) = min (unat x) (unat y)" "unat (max x y) = max (unat x) (unat y)" for x y :: u64
  by (simp_all add: min_def max_def word_le_nat_alt)

text \<open>The offset of the file byte at an address.\<close>

lemma file_position:
  assumes "adr h \<le> unat a" "unat a < adr h + fil h" "off h + fil h \<le> length buf" "length buf < 2 ^ 64"
  shows "unat (ph_Offset h + (a - ph_MappedAddress h)) = off h + (unat a - adr h)"
proof -
  have d: "unat (a - ph_MappedAddress h) = unat a - adr h"
    using assms(1) by (intro unat_sub_le) (simp only: word_le_nat_alt)
  then have "off h + unat (a - ph_MappedAddress h) < 2 ^ 64" using assms by linarith
  from unat_add_small [OF this] show ?thesis using d by simp
qed

lemma subbytes_segment:
  assumes "adr h \<le> unat a" "unat a + n \<le> adr h + fil h" "0 < n" "off h + fil h \<le> length buf" "length buf < 2 ^ 64"
    and "unat a \<le> x" "x < unat a + n"
  shows "subbytes buf (unat (ph_Offset h + (a - ph_MappedAddress h))) n ! (x - unat a) = segment_byte buf h x"
    and "x - unat a < length (subbytes buf (unat (ph_Offset h + (a - ph_MappedAddress h))) n)"
proof -
  have p: "unat (ph_Offset h + (a - ph_MappedAddress h)) = off h + (unat a - adr h)"
    using assms by (intro file_position) linarith+
  have fit: "off h + (unat a - adr h) + n \<le> length buf" using assms by linarith
  have "x - adr h < fil h" using assms by linarith
  moreover have "off h + (unat a - adr h) + (x - unat a) = off h + (x - adr h)" using assms by linarith
  ultimately show "subbytes buf (unat (ph_Offset h + (a - ph_MappedAddress h))) n ! (x - unat a) = segment_byte buf h x"
    using fit assms(6,7) by (simp add: p nth_subbytes segment_byte_def)
  show "x - unat a < length (subbytes buf (unat (ph_Offset h + (a - ph_MappedAddress h))) n)"
    using fit assms(6,7) by (simp add: p length_subbytes)
qed

lemma congruent_from_bytes:
  assumes "congruent_from buf p c e a"
    and "proper p" "proper c" "is_load p" "is_load c" "in_file buf p" "in_file buf c" "length buf < 2 ^ 64"
    and "adr p \<le> adr c" "adr c \<le> unat a" "unat e \<le> max (adr p + fil p) (adr c + fil c)"
    and "unat a \<le> x" "x < unat e"
  shows "segment_byte buf p x = segment_byte buf c x"
  using assms
proof (induction buf p c e a rule: congruent_from.induct)
  case (1 buf p c e a)
  note pe = proper_ends [OF 1(3) 1(5)] and ce = proper_ends [OF 1(4) 1(6)]
  have fp: "off p + fil p \<le> length buf" and fc: "off c + fil c \<le> length buf"
    using 1 by (simp_all add: in_file_def)
  have ae: "a < e" using 1(13,14) by (simp only: word_less_nat_alt)
  define r1 where "r1 = (if a < ph_MappedAddress p + ph_FileSize p then min e (ph_MappedAddress p + ph_FileSize p) else e)"
  define r where "r = (if a < ph_MappedAddress c + ph_FileSize c then min r1 (ph_MappedAddress c + ph_FileSize c) else r1)"
  let ?pb = "unat a < adr p + fil p" and ?cb = "unat a < adr c + fil c"
  have pb: "(a < ph_MappedAddress p + ph_FileSize p) = ?pb" and cb: "(a < ph_MappedAddress c + ph_FileSize c) = ?cb"
    by (simp_all only: word_less_nat_alt pe ce)
  have r1: "unat r1 = (if ?pb then min (unat e) (adr p + fil p) else unat e)"
    by (simp add: r1_def pb unat_min_max pe)
  have r: "unat r = (if ?cb then min (unat r1) (adr c + fil c) else unat r1)"
    by (simp add: r_def cb unat_min_max ce)
  have ar: "unat a < unat r" "unat r \<le> unat e" using r r1 ae by (auto simp: word_less_nat_alt)
  have rp: "?pb \<Longrightarrow> unat r \<le> adr p + fil p" and rc: "?cb \<Longrightarrow> unat r \<le> adr c + fil c"
    unfolding r r1 by (simp_all add: min_le_iff_disj)
  have n: "unat (r - a) = unat r - unat a" using ar(1) by (intro unat_sub_le) (simp add: word_le_nat_alt)
  have run: "(if ?pb \<and> ?cb then subbytes buf (unat (ph_Offset p + (a - ph_MappedAddress p))) (unat (r - a))
        = subbytes buf (unat (ph_Offset c + (a - ph_MappedAddress c))) (unat (r - a))
      else if ?pb then list_all (\<lambda>b. b = 0) (subbytes buf (unat (ph_Offset p + (a - ph_MappedAddress p))) (unat (r - a)))
      else list_all (\<lambda>b. b = 0) (subbytes buf (unat (ph_Offset c + (a - ph_MappedAddress c))) (unat (r - a))))
    \<and> congruent_from buf p c e r"
    using 1(2) unfolding congruent_from.simps [of buf p c e a] if_P [OF ae] Let_def pb cb r1_def r_def .
  show ?case
  proof (cases "x < unat r")
    case True
    have pos: "0 < unat (r - a)" using n ar by simp
    have x: "unat a \<le> x" "x < unat a + unat (r - a)" using 1(13) True n by simp_all
    have sp: "subbytes buf (unat (ph_Offset p + (a - ph_MappedAddress p))) (unat (r - a)) ! (x - unat a) = segment_byte buf p x
        \<and> x - unat a < length (subbytes buf (unat (ph_Offset p + (a - ph_MappedAddress p))) (unat (r - a)))" if ?pb
    proof -
      have "unat a + unat (r - a) \<le> adr p + fil p" using rp [OF that] n ar(1) by linarith
      moreover have "adr p \<le> unat a" using 1(10,11) by linarith
      ultimately show ?thesis using subbytes_segment [OF _ _ pos fp 1(9) x] by blast
    qed
    have sc: "subbytes buf (unat (ph_Offset c + (a - ph_MappedAddress c))) (unat (r - a)) ! (x - unat a) = segment_byte buf c x
        \<and> x - unat a < length (subbytes buf (unat (ph_Offset c + (a - ph_MappedAddress c))) (unat (r - a)))" if ?cb
    proof -
      have "unat a + unat (r - a) \<le> adr c + fil c" using rc [OF that] n ar(1) by linarith
      then show ?thesis using subbytes_segment [OF 1(11) _ pos fc 1(9) x] by blast
    qed
    have zp: "segment_byte buf p x = 0" if "\<not> ?pb"
    proof -
      have "\<not> x - adr p < fil p" using that x by arith
      then show ?thesis by (simp add: segment_byte_def)
    qed
    have zc: "segment_byte buf c x = 0" if "\<not> ?cb"
    proof -
      have "\<not> x - adr c < fil c" using that x by arith
      then show ?thesis by (simp add: segment_byte_def)
    qed
    show ?thesis
    proof (cases ?pb)
      case pb: True
      show ?thesis
      proof (cases ?cb)
        case True
        then show ?thesis using run sp sc pb by metis
      next
        case False
        then show ?thesis using run sp pb zc by (auto simp: list_all_length)
      qed
    next
      case pb: False
      then have cb: ?cb using 1(12,13,14) by linarith
      then show ?thesis using run sc pb zp by (auto simp: list_all_length)
    qed
  next
    case False
    have rr: "congruent_from buf p c e r" using run by simp
    have "adr c \<le> unat r" using 1(11) ar(1) by linarith
    moreover have "unat r \<le> x" using False by simp
    ultimately show ?thesis
      using 1(1) [OF ae refl refl refl refl r1_def r_def refl refl refl rr 1(3-10) _ 1(12) _ 1(14)] by blast
  qed
qed


subsection \<open>Shortening the loads\<close>

text \<open>What a step has checked of two neighbours, and what it makes of the first.\<close>

definition follows :: "bytes \<Rightarrow> program_header \<Rightarrow> program_header \<Rightarrow> bool" where
  "follows buf p c \<longleftrightarrow> adr p + mem p \<le> adr c \<or>
     (adr p < adr c \<and> adr p + mem p \<le> adr c + mem c \<and>
      (\<forall>x. adr c \<le> x \<and> x < adr p + mem p \<longrightarrow> segment_byte buf p x = segment_byte buf c x))"

definition shortened :: "program_header \<Rightarrow> program_header \<Rightarrow> program_header" where
  "shortened p c =
     (let memory = ph_MappedAddress c - ph_MappedAddress p
      in if memory \<ge> ph_MemorySize p then p
         else p\<lparr>ph_MemorySize := memory, ph_FileSize := (if ph_FileSize p > memory then memory else ph_FileSize p)\<rparr>)"

lemma gap:
  assumes "adr p \<le> adr c"
  shows "unat (ph_MappedAddress c - ph_MappedAddress p) = adr c - adr p"
  using assms by (intro unat_sub_le) (simp only: word_le_nat_alt)

lemma separate_step_Inr:
  assumes "separate_step buf loads position headers = Inr headers'"
    and "p = headers ! (loads ! (position - 1))" "c = headers ! (loads ! position)"
    and "is_load p" "is_load c" "proper p" "proper c" "in_file buf p" "in_file buf c" "length buf < 2 ^ 64" "adr p \<le> adr c"
  shows "headers' = headers[loads ! (position - 1) := shortened p c] \<and> follows buf p c"
proof (cases "ph_MappedAddress c - ph_MappedAddress p \<ge> ph_MemorySize p")
  case True
  then have h: "headers' = headers" "shortened p c = p"
    using assms(1-3) by (simp_all add: separate_step_def shortened_def Let_def)
  have "mem p \<le> adr c - adr p" using True gap [OF assms(11)] by (simp only: word_le_nat_alt)
  then have "adr p + mem p \<le> adr c" using assms(11) by linarith
  then show ?thesis using h assms(2) by (simp add: follows_def)
next
  case False
  note pe = proper_ends [OF assms(6,4)] and ce = proper_ends [OF assms(7,5)]
  let ?pend = "ph_MappedAddress p + ph_MemorySize p"
  let ?e = "min ?pend (max (ph_MappedAddress p + ph_FileSize p) (ph_MappedAddress c + ph_FileSize c))"
  have ok: "\<not> (ph_MappedAddress c = ph_MappedAddress p \<or> ?pend > ph_MappedAddress c + ph_MemorySize c)"
    "congruent_from buf p c ?e (ph_MappedAddress c)" and h: "headers' = headers[loads ! (position - 1) := shortened p c]"
    using assms(1) False unfolding separate_step_def shortened_def Let_def assms(2,3) by (simp_all split: if_splits)
  have lt: "adr p < adr c" using ok(1) assms(11) by (simp add: word_unat_eq_iff)
  have le: "adr p + mem p \<le> adr c + mem c" using ok(1) by (simp add: not_less word_le_nat_alt pe ce)
  have e: "unat ?e = min (adr p + mem p) (max (adr p + fil p) (adr c + fil c))" by (simp only: unat_min_max pe ce)
  have "segment_byte buf p x = segment_byte buf c x" if x: "adr c \<le> x" "x < adr p + mem p" for x
  proof (cases "x < unat ?e")
    case True
    have "unat ?e \<le> max (adr p + fil p) (adr c + fil c)" unfolding e by (rule min.cobounded2)
    from congruent_from_bytes [OF ok(2) assms(6,7,4,5,8,9,10,11) _ this x(1) True] show ?thesis by simp
  next
    case False
    then have "adr p + fil p \<le> x" "adr c + fil c \<le> x" using x(2) unfolding e by (auto simp: min_def max_def split: if_splits)
    then have "\<not> x - adr p < fil p" "\<not> x - adr c < fil c" by linarith+
    then show ?thesis by (simp add: segment_byte_def)
  qed
  then show ?thesis using h lt le by (simp add: follows_def)
qed

lemma shortened_load:
  assumes "follows buf p c" "is_load p" "proper p" "in_file buf p" "adr p \<le> adr c"
  shows "is_load (shortened p c)" "adr (shortened p c) = adr p" "off (shortened p c) = off p"
    and "adr p + mem (shortened p c) = min (adr p + mem p) (adr c)" "fil (shortened p c) \<le> mem (shortened p c)"
    and "fil (shortened p c) \<le> fil p"
    and "x < adr p + mem (shortened p c) \<Longrightarrow> segment_byte buf (shortened p c) x = segment_byte buf p x"
proof -
  note g = gap [OF assms(5)] and pe = proper_ends [OF assms(3,2)]
  have mm: "mem (shortened p c) = min (mem p) (adr c - adr p)"
    by (auto simp: shortened_def Let_def word_le_nat_alt g)
  have ff: "fil (shortened p c) = min (fil p) (mem (shortened p c))"
    using pe(3) by (auto simp: shortened_def Let_def word_le_nat_alt word_less_nat_alt g)
  show "adr (shortened p c) = adr p" "off (shortened p c) = off p" by (auto simp: shortened_def Let_def)
  show "adr p + mem (shortened p c) = min (adr p + mem p) (adr c)" using assms(5) unfolding mm by (auto simp: min_def)
  show "fil (shortened p c) \<le> mem (shortened p c)" "fil (shortened p c) \<le> fil p" unfolding ff by simp_all
  have "0 < mem p" using assms(2) by (simp add: is_load_def unat_gt_0)
  then have "0 < mem (shortened p c)" using assms(1) unfolding mm follows_def by auto
  then show "is_load (shortened p c)" using assms(2) by (auto simp: is_load_def shortened_def Let_def unat_gt_0)
  have "x - adr p < mem (shortened p c)" if "x < adr p + mem (shortened p c)"
    using that \<open>0 < mem (shortened p c)\<close> by arith
  then show "x < adr p + mem (shortened p c) \<Longrightarrow> segment_byte buf (shortened p c) x = segment_byte buf p x"
    using \<open>adr (shortened p c) = adr p\<close> \<open>off (shortened p c) = off p\<close> by (simp add: segment_byte_def ff)
qed

subsection \<open>The loads after the first loop\<close>

text \<open>The loads in the order of their addresses, as a function of the position.\<close>

definition cut :: "(nat \<Rightarrow> program_header) \<Rightarrow> nat \<Rightarrow> nat \<Rightarrow> program_header" where
  "cut h n p = (if p + 1 < n then shortened (h p) (h (p + 1)) else h p)"

definition chain :: "bytes \<Rightarrow> (nat \<Rightarrow> program_header) \<Rightarrow> nat \<Rightarrow> bool" where
  "chain buf h n \<longleftrightarrow>
     (\<forall>p < n. is_load (h p) \<and> proper (h p) \<and> in_file buf (h p)) \<and>
     (\<forall>p. p + 1 < n \<longrightarrow> adr (h p) \<le> adr (h (p + 1)) \<and> follows buf (h p) (h (p + 1)))"

lemma chain_sorted: "chain buf h n \<Longrightarrow> p \<le> q \<Longrightarrow> q < n \<Longrightarrow> adr (h p) \<le> adr (h q)"
proof (induction q)
  case (Suc q)
  then show ?case by (cases "p = Suc q") (auto simp: chain_def intro: le_trans)
qed simp

lemma cut_load:
  assumes "chain buf h n" "p < n"
  shows "is_load (cut h n p)" "adr (cut h n p) = adr (h p)" "off (cut h n p) = off (h p)"
    "adr (h p) + mem (cut h n p) = (if p + 1 < n then min (adr (h p) + mem (h p)) (adr (h (p + 1))) else adr (h p) + mem (h p))"
    "fil (cut h n p) \<le> mem (cut h n p)" "fil (cut h n p) \<le> fil (h p)"
    "x < adr (h p) + mem (cut h n p) \<Longrightarrow> segment_byte buf (cut h n p) x = segment_byte buf (h p) x"
proof -
  have h: "is_load (h p)" "proper (h p)" "in_file buf (h p)" using assms by (auto simp: chain_def)
  have f: "follows buf (h p) (h (p + 1))" "adr (h p) \<le> adr (h (p + 1))" if "p + 1 < n" using assms(1) that by (auto simp: chain_def)
  note s = shortened_load [OF f(1) h f(2)]
  show "is_load (cut h n p)" "adr (cut h n p) = adr (h p)" "off (cut h n p) = off (h p)"
    "adr (h p) + mem (cut h n p) = (if p + 1 < n then min (adr (h p) + mem (h p)) (adr (h (p + 1))) else adr (h p) + mem (h p))"
    "fil (cut h n p) \<le> mem (cut h n p)" "fil (cut h n p) \<le> fil (h p)"
    "x < adr (h p) + mem (cut h n p) \<Longrightarrow> segment_byte buf (cut h n p) x = segment_byte buf (h p) x"
    using s h(1) proper_ends(3) [OF h(2,1)] by (auto simp: cut_def)
qed

lemma cut_end: "chain buf h n \<Longrightarrow> p < q \<Longrightarrow> q < n \<Longrightarrow> adr (h p) + mem (cut h n p) \<le> adr (h q)"
  using cut_load(4) [of buf h n p] chain_sorted [of buf h n "p + 1" q] by auto

lemma cut_apart:
  assumes "chain buf h n" "p < n" "q < n" "in_load (cut h n p) a" "in_load (cut h n q) a"
  shows "p = q"
proof (rule ccontr)
  assume "p \<noteq> q"
  then consider "p < q" | "q < p" by linarith
  then show False
    using assms cut_end [OF assms(1), of p q] cut_end [OF assms(1), of q p] by cases (auto simp: in_load_def cut_load)
qed

lemma cut_covers:
  assumes "chain buf h n" "p < n" "in_load (h p) a"
  shows "\<exists>q < n. in_load (cut h n q) a \<and> segment_byte buf (cut h n q) a = segment_byte buf (h p) a"
  using assms(2,3)
proof (induction "n - p" arbitrary: p rule: less_induct)
  case less
  note c = cut_load [OF assms(1) less(2)]
  show ?case
  proof (cases "a < adr (h p) + mem (cut h n p)")
    case True
    then show ?thesis using c(1,2,7) less(2,3) by (auto simp: in_load_def)
  next
    case False
    then have next': "p + 1 < n" "adr (h (p + 1)) \<le> a"
      using c(4) less(3) by (auto simp: in_load_def split: if_splits)
    then have f: "follows buf (h p) (h (p + 1))" "is_load (h (p + 1))" using assms(1) by (auto simp: chain_def)
    have a: "a < adr (h p) + mem (h p)" using less(3) by (simp add: in_load_def)
    with next' f have i: "in_load (h (p + 1)) a" "segment_byte buf (h p) a = segment_byte buf (h (p + 1)) a"
      by (auto simp: follows_def in_load_def)
    have "n - (p + 1) < n - p" using less(2) by simp
    from less(1) [OF this next'(1) i(1)] i(2) show ?thesis by simp
  qed
qed

lemma cut_within:
  assumes "chain buf h n" "p < n" "in_load (cut h n p) a"
  shows "in_load (h p) a" "segment_byte buf (cut h n p) a = segment_byte buf (h p) a"
proof -
  note c = cut_load [OF assms(1,2)]
  have a: "adr (h p) \<le> a" "a < adr (h p) + mem (cut h n p)" using assms(3) c(2) by (auto simp: in_load_def)
  then have "a < adr (h p) + mem (h p)" using c(4) by (auto split: if_splits)
  then show "in_load (h p) a" using a(1) assms(1,2) by (simp add: in_load_def chain_def)
  show "segment_byte buf (cut h n p) a = segment_byte buf (h p) a" by (rule c(7) [OF a(2)])
qed


lemma RequireFileRange_Inr:
  assumes "RequireFileRange buf h = Inr u" "length buf < 2 ^ 64"
  shows "off h + fil h \<le> length buf"
proof -
  have l: "unat (of_nat (length buf) :: u64) = length buf" using assms(2) by (simp add: unat_of_nat)
  have "ph_Offset h \<le> of_nat (length buf) \<and> ph_FileSize h \<le> of_nat (length buf) - ph_Offset h"
    using assms(1) by (auto simp: RequireFileRange_def not_less split: if_splits)
  then have "off h \<le> length buf" "fil h \<le> length buf - off h"
    using l unat_sub_le [of "ph_Offset h" "of_nat (length buf)"] by (simp_all add: word_le_nat_alt)
  then show ?thesis by linarith
qed

lemma collect_loads_Inr:
  assumes "collect_loads buf headers = Inr loads" "length buf < 2 ^ 64"
  shows "loads = filter (\<lambda>i. is_load (headers ! i)) [0..<length headers] \<and> (\<forall>i \<in> set loads. in_file buf (headers ! i))"
  using assms(1) unfolding collect_loads_def
proof (rule fold_res_upt_invariant [where P = "\<lambda>k loads. loads = filter (\<lambda>i. is_load (headers ! i)) [0..<k] \<and>
      (\<forall>i \<in> set loads. in_file buf (headers ! i))"])
  show "[] = filter (\<lambda>i. is_load (headers ! i)) [0..<0] \<and> (\<forall>i \<in> set []. in_file buf (headers ! i))" by simp
next
  fix i s s'
  assume "s = filter (\<lambda>i. is_load (headers ! i)) [0..<i] \<and> (\<forall>i \<in> set s. in_file buf (headers ! i))"
    and "(if is_load (headers ! i) then bind_res (RequireFileRange buf (headers ! i)) (\<lambda>_. Inr (s @ [i])) else Inr s) = Inr s'"
  then show "s' = filter (\<lambda>i. is_load (headers ! i)) [0..<Suc i] \<and> (\<forall>i \<in> set s'. in_file buf (headers ! i))"
    by (auto simp: res_simps in_file_def dest: RequireFileRange_Inr [OF _ assms(2)] split: if_splits)
qed

text \<open>What the two loops rely on: the indices of the loads, in the order of their addresses.\<close>

definition load_order :: "bytes \<Rightarrow> program_header list \<Rightarrow> nat list \<Rightarrow> bool" where
  "load_order buf headers loads \<longleftrightarrow>
     distinct loads \<and> set loads = {i. i < length headers \<and> is_load (headers ! i)} \<and>
     (\<forall>i \<in> set loads. in_file buf (headers ! i) \<and> proper (headers ! i)) \<and>
     (\<forall>p. p + 1 < length loads \<longrightarrow> adr (headers ! (loads ! p)) \<le> adr (headers ! (loads ! (p + 1))))"

lemma load_order_sorted:
  assumes "collect_loads buf headers = Inr loads" "length buf < 2 ^ 64" "\<forall>h \<in> set headers. proper h"
  shows "load_order buf headers (sort_key (\<lambda>index. ph_MappedAddress (headers ! index)) loads)"
proof -
  note c = collect_loads_Inr [OF assms(1,2)]
  let ?l = "sort_key (\<lambda>index. ph_MappedAddress (headers ! index)) loads"
  have "sorted (map (\<lambda>index. ph_MappedAddress (headers ! index)) ?l)" by simp
  then have "ph_MappedAddress (headers ! (?l ! p)) \<le> ph_MappedAddress (headers ! (?l ! (p + 1)))" if "p + 1 < length ?l" for p
    using that by (auto simp: sorted_iff_nth_mono)
  then show ?thesis using c assms(3) by (auto simp: load_order_def word_le_nat_alt)
qed

lemma separate_fold:
  assumes "load_order buf headers loads" "length buf < 2 ^ 64"
    and "fold_res (separate_step buf loads) [1..<length loads] headers = Inr headers'"
  shows "chain buf (\<lambda>p. headers ! (loads ! p)) (length loads)" and "length headers' = length headers"
    and "p < length loads \<Longrightarrow> headers' ! (loads ! p) = cut (\<lambda>p. headers ! (loads ! p)) (length loads) p"
    and "i \<notin> set loads \<Longrightarrow> headers' ! i = headers ! i"
proof -
  let ?h = "\<lambda>p. headers ! (loads ! p)" and ?n = "length loads"
  have d: "distinct loads" and lt: "\<forall>i \<in> set loads. i < length headers"
    and h: "\<forall>p < ?n. is_load (?h p) \<and> proper (?h p) \<and> in_file buf (?h p)"
    and s: "\<forall>p. p + 1 < ?n \<longrightarrow> adr (?h p) \<le> adr (?h (p + 1))"
    using assms(1) nth_mem by (auto simp: load_order_def)
  define P where "P k hs \<longleftrightarrow> length hs = length headers \<and> (\<forall>i. i \<notin> set loads \<longrightarrow> hs ! i = headers ! i) \<and>
    (\<forall>p < ?n. hs ! (loads ! p) = (if p + 1 < k then shortened (?h p) (?h (p + 1)) else ?h p)) \<and>
    (\<forall>p. p + 1 < k \<longrightarrow> follows buf (?h p) (?h (p + 1)))" for k hs
  have step: "P (Suc k) hs'" if "P k hs" "1 \<le> k" "k < ?n" "separate_step buf loads k hs = Inr hs'" for k hs hs'
  proof -
    have prev: "hs ! (loads ! (k - 1)) = ?h (k - 1)" and cur: "hs ! (loads ! k) = ?h k"
      using that unfolding P_def by auto
    have k1: "k - 1 < ?n" "k - 1 + 1 < ?n" "k - 1 + 1 = k" using that(2,3) by auto
    have "hs' = hs[loads ! (k - 1) := shortened (?h (k - 1)) (?h k)] \<and> follows buf (?h (k - 1)) (?h k)"
    proof (rule separate_step_Inr [OF that(4) prev [symmetric] cur [symmetric]])
      show "adr (?h (k - 1)) \<le> adr (?h k)" using s [rule_format, OF k1(2)] k1(3) by simp
    qed (use h that(3) k1(1) assms(2) in auto)
    then have hs': "hs' = hs[loads ! (k - 1) := shortened (?h (k - 1)) (?h k)]" and f: "follows buf (?h (k - 1)) (?h k)" by auto
    have "hs' ! (loads ! p) = (if p + 1 < Suc k then shortened (?h p) (?h (p + 1)) else ?h p)" if p: "p < ?n" for p
    proof (cases "p = k - 1")
      case True
      have "loads ! (k - 1) < length hs" using lt nth_mem [OF k1(1)] that(1) \<open>P k hs\<close> unfolding P_def by auto
      then show ?thesis unfolding hs' True using k1(3) by simp
    next
      case False
      then have "loads ! p \<noteq> loads ! (k - 1)" using d p k1(1) by (simp add: nth_eq_iff_index_eq)
      then show ?thesis using \<open>P k hs\<close> p False unfolding hs' P_def by auto
    qed
    moreover have "follows buf (?h p) (?h (p + 1))" if "p + 1 < Suc k" for p
      using that f \<open>P k hs\<close> k1(3) unfolding P_def by (cases "p = k - 1") auto
    moreover have "hs' ! i = headers ! i" if "i \<notin> set loads" for i
      using that \<open>P k hs\<close> nth_mem [OF k1(1)] unfolding hs' P_def by (metis nth_list_update_neq)
    moreover have "length hs' = length headers" using \<open>P k hs\<close> unfolding hs' P_def by simp
    ultimately show ?thesis unfolding P_def by blast
  qed
  have "P k hs" if "fold_res (separate_step buf loads) [1..<k] headers = Inr hs" "k \<le> ?n" for k hs
    using that
  proof (induction k arbitrary: hs)
    case 0
    then show ?case by (simp add: P_def)
  next
    case (Suc k)
    show ?case
    proof (cases "k = 0")
      case True
      then show ?thesis using Suc.prems by (simp add: P_def)
    next
      case False
      then obtain t where t: "fold_res (separate_step buf loads) [1..<k] headers = Inr t" "separate_step buf loads k t = Inr hs"
        using Suc.prems(1) by (auto simp: fold_res_append res_simps)
      from Suc.IH [OF t(1)] Suc.prems(2) False t(2) show ?thesis by (intro step) auto
    qed
  qed
  from this [OF assms(3)] have P: "P ?n headers'" by simp
  then show "chain buf ?h ?n" using h s unfolding P_def chain_def by blast
  show "length headers' = length headers" "i \<notin> set loads \<Longrightarrow> headers' ! i = headers ! i"
    "p < ?n \<Longrightarrow> headers' ! (loads ! p) = cut ?h ?n p"
    using P unfolding P_def cut_def by auto
qed


subsection \<open>The page in front of a load\<close>

abbreviation (input) prefix_of :: "program_header \<Rightarrow> nat" where "prefix_of h \<equiv> adr h mod 4096"

lemma unat_prefix: "unat (ph_MappedAddress h mod kDefaultLoadAlignment) = prefix_of h"
  by (simp add: unat_mod_distrib)

lemma unat_page_start: "unat (ph_MappedAddress h - ph_MappedAddress h mod kDefaultLoadAlignment) = adr h - prefix_of h"
proof -
  have "ph_MappedAddress h mod kDefaultLoadAlignment \<le> ph_MappedAddress h"
    by (simp only: word_le_nat_alt unat_prefix mod_less_eq_dividend)
  from unat_sub_le [OF this] show ?thesis by (simp only: unat_prefix)
qed

lemma paint_nth:
  assumes "length covered = length page"
  shows "length (fst (paint f ks (page, covered))) = length page" "length (snd (paint f ks (page, covered))) = length page"
    and "i < length page \<Longrightarrow> fst (paint f ks (page, covered)) ! i = (if i \<in> set ks then f i else page ! i)"
    and "i < length page \<Longrightarrow> snd (paint f ks (page, covered)) ! i = (i \<in> set ks \<or> covered ! i)"
proof -
  have "length (fst (paint f ks (page, covered))) = length page \<and> length (snd (paint f ks (page, covered))) = length page \<and>
    (\<forall>i < length page. fst (paint f ks (page, covered)) ! i = (if i \<in> set ks then f i else page ! i) \<and>
       snd (paint f ks (page, covered)) ! i = (i \<in> set ks \<or> covered ! i))"
    unfolding paint_def using assms
  proof (induction ks arbitrary: page covered)
    case (Cons j js)
    have "length (covered[j := True]) = length (page[j := f j])" using Cons.prems by simp
    from Cons.IH [OF this] show ?case using Cons.prems by (auto simp: nth_list_update)
  qed simp
  then show "length (fst (paint f ks (page, covered))) = length page" "length (snd (paint f ks (page, covered))) = length page"
    "i < length page \<Longrightarrow> fst (paint f ks (page, covered)) ! i = (if i \<in> set ks then f i else page ! i)"
    "i < length page \<Longrightarrow> snd (paint f ks (page, covered)) ! i = (i \<in> set ks \<or> covered ! i)" by blast+
qed

text \<open>The byte that the loop takes from a load below.\<close>

lemma load_byte:
  assumes "is_load h" "in_file buf h" "length buf < 2 ^ 64" "adr h \<le> unat x"
  shows "(let relative = x - ph_MappedAddress h
          in if relative < ph_FileSize h then buf ! unat (ph_Offset h + relative) else 0) = segment_byte buf h (unat x)"
proof -
  have d: "unat (x - ph_MappedAddress h) = unat x - adr h"
    using assms(4) by (intro unat_sub_le) (simp only: word_le_nat_alt)
  have f: "off h + fil h \<le> length buf" using assms(1,2) by (simp add: in_file_def)
  show ?thesis
  proof (cases "unat x - adr h < fil h")
    case True
    then have "unat x < adr h + fil h" using assms(4) by linarith
    from file_position [OF assms(4) this f assms(3)] True d show ?thesis
      by (simp add: Let_def word_less_nat_alt segment_byte_def)
  next
    case False
    then show ?thesis using d by (simp add: Let_def word_less_nat_alt segment_byte_def)
  qed
qed

lemma painted_range:
  fixes start :: nat
  assumes "i < n"
  shows "max a start - start \<le> i \<and> i < (if max a start < min e (start + n) then min e (start + n) - start else 0) \<longleftrightarrow>
    a \<le> start + i \<and> start + i < e"
  using assms by (auto simp: max_def min_def)

lemma paint_load_nth:
  fixes load :: program_header
  defines "page_start \<equiv> ph_MappedAddress load - ph_MappedAddress load mod kDefaultLoadAlignment"
  assumes "is_load other" "proper other" "in_file buf other" "length buf < 2 ^ 64"
    and "length page = prefix_of load" "length covered = length page" "i < prefix_of load"
    and x: "x = adr load - prefix_of load + i"
  shows "length (fst (paint_load buf page_start load other (page, covered))) = length page"
    "length (snd (paint_load buf page_start load other (page, covered))) = length page"
    "fst (paint_load buf page_start load other (page, covered)) ! i = (if in_load other x then segment_byte buf other x else page ! i)"
    "snd (paint_load buf page_start load other (page, covered)) ! i = (in_load other x \<or> covered ! i)"
proof -
  let ?stop = "min (ph_MappedAddress other + ph_MemorySize other) (ph_MappedAddress load)"
  let ?start = "max (ph_MappedAddress other) page_start"
  let ?is = "[unat (?start - page_start)..<(if ?start < ?stop then unat (?stop - page_start) else 0)]"
  have le: "prefix_of load \<le> adr load" by (rule mod_less_eq_dividend)
  have ps: "unat page_start = adr load - prefix_of load" unfolding page_start_def by (rule unat_page_start)
  have start: "unat ?start = max (adr other) (unat page_start)" by (rule unat_min_max)
  have stop: "unat ?stop = min (adr other + mem other) (adr load)"
    by (simp only: unat_min_max proper_ends [OF assms(3,2)])
  have d: "unat (?start - page_start) = unat ?start - unat page_start" by (rule unat_sub_le) simp
  have e: "unat (?stop - page_start) = unat ?stop - unat page_start" if "?start < ?stop"
    using that by (intro unat_sub_le) (meson less_imp_le max.cobounded2 order_trans)
  have L: "adr load - prefix_of load + prefix_of load = adr load" using le by simp
  have lt: "?start < ?stop \<longleftrightarrow> max (adr other) (adr load - prefix_of load) < min (adr other + mem other) (adr load)"
    by (simp only: word_less_nat_alt start stop ps)
  have hi: "(if ?start < ?stop then unat (?stop - page_start) else 0) =
    (if max (adr other) (adr load - prefix_of load) < min (adr other + mem other) (adr load)
     then min (adr other + mem other) (adr load) - (adr load - prefix_of load) else 0)"
  proof (cases "?start < ?stop")
    case True
    then show ?thesis using lt e [OF True] by (simp only: if_True stop ps simp_thms)
  next
    case False
    then show ?thesis using lt by (simp only: if_False simp_thms)
  qed
  have range: "i \<in> set ?is \<longleftrightarrow> in_load other x"
    unfolding set_upt atLeastLessThan_iff hi d start ps x
    using painted_range [OF assms(8), of "adr other" "adr load - prefix_of load" "adr other + mem other"] assms(2)
    unfolding L by (simp add: in_load_def)
  have xi: "unat (page_start + of_nat i) = x"
  proof -
    have "i < 4096" using assms(8) by (rule less_trans) simp
    then have i: "unat (of_nat i :: u64) = i" by (simp add: unat_of_nat)
    have "unat page_start + unat (of_nat i :: u64) < 2 ^ 64"
    proof -
      have "unat page_start + i < adr load" using ps assms(8) L by linarith
      also have "\<dots> < 2 ^ LENGTH(64)" by (rule unsigned_less)
      finally show ?thesis by (simp only: i len_of_numeral_64)
    qed
    from unat_add_small [OF this] show ?thesis using i ps x by simp
  qed
  note p = paint_nth [OF assms(7), where f = "\<lambda>i. let relative = page_start + of_nat i - ph_MappedAddress other
      in if relative < ph_FileSize other then buf ! unat (ph_Offset other + relative) else 0" and ks = ?is]
  show "length (fst (paint_load buf page_start load other (page, covered))) = length page"
    "length (snd (paint_load buf page_start load other (page, covered))) = length page"
    unfolding paint_load_def Let_def using p(1,2) unfolding Let_def by auto
  have i: "i < length page" using assms(6,8) by simp
  show "snd (paint_load buf page_start load other (page, covered)) ! i = (in_load other x \<or> covered ! i)"
    using p(4) [OF i] unfolding range paint_load_def Let_def .
  have b: "(let relative = page_start + of_nat i - ph_MappedAddress other
      in if relative < ph_FileSize other then buf ! unat (ph_Offset other + relative) else 0) = segment_byte buf other x" if "in_load other x"
    using load_byte [OF assms(2,4,5), of "page_start + of_nat i"] that unfolding xi by (simp add: in_load_def)
  show "fst (paint_load buf page_start load other (page, covered)) ! i = (if in_load other x then segment_byte buf other x else page ! i)"
    using p(3) [OF i] b unfolding range paint_load_def Let_def by auto
qed


lemma page_image_nth:
  assumes "\<And>q. q < position \<Longrightarrow> is_load (g q) \<and> proper (g q) \<and> in_file buf (g q)" "length buf < 2 ^ 64"
    and "\<And>p q a. p < position \<Longrightarrow> q < position \<Longrightarrow> in_load (g p) a \<Longrightarrow> in_load (g q) a \<Longrightarrow> p = q"
    and "\<And>q. q \<le> position \<Longrightarrow> headers ! (loads ! q) = g q"
  shows "length (fst (page_image buf headers loads position)) = prefix_of (g position)"
    and "length (snd (page_image buf headers loads position)) = prefix_of (g position)"
    and "i < prefix_of (g position) \<Longrightarrow> q < position \<Longrightarrow> in_load (g q) (adr (g position) - prefix_of (g position) + i) \<Longrightarrow>
      snd (page_image buf headers loads position) ! i \<and>
      fst (page_image buf headers loads position) ! i = segment_byte buf (g q) (adr (g position) - prefix_of (g position) + i)"
proof -
  let ?load = "g position"
  let ?paint = "\<lambda>st below. paint_load buf (ph_MappedAddress ?load - ph_MappedAddress ?load mod kDefaultLoadAlignment) ?load
    (headers ! (loads ! below)) st"
  let ?st = "\<lambda>k. foldl ?paint (replicate (prefix_of ?load) 0, replicate (prefix_of ?load) False) [0..<k]"
  let ?x = "\<lambda>i. adr ?load - prefix_of ?load + i"
  have inv: "length (fst (?st k)) = prefix_of ?load \<and> length (snd (?st k)) = prefix_of ?load \<and>
    (\<forall>i < prefix_of ?load. \<forall>q < k. in_load (g q) (?x i) \<longrightarrow> snd (?st k) ! i \<and> fst (?st k) ! i = segment_byte buf (g q) (?x i))"
    if "k \<le> position" for k
    using that
  proof (induction k)
    case 0
    then show ?case by simp
  next
    case (Suc k)
    obtain page covered where st: "?st k = (page, covered)" by fastforce
    note ih = Suc.IH [unfolded st fst_conv snd_conv]
    have l: "length page = prefix_of ?load" "length covered = length page" using ih Suc.prems by auto
    have gk: "is_load (g k)" "proper (g k)" "in_file buf (g k)" "headers ! (loads ! k) = g k" using assms(1,4) Suc.prems by auto
    have next': "?st (Suc k) = ?paint (page, covered) k" using st by simp
    note p = paint_load_nth [OF gk(1-3) assms(2) l _ refl]
    have len: "length (fst (?paint (page, covered) k)) = prefix_of ?load \<and> length (snd (?paint (page, covered) k)) = prefix_of ?load"
    proof (cases "prefix_of ?load = 0")
      case True
      then show ?thesis using l gk(4) paint_nth(1,2) [OF l(2)] by (simp add: paint_load_def Let_def)
    next
      case False
      then show ?thesis using p(1,2) [of 0] l gk(4) by simp
    qed
    have "snd (?paint (page, covered) k) ! i \<and> fst (?paint (page, covered) k) ! i = segment_byte buf (g q) (?x i)"
      if "i < prefix_of ?load" "q < Suc k" "in_load (g q) (?x i)" for i q
    proof (cases "in_load (g k) (?x i)")
      case True
      then have "q = k" using assms(3) that(2,3) Suc.prems by (meson Suc_le_lessD less_Suc_eq_le order_less_le_trans)
      then show ?thesis using p(3,4) [OF that(1)] True gk(4) by simp
    next
      case False
      then have "q < k" using that(2,3) by (cases "q = k") auto
      then show ?thesis using p(3,4) [OF that(1)] False gk(4) ih that Suc.prems by simp
    qed
    then show ?case using len unfolding next' by blast
  qed
  have "page_image buf headers loads position = ?st position"
    unfolding page_image_def Let_def using assms(4) [of position] by (simp add: unat_prefix [simplified])
  then show "length (fst (page_image buf headers loads position)) = prefix_of ?load"
    "length (snd (page_image buf headers loads position)) = prefix_of ?load"
    "i < prefix_of ?load \<Longrightarrow> q < position \<Longrightarrow> in_load (g q) (?x i) \<Longrightarrow>
      snd (page_image buf headers loads position) ! i \<and>
      fst (page_image buf headers loads position) ! i = segment_byte buf (g q) (?x i)"
    using inv [of position] by auto
qed

subsection \<open>Moving a load\<close>

lemma move_load_Inr:
  assumes "move_load buf load page = Inr (buf', load')" "length page = prefix_of load"
    and "off load + fil load \<le> length buf" "length buf + 8192 + fil load < 2 ^ 64"
  obtains b where "4096 dvd length b" "take (length buf) b = buf" "length buf \<le> length b" "length b < length buf + 4096"
    "buf' = b @ page @ subbytes buf (off load) (fil load)"
    "load' = load\<lparr>ph_Offset := of_nat (length b + prefix_of load), ph_Alignment := min (ph_Alignment load) kDefaultLoadAlignment\<rparr>"
    "off load' = length b + prefix_of load"
proof -
  from assms(1) obtain b where b: "AlignBuffer buf kDefaultLoadAlignment = Inr b"
    and r: "(let buf = b @ page; offset = of_nat (length buf) :: u64; buf = resize_to (unat (offset + ph_FileSize load)) buf
       in (blit buf (unat offset) (subbytes buf (unat (ph_Offset load)) (unat (ph_FileSize load))),
           load\<lparr>ph_Offset := offset, ph_Alignment := min (ph_Alignment load) kDefaultLoadAlignment\<rparr>)) = (buf', load')"
    by (auto simp: move_load_def res_simps Let_def)
  from b obtain m where m: "AlignUp (of_nat (length buf)) kDefaultLoadAlignment = Inr m" "b = resize_to (unat m) buf"
    by (auto simp: AlignBuffer_def res_simps)
  have lb: "unat (of_nat (length buf) :: u64) = length buf" using assms(4) by (simp add: unat_of_nat)
  note al = AlignUp_Inr_bounds [OF m(1), unfolded lb]
  have len: "length b = unat m" using m(2) by simp
  have b_eq: "b = buf @ replicate (length b - length buf) 0" using m(2) al(2) len by (simp add: resize_to_grow)
  have p: "prefix_of load < 4096" by simp
  have big: "length b + prefix_of load + fil load < 2 ^ 64" using al(3) len p assms(4) by simp
  have o: "unat (of_nat (length (b @ page)) :: u64) = length b + prefix_of load"
    using big assms(2) by (simp only: unat_of_nat len_of_numeral_64 length_append) simp
  have e: "unat (of_nat (length (b @ page)) + ph_FileSize load) = length b + prefix_of load + fil load"
    using unat_add_small [of "of_nat (length (b @ page))" "ph_FileSize load"] big o by simp
  have rs: "resize_to (length b + prefix_of load + fil load) (b @ page) = b @ page @ replicate (fil load) 0"
    using assms(2) by (simp add: resize_to_grow)
  have sub: "subbytes (b @ page @ replicate (fil load) 0) (off load) (fil load) = subbytes buf (off load) (fil load)"
    using assms(3) b_eq by (metis subbytes_append_left append.assoc)
  have l: "length (subbytes buf (off load) (fil load)) = fil load" using assms(3) by (rule length_subbytes)
  have bl: "blit (b @ page @ replicate (fil load) 0) (length b + prefix_of load) (subbytes buf (off load) (fil load))
    = b @ page @ subbytes buf (off load) (fil load)"
    using assms(2) by (simp add: blit_def l)
  have buf': "buf' = b @ page @ subbytes buf (off load) (fil load)"
    and load': "load' = load\<lparr>ph_Offset := of_nat (length (b @ page)), ph_Alignment := min (ph_Alignment load) kDefaultLoadAlignment\<rparr>"
    using r unfolding Let_def o e rs sub bl by auto
  show thesis
  proof (rule that [of b])
    show "4096 dvd length b" using al(1) len by simp
    show "take (length buf) b = buf" by (subst b_eq) simp
    show "length buf \<le> length b" "length b < length buf + 4096" using al(2,3) len by simp_all
    show "buf' = b @ page @ subbytes buf (off load) (fil load)" by (rule buf')
    show "load' = load\<lparr>ph_Offset := of_nat (length b + prefix_of load), ph_Alignment := min (ph_Alignment load) kDefaultLoadAlignment\<rparr>"
      using load' assms(2) by simp
    show "off load' = length b + prefix_of load" using load' o by simp
  qed
qed


subsection \<open>What mapping whole pages shows\<close>

text \<open>
  Linux maps the page in front of a load from the file bytes in front of its file range. The load may be mapped above
  another one if these bytes are the other's; the memory of both is then as their headers say.
\<close>

definition page_mapped :: "program_header \<Rightarrow> bool" where
  "page_mapped load \<longleftrightarrow> fil load = 0 \<or> off load mod 4096 = prefix_of load"

definition keeps_below :: "bytes \<Rightarrow> program_header \<Rightarrow> program_header \<Rightarrow> bool" where
  "keeps_below buf load other \<longleftrightarrow> fil load = 0 \<or>
     (\<forall>x. adr load - prefix_of load \<le> x \<and> x < adr load \<and> in_load other x \<longrightarrow>
        buf ! (off load - (adr load - x)) = segment_byte buf other x)"

definition same_segment :: "bytes \<Rightarrow> program_header \<Rightarrow> bytes \<Rightarrow> program_header \<Rightarrow> bool" where
  "same_segment buf h buf' h' \<longleftrightarrow>
     is_load h' = is_load h \<and> adr h' = adr h \<and> mem h' = mem h \<and> fil h' = fil h \<and> in_file buf' h' \<and>
     (\<forall>x. segment_byte buf' h' x = segment_byte buf h x)"

lemma segment_byte_append: "is_load h \<Longrightarrow> in_file buf h \<Longrightarrow> segment_byte (buf @ ext) h x = segment_byte buf h x"
  by (simp add: segment_byte_def in_file_def nth_append)

lemma in_file_append: "in_file buf h \<Longrightarrow> in_file (buf @ ext) h"
  by (auto simp: in_file_def)

lemma same_segment_append:
  "is_load h \<Longrightarrow> same_segment buf0 h buf h' \<Longrightarrow> same_segment buf0 h (buf @ ext) h'"
  by (simp add: same_segment_def segment_byte_append in_file_append)

lemma same_segment_refl: "in_file buf h \<Longrightarrow> same_segment buf h buf h"
  by (simp add: same_segment_def)

lemma same_segment_trans: "same_segment a h b h' \<Longrightarrow> same_segment b h' c h'' \<Longrightarrow> same_segment a h c h''"
  by (simp add: same_segment_def)

lemma page_in_file:
  assumes "page_mapped h" "is_load h" "in_file buf h" "fil h \<noteq> 0" "adr h - prefix_of h \<le> x" "x < adr h"
  shows "off h - (adr h - x) < length buf" "prefix_of h \<le> off h"
    "off h - (adr h - x) = off h - prefix_of h + (x - (adr h - prefix_of h))"
proof -
  have "off h mod 4096 = prefix_of h" using assms(1,4) by (simp add: page_mapped_def)
  then show le: "prefix_of h \<le> off h" by (metis mod_less_eq_dividend)
  show "off h - (adr h - x) < length buf" using assms(2-4,6) by (simp add: in_file_def)
  have "prefix_of h \<le> adr h" by (rule mod_less_eq_dividend)
  then show "off h - (adr h - x) = off h - prefix_of h + (x - (adr h - prefix_of h))" using le assms(5,6) by linarith
qed

lemma keeps_below_append:
  assumes "keeps_below buf h other" "page_mapped h" "is_load h" "in_file buf h" "is_load other" "in_file buf other"
  shows "keeps_below (buf @ ext) h other"
  using assms(1) page_in_file(1) [OF assms(2-4)]
  by (auto simp: keeps_below_def segment_byte_append [OF assms(5,6)] nth_append)

lemma page_same:
  assumes "\<not> page_differs buf m st" "length (fst st) = n" "i < n" "snd st ! i"
  shows "buf ! (m + i) = fst st ! i"
  using assms by (cases st) (auto simp: page_differs_def list_ex_iff)

lemma moved_keeps:
  assumes "length page = prefix_of load" "off load' = length b + prefix_of load" "adr load' = adr load"
    and "\<And>i. i < prefix_of load \<Longrightarrow> in_load other (adr load - prefix_of load + i) \<Longrightarrow>
      page ! i = segment_byte buf' other (adr load - prefix_of load + i)"
    and "buf' = b @ page @ data"
  shows "keeps_below buf' load' other"
  unfolding keeps_below_def assms(2,3)
proof (intro disjI2 allI impI, elim conjE)
  fix x assume x: "adr load - prefix_of load \<le> x" "x < adr load" "in_load other x"
  have le: "prefix_of load \<le> adr load" by (rule mod_less_eq_dividend)
  define i where "i = x - (adr load - prefix_of load)"
  have i: "i < prefix_of load" "adr load - prefix_of load + i = x" using x(1,2) le unfolding i_def by linarith+
  have "length b + prefix_of load - (adr load - x) = length b + i" using x(1,2) le unfolding i_def by linarith
  then show "buf' ! (length b + prefix_of load - (adr load - x)) = segment_byte buf' other x"
    using assms(4) [OF i(1)] i x(3) assms(1) by (simp add: assms(5) nth_append)
qed


lemma moved_segment:
  assumes "move_load buf load page = Inr (buf', load')" "length page = prefix_of load"
    and "is_load load" "in_file buf load" "length buf + 8192 + fil load < 2 ^ 64"
  obtains ext b where "buf' = buf @ ext" "length ext \<le> 8192 + fil load" "same_segment buf load buf' load'" "page_mapped load'"
    "off load' = length b + prefix_of load" "adr load' = adr load" "buf' = b @ page @ subbytes buf (off load) (fil load)"
proof -
  have f: "off load + fil load \<le> length buf" using assms(3,4) by (simp add: in_file_def)
  obtain b where b: "4096 dvd length b" "take (length buf) b = buf" "length buf \<le> length b" "length b < length buf + 4096"
    "buf' = b @ page @ subbytes buf (off load) (fil load)"
    "load' = load\<lparr>ph_Offset := of_nat (length b + prefix_of load), ph_Alignment := min (ph_Alignment load) kDefaultLoadAlignment\<rparr>"
    "off load' = length b + prefix_of load"
    by (rule move_load_Inr [OF assms(1,2) f assms(5)])
  have l: "length (subbytes buf (off load) (fil load)) = fil load" using f by (rule length_subbytes)
  have lt: "prefix_of load < 4096" by simp
  have ext: "buf' = buf @ drop (length buf) b @ page @ subbytes buf (off load) (fil load)"
    using b(2,5) by (metis append.assoc append_take_drop_id)
  have fields: "adr load' = adr load" "mem load' = mem load" "fil load' = fil load" "is_load load' = is_load load"
    using b(6) by (simp_all add: is_load_def)
  have "segment_byte buf' load' x = segment_byte buf load x" for x
    using f l assms(2) by (simp add: segment_byte_def fields b(7) b(5) nth_append nth_subbytes)
  then have same: "same_segment buf load buf' load'"
    using fields l assms(2) by (simp add: same_segment_def in_file_def b(5,7))
  have mapped: "page_mapped load'" using b(1) by (auto simp: page_mapped_def b(7) fields elim!: dvdE)
  have "length (drop (length buf) b @ page @ subbytes buf (off load) (fil load)) \<le> 8192 + fil load"
    using b(3,4) l assms(2) lt by simp
  then show thesis using that [OF ext _ same mapped b(7) fields(1) b(5)] by blast
qed

text \<open>The loads that a step works on, by their positions.\<close>

definition placed :: "bytes \<Rightarrow> (nat \<Rightarrow> program_header) \<Rightarrow> nat \<Rightarrow> bool" where
  "placed buf g n \<longleftrightarrow> (\<forall>q < n. is_load (g q) \<and> proper (g q) \<and> in_file buf (g q)) \<and>
     (\<forall>p q a. p < n \<longrightarrow> q < n \<longrightarrow> in_load (g p) a \<longrightarrow> in_load (g q) a \<longrightarrow> p = q)"

definition stepped :: "bytes \<Rightarrow> (nat \<Rightarrow> program_header) \<Rightarrow> nat \<Rightarrow> bytes \<Rightarrow> program_header \<Rightarrow> bool" where
  "stepped buf g position buf' load \<longleftrightarrow>
     (\<exists>ext. buf' = buf @ ext \<and> length ext \<le> 8192 + fil (g position)) \<and>
     same_segment buf (g position) buf' load \<and> page_mapped load \<and> (\<forall>q < position. keeps_below buf' load (g q))"

lemma stepped_unmoved:
  assumes "placed buf g n" "position < n" "page_mapped (g position)" "\<forall>q < position. keeps_below buf (g position) (g q)"
  shows "stepped buf g position buf (g position)"
  using assms by (auto simp: stepped_def placed_def intro: same_segment_refl)

lemma congruent_words:
  "(ph_Offset h mod kDefaultLoadAlignment = ph_MappedAddress h mod kDefaultLoadAlignment) = (off h mod 4096 = prefix_of h)"
  by (simp only: word_unat_eq_iff unat_mod_distrib) simp

lemma file_size_zero: "ph_FileSize h = 0 \<longleftrightarrow> fil h = 0"
  by (simp only: unat_eq_0)

lemma prefix_zero: "ph_MappedAddress h mod kDefaultLoadAlignment = 0 \<longleftrightarrow> prefix_of h = 0"
  by (simp only: unat_eq_0 [symmetric] unat_prefix)

lemma page_step_branches:
  assumes "page_step loads position (buf, headers, low) = Inr (buf', headers', low')"
    and "headers ! (loads ! position) = load"
  shows "(ph_FileSize load = 0 \<or> ph_Offset load mod kDefaultLoadAlignment = ph_MappedAddress load mod kDefaultLoadAlignment \<and>
        ph_MappedAddress load mod kDefaultLoadAlignment = 0) \<and> buf' = buf \<and> headers' = headers \<or>
    (ph_Offset load mod kDefaultLoadAlignment = ph_MappedAddress load mod kDefaultLoadAlignment \<and>
     \<not> page_differs buf (unat (ph_Offset load - ph_MappedAddress load mod kDefaultLoadAlignment))
        (page_image buf headers loads position) \<and> buf' = buf \<and> headers' = headers) \<or>
    (\<exists>load'. move_load buf load (fst (page_image buf headers loads position)) = Inr (buf', load') \<and>
       headers' = headers[loads ! position := load'])"
proof -
  let ?P = "ph_MappedAddress load mod kDefaultLoadAlignment" and ?O = "ph_Offset load mod kDefaultLoadAlignment"
  let ?page = "page_image buf headers loads position"
  have s: "(if ph_FileSize load = 0 \<or> ?O = ?P \<and> ?P = 0 then Inr (buf, headers, low)
      else if ?O = ?P \<and> \<not> page_differs buf (unat (ph_Offset load - ?P)) ?page then Inr (buf, headers, low)
      else bind_res (move_load buf load (fst ?page)) (\<lambda>(buf, moved).
        Inr (buf, headers[loads ! position := moved], lowered_alignment load low))) = Inr (buf', headers', low')"
    using assms(1) unfolding page_step_def prod.case assms(2) Let_def .
  show ?thesis
  proof (cases "ph_FileSize load = 0 \<or> ?O = ?P \<and> ?P = 0")
    case True
    then show ?thesis using s unfolding if_P [OF True] by simp
  next
    case False
    note s' = s [unfolded if_not_P [OF False]]
    show ?thesis
    proof (cases "?O = ?P \<and> \<not> page_differs buf (unat (ph_Offset load - ?P)) ?page")
      case True
      then show ?thesis using s' unfolding if_P [OF True] by simp
    next
      case False
      then show ?thesis using s' unfolding if_not_P [OF False] bind_res_Inr_iff by fastforce
    qed
  qed
qed

lemma page_step_Inr:
  assumes "page_step loads position (buf, headers, low) = Inr (buf', headers', low')"
    and "placed buf g n" "position < n" "\<And>q. q \<le> position \<Longrightarrow> headers ! (loads ! q) = g q"
    and "length buf + 8192 + fil (g position) < 2 ^ 64"
  shows "\<exists>load. stepped buf g position buf' load \<and> headers' = headers[loads ! position := load]"
proof -
  let ?load = "g position"
  have load: "headers ! (loads ! position) = ?load" by (rule assms(4)) simp
  have keep: "headers[loads ! position := ?load] = headers" using load by (metis list_update_id)
  have g: "is_load (g q)" "proper (g q)" "in_file buf (g q)" if "q \<le> position" for q
    using assms(2,3) that by (auto simp: placed_def)
  have lb: "length buf < 2 ^ 64" using assms(5) by linarith
  note img = page_image_nth [of position g buf headers loads, OF _ lb]
  let ?page = "page_image buf headers loads position"
  have i1: "length (fst ?page) = prefix_of ?load"
    and i2: "\<And>i q. i < prefix_of ?load \<Longrightarrow> q < position \<Longrightarrow> in_load (g q) (adr ?load - prefix_of ?load + i) \<Longrightarrow>
      snd ?page ! i \<and> fst ?page ! i = segment_byte buf (g q) (adr ?load - prefix_of ?load + i)"
    using img(1,3) g assms(2-4) by (auto simp: placed_def)
  note offs = congruent_words [of ?load] and z = file_size_zero [of ?load] prefix_zero [of ?load]
  consider (still) "fil ?load = 0 \<or> off ?load mod 4096 = prefix_of ?load \<and> prefix_of ?load = 0" "buf' = buf" "headers' = headers"
    | (same) "off ?load mod 4096 = prefix_of ?load"
        "\<not> page_differs buf (unat (ph_Offset ?load - ph_MappedAddress ?load mod kDefaultLoadAlignment)) ?page" "buf' = buf" "headers' = headers"
    | (moved) load' where "move_load buf ?load (fst ?page) = Inr (buf', load')" "headers' = headers[loads ! position := load']"
    using page_step_branches [OF assms(1) load] unfolding offs z by blast
  then show ?thesis
  proof cases
    case still
    then have "stepped buf g position buf ?load"
      by (intro stepped_unmoved [OF assms(2,3)]) (auto simp: page_mapped_def keeps_below_def)
    then show ?thesis using still(2,3) keep by (intro exI [of _ ?load]) simp
  next
    case same
    have m: "page_mapped ?load" using same(1) by (simp add: page_mapped_def)
    have p: "prefix_of ?load \<le> off ?load" using same(1) by (metis mod_less_eq_dividend)
    then have mapped: "unat (ph_Offset ?load - ph_MappedAddress ?load mod kDefaultLoadAlignment) = off ?load - prefix_of ?load"
      using unat_sub_le [of "ph_MappedAddress ?load mod kDefaultLoadAlignment" "ph_Offset ?load"]
      by (simp only: word_le_nat_alt unat_prefix)
    have "keeps_below buf ?load (g q)" if q: "q < position" for q
      unfolding keeps_below_def
    proof (rule disj_imp [THEN iffD2], intro allI impI, elim conjE)
      fix x assume f: "fil ?load \<noteq> 0" and x: "adr ?load - prefix_of ?load \<le> x" "x < adr ?load" "in_load (g q) x"
      let ?i = "x - (adr ?load - prefix_of ?load)"
      have i: "?i < prefix_of ?load" "adr ?load - prefix_of ?load + ?i = x"
        using x(1,2) mod_less_eq_dividend [of "adr ?load" 4096] by linarith+
      note c = i2 [OF i(1) q, unfolded i(2), OF x(3)]
      have "buf ! (off ?load - prefix_of ?load + ?i) = fst ?page ! ?i"
        using page_same [OF same(2) i1 i(1)] c mapped by simp
      then show "buf ! (off ?load - (adr ?load - x)) = segment_byte buf (g q) x"
        using c page_in_file(3) [OF m g(1,3) f x(1,2)] by simp
    qed
    then have "stepped buf g position buf ?load" by (intro stepped_unmoved [OF assms(2,3) m]) simp
    then show ?thesis using same(3,4) keep by (intro exI [of _ ?load]) simp
  next
    case (moved load')
    obtain ext b where e: "buf' = buf @ ext" "length ext \<le> 8192 + fil ?load" "same_segment buf ?load buf' load'" "page_mapped load'"
      and o: "off load' = length b + prefix_of ?load" "adr load' = adr ?load" "buf' = b @ fst ?page @ subbytes buf (off ?load) (fil ?load)"
      by (rule moved_segment [OF moved(1) i1 g(1,3) assms(5), OF order_refl order_refl])
    have "keeps_below buf' load' (g q)" if q: "q < position" for q
    proof (rule moved_keeps [OF i1 o(1,2) _ o(3)])
      fix i assume i: "i < prefix_of ?load" "in_load (g q) (adr ?load - prefix_of ?load + i)"
      have "segment_byte buf' (g q) (adr ?load - prefix_of ?load + i) = segment_byte buf (g q) (adr ?load - prefix_of ?load + i)"
        unfolding e(1) using g q by (intro segment_byte_append) auto
      then show "fst ?page ! i = segment_byte buf' (g q) (adr ?load - prefix_of ?load + i)" using i2 [OF i(1) q i(2)] by simp
    qed
    then have "stepped buf g position buf' load'" using e by (auto simp: stepped_def)
    then show ?thesis using moved(2) by blast
  qed
qed


subsection \<open>The second loop\<close>

lemma same_segment_load:
  assumes "same_segment buf0 h buf h'" "is_load h" "proper h"
  shows "is_load h'" "proper h'" "in_file buf h'" "in_load h' a = in_load h a" "segment_byte buf h' a = segment_byte buf0 h a"
  using assms by (auto simp: same_segment_def proper_def in_load_def)

definition pages_done ::
    "bytes \<Rightarrow> program_header list \<Rightarrow> nat list \<Rightarrow> nat \<Rightarrow> bytes \<Rightarrow> program_header list \<Rightarrow> bool" where
  "pages_done buf0 headers0 loads k buf headers \<longleftrightarrow>
     length headers = length headers0 \<and> (\<forall>i. i \<notin> set loads \<longrightarrow> headers ! i = headers0 ! i) \<and>
     (\<exists>ext. buf = buf0 @ ext) \<and> length buf \<le> length buf0 + k * (8192 + length buf0) \<and>
     (\<forall>p < length loads. same_segment buf0 (headers0 ! (loads ! p)) buf (headers ! (loads ! p))) \<and>
     (\<forall>p < k. page_mapped (headers ! (loads ! p)) \<and>
        (\<forall>q < p. keeps_below buf (headers ! (loads ! p)) (headers ! (loads ! q))))"

lemma pages_done_placed:
  assumes "pages_done buf0 headers0 loads k buf headers" "placed buf0 (\<lambda>p. headers0 ! (loads ! p)) (length loads)"
  shows "placed buf (\<lambda>p. headers ! (loads ! p)) (length loads)"
proof -
  let ?h = "\<lambda>p. headers0 ! (loads ! p)" and ?g = "\<lambda>p. headers ! (loads ! p)"
  have "same_segment buf0 (?h q) buf (?g q)" "is_load (?h q)" "proper (?h q)" if "q < length loads" for q
    using assms that by (auto simp: pages_done_def placed_def)
  note s = same_segment_load [OF this]
  show ?thesis using assms(2) by (simp add: placed_def s cong: conj_cong imp_cong)
qed

lemma pages_done_step:
  assumes "pages_done buf0 headers0 loads k buf headers" "placed buf0 (\<lambda>p. headers0 ! (loads ! p)) (length loads)"
    and "distinct loads" "\<forall>i \<in> set loads. i < length headers0" "k < length loads"
    and "(length loads + 1) * (length buf0 + 8192) < 2 ^ 64"
    and "page_step loads k (buf, headers, low) = Inr (buf', headers', low')"
  shows "pages_done buf0 headers0 loads (Suc k) buf' headers'"
proof -
  let ?h = "\<lambda>p. headers0 ! (loads ! p)" and ?g = "\<lambda>p. headers ! (loads ! p)" and ?g' = "\<lambda>p. headers' ! (loads ! p)"
  note d = assms(1) [unfolded pages_done_def]
  have pl: "placed buf ?g (length loads)" by (rule pages_done_placed [OF assms(1,2)])
  have g: "is_load (?g q)" "in_file buf (?g q)" if "q < length loads" for q using pl that by (auto simp: placed_def)
  have h: "is_load (?h q)" "in_file buf0 (?h q)" "same_segment buf0 (?h q) buf (?g q)" if "q < length loads" for q
    using assms(2) d that by (auto simp: placed_def)
  have f: "fil (?g k) \<le> length buf0" using h [OF assms(5)] by (simp add: same_segment_def in_file_def)
  have len: "length buf \<le> length buf0 + k * (8192 + length buf0)" using d by blast
  have "length buf + 8192 + fil (?g k) \<le> (k + 2) * (length buf0 + 8192)"
    using len f by (simp add: algebra_simps)
  also have "\<dots> \<le> (length loads + 1) * (length buf0 + 8192)" using assms(5) by (intro mult_le_mono1) simp
  also note assms(6)
  finally obtain load where st: "stepped buf ?g k buf' load" and hs: "headers' = headers[loads ! k := load]"
    using page_step_Inr [OF assms(7) pl assms(5) refl] by blast
  from st obtain ext where ext: "buf' = buf @ ext" "length ext \<le> 8192 + fil (?g k)" by (auto simp: stepped_def)
  have k: "loads ! k < length headers" using assms(4,5) d by auto
  have g': "?g' p = (if p = k then load else ?g p)" if "p < length loads" for p
    using that assms(3,5) k unfolding hs by (simp add: nth_eq_iff_index_eq)
  have "same_segment buf0 (?h p) buf' (?g' p)" if p: "p < length loads" for p
  proof (cases "p = k")
    case True
    then show ?thesis using same_segment_trans [OF h(3) [OF p]] st g' [OF p] by (simp add: stepped_def)
  next
    case False
    then show ?thesis using same_segment_append [OF h(1) [OF p] h(3) [OF p]] g' [OF p] ext(1) by simp
  qed
  moreover have "page_mapped (?g' p) \<and> (\<forall>q < p. keeps_below buf' (?g' p) (?g' q))" if p: "p < Suc k" for p
  proof (cases "p = k")
    case True
    then show ?thesis using st g' assms(5) by (auto simp: stepped_def)
  next
    case False
    then have pk: "p < k" using p by simp
    have "keeps_below buf' (?g' p) (?g' q)" if q: "q < p" for q
      using keeps_below_append [of buf "?g p" "?g q" ext] g d pk q assms(5) g' ext(1) by auto
    then show ?thesis using d pk g' assms(5) by auto
  qed
  moreover have "length buf' \<le> length buf0 + Suc k * (8192 + length buf0)" using len f ext by simp
  moreover have "headers' ! i = headers ! i" if "i \<notin> set loads" for i
    using that assms(5) unfolding hs by (metis nth_list_update_neq nth_mem)
  ultimately show ?thesis using d ext(1) unfolding pages_done_def hs by auto
qed

lemma pages_fold:
  assumes "fold_res (page_step loads) [0..<length loads] (buf0, headers0, 0) = Inr (buf', headers', lowered)"
    and "placed buf0 (\<lambda>p. headers0 ! (loads ! p)) (length loads)" "distinct loads" "\<forall>i \<in> set loads. i < length headers0"
    and "(length loads + 1) * (length buf0 + 8192) < 2 ^ 64"
  shows "pages_done buf0 headers0 loads (length loads) buf' headers'"
proof -
  have "pages_done buf0 headers0 loads k b hs"
    if "fold_res (page_step loads) [0..<k] (buf0, headers0, 0) = Inr (b, hs, l)" "k \<le> length loads" for k b hs l
    using that
  proof (induction k arbitrary: b hs l)
    case 0
    then show ?case using assms(2) by (auto simp: pages_done_def placed_def intro: same_segment_refl)
  next
    case (Suc k)
    then obtain b1 hs1 l1 where s: "fold_res (page_step loads) [0..<k] (buf0, headers0, 0) = Inr (b1, hs1, l1)"
      "page_step loads k (b1, hs1, l1) = Inr (b, hs, l)" by (auto simp: fold_res_append res_simps)
    from Suc.IH [OF s(1)] Suc.prems(2) have "pages_done buf0 headers0 loads k b1 hs1" by simp
    from pages_done_step [OF this assms(2-4) _ assms(5) s(2)] Suc.prems(2) show ?case by simp
  qed
  from this [OF assms(1)] show ?thesis by simp
qed


subsection \<open>The pass as a whole\<close>

lemma separate_result:
  assumes "SeparateSharedLoadPages buf headers = Inr (buf', headers', lowered)" "\<forall>h \<in> set headers. proper h"
    and "(length headers + 1) * (length buf + 8192) < 2 ^ 64"
  obtains loads headers1 where "load_order buf headers loads" "length headers1 = length headers"
    "chain buf (\<lambda>p. headers ! (loads ! p)) (length loads)"
    "\<forall>p < length loads. headers1 ! (loads ! p) = cut (\<lambda>p. headers ! (loads ! p)) (length loads) p"
    "\<forall>i. i \<notin> set loads \<longrightarrow> headers1 ! i = headers ! i"
    "pages_done buf headers1 loads (length loads) buf' headers'"
proof -
  have lb: "length buf < 2 ^ 64" using assms(3) by simp
  obtain loads0 headers1 where c: "collect_loads buf headers = Inr loads0"
    and s: "fold_res (separate_step buf (sort_key (\<lambda>index. ph_MappedAddress (headers ! index)) loads0))
        [1..<length loads0] headers = Inr headers1"
    and f: "fold_res (page_step (sort_key (\<lambda>index. ph_MappedAddress (headers ! index)) loads0)) [0..<length loads0]
        (buf, headers1, 0) = Inr (buf', headers', lowered)"
    using assms(1) by (auto simp: SeparateSharedLoadPages_def res_simps Let_def)
  define loads where "loads = sort_key (\<lambda>index. ph_MappedAddress (headers ! index)) loads0"
  have n: "length loads0 = length loads" by (simp add: loads_def)
  have o: "load_order buf headers loads" unfolding loads_def by (rule load_order_sorted [OF c lb assms(2)])
  note sf = separate_fold [OF o lb s [folded loads_def, unfolded n]]
  let ?h = "\<lambda>p. headers ! (loads ! p)"
  have d: "distinct loads" "\<forall>i \<in> set loads. i < length headers1" using o sf(2) by (auto simp: load_order_def)
  have pl: "placed buf (\<lambda>p. headers1 ! (loads ! p)) (length loads)"
    unfolding placed_def
  proof (intro conjI allI impI)
    fix q assume q: "q < length loads"
    note cq = cut_load [OF sf(1) q]
    have hq: "proper (?h q)" "is_load (?h q)" "in_file buf (?h q)" using sf(1) q by (auto simp: chain_def)
    show "is_load (headers1 ! (loads ! q))" using cq(1) by (simp add: sf(3) [OF q])
    show "proper (headers1 ! (loads ! q))" "in_file buf (headers1 ! (loads ! q))"
      using cq(2-6) proper_ends [OF hq(1,2)] hq(2,3) by (auto simp: sf(3) [OF q] proper_def in_file_def split: if_splits)
  next
    fix p q a assume "p < length loads" "q < length loads" "in_load (headers1 ! (loads ! p)) a" "in_load (headers1 ! (loads ! q)) a"
    then show "p = q" using cut_apart [OF sf(1), of p q a] by (simp add: sf(3))
  qed
  have "card (set loads) \<le> card {..<length headers}" using o by (intro card_mono) (auto simp: load_order_def)
  then have "length loads \<le> length headers" using d(1) by (simp add: distinct_card)
  then have "(length loads + 1) * (length buf + 8192) \<le> (length headers + 1) * (length buf + 8192)" by (intro mult_le_mono1) simp
  then have b: "(length loads + 1) * (length buf + 8192) < 2 ^ 64" using assms(3) by (rule le_less_trans)
  show thesis using that [OF o sf(2,1) _ _ pages_fold [OF f [folded loads_def, unfolded n] pl d b]] sf(3,4) by blast
qed

lemma separate_positions:
  assumes "load_order buf headers loads" "length headers1 = length headers" "\<forall>i. i \<notin> set loads \<longrightarrow> headers1 ! i = headers ! i"
    and "pages_done buf headers1 loads n buf' headers'" "i < length headers" "in_load (headers' ! i) a"
  obtains p where "p < length loads" "i = loads ! p"
proof (cases "i \<in> set loads")
  case True
  then show thesis using that by (auto simp: in_set_conv_nth)
next
  case False
  then have "headers' ! i = headers ! i" using assms(3,4) by (simp add: pages_done_def)
  then have "i \<in> set loads" using assms(1,5,6) by (auto simp: load_order_def in_load_def)
  with False show thesis by blast
qed

subsection \<open>Properties\<close>

text \<open>
  C3: The pass keeps the memory image. Of loads that the reader accepts, every byte that one of them puts into memory is put
  there, with the same value, by exactly one of the loads that the pass returns; a returned load holds no other byte. The input is the
  beginning of the returned buffer.
\<close>

theorem separate_keeps_memory:
  assumes "SeparateSharedLoadPages buf headers = Inr (buf', headers', lowered)" "\<forall>h \<in> set headers. proper h"
    and "(length headers + 1) * (length buf + 8192) < 2 ^ 64"
  shows "length headers' = length headers \<and> take (length buf) buf' = buf \<and>
    (\<forall>i < length headers. \<forall>a. in_load (headers ! i) a \<longrightarrow>
       (\<exists>!j. j < length headers \<and> in_load (headers' ! j) a) \<and>
       (\<exists>j < length headers. in_load (headers' ! j) a \<and> segment_byte buf' (headers' ! j) a = segment_byte buf (headers ! i) a)) \<and>
    (\<forall>i < length headers. \<forall>a. in_load (headers' ! i) a \<longrightarrow>
       in_load (headers ! i) a \<and> segment_byte buf' (headers' ! i) a = segment_byte buf (headers ! i) a)"
proof -
  obtain loads headers1 where o: "load_order buf headers loads" and l: "length headers1 = length headers"
    and c: "chain buf (\<lambda>p. headers ! (loads ! p)) (length loads)"
    and cuts: "\<forall>p < length loads. headers1 ! (loads ! p) = cut (\<lambda>p. headers ! (loads ! p)) (length loads) p"
    and other: "\<forall>i. i \<notin> set loads \<longrightarrow> headers1 ! i = headers ! i"
    and d: "pages_done buf headers1 loads (length loads) buf' headers'"
    by (rule separate_result [OF assms])
  let ?h = "\<lambda>p. headers ! (loads ! p)" and ?n = "length loads"
  have same: "in_load (headers' ! (loads ! p)) a = in_load (cut ?h ?n p) a"
    "segment_byte buf' (headers' ! (loads ! p)) a = segment_byte buf (cut ?h ?n p) a" if p: "p < ?n" for p a
    using d p cuts by (auto simp: pages_done_def same_segment_def in_load_def)
  have lt: "loads ! p < length headers" if "p < ?n" for p using o that nth_mem [OF that] by (auto simp: load_order_def)
  note position = separate_positions [OF o l other d]
  have within: "in_load (headers ! i) a \<and> segment_byte buf' (headers' ! i) a = segment_byte buf (headers ! i) a"
    if "i < length headers" "in_load (headers' ! i) a" for i a
    using position [OF that] cut_within [OF c] same that(2) by metis
  have unique: "j = k" if "j < length headers" "k < length headers" "in_load (headers' ! j) a" "in_load (headers' ! k) a" for j k a
    using position [OF that(1,3)] position [OF that(2,4)] cut_apart [OF c] same that(3,4) by metis
  have forth: "\<exists>j < length headers. in_load (headers' ! j) a \<and> segment_byte buf' (headers' ! j) a = segment_byte buf (headers ! i) a"
    if i: "i < length headers" "in_load (headers ! i) a" for i a
  proof -
    have "i \<in> set loads" using o i by (auto simp: load_order_def in_load_def)
    then obtain p where "p < ?n" "i = loads ! p" by (auto simp: in_set_conv_nth)
    then show ?thesis using cut_covers [OF c, of p a] i(2) same lt by metis
  qed
  show ?thesis using d l within forth unique by (auto simp: pages_done_def) (metis unique)+
qed

text \<open>
  C7: The returned loads can be mapped by whole pages. The file offset of a load with file bytes is congruent to its address,
  and the file bytes in front of it, which Linux maps with its first page, are those of the load that owns the memory
  there, so mapping the loads in the order of their addresses leaves every byte of the lower ones.
\<close>

theorem separate_pages_mappable:
  assumes "SeparateSharedLoadPages buf headers = Inr (buf', headers', lowered)" "\<forall>h \<in> set headers. proper h"
    and "(length headers + 1) * (length buf + 8192) < 2 ^ 64"
    and "i < length headers" "is_load (headers' ! i)" "ph_FileSize (headers' ! i) \<noteq> 0"
  shows "off (headers' ! i) mod 4096 = adr (headers' ! i) mod 4096 \<and>
    off (headers' ! i) + fil (headers' ! i) \<le> length buf' \<and>
    (\<forall>j < length headers. \<forall>x. adr (headers' ! i) - adr (headers' ! i) mod 4096 \<le> x \<and> x < adr (headers' ! i) \<and>
       in_load (headers' ! j) x \<longrightarrow>
       buf' ! (off (headers' ! i) - (adr (headers' ! i) - x)) = segment_byte buf' (headers' ! j) x)"
proof -
  obtain loads headers1 where o: "load_order buf headers loads" and l: "length headers1 = length headers"
    and c: "chain buf (\<lambda>p. headers ! (loads ! p)) (length loads)"
    and cuts: "\<forall>p < length loads. headers1 ! (loads ! p) = cut (\<lambda>p. headers ! (loads ! p)) (length loads) p"
    and other: "\<forall>i. i \<notin> set loads \<longrightarrow> headers1 ! i = headers ! i"
    and d: "pages_done buf headers1 loads (length loads) buf' headers'"
    by (rule separate_result [OF assms(1-3)])
  let ?h = "\<lambda>p. headers ! (loads ! p)" and ?n = "length loads"
  have adr: "adr (headers' ! (loads ! p)) = adr (?h p)" if p: "p < ?n" for p
    using d p cuts cut_load(2) [OF c p] by (auto simp: pages_done_def same_segment_def)
  have il: "in_load (headers' ! i) (adr (headers' ! i))" using assms(5) by (simp add: in_load_def is_load_def unat_gt_0)
  note position = separate_positions [OF o l other d]
  obtain p where p: "p < ?n" "i = loads ! p" using position [OF assms(4) il] by blast
  have f: "fil (headers' ! i) \<noteq> 0" using assms(6) by (simp add: unat_eq_0)
  have m: "page_mapped (headers' ! i)" "\<forall>q < p. keeps_below buf' (headers' ! i) (headers' ! (loads ! q))"
    "in_file buf' (headers' ! i)"
    using d p(1) unfolding p(2) pages_done_def same_segment_def by blast+
  have "buf' ! (off (headers' ! i) - (adr (headers' ! i) - x)) = segment_byte buf' (headers' ! j) x"
    if j: "j < length headers" and x: "adr (headers' ! i) - adr (headers' ! i) mod 4096 \<le> x" "x < adr (headers' ! i)"
      and a: "in_load (headers' ! j) x" for j x
  proof -
    obtain q where q: "q < ?n" "j = loads ! q" using position [OF j a] by blast
    have "adr (headers' ! j) \<le> x" using a by (simp only: in_load_def)
    then have "adr (?h q) < adr (?h p)" using x(2) adr [OF p(1)] adr [OF q(1)] unfolding p(2) q(2) by linarith
    then have "q < p" using chain_sorted [OF c, of p q] q(1) by (cases "p \<le> q") auto
    then show ?thesis using m(2) [rule_format, OF \<open>q < p\<close>] f x a unfolding q(2) keeps_below_def by blast
  qed
  then show ?thesis using m(1,3) f assms(5) by (auto simp: page_mapped_def in_file_def)
qed


subsection \<open>A concrete file\<close>

text \<open>Two loads; the second lies on the page of the first, over the end of its memory.\<close>

definition pages_sample :: bytes where
  "pages_sample = [1, 2, 3, 4, 5, 6, 7, 8, 9, 0, 0, 0]"

definition pages_sample_load :: "u64 \<Rightarrow> u64 \<Rightarrow> u64 \<Rightarrow> u64 \<Rightarrow> program_header" where
  "pages_sample_load offset address fileSize memorySize =
     \<lparr>ph_Type = 1, ph_Flags = 4, ph_Offset = offset, ph_MappedAddress = address, ph_PhysicalAddress = address,
      ph_FileSize = fileSize, ph_MemorySize = memorySize, ph_Alignment = 0x1000\<rparr>"

definition pages_sample_headers :: "program_header list" where
  "pages_sample_headers = [pages_sample_load 8 0x1008 4 4, pages_sample_load 0 0x1000 9 10]"

lemma pages_sample_result:
  "\<exists>buf' h lowered. SeparateSharedLoadPages pages_sample pages_sample_headers = Inr (buf', [h, pages_sample_load 0 0x1000 8 8], lowered)
     \<and> h = pages_sample_load 8 0x1008 4 4"
proof -
  have "case SeparateSharedLoadPages pages_sample pages_sample_headers of Inl _ \<Rightarrow> False
      | Inr (_, hs, _) \<Rightarrow> hs = [pages_sample_load 8 0x1008 4 4, pages_sample_load 0 0x1000 8 8]" by code_simp
  then show ?thesis by (auto split: sum.splits)
qed


lemma pages_sample_proper: "\<forall>h \<in> set pages_sample_headers. proper h"
  by (simp add: pages_sample_headers_def pages_sample_load_def proper_def is_load_def)

lemma pages_sample_size: "(length pages_sample_headers + 1) * (length pages_sample + 8192) < 2 ^ 64"
  by (simp add: pages_sample_headers_def pages_sample_def)

lemma pages_sample_byte:
  "in_load (pages_sample_headers ! 1) 0x1008" "segment_byte pages_sample (pages_sample_headers ! 1) 0x1008 = 9"
  by (simp_all add: pages_sample_headers_def pages_sample_def pages_sample_load_def in_load_def is_load_def segment_byte_def)

text \<open>The byte at the end of the first load's file range is now the second load's.\<close>

theorem separate_keeps_memory_witness:
  "\<exists>buf' h. h \<in> {pages_sample_load 8 0x1008 4 4, pages_sample_load 0 0x1000 8 8} \<and> in_load h 0x1008 \<and> segment_byte buf' h 0x1008 = 9"
proof -
  obtain buf' lowered where r: "SeparateSharedLoadPages pages_sample pages_sample_headers =
      Inr (buf', [pages_sample_load 8 0x1008 4 4, pages_sample_load 0 0x1000 8 8], lowered)"
    using pages_sample_result by blast
  have n: "1 < length pages_sample_headers" "length pages_sample_headers = 2" by (simp_all add: pages_sample_headers_def)
  from separate_keeps_memory [OF r pages_sample_proper pages_sample_size, THEN conjunct2, THEN conjunct2, THEN conjunct1,
      rule_format, OF n(1) pages_sample_byte(1), THEN conjunct2]
  obtain j where j: "j < 2" "in_load ([pages_sample_load 8 0x1008 4 4, pages_sample_load 0 0x1000 8 8] ! j) 0x1008"
    "segment_byte buf' ([pages_sample_load 8 0x1008 4 4, pages_sample_load 0 0x1000 8 8] ! j) 0x1008 = 9"
    unfolding n(2) pages_sample_byte(2) by blast
  have "[pages_sample_load 8 0x1008 4 4, pages_sample_load 0 0x1000 8 8] ! j
      \<in> {pages_sample_load 8 0x1008 4 4, pages_sample_load 0 0x1000 8 8}"
    using j(1) by (auto simp: less_2_cases_iff)
  with j(2,3) show ?thesis by blast
qed

theorem separate_pages_mappable_witness:
  "\<exists>buf'. buf' ! 3 = segment_byte buf' (pages_sample_load 0 0x1000 8 8) 0x1003"
proof -
  obtain buf' lowered where r: "SeparateSharedLoadPages pages_sample pages_sample_headers =
      Inr (buf', [pages_sample_load 8 0x1008 4 4, pages_sample_load 0 0x1000 8 8], lowered)"
    using pages_sample_result by blast
  have n: "0 < length pages_sample_headers" "1 < length pages_sample_headers" by (simp_all add: pages_sample_headers_def)
  have "in_load (pages_sample_load 0 0x1000 8 8) 0x1003"
    by (simp add: pages_sample_load_def in_load_def is_load_def)
  moreover have "is_load (pages_sample_load 8 0x1008 4 4)" "ph_FileSize (pages_sample_load 8 0x1008 4 4) \<noteq> 0"
    "off (pages_sample_load 8 0x1008 4 4) = 8" "adr (pages_sample_load 8 0x1008 4 4) = 0x1008"
    by (simp_all add: pages_sample_load_def is_load_def)
  note l = this
  ultimately have x: "(0x1008 :: nat) - 0x1008 mod 4096 \<le> 0x1003 \<and> (0x1003 :: nat) < 0x1008 \<and>
      in_load ([pages_sample_load 8 0x1008 4 4, pages_sample_load 0 0x1000 8 8] ! 1) 0x1003" by simp
  note m = separate_pages_mappable [OF r pages_sample_proper pages_sample_size n(1), unfolded nth_Cons_0, OF l(1,2), unfolded l(3,4)]
  have "buf' ! (8 - (0x1008 - 0x1003)) = segment_byte buf' ([pages_sample_load 8 0x1008 4 4, pages_sample_load 0 0x1000 8 8] ! 1) 0x1003"
    using m n(2) x by blast
  then show ?thesis by auto
qed

end
