(* ===== verification/Linux_Hash.thy ===== *)
theory Linux_Hash
  imports Linux_Rebase
begin

text \<open>
  The symbol hash tables of the Linux file (\<open>elfpatcher/src/linux/LinuxElfPatcher.cpp\<close>): \<open>GnuHash\<close>, \<open>ElfHash\<close>
  and the part of \<open>Patch\<close> that sorts the defined dynamic symbols by their bucket and appends the sections that
  \<open>DT_HASH\<close> and \<open>DT_GNU_HASH\<close> name. The loader looks a symbol up by these tables alone; its two search algorithms are
  stated on the bytes of the sections, and they find every defined symbol.
\<close>

subsection \<open>Hash functions\<close>

definition GnuHash :: "bytes \<Rightarrow> u32" where
  "GnuHash name = foldl (\<lambda>h c. h * 33 + ucast c) 5381 name"

definition ElfHash :: "bytes \<Rightarrow> u32" where
  "ElfHash name =
     foldl (\<lambda>h c. let h = push_bit 4 h + ucast c in (h XOR drop_bit 24 (h AND 0xf0000000)) AND 0x0fffffff) 0 name"

subsection \<open>The defined symbols\<close>

text \<open>A C string in the buffer, up to its zero byte.\<close>

definition c_string :: "bytes \<Rightarrow> nat \<Rightarrow> bytes" where
  "c_string buf pos = takeWhile (\<lambda>c. c \<noteq> 0) (drop pos buf)"

text \<open>The name of a symbol, read from the string table at \<open>dynStrOff\<close>.\<close>

definition symbol_name :: "bytes \<Rightarrow> nat \<Rightarrow> u64 \<Rightarrow> bytes \<Rightarrow> nat \<Rightarrow> bytes res" where
  "symbol_name buf dynStrOff dynStrSize symbols i =
     bind_res (ReadU32 symbols (i * 24)) (\<lambda>offset.
       Inr (if ucast offset < dynStrSize then c_string buf (dynStrOff + unat offset) else []))"

text \<open>The count of symbols has 32 bits.\<close>

definition symbol_count :: "bytes \<Rightarrow> nat" where
  "symbol_count symbols = unat (of_nat (length symbols div 24) :: u32)"

definition definedSymbols :: "bytes \<Rightarrow> nat list res" where
  "definedSymbols symbols =
     fold_res (\<lambda>i found. bind_res (ReadU16 symbols (i * 24 + 6)) (\<lambda>section.
         Inr (if section \<noteq> SHN_UNDEF then found @ [i] else found)))
       [1..<symbol_count symbols] []"

fun contiguous :: "nat list \<Rightarrow> bool" where
  "contiguous (i # j # is) \<longleftrightarrow> j = i + 1 \<and> contiguous (j # is)"
| "contiguous _ \<longleftrightarrow> True"

text \<open>The symbols with their hashes, sorted by bucket, the others in their order.\<close>

definition symHashes :: "bytes \<Rightarrow> nat \<Rightarrow> u64 \<Rightarrow> bytes \<Rightarrow> nat list \<Rightarrow> (nat \<times> u32) list res" where
  "symHashes buf dynStrOff dynStrSize symbols found =
     bind_res (map_res (symbol_name buf dynStrOff dynStrSize symbols) found) (\<lambda>names.
       Inr (sort_key (\<lambda>(i, h). h mod of_nat (length found)) (zip found (map GnuHash names))))"

definition sortedSymbols :: "bytes \<Rightarrow> (nat \<times> u32) list \<Rightarrow> bytes" where
  "sortedSymbols symbols hashes = concat (map (\<lambda>(i, h). subbytes symbols (i * 24) 24) hashes)"

subsection \<open>The tables\<close>

definition append_u32s :: "bytes \<Rightarrow> u32 list \<Rightarrow> bytes" where
  "append_u32s buf ws = foldl AppendU32 buf ws"

definition append_u64s :: "bytes \<Rightarrow> u64 list \<Rightarrow> bytes" where
  "append_u64s buf ws = foldl AppendU64 buf ws"

text \<open>The chains of \<open>DT_HASH\<close>: a symbol goes to the front of its bucket.\<close>

definition sysv_step :: "u32 \<Rightarrow> nat \<times> u32 \<Rightarrow> u32 list \<times> u32 list \<Rightarrow> u32 list \<times> u32 list" where
  "sysv_step bucketCount entry tables =
     (case (entry, tables) of ((symIdx, hash), (sysvBuckets, sysvChains)) \<Rightarrow>
        let b = unat (hash mod bucketCount)
        in (sysvBuckets[b := of_nat symIdx], sysvChains[symIdx := sysvBuckets ! b]))"

definition sysv_tables :: "nat \<Rightarrow> nat \<Rightarrow> u32 list \<Rightarrow> u32 list \<times> u32 list" where
  "sysv_tables symbolCount symoffset hashes =
     foldl (\<lambda>tables entry. sysv_step (of_nat (length hashes)) entry tables)
       (replicate (length hashes) 0, replicate symbolCount 0)
       (zip [symoffset..<symoffset + length hashes] hashes)"

text \<open>The number of words of the filter of \<open>DT_GNU_HASH\<close>; \<open>None\<close> if the loop does not end.\<close>

partial_function (option) bloomSize :: "u32 \<Rightarrow> u32 \<Rightarrow> u32 option" where
  "bloomSize numDefined n = (if n * 64 < numDefined * 8 then bloomSize numDefined (push_bit 1 n) else Some n)"

declare bloomSize.simps [code]

definition bloom_step :: "u32 \<Rightarrow> u32 \<Rightarrow> u64 list \<Rightarrow> u64 list" where
  "bloom_step n hash bloom =
     (let wordIdx = unat ((hash div 64) mod n); bit1 = unat (hash mod 64); bit2 = unat (drop_bit 6 hash mod 64)
      in bloom[wordIdx := bloom ! wordIdx OR (push_bit bit1 1 OR push_bit bit2 1)])"

definition gnu_bloom :: "u32 \<Rightarrow> u32 list \<Rightarrow> u64 list" where
  "gnu_bloom n hashes = foldl (\<lambda>bloom hash. bloom_step n hash bloom) (replicate (unat n) 0) hashes"

fun gnu_buckets :: "u32 \<Rightarrow> u32 list \<Rightarrow> nat \<Rightarrow> u32 \<Rightarrow> u32 list \<Rightarrow> u32 list" where
  "gnu_buckets nbuckets [] symIdx prevBucket buckets = buckets"
| "gnu_buckets nbuckets (hash # hashes) symIdx prevBucket buckets =
     (let b = hash mod nbuckets
      in if b \<noteq> prevBucket then gnu_buckets nbuckets hashes (symIdx + 1) b (buckets[unat b := of_nat symIdx])
         else gnu_buckets nbuckets hashes (symIdx + 1) prevBucket buckets)"

fun gnu_chains :: "u32 \<Rightarrow> u32 list \<Rightarrow> u32 list" where
  "gnu_chains nbuckets [] = []"
| "gnu_chains nbuckets (hash # hashes) =
     (let isLast = (hashes = [] \<or> hd hashes mod nbuckets \<noteq> hash mod nbuckets)
      in (hash AND NOT 1) OR (if isLast then 1 else 0)) # gnu_chains nbuckets hashes"

definition append_sysv :: "nat \<Rightarrow> nat \<Rightarrow> u32 list \<Rightarrow> bytes \<Rightarrow> bytes" where
  "append_sysv symbolCount symoffset hashes buf =
     (if hashes = []
      then append_u32s (AppendU32 (AppendU32 (AppendU32 buf 1) (of_nat symbolCount)) 0) (replicate symbolCount 0)
      else case sysv_tables symbolCount symoffset hashes of (sysvBuckets, sysvChains) \<Rightarrow>
        append_u32s (append_u32s (AppendU32 (AppendU32 buf (of_nat (length hashes))) (of_nat symbolCount)) sysvBuckets) sysvChains)"

definition append_gnu :: "nat \<Rightarrow> nat \<Rightarrow> u32 list \<Rightarrow> bytes \<Rightarrow> bytes option" where
  "append_gnu symbolCount symoffset hashes buf =
     (if hashes = []
      then Some (AppendU32 (AppendU64 (AppendU32 (AppendU32 (AppendU32 (AppendU32 buf 1) (of_nat symbolCount)) 1) 6) 0) 0)
      else
        let nbuckets = of_nat (length hashes) :: u32
        in case bloomSize nbuckets 1 of
             None \<Rightarrow> None
           | Some n \<Rightarrow>
               let buf = AppendU32 (AppendU32 (AppendU32 (AppendU32 buf nbuckets) (of_nat symoffset)) n) 6
               in Some (append_u32s (append_u32s (append_u64s buf (gnu_bloom n hashes))
                    (gnu_buckets nbuckets hashes symoffset nbuckets (replicate (length hashes) 0)))
                    (gnu_chains nbuckets hashes)))"

text \<open>The lambda \<open>alignBuf\<close>.\<close>

definition alignBuf :: "nat \<Rightarrow> bytes \<Rightarrow> bytes" where
  "alignBuf alignment b = b @ replicate ((alignment - length b mod alignment) mod alignment) 0"


subsection \<open>The loader's searches\<close>

text \<open>
  The search in \<open>DT_HASH\<close> follows a chain that starts in the bucket and ends with index zero. The search in
  \<open>DT_GNU_HASH\<close> asks the filter, then compares the hashes of consecutive symbols up to the one whose lowest bit is set.
  Both are given by the list of the symbols that they compare with the name; a number of steps bounds the walk.
\<close>

definition u32_at :: "bytes \<Rightarrow> nat \<Rightarrow> u32" where
  "u32_at buf pos = le_word (subbytes buf pos 4)"

definition u64_at :: "bytes \<Rightarrow> nat \<Rightarrow> u64" where
  "u64_at buf pos = le_word (subbytes buf pos 8)"

fun sysv_walk :: "(nat \<Rightarrow> u32) \<Rightarrow> nat \<Rightarrow> u32 \<Rightarrow> nat list" where
  "sysv_walk rd 0 y = []"
| "sysv_walk rd (Suc steps) y = (if y = 0 then [] else unat y # sysv_walk rd steps (rd (unat y)))"

definition sysv_candidates :: "bytes \<Rightarrow> nat \<Rightarrow> nat \<Rightarrow> u32 \<Rightarrow> nat list" where
  "sysv_candidates buf pos steps hash =
     (let nbucket = u32_at buf pos
      in sysv_walk (\<lambda>y. u32_at buf (pos + 8 + 4 * unat nbucket + 4 * y)) steps
           (u32_at buf (pos + 8 + 4 * unat (hash mod nbucket))))"

fun gnu_walk :: "(nat \<Rightarrow> u32) \<Rightarrow> u32 \<Rightarrow> nat \<Rightarrow> nat \<Rightarrow> nat list" where
  "gnu_walk rd hash 0 y = []"
| "gnu_walk rd hash (Suc steps) y =
     (if drop_bit 1 (rd y XOR hash) = 0 then [y] else []) @ (if rd y AND 1 \<noteq> 0 then [] else gnu_walk rd hash steps (y + 1))"

definition gnu_candidates :: "bytes \<Rightarrow> nat \<Rightarrow> nat \<Rightarrow> u32 \<Rightarrow> nat list" where
  "gnu_candidates buf pos steps hash =
     (let nbuckets = u32_at buf pos; symoffset = u32_at buf (pos + 4); words = u32_at buf (pos + 8);
          shift = u32_at buf (pos + 12);
          filter_word = u64_at buf (pos + 16 + 8 * unat ((hash div 64) AND (words - 1)));
          buckets = pos + 16 + 8 * unat words; values = buckets + 4 * unat nbuckets;
          start = u32_at buf (buckets + 4 * unat (hash mod nbuckets))
      in if \<not> bit filter_word (unat (hash AND 63)) \<or> \<not> bit filter_word (unat (drop_bit (unat shift) hash AND 63)) then []
         else if start = 0 then []
         else gnu_walk (\<lambda>y. u32_at buf (values + 4 * (y - unat symoffset))) hash steps (unat start))"

subsection \<open>The chains of \<open>DT_HASH\<close>\<close>

fun linked :: "(nat \<Rightarrow> u32) \<Rightarrow> u32 \<Rightarrow> nat list \<Rightarrow> bool" where
  "linked rd y [] \<longleftrightarrow> y = 0"
| "linked rd y (k # ks) \<longleftrightarrow> y = of_nat k \<and> linked rd (rd k) ks"

lemma unat_index: "k < 2 ^ 32 \<Longrightarrow> unat (of_nat k :: u32) = k"
  by (simp add: unat_of_nat)

lemma linked_walk:
  assumes "linked rd y ks" "\<forall>k \<in> set ks. 0 < k \<and> k < 2 ^ 32" "length ks \<le> steps"
  shows "sysv_walk rd steps y = ks"
  using assms
proof (induction ks arbitrary: y steps)
  case Nil
  then show ?case by (cases steps) auto
next
  case (Cons k ks)
  then obtain steps' where steps: "steps = Suc steps'" by (cases steps) auto
  have k: "unat (of_nat k :: u32) = k" "0 < k" using Cons.prems(2) unat_index by auto
  then have "y \<noteq> 0" using Cons.prems(1) by (metis linked.simps(2) less_irrefl unat_0)
  then show ?case using Cons.IH [of "rd k" steps'] Cons.prems k(1) steps by auto
qed

lemma linked_cong: "linked rd y ks \<Longrightarrow> \<forall>k \<in> set ks. rd' k = rd k \<Longrightarrow> linked rd' y ks"
  by (induction ks arbitrary: y) auto

definition bucket_symbols :: "nat \<Rightarrow> u32 list \<Rightarrow> nat \<Rightarrow> nat \<Rightarrow> nat list" where
  "bucket_symbols symoffset hashes m b =
     rev (map (\<lambda>k. symoffset + k) (filter (\<lambda>k. unat (hashes ! k mod of_nat (length hashes)) = b) [0..<m]))"

lemma sysv_tables_linked:
  assumes "0 < length hashes" "length hashes < 2 ^ 32" "symoffset + length hashes \<le> symbolCount"
  shows "case sysv_tables symbolCount symoffset hashes of (bs, cs) \<Rightarrow>
    length bs = length hashes \<and> length cs = symbolCount \<and>
    (\<forall>b < length hashes. linked ((!) cs) (bs ! b) (bucket_symbols symoffset hashes (length hashes) b))"
proof -
  let ?n = "length hashes"
  let ?t = "\<lambda>m. foldl (\<lambda>tables entry. sysv_step (of_nat ?n) entry tables) (replicate ?n 0, replicate symbolCount 0)
    (zip [symoffset..<symoffset + m] (take m hashes))"
  have "case ?t m of (bs, cs) \<Rightarrow> length bs = ?n \<and> length cs = symbolCount \<and>
    (\<forall>b < ?n. linked ((!) cs) (bs ! b) (bucket_symbols symoffset hashes m b))" if "m \<le> ?n" for m
    using that
  proof (induction m)
    case 0
    then show ?case by (simp add: bucket_symbols_def)
  next
    case (Suc m)
    obtain bs cs where t: "?t m = (bs, cs)" by fastforce
    with Suc have ih: "length bs = ?n" "length cs = symbolCount"
      "\<forall>b < ?n. linked ((!) cs) (bs ! b) (bucket_symbols symoffset hashes m b)" by auto
    have "zip [symoffset..<symoffset + Suc m] (take (Suc m) hashes) =
      zip [symoffset..<symoffset + m] (take m hashes) @ [(symoffset + m, hashes ! m)]"
      using Suc.prems by (simp add: take_Suc_conv_app_nth)
    then have next': "?t (Suc m) = sysv_step (of_nat ?n) (symoffset + m, hashes ! m) (bs, cs)" using t by simp
    let ?b = "unat (hashes ! m mod of_nat ?n)"
    have n: "unat (of_nat ?n :: u32) = ?n" using assms(2) by (rule unat_index)
    have b: "?b < ?n" using assms(1) by (simp add: unat_mod_distrib n)
    have "linked ((!) (cs[symoffset + m := bs ! ?b])) (bs[?b := of_nat (symoffset + m)] ! c) (bucket_symbols symoffset hashes (Suc m) c)"
      if c: "c < ?n" for c
    proof -
      have old: "linked ((!) (cs[symoffset + m := bs ! ?b])) (bs ! c) (bucket_symbols symoffset hashes m c)"
        by (rule linked_cong [OF ih(3) [rule_format, OF c]]) (auto simp: bucket_symbols_def)
      show ?thesis
      proof (cases "c = ?b")
        case True
        then show ?thesis using old ih(1,2) assms(3) Suc.prems c by (simp add: bucket_symbols_def)
      next
        case False
        then show ?thesis using old by (simp add: bucket_symbols_def)
      qed
    qed
    then show ?case unfolding next' by (simp add: sysv_step_def Let_def ih(1,2))
  qed
  from this [of ?n] show ?thesis by (simp add: sysv_tables_def)
qed


subsection \<open>The chains of \<open>DT_GNU_HASH\<close>\<close>

lemma all_less_Suc_split: "(\<forall>k < Suc n. P k) \<longleftrightarrow> P 0 \<and> (\<forall>k < n. P (Suc k))"
  by (auto simp: less_Suc_eq_0_disj)

lemma gnu_buckets_length: "length (gnu_buckets n hashes symIdx prev buckets) = length buckets"
  by (induction hashes arbitrary: symIdx prev buckets) (auto simp: Let_def)

text \<open>A bucket holds the index of the first symbol of its group.\<close>

lemma gnu_buckets_nth:
  assumes "sorted (map (\<lambda>h. h mod n) hashes)" "prev \<in> (\<lambda>h. h mod n) ` set hashes \<Longrightarrow> hd hashes mod n = prev"
    and "b < length buckets"
  shows "(\<forall>k < length hashes. unat (hashes ! k mod n) = b \<and> b \<noteq> unat prev \<and> (\<forall>j < k. unat (hashes ! j mod n) \<noteq> b) \<longrightarrow>
      gnu_buckets n hashes symIdx prev buckets ! b = of_nat (symIdx + k)) \<and>
    ((\<forall>k < length hashes. unat (hashes ! k mod n) \<noteq> b) \<or> b = unat prev \<longrightarrow> gnu_buckets n hashes symIdx prev buckets ! b = buckets ! b)"
  using assms
proof (induction hashes arbitrary: symIdx prev buckets)
  case Nil
  then show ?case by simp
next
  case (Cons h hs)
  let ?f = "\<lambda>h. h mod n"
  have sorted: "sorted (map ?f hs)" "\<forall>x \<in> set hs. ?f h \<le> ?f x" using Cons.prems(1) by auto
  have hd: "?f h \<in> ?f ` set hs \<Longrightarrow> hd hs mod n = ?f h"
  proof -
    assume "?f h \<in> ?f ` set hs"
    then obtain x where x: "x \<in> set hs" "?f x = ?f h" by (auto simp: image_iff)
    then obtain g gs where g: "hs = g # gs" by (cases hs) auto
    have "?f g \<le> ?f x" using sorted(1) x(1) g by auto
    then show ?thesis using sorted(2) x(2) g by (auto intro: antisym)
  qed
  show ?case
  proof (cases "?f h = prev")
    case True
    note ih = Cons.IH [OF sorted(1), of prev buckets "symIdx + 1", OF hd [unfolded True] Cons.prems(3)]
    have e: "gnu_buckets n (h # hs) symIdx prev buckets = gnu_buckets n hs (symIdx + 1) prev buckets" using True by (simp add: Let_def)
    show ?thesis
    proof (cases "b = unat prev")
      case True
      then show ?thesis using ih e by simp
    next
      case False
      then have "unat (?f h) \<noteq> b" using True by auto
      then show ?thesis using ih False unfolding e by (auto simp: nth_Cons' all_less_Suc_split)
    qed
  next
    case False
    let ?b' = "buckets[unat (?f h) := of_nat symIdx]"
    note ih = Cons.IH [OF sorted(1), of "?f h" ?b' "symIdx + 1", OF hd] 
    have e: "gnu_buckets n (h # hs) symIdx prev buckets = gnu_buckets n hs (symIdx + 1) (?f h) ?b'" using False by (simp add: Let_def)
    have np: "unat (?f h) \<noteq> unat prev" using False by (simp add: word_unat_eq_iff)
    have away: "unat (?f x) \<noteq> unat prev" if "x \<in> set (h # hs)" for x
      using Cons.prems(2) False that by (auto simp: word_unat_eq_iff [symmetric])
    show ?thesis
    proof (cases "b = unat (?f h)")
      case True
      have "gnu_buckets n hs (symIdx + 1) (?f h) ?b' ! b = of_nat symIdx" using ih Cons.prems(3) True by simp
      then show ?thesis using True np unfolding e
        by (auto simp: nth_Cons' split: if_splits) 
    next
      case b: False
      have "?b' ! b = buckets ! b" using b by simp
      then show ?thesis using ih Cons.prems(3) b away unfolding e
        by (auto simp: nth_Cons' all_less_Suc_split)
    qed
  qed
qed


lemma gnu_chains_length: "length (gnu_chains n hashes) = length hashes"
  by (induction n hashes rule: gnu_chains.induct) (auto simp: Let_def)

lemma gnu_chains_nth:
  "k < length hashes \<Longrightarrow> gnu_chains n hashes ! k =
     (hashes ! k AND NOT 1) OR (if k + 1 = length hashes \<or> hashes ! (k + 1) mod n \<noteq> hashes ! k mod n then 1 else 0)"
proof (induction n hashes arbitrary: k rule: gnu_chains.induct)
  case (2 n h hs)
  then show ?case by (cases k; cases hs) (auto simp: Let_def)
qed simp

text \<open>A value of the table matches its hash but for the lowest bit, which ends the group.\<close>

lemma chain_value:
  "drop_bit 1 (((h AND NOT 1) OR (if c then 1 else 0)) XOR h) = (0 :: u32)"
  "((h AND NOT 1) OR (if c then 1 else 0)) AND 1 \<noteq> (0 :: u32) \<longleftrightarrow> c"
proof -
  define m where "m = (NOT 1 :: u32)"
  have m: "bit m n \<longleftrightarrow> n < 32 \<and> n \<noteq> 0" for n
    unfolding m_def bit_not_iff bit_1_iff by (auto simp: possible_bit_word)
  show "drop_bit 1 (((h AND NOT 1) OR (if c then 1 else 0)) XOR h) = (0 :: u32)"
    unfolding m_def [symmetric] by (rule bit_word_eqI) (auto simp: bit_simps bit_1_iff m dest: bit_imp_le_length)
  have "bit (((h AND m) OR (if c then 1 else 0)) AND 1) n \<longleftrightarrow> c \<and> n = 0" for n
    by (auto simp: bit_simps bit_1_iff m)
  then show "((h AND NOT 1) OR (if c then 1 else 0)) AND 1 \<noteq> (0 :: u32) \<longleftrightarrow> c"
    unfolding m_def [symmetric] by (metis bit_0_eq bot_apply bot_bool_def bit_eq_iff)
qed

lemma gnu_walk_finds:
  assumes "\<forall>j. y \<le> j \<and> j < z \<longrightarrow> rd j AND 1 = 0" "y \<le> z" "z - y < steps" "drop_bit 1 (rd z XOR hash) = 0"
  shows "z \<in> set (gnu_walk rd hash steps y)"
  using assms
proof (induction steps arbitrary: y)
  case (Suc steps)
  show ?case
  proof (cases "y = z")
    case True
    then show ?thesis using Suc.prems(4) by simp
  next
    case False
    then show ?thesis using Suc.IH [of "y + 1"] Suc.prems by auto
  qed
qed simp

lemma gnu_walk_stops: "rd e AND 1 \<noteq> 0 \<Longrightarrow> y \<le> e \<Longrightarrow> z \<in> set (gnu_walk rd hash steps y) \<Longrightarrow> y \<le> z \<and> z \<le> e"
proof (induction steps arbitrary: y)
  case (Suc steps)
  show ?case
  proof (cases "y = e")
    case True
    then show ?thesis using Suc.prems by (auto split: if_splits)
  next
    case False
    then show ?thesis using Suc.IH [of "y + 1"] Suc.prems by (auto split: if_splits)
  qed
qed simp

text \<open>The group of a symbol: its first member, and no end of a group up to the symbol.\<close>

lemma group:
  assumes "sorted (map (\<lambda>h. h mod n) hashes)" "k < length hashes"
  obtains s where "s \<le> k" "hashes ! s mod n = hashes ! k mod n" "\<forall>j < s. unat (hashes ! j mod n) \<noteq> unat (hashes ! k mod n)"
    "\<forall>j. s \<le> j \<and> j < k \<longrightarrow> hashes ! (j + 1) mod n = hashes ! j mod n"
proof -
  let ?P = "\<lambda>s. hashes ! s mod n = hashes ! k mod n"
  define s where "s = (LEAST s. ?P s)"
  have p: "?P s" unfolding s_def by (rule LeastI [of ?P k]) simp
  have le: "s \<le> k" unfolding s_def by (rule Least_le) simp
  have least: "\<forall>j < s. \<not> ?P j" unfolding s_def by (auto dest: not_less_Least)
  have mono: "hashes ! i mod n \<le> hashes ! j mod n" if "i \<le> j" "j < length hashes" for i j
    using sorted_nth_mono [OF assms(1), of i j] that by simp
  have same: "?P j" if "s \<le> j" "j \<le> k" for j
    using mono [OF that(1)] mono [OF that(2) assms(2)] that(2) assms(2) p by (metis antisym le_less_trans)
  show thesis
  proof (rule that [OF le p])
    show "\<forall>j < s. unat (hashes ! j mod n) \<noteq> unat (hashes ! k mod n)" using least by (simp add: word_unat_eq_iff)
    show "\<forall>j. s \<le> j \<and> j < k \<longrightarrow> hashes ! (j + 1) mod n = hashes ! j mod n"
      using same by (metis Suc_eq_plus1 Suc_leI le_Suc_eq less_imp_le_nat)
  qed
qed

subsection \<open>The filter\<close>

lemma bit_bloom_step:
  assumes "bit (bloom ! w) i"
  shows "bit (bloom_step n hash bloom ! w) i"
  using assms by (cases "unat ((hash div 64) mod n) < length bloom") (auto simp: bloom_step_def Let_def nth_list_update bit_or_iff list_update_beyond)

lemma bloom_step_length: "length (bloom_step n hash bloom) = length bloom"
  by (simp add: bloom_step_def Let_def)

lemma bloom_step_sets:
  assumes "unat ((hash div 64) mod n) < length bloom"
  shows "bit (bloom_step n hash bloom ! unat ((hash div 64) mod n)) (unat (hash mod 64))"
    "bit (bloom_step n hash bloom ! unat ((hash div 64) mod n)) (unat (drop_bit 6 hash mod 64))"
proof -
  have l: "unat (x mod 64) < 64" for x :: u32 by (simp add: unat_mod_distrib)
  show "bit (bloom_step n hash bloom ! unat ((hash div 64) mod n)) (unat (hash mod 64))"
    "bit (bloom_step n hash bloom ! unat ((hash div 64) mod n)) (unat (drop_bit 6 hash mod 64))"
    using assms l [of hash] l [of "drop_bit 6 hash"]
    by (auto simp: bloom_step_def Let_def bit_or_iff bit_exp_iff)
qed

lemma gnu_bloom_sets:
  assumes "hash \<in> set hashes" "n \<noteq> 0"
  shows "bit (gnu_bloom n hashes ! unat ((hash div 64) mod n)) (unat (hash mod 64))"
    "bit (gnu_bloom n hashes ! unat ((hash div 64) mod n)) (unat (drop_bit 6 hash mod 64))"
    "length (gnu_bloom n hashes) = unat n"
proof -
  let ?g = "\<lambda>hs bloom. foldl (\<lambda>bloom hash. bloom_step n hash bloom) bloom hs"
  have keep: "bit (bloom ! w) i \<Longrightarrow> bit (?g hs bloom ! w) i" for hs bloom w i
    by (induction hs arbitrary: bloom) (auto intro: bit_bloom_step)
  have len: "length (?g hs bloom) = length bloom" for hs bloom
    by (induction hs arbitrary: bloom) (auto simp: bloom_step_length)
  have w: "unat ((hash div 64) mod n) < unat n" using assms(2) by (simp add: unat_mod_distrib unat_gt_0)
  obtain xs ys where h: "hashes = xs @ hash # ys" using assms(1) by (auto simp: in_set_conv_decomp)
  note set = bloom_step_sets [of hash n "?g xs (replicate (unat n) 0)"]
  show "bit (gnu_bloom n hashes ! unat ((hash div 64) mod n)) (unat (hash mod 64))"
    "bit (gnu_bloom n hashes ! unat ((hash div 64) mod n)) (unat (drop_bit 6 hash mod 64))"
    unfolding gnu_bloom_def h using set w len by (auto intro!: keep)
  show "length (gnu_bloom n hashes) = unat n" by (simp add: gnu_bloom_def len)
qed


subsection \<open>The number of words of the filter\<close>

lemma bloomSize_power:
  assumes "i \<le> 25" "unat d \<le> 2 ^ 28"
  shows "\<exists>j. i \<le> j \<and> j \<le> 25 \<and> bloomSize d (2 ^ i) = Some (2 ^ j) \<and> unat d \<le> 2 ^ (j + 3)"
  using assms(1)
proof (induction "25 - i" arbitrary: i)
  case (0 i)
  have i: "i = 25" using 0 by simp
  have "\<not> (2 ^ 25 :: u32) * 64 < d * 8"
  proof -
    have "unat (d * 8) = unat d * 8" using assms(2) by (simp add: unat_word_ariths)
    then show ?thesis using assms(2) by (simp add: word_less_nat_alt)
  qed
  then have "bloomSize d (2 ^ 25) = Some (2 ^ 25)" by (subst bloomSize.simps) simp
  then show ?case using i assms(2) by auto
next
  case (Suc n i)
  have i: "i < 25" using Suc.hyps(2) by simp
  have d: "unat (d * 8) = unat d * 8" using assms(2) by (simp add: unat_word_ariths)
  have p: "unat ((2 :: u32) ^ i * 64) = 2 ^ (i + 6)"
  proof -
    have e: "(2 :: u32) ^ i * 64 = 2 ^ (i + 6)" by (simp add: power_add)
    have "unat ((2 :: u32) ^ (i + 6)) = 2 ^ (i + 6)" by (rule unat_power_of_two) (use i in simp)
    then show ?thesis by (simp only: e)
  qed
  show ?case
  proof (cases "(2 :: u32) ^ i * 64 < d * 8")
    case True
    have "bloomSize d (2 ^ i) = bloomSize d (2 ^ (i + 1))"
      using True by (subst bloomSize.simps) (simp add: push_bit_eq_mult mult.commute)
    moreover have "\<exists>j. i + 1 \<le> j \<and> j \<le> 25 \<and> bloomSize d (2 ^ (i + 1)) = Some (2 ^ j) \<and> unat d \<le> 2 ^ (j + 3)"
      using Suc.hyps(1) [of "i + 1"] Suc.hyps(2) i by simp
    ultimately show ?thesis by (metis Suc_eq_plus1 Suc_leD)
  next
    case False
    then have "bloomSize d (2 ^ i) = Some (2 ^ i)" by (subst bloomSize.simps) simp
    moreover have "unat d * 8 \<le> 2 ^ (i + 6)" using False p d by (simp add: word_less_nat_alt)
    then have "unat d \<le> 2 ^ (i + 3)" by (simp add: power_add)
    ultimately show ?thesis using i by (intro exI [of _ i]) simp
  qed
qed

lemma and_power_mod: "w AND (2 ^ j - 1) = w mod (2 ^ j :: u32)"
  by (simp add: take_bit_eq_mod [symmetric] take_bit_eq_mask mask_eq_exp_minus_1)

subsection \<open>Reading the sections\<close>

definition u32_bytes :: "u32 list \<Rightarrow> bytes" where
  "u32_bytes ws = concat (map (le_bytes 4) ws)"

definition u64_bytes :: "u64 list \<Rightarrow> bytes" where
  "u64_bytes ws = concat (map (le_bytes 8) ws)"

lemma length_table_bytes [simp]: "length (u32_bytes ws) = 4 * length ws" "length (u64_bytes vs) = 8 * length vs"
  by (induction ws) (simp_all add: u32_bytes_def, induction vs, simp_all add: u64_bytes_def)

lemma append_table_bytes:
  "append_u32s buf ws = buf @ u32_bytes ws" "append_u64s buf vs = buf @ u64_bytes vs"
proof -
  show "append_u32s buf ws = buf @ u32_bytes ws"
    by (induction ws arbitrary: buf) (simp_all add: append_u32s_def u32_bytes_def Append_eqs)
  show "append_u64s buf vs = buf @ u64_bytes vs"
    by (induction vs arbitrary: buf) (simp_all add: append_u64s_def u64_bytes_def Append_eqs)
qed

lemma subbytes_middle: "length pre = n \<Longrightarrow> subbytes (pre @ mid @ post) n (length mid) = mid"
  by (auto simp: subbytes_def)

lemma u32_at_table: "k < length ws \<Longrightarrow> length pre + 4 * k = pos \<Longrightarrow> u32_at (pre @ u32_bytes ws @ post) pos = ws ! k"
proof -
  assume k: "k < length ws" and pos: "length pre + 4 * k = pos"
  have e: "u32_bytes ws = u32_bytes (take k ws) @ le_bytes 4 (ws ! k) @ u32_bytes (drop (Suc k) ws)"
    using id_take_nth_drop [OF k] by (metis concat_append map_append list.simps(9) concat.simps(2) u32_bytes_def)
  have "pre @ u32_bytes ws @ post = (pre @ u32_bytes (take k ws)) @ le_bytes 4 (ws ! k) @ (u32_bytes (drop (Suc k) ws) @ post)"
    by (simp add: e)
  then have "subbytes (pre @ u32_bytes ws @ post) pos 4 = le_bytes 4 (ws ! k)"
    using subbytes_middle [of "pre @ u32_bytes (take k ws)" pos "le_bytes 4 (ws ! k)"] k pos by simp
  then show "u32_at (pre @ u32_bytes ws @ post) pos = ws ! k" by (simp add: u32_at_def le_word_le_bytes)
qed

lemma u64_at_table: "k < length ws \<Longrightarrow> length pre + 8 * k = pos \<Longrightarrow> u64_at (pre @ u64_bytes ws @ post) pos = ws ! k"
proof -
  assume k: "k < length ws" and pos: "length pre + 8 * k = pos"
  have e: "u64_bytes ws = u64_bytes (take k ws) @ le_bytes 8 (ws ! k) @ u64_bytes (drop (Suc k) ws)"
    using id_take_nth_drop [OF k] by (metis concat_append map_append list.simps(9) concat.simps(2) u64_bytes_def)
  have "pre @ u64_bytes ws @ post = (pre @ u64_bytes (take k ws)) @ le_bytes 8 (ws ! k) @ (u64_bytes (drop (Suc k) ws) @ post)"
    by (simp add: e)
  then have "subbytes (pre @ u64_bytes ws @ post) pos 8 = le_bytes 8 (ws ! k)"
    using subbytes_middle [of "pre @ u64_bytes (take k ws)" pos "le_bytes 8 (ws ! k)"] k pos by simp
  then show "u64_at (pre @ u64_bytes ws @ post) pos = ws ! k" by (simp add: u64_at_def le_word_le_bytes)
qed


lemma unat_hash_mod: "n < 2 ^ 32 \<Longrightarrow> 0 < n \<Longrightarrow> unat ((h :: u32) mod of_nat n) < n"
  by (simp add: unat_mod_distrib unat_index)

text \<open>The candidates of \<open>DT_HASH\<close> are the symbols of the bucket, the last inserted one first.\<close>

lemma sysv_candidates_bucket:
  assumes "hashes \<noteq> []" "1 \<le> symoffset" "symoffset + length hashes \<le> symbolCount" "symbolCount < 2 ^ 32" "symbolCount \<le> steps"
    and "pos = length buf"
  shows "sysv_candidates (append_sysv symbolCount symoffset hashes buf @ post) pos steps hash =
    bucket_symbols symoffset hashes (length hashes) (unat (hash mod of_nat (length hashes)))"
proof -
  let ?n = "length hashes"
  have n: "0 < ?n" "?n < 2 ^ 32" using assms(1,3,4) by auto
  obtain bs cs where t: "sysv_tables symbolCount symoffset hashes = (bs, cs)" by fastforce
  note l = sysv_tables_linked [OF n assms(3), unfolded t prod.case]
  let ?head = "buf @ u32_bytes [of_nat ?n, of_nat symbolCount]"
  let ?file = "append_sysv symbolCount symoffset hashes buf @ post"
  have whole: "?file = ?head @ u32_bytes bs @ (u32_bytes cs @ post)"
    using assms(1) by (simp add: append_sysv_def t append_table_bytes Append_eqs u32_bytes_def)
  have nb: "u32_at ?file pos = of_nat ?n"
    using u32_at_table [of 0 "[of_nat ?n, of_nat symbolCount]" buf pos "u32_bytes bs @ (u32_bytes cs @ post)"] assms(6)
    by (simp add: whole)
  have un: "unat (of_nat ?n :: u32) = ?n" by (rule unat_index [OF n(2)])
  let ?b = "unat (hash mod of_nat ?n)"
  have b: "?b < ?n" by (rule unat_hash_mod [OF n(2,1)])
  have start: "u32_at ?file (pos + 8 + 4 * ?b) = bs ! ?b"
    unfolding whole by (rule u32_at_table) (use b l assms(6) in auto)
  have whole': "?file = (?head @ u32_bytes bs) @ u32_bytes cs @ post" by (simp add: whole)
  have chain: "u32_at ?file (pos + 8 + 4 * ?n + 4 * y) = cs ! y" if "y < symbolCount" for y
    unfolding whole' by (rule u32_at_table) (use that l assms(6) in auto)
  have members: "\<forall>k \<in> set (bucket_symbols symoffset hashes ?n ?b). 0 < k \<and> k < symbolCount"
    using assms(2,3) by (auto simp: bucket_symbols_def)
  have "linked (\<lambda>y. u32_at ?file (pos + 8 + 4 * ?n + 4 * y)) (bs ! ?b) (bucket_symbols symoffset hashes ?n ?b)"
    by (rule linked_cong [of "(!) cs"]) (use l b chain members in auto)
  moreover have "length (bucket_symbols symoffset hashes ?n ?b) \<le> steps"
  proof -
    have "length (bucket_symbols symoffset hashes ?n ?b) \<le> ?n"
      unfolding bucket_symbols_def by (simp add: order_trans [OF length_filter_le])
    then show ?thesis using assms(3,5) by linarith
  qed
  ultimately show ?thesis
    unfolding sysv_candidates_def Let_def nb un start using members assms(4) by (intro linked_walk) auto
qed

text \<open>The candidates of \<open>DT_GNU_HASH\<close> are defined symbols, among them every symbol with the hash.\<close>

lemma gnu_candidates_group:
  assumes "append_gnu symbolCount symoffset hashes buf = Some buf'" "sorted (map (\<lambda>h. h mod of_nat (length hashes)) hashes)"
    and "1 \<le> symoffset" "symoffset + length hashes < 2 ^ 32" "length hashes \<le> 2 ^ 28" "length hashes \<le> steps"
    and "pos = length buf" "k < length hashes"
  shows "symoffset + k \<in> set (gnu_candidates (buf' @ post) pos steps (hashes ! k))"
    and "z \<in> set (gnu_candidates (buf' @ post) pos steps (hashes ! k)) \<Longrightarrow> symoffset \<le> z \<and> z < symoffset + length hashes"
proof -
  let ?n = "length hashes" and ?N = "of_nat (length hashes) :: u32" and ?h = "hashes ! k"
  have ne: "hashes \<noteq> []" using assms(8) by auto
  have n: "0 < ?n" "?n < 2 ^ 32" using ne assms(5) by auto
  have un: "unat ?N = ?n" by (rule unat_index [OF n(2)])
  obtain j where j: "j \<le> 25" "bloomSize ?N 1 = Some (2 ^ j)" using bloomSize_power [of 0 ?N] un assms(5) by auto
  let ?W = "2 ^ j :: u32"
  have W: "?W \<noteq> 0" using j(1) by (simp add: unat_eq_0 [symmetric] unat_power_of_two)
  let ?bloom = "gnu_bloom ?W hashes" and ?buckets = "gnu_buckets ?N hashes symoffset ?N (replicate ?n 0)" and ?chains = "gnu_chains ?N hashes"
  let ?head = "buf @ u32_bytes [?N, of_nat symoffset, ?W, 6]"
  let ?file = "buf' @ post"
  have whole: "?file = ?head @ u64_bytes ?bloom @ (u32_bytes ?buckets @ u32_bytes ?chains @ post)"
    using assms(1) ne j(2) by (auto simp: append_gnu_def append_table_bytes Append_eqs u32_bytes_def Let_def)
  have fields: "u32_at ?file (pos + 4 * i) = [?N, of_nat symoffset, ?W, 6] ! i" if "i < 4" for i
    using u32_at_table [of i "[?N, of_nat symoffset, ?W, 6]" buf "pos + 4 * i"] that assms(7) by (simp add: whole)
  have f0: "u32_at ?file pos = ?N" and f4: "u32_at ?file (pos + 4) = of_nat symoffset"
    and f8: "u32_at ?file (pos + 8) = ?W" and f12: "u32_at ?file (pos + 12) = 6"
    using fields [of 0] fields [of 1] fields [of 2] fields [of 3] by simp_all
  have us: "unat (of_nat symoffset :: u32) = symoffset" using assms(4) by (intro unat_index) simp
  note bl = gnu_bloom_sets [OF nth_mem [OF assms(8)] W]
  have bloom: "u64_at ?file (pos + 16 + 8 * unat ((?h div 64) AND (?W - 1))) = ?bloom ! unat ((?h div 64) mod ?W)"
    unfolding whole and_power_mod
  proof (rule u64_at_table)
    show "unat ((?h div 64) mod ?W) < length ?bloom" using W by (simp add: bl(3) unat_mod_distrib unat_gt_0)
  qed (use assms(7) in simp)
  have m64: "x AND 63 = x mod 64" for x :: u32 using and_power_mod [of x 6] by simp
  have lb: "length ?buckets = ?n" by (simp add: gnu_buckets_length)
  have whole': "?file = (?head @ u64_bytes ?bloom) @ u32_bytes ?buckets @ (u32_bytes ?chains @ post)" by (simp add: whole)
  have whole'': "?file = (?head @ u64_bytes ?bloom @ u32_bytes ?buckets) @ u32_bytes ?chains @ post" by (simp add: whole)
  let ?b = "unat (?h mod ?N)"
  have b: "?b < ?n" by (rule unat_hash_mod [OF n(2,1)])
  have start: "u32_at ?file (pos + 16 + 8 * unat ?W + 4 * ?b) = ?buckets ! ?b"
    unfolding whole' by (rule u32_at_table) (use b lb bl(3) assms(7) in simp_all)
  have chain: "u32_at ?file (pos + 16 + 8 * unat ?W + 4 * unat ?N + 4 * i) = ?chains ! i" if "i < ?n" for i
    unfolding whole'' by (rule u32_at_table) (use that lb bl(3) assms(7) un in \<open>simp_all add: gnu_chains_length\<close>)
  obtain s where s: "s \<le> k" "hashes ! s mod ?N = ?h mod ?N" "\<forall>j < s. unat (hashes ! j mod ?N) \<noteq> ?b"
    "\<forall>j. s \<le> j \<and> j < k \<longrightarrow> hashes ! (j + 1) mod ?N = hashes ! j mod ?N"
    by (rule group [OF assms(2,8)])
  have apart: "?N \<notin> (\<lambda>h. h mod ?N) ` set hashes"
  proof
    assume "?N \<in> (\<lambda>h. h mod ?N) ` set hashes"
    then obtain h where "?N = h mod ?N" by (rule imageE)
    then have "unat ?N = unat (h mod ?N)" by (rule arg_cong)
    then show False using unat_hash_mod [OF n(2,1), of h] unfolding un by linarith
  qed
  have "?buckets ! ?b = of_nat (symoffset + s)"
  proof (rule gnu_buckets_nth [OF assms(2), of ?N ?b "replicate ?n 0" symoffset, THEN conjunct1, rule_format])
    show "?N \<in> (\<lambda>h. h mod ?N) ` set hashes \<Longrightarrow> hd hashes mod ?N = ?N" using apart by (rule notE)
    show "?b < length (replicate ?n 0)" using b by (simp only: length_replicate)
    show "s < ?n" using s(1) assms(8) by linarith
    show "unat (hashes ! s mod ?N) = ?b \<and> ?b \<noteq> unat ?N \<and> (\<forall>j < s. unat (hashes ! j mod ?N) \<noteq> ?b)"
      unfolding s(2) un using b s(3) by (metis less_irrefl)
  qed
  moreover have "unat (of_nat (symoffset + s) :: u32) = symoffset + s" by (rule unat_index) (use assms(4,8) s(1) in linarith)
  ultimately have ss: "unat (?buckets ! ?b) = symoffset + s" by (simp only:)
  let ?rd = "\<lambda>y. u32_at ?file (pos + 16 + 8 * unat ?W + 4 * unat ?N + 4 * (y - unat (of_nat symoffset :: u32)))"
  have cands: "gnu_candidates ?file pos steps ?h = gnu_walk ?rd ?h steps (symoffset + s)"
  proof -
    have "?buckets ! ?b \<noteq> 0" using ss assms(3) by (metis add_is_0 not_one_le_zero unat_0)
    then show ?thesis
      unfolding gnu_candidates_def Let_def f0 f4 f8 f12 bloom start m64 using bl(1,2) ss by simp
  qed
  have rd: "?rd (symoffset + i) = ?chains ! i" if "i < ?n" for i using chain [OF that] us by simp
  show "symoffset + k \<in> set (gnu_candidates ?file pos steps ?h)"
    unfolding cands
  proof (rule gnu_walk_finds)
    show "\<forall>j. symoffset + s \<le> j \<and> j < symoffset + k \<longrightarrow> ?rd j AND 1 = 0"
    proof (intro allI impI)
      fix y assume y: "symoffset + s \<le> y \<and> y < symoffset + k"
      define i where "i = y - symoffset"
      have i: "y = symoffset + i" "s \<le> i" "i < k" using y unfolding i_def by auto
      then show "?rd y AND 1 = 0"
      proof -
        have l: "i < ?n" "\<not> (i + 1 = ?n \<or> hashes ! (i + 1) mod ?N \<noteq> hashes ! i mod ?N)" using i assms(8) s(4) by auto
        have "\<not> ?rd y AND 1 \<noteq> 0" unfolding i(1) rd [OF l(1)] gnu_chains_nth [OF l(1)] chain_value(2) by (rule l(2))
        then show ?thesis by (simp only: not_not)
      qed
    qed
    show "drop_bit 1 (?rd (symoffset + k) XOR ?h) = 0" 
      unfolding rd [OF assms(8)] gnu_chains_nth [OF assms(8)] by (rule chain_value(1))
  qed (use s(1) assms(6,8) in auto)
  assume z: "z \<in> set (gnu_candidates ?file pos steps ?h)"
  have last: "?rd (symoffset + (?n - 1)) AND 1 \<noteq> 0"
  proof -
    have l: "?n - 1 < ?n" "?n - 1 + 1 = ?n" using n by simp_all
    then show ?thesis unfolding rd [OF l(1)] gnu_chains_nth [OF l(1)] chain_value(2) by blast
  qed
  have "symoffset + s \<le> symoffset + (?n - 1)" using s(1) assms(8) by linarith
  from gnu_walk_stops [OF last this z [unfolded cands]] show "symoffset \<le> z \<and> z < symoffset + ?n"
    using n(1) by linarith
qed


subsection \<open>The sections of a file\<close>

definition requireNoDefinedReference :: "nat \<Rightarrow> nat \<Rightarrow> bytes \<Rightarrow> unit res" where
  "requireNoDefinedReference symoffset numDefined table =
     fold_res (\<lambda>entry _. bind_res (ReadU64 table (entry + 8)) (\<lambda>info.
         let sym = unat (drop_bit 32 info)
         in if sym \<ge> symoffset \<and> sym < symoffset + numDefined
            then Inl (RelinkerException ''Relocation references a defined dynamic symbol'' 0) else Inr ()))
       (entry_positions 24 table) ()"

text \<open>The symbols sorted, in the table and in the buffer at \<open>dynSymOff\<close>, with their hashes.\<close>

definition sort_symbols ::
    "nat \<Rightarrow> u64 \<Rightarrow> nat \<Rightarrow> bytes list \<Rightarrow> nat list \<Rightarrow> bytes \<times> bytes \<Rightarrow> (bytes \<times> bytes \<times> u32 list) res" where
  "sort_symbols dynStrOff dynStrSize dynSymOff relocationTables found st =
     (case st of (buf, symbols) \<Rightarrow>
       if found = [] then Inr (buf, symbols, [])
       else if \<not> contiguous found
       then Inl (RelinkerException ''Defined dynamic symbols are not contiguous'' 0)
       else
         let symoffset = hd found
         in bind_res (fold_res (\<lambda>table _. requireNoDefinedReference symoffset (length found) table) relocationTables ()) (\<lambda>_.
            bind_res (symHashes buf dynStrOff dynStrSize symbols found) (\<lambda>hashes.
              let sorted = sortedSymbols symbols hashes
              in Inr (blit buf (dynSymOff + symoffset * 24) sorted, blit symbols (symoffset * 24) sorted, map snd hashes))))"

text \<open>
  The buffer with both sections, the sorted symbols, and the offsets of the sections; \<open>None\<close> if the loop that sizes the
  filter does not end. The buffer holds the strings at \<open>dynStrOff\<close> and the symbols at \<open>dynSymOff\<close>.
\<close>

definition hash_sections ::
    "nat \<Rightarrow> u64 \<Rightarrow> nat \<Rightarrow> bytes list \<Rightarrow> bytes \<Rightarrow> bytes \<Rightarrow> (bytes \<times> bytes \<times> nat \<times> nat) option res" where
  "hash_sections dynStrOff dynStrSize dynSymOff relocationTables buf symbols =
     (let hashOff = length buf; count = symbol_count symbols
      in bind_res (definedSymbols symbols) (\<lambda>found.
         let symoffset = (if found = [] then count else hd found)
         in bind_res (sort_symbols dynStrOff dynStrSize dynSymOff relocationTables found (buf, symbols)) (\<lambda>(buf, symbols, hashes).
            bind_res (map_res (symbol_name buf dynStrOff dynStrSize symbols) [symoffset..<symoffset + length hashes]) (\<lambda>names.
              let buf = alignBuf 8 (append_sysv count symoffset (map ElfHash names) buf)
              in Inr (case append_gnu count symoffset hashes buf of
                   None \<Rightarrow> None | Some b \<Rightarrow> Some (alignBuf 24 b, symbols, hashOff, length buf))))))"

subsection \<open>The sorted symbols\<close>

lemma symbol_count_le: "symbol_count symbols \<le> length symbols div 24"
  by (simp add: symbol_count_def unat_of_nat)

lemma symbol_count_small: "length symbols div 24 < 2 ^ 32 \<Longrightarrow> symbol_count symbols = length symbols div 24"
  unfolding symbol_count_def by (rule unat_index)

lemma definedSymbols_Inr:
  assumes "definedSymbols symbols = Inr found"
  shows "sorted found" "distinct found" "\<forall>i \<in> set found. 1 \<le> i \<and> i < length symbols div 24"
proof -
  have "found = filter (\<lambda>i. ReadU16 symbols (i * 24 + 6) \<noteq> Inr SHN_UNDEF) [1..<n]"
    if "fold_res (\<lambda>i found. bind_res (ReadU16 symbols (i * 24 + 6)) (\<lambda>section.
         Inr (if section \<noteq> SHN_UNDEF then found @ [i] else found))) [1..<n] [] = Inr found" for n found
    using that
  proof (induction n arbitrary: found)
    case (Suc n)
    then show ?case by (cases "n = 0") (auto simp: fold_res_append res_simps split: if_splits)
  qed simp
  from this [OF assms [unfolded definedSymbols_def]]
  show "sorted found" "distinct found" "\<forall>i \<in> set found. 1 \<le> i \<and> i < length symbols div 24"
    using symbol_count_le [of symbols] by (auto simp: sorted_filter [where f = id, simplified] simp del: upt_rec_numeral)
qed

lemma entry_fits: "i < n div 24 \<Longrightarrow> i * 24 + 24 \<le> (n :: nat)"
  by linarith

lemma contiguous_nth: "contiguous found \<Longrightarrow> k < length found \<Longrightarrow> found ! k = hd found + k"
proof (induction found arbitrary: k rule: contiguous.induct)
  case (1 i j js)
  then show ?case by (cases k) auto
qed auto

lemma concat_records:
  assumes "\<forall>x \<in> set xs. length (f x) = n" "k < length xs"
  shows "subbytes (concat (map f xs)) (k * n) n = f (xs ! k)" "length (concat (map f xs)) = length xs * n"
proof -
  have l: "length (concat (map f ys)) = length ys * n" if "\<forall>x \<in> set ys. length (f x) = n" for ys
    using that by (induction ys) auto
  show "length (concat (map f xs)) = length xs * n" by (rule l [OF assms(1)])
  have "concat (map f xs) = concat (map f (take k xs)) @ f (xs ! k) @ concat (map f (drop (Suc k) xs))"
    using id_take_nth_drop [OF assms(2)] by (metis concat_append map_append list.simps(9) concat.simps(2))
  moreover have "length (concat (map f (take k xs))) = k * n" using l [of "take k xs"] assms by (auto dest: in_set_takeD)
  ultimately show "subbytes (concat (map f xs)) (k * n) n = f (xs ! k)"
    using subbytes_middle [of _ "k * n" "f (xs ! k)"] assms by simp
qed

lemma c_string_cong:
  assumes "buf ! z = 0" "pos \<le> z" "z < length buf" "take (Suc z) buf' = take (Suc z) buf"
  shows "c_string buf' pos = c_string buf pos"
proof -
  let ?part = "drop pos (take (Suc z) buf)"
  have zero: "0 \<in> set ?part"
    using assms(1-3) by (auto simp: in_set_conv_nth intro!: exI [of _ "z - pos"])
  have split: "drop pos b = drop pos (take (Suc z) b) @ drop (Suc z) b" if "Suc z \<le> length b" for b :: bytes
    using assms(2) that by (metis append_take_drop_id drop_append length_take min.absorb2 le_SucI diff_is_0_eq' drop_0)
  have "length (take (Suc z) buf') = Suc z" using assms(3,4) by simp
  then have l: "Suc z \<le> length buf'" by simp
  have "takeWhile (\<lambda>c. c \<noteq> 0) (?part @ ys) = takeWhile (\<lambda>c. c \<noteq> 0) ?part" for ys
    using zero by (auto intro: takeWhile_append1)
  then show ?thesis unfolding c_string_def split [OF l] split [OF Suc_leI [OF assms(3)]] assms(4) by simp
qed


text \<open>What the sorting has done: a permutation of the defined symbols in the order of their buckets.\<close>

definition symbol_order :: "bytes \<Rightarrow> nat \<Rightarrow> u64 \<Rightarrow> bytes \<Rightarrow> nat list \<Rightarrow> (nat \<times> u32) list \<Rightarrow> bool" where
  "symbol_order buf dynStrOff dynStrSize symbols found order \<longleftrightarrow>
     length order = length found \<and> fst ` set order = set found \<and>
     sorted (map (\<lambda>h. h mod of_nat (length found)) (map snd order)) \<and>
     (\<forall>(i, h) \<in> set order. \<exists>nm. symbol_name buf dynStrOff dynStrSize symbols i = Inr nm \<and> h = GnuHash nm)"

lemma symbol_order_nth:
  assumes "symbol_order buf dynStrOff dynStrSize symbols found order" "i \<in> set found"
  shows "\<exists>k < length found. fst (order ! k) = i"
proof -
  have "fst ` set order = set found" "length order = length found" using assms(1) by (simp_all add: symbol_order_def)
  then show ?thesis using assms(2) by (metis imageE in_set_conv_nth)
qed

lemma symHashes_Inr:
  assumes "symHashes buf dynStrOff dynStrSize symbols found = Inr order"
  shows "symbol_order buf dynStrOff dynStrSize symbols found order"
proof -
  from assms obtain names where n: "map_res (symbol_name buf dynStrOff dynStrSize symbols) found = Inr names"
    and o: "order = sort_key (\<lambda>(i, h). h mod of_nat (length found)) (zip found (map GnuHash names))"
    by (auto simp: symHashes_def res_simps)
  note l = map_res_length [OF n]
  have "sorted (map (\<lambda>(i, h). h mod of_nat (length found)) order)" unfolding o by simp
  moreover have "map (\<lambda>(i, h). h mod of_nat (length found)) order = map (\<lambda>h. h mod of_nat (length found)) (map snd order)"
    by (simp add: case_prod_beta)
  ultimately have s: "sorted (map (\<lambda>h. h mod of_nat (length found)) (map snd order))" by (simp only:)
  have z: "set order = set (zip found (map GnuHash names))" "length order = length found" using l unfolding o by simp_all
  have "fst ` set order = set found" unfolding z(1) using l by (metis length_map list.set_map map_fst_zip)
  moreover have "\<exists>nm. symbol_name buf dynStrOff dynStrSize symbols i = Inr nm \<and> h = GnuHash nm" if "(i, h) \<in> set order" for i h
    using that map_res_nth [OF n] l unfolding z(1) by (auto simp: set_zip)
  ultimately show ?thesis using s z(2) by (auto simp: symbol_order_def)
qed

lemma sort_symbols_Inr:
  assumes "sort_symbols dynStrOff dynStrSize dynSymOff tables found (buf, symbols) = Inr (buf', symbols', hashes)" "found \<noteq> []"
  obtains order where "contiguous found" "symbol_order buf dynStrOff dynStrSize symbols found order" "hashes = map snd order"
    "buf' = blit buf (dynSymOff + hd found * 24) (sortedSymbols symbols order)"
    "symbols' = blit symbols (hd found * 24) (sortedSymbols symbols order)"
proof -
  from assms have c: "contiguous found" by (auto simp: sort_symbols_def split: if_splits)
  with assms obtain order where "symHashes buf dynStrOff dynStrSize symbols found = Inr order" "hashes = map snd order"
    "buf' = blit buf (dynSymOff + hd found * 24) (sortedSymbols symbols order)"
    "symbols' = blit symbols (hd found * 24) (sortedSymbols symbols order)"
    by (auto simp: sort_symbols_def res_simps Let_def)
  then show thesis using that c symHashes_Inr by blast
qed

lemma symbol_records:
  assumes "definedSymbols symbols = Inr found" "found \<noteq> []" "contiguous found"
    and "symbol_order buf dynStrOff dynStrSize symbols found order"
  shows "hd found + length found \<le> length symbols div 24" "1 \<le> hd found"
    and "length (sortedSymbols symbols order) = length found * 24"
    and "k < length found \<Longrightarrow>
      subbytes (blit symbols (hd found * 24) (sortedSymbols symbols order)) ((hd found + k) * 24) 24 =
      subbytes symbols (fst (order ! k) * 24) 24"
    and "k < length found \<Longrightarrow> fst (order ! k) \<in> set found"
proof -
  note d = definedSymbols_Inr [OF assms(1)]
  have o: "length order = length found" "fst ` set order = set found" using assms(4) by (auto simp: symbol_order_def)
  have last: "found ! (length found - 1) \<in> set found" using assms(2) by simp
  have "found ! (length found - 1) = hd found + (length found - 1)" using assms(2) by (intro contiguous_nth [OF assms(3)]) simp
  then have "hd found + (length found - 1) < length symbols div 24" using d(3) last by metis
  then show b: "hd found + length found \<le> length symbols div 24" using assms(2) by (cases found) auto
  show "1 \<le> hd found" using d(3) assms(2) by simp
  have r: "length (subbytes symbols (fst x * 24) 24) = 24" if "x \<in> set order" for x
  proof -
    have "fst x < length symbols div 24" using that o(2) d(3) by (metis image_eqI)
    then show ?thesis by (intro length_subbytes) linarith
  qed
  have e: "sortedSymbols symbols order = concat (map (\<lambda>x. subbytes symbols (fst x * 24) 24) order)"
    unfolding sortedSymbols_def by (intro arg_cong [where f = concat] map_cong refl) (auto split: prod.splits)
  show l: "length (sortedSymbols symbols order) = length found * 24"
    unfolding e using concat_records(2) [of order "\<lambda>x. subbytes symbols (fst x * 24) 24" 24 0] r o(1) assms(2) by simp
  assume k: "k < length found"
  show "fst (order ! k) \<in> set found" using k o by (metis image_eqI nth_mem)
  have fit: "hd found * 24 + length (sortedSymbols symbols order) \<le> length symbols" unfolding l using b by linarith
  have "(hd found + k) * 24 = hd found * 24 + k * 24" by simp
  then have "subbytes (blit symbols (hd found * 24) (sortedSymbols symbols order)) ((hd found + k) * 24) 24 =
    subbytes (sortedSymbols symbols order) (k * 24) 24"
    using subbytes_in_blit [of "k * 24" 24 "sortedSymbols symbols order" "hd found * 24" symbols] fit k l by simp
  also have "\<dots> = subbytes symbols (fst (order ! k) * 24) 24"
    unfolding e using concat_records(1) [of order "\<lambda>x. subbytes symbols (fst x * 24) 24" 24 k] r k o(1) by simp
  finally show "subbytes (blit symbols (hd found * 24) (sortedSymbols symbols order)) ((hd found + k) * 24) 24 =
      subbytes symbols (fst (order ! k) * 24) 24" .
qed

text \<open>A name depends on the record of the symbol and on the string table.\<close>

lemma symbol_name_record:
  assumes "subbytes symbols' (i' * 24) 24 = subbytes symbols (i * 24) 24" "i' * 24 + 24 \<le> length symbols'" "i * 24 + 24 \<le> length symbols"
    and "0 < dynStrSize" "buf ! (dynStrOff + unat dynStrSize - 1) = 0" "dynStrOff + unat dynStrSize \<le> length buf"
    and "take (dynStrOff + unat dynStrSize) buf' = take (dynStrOff + unat dynStrSize) buf"
  shows "symbol_name buf' dynStrOff dynStrSize symbols' i' = symbol_name buf dynStrOff dynStrSize symbols i"
proof -
  have pos: "0 < unat dynStrSize" using assms(4) by (simp add: word_less_nat_alt)
  have f: "subbytes symbols' (i' * 24) 4 = subbytes symbols (i * 24) 4"
    using subbytes_sub [of 0 4 24 symbols' "i' * 24"] subbytes_sub [of 0 4 24 symbols "i * 24"] assms(1) by simp
  have c: "c_string buf' (dynStrOff + unat offset) = c_string buf (dynStrOff + unat offset)" if "ucast offset < dynStrSize" for offset :: u32
  proof (rule c_string_cong [OF assms(5)])
    have "unat (ucast offset :: u64) = unat offset" by (rule unat_ucast_up) simp
    then show "dynStrOff + unat offset \<le> dynStrOff + unat dynStrSize - 1" using that by (simp add: word_less_nat_alt)
    show "dynStrOff + unat dynStrSize - 1 < length buf" using pos assms(6) by linarith
    have "Suc (dynStrOff + unat dynStrSize - 1) = dynStrOff + unat dynStrSize" using pos by simp
    then show "take (Suc (dynStrOff + unat dynStrSize - 1)) buf' = take (Suc (dynStrOff + unat dynStrSize - 1)) buf"
      using assms(7) by simp
  qed
  show ?thesis using assms(2,3) c by (simp add: symbol_name_def io32.rd_inside f)
qed


subsection \<open>Looking a symbol up\<close>

definition sysv_lookup :: "bytes \<Rightarrow> nat \<Rightarrow> nat \<Rightarrow> (nat \<Rightarrow> bytes res) \<Rightarrow> bytes \<Rightarrow> nat option" where
  "sysv_lookup buf pos steps name_of name = find (\<lambda>y. name_of y = Inr name) (sysv_candidates buf pos steps (ElfHash name))"

definition gnu_lookup :: "bytes \<Rightarrow> nat \<Rightarrow> nat \<Rightarrow> (nat \<Rightarrow> bytes res) \<Rightarrow> bytes \<Rightarrow> nat option" where
  "gnu_lookup buf pos steps name_of name = find (\<lambda>y. name_of y = Inr name) (gnu_candidates buf pos steps (GnuHash name))"

lemma find_first: "x \<in> set xs \<Longrightarrow> P x \<Longrightarrow> \<exists>y \<in> set xs. find P xs = Some y \<and> P y"
  by (induction xs) auto

lemma append_sysv_extends: "\<exists>e. append_sysv symbolCount symoffset hashes buf = buf @ e"
  by (cases "sysv_tables symbolCount symoffset hashes") (simp add: append_sysv_def append_table_bytes Append_eqs)

lemma append_gnu_extends: "append_gnu symbolCount symoffset hashes buf = Some b \<Longrightarrow> \<exists>e. b = buf @ e"
  by (auto simp: append_gnu_def append_table_bytes Append_eqs Let_def split: if_splits option.splits)

text \<open>The region of the file that holds the strings and the symbols, as \<open>Patch\<close> has laid it out.\<close>

definition symbol_region :: "bytes \<Rightarrow> nat \<Rightarrow> u64 \<Rightarrow> nat \<Rightarrow> bytes \<Rightarrow> bool" where
  "symbol_region buf dynStrOff dynStrSize dynSymOff symbols \<longleftrightarrow>
     0 < dynStrSize \<and> dynStrOff + unat dynStrSize \<le> dynSymOff \<and> buf ! (dynStrOff + unat dynStrSize - 1) = 0 \<and>
     dynSymOff + length symbols \<le> length buf \<and> subbytes buf dynSymOff (length symbols) = symbols"

lemma sorted_region:
  assumes "symbol_region buf dynStrOff dynStrSize dynSymOff symbols" "o1 + length data \<le> length symbols"
    and "buf' = blit buf (dynSymOff + o1) data @ e"
  shows "subbytes buf' dynSymOff (length symbols) = blit symbols o1 data"
    "take (dynStrOff + unat dynStrSize) buf' = take (dynStrOff + unat dynStrSize) buf"
    "length (blit buf (dynSymOff + o1) data) = length buf"
proof -
  have fit: "dynSymOff + length symbols \<le> length buf" "dynStrOff + unat dynStrSize \<le> dynSymOff"
    and at: "subbytes buf dynSymOff (length symbols) = symbols" using assms(1) by (auto simp: symbol_region_def)
  show l: "length (blit buf (dynSymOff + o1) data) = length buf" using fit assms(2) by (intro length_blit) linarith
  have "blit buf dynSymOff symbols = buf"
  proof -
    have "take dynSymOff buf @ take (length symbols) (drop dynSymOff buf) @ drop (length symbols) (drop dynSymOff buf) = buf"
      by (simp only: append_take_drop_id)
    then show ?thesis using at by (simp add: blit_def subbytes_def add.commute)
  qed
  then have "blit buf (dynSymOff + o1) data = blit buf dynSymOff (blit symbols o1 data)"
    using blit_in_blit [OF assms(2) fit(1)] by simp
  moreover have bl: "length (blit symbols o1 data) = length symbols" using assms(2) by (rule length_blit)
  ultimately show "subbytes buf' dynSymOff (length symbols) = blit symbols o1 data"
    using subbytes_blit_same [of dynSymOff "blit symbols o1 data" buf] fit(1) l
    unfolding assms(3) by (simp add: subbytes_append_left)
  show "take (dynStrOff + unat dynStrSize) buf' = take (dynStrOff + unat dynStrSize) buf"
    using fit l unfolding assms(3) by (simp add: blit_def min_def)
qed

text \<open>A symbol of the file that is one of the defined symbols of the input, under the name it had.\<close>

definition defined_as :: "bytes \<Rightarrow> nat \<Rightarrow> u64 \<Rightarrow> bytes \<Rightarrow> nat list \<Rightarrow> bytes \<Rightarrow> bytes \<Rightarrow> nat \<Rightarrow> bool" where
  "defined_as buf dynStrOff dynStrSize symbols found name table y \<longleftrightarrow>
     (\<exists>j \<in> set found. subbytes table (y * 24) 24 = subbytes symbols (j * 24) 24 \<and>
        symbol_name buf dynStrOff dynStrSize symbols j = Inr name)"

text \<open>The result in its steps, whether the filter's loop ends or not.\<close>

lemma hash_sections_steps:
  assumes "hash_sections dynStrOff dynStrSize dynSymOff tables buf symbols = Inr result" "definedSymbols symbols = Inr found"
  obtains buf1 symbols' hashes names symoffset buf2 where
    "sort_symbols dynStrOff dynStrSize dynSymOff tables found (buf, symbols) = Inr (buf1, symbols', hashes)"
    "map_res (symbol_name buf1 dynStrOff dynStrSize symbols') [symoffset..<symoffset + length hashes] = Inr names"
    "symoffset = (if found = [] then symbol_count symbols else hd found)"
    "buf2 = alignBuf 8 (append_sysv (symbol_count symbols) symoffset (map ElfHash names) buf1)"
    "result = (case append_gnu (symbol_count symbols) symoffset hashes buf2 of
       None \<Rightarrow> None | Some b \<Rightarrow> Some (alignBuf 24 b, symbols', length buf, length buf2))"
proof -
  define symoffset where "symoffset = (if found = [] then symbol_count symbols else hd found)"
  obtain sorted where sorted: "sort_symbols dynStrOff dynStrSize dynSymOff tables found (buf, symbols) = Inr sorted"
    using assms by (cases "sort_symbols dynStrOff dynStrSize dynSymOff tables found (buf, symbols)") (simp_all add: hash_sections_def Let_def)
  obtain buf1 symbols' hashes where s: "sorted = (buf1, symbols', hashes)" by (cases sorted)
  obtain names where names: "map_res (symbol_name buf1 dynStrOff dynStrSize symbols') [symoffset..<symoffset + length hashes] = Inr names"
    using assms sorted s unfolding symoffset_def
    by (cases "map_res (symbol_name buf1 dynStrOff dynStrSize symbols')
      [if found = [] then symbol_count symbols else hd found..<(if found = [] then symbol_count symbols else hd found) + length hashes]")
      (simp_all add: hash_sections_def Let_def)
  let ?buf2 = "alignBuf 8 (append_sysv (symbol_count symbols) symoffset (map ElfHash names) buf1)"
  have "hash_sections dynStrOff dynStrSize dynSymOff tables buf symbols =
      Inr (case append_gnu (symbol_count symbols) symoffset hashes ?buf2 of
        None \<Rightarrow> None | Some b \<Rightarrow> Some (alignBuf 24 b, symbols', length buf, length ?buf2))"
    unfolding hash_sections_def Let_def assms(2) bind_res.simps symoffset_def [symmetric] sorted s prod.case names by (rule refl)
  then show thesis using that [OF sorted [unfolded s] names symoffset_def refl] assms(1) by simp
qed

lemma hash_sections_Inr:
  assumes "hash_sections dynStrOff dynStrSize dynSymOff tables buf symbols = Inr (Some (buf', symbols', hashOff, gnuOff))"
    and "definedSymbols symbols = Inr found" "found \<noteq> []"
  obtains buf1 hashes names b e where
    "sort_symbols dynStrOff dynStrSize dynSymOff tables found (buf, symbols) = Inr (buf1, symbols', hashes)"
    "map_res (symbol_name buf1 dynStrOff dynStrSize symbols') [hd found..<hd found + length hashes] = Inr names"
    "append_gnu (symbol_count symbols) (hd found) hashes (alignBuf 8 (append_sysv (symbol_count symbols) (hd found) (map ElfHash names) buf1))
      = Some b"
    "buf' = b @ e" "hashOff = length buf"
    "gnuOff = length (alignBuf 8 (append_sysv (symbol_count symbols) (hd found) (map ElfHash names) buf1))"
proof -
  obtain buf1 s1 hashes names symoffset buf2 where
    s: "sort_symbols dynStrOff dynStrSize dynSymOff tables found (buf, symbols) = Inr (buf1, s1, hashes)"
      "map_res (symbol_name buf1 dynStrOff dynStrSize s1) [symoffset..<symoffset + length hashes] = Inr names"
      "symoffset = (if found = [] then symbol_count symbols else hd found)"
      "buf2 = alignBuf 8 (append_sysv (symbol_count symbols) symoffset (map ElfHash names) buf1)"
    and r: "Some (buf', symbols', hashOff, gnuOff) = (case append_gnu (symbol_count symbols) symoffset hashes buf2 of
       None \<Rightarrow> None | Some b \<Rightarrow> Some (alignBuf 24 b, s1, length buf, length buf2))"
    by (rule hash_sections_steps [OF assms(1,2)])
  obtain b where b: "append_gnu (symbol_count symbols) symoffset hashes buf2 = Some b" "buf' = alignBuf 24 b" "symbols' = s1"
      "hashOff = length buf" "gnuOff = length buf2"
    using r by (cases "append_gnu (symbol_count symbols) symoffset hashes buf2") simp_all
  have "symoffset = hd found" using s(3) assms(3) by simp
  then show thesis using that s(1,2,4) b by (simp add: alignBuf_def)
qed

text \<open>
  The symbols of a table in the order \<open>order\<close>: behind the first defined one each has the record and the name that the symbol of this
  order has in the input.
\<close>

definition sorted_as ::
    "bytes \<Rightarrow> nat \<Rightarrow> u64 \<Rightarrow> bytes \<Rightarrow> nat list \<Rightarrow> (nat \<times> u32) list \<Rightarrow> bytes \<Rightarrow> bytes \<Rightarrow> bool" where
  "sorted_as buf dynStrOff dynStrSize symbols found order buf' table \<longleftrightarrow>
     (\<forall>m < length found. fst (order ! m) \<in> set found \<and>
        subbytes table ((hd found + m) * 24) 24 = subbytes symbols (fst (order ! m) * 24) 24 \<and>
        symbol_name buf' dynStrOff dynStrSize table (hd found + m) = symbol_name buf dynStrOff dynStrSize symbols (fst (order ! m)))"

lemma sorted_as_blit:
  assumes "definedSymbols symbols = Inr found" "found \<noteq> []" "contiguous found" "symbol_order buf dynStrOff dynStrSize symbols found order"
    and "symbol_region buf dynStrOff dynStrSize dynSymOff symbols"
    and "take (dynStrOff + unat dynStrSize) buf' = take (dynStrOff + unat dynStrSize) buf"
  shows "sorted_as buf dynStrOff dynStrSize symbols found order buf' (blit symbols (hd found * 24) (sortedSymbols symbols order))"
  unfolding sorted_as_def
proof (intro allI impI conjI)
  note rec = symbol_records [OF assms(1-4)]
  let ?table = "blit symbols (hd found * 24) (sortedSymbols symbols order)"
  fix m assume m: "m < length found"
  show "fst (order ! m) \<in> set found" by (rule rec(5) [OF m])
  show same: "subbytes ?table ((hd found + m) * 24) 24 = subbytes symbols (fst (order ! m) * 24) 24" by (rule rec(4) [OF m])
  have len: "length ?table = length symbols" by (rule length_blit) (use rec(1,3) in linarith)
  show "symbol_name buf' dynStrOff dynStrSize ?table (hd found + m) = symbol_name buf dynStrOff dynStrSize symbols (fst (order ! m))"
  proof (rule symbol_name_record [OF same _ _ _ _ _ assms(6)])
    have "hd found + m < length symbols div 24" using rec(1) m by linarith
    then show "(hd found + m) * 24 + 24 \<le> length ?table" unfolding len by (rule entry_fits)
    have "fst (order ! m) < length symbols div 24" using definedSymbols_Inr(3) [OF assms(1)] rec(5) [OF m] by blast
    then show "fst (order ! m) * 24 + 24 \<le> length symbols" by (rule entry_fits)
  qed (use assms(5) in \<open>auto simp: symbol_region_def\<close>)
qed

text \<open>A search among defined symbols that meets one with the name finds a defined symbol of this name.\<close>

lemma find_defined:
  assumes "sorted_as buf dynStrOff dynStrSize symbols found order buf' table" "k < length found"
    and "symbol_name buf dynStrOff dynStrSize symbols (fst (order ! k)) = Inr name" "hd found + k \<in> set cs"
    and "\<And>y. y \<in> set cs \<Longrightarrow> hd found \<le> y \<and> y < hd found + length found"
  shows "\<exists>y. find (\<lambda>y. symbol_name buf' dynStrOff dynStrSize table y = Inr name) cs = Some y \<and>
    defined_as buf dynStrOff dynStrSize symbols found name table y"
proof -
  have "symbol_name buf' dynStrOff dynStrSize table (hd found + k) = Inr name"
    using assms(1-3) by (simp add: sorted_as_def)
  then obtain y where y: "y \<in> set cs" "find (\<lambda>y. symbol_name buf' dynStrOff dynStrSize table y = Inr name) cs = Some y"
      "symbol_name buf' dynStrOff dynStrSize table y = Inr name"
    using find_first [OF assms(4), of "\<lambda>y. symbol_name buf' dynStrOff dynStrSize table y = Inr name"] by blast
  obtain m where m: "y = hd found + m" "m < length found" using assms(5) [OF y(1)] by (metis add_less_cancel_left le_Suc_ex)
  have "fst (order ! m) \<in> set found" "subbytes table (y * 24) 24 = subbytes symbols (fst (order ! m) * 24) 24"
      "symbol_name buf dynStrOff dynStrSize symbols (fst (order ! m)) = Inr name"
    using assms(1) m y(3) by (simp_all add: sorted_as_def)
  then have "defined_as buf dynStrOff dynStrSize symbols found name table y" unfolding defined_as_def by blast
  then show ?thesis using y(2) by blast
qed

text \<open>What the file holds: the symbols in their new order, \<open>DT_HASH\<close> with the hashes of their names and \<open>DT_GNU_HASH\<close>.\<close>

lemma hash_sections_layout:
  assumes run: "hash_sections dynStrOff dynStrSize dynSymOff tables buf symbols = Inr (Some (buf', symbols', hashOff, gnuOff))"
    and found: "definedSymbols symbols = Inr found" "found \<noteq> []" and small: "length symbols div 24 < 2 ^ 32"
    and region: "symbol_region buf dynStrOff dynStrSize dynSymOff symbols"
  obtains order names buf1 e1 buf2 b e2 where "symbol_order buf dynStrOff dynStrSize symbols found order"
    "sorted_as buf dynStrOff dynStrSize symbols found order buf' (subbytes buf' dynSymOff (length symbols))"
    "1 \<le> hd found" "hd found + length found \<le> length symbols div 24" "length names = length found"
    "\<forall>m < length found. symbol_name buf dynStrOff dynStrSize symbols (fst (order ! m)) = Inr (names ! m)"
    "buf' = append_sysv (length symbols div 24) (hd found) (map ElfHash names) buf1 @ e1" "hashOff = length buf1"
    "append_gnu (length symbols div 24) (hd found) (map snd order) buf2 = Some b" "buf' = b @ e2" "gnuOff = length buf2"
proof -
  obtain buf1 hashes names b e2 where st: "sort_symbols dynStrOff dynStrSize dynSymOff tables found (buf, symbols) = Inr (buf1, symbols', hashes)"
    and nm: "map_res (symbol_name buf1 dynStrOff dynStrSize symbols') [hd found..<hd found + length hashes] = Inr names"
    and gnu: "append_gnu (length symbols div 24) (hd found) hashes
      (alignBuf 8 (append_sysv (length symbols div 24) (hd found) (map ElfHash names) buf1)) = Some b"
    and out: "buf' = b @ e2" "hashOff = length buf"
      "gnuOff = length (alignBuf 8 (append_sysv (length symbols div 24) (hd found) (map ElfHash names) buf1))"
    using hash_sections_Inr [OF run found] symbol_count_small [OF small] by metis
  obtain order where c: "contiguous found" and o: "symbol_order buf dynStrOff dynStrSize symbols found order" and h: "hashes = map snd order"
    and b1: "buf1 = blit buf (dynSymOff + hd found * 24) (sortedSymbols symbols order)"
    and s1: "symbols' = blit symbols (hd found * 24) (sortedSymbols symbols order)"
    by (rule sort_symbols_Inr [OF st found(2)])
  note rec = symbol_records [OF found c o]
  have hl: "length hashes = length found" using o by (simp add: h symbol_order_def)
  obtain e1 where sysv: "buf' = append_sysv (length symbols div 24) (hd found) (map ElfHash names) buf1 @ e1"
    using append_gnu_extends [OF gnu] out(1) by (auto simp: alignBuf_def)
  obtain e where ext: "buf' = buf1 @ e"
    using append_sysv_extends [of "length symbols div 24" "hd found" "map ElfHash names" buf1] sysv by auto
  have fit: "hd found * 24 + length (sortedSymbols symbols order) \<le> length symbols" using rec(1,3) by linarith
  note kept = sorted_region [OF region fit]
  have table: "subbytes buf' dynSymOff (length symbols) = symbols'" using kept(1) [OF ext [unfolded b1]] s1 by simp
  note sorted = sorted_as_blit [OF found c o region, folded s1]
  have take: "take (dynStrOff + unat dynStrSize) buf1 = take (dynStrOff + unat dynStrSize) buf" using kept(2) [of buf1 "[]"] b1 by simp
  show thesis
  proof (rule that [OF o _ rec(2,1) _ _ sysv _ gnu [unfolded h] out(1,3)])
    show "sorted_as buf dynStrOff dynStrSize symbols found order buf' (subbytes buf' dynSymOff (length symbols))"
      unfolding table by (rule sorted [OF kept(2) [OF ext [unfolded b1]]])
    show "length names = length found" using map_res_length [OF nm] hl by simp
    show "hashOff = length buf1" using out(2) kept(3) [OF ext [unfolded b1]] b1 by simp
    have "symbol_name buf1 dynStrOff dynStrSize symbols' (hd found + m) = Inr (names ! m)" if "m < length found" for m
      using map_res_nth [OF nm, of m] that hl by simp
    then show "\<forall>m < length found. symbol_name buf dynStrOff dynStrSize symbols (fst (order ! m)) = Inr (names ! m)"
      using sorted [OF take] by (simp add: sorted_as_def)
  qed
qed

text \<open>The candidates in the file are defined symbols, with the one that has the name among them.\<close>

lemma sysv_candidates_defined:
  assumes "buf' = append_sysv steps (hd found) (map ElfHash names) buf1 @ e1" "hashOff = length buf1"
    and "1 \<le> hd found" "hd found + length found \<le> steps" "length names = length found" "found \<noteq> []" "steps < 2 ^ 32"
    and "k < length found"
  shows "hd found + k \<in> set (sysv_candidates buf' hashOff steps (ElfHash (names ! k)))"
    and "y \<in> set (sysv_candidates buf' hashOff steps (ElfHash (names ! k))) \<Longrightarrow> hd found \<le> y \<and> y < hd found + length found"
proof -
  have len: "length (map ElfHash names) = length found" "map ElfHash names \<noteq> []" using assms(5,6) by auto
  have cands: "sysv_candidates buf' hashOff steps (ElfHash (names ! k)) =
    bucket_symbols (hd found) (map ElfHash names) (length found) (unat (ElfHash (names ! k) mod of_nat (length found)))"
    using sysv_candidates_bucket [OF len(2) assms(3) _ assms(7) order_refl assms(2), of e1 "ElfHash (names ! k)"] assms(4)
    unfolding len(1) assms(1) by simp
  show "hd found + k \<in> set (sysv_candidates buf' hashOff steps (ElfHash (names ! k)))"
    unfolding cands bucket_symbols_def using assms(5,8) by simp
  show "y \<in> set (sysv_candidates buf' hashOff steps (ElfHash (names ! k))) \<Longrightarrow> hd found \<le> y \<and> y < hd found + length found"
    unfolding cands by (auto simp: bucket_symbols_def)
qed

lemma gnu_candidates_defined:
  assumes "append_gnu steps (hd found) (map snd order) buf2 = Some b" "buf' = b @ e2" "gnuOff = length buf2"
    and order: "symbol_order buf dynStrOff dynStrSize symbols found order"
    and s: "1 \<le> hd found" "hd found + length found \<le> steps" and small: "steps < 2 ^ 32" "length found \<le> 2 ^ 28"
    and k: "k < length found" "symbol_name buf dynStrOff dynStrSize symbols (fst (order ! k)) = Inr name"
  shows "hd found + k \<in> set (gnu_candidates buf' gnuOff steps (GnuHash name))"
    and "y \<in> set (gnu_candidates buf' gnuOff steps (GnuHash name)) \<Longrightarrow> hd found \<le> y \<and> y < hd found + length found"
proof -
  have len: "length (map snd order) = length found" and sorted: "sorted (map (\<lambda>h. h mod of_nat (length found)) (map snd order))"
    and hashes: "\<And>j h. (j, h) \<in> set order \<Longrightarrow> \<exists>nm. symbol_name buf dynStrOff dynStrSize symbols j = Inr nm \<and> h = GnuHash nm"
    using order by (auto simp: symbol_order_def)
  have hash: "map snd order ! k = GnuHash name"
    using hashes [of "fst (order ! k)" "snd (order ! k)"] k len by simp
  have bounds: "sorted (map (\<lambda>h. h mod of_nat (length (map snd order))) (map snd order))" "hd found + length (map snd order) < 2 ^ 32"
    "length (map snd order) \<le> 2 ^ 28" "length (map snd order) \<le> steps" "k < length (map snd order)"
    unfolding len using sorted s small k(1) by auto
  note group = gnu_candidates_group [OF assms(1) bounds(1) s(1) bounds(2-4) assms(3) bounds(5), where post = e2,
    folded assms(2), unfolded hash len]
  show "hd found + k \<in> set (gnu_candidates buf' gnuOff steps (GnuHash name))" by (rule group(1))
  show "y \<in> set (gnu_candidates buf' gnuOff steps (GnuHash name)) \<Longrightarrow> hd found \<le> y \<and> y < hd found + length found"
    by (rule group(2))
qed

text \<open>
  The tables are built: with at most \<open>2 ^ 28\<close> defined symbols the loop that sizes the filter ends, with a power of two of
  words and eight bits for each symbol, so the sections are returned unless an exception is.
\<close>

lemma hash_sections_return:
  assumes "definedSymbols symbols = Inr found" "length found \<le> 2 ^ 28"
  shows "hash_sections dynStrOff dynStrSize dynSymOff tables buf symbols \<noteq> Inr None \<and>
    (\<exists>j \<le> 25. bloomSize (of_nat (length found)) 1 = Some (2 ^ j) \<and> length found * 8 \<le> 2 ^ j * 64)"
proof -
  have u: "unat (of_nat n :: u32) = n" if "n \<le> 2 ^ 28" for n :: nat
    using that by (intro unat_index) (simp add: le_less_trans)
  have size: "\<exists>j \<le> 25. bloomSize (of_nat n) 1 = Some (2 ^ j) \<and> n \<le> 2 ^ (j + 3)" if "n \<le> 2 ^ 28" for n
    using bloomSize_power [of 0 "of_nat n"] that u [OF that] by auto
  have gnu: "append_gnu c o1 hashes b \<noteq> None" if "length hashes \<le> 2 ^ 28" for c o1 hashes b
    using size [OF that] by (auto simp: append_gnu_def Let_def)
  have "hash_sections dynStrOff dynStrSize dynSymOff tables buf symbols \<noteq> Inr None"
  proof
    assume "hash_sections dynStrOff dynStrSize dynSymOff tables buf symbols = Inr None"
    then obtain b1 s1 hashes c symoffset b2 where
      s: "sort_symbols dynStrOff dynStrSize dynSymOff tables found (buf, symbols) = Inr (b1, s1, hashes)"
      and n: "None = (case append_gnu c symoffset hashes b2 of None \<Rightarrow> None | Some b \<Rightarrow> Some (alignBuf 24 b, s1, length buf, length b2))"
      by (rule hash_sections_steps [OF _ assms(1)])
    have "length hashes \<le> length found"
    proof (cases "found = []")
      case True
      then show ?thesis using s by (simp add: sort_symbols_def)
    next
      case False
      obtain order where "symbol_order buf dynStrOff dynStrSize symbols found order" "hashes = map snd order"
        by (rule sort_symbols_Inr [OF s False])
      then show ?thesis by (simp add: symbol_order_def)
    qed
    then have "append_gnu c symoffset hashes b2 \<noteq> None" using gnu assms(2) by (meson order_trans)
    then show False using n by (auto split: option.splits)
  qed
  moreover have "\<exists>j \<le> 25. bloomSize (of_nat (length found)) 1 = Some (2 ^ j) \<and> length found * 8 \<le> 2 ^ j * 64"
    using size [OF assms(2)] by (auto simp: power_add)
  ultimately show ?thesis by blast
qed

subsection \<open>Properties\<close>

text \<open>
  C19: Both hash tables find every defined symbol. Looked up by its name in the written file, in \<open>DT_HASH\<close> and in
  \<open>DT_GNU_HASH\<close>, each defined symbol of the input is found: the search ends with a symbol whose record is that of a defined symbol
  of this name.
\<close>

theorem hash_lookups_find:
  fixes buf symbols :: bytes
  defines "steps \<equiv> length symbols div 24"
  assumes "hash_sections dynStrOff dynStrSize dynSymOff tables buf symbols = Inr (Some (buf', symbols', hashOff, gnuOff))"
    and "definedSymbols symbols = Inr found" "i \<in> set found" "symbol_name buf dynStrOff dynStrSize symbols i = Inr name"
    and "symbol_region buf dynStrOff dynStrSize dynSymOff symbols" "steps < 2 ^ 32" "length found \<le> 2 ^ 28"
  shows "let table = subbytes buf' dynSymOff (length symbols); name_of = symbol_name buf' dynStrOff dynStrSize table
    in (\<exists>y. sysv_lookup buf' hashOff steps name_of name = Some y \<and> defined_as buf dynStrOff dynStrSize symbols found name table y) \<and>
       (\<exists>y. gnu_lookup buf' gnuOff steps name_of name = Some y \<and> defined_as buf dynStrOff dynStrSize symbols found name table y)"
proof -
  have ne: "found \<noteq> []" using assms(4) by auto
  obtain order names buf1 e1 buf2 b e2 where o: "symbol_order buf dynStrOff dynStrSize symbols found order"
    and sorted: "sorted_as buf dynStrOff dynStrSize symbols found order buf' (subbytes buf' dynSymOff (length symbols))"
    and s: "1 \<le> hd found" "hd found + length found \<le> steps" and nl: "length names = length found"
    and names: "\<forall>m < length found. symbol_name buf dynStrOff dynStrSize symbols (fst (order ! m)) = Inr (names ! m)"
    and sysv: "buf' = append_sysv steps (hd found) (map ElfHash names) buf1 @ e1" "hashOff = length buf1"
    and gnu: "append_gnu steps (hd found) (map snd order) buf2 = Some b" "buf' = b @ e2" "gnuOff = length buf2"
    by (rule hash_sections_layout [OF assms(2,3) ne assms(7) [unfolded steps_def] assms(6), folded steps_def])
  obtain k where k: "k < length found" "fst (order ! k) = i"
    using symbol_order_nth [OF o assms(4)] by blast
  note lookup = find_defined [OF sorted k(1) assms(5) [folded k(2)]]
  have "names ! k = name" using names k assms(5) by auto
  then have "\<exists>y. sysv_lookup buf' hashOff steps (symbol_name buf' dynStrOff dynStrSize (subbytes buf' dynSymOff (length symbols))) name = Some y \<and>
      defined_as buf dynStrOff dynStrSize symbols found name (subbytes buf' dynSymOff (length symbols)) y"
    unfolding sysv_lookup_def
    by (intro lookup) (use sysv_candidates_defined [OF sysv s nl ne assms(7) k(1)] in auto)
  moreover have "\<exists>y. gnu_lookup buf' gnuOff steps (symbol_name buf' dynStrOff dynStrSize (subbytes buf' dynSymOff (length symbols))) name = Some y \<and>
      defined_as buf dynStrOff dynStrSize symbols found name (subbytes buf' dynSymOff (length symbols)) y"
    unfolding gnu_lookup_def
    by (intro lookup) (use gnu_candidates_defined [OF gnu o s assms(7,8) k(1) assms(5) [folded k(2)]] in auto)
  ultimately show ?thesis by (simp only: Let_def simp_thms)
qed

subsection \<open>A concrete table\<close>

text \<open>The null symbol and two defined ones, \<open>a\<close> and \<open>b\<close>, behind the strings of their names.\<close>

definition hash_sample_symbols :: bytes where
  "hash_sample_symbols = replicate 24 0
     @ le_bytes 4 (1 :: u32) @ [0x12, 0] @ le_bytes 2 (5 :: u16) @ le_bytes 8 (0x1000 :: u64) @ le_bytes 8 (0 :: u64)
     @ le_bytes 4 (3 :: u32) @ [0x12, 0] @ le_bytes 2 (5 :: u16) @ le_bytes 8 (0x2000 :: u64) @ le_bytes 8 (0 :: u64)"

definition hash_sample :: bytes where
  "hash_sample = [0, 0x61, 0, 0x62, 0, 0, 0, 0] @ hash_sample_symbols"

lemma hash_sample_facts:
  "definedSymbols hash_sample_symbols = Inr [1, 2]" "symbol_name hash_sample 0 5 hash_sample_symbols 2 = Inr [0x62]"
  by code_simp+

lemma hash_sample_result: "\<exists>r. hash_sections 0 5 8 [] hash_sample hash_sample_symbols = Inr (Some r)"
proof -
  have "case sort_symbols 0 5 8 [] [1, 2] (hash_sample, hash_sample_symbols) of Inl _ \<Rightarrow> False | Inr (b, s, h) \<Rightarrow>
      length h = 2 \<and> (case map_res (symbol_name b 0 5 s) [1..<3] of Inl _ \<Rightarrow> False | Inr _ \<Rightarrow> True)"
    by code_simp
  then obtain b s h names where "sort_symbols 0 5 8 [] [1, 2] (hash_sample, hash_sample_symbols) = Inr (b, s, h)" "length h = 2"
      "map_res (symbol_name b 0 5 s) [1..<3] = Inr names"
    by (auto split: sum.splits)
  then have "\<exists>r. hash_sections 0 5 8 [] hash_sample hash_sample_symbols = Inr r"
    by (simp add: hash_sections_def Let_def hash_sample_facts(1) numeral_3_eq_3 numeral_2_eq_2)
  moreover have "hash_sections 0 5 8 [] hash_sample hash_sample_symbols \<noteq> Inr None"
    using hash_sections_return [OF hash_sample_facts(1)] by simp
  ultimately show ?thesis by (metis not_None_eq)
qed

lemma hash_sample_region: "symbol_region hash_sample 0 5 8 hash_sample_symbols"
  unfolding symbol_region_def by (intro conjI) (simp_all add: hash_sample_def hash_sample_symbols_def subbytes_def)

lemma hash_sample_size: "length hash_sample_symbols div 24 = 3"
  by (simp add: hash_sample_symbols_def)

theorem hash_lookups_find_witness:
  "\<exists>buf' pos y. gnu_lookup buf' pos 3 (symbol_name buf' 0 5 (subbytes buf' 8 72)) [0x62] = Some y"
proof -
  obtain buf' symbols' hashOff gnuOff where
    r: "hash_sections 0 5 8 [] hash_sample hash_sample_symbols = Inr (Some (buf', symbols', hashOff, gnuOff))"
    using hash_sample_result by (metis prod_cases4)
  have l: "length hash_sample_symbols = 72" by (simp add: hash_sample_symbols_def)
  have "length hash_sample_symbols div 24 < 2 ^ 32" "length [1, 2 :: nat] \<le> 2 ^ 28" "2 \<in> set [1, 2 :: nat]"
    by (simp_all add: hash_sample_size)
  from hash_lookups_find [OF r hash_sample_facts(1) this(3) hash_sample_facts(2) hash_sample_region this(1,2)]
  show ?thesis unfolding Let_def hash_sample_size unfolding l by blast
qed

end
