(* ===== verification/Spec2Isabelle.thy ===== *)
theory Spec2Isabelle
  imports Elf_Reader Relr Segment_Layout Section_Table Entry_Stub X64_Recognisers X64_Rewriter X64_Stub_Layout X64_Sse4a_Correct X64_Sha_Correct X64_Bmi_Correct Linux_Trampolines Linux_Pages Linux_Hash
begin

text \<open>
  The relinker of AnyPS5 (\<open>src/core/relinker\<close>): it reads the executable of a PS5 program, an ELF file with the
  extensions of the console, replaces the instructions that only the processor of the console has, and writes a native
  executable. The development models the path to the Linux executable: reading, scanning and decoding of the code,
  the replacement of instructions by stubs, and the layout of the output file.

  \<^bold>\<open>Conventions.\<close> A buffer (\<open>std::vector<std::uint8_t>\<close>) is a list of bytes; a value read from a file and an address
  are words of their width and wrap; a position in a container is a \<open>nat\<close>. A C++ exception is the left side of
  \<open>'a res\<close> (\<open>Prelude\<close>) with its type, its text and its offset; a method that changes its object returns the new
  state. Names are those of the source; a field of a structure has the structure's initials in front.

  \<^bold>\<open>Reading.\<close>
  \<^item> \<open>Byte_IO\<close>: \<open>io/BufferUtils\<close>, \<open>ByteReader\<close> and \<open>ByteWriter\<close>. The locale \<open>byte_cell\<close> is the contract of one integer
    width, interpreted for both providers; \<open>record_writer\<close> is the contract of a table of records.
  \<^item> \<open>Elf_Types\<close>: \<open>domain/Types.hpp\<close> and \<open>elfpatcher/general/ElfConstants.hpp\<close>.
  \<^item> \<open>Elf_Reader\<close>: \<open>relinker/parsing/ElfReader.cpp\<close>. Returned segments lie inside the file; the section
    headers and their names are exactly those of the file's tables; the dynamic tags are exactly the entries before the
    terminator.
  \<^item> \<open>Relr\<close>: \<open>relinker/parsing/RelrRelocations.cpp\<close>. The decoder agrees with the definition of the RELR format.

  \<^bold>\<open>Decoding.\<close>
  \<^item> \<open>X64_Constants\<close>, \<open>X64_Decoder\<close>, \<open>X64_Instruction_Info\<close>: \<open>codegen/x86/X64InstructionDecoder.cpp\<close>; the length of
    an instruction is at most fifteen, inside the buffer, and depends on its own bytes only; every field of the
    decoded instruction lies inside it.
  \<^item> \<open>X64_Recognisers\<close>: \<open>codegen/x86/DecodedInstruction.cpp\<close>.
  \<^item> \<open>Code_Scanner\<close>: \<open>codegen/InstructionScanner.cpp\<close>. The sweep ends after at most as many steps as the section has
    bytes (it is a total function); its matches are the decoder's, disjoint and in order; every byte of an unwind range
    that is reported without failure is covered.
  \<^item> \<open>X64_Rewriter\<close>: \<open>codegen/x86/X64InstructionRewriter.cpp\<close>. After a replacement every relative reference of the
    section leads to the byte it led to before.

  \<^bold>\<open>Replacing instructions.\<close>
  \<^item> \<open>X64_Stub\<close>, \<open>X64_Stub_Layout\<close>: \<open>codegen/x86/StubBodyBuilder.cpp\<close>. The builder is a record, its methods map it to a
    new one. References to constants and to operands of the site reach them wherever the stub is placed.
  \<^item> \<open>X64_Operands\<close>, \<open>X64_Sse_Lowering\<close>, \<open>X64_Scalar_Lowering\<close>: the operand decoders and the lowerings of
    \<open>codegen/x86\<close>. A lowering emits a list of calls of the builder's interface (\<open>X64_Calls\<close>).
  \<^item> \<open>Xmm_Semantics\<close>, \<open>X64_Sse4a_Correct\<close>, \<open>X64_Sha_Correct\<close>: the vector machine that the emitted calls run on, and
    the proofs that the lowered SSE4a, SHA-1 and SHA-256 instructions compute what the manuals define.
  \<^item> \<open>Gpr_Semantics\<close>, \<open>Gpr_Execution\<close>, \<open>X64_Scalar_Correct\<close>, \<open>X64_Mulx_Correct\<close>, \<open>X64_Bmi_Correct\<close>: the same for
    the BMI1 and BMI2 instructions, on a machine with registers, flags and byte-addressed memory that executes the
    encoded bytes.
  \<^item> \<open>X64_Matcher\<close>: \<open>codegen/x86/Amd64OnlyInstructionMatcher.cpp\<close>, which instruction gets which lowering.
  \<^item> \<open>X64_Window\<close>, \<open>X64_Converter\<close>: \<open>codegen/Amd64OnlyConverter.cpp\<close>, where the jump to a stub fits: in the instruction,
    in a window of neighbours that moves into the stub, or in an island of padding.
  \<^item> \<open>X64_Converter_Correct\<close>, \<open>X64_Converter_Stubs\<close>: the sites of a conversion are disjoint, long enough, hold the bytes
    they were made from, and no branch enters them unless it leads behind the prefixes of an instruction (the converter
    ignores such targets); each body is a finished builder's.

  \<^bold>\<open>Writing.\<close>
  \<^item> \<open>Segment_Layout\<close>: \<open>elfpatcher/general/ProgramHeaderLayoutBuilder.cpp\<close> and \<open>SegmentFilter.cpp\<close>.
  \<^item> \<open>Section_Table\<close>: \<open>elfpatcher/general/SectionHeaderTableBuilder.cpp\<close>.
  \<^item> \<open>Entry_Stub\<close>: \<open>elfpatcher/general/EntryStubBuilder.cpp\<close>.
  \<^item> \<open>Linux_Trampolines\<close>: \<open>_appendTrampoline\<close> of \<open>elfpatcher/linux/LinuxElfPatcher.cpp\<close>, which places the stubs in the file.
  \<^item> \<open>Linux_Rebase\<close>: the checks of the dynamic tables and the fixed base of the same file. The loader's actions on the
    rebased tables at bias zero are its actions on the original ones at the base.
  \<^item> \<open>Linux_Pages\<close>: \<open>SeparateSharedLoadPages\<close> of the same file. The loads that it returns are disjoint, hold the memory image of
    the input, and can be mapped by whole pages.
  \<^item> \<open>Linux_Hash\<close>: the symbol hash tables of the same file (in \<open>Patch\<close>). The searches that a loader makes in the bytes of
    \<open>DT_HASH\<close> and \<open>DT_GNU_HASH\<close> find every defined symbol, and the loop that sizes the filter of the latter ends.

  \<^bold>\<open>How the parts meet.\<close> \<open>Convert\<close> scans each executable segment (\<open>Code_Scanner\<close>, which calls the decoder), asks the
  matcher for a lowering of each match, places it (\<open>X64_Window\<close>) and returns the patched bytes with a list of sites.
  \<open>appendTrampolines\<close> consumes that list. \<open>Linux_Trampolines\<close> composes the results: what the converter promises of its
  sites is what the patcher checks, so that the only failure left is reach, and the patched code runs through its stubs.

  \<^bold>\<open>Loops and bounds.\<close> Loops over containers are structural; the others have a measure (the bytes left, the instructions
  left) and are total. The loop that sizes the filter of \<open>DT_GNU_HASH\<close> (\<open>Linux_Hash.bloomSize\<close>) multiplies words and may not
  end; it is a \<open>partial_function\<close> that returns for up to \<open>2 ^ 28\<close> symbols (\<open>hash_sections_return\<close>). Only the loader's walks over
  the chains of the hash tables, which are no code of the program, take a number of steps: the number of symbols, which
  suffices.
  Hypotheses that sizes stay below \<open>2 ^ 64\<close> and bodies below \<open>2 ^ 31\<close> bytes say that a file fits in memory.

  \<^bold>\<open>Not modelled.\<close> Of the Linux patcher, the import trace, the renaming of imports and the assembly of the other blocks in \<open>Patch\<close>.
  The analyses that only filter or report (system calls, jump tables, unused imports), the guest module builder, the
  pipeline, the command line, the Windows and macOS writers, the red zone framer of the Windows target, the image
  decoders, the tool that renames exports, the shader recompiler and the runtime libraries are not modelled: they are
  glue over files and host interfaces, or other formats. Lowerings whose result the processor leaves
  implementation-defined (the reciprocal approximations) and those that store to memory through several instructions
  (masked and wide stores, CLZERO) are modelled byte for byte, and their stubs are covered by the results on layout,
  but no machine model is stated for them.
\<close>

end
